(* ===== verification/Prelude.thy ===== *)
theory Prelude
  imports Complex_Main "HOL-Library.Word"
begin

text \<open>
  Shared vocabulary of the development: the machine-integer and vector types, IEEE values where
  the code distinguishes non-finite numbers, the C library functions the nodes call
  (\<open>fmod\<close>, \<open>clamp\<close>, \<open>lround\<close>, \<open>atan2\<close>), and the lemma collections the component theories use.
  Finite \<open>double\<close>/\<open>float\<close> values are real numbers: rounding is not modelled.
\<close>

named_theorems const_defs \<open>numeric constants of the parameter header\<close>
named_theorems op_defs \<open>definitions of the operations of a component\<close>

subsection \<open>Types\<close>

type_synonym u8 = "8 word"
type_synonym u16 = "16 word"
type_synonym u32 = "32 word"
type_synonym u64 = "64 word"

type_synonym vec2 = "real \<times> real"
type_synonym vec3 = "real \<times> real \<times> real"
type_synonym quat = "real \<times> real \<times> real \<times> real"

text \<open>IEEE values, with the finite ones idealised to reals.\<close>

datatype xdouble = Fin real | PosInf | NegInf | NaN

fun isfinite :: "xdouble \<Rightarrow> bool" where
  "isfinite (Fin _) = True"
| "isfinite _ = False"

fun finite_part :: "xdouble \<Rightarrow> real" where
  "finite_part (Fin x) = x"
| "finite_part _ = 0"

text \<open>The IEEE comparison \<open>a - b >= d\<close> for finite \<open>a\<close> and \<open>d\<close>.\<close>

fun diff_ge :: "real \<Rightarrow> xdouble \<Rightarrow> real \<Rightarrow> bool" where
  "diff_ge a (Fin b) d = (a - b \<ge> d)"
| "diff_ge a NegInf d = True"
| "diff_ge a PosInf d = False"
| "diff_ge a NaN d = False"

subsection \<open>C library functions on reals\<close>

definition c_trunc :: "real \<Rightarrow> int" where
  "c_trunc x = (if 0 \<le> x then \<lfloor>x\<rfloor> else \<lceil>x\<rceil>)"

definition fmod :: "real \<Rightarrow> real \<Rightarrow> real" where
  "fmod a b = a - b * of_int (c_trunc (a / b))"

text \<open>C's \<open>%\<close> truncates towards zero.\<close>

definition c_rem :: "int \<Rightarrow> int \<Rightarrow> int" where
  "c_rem a b = sgn a * (\<bar>a\<bar> mod \<bar>b\<bar>)"

text \<open>\<open>std::clamp(v, lo, hi)\<close>, for any ordered type.\<close>

definition clamp :: "'a::linorder \<Rightarrow> 'a \<Rightarrow> 'a \<Rightarrow> 'a" where
  "clamp v lo hi = (if v < lo then lo else if hi < v then hi else v)"

text \<open>\<open>std::lround\<close>: nearest integer, halfway cases away from zero.\<close>

definition lround :: "real \<Rightarrow> int" where
  "lround x = (if 0 \<le> x then \<lfloor>x + 1 / 2\<rfloor> else \<lceil>x - 1 / 2\<rceil>)"

definition atan2 :: "real \<Rightarrow> real \<Rightarrow> real" where
  "atan2 y x = Arg (Complex x y)"

definition copysign :: "real \<Rightarrow> real \<Rightarrow> real" where
  "copysign a b = (if 0 \<le> b then \<bar>a\<bar> else - \<bar>a\<bar>)"

subsection \<open>Containers\<close>

text \<open>\<open>emplace\<close> of the standard maps keeps an existing entry.\<close>

definition map_emplace :: "'k \<Rightarrow> 'v \<Rightarrow> ('k \<rightharpoonup> 'v) \<Rightarrow> ('k \<rightharpoonup> 'v)" where
  "map_emplace k v m = (if m k = None then m(k \<mapsto> v) else m)"

subsection \<open>Generic lemmas\<close>

text \<open>The values of a map after an insertion under a free key.\<close>

lemma ex_map_upd: "m i = None \<Longrightarrow> (\<exists>j. (m(i \<mapsto> x)) j = Some y) \<longleftrightarrow> y = x \<or> (\<exists>j. m j = Some y)"
  by (metis fun_upd_apply option.distinct(1) option.inject)

text \<open>\dots and after the removal of a key that held another value.\<close>

lemma ex_map_del: "m i = Some x \<Longrightarrow> y \<noteq> x \<Longrightarrow> (\<exists>j. (m(i := None)) j = Some y) \<longleftrightarrow> (\<exists>j. m j = Some y)"
  by (metis fun_upd_apply option.distinct(1) option.inject)

lemma ex_map_pair_del:
  "m i = Some (v, x) \<Longrightarrow> y \<noteq> x \<Longrightarrow> (\<exists>j w. (m(i := None)) j = Some (w, y)) \<longleftrightarrow> (\<exists>j w. m j = Some (w, y))"
  by (metis fun_upd_apply option.distinct(1) option.inject prod.inject)

lemma ex_map_pair_upd:
  "m i = None \<Longrightarrow> (\<exists>j w. (m(i \<mapsto> (v, x))) j = Some (w, y)) \<longleftrightarrow> y = x \<or> (\<exists>j w. m j = Some (w, y))"
  by (metis fun_upd_apply option.distinct(1) option.inject prod.inject)

lemma clamp_bounds: "lo \<le> hi \<Longrightarrow> lo \<le> clamp v lo hi \<and> clamp v lo hi \<le> hi"
  by (auto simp: clamp_def)

lemma clamp_id [simp]: "lo \<le> v \<Longrightarrow> v \<le> hi \<Longrightarrow> clamp v lo hi = v"
  by (auto simp: clamp_def)

lemma fmod_nonneg: "0 \<le> a \<Longrightarrow> 0 < b \<Longrightarrow> 0 \<le> fmod a b \<and> fmod a b < b"
proof -
  assume "0 \<le> a" "0 < b"
  then have "of_int \<lfloor>a / b\<rfloor> \<le> a / b" "a / b < of_int \<lfloor>a / b\<rfloor> + 1" by linarith+
  with \<open>0 < b\<close> have "of_int \<lfloor>a / b\<rfloor> * b \<le> a" "a < (of_int \<lfloor>a / b\<rfloor> + 1) * b"
    by (simp_all only: pos_le_divide_eq pos_divide_less_eq)
  with \<open>0 \<le> a\<close> \<open>0 < b\<close> show ?thesis
    by (simp add: fmod_def c_trunc_def algebra_simps)
qed

lemma fmod_small: "0 \<le> a \<Longrightarrow> a < b \<Longrightarrow> fmod a b = a"
  by (simp add: fmod_def c_trunc_def floor_eq_iff)

lemma fmod_add_multiple:
  assumes "0 \<le> a" "0 < b"
  shows "fmod (a + of_nat k * b) b = fmod a b"
proof -
  have "(a + of_nat k * b) / b = a / b + of_int (int k)"
    using assms by (simp add: add_divide_distrib)
  then have "\<lfloor>(a + of_nat k * b) / b\<rfloor> = \<lfloor>a / b\<rfloor> + int k" by simp
  with assms show ?thesis by (simp add: fmod_def c_trunc_def algebra_simps)
qed

lemma c_rem_nonneg: "0 \<le> a \<Longrightarrow> 0 < b \<Longrightarrow> c_rem a b = a mod b"
  by (cases "a = 0") (auto simp: c_rem_def sgn_if)

lemma lround_int [simp]: "lround (of_int n) = n"
  by (simp add: lround_def floor_eq_iff ceiling_eq_iff)

lemma lround_near: "\<bar>of_int (lround x) - x\<bar> \<le> 1 / 2"
proof (cases "0 \<le> x")
  case True
  have "x - 1 / 2 \<le> of_int \<lfloor>x + 1 / 2\<rfloor>" "of_int \<lfloor>x + 1 / 2\<rfloor> \<le> x + 1 / 2" by linarith+
  with True show ?thesis unfolding lround_def by (simp only: if_True abs_le_iff) linarith
next
  case False
  have "x - 1 / 2 \<le> of_int \<lceil>x - 1 / 2\<rceil>" "of_int \<lceil>x - 1 / 2\<rceil> \<le> x + 1 / 2" by linarith+
  with False show ?thesis unfolding lround_def by (simp only: if_False abs_le_iff) linarith
qed

lemma lround_mono: "x \<le> y \<Longrightarrow> lround x \<le> lround y"
proof (cases "0 \<le> x \<longleftrightarrow> 0 \<le> y")
  case True
  assume "x \<le> y"
  with True show ?thesis by (auto simp: lround_def intro: floor_mono ceiling_mono)
next
  case False
  assume "x \<le> y"
  with False have "x < 0" "0 \<le> y" by auto
  then have "\<lceil>x - 1 / 2\<rceil> \<le> \<lfloor>y + 1 / 2\<rfloor>" by linarith
  with \<open>x < 0\<close> \<open>0 \<le> y\<close> show ?thesis by (simp add: lround_def)
qed

end
