(* ===== verification/Params.thy ===== *)
theory Params
  imports Prelude
begin

text \<open>
  The constants of \<open>src/src/px4_hummingbird_cmd/include/params.hpp\<close>: timing and tolerances of the
  command node, servo limits and the Dynamixel configuration table. \<open>M_PI\<close> is \<open>pi\<close>.
\<close>

subsection \<open>Rates, timeouts, tolerances\<close>

definition RATE_HZ :: int where [const_defs]: "RATE_HZ = 400"
definition command_delay_sec :: real where [const_defs]: "command_delay_sec = 1 / 2"
definition command_repeat_sec :: real where [const_defs]: "command_repeat_sec = 1"
definition message_timeout_sec :: real where [const_defs]: "message_timeout_sec = 1"

definition target_system_id :: u8 where [const_defs]: "target_system_id = 1"
definition target_component_id :: u8 where [const_defs]: "target_component_id = 1"
definition source_system_id :: u8 where [const_defs]: "source_system_id = 1"
definition source_component_id :: u16 where [const_defs]: "source_component_id = 1"

definition handoff_runtime :: real where [const_defs]: "handoff_runtime = 8"

definition initial_pose_x_m :: real where [const_defs]: "initial_pose_x_m = 0"
definition initial_pose_y_m :: real where [const_defs]: "initial_pose_y_m = - 1"
definition initial_pose_z_m :: real where [const_defs]: "initial_pose_z_m = - 1"
definition initial_pose_roll_rad :: real where [const_defs]: "initial_pose_roll_rad = 0"
definition initial_pose_pitch_rad :: real where [const_defs]: "initial_pose_pitch_rad = 0"
definition initial_pose_yaw_rad :: real where [const_defs]: "initial_pose_yaw_rad = 0"

definition pos_tol :: real where [const_defs]: "pos_tol = 15 / 100"
definition yaw_tol :: real where [const_defs]: "yaw_tol = 5 * pi / 180"
definition att_tol :: real where [const_defs]: "att_tol = 5 * pi / 180"

definition PITCH_MAX :: real where [const_defs]: "PITCH_MAX = 60 * pi / 180"

subsection \<open>Servo parameters\<close>

definition BETA_LIMIT_RAD :: real where [const_defs]: "BETA_LIMIT_RAD = pi"
definition ALPHA_LIMIT_RAD :: real where [const_defs]: "ALPHA_LIMIT_RAD = pi / 6"

definition DDS_RECEIVE_TIMEOUT_SEC :: real where [const_defs]: "DDS_RECEIVE_TIMEOUT_SEC = 1 / 2"
definition SERVO_RETURN_TIME_SEC :: real where [const_defs]: "SERVO_RETURN_TIME_SEC = 5"
definition SERVO_STARTUP_RETURN_TIME_SEC :: real where
  [const_defs]: "SERVO_STARTUP_RETURN_TIME_SEC = 2"

definition SERVO_WOBBLE_MAX_DEG :: real where [const_defs]: "SERVO_WOBBLE_MAX_DEG = 6"

definition SERVO_WOBBLE_PHASE_RAD :: "real list" where
  "SERVO_WOBBLE_PHASE_RAD = [0, pi / 2, 0, pi / 2, pi, 3 * pi / 2]"

definition SERVO_TOPICS :: "string list" where
  "SERVO_TOPICS =
     [''joint_beta1'', ''joint_beta2'', ''joint_beta3'', ''joint_beta4'',
      ''joint_alpha1'', ''joint_alpha2'', ''joint_alpha3'', ''joint_alpha4'']"

definition SERVO_CONTROL_INDEX :: "nat list" where
  "SERVO_CONTROL_INDEX = [0, 1, 1, 0, 2, 3, 4, 5]"

definition SERVO_LIMIT_RAD :: "real list" where
  "SERVO_LIMIT_RAD =
     [BETA_LIMIT_RAD, BETA_LIMIT_RAD, BETA_LIMIT_RAD, BETA_LIMIT_RAD,
      ALPHA_LIMIT_RAD, ALPHA_LIMIT_RAD, ALPHA_LIMIT_RAD, ALPHA_LIMIT_RAD]"

subsection \<open>Dynamixel registers and servo table\<close>

definition PORT_OPEN_RETRY_COUNT :: nat where [const_defs]: "PORT_OPEN_RETRY_COUNT = 10"
definition PING_RETRY_COUNT :: nat where [const_defs]: "PING_RETRY_COUNT = 3"
definition REGISTER_WRITE_RETRY_COUNT :: nat where [const_defs]: "REGISTER_WRITE_RETRY_COUNT = 3"
definition DXL_BAUDRATE :: int where [const_defs]: "DXL_BAUDRATE = 1000000"

definition ADDR_OPERATING_MODE :: u16 where [const_defs]: "ADDR_OPERATING_MODE = 11"
definition ADDR_TORQUE_ENABLE :: u16 where [const_defs]: "ADDR_TORQUE_ENABLE = 64"
definition ADDR_BUS_WATCHDOG :: u16 where [const_defs]: "ADDR_BUS_WATCHDOG = 98"
definition ADDR_HARDWARE_ERROR_STATUS :: u16 where [const_defs]: "ADDR_HARDWARE_ERROR_STATUS = 70"
definition ADDR_VELOCITY_I_GAIN :: u16 where [const_defs]: "ADDR_VELOCITY_I_GAIN = 76"
definition ADDR_VELOCITY_P_GAIN :: u16 where [const_defs]: "ADDR_VELOCITY_P_GAIN = 78"
definition ADDR_POSITION_D_GAIN :: u16 where [const_defs]: "ADDR_POSITION_D_GAIN = 80"
definition ADDR_POSITION_I_GAIN :: u16 where [const_defs]: "ADDR_POSITION_I_GAIN = 82"
definition ADDR_POSITION_P_GAIN :: u16 where [const_defs]: "ADDR_POSITION_P_GAIN = 84"
definition ADDR_GOAL_POSITION :: u16 where [const_defs]: "ADDR_GOAL_POSITION = 116"
definition ADDR_PRESENT_POSITION :: u16 where [const_defs]: "ADDR_PRESENT_POSITION = 132"
definition POSITION_CONTROL_MODE :: u8 where [const_defs]: "POSITION_CONTROL_MODE = 3"
definition TORQUE_OFF :: u8 where [const_defs]: "TORQUE_OFF = 0"
definition TORQUE_ON :: u8 where [const_defs]: "TORQUE_ON = 1"

definition PPR_PER_RAD :: real where "PPR_PER_RAD = 4096 / (2 * pi)"

record ServoConfig =
  sv_id :: u8
  sv_direction :: int
  sv_zero_ppr :: int
  sv_min_ppr :: int
  sv_max_ppr :: int
  sv_angle_limit_rad :: real
  sv_position_p :: u16
  sv_position_i :: u16
  sv_position_d :: u16
  sv_velocity_p :: u16
  sv_velocity_i :: u16

definition servo_config ::
    "u8 \<Rightarrow> int \<Rightarrow> int \<Rightarrow> int \<Rightarrow> int \<Rightarrow> real \<Rightarrow> u16 \<Rightarrow> u16 \<Rightarrow> u16 \<Rightarrow> u16 \<Rightarrow> u16 \<Rightarrow> ServoConfig" where
  "servo_config i d z mn mx lmt pp pi' pd vp vi =
     \<lparr>sv_id = i, sv_direction = d, sv_zero_ppr = z, sv_min_ppr = mn, sv_max_ppr = mx,
      sv_angle_limit_rad = lmt, sv_position_p = pp, sv_position_i = pi', sv_position_d = pd,
      sv_velocity_p = vp, sv_velocity_i = vi\<rparr>"

definition DXL_SERVOS :: "ServoConfig list" where
  "DXL_SERVOS =
     [servo_config 0 1 2048 0 4095 BETA_LIMIT_RAD 1400 0 20 150 400,
      servo_config 1 (- 1) 2048 0 4095 BETA_LIMIT_RAD 1400 0 20 150 400,
      servo_config 2 1 2048 0 4095 ALPHA_LIMIT_RAD 1350 0 20 120 300,
      servo_config 3 1 2048 0 4095 ALPHA_LIMIT_RAD 1350 0 20 120 300,
      servo_config 4 1 2048 0 4095 ALPHA_LIMIT_RAD 1350 0 20 120 300,
      servo_config 5 1 2048 0 4095 ALPHA_LIMIT_RAD 1350 0 20 120 300]"

subsection \<open>What the table guarantees\<close>

text \<open>Every configured servo: sign direction, neutral inside the range, range inside one turn.\<close>

definition servo_ok :: "ServoConfig \<Rightarrow> bool" where
  "servo_ok c \<longleftrightarrow> \<bar>sv_direction c\<bar> = 1 \<and> 0 \<le> sv_min_ppr c \<and> sv_min_ppr c \<le> sv_zero_ppr c
     \<and> sv_zero_ppr c \<le> sv_max_ppr c \<and> sv_max_ppr c \<le> 4095
     \<and> 0 < sv_angle_limit_rad c \<and> sv_angle_limit_rad c \<le> pi"

lemma DXL_SERVOS_ok: "c \<in> set DXL_SERVOS \<Longrightarrow> servo_ok c"
  by (auto simp: DXL_SERVOS_def servo_config_def servo_ok_def const_defs)

lemma length_DXL_SERVOS [simp]: "length DXL_SERVOS = 6"
  by (simp add: DXL_SERVOS_def)

lemma DXL_SERVOS_ids: "map sv_id DXL_SERVOS = [0, 1, 2, 3, 4, 5]"
  by (simp add: DXL_SERVOS_def servo_config_def)

lemma PPR_PER_RAD_pos [simp]: "0 < PPR_PER_RAD"
  by (simp add: PPR_PER_RAD_def)

lemma length_SERVO_tables [simp]:
  "length SERVO_TOPICS = 8" "length SERVO_CONTROL_INDEX = 8" "length SERVO_LIMIT_RAD = 8"
  "length SERVO_WOBBLE_PHASE_RAD = 6"
  by (simp_all add: SERVO_TOPICS_def SERVO_CONTROL_INDEX_def SERVO_LIMIT_RAD_def
      SERVO_WOBBLE_PHASE_RAD_def)

lemma SERVO_LIMIT_RAD_pos: "l \<in> set SERVO_LIMIT_RAD \<Longrightarrow> 0 < l"
proof -
  have "list_all (\<lambda>l. 0 < l) SERVO_LIMIT_RAD" by (simp add: SERVO_LIMIT_RAD_def const_defs)
  then show "l \<in> set SERVO_LIMIT_RAD \<Longrightarrow> 0 < l" by (auto simp: list_all_iff)
qed

end
