(* ===== verification/Flight_Utils.thy ===== *)
theory Flight_Utils
  imports Params
begin

text \<open>
  \<open>src/src/px4_hummingbird_cmd/include/utils.hpp\<close>: the low-pass filter, the hand-over filters, the
  attitude conversions and the five command paths. Eigen is outside the repository: the operations
  the code calls on its vectors are the fields of the record \<open>eigen\<close>, an argument of the
  definitions, and the locale \<open>eigen_lib\<close> states their documented meaning.
\<close>

subsection \<open>Eigen as a parameter\<close>

type_synonym mat3 = "vec3 \<times> vec3 \<times> vec3"

record eigen =
  e_norm3 :: "vec3 \<Rightarrow> real"
  e_norm4 :: "quat \<Rightarrow> real"
  e_normalized :: "quat \<Rightarrow> quat"
  e_quat_of_rot :: "mat3 \<Rightarrow> quat"

fun sq_norm4 :: "quat \<Rightarrow> real" where
  "sq_norm4 (w, x, y, z) = w\<^sup>2 + x\<^sup>2 + y\<^sup>2 + z\<^sup>2"

fun scale4 :: "real \<Rightarrow> quat \<Rightarrow> quat" where
  "scale4 a (w, x, y, z) = (a * w, a * x, a * y, a * z)"

subsection \<open>Low-pass filter\<close>

record LPF =
  lpf_y :: real
  lpf_alpha :: real
  lpf_initialized :: bool

definition LPF_new :: "real \<Rightarrow> LPF" where
  "LPF_new convergence_time_sec =
     (if convergence_time_sec \<le> 0
      then \<lparr>lpf_y = 0, lpf_alpha = 1, lpf_initialized = False\<rparr>
      else let sample_count = convergence_time_sec * of_int RATE_HZ
           in \<lparr>lpf_y = 0, lpf_alpha = 1 - (1 / 100) powr (1 / sample_count),
               lpf_initialized = False\<rparr>)"

definition LPF_update :: "LPF \<Rightarrow> real \<Rightarrow> real \<times> LPF" where
  "LPF_update f x =
     (if \<not> lpf_initialized f then (x, f\<lparr>lpf_y := x, lpf_initialized := True\<rparr>)
      else let y' = lpf_alpha f * x + (1 - lpf_alpha f) * lpf_y f
           in (y', f\<lparr>lpf_y := y'\<rparr>))"

definition LPF_reset :: "LPF \<Rightarrow> real \<Rightarrow> LPF" where
  "LPF_reset f x = f\<lparr>lpf_y := x, lpf_initialized := True\<rparr>"

subsection \<open>Command target and hand-over filters\<close>

record TargetCMD =
  tc_x :: real
  tc_y :: real
  tc_z :: real
  tc_vx :: real
  tc_vy :: real
  tc_roll :: real
  tc_pitch :: real
  tc_yaw :: real

definition TargetCMD_zero :: TargetCMD where
  "TargetCMD_zero = \<lparr>tc_x = 0, tc_y = 0, tc_z = 0, tc_vx = 0, tc_vy = 0,
     tc_roll = 0, tc_pitch = 0, tc_yaw = 0\<rparr>"

record HandoffFilters =
  hf_x :: LPF
  hf_y :: LPF
  hf_z :: LPF
  hf_roll :: LPF
  hf_pitch :: LPF
  hf_yaw :: LPF

definition HandoffFilters_new :: HandoffFilters where
  "HandoffFilters_new = \<lparr>hf_x = LPF_new handoff_runtime, hf_y = LPF_new handoff_runtime,
     hf_z = LPF_new handoff_runtime, hf_roll = LPF_new handoff_runtime,
     hf_pitch = LPF_new handoff_runtime, hf_yaw = LPF_new handoff_runtime\<rparr>"

definition HandoffFilters_reset :: "HandoffFilters \<Rightarrow> TargetCMD \<Rightarrow> HandoffFilters" where
  "HandoffFilters_reset hf cmd = hf\<lparr>
     hf_x := LPF_reset (hf_x hf) (tc_x cmd),
     hf_y := LPF_reset (hf_y hf) (tc_y cmd),
     hf_z := LPF_reset (hf_z hf) (tc_z cmd),
     hf_roll := LPF_reset (hf_roll hf) (tc_roll cmd),
     hf_pitch := LPF_reset (hf_pitch hf) (tc_pitch cmd),
     hf_yaw := LPF_reset (hf_yaw hf) (tc_yaw cmd)\<rparr>"

subsection \<open>Attitude\<close>

definition rpyToQuat :: "eigen \<Rightarrow> vec3 \<Rightarrow> quat" where
  "rpyToQuat E rpy = (case rpy of (roll, pitch, yaw) \<Rightarrow>
     let cr = cos (roll / 2); sr = sin (roll / 2);
         cp = cos (pitch / 2); sp = sin (pitch / 2);
         cy = cos (yaw / 2); sy = sin (yaw / 2)
     in e_normalized E
          (cr * cp * cy + sr * sp * sy,
           sr * cp * cy - cr * sp * sy,
           cr * sp * cy + sr * cp * sy,
           cr * cp * sy - sr * sp * cy))"

text \<open>The two \<open>while\<close> loops of \<open>unwrapNear\<close>, one function each.\<close>

function unwrap_down :: "real \<Rightarrow> real \<Rightarrow> real" where
  "unwrap_down target reference =
     (if target - reference > pi then unwrap_down (target - 2 * pi) reference else target)"
  by pat_completeness auto
termination
proof (relation "measure (\<lambda>(t, r). nat \<lceil>(t - r) / pi\<rceil>)")
  fix target reference :: real
  assume gt: "target - reference > pi"
  have "(target - 2 * pi - reference) / pi = (target - reference) / pi - 2"
    by (simp add: field_simps)
  then have "\<lceil>(target - 2 * pi - reference) / pi\<rceil> = \<lceil>(target - reference) / pi\<rceil> - 2"
    by (simp add: ceiling_diff_numeral)
  moreover have "1 < \<lceil>(target - reference) / pi\<rceil>"
    using gt by (simp add: less_ceiling_iff pos_less_divide_eq)
  ultimately show "((target - 2 * pi, reference), target, reference)
      \<in> measure (\<lambda>(t, r). nat \<lceil>(t - r) / pi\<rceil>)"
    by (simp only: in_measure prod.case)
qed simp

function unwrap_up :: "real \<Rightarrow> real \<Rightarrow> real" where
  "unwrap_up target reference =
     (if target - reference < - pi then unwrap_up (target + 2 * pi) reference else target)"
  by pat_completeness auto
termination
proof (relation "measure (\<lambda>(t, r). nat \<lceil>(r - t) / pi\<rceil>)")
  fix target reference :: real
  assume lt: "target - reference < - pi"
  have "(reference - (target + 2 * pi)) / pi = (reference - target) / pi - 2"
    by (simp add: field_simps)
  then have "\<lceil>(reference - (target + 2 * pi)) / pi\<rceil> = \<lceil>(reference - target) / pi\<rceil> - 2"
    by (simp add: ceiling_diff_numeral)
  moreover have "1 < \<lceil>(reference - target) / pi\<rceil>"
    using lt by (simp add: less_ceiling_iff pos_less_divide_eq)
  ultimately show "((target + 2 * pi, reference), target, reference)
      \<in> measure (\<lambda>(t, r). nat \<lceil>(r - t) / pi\<rceil>)"
    by (simp only: in_measure prod.case)
qed simp

declare unwrap_down.simps [simp del] unwrap_up.simps [simp del]

definition unwrapNear :: "real \<Rightarrow> real \<Rightarrow> real" where
  "unwrapNear target reference = unwrap_up (unwrap_down target reference) reference"

definition angleErrorAbs :: "real \<Rightarrow> real \<Rightarrow> real" where
  "angleErrorAbs actual target = \<bar>unwrapNear actual target - target\<bar>"

definition quatToRpy :: "quat \<Rightarrow> vec3" where
  "quatToRpy q = (case q of (w, x, y, z) \<Rightarrow>
     let sinr_cosp = 2 * (w * x + y * z);
         cosr_cosp = 1 - 2 * (x * x + y * y);
         roll = atan2 sinr_cosp cosr_cosp;
         sinp = 2 * (w * y - z * x);
         pitch = (if \<bar>sinp\<bar> \<ge> 1 then copysign (pi / 2) sinp else arcsin sinp);
         siny_cosp = 2 * (w * z + x * y);
         cosy_cosp = 1 - 2 * (y * y + z * z);
         yaw = atan2 siny_cosp cosy_cosp
     in (roll, pitch, yaw))"

definition initialPose :: TargetCMD where
  "initialPose = TargetCMD_zero\<lparr>tc_x := initial_pose_x_m, tc_y := initial_pose_y_m,
     tc_z := initial_pose_z_m, tc_roll := initial_pose_roll_rad,
     tc_pitch := initial_pose_pitch_rad, tc_yaw := initial_pose_yaw_rad\<rparr>"

definition RC2DDS_handoff :: "TargetCMD \<Rightarrow> HandoffFilters \<Rightarrow> TargetCMD \<times> HandoffFilters" where
  "RC2DDS_handoff initial_pose filters =
     (let target = initial_pose\<lparr>tc_yaw := unwrapNear (tc_yaw initial_pose) (lpf_y (hf_yaw filters))\<rparr>;
          (cx, fx) = LPF_update (hf_x filters) (tc_x target);
          (cy, fy) = LPF_update (hf_y filters) (tc_y target);
          (cz, fz) = LPF_update (hf_z filters) (tc_z target);
          (cr, fr) = LPF_update (hf_roll filters) (tc_roll target);
          (cp, fp) = LPF_update (hf_pitch filters) (tc_pitch target);
          (cw, fw) = LPF_update (hf_yaw filters) (tc_yaw target)
      in (TargetCMD_zero\<lparr>tc_x := cx, tc_y := cy, tc_z := cz,
            tc_roll := cr, tc_pitch := cp, tc_yaw := cw\<rparr>,
          \<lparr>hf_x = fx, hf_y = fy, hf_z = fz, hf_roll = fr, hf_pitch = fp, hf_yaw = fw\<rparr>))"

subsection \<open>Command paths\<close>

text \<open>\<open>a * a * (3 - 2 a)\<close>, the ramp the paths share.\<close>

definition smoothstep :: "real \<Rightarrow> real" where
  "smoothstep a = a * a * (3 - 2 * a)"

definition posPath :: "real \<Rightarrow> TargetCMD" where
  "posPath t =
     (let TWO_POINT = True; SEG_SEC = 2; HOLD_SEC = 3; XY = 1;
          CYCLE_SEC = SEG_SEC + HOLD_SEC;
          phase = c_rem \<lfloor>t / CYCLE_SEC\<rfloor> (if TWO_POINT then 2 else 4);
          local_t = fmod t CYCLE_SEC;
          corners = [(XY, 0), (XY, XY), (0, XY), (0, 0)];
          p0 = (if TWO_POINT then (if phase = 0 then (0, 0) else (XY, 0))
                else (if phase = 0 then (0, 0) else corners ! nat (phase - 1)));
          p1 = (if TWO_POINT then (if phase = 0 then (XY, 0) else (0, 0))
                else corners ! nat phase);
          a = local_t / SEG_SEC;
          moving = local_t < SEG_SEC;
          s = (if moving then smoothstep a else 1);
          ds_dt = 6 * a * (1 - a) / SEG_SEC
      in TargetCMD_zero\<lparr>
           tc_vx := (if moving then (fst p1 - fst p0) * ds_dt else 0),
           tc_vy := (if moving then (snd p1 - snd p0) * ds_dt else 0),
           tc_x := fst p0 + (fst p1 - fst p0) * s,
           tc_y := snd p0 + (snd p1 - snd p0) * s,
           tc_z := 0, tc_roll := 0, tc_pitch := 0, tc_yaw := 0\<rparr>)"

definition attPath :: "real \<Rightarrow> TargetCMD" where
  "attPath t =
     (let TUNE_SEC = 40;
          tm = fmod t TUNE_SEC;
          axis_t = tm;
          w = 2 * pi / TUNE_SEC
      in TargetCMD_zero\<lparr>tc_x := 0, tc_y := 0, tc_z := 0, tc_roll := 0,
           tc_pitch := PITCH_MAX * sin (w * axis_t), tc_yaw := 0\<rparr>)"

text \<open>
  \<open>stepAttPath\<close> in three parts: the angle range of a stage, the pitch at a time of the staged
  sequence, and the whole cycle.
\<close>

definition step_FIRST_STAGE_COUNT :: int where
  "step_FIRST_STAGE_COUNT = (let SWITCH_DEG = 60; FIRST_STEP_DEG = 5 in c_trunc (SWITCH_DEG / FIRST_STEP_DEG))"

definition step_UP_STAGE_COUNT :: int where
  "step_UP_STAGE_COUNT = (let SWITCH_DEG = 60; SECOND_STEP_DEG = 1; MAX_DEG = 60
     in step_FIRST_STAGE_COUNT + c_trunc ((MAX_DEG - SWITCH_DEG) / SECOND_STEP_DEG))"

definition step_stage_deg :: "int \<Rightarrow> real \<times> real" where
  "step_stage_deg stage =
     (let SWITCH_DEG = 60; FIRST_STEP_DEG = 5; SECOND_STEP_DEG = 1; MAX_DEG = 60;
          (start_deg, target_deg) =
            (if stage < step_FIRST_STAGE_COUNT
             then (of_int stage * FIRST_STEP_DEG, of_int stage * FIRST_STEP_DEG + FIRST_STEP_DEG)
             else let second_stage = stage - step_FIRST_STAGE_COUNT;
                      start_deg = SWITCH_DEG + of_int second_stage * SECOND_STEP_DEG
                  in (start_deg, start_deg + SECOND_STEP_DEG))
      in (min start_deg MAX_DEG, min target_deg MAX_DEG))"

definition step_stage_pitch :: "real \<Rightarrow> real" where
  "step_stage_pitch ts =
     (let RAMP_SEC = 3; HOLD_SEC = 5; DEG2RAD = pi / 180; stage_sec = RAMP_SEC + HOLD_SEC;
          raw_stage = \<lfloor>ts / stage_sec\<rfloor>;
          stage_t = fmod ts stage_sec;
          down = (raw_stage \<ge> step_UP_STAGE_COUNT);
          stage = (if down then 2 * step_UP_STAGE_COUNT - raw_stage - 1 else raw_stage);
          (start_deg, target_deg) = (if down then prod.swap (step_stage_deg stage) else step_stage_deg stage);
          start_angle = start_deg * DEG2RAD;
          target_angle = target_deg * DEG2RAD
      in if stage_t < RAMP_SEC
         then start_angle + (target_angle - start_angle) * smoothstep (stage_t / RAMP_SEC)
         else target_angle)"

definition stepAttPath :: "real \<Rightarrow> TargetCMD" where
  "stepAttPath t =
     (let ZERO_HOLD_SEC = 2; RAMP_SEC = 3; HOLD_SEC = 5;
          cmd = TargetCMD_zero;
          stage_sec = RAMP_SEC + HOLD_SEC;
          cycle_sec = ZERO_HOLD_SEC + 2 * of_int step_UP_STAGE_COUNT * stage_sec + ZERO_HOLD_SEC;
          cycle_t = fmod t cycle_sec
      in if cycle_t < ZERO_HOLD_SEC then cmd
         else let ts = cycle_t - ZERO_HOLD_SEC
              in if ts \<ge> 2 * of_int step_UP_STAGE_COUNT * stage_sec then cmd
                 else cmd\<lparr>tc_pitch := step_stage_pitch ts\<rparr>)"

definition circle_demo :: "real \<Rightarrow> TargetCMD" where
  "circle_demo t =
     (let HOVER_SEC = 3; PERIOD = 30; RADIUS = 1 / 2; PITCH_AMP = 0 * pi / 180
      in if t < HOVER_SEC then TargetCMD_zero
         else let tm = t - HOVER_SEC; w = 2 * pi / PERIOD
              in TargetCMD_zero\<lparr>tc_x := RADIUS * (cos (w * tm) - 1),
                   tc_y := RADIUS * sin (w * tm), tc_z := 0, tc_roll := 0,
                   tc_pitch := PITCH_AMP * sin (w * tm), tc_yaw := 0\<rparr>)"

definition demo_straight :: "real \<Rightarrow> TargetCMD" where
  "demo_straight t =
     (let MOVE_SEC = 1; HOLD_SEC = 5; DIST = 1; PERIOD = 2 * (MOVE_SEC + HOLD_SEC);
          tm = fmod (max 0 t) PERIOD
      in if tm < HOLD_SEC then TargetCMD_zero
         else if tm < HOLD_SEC + MOVE_SEC
         then let a = (tm - HOLD_SEC) / MOVE_SEC
              in TargetCMD_zero\<lparr>tc_y := DIST * smoothstep a,
                   tc_vy := DIST * 6 * a * (1 - a) / MOVE_SEC\<rparr>
         else if tm < 2 * HOLD_SEC + MOVE_SEC then TargetCMD_zero\<lparr>tc_y := DIST\<rparr>
         else let a = (tm - 2 * HOLD_SEC - MOVE_SEC) / MOVE_SEC
              in TargetCMD_zero\<lparr>tc_y := DIST * (1 - smoothstep a),
                   tc_vy := - DIST * 6 * a * (1 - a) / MOVE_SEC\<rparr>)"

subsection \<open>The filter contract\<close>

text \<open>
  What the servo nodes and the hand-over rely on: an update multiplies the distance to its input by
  a fixed factor below one, and a reset places the output.
\<close>

locale smoothing_filter =
  fixes upd :: "'f \<Rightarrow> real \<Rightarrow> real \<times> 'f"
    and reset :: "'f \<Rightarrow> real \<Rightarrow> 'f"
    and val :: "'f \<Rightarrow> real"
    and keep :: "'f \<Rightarrow> real"
    and invar :: "'f \<Rightarrow> bool"
  assumes upd_out: "invar f \<Longrightarrow> fst (upd f x) = val (snd (upd f x))"
    and upd_err: "invar f \<Longrightarrow> val (snd (upd f x)) - x = keep f * (val f - x)"
    and keep_range: "invar f \<Longrightarrow> 0 \<le> keep f \<and> keep f < 1"
    and keep_upd: "invar f \<Longrightarrow> keep (snd (upd f x)) = keep f"
    and invar_upd: "invar f \<Longrightarrow> invar (snd (upd f x))"
    and val_reset: "invar f \<Longrightarrow> val (reset f x) = x"
    and invar_reset: "invar f \<Longrightarrow> invar (reset f x)"
begin

lemma upd_convex:
  assumes "invar f"
  shows "fst (upd f x) = keep f * val f + (1 - keep f) * x"
  using upd_out [OF assms, of x] upd_err [OF assms, of x] by (simp add: algebra_simps)

lemma upd_within:
  assumes "invar f" "lo \<le> val f" "val f \<le> hi" "lo \<le> x" "x \<le> hi"
  shows "lo \<le> fst (upd f x) \<and> fst (upd f x) \<le> hi"
proof -
  let ?k = "keep f"
  have k: "0 \<le> ?k" "0 \<le> 1 - ?k" using keep_range [OF assms(1)] by auto
  have "?k * lo + (1 - ?k) * lo \<le> ?k * val f + (1 - ?k) * x"
    using k assms by (intro add_mono mult_left_mono) auto
  moreover have "?k * val f + (1 - ?k) * x \<le> ?k * hi + (1 - ?k) * hi"
    using k assms by (intro add_mono mult_left_mono) auto
  ultimately show ?thesis by (simp add: upd_convex [OF assms(1)] algebra_simps)
qed

lemma iterate_invar: "invar f \<Longrightarrow> invar (((\<lambda>g. snd (upd g x)) ^^ n) f)"
  by (induction n) (auto intro: invar_upd)

lemma iterate_keep: "invar f \<Longrightarrow> keep (((\<lambda>g. snd (upd g x)) ^^ n) f) = keep f"
  by (induction n) (auto simp: keep_upd iterate_invar)

lemma iterate_err:
  "invar f \<Longrightarrow> val (((\<lambda>g. snd (upd g x)) ^^ n) f) - x = keep f ^ n * (val f - x)"
proof (induction n)
  case (Suc n)
  let ?g = "((\<lambda>g. snd (upd g x)) ^^ n) f"
  have "val (snd (upd ?g x)) - x = keep ?g * (val ?g - x)"
    using Suc.prems by (intro upd_err iterate_invar)
  with Suc show ?case by (simp add: iterate_keep)
qed simp

end

definition LPF_ok :: "LPF \<Rightarrow> bool" where
  "LPF_ok f \<longleftrightarrow> lpf_initialized f \<and> 0 < lpf_alpha f \<and> lpf_alpha f \<le> 1"

interpretation lpf: smoothing_filter LPF_update LPF_reset lpf_y "\<lambda>f. 1 - lpf_alpha f" LPF_ok
  by unfold_locales (auto simp: LPF_update_def LPF_reset_def LPF_ok_def Let_def algebra_simps)

lemma LPF_new_alpha_range: "0 < lpf_alpha (LPF_new t) \<and> lpf_alpha (LPF_new t) \<le> 1"
proof (cases "t \<le> 0")
  case False
  then have "(1 / 100) powr (1 / (t * of_int RATE_HZ)) < (1 / 100) powr (0::real)"
    by (intro powr_less_mono') (auto simp: RATE_HZ_def)
  with False show ?thesis by (auto simp: LPF_new_def Let_def)
qed (simp add: LPF_new_def)

lemma LPF_reset_new_ok [simp]: "LPF_ok (LPF_reset (LPF_new t) x)"
  using LPF_new_alpha_range [of t] by (simp add: LPF_ok_def LPF_reset_def)

lemma LPF_reset_simps [simp]:
  "lpf_y (LPF_reset f x) = x" "lpf_alpha (LPF_reset f x) = lpf_alpha f"
  by (simp_all add: LPF_reset_def)

subsection \<open>Unwrapping angles\<close>

lemma unwrap_down_spec:
  "unwrap_down t r - r \<le> pi \<and> (t - r \<le> pi \<longrightarrow> unwrap_down t r = t)
   \<and> (pi < t - r \<longrightarrow> - pi < unwrap_down t r - r) \<and> (\<exists>k::nat. unwrap_down t r = t - 2 * pi * of_nat k)"
proof (induction t r rule: unwrap_down.induct)
  case (1 t r)
  show ?case
  proof (cases "t - r > pi")
    case True
    note IH = "1.IH" [OF True]
    then obtain k :: nat where k: "unwrap_down (t - 2 * pi) r = t - 2 * pi - 2 * pi * of_nat k" by auto
    then have "unwrap_down (t - 2 * pi) r = t - 2 * pi * of_nat (Suc k)" by (simp add: algebra_simps)
    moreover have "- pi < unwrap_down (t - 2 * pi) r - r"
      using IH True by (cases "t - 2 * pi - r \<le> pi") auto
    ultimately show ?thesis using IH True
      by (auto simp only: unwrap_down.simps [of t r] if_True)
  next
    case False
    then show ?thesis by (auto simp: unwrap_down.simps [of t r] intro: exI [of _ 0])
  qed
qed

lemma unwrap_up_spec:
  "- pi \<le> unwrap_up t r - r \<and> (- pi \<le> t - r \<longrightarrow> unwrap_up t r = t)
   \<and> (t - r < - pi \<longrightarrow> unwrap_up t r - r < pi) \<and> (\<exists>k::nat. unwrap_up t r = t + 2 * pi * of_nat k)"
proof (induction t r rule: unwrap_up.induct)
  case (1 t r)
  show ?case
  proof (cases "t - r < - pi")
    case True
    note IH = "1.IH" [OF True]
    then obtain k :: nat where k: "unwrap_up (t + 2 * pi) r = t + 2 * pi + 2 * pi * of_nat k" by auto
    then have "unwrap_up (t + 2 * pi) r = t + 2 * pi * of_nat (Suc k)" by (simp add: algebra_simps)
    moreover have "unwrap_up (t + 2 * pi) r - r < pi"
      using IH True by (cases "- pi \<le> t + 2 * pi - r") auto
    ultimately show ?thesis using IH True
      by (auto simp only: unwrap_up.simps [of t r] if_True)
  next
    case False
    then show ?thesis by (auto simp: unwrap_up.simps [of t r] intro: exI [of _ 0])
  qed
qed

lemma unwrapNear_near: "\<bar>unwrapNear t r - r\<bar> \<le> pi"
  using unwrap_down_spec [of t r] unwrap_up_spec [of "unwrap_down t r" r]
  by (cases "- pi \<le> unwrap_down t r - r") (auto simp: unwrapNear_def abs_le_iff)

lemma unwrapNear_multiple: "\<exists>k::int. unwrapNear t r = t + 2 * pi * of_int k"
proof -
  obtain m n :: nat where "unwrap_down t r = t - 2 * pi * of_nat m"
    "unwrapNear t r = unwrap_down t r + 2 * pi * of_nat n"
    using unwrap_down_spec [of t r] unwrap_up_spec [of "unwrap_down t r" r]
    unfolding unwrapNear_def by blast
  then have "unwrapNear t r = t + 2 * pi * of_int (int n - int m)" by (simp add: algebra_simps)
  then show ?thesis by blast
qed

lemma unwrapNear_id [simp]: "\<bar>t - r\<bar> \<le> pi \<Longrightarrow> unwrapNear t r = t"
  using unwrap_down_spec [of t r] unwrap_up_spec [of t r] by (simp add: unwrapNear_def abs_le_iff)

lemma unwrapNear_sin_cos: "sin (unwrapNear t r) = sin t \<and> cos (unwrapNear t r) = cos t"
proof -
  obtain k :: int where "unwrapNear t r = t + 2 * pi * of_int k" using unwrapNear_multiple by blast
  then show ?thesis by (simp add: sin_add cos_add sin_int_2pin cos_int_2pin)
qed

lemma angleErrorAbs_range: "0 \<le> angleErrorAbs a t \<and> angleErrorAbs a t \<le> pi"
  using unwrapNear_near by (simp add: angleErrorAbs_def)

subsection \<open>Attitude conversions\<close>

text \<open>What Eigen documents of the operations the code uses.\<close>

locale eigen_lib =
  fixes E :: eigen
  assumes norm3: "e_norm3 E (x, y, z) = sqrt (x\<^sup>2 + y\<^sup>2 + z\<^sup>2)"
    and norm4: "e_norm4 E q = sqrt (sq_norm4 q)"
    and normalized: "sq_norm4 q \<noteq> 0 \<Longrightarrow> e_normalized E q = scale4 (1 / sqrt (sq_norm4 q)) q"
begin

lemma normalized_unit [simp]: "sq_norm4 q = 1 \<Longrightarrow> e_normalized E q = q"
  by (cases q) (simp add: normalized)

lemma sq_norm4_normalized: "sq_norm4 q \<noteq> 0 \<Longrightarrow> sq_norm4 (e_normalized E q) = 1"
proof (cases q)
  case (fields w x y z)
  moreover assume "sq_norm4 q \<noteq> 0"
  moreover have "0 \<le> sq_norm4 q" using fields by simp
  ultimately show ?thesis
    by (simp add: normalized power_mult_distrib power_divide flip: add_divide_distrib)
qed

end

fun rpy_raw :: "vec3 \<Rightarrow> quat" where
  "rpy_raw (roll, pitch, yaw) =
     (let cr = cos (roll / 2); sr = sin (roll / 2);
          cp = cos (pitch / 2); sp = sin (pitch / 2);
          cy = cos (yaw / 2); sy = sin (yaw / 2)
      in (cr * cp * cy + sr * sp * sy, sr * cp * cy - cr * sp * sy,
          cr * sp * cy + sr * cp * sy, cr * cp * sy - sr * sp * cy))"

lemma rpyToQuat_raw: "rpyToQuat E rpy = e_normalized E (rpy_raw rpy)"
  by (cases rpy) (simp add: rpyToQuat_def Let_def)

lemma euler_identities:
  fixes cr sr cp sp cy sy :: real
  assumes "cr\<^sup>2 + sr\<^sup>2 = 1" "cp\<^sup>2 + sp\<^sup>2 = 1" "cy\<^sup>2 + sy\<^sup>2 = 1"
    and "w = cr * cp * cy + sr * sp * sy" "x = sr * cp * cy - cr * sp * sy"
    and "y = cr * sp * cy + sr * cp * sy" "z = cr * cp * sy - sr * sp * cy"
  shows "w\<^sup>2 + x\<^sup>2 + y\<^sup>2 + z\<^sup>2 = 1"
    and "2 * (w * x + y * z) = (2 * sr * cr) * (cp\<^sup>2 - sp\<^sup>2)"
    and "1 - 2 * (x * x + y * y) = (cr\<^sup>2 - sr\<^sup>2) * (cp\<^sup>2 - sp\<^sup>2)"
    and "2 * (w * y - z * x) = 2 * sp * cp"
    and "2 * (w * z + x * y) = (2 * sy * cy) * (cp\<^sup>2 - sp\<^sup>2)"
    and "1 - 2 * (y * y + z * z) = (cy\<^sup>2 - sy\<^sup>2) * (cp\<^sup>2 - sp\<^sup>2)"
  using assms by algebra+

lemma half_angles:
  fixes a :: real
  shows "(cos (a / 2))\<^sup>2 + (sin (a / 2))\<^sup>2 = 1"
    and "2 * sin (a / 2) * cos (a / 2) = sin a"
    and "(cos (a / 2))\<^sup>2 - (sin (a / 2))\<^sup>2 = cos a"
  using sin_double [of "a / 2"] cos_double [of "a / 2"] by simp_all

lemma sq_norm4_rpy_raw [simp]: "sq_norm4 (rpy_raw rpy) = 1"
  by (cases rpy) (simp add: Let_def euler_identities(1) [OF half_angles(1) half_angles(1) half_angles(1)])

lemma atan2_polar:
  assumes "0 < rho" "- pi < th" "th \<le> pi"
  shows "atan2 (sin th * rho) (cos th * rho) = th"
proof -
  have "Complex (cos th * rho) (sin th * rho) = of_real rho * cis th"
    by (simp add: complex_eq_iff)
  then have "sgn (Complex (cos th * rho) (sin th * rho)) = cis th"
    using \<open>0 < rho\<close> by (simp add: sgn_mult sgn_of_real)
  then show ?thesis unfolding atan2_def using assms by (intro cis_Arg_unique) auto
qed

lemma quatToRpy_rpy_raw:
  assumes "- pi < r" "r \<le> pi" "- (pi / 2) < p" "p < pi / 2" "- pi < y" "y \<le> pi"
  shows "quatToRpy (rpy_raw (r, p, y)) = (r, p, y)"
proof -
  have cp: "0 < cos p" using assms by (intro cos_gt_zero_pi) auto
  then have "0 < (cos p)\<^sup>2" by simp
  then have "(sin p)\<^sup>2 < 1" using sin_cos_squared_add [of p] by linarith
  then have "\<bar>sin p\<bar> < 1" by (simp add: abs_square_less_1)
  moreover have "arcsin (sin p) = p" using assms by (intro arcsin_sin) auto
  moreover have "atan2 (sin r * cos p) (cos r * cos p) = r"
    "atan2 (sin y * cos p) (cos y * cos p) = y"
    using assms cp by (auto intro: atan2_polar)
  moreover obtain w x v z where q: "rpy_raw (r, p, y) = (w, x, v, z)" by (cases "rpy_raw (r, p, y)")
  then have eu: "2 * (w * x + v * z) = sin r * cos p" "1 - 2 * (x * x + v * v) = cos r * cos p"
    "2 * (w * v - z * x) = sin p"
    "2 * (w * z + x * v) = sin y * cos p" "1 - 2 * (v * v + z * z) = cos y * cos p"
    using euler_identities(2-6) [OF half_angles(1) [of r] half_angles(1) [of p] half_angles(1) [of y],
        of w x v z]
    by (auto simp only: rpy_raw.simps Let_def prod.inject half_angles)
  ultimately show ?thesis by (simp only: q quatToRpy_def Let_def prod.case eu) simp
qed

subsection \<open>The paths\<close>

lemma smoothstep_range: "0 \<le> a \<Longrightarrow> a \<le> 1 \<Longrightarrow> 0 \<le> smoothstep a \<and> smoothstep a \<le> 1"
proof -
  assume a: "0 \<le> a" "a \<le> 1"
  have "0 \<le> (1 - a)\<^sup>2 * (1 + 2 * a)" using a by simp
  moreover have "1 - smoothstep a = (1 - a)\<^sup>2 * (1 + 2 * a)"
    by (simp add: smoothstep_def power2_eq_square algebra_simps)
  moreover have "0 \<le> smoothstep a" using a by (simp add: smoothstep_def)
  ultimately show ?thesis by linarith
qed

lemma smoothstep_ends [simp]: "smoothstep 0 = 0" "smoothstep 1 = 1"
  by (simp_all add: smoothstep_def)

lemma smoothstep_deriv: "(smoothstep has_real_derivative 6 * a * (1 - a)) (at a)"
  unfolding smoothstep_def by (auto intro!: derivative_eq_intros simp: algebra_simps)

text \<open>The speed profile of a ramp peaks at its middle.\<close>

lemma ramp_speed: "0 \<le> a \<Longrightarrow> a \<le> 1 \<Longrightarrow> 0 \<le> 6 * a * (1 - a) \<and> 6 * a * (1 - a) \<le> 3 / 2" for a :: real
proof -
  assume "0 \<le> a" "a \<le> 1"
  then have "0 \<le> 6 * a * (1 - a)" by simp
  moreover have "6 * a * (1 - a) = 3 / 2 - 6 * (a - 1 / 2)\<^sup>2"
    by (simp add: power2_eq_square algebra_simps)
  ultimately show ?thesis by simp
qed

text \<open>Contract of a command path: a box the offsets stay in, and level roll and yaw.\<close>

locale bounded_path =
  fixes path :: "real \<Rightarrow> TargetCMD" and reach :: real and pitch_max :: real
  assumes offsets: "0 \<le> t \<Longrightarrow> \<bar>tc_x (path t)\<bar> \<le> reach \<and> \<bar>tc_y (path t)\<bar> \<le> reach \<and> tc_z (path t) = 0"
    and attitude: "0 \<le> t \<Longrightarrow> tc_roll (path t) = 0 \<and> tc_yaw (path t) = 0 \<and> \<bar>tc_pitch (path t)\<bar> \<le> pitch_max"
begin

lemma shifted_within:
  assumes "0 \<le> t"
  shows "\<bar>px + tc_x (path t) - px\<bar> \<le> reach \<and> \<bar>py + tc_y (path t) - py\<bar> \<le> reach
    \<and> pz + tc_z (path t) = pz"
  using offsets [OF assms] by simp

end

lemma posPath_simps:
  assumes "0 \<le> t"
  defines "l \<equiv> fmod t 5" and "odd_phase \<equiv> odd \<lfloor>t / 5\<rfloor>"
  defines "s \<equiv> (if l < 2 then smoothstep (l / 2) else 1)"
  shows "posPath t = TargetCMD_zero\<lparr>
    tc_vx := (if l < 2 then (if odd_phase then - 1 else 1) * (6 * (l / 2) * (1 - l / 2) / 2) else 0),
    tc_x := (if odd_phase then 1 - s else s)\<rparr>"
proof -
  have "0 \<le> \<lfloor>t / 5\<rfloor>" using assms(1) by simp
  then have "c_rem \<lfloor>t / 5\<rfloor> 2 = (if odd_phase then 1 else 0)"
    by (simp add: c_rem_nonneg odd_phase_def mod_2_eq_odd)
  then show ?thesis
    by (simp add: posPath_def Let_def l_def s_def TargetCMD_zero_def)
qed


lemma fmod_unit: "0 \<le> t \<Longrightarrow> 0 < b \<Longrightarrow> 0 \<le> fmod t b / b \<and> fmod t b / b \<le> 1"
  using fmod_nonneg [of t b] by (auto simp: field_simps)

lemma posPath_ramp_range:
  assumes "0 \<le> t" "fmod t 5 < 2"
  shows "0 \<le> fmod t 5 / 2" "fmod t 5 / 2 \<le> 1"
  using fmod_nonneg [of t 5] assms by auto

lemma posPath_bounds:
  assumes "0 \<le> t"
  shows "0 \<le> tc_x (posPath t) \<and> tc_x (posPath t) \<le> 1 \<and> \<bar>tc_vx (posPath t)\<bar> \<le> 3 / 4"
proof -
  have "0 \<le> (if fmod t 5 < 2 then smoothstep (fmod t 5 / 2) else 1)
      \<and> (if fmod t 5 < 2 then smoothstep (fmod t 5 / 2) else 1) \<le> 1"
    using posPath_ramp_range [OF assms] smoothstep_range by auto
  moreover have "fmod t 5 < 2 \<Longrightarrow> \<bar>6 * (fmod t 5 / 2) * (1 - fmod t 5 / 2) / 2\<bar> \<le> 3 / 4"
    using ramp_speed [of "fmod t 5 / 2"] posPath_ramp_range [OF assms] by (simp add: abs_le_iff)
  ultimately show ?thesis by (auto simp: posPath_simps [OF assms] abs_mult)
qed

interpretation pos_path: bounded_path posPath 1 0
  using posPath_bounds by unfold_locales (auto simp: posPath_simps TargetCMD_zero_def)

lemma attPath_pitch_bound: "\<bar>tc_pitch (attPath t)\<bar> \<le> PITCH_MAX"
  by (simp add: attPath_def Let_def abs_mult PITCH_MAX_def mult_left_le)

interpretation att_path: bounded_path attPath 0 PITCH_MAX
  using attPath_pitch_bound by unfold_locales (auto simp: attPath_def Let_def TargetCMD_zero_def)

lemma circle_demo_on_circle:
  "3 \<le> t \<Longrightarrow> (tc_x (circle_demo t) + 1 / 2)\<^sup>2 + (tc_y (circle_demo t))\<^sup>2 = (1 / 2)\<^sup>2"
proof -
  assume "3 \<le> t"
  let ?th = "2 * pi / 30 * (t - 3)"
  have "(1 / 2 * (cos ?th - 1) + 1 / 2)\<^sup>2 + (1 / 2 * sin ?th)\<^sup>2 = 1 / 4 * ((sin ?th)\<^sup>2 + (cos ?th)\<^sup>2)"
    by (simp add: power2_eq_square field_simps)
  with \<open>3 \<le> t\<close> show ?thesis
    by (simp add: circle_demo_def Let_def power2_eq_square)
qed

interpretation circle_path: bounded_path circle_demo 1 0
proof unfold_locales
  fix t :: real
  have half: "x \<le> 1 \<Longrightarrow> - 1 \<le> x \<Longrightarrow> \<bar>1 / 2 * (x - 1)\<bar> \<le> 1" for x :: real
    by (simp add: abs_le_iff)
  have c: "\<bar>1 / 2 * (cos th - 1)\<bar> \<le> 1" for th :: real
    by (rule half [OF cos_le_one cos_ge_minus_one])
  have s: "\<bar>1 / 2 * sin th\<bar> \<le> 1" for th :: real
    by (simp add: abs_mult order_trans [OF abs_sin_le_one])
  show "\<bar>tc_x (circle_demo t)\<bar> \<le> 1 \<and> \<bar>tc_y (circle_demo t)\<bar> \<le> 1 \<and> tc_z (circle_demo t) = 0"
    using c [of "2 * pi / 30 * (t - 3)"] s [of "2 * pi / 30 * (t - 3)"]
    by (simp only: circle_demo_def Let_def TargetCMD_zero_def split: if_split) simp
qed (simp add: circle_demo_def Let_def TargetCMD_zero_def)

lemma demo_straight_bounds:
  "0 \<le> tc_y (demo_straight t) \<and> tc_y (demo_straight t) \<le> 1 \<and> \<bar>tc_vy (demo_straight t)\<bar> \<le> 3 / 2"
proof -
  let ?m = "fmod (max 0 t) 12"
  have m: "0 \<le> ?m" "?m < 12" using fmod_nonneg [of "max 0 t" 12] by auto
  have up: "5 \<le> ?m \<Longrightarrow> ?m < 6 \<Longrightarrow> 0 \<le> smoothstep (?m - 5) \<and> smoothstep (?m - 5) \<le> 1
      \<and> \<bar>6 * (?m - 5) * (1 - (?m - 5))\<bar> \<le> 3 / 2"
    using smoothstep_range [of "?m - 5"] ramp_speed [of "?m - 5"] by (simp add: abs_le_iff)
  have down: "11 \<le> ?m \<Longrightarrow> 0 \<le> smoothstep (?m - 11) \<and> smoothstep (?m - 11) \<le> 1
      \<and> \<bar>6 * (?m - 11) * (1 - (?m - 11))\<bar> \<le> 3 / 2"
    using smoothstep_range [of "?m - 11"] ramp_speed [of "?m - 11"] m by (simp add: abs_le_iff)
  show ?thesis
    using m up down by (auto simp: demo_straight_def Let_def TargetCMD_zero_def abs_mult)
qed

lemma demo_straight_others:
  "tc_x (demo_straight t) = 0" "tc_z (demo_straight t) = 0" "tc_roll (demo_straight t) = 0"
  "tc_pitch (demo_straight t) = 0" "tc_yaw (demo_straight t) = 0"
  by (simp_all add: demo_straight_def Let_def TargetCMD_zero_def)

interpretation straight_path: bounded_path demo_straight 1 0
proof unfold_locales
  show "\<bar>tc_x (demo_straight t)\<bar> \<le> 1 \<and> \<bar>tc_y (demo_straight t)\<bar> \<le> 1 \<and> tc_z (demo_straight t) = 0"
    for t using demo_straight_bounds [of t] by (simp add: demo_straight_others)
qed (simp add: demo_straight_others)

lemma blend_range:
  fixes lo hi s :: real
  assumes "lo \<le> hi" "0 \<le> s" "s \<le> 1"
  shows "lo \<le> lo + (hi - lo) * s \<and> lo + (hi - lo) * s \<le> hi"
    and "lo \<le> hi + (lo - hi) * s \<and> hi + (lo - hi) * s \<le> hi"
proof -
  have "0 \<le> (hi - lo) * s" using assms by simp
  moreover have "(hi - lo) * s \<le> (hi - lo) * 1" using assms by (intro mult_left_mono) auto
  ultimately show "lo \<le> lo + (hi - lo) * s \<and> lo + (hi - lo) * s \<le> hi"
    "lo \<le> hi + (lo - hi) * s \<and> hi + (lo - hi) * s \<le> hi" by (auto simp: algebra_simps)
qed

text \<open>The step sequence: twelve five-degree stages up and the same stages down.\<close>

lemma step_counts: "step_FIRST_STAGE_COUNT = 12" "step_UP_STAGE_COUNT = 12"
  by (simp_all add: step_FIRST_STAGE_COUNT_def step_UP_STAGE_COUNT_def c_trunc_def)

lemma step_stage_deg_up:
  "stage \<le> 11 \<Longrightarrow> step_stage_deg stage = (of_int stage * 5, of_int stage * 5 + 5)"
  by (simp add: step_stage_deg_def step_counts min_def)

lemma step_stage_pitch_range:
  assumes "0 \<le> ts" "ts < 192"
  shows "0 \<le> step_stage_pitch ts \<and> step_stage_pitch ts \<le> PITCH_MAX"
proof -
  define r where "r = \<lfloor>ts / (3 + 5)\<rfloor>"
  define k where "k = (if 12 \<le> r then 2 * 12 - r - 1 else r)"
  define l where "l = fmod ts (3 + 5)"
  define s where "s = (if l < 3 then smoothstep (l / 3) else 1)"
  define lo hi where "lo = of_int k * 5 * (pi / 180)" and "hi = (of_int k * 5 + 5) * (pi / 180)"
  have "0 \<le> r" "r < 24" using assms by (simp_all add: r_def floor_less_iff)
  then have k: "0 \<le> k" "k \<le> 11" by (auto simp: k_def)
  have "step_stage_pitch ts =
      (case (if 12 \<le> r then prod.swap (step_stage_deg k) else step_stage_deg k) of (a, b) \<Rightarrow>
         if l < 3 then a * (pi / 180) + (b * (pi / 180) - a * (pi / 180)) * smoothstep (l / 3)
         else b * (pi / 180))"
    unfolding step_stage_pitch_def step_counts Let_def r_def [symmetric] k_def [symmetric]
      l_def [symmetric] by (rule refl)
  then have pitch: "step_stage_pitch ts = (if 12 \<le> r then hi + (lo - hi) * s else lo + (hi - lo) * s)"
    by (simp add: step_stage_deg_up [OF k(2)] s_def lo_def hi_def)
  have "0 \<le> l" using fmod_nonneg [of ts "3 + 5"] assms by (simp add: l_def)
  then have s: "0 \<le> s" "s \<le> 1" using smoothstep_range [of "l / 3"] by (auto simp: s_def)
  have "0 \<le> of_int k * 5 * (pi / 180)" using k by simp
  moreover have "(of_int k * 5 + 5) * (pi / 180) \<le> 60 * (pi / 180)"
    using k by (intro mult_right_mono) auto
  ultimately have lohi: "0 \<le> lo" "lo \<le> hi" "hi \<le> PITCH_MAX"
    by (simp_all add: lo_def hi_def PITCH_MAX_def algebra_simps)
  show ?thesis using blend_range [OF lohi(2) s] lohi by (auto simp: pitch)
qed

lemma stepAttPath_pitch_range:
  "0 \<le> t \<Longrightarrow> 0 \<le> tc_pitch (stepAttPath t) \<and> tc_pitch (stepAttPath t) \<le> PITCH_MAX"
  using step_stage_pitch_range [of "fmod t 196 - 2"] pi_gt_zero
  by (simp add: stepAttPath_def Let_def step_counts TargetCMD_zero_def PITCH_MAX_def)

lemma stepAttPath_others:
  "tc_x (stepAttPath t) = 0" "tc_y (stepAttPath t) = 0" "tc_z (stepAttPath t) = 0"
  "tc_roll (stepAttPath t) = 0" "tc_yaw (stepAttPath t) = 0"
  by (simp_all add: stepAttPath_def Let_def TargetCMD_zero_def)

interpretation step_path: bounded_path stepAttPath 0 PITCH_MAX
  using stepAttPath_pitch_range by unfold_locales (auto simp: stepAttPath_others)

lemma fmod_segment:
  assumes "of_nat k * 5 \<le> t" "t < of_nat k * 5 + 5"
  shows "fmod t 5 = t - of_nat k * 5" and "\<lfloor>t / 5\<rfloor> = int k" and "0 \<le> t"
proof -
  show t: "0 \<le> t" by (rule order_trans [OF _ assms(1)]) simp
  show f: "\<lfloor>t / 5\<rfloor> = int k" using assms by (simp add: floor_eq_iff field_simps)
  show "fmod t 5 = t - of_nat k * 5" using t by (simp add: fmod_def c_trunc_def f)
qed

lemma posPath_segment_moving:
  assumes "of_nat k * 5 \<le> t" "t < of_nat k * 5 + 2"
  shows "tc_x (posPath t) = (if odd k then 1 - smoothstep ((t - of_nat k * 5) / 2)
           else smoothstep ((t - of_nat k * 5) / 2))"
    and "tc_vx (posPath t) = (if odd k then - 1 else 1)
           * (6 * ((t - of_nat k * 5) / 2) * (1 - (t - of_nat k * 5) / 2) / 2)"
  using fmod_segment [of k t] assms by (simp_all add: posPath_simps)

lemma posPath_segment_hold:
  assumes "of_nat k * 5 + 2 \<le> t" "t < of_nat k * 5 + 5"
  shows "tc_x (posPath t) = (if odd k then 0 else 1)" and "tc_vx (posPath t) = 0"
  using fmod_segment [of k t] assms by (simp_all add: posPath_simps TargetCMD_zero_def)

lemma DERIV_local:
  fixes f g :: "real \<Rightarrow> real"
  assumes "open S" "t \<in> S" "\<And>u. u \<in> S \<Longrightarrow> f u = g u" "(g has_real_derivative d) (at t)"
  shows "(f has_real_derivative d) (at t)"
proof -
  have "eventually (\<lambda>u. f u = g u) (nhds t)"
    using assms(1-3) by (auto simp: eventually_nhds)
  then show ?thesis using DERIV_cong_ev [OF refl, of f g t d d] assms(4) by simp
qed

lemma posPath_moving_deriv:
  assumes "of_nat k * 5 < t" "t < of_nat k * 5 + 2"
  shows "((\<lambda>t. tc_x (posPath t)) has_real_derivative tc_vx (posPath t)) (at t)"
proof -
  let ?a = "\<lambda>t. (t - of_nat k * 5) / (2::real)"
  have a: "(?a has_real_derivative 1 / 2) (at t)" by (auto intro!: derivative_eq_intros)
  have d: "((\<lambda>t. smoothstep (?a t)) has_real_derivative 6 * ?a t * (1 - ?a t) * (1 / 2)) (at t)"
    by (rule DERIV_chain2 [OF smoothstep_deriv a])
  have vx: "tc_vx (posPath t) = (if odd k then - 1 else 1) * (6 * ?a t * (1 - ?a t) * (1 / 2))"
    using assms posPath_segment_moving(2) [of k t] by simp
  have "((\<lambda>t. if odd k then 1 - smoothstep (?a t) else smoothstep (?a t))
      has_real_derivative tc_vx (posPath t)) (at t)"
    using d DERIV_diff [OF DERIV_const d, of 1] unfolding vx by (cases "odd k") simp_all
  with _ _ _ show ?thesis
    by (rule DERIV_local [of "{of_nat k * 5 <..< of_nat k * 5 + 2}"])
      (use assms posPath_segment_moving(1) [of k] in auto)
qed

lemma posPath_hold_deriv:
  assumes "of_nat k * 5 + 2 < t" "t < of_nat k * 5 + 5"
  shows "((\<lambda>t. tc_x (posPath t)) has_real_derivative tc_vx (posPath t)) (at t)"
proof -
  have "tc_vx (posPath t) = 0" using posPath_segment_hold(2) [of k t] assms by simp
  then have "((\<lambda>t. if odd k then 0 else 1) has_real_derivative tc_vx (posPath t)) (at t)" by simp
  with _ _ _ show ?thesis
    by (rule DERIV_local [of "{of_nat k * 5 + 2 <..< of_nat k * 5 + 5}"])
      (use assms posPath_segment_hold(1) [of k] in auto)
qed

subsection \<open>A reference implementation of the Eigen operations\<close>

text \<open>
  The documented meaning, executed on reals; \<open>e_quat_of_rot\<close> selects the numerically largest
  component first. It discharges the contract and evaluates witnesses.
\<close>

definition quat_of_rot_ref :: "mat3 \<Rightarrow> quat" where
  "quat_of_rot_ref R = (case R of ((a, b, c), (d, e, f), (g, h, i)) \<Rightarrow>
     if a + e + i > 0 then
       let s = sqrt (1 + a + e + i) * 2 in (s / 4, (h - f) / s, (c - g) / s, (d - b) / s)
     else if a > e \<and> a > i then
       let s = sqrt (1 + a - e - i) * 2 in ((h - f) / s, s / 4, (b + d) / s, (c + g) / s)
     else if e > i then
       let s = sqrt (1 + e - a - i) * 2 in ((c - g) / s, (b + d) / s, s / 4, (f + h) / s)
     else
       let s = sqrt (1 + i - a - e) * 2 in ((d - b) / s, (c + g) / s, (f + h) / s, s / 4))"

definition eigen_ref :: eigen where
  "eigen_ref = \<lparr>e_norm3 = (\<lambda>(x, y, z). sqrt (x\<^sup>2 + y\<^sup>2 + z\<^sup>2)),
     e_norm4 = (\<lambda>q. sqrt (sq_norm4 q)),
     e_normalized = (\<lambda>q. if sq_norm4 q = 0 then q else scale4 (1 / sqrt (sq_norm4 q)) q),
     e_quat_of_rot = quat_of_rot_ref\<rparr>"

interpretation eigen_ref: eigen_lib eigen_ref
  by unfold_locales (auto simp: eigen_ref_def)

subsection \<open>Properties\<close>

lemma LPF_residual:
  assumes "0 < t" "of_nat n = t * of_int RATE_HZ"
  shows "(1 - lpf_alpha (LPF_new t)) ^ n = 1 / 100"
proof -
  have n: "0 < real n" using assms by (simp add: RATE_HZ_def)
  have "1 - lpf_alpha (LPF_new t) = (1 / 100) powr (1 / real n)"
    using assms by (simp add: LPF_new_def Let_def)
  then have "(1 - lpf_alpha (LPF_new t)) ^ n = ((1 / 100) powr (1 / real n)) powr real n"
    by (simp add: powr_realpow)
  also have "\<dots> = 1 / 100" using n by (simp only: powr_powr) simp
  finally show ?thesis .
qed

text \<open>A low-pass filter built for a convergence time, placed at \<open>x0\<close> and fed the constant
  target \<open>x\<close>, has after exactly that many seconds of samples at \<open>RATE_HZ\<close> one hundredth of its
  initial distance to the target, and never left the interval between start and target.\<close>

theorem LPF_convergence_time:
  assumes "0 < t" "of_nat n = t * of_int RATE_HZ"
  shows "lpf_y (((\<lambda>g. snd (LPF_update g x)) ^^ n) (LPF_reset (LPF_new t) x0)) - x = (x0 - x) / 100
    \<and> min x0 x \<le> lpf_y (((\<lambda>g. snd (LPF_update g x)) ^^ m) (LPF_reset (LPF_new t) x0))
    \<and> lpf_y (((\<lambda>g. snd (LPF_update g x)) ^^ m) (LPF_reset (LPF_new t) x0)) \<le> max x0 x"
proof (intro conjI)
  let ?f = "LPF_reset (LPF_new t) x0" and ?k = "1 - lpf_alpha (LPF_new t)"
  have err: "lpf_y (((\<lambda>g. snd (LPF_update g x)) ^^ i) ?f) - x = ?k ^ i * (x0 - x)" for i
    using lpf.iterate_err [of ?f i x] by simp
  show "lpf_y (((\<lambda>g. snd (LPF_update g x)) ^^ n) ?f) - x = (x0 - x) / 100"
    by (simp add: err LPF_residual [OF assms])
  have k: "0 \<le> ?k ^ m" "?k ^ m \<le> 1"
    using LPF_new_alpha_range [of t] by (auto intro: power_le_one)
  have eq: "lpf_y (((\<lambda>g. snd (LPF_update g x)) ^^ m) ?f) = x + (x0 - x) * ?k ^ m"
    using err [of m] by (simp add: algebra_simps)
  show "min x0 x \<le> lpf_y (((\<lambda>g. snd (LPF_update g x)) ^^ m) ?f)"
    "lpf_y (((\<lambda>g. snd (LPF_update g x)) ^^ m) ?f) \<le> max x0 x"
    unfolding eq using blend_range [of x x0, OF _ k] blend_range [of x0 x, OF _ k]
    by (cases "x \<le> x0"; simp)+
qed

theorem LPF_convergence_time_witness:
  "lpf_y (((\<lambda>g. snd (LPF_update g 0)) ^^ 2000) (LPF_reset (LPF_new 5) 1)) = 1 / 100"
  using LPF_convergence_time [of 5 2000 0 1 0] by (simp add: RATE_HZ_def)

text \<open>Roll, pitch and yaw survive the conversion to the published quaternion and back, away from
  the pitch singularity, and that quaternion has unit norm.\<close>

theorem rpy_roundtrip:
  assumes "eigen_lib E"
    and "- pi < r" "r \<le> pi" "- (pi / 2) < p" "p < pi / 2" "- pi < y" "y \<le> pi"
  shows "quatToRpy (rpyToQuat E (r, p, y)) = (r, p, y) \<and> sq_norm4 (rpyToQuat E (r, p, y)) = 1"
proof -
  have "rpyToQuat E (r, p, y) = rpy_raw (r, p, y)"
    unfolding rpyToQuat_raw using assms(1) by (rule eigen_lib.normalized_unit) (rule sq_norm4_rpy_raw)
  with quatToRpy_rpy_raw [OF assms(2-)] show ?thesis by (simp only: sq_norm4_rpy_raw)
qed

theorem rpy_roundtrip_witness:
  "quatToRpy (rpyToQuat eigen_ref (pi / 4, pi / 3, pi)) = (pi / 4, pi / 3, pi)"
  using rpy_roundtrip [OF eigen_ref.eigen_lib_axioms, of "pi / 4" "pi / 3" pi] by simp

text \<open>\<open>unwrapNear\<close> returns the representative of the angle nearest to the reference: at most half
  a turn away, equal to the target up to whole turns, and the target itself when it was near.\<close>

theorem unwrapNear_correct:
  "\<bar>unwrapNear t r - r\<bar> \<le> pi \<and> (\<exists>k::int. unwrapNear t r = t + 2 * pi * of_int k)
   \<and> (unwrapNear t r = t \<longleftrightarrow> \<bar>t - r\<bar> \<le> pi)"
  using unwrapNear_near [of t r] unwrapNear_multiple [of t r] unwrapNear_id [of t r] by metis

text \<open>on the two-point path the published velocity is the time derivative of the published
  position, in every motion and every hold of every cycle.\<close>

theorem posPath_velocity_is_derivative:
  assumes "of_nat k * 5 < t" "t < of_nat k * 5 + 5" "t \<noteq> of_nat k * 5 + 2"
  shows "((\<lambda>t. tc_x (posPath t)) has_real_derivative tc_vx (posPath t)) (at t)"
  using posPath_moving_deriv [of k t] posPath_hold_deriv [of k t] assms by linarith

theorem posPath_velocity_is_derivative_witness:
  "((\<lambda>t. tc_x (posPath t)) has_real_derivative tc_vx (posPath 6)) (at 6) \<and> tc_vx (posPath 6) = - 3 / 4"
  using posPath_velocity_is_derivative [of 1 6] posPath_segment_moving(2) [of 1 6] by simp

text \<open>The step-response path keeps the commanded pitch between level and the configured maximum
  and commands nothing else.\<close>

theorem stepAttPath_safe:
  assumes "0 \<le> t"
  shows "0 \<le> tc_pitch (stepAttPath t) \<and> tc_pitch (stepAttPath t) \<le> PITCH_MAX
    \<and> stepAttPath t = TargetCMD_zero\<lparr>tc_pitch := tc_pitch (stepAttPath t)\<rparr>"
  using stepAttPath_pitch_range [OF assms]
  by (simp add: stepAttPath_def Let_def TargetCMD_zero_def)

theorem stepAttPath_safe_witness: "tc_pitch (stepAttPath 100) \<le> PITCH_MAX"
  using stepAttPath_safe [of 100] by simp

end
