(* ===== verification/Position_Cmd.thy ===== *)
theory Position_Cmd
  imports Flight_Utils
begin

text \<open>
  The command node, \<open>src/src/px4_hummingbird_cmd/src/px4_position_cmd.cpp\<close>: its fields as a record,
  one definition per callback and per control mode, and the 400 Hz tick that dispatches on the mode.
  The constants of the message definitions (\<open>px4_msgs\<close>, a submodule) are the record \<open>px4_consts\<close>.
  Every reading of the steady clock is an argument, in seconds; publishing appends to an output
  list; log lines are not modelled.
\<close>

subsection \<open>Messages\<close>

record px4_consts =
  NAVIGATION_STATE_OFFBOARD :: u8
  ARMING_STATE_ARMED :: u8
  HB_CMD_SOURCE_DDS :: u8
  VEHICLE_CMD_DO_SET_MODE :: u32
  VEHICLE_CMD_COMPONENT_ARM_DISARM :: u32

record HummingbirdStatus =
  hb_cmd_source :: u8
  hb_ctrl_mode :: u8

record VehicleLocalPosition =
  lp_x :: real
  lp_y :: real
  lp_z :: real
  lp_heading :: real
  lp_xy_valid :: bool
  lp_z_valid :: bool

record VehicleAttitude =
  va_q :: "xdouble \<times> xdouble \<times> xdouble \<times> xdouble"

record VehicleStatus =
  vs_nav_state :: u8
  vs_arming_state :: u8

record VehicleCommand =
  vc_timestamp :: u64
  vc_param1 :: real
  vc_param2 :: real
  vc_command :: u32
  vc_target_system :: u8
  vc_target_component :: u8
  vc_source_system :: u8
  vc_source_component :: u16
  vc_confirmation :: u8
  vc_from_external :: bool

record OffboardControlMode =
  oc_timestamp :: u64
  oc_position :: bool
  oc_velocity :: bool
  oc_acceleration :: bool
  oc_attitude :: bool
  oc_body_rate :: bool
  oc_thrust_and_torque :: bool
  oc_direct_actuator :: bool

type_synonym xvec3 = "xdouble \<times> xdouble \<times> xdouble"

record TrajectorySetpoint6dof =
  ts_timestamp :: u64
  ts_position :: xvec3
  ts_velocity :: xvec3
  ts_acceleration :: xvec3
  ts_jerk :: xvec3
  ts_quaternion :: "xdouble \<times> xdouble \<times> xdouble \<times> xdouble"
  ts_angular_velocity :: xvec3

datatype publication =
  PubOffboardMode OffboardControlMode
| PubTrajectory TrajectorySetpoint6dof
| PubCommand VehicleCommand

subsection \<open>Node state\<close>

datatype ControlMode = wait_offboard_mode | wait_arm_mode | path_active_mode | RC2DDS_handoff_mode

record cmd_node =
  node_start_time :: real
  last_controller_mode_time :: real
  last_local_position_time :: real
  last_vehicle_attitude_time :: real
  last_vehicle_status_time :: real
  last_control_tick_time :: real
  controller_mode :: HummingbirdStatus
  local_position :: VehicleLocalPosition
  vehicle_attitude :: VehicleAttitude
  vehicle_status :: VehicleStatus
  last_target :: TargetCMD
  rc2dds_handoff_filters :: HandoffFilters
  trajectory_name :: string
  auto_offboard :: bool
  auto_arm :: bool
  has_controller_mode :: bool
  has_local_position :: bool
  has_vehicle_attitude :: bool
  has_vehicle_status :: bool
  controller_mode_missing :: bool
  local_position_missing :: bool
  vehicle_attitude_missing :: bool
  vehicle_status_missing :: bool
  previous_dds_control_enabled :: bool
  control_mode :: ControlMode
  last_offboard_request_time_sec :: xdouble
  last_arm_request_time_sec :: xdouble
  trajectory_start_time_sec :: real
  pos_x :: real
  pos_y :: real
  pos_z :: real

definition Px4PositionCommand_new :: "string \<Rightarrow> bool \<Rightarrow> bool \<Rightarrow> real \<Rightarrow> cmd_node" where
  "Px4PositionCommand_new path auto_off auto_a now =
     \<lparr>node_start_time = now, last_controller_mode_time = now, last_local_position_time = now,
      last_vehicle_attitude_time = now, last_vehicle_status_time = now,
      last_control_tick_time = now,
      controller_mode = \<lparr>hb_cmd_source = 0, hb_ctrl_mode = 0\<rparr>,
      local_position = \<lparr>lp_x = 0, lp_y = 0, lp_z = 0, lp_heading = 0,
        lp_xy_valid = False, lp_z_valid = False\<rparr>,
      vehicle_attitude = \<lparr>va_q = (Fin 0, Fin 0, Fin 0, Fin 0)\<rparr>,
      vehicle_status = \<lparr>vs_nav_state = 0, vs_arming_state = 0\<rparr>,
      last_target = TargetCMD_zero, rc2dds_handoff_filters = HandoffFilters_new,
      trajectory_name = path, auto_offboard = auto_off, auto_arm = auto_a,
      has_controller_mode = False, has_local_position = False, has_vehicle_attitude = False,
      has_vehicle_status = False, controller_mode_missing = False, local_position_missing = False,
      vehicle_attitude_missing = False, vehicle_status_missing = False,
      previous_dds_control_enabled = False, control_mode = wait_offboard_mode,
      last_offboard_request_time_sec = NegInf, last_arm_request_time_sec = NegInf,
      trajectory_start_time_sec = 0, pos_x = 0, pos_y = 0, pos_z = 0\<rparr>"

subsection \<open>Input callbacks and diagnostics\<close>

text \<open>\<open>note_input\<close> clears the missing flag; its other effect is logging.\<close>

definition note_input :: "bool \<Rightarrow> bool" where
  "note_input missing = (if missing then False else missing)"

definition check_input :: "real \<Rightarrow> real \<Rightarrow> bool \<Rightarrow> bool" where
  "check_input now last_time missing =
     (let age_sec = now - last_time
      in if age_sec \<ge> message_timeout_sec \<and> \<not> missing then True else missing)"

definition check_inputs :: "real \<Rightarrow> cmd_node \<Rightarrow> cmd_node" where
  "check_inputs now n = n\<lparr>
     controller_mode_missing := check_input now (last_controller_mode_time n) (controller_mode_missing n),
     local_position_missing := check_input now (last_local_position_time n) (local_position_missing n),
     vehicle_attitude_missing := check_input now (last_vehicle_attitude_time n) (vehicle_attitude_missing n),
     vehicle_status_missing := check_input now (last_vehicle_status_time n) (vehicle_status_missing n)\<rparr>"

definition controller_mode_callback :: "real \<Rightarrow> HummingbirdStatus \<Rightarrow> cmd_node \<Rightarrow> cmd_node" where
  "controller_mode_callback now message n = n\<lparr>
     controller_mode_missing := note_input (controller_mode_missing n),
     controller_mode := message, has_controller_mode := True, last_controller_mode_time := now\<rparr>"

definition local_position_callback :: "real \<Rightarrow> VehicleLocalPosition \<Rightarrow> cmd_node \<Rightarrow> cmd_node" where
  "local_position_callback now message n = n\<lparr>
     local_position_missing := note_input (local_position_missing n),
     local_position := message, has_local_position := True, last_local_position_time := now\<rparr>"

definition vehicle_attitude_callback :: "real \<Rightarrow> VehicleAttitude \<Rightarrow> cmd_node \<Rightarrow> cmd_node" where
  "vehicle_attitude_callback now message n = n\<lparr>
     vehicle_attitude_missing := note_input (vehicle_attitude_missing n),
     vehicle_attitude := message, has_vehicle_attitude := True, last_vehicle_attitude_time := now\<rparr>"

definition vehicle_status_callback :: "real \<Rightarrow> VehicleStatus \<Rightarrow> cmd_node \<Rightarrow> cmd_node" where
  "vehicle_status_callback now message n = n\<lparr>
     vehicle_status_missing := note_input (vehicle_status_missing n),
     vehicle_status := message, has_vehicle_status := True, last_vehicle_status_time := now\<rparr>"

subsection \<open>Commands to the vehicle\<close>

definition vehicle_command :: "u64 \<Rightarrow> real \<Rightarrow> real \<Rightarrow> u32 \<Rightarrow> VehicleCommand" where
  "vehicle_command timestamp_us p1 p2 cmd =
     \<lparr>vc_timestamp = timestamp_us, vc_param1 = p1, vc_param2 = p2, vc_command = cmd,
      vc_target_system = target_system_id, vc_target_component = target_component_id,
      vc_source_system = source_system_id, vc_source_component = source_component_id,
      vc_confirmation = 0, vc_from_external = True\<rparr>"

definition start_RC2DDS_handoff :: "real \<Rightarrow> cmd_node \<Rightarrow> cmd_node" where
  "start_RC2DDS_handoff now n =
     (let local_position_age_sec = now - last_local_position_time n;
          lp = local_position n;
          local_position_fresh = (has_local_position n \<and> lp_xy_valid lp \<and> lp_z_valid lp
            \<and> local_position_age_sec \<le> message_timeout_sec);
          start = (if local_position_fresh
                   then initialPose\<lparr>tc_x := lp_x lp, tc_y := lp_y lp, tc_z := lp_z lp,
                          tc_yaw := lp_heading lp\<rparr>
                   else initialPose)
      in n\<lparr>last_target := start,
           rc2dds_handoff_filters := HandoffFilters_reset (rc2dds_handoff_filters n) start,
           control_mode := RC2DDS_handoff_mode\<rparr>)"

definition wait_arm :: "px4_consts \<Rightarrow> u64 \<Rightarrow> real \<Rightarrow> real \<Rightarrow> cmd_node \<Rightarrow> cmd_node \<times> publication list" where
  "wait_arm K timestamp_us elapsed_sec now n =
     (let vehicle_armed = (vs_arming_state (vehicle_status n) = ARMING_STATE_ARMED K)
      in if \<not> vehicle_armed \<and> auto_arm n
         then if diff_ge elapsed_sec (last_arm_request_time_sec n) (message_timeout_sec + command_repeat_sec)
              then (n\<lparr>last_arm_request_time_sec := Fin elapsed_sec\<rparr>,
                    [PubCommand (vehicle_command timestamp_us 1 0 (VEHICLE_CMD_COMPONENT_ARM_DISARM K))])
              else (n, [])
         else (start_RC2DDS_handoff now n, []))"

definition wait_offboard :: "px4_consts \<Rightarrow> u64 \<Rightarrow> real \<Rightarrow> real \<Rightarrow> cmd_node \<Rightarrow> cmd_node \<times> publication list" where
  "wait_offboard K timestamp_us elapsed_sec now n =
     (if elapsed_sec < command_delay_sec then (n, [])
      else let offboard_mode_active = (vs_nav_state (vehicle_status n) = NAVIGATION_STATE_OFFBOARD K)
           in if \<not> offboard_mode_active
              then if auto_offboard n
                      \<and> diff_ge elapsed_sec (last_offboard_request_time_sec n) command_repeat_sec
                   then (n\<lparr>last_offboard_request_time_sec := Fin elapsed_sec\<rparr>,
                         [PubCommand (vehicle_command timestamp_us 1 6 (VEHICLE_CMD_DO_SET_MODE K))])
                   else (n, [])
              else wait_arm K timestamp_us elapsed_sec now (n\<lparr>control_mode := wait_arm_mode\<rparr>))"

subsection \<open>Setpoints\<close>

definition nan3 :: xvec3 where "nan3 = (NaN, NaN, NaN)"

definition setpoint :: "u64 \<Rightarrow> TargetCMD \<Rightarrow> xvec3 \<Rightarrow> quat \<Rightarrow> TrajectorySetpoint6dof" where
  "setpoint timestamp_us target velocity q = (case q of (q0, q1, q2, q3) \<Rightarrow>
     \<lparr>ts_timestamp = timestamp_us,
      ts_position = (Fin (tc_x target), Fin (tc_y target), Fin (tc_z target)),
      ts_velocity = velocity, ts_acceleration = nan3, ts_jerk = nan3,
      ts_quaternion = (Fin q0, Fin q1, Fin q2, Fin q3), ts_angular_velocity = nan3\<rparr>)"

definition select_path :: "string \<Rightarrow> real \<Rightarrow> TargetCMD" where
  "select_path name t =
     (if name = ''pos'' then posPath t
      else if name = ''att'' then attPath t
      else if name = ''step_att'' then stepAttPath t
      else if name = ''circle_demo'' then circle_demo t
      else if name = ''demo_straight'' then demo_straight t
      else TargetCMD_zero)"

definition path_active :: "eigen \<Rightarrow> u64 \<Rightarrow> real \<Rightarrow> cmd_node \<Rightarrow> cmd_node \<times> publication list" where
  "path_active E timestamp_us elapsed_sec n =
     (let trajectory_time_sec = elapsed_sec - trajectory_start_time_sec n;
          path_target = select_path (trajectory_name n) trajectory_time_sec;
          target = path_target\<lparr>tc_x := pos_x n + tc_x path_target, tc_y := pos_y n + tc_y path_target,
                     tc_z := pos_z n + tc_z path_target\<rparr>;
          quaternion = rpyToQuat E (tc_roll target, tc_pitch target, tc_yaw target);
          moving_path = (trajectory_name n = ''pos'' \<or> trajectory_name n = ''demo_straight'');
          velocity = (if moving_path then Fin (tc_vx target) else NaN,
                      if moving_path then Fin (tc_vy target) else NaN, NaN)
      in (n\<lparr>last_target := target\<rparr>,
          [PubTrajectory (setpoint timestamp_us target velocity quaternion)]))"

definition initial_pose_reached :: "eigen \<Rightarrow> real \<Rightarrow> cmd_node \<Rightarrow> TargetCMD \<Rightarrow> bool" where
  "initial_pose_reached E now n initial_target =
     (let lp = local_position n;
          (q0, q1, q2, q3) = va_q (vehicle_attitude n);
          local_position_fresh = (has_local_position n \<and> lp_xy_valid lp \<and> lp_z_valid lp
            \<and> now - last_local_position_time n \<le> message_timeout_sec);
          vehicle_attitude_fresh = (has_vehicle_attitude n
            \<and> now - last_vehicle_attitude_time n \<le> message_timeout_sec
            \<and> isfinite q0 \<and> isfinite q1 \<and> isfinite q2 \<and> isfinite q3)
      in if \<not> local_position_fresh \<or> \<not> vehicle_attitude_fresh then False
         else let pos_error = (lp_x lp - tc_x initial_target, lp_y lp - tc_y initial_target,
                               lp_z lp - tc_z initial_target);
                  q = (finite_part q0, finite_part q1, finite_part q2, finite_part q3);
                  (roll, pitch, yaw) = quatToRpy (e_normalized E q);
                  roll_error = angleErrorAbs roll (tc_roll initial_target);
                  pitch_error = angleErrorAbs pitch (tc_pitch initial_target);
                  att_error = max roll_error pitch_error;
                  yaw_error = angleErrorAbs (lp_heading lp) (tc_yaw initial_target)
              in e_norm3 E pos_error \<le> pos_tol \<and> yaw_error \<le> yaw_tol \<and> att_error \<le> att_tol)"

text \<open>The hand-over target: the initial pose with its yaw unwrapped towards the last target.\<close>

definition handoff_goal :: "cmd_node \<Rightarrow> TargetCMD" where
  "handoff_goal n = initialPose\<lparr>tc_yaw := unwrapNear (tc_yaw initialPose) (tc_yaw (last_target n))\<rparr>"

definition handoff_step :: "eigen \<Rightarrow> u64 \<Rightarrow> real \<Rightarrow> real \<Rightarrow> cmd_node \<Rightarrow> cmd_node \<times> publication list" where
  "handoff_step E timestamp_us elapsed_sec now n =
     (let initial_target = handoff_goal n;
          (target, filters) = RC2DDS_handoff initial_target (rc2dds_handoff_filters n);
          n1 = n\<lparr>last_target := target, rc2dds_handoff_filters := filters\<rparr>;
          quaternion = rpyToQuat E (tc_roll target, tc_pitch target, tc_yaw target);
          out = [PubTrajectory (setpoint timestamp_us target nan3 quaternion)]
      in if \<not> initial_pose_reached E now n1 initial_target then (n1, out)
         else (n1\<lparr>pos_x := initial_pose_x_m, pos_y := initial_pose_y_m, pos_z := initial_pose_z_m,
                  trajectory_start_time_sec := elapsed_sec, control_mode := path_active_mode,
                  last_target := initial_target\<rparr>, out))"

definition switch_to_position_control :: "px4_consts \<Rightarrow> u64 \<Rightarrow> cmd_node \<Rightarrow> cmd_node \<times> publication list" where
  "switch_to_position_control K timestamp_us n =
     (n\<lparr>control_mode := wait_offboard_mode\<rparr>,
      [PubCommand (vehicle_command timestamp_us 1 3 (VEHICLE_CMD_DO_SET_MODE K))])"

subsection \<open>The control tick\<close>

definition controller_mode_fresh :: "real \<Rightarrow> cmd_node \<Rightarrow> bool" where
  "controller_mode_fresh now n \<longleftrightarrow>
     has_controller_mode n \<and> now - last_controller_mode_time n \<le> message_timeout_sec"

definition vehicle_status_fresh :: "real \<Rightarrow> cmd_node \<Rightarrow> bool" where
  "vehicle_status_fresh now n \<longleftrightarrow>
     has_vehicle_status n \<and> now - last_vehicle_status_time n \<le> message_timeout_sec"

definition dds_control_enabled :: "px4_consts \<Rightarrow> real \<Rightarrow> cmd_node \<Rightarrow> bool" where
  "dds_control_enabled K now n \<longleftrightarrow>
     controller_mode_fresh now n \<and> hb_cmd_source (controller_mode n) = HB_CMD_SOURCE_DDS K"

definition offboard_mode_message :: "u64 \<Rightarrow> OffboardControlMode" where
  "offboard_mode_message timestamp_us =
     \<lparr>oc_timestamp = timestamp_us, oc_position = True, oc_velocity = False, oc_acceleration = False,
      oc_attitude = False, oc_body_rate = False, oc_thrust_and_torque = False,
      oc_direct_actuator = False\<rparr>"

definition leave_path_active :: "px4_consts \<Rightarrow> cmd_node \<Rightarrow> cmd_node" where
  "leave_path_active K n =
     (let offboard_mode_active = (vs_nav_state (vehicle_status n) = NAVIGATION_STATE_OFFBOARD K);
          vehicle_armed = (vs_arming_state (vehicle_status n) = ARMING_STATE_ARMED K);
          arm_not_ready = (auto_arm n \<and> \<not> vehicle_armed)
      in if control_mode n = path_active_mode \<and> (\<not> offboard_mode_active \<or> arm_not_ready)
         then n\<lparr>control_mode := (if offboard_mode_active then wait_arm_mode else wait_offboard_mode)\<rparr>
         else n)"

definition dispatch_mode ::
    "px4_consts \<Rightarrow> eigen \<Rightarrow> u64 \<Rightarrow> real \<Rightarrow> real \<Rightarrow> cmd_node \<Rightarrow> cmd_node \<times> publication list" where
  "dispatch_mode K E timestamp_us elapsed_sec now n = (case control_mode n of
       wait_offboard_mode \<Rightarrow> wait_offboard K timestamp_us elapsed_sec now n
     | wait_arm_mode \<Rightarrow> wait_arm K timestamp_us elapsed_sec now n
     | path_active_mode \<Rightarrow> path_active E timestamp_us elapsed_sec n
     | RC2DDS_handoff_mode \<Rightarrow> handoff_step E timestamp_us elapsed_sec now n)"

text \<open>
  \<open>now\<close> is the reading at the start of the tick, \<open>later\<close> the second reading that the hand-over code
  takes during the same tick.
\<close>

definition on_tick ::
    "px4_consts \<Rightarrow> eigen \<Rightarrow> real \<Rightarrow> real \<Rightarrow> u64 \<Rightarrow> cmd_node \<Rightarrow> cmd_node \<times> publication list" where
  "on_tick K E now later timestamp_us n0 =
     (let n1 = n0\<lparr>last_control_tick_time := now\<rparr>;
          elapsed_sec = now - node_start_time n1;
          enabled = dds_control_enabled K now n1;
          (n2, out2) =
            (if previous_dds_control_enabled n1 \<and> \<not> enabled
                \<and> (control_mode n1 = path_active_mode \<or> control_mode n1 = RC2DDS_handoff_mode)
             then switch_to_position_control K timestamp_us n1 else (n1, []));
          n3 = n2\<lparr>previous_dds_control_enabled := enabled\<rparr>;
          out3 = out2 @ (if enabled then [PubOffboardMode (offboard_mode_message timestamp_us)] else [])
      in if \<not> enabled then (n3, out3)
         else if \<not> vehicle_status_fresh now n3
         then (if control_mode n3 = path_active_mode then n3\<lparr>control_mode := wait_offboard_mode\<rparr> else n3,
               out3)
         else let (n4, out4) = dispatch_mode K E timestamp_us elapsed_sec later (leave_path_active K n3)
              in (n4, out3 @ out4))"

subsection \<open>Runs of the node\<close>

datatype node_event =
  Tick real real u64
| CheckInputs real
| ControllerMode real HummingbirdStatus
| LocalPosition real VehicleLocalPosition
| Attitude real VehicleAttitude
| Status real VehicleStatus

fun node_step :: "px4_consts \<Rightarrow> eigen \<Rightarrow> node_event \<Rightarrow> cmd_node \<Rightarrow> cmd_node \<times> publication list" where
  "node_step K E (Tick now later ts) n = on_tick K E now later ts n"
| "node_step K E (CheckInputs now) n = (check_inputs now n, [])"
| "node_step K E (ControllerMode now m) n = (controller_mode_callback now m n, [])"
| "node_step K E (LocalPosition now m) n = (local_position_callback now m n, [])"
| "node_step K E (Attitude now m) n = (vehicle_attitude_callback now m n, [])"
| "node_step K E (Status now m) n = (vehicle_status_callback now m n, [])"

text \<open>The steady clock never goes back between two ticks.\<close>

fun clock_ok :: "node_event \<Rightarrow> cmd_node \<Rightarrow> bool" where
  "clock_ok (Tick now later ts) n = (last_control_tick_time n \<le> now \<and> now \<le> later)"
| "clock_ok _ n = True"

inductive reachable :: "px4_consts \<Rightarrow> eigen \<Rightarrow> cmd_node \<Rightarrow> bool" for K E where
  start: "reachable K E (Px4PositionCommand_new path ao aa now)"
| step: "reachable K E n \<Longrightarrow> clock_ok ev n \<Longrightarrow> reachable K E (fst (node_step K E ev n))"

lemmas mode_defs = dispatch_mode_def wait_offboard_def wait_arm_def start_RC2DDS_handoff_def
  path_active_def handoff_step_def switch_to_position_control_def leave_path_active_def

lemmas callback_defs = check_inputs_def controller_mode_callback_def local_position_callback_def
  vehicle_attitude_callback_def vehicle_status_callback_def

subsection \<open>One tick, case by case\<close>

lemma freshness_frame [simp]:
  "dds_control_enabled K now (n\<lparr>last_control_tick_time := t\<rparr>) = dds_control_enabled K now n"
  "vehicle_status_fresh now (n\<lparr>last_control_tick_time := t\<rparr>) = vehicle_status_fresh now n"
  "vehicle_status_fresh now (n\<lparr>previous_dds_control_enabled := b\<rparr>) = vehicle_status_fresh now n"
  by (simp_all add: dds_control_enabled_def controller_mode_fresh_def vehicle_status_fresh_def)

lemma on_tick_disabled:
  assumes "\<not> dds_control_enabled K now n"
  shows "on_tick K E now later ts n =
    (if previous_dds_control_enabled n
        \<and> (control_mode n = path_active_mode \<or> control_mode n = RC2DDS_handoff_mode)
     then (n\<lparr>last_control_tick_time := now, control_mode := wait_offboard_mode,
             previous_dds_control_enabled := False\<rparr>,
           [PubCommand (vehicle_command ts 1 3 (VEHICLE_CMD_DO_SET_MODE K))])
     else (n\<lparr>last_control_tick_time := now, previous_dds_control_enabled := False\<rparr>, []))"
  using assms by (simp add: on_tick_def Let_def switch_to_position_control_def)

abbreviation ticked :: "real \<Rightarrow> cmd_node \<Rightarrow> cmd_node" where
  "ticked now n \<equiv> n\<lparr>last_control_tick_time := now, previous_dds_control_enabled := True\<rparr>"

lemma on_tick_enabled:
  assumes "dds_control_enabled K now n"
  shows "on_tick K E now later ts n =
    (if \<not> vehicle_status_fresh now n
     then (if control_mode n = path_active_mode
           then (ticked now n)\<lparr>control_mode := wait_offboard_mode\<rparr> else ticked now n,
           [PubOffboardMode (offboard_mode_message ts)])
     else apsnd ((#) (PubOffboardMode (offboard_mode_message ts)))
            (dispatch_mode K E ts (now - node_start_time n) later (leave_path_active K (ticked now n))))"
  using assms by (simp add: on_tick_def Let_def split: prod.split)

lemma initial_pose_reached_frame [simp]:
  "initial_pose_reached E now (n\<lparr>last_target := a\<rparr>) t = initial_pose_reached E now n t"
  "initial_pose_reached E now (n\<lparr>rc2dds_handoff_filters := b\<rparr>) t = initial_pose_reached E now n t"
  by (simp_all add: initial_pose_reached_def)

definition handoff_reply :: "eigen \<Rightarrow> u64 \<Rightarrow> cmd_node \<Rightarrow> publication list" where
  "handoff_reply E ts n = (let t = fst (RC2DDS_handoff (handoff_goal n) (rc2dds_handoff_filters n))
     in [PubTrajectory (setpoint ts t nan3 (rpyToQuat E (tc_roll t, tc_pitch t, tc_yaw t)))])"

lemma handoff_step_eq:
  "handoff_step E ts el now n =
    (let r = RC2DDS_handoff (handoff_goal n) (rc2dds_handoff_filters n) in
     (if initial_pose_reached E now n (handoff_goal n)
      then n\<lparr>last_target := handoff_goal n, rc2dds_handoff_filters := snd r,
             pos_x := initial_pose_x_m, pos_y := initial_pose_y_m, pos_z := initial_pose_z_m,
             trajectory_start_time_sec := el, control_mode := path_active_mode\<rparr>
      else n\<lparr>last_target := fst r, rc2dds_handoff_filters := snd r\<rparr>, handoff_reply E ts n))"
  by (simp add: handoff_step_def handoff_reply_def Let_def split: prod.split)

subsection \<open>Modes and outputs of the dispatch\<close>

lemma leave_path_active_mode:
  "control_mode (leave_path_active K n) = path_active_mode \<Longrightarrow>
     control_mode n = path_active_mode
     \<and> vs_nav_state (vehicle_status n) = NAVIGATION_STATE_OFFBOARD K
     \<and> (auto_arm n \<longrightarrow> vs_arming_state (vehicle_status n) = ARMING_STATE_ARMED K)
     \<and> leave_path_active K n = n"
  "control_mode (leave_path_active K n) = RC2DDS_handoff_mode \<Longrightarrow>
     control_mode n = RC2DDS_handoff_mode \<and> leave_path_active K n = n"
  by (auto simp: leave_path_active_def Let_def split: if_splits)

lemma leave_path_active_fields [simp]:
  "node_start_time (leave_path_active K n) = node_start_time n"
  "last_control_tick_time (leave_path_active K n) = last_control_tick_time n"
  "last_offboard_request_time_sec (leave_path_active K n) = last_offboard_request_time_sec n"
  "rc2dds_handoff_filters (leave_path_active K n) = rc2dds_handoff_filters n"
  by (simp_all add: leave_path_active_def Let_def)

lemma dispatch_trajectory_mode:
  "PubTrajectory m \<in> set (snd (dispatch_mode K E ts el now n)) \<Longrightarrow>
     control_mode n = path_active_mode \<or> control_mode n = RC2DDS_handoff_mode"
  by (cases "control_mode n")
     (auto simp: dispatch_mode_def wait_offboard_def wait_arm_def Let_def split: if_splits)

lemma dispatch_enters_path:
  assumes "control_mode (fst (dispatch_mode K E ts el now n)) = path_active_mode"
    "control_mode n \<noteq> path_active_mode"
  shows "control_mode n = RC2DDS_handoff_mode \<and> initial_pose_reached E now n (handoff_goal n)"
proof (cases "control_mode n")
  case RC2DDS_handoff_mode
  with assms show ?thesis
    by (cases "initial_pose_reached E now n (handoff_goal n)")
       (simp_all add: dispatch_mode_def handoff_step_eq Let_def)
qed (use assms in \<open>auto simp: dispatch_mode_def wait_offboard_def wait_arm_def Let_def
      start_RC2DDS_handoff_def split: if_splits\<close>)

definition is_offboard_request :: "px4_consts \<Rightarrow> publication \<Rightarrow> bool" where
  "is_offboard_request K p = (case p of
     PubCommand m \<Rightarrow> vc_command m = VEHICLE_CMD_DO_SET_MODE K \<and> vc_param2 m = 6 | _ \<Rightarrow> False)"

lemma dispatch_request:
  "if list_ex (is_offboard_request K) (snd (dispatch_mode K E ts el now n))
   then diff_ge el (last_offboard_request_time_sec n) command_repeat_sec
        \<and> last_offboard_request_time_sec (fst (dispatch_mode K E ts el now n)) = Fin el
   else last_offboard_request_time_sec (fst (dispatch_mode K E ts el now n))
        = last_offboard_request_time_sec n"
  by (cases "control_mode n")
     (auto simp: dispatch_mode_def wait_offboard_def wait_arm_def Let_def start_RC2DDS_handoff_def
       handoff_step_eq handoff_reply_def path_active_def is_offboard_request_def vehicle_command_def)

lemma tick_request:
  "if list_ex (is_offboard_request K) (snd (on_tick K E now later ts n))
   then diff_ge (now - node_start_time n) (last_offboard_request_time_sec n) command_repeat_sec
        \<and> last_offboard_request_time_sec (fst (on_tick K E now later ts n)) = Fin (now - node_start_time n)
   else last_offboard_request_time_sec (fst (on_tick K E now later ts n))
        = last_offboard_request_time_sec n"
proof (cases "dds_control_enabled K now n")
  case True
  show ?thesis
    using dispatch_request [of K E ts "now - node_start_time n" later "leave_path_active K (ticked now n)"]
    by (simp add: on_tick_enabled [OF True] is_offboard_request_def split: if_split_asm)
next
  case False
  then show ?thesis by (simp add: on_tick_disabled is_offboard_request_def vehicle_command_def)
qed

text \<open>Elapsed times of the ticks of a run at which the node asked for offboard mode.\<close>

fun requests :: "px4_consts \<Rightarrow> eigen \<Rightarrow> node_event list \<Rightarrow> cmd_node \<Rightarrow> real list" where
  "requests K E [] n = []"
| "requests K E (ev # evs) n =
     (let (n', out) = node_step K E ev n;
          rest = requests K E evs n'
      in case ev of
           Tick now later ts \<Rightarrow>
             if list_ex (is_offboard_request K) out then (now - node_start_time n) # rest else rest
         | _ \<Rightarrow> rest)"

lemma callbacks_keep_request:
  "\<not> (\<exists>now later ts. ev = Tick now later ts) \<Longrightarrow>
     last_offboard_request_time_sec (fst (node_step K E ev n)) = last_offboard_request_time_sec n"
  by (cases ev) (auto simp: callback_defs)

lemma diff_ge_trans:
  "diff_ge e l d \<Longrightarrow> t - e \<ge> d \<Longrightarrow> 0 \<le> d \<Longrightarrow> diff_ge t l d"
  by (cases l) auto

lemma requests_spaced:
  "sorted_wrt (\<lambda>a b. b - a \<ge> command_repeat_sec) (requests K E evs n)
   \<and> (\<forall>t \<in> set (requests K E evs n). diff_ge t (last_offboard_request_time_sec n) command_repeat_sec)"
proof (induction evs arbitrary: n)
  case (Cons ev evs)
  let ?n' = "fst (node_step K E ev n)"
  note IH = Cons.IH [of ?n']
  show ?case
  proof (cases "\<exists>now later ts. ev = Tick now later ts
      \<and> list_ex (is_offboard_request K) (snd (node_step K E ev n))")
    case True
    then obtain now later ts where ev: "ev = Tick now later ts"
      and req: "list_ex (is_offboard_request K) (snd (on_tick K E now later ts n))" by auto
    note tr = tick_request [of K E now later ts n, unfolded if_P [OF req]]
    from IH tr ev have "\<forall>t \<in> set (requests K E evs ?n'). t - (now - node_start_time n) \<ge> command_repeat_sec"
      by simp
    with IH tr ev req show ?thesis
      by (auto simp: case_prod_unfold Let_def command_repeat_sec_def elim: diff_ge_trans)
  next
    case False
    then have "requests K E (ev # evs) n = requests K E evs ?n'"
      by (cases ev) (auto simp: case_prod_unfold Let_def)
    moreover have "last_offboard_request_time_sec ?n' = last_offboard_request_time_sec n"
    proof (cases "\<exists>now later ts. ev = Tick now later ts")
      case True
      with False obtain now later ts where "ev = Tick now later ts"
        "\<not> list_ex (is_offboard_request K) (snd (on_tick K E now later ts n))" by auto
      then show ?thesis using tick_request [of K E now later ts n] by simp
    qed (rule callbacks_keep_request)
    ultimately show ?thesis using IH by simp
  qed
qed simp

subsection \<open>The invariant of reachable nodes\<close>

definition filters_ok :: "HandoffFilters \<Rightarrow> bool" where
  "filters_ok hf \<longleftrightarrow> LPF_ok (hf_x hf) \<and> LPF_ok (hf_y hf) \<and> LPF_ok (hf_z hf)
     \<and> LPF_ok (hf_roll hf) \<and> LPF_ok (hf_pitch hf) \<and> LPF_ok (hf_yaw hf)"

text \<open>Filter gains are set once, by the constructor; resetting makes a filter usable.\<close>

definition gains_ok :: "HandoffFilters \<Rightarrow> bool" where
  "gains_ok hf \<longleftrightarrow> (\<forall>f \<in> {hf_x hf, hf_y hf, hf_z hf, hf_roll hf, hf_pitch hf, hf_yaw hf}.
     0 < lpf_alpha f \<and> lpf_alpha f \<le> 1)"

lemma filters_ok_gains: "filters_ok hf \<Longrightarrow> gains_ok hf"
  by (auto simp: filters_ok_def gains_ok_def LPF_ok_def)

lemma filters_ok_reset: "gains_ok hf \<Longrightarrow> filters_ok (HandoffFilters_reset hf c)"
  by (auto simp: filters_ok_def gains_ok_def HandoffFilters_reset_def LPF_ok_def LPF_reset_def)

lemma gains_ok_new: "gains_ok HandoffFilters_new"
  using LPF_new_alpha_range by (auto simp: gains_ok_def HandoffFilters_new_def)

lemma filters_ok_handoff: "filters_ok hf \<Longrightarrow> filters_ok (snd (RC2DDS_handoff c hf))"
  using lpf.invar_upd
  by (auto simp: filters_ok_def RC2DDS_handoff_def Let_def case_prod_unfold)

definition node_inv :: "cmd_node \<Rightarrow> bool" where
  "node_inv n \<longleftrightarrow>
     (control_mode n = path_active_mode \<longrightarrow>
        pos_x n = initial_pose_x_m \<and> pos_y n = initial_pose_y_m \<and> pos_z n = initial_pose_z_m
        \<and> trajectory_start_time_sec n \<le> last_control_tick_time n - node_start_time n)
     \<and> (if control_mode n = RC2DDS_handoff_mode then filters_ok (rc2dds_handoff_filters n)
        else gains_ok (rc2dds_handoff_filters n))"

lemma node_inv_new: "node_inv (Px4PositionCommand_new path ao aa now)"
  by (simp add: node_inv_def Px4PositionCommand_new_def gains_ok_new)

lemma dispatch_inv:
  assumes "node_inv n" "el \<le> last_control_tick_time n - node_start_time n"
  shows "node_inv (fst (dispatch_mode K E ts el now n))"
proof (cases "control_mode n")
  case RC2DDS_handoff_mode
  with assms have "filters_ok (rc2dds_handoff_filters n)" by (simp add: node_inv_def)
  note f = filters_ok_handoff [OF this, of "handoff_goal n"]
  from RC2DDS_handoff_mode assms f filters_ok_gains [OF f] show ?thesis
    by (simp add: dispatch_mode_def handoff_step_eq Let_def node_inv_def)
next
  case path_active_mode
  with assms show ?thesis by (simp add: dispatch_mode_def path_active_def Let_def node_inv_def)
qed (use assms filters_ok_reset in \<open>auto simp: dispatch_mode_def wait_offboard_def wait_arm_def Let_def
      start_RC2DDS_handoff_def node_inv_def\<close>)

lemma leave_path_active_inv: "node_inv n \<Longrightarrow> node_inv (leave_path_active K n)"
  by (auto simp: leave_path_active_def Let_def node_inv_def)

lemma on_tick_inv:
  assumes "node_inv n" "last_control_tick_time n \<le> now"
  shows "node_inv (fst (on_tick K E now later ts n))"
proof (cases "dds_control_enabled K now n")
  case True
  have t: "node_inv (ticked now n)" using assms by (auto simp: node_inv_def)
  have "node_inv (fst (dispatch_mode K E ts (now - node_start_time n) later (leave_path_active K (ticked now n))))"
    using leave_path_active_inv [OF t] by (rule dispatch_inv) simp
  moreover have "node_inv ((ticked now n)\<lparr>control_mode := wait_offboard_mode\<rparr>)" if "control_mode n = path_active_mode"
    using assms that by (simp add: node_inv_def)
  ultimately show ?thesis using t by (simp add: on_tick_enabled [OF True])
next
  case False
  with assms show ?thesis by (auto simp: on_tick_disabled node_inv_def intro: filters_ok_gains)
qed

lemma callbacks_inv:
  "node_inv n \<Longrightarrow> \<not> (\<exists>now later ts. ev = Tick now later ts) \<Longrightarrow> node_inv (fst (node_step K E ev n))"
  by (cases ev) (auto simp: callback_defs node_inv_def)

lemma reachable_inv: "reachable K E n \<Longrightarrow> node_inv n"
proof (induction rule: reachable.induct)
  case (start path ao aa now)
  show ?case by (rule node_inv_new)
next
  case (step n ev)
  show ?case
  proof (cases "\<exists>now later ts. ev = Tick now later ts")
    case True
    with step show ?thesis by (auto intro: on_tick_inv)
  qed (rule callbacks_inv [OF step.IH])
qed

subsection \<open>Path targets\<close>

lemma select_path_bounds:
  assumes "0 \<le> t"
  shows "\<bar>tc_x (select_path name t)\<bar> \<le> 1" "\<bar>tc_y (select_path name t)\<bar> \<le> 1"
    "tc_z (select_path name t) = 0"
  using pos_path.offsets [OF assms] att_path.offsets [OF assms] step_path.offsets [OF assms]
    circle_path.offsets [OF assms] straight_path.offsets [OF assms]
  by (auto simp: select_path_def TargetCMD_zero_def)

lemma path_active_setpoint:
  assumes "node_inv n" "control_mode n = path_active_mode" "trajectory_start_time_sec n \<le> el"
    "PubTrajectory m \<in> set (snd (path_active E ts el n))"
  shows "\<exists>x y. ts_position m = (Fin x, Fin y, Fin initial_pose_z_m)
    \<and> \<bar>x - initial_pose_x_m\<bar> \<le> 1 \<and> \<bar>y - initial_pose_y_m\<bar> \<le> 1"
  using assms select_path_bounds [of "el - trajectory_start_time_sec n" "trajectory_name n"]
  by (auto simp: path_active_def Let_def setpoint_def node_inv_def split: prod.split)

subsection \<open>Properties\<close>

text \<open>C1: a tick publishes a trajectory setpoint only when a controller-mode message has been received, is at
  most one second old and names DDS as the source of commands, and a vehicle status has been received that is
  at most one second old; only while handing over or flying the path, and on the path only in offboard mode
  and, when the node arms by itself, armed.  The same tick also publishes the offboard heartbeat.\<close>

theorem setpoint_only_under_dds_authority:
  assumes "PubTrajectory m \<in> set (snd (on_tick K E now later ts n))"
  shows "has_controller_mode n \<and> now - last_controller_mode_time n \<le> 1
    \<and> hb_cmd_source (controller_mode n) = HB_CMD_SOURCE_DDS K
    \<and> has_vehicle_status n \<and> now - last_vehicle_status_time n \<le> 1
    \<and> PubOffboardMode (offboard_mode_message ts) \<in> set (snd (on_tick K E now later ts n))
    \<and> (control_mode n = RC2DDS_handoff_mode
       \<or> control_mode n = path_active_mode
         \<and> vs_nav_state (vehicle_status n) = NAVIGATION_STATE_OFFBOARD K
         \<and> (auto_arm n \<longrightarrow> vs_arming_state (vehicle_status n) = ARMING_STATE_ARMED K))"
proof (cases "dds_control_enabled K now n")
  case True
  then have fresh: "vehicle_status_fresh now n"
    and "PubTrajectory m \<in> set (snd (dispatch_mode K E ts (now - node_start_time n) later
           (leave_path_active K (ticked now n))))"
    using assms by (auto simp: on_tick_enabled split: if_splits)
  with True dispatch_trajectory_mode [OF this(2)] leave_path_active_mode [of K "ticked now n"]
  have "PubOffboardMode (offboard_mode_message ts) \<in> set (snd (on_tick K E now later ts n))
    \<and> (control_mode n = RC2DDS_handoff_mode
       \<or> control_mode n = path_active_mode
         \<and> vs_nav_state (vehicle_status n) = NAVIGATION_STATE_OFFBOARD K
         \<and> (auto_arm n \<longrightarrow> vs_arming_state (vehicle_status n) = ARMING_STATE_ARMED K))"
    by (auto simp: on_tick_enabled)
  with True fresh show ?thesis
    by (simp add: dds_control_enabled_def controller_mode_fresh_def vehicle_status_fresh_def message_timeout_sec_def)
next
  case False
  with assms show ?thesis by (auto simp: on_tick_disabled split: if_splits)
qed

definition demo_consts :: px4_consts where
  "demo_consts = \<lparr>NAVIGATION_STATE_OFFBOARD = 14, ARMING_STATE_ARMED = 2, HB_CMD_SOURCE_DDS = 1,
     VEHICLE_CMD_DO_SET_MODE = 176, VEHICLE_CMD_COMPONENT_ARM_DISARM = 400\<rparr>"

text \<open>A node on the path: messages received at time 10, path started one second before.\<close>

definition demo_node :: cmd_node where
  "demo_node = (Px4PositionCommand_new ''pos'' True False 0)\<lparr>
     has_controller_mode := True, last_controller_mode_time := 10,
     controller_mode := \<lparr>hb_cmd_source = 1, hb_ctrl_mode = 0\<rparr>,
     has_vehicle_status := True, last_vehicle_status_time := 10,
     vehicle_status := \<lparr>vs_nav_state = 14, vs_arming_state = 2\<rparr>,
     control_mode := path_active_mode, previous_dds_control_enabled := True,
     trajectory_start_time_sec := 9, last_control_tick_time := 10,
     pos_x := initial_pose_x_m, pos_y := initial_pose_y_m, pos_z := initial_pose_z_m\<rparr>"

lemma demo_node_tick:
  "on_tick demo_consts E 10 10 ts demo_node =
     (let (n, out) = path_active E ts 10 (ticked 10 demo_node)
      in (n, PubOffboardMode (offboard_mode_message ts) # out))"
  by (simp add: on_tick_def Let_def demo_node_def demo_consts_def Px4PositionCommand_new_def
      dds_control_enabled_def controller_mode_fresh_def vehicle_status_fresh_def
      leave_path_active_def dispatch_mode_def message_timeout_sec_def split: prod.split)

theorem setpoint_only_under_dds_authority_witness:
  "10 - last_controller_mode_time demo_node \<le> 1 \<and> hb_cmd_source (controller_mode demo_node) = HB_CMD_SOURCE_DDS demo_consts
    \<and> 10 - last_vehicle_status_time demo_node \<le> 1"
  using setpoint_only_under_dds_authority [of _ demo_consts eigen_ref 10 10 0 demo_node]
  by (simp add: demo_node_tick path_active_def Let_def)

text \<open>C2: when DDS authority is lost while setpoints flow, that very tick sends the switch to
  position control, publishes nothing else, and returns the node to waiting for offboard; from then
  on, as long as authority is missing, a tick publishes nothing.\<close>

theorem dds_loss_hands_back:
  assumes "\<not> dds_control_enabled K now n" "previous_dds_control_enabled n"
    "control_mode n = path_active_mode \<or> control_mode n = RC2DDS_handoff_mode"
    "\<not> dds_control_enabled K now' (fst (on_tick K E now later ts n))"
  shows "snd (on_tick K E now later ts n)
      = [PubCommand (vehicle_command ts 1 3 (VEHICLE_CMD_DO_SET_MODE K))]
    \<and> control_mode (fst (on_tick K E now later ts n)) = wait_offboard_mode
    \<and> snd (on_tick K E now' later' ts' (fst (on_tick K E now later ts n))) = []"
  using assms by (simp add: on_tick_disabled)

theorem dds_loss_hands_back_witness:
  "control_mode (fst (on_tick demo_consts eigen_ref 12 12 0 demo_node)) = wait_offboard_mode"
proof -
  have off: "\<not> dds_control_enabled demo_consts 12 demo_node"
    by (simp add: dds_control_enabled_def controller_mode_fresh_def demo_node_def
        Px4PositionCommand_new_def message_timeout_sec_def)
  then have "\<not> dds_control_enabled demo_consts 13 (fst (on_tick demo_consts eigen_ref 12 12 0 demo_node))"
    by (simp add: on_tick_disabled dds_control_enabled_def controller_mode_fresh_def demo_node_def
        Px4PositionCommand_new_def message_timeout_sec_def)
  then show ?thesis
    using dds_loss_hands_back [OF off, of 13 eigen_ref 12 0]
    by (simp add: demo_node_def Px4PositionCommand_new_def)
qed

lemma initial_pose_reached_bounds:
  assumes "eigen_lib E" "initial_pose_reached E now n t"
  shows "has_local_position n" "has_vehicle_attitude n"
    "now - last_local_position_time n \<le> message_timeout_sec"
    "now - last_vehicle_attitude_time n \<le> message_timeout_sec"
    "sqrt ((lp_x (local_position n) - tc_x t)\<^sup>2 + (lp_y (local_position n) - tc_y t)\<^sup>2
        + (lp_z (local_position n) - tc_z t)\<^sup>2) \<le> pos_tol"
    "angleErrorAbs (lp_heading (local_position n)) (tc_yaw t) \<le> yaw_tol"
  using assms(2)
  by (auto simp: initial_pose_reached_def Let_def eigen_lib.norm3 [OF assms(1)]
      split: prod.splits if_splits)

text \<open>C33: the path starts only out of the hand-over, and only when a position and an attitude at most
  one second old put the vehicle within 15 cm of the initial pose and within 5 degrees of its yaw.\<close>

theorem path_starts_at_initial_pose:
  assumes "eigen_lib E" "control_mode n \<noteq> path_active_mode"
    "control_mode (fst (on_tick K E now later ts n)) = path_active_mode"
  shows "control_mode n = RC2DDS_handoff_mode
    \<and> later - last_local_position_time n \<le> 1 \<and> later - last_vehicle_attitude_time n \<le> 1
    \<and> sqrt ((lp_x (local_position n) - initial_pose_x_m)\<^sup>2
           + (lp_y (local_position n) - initial_pose_y_m)\<^sup>2
           + (lp_z (local_position n) - initial_pose_z_m)\<^sup>2) \<le> 15 / 100
    \<and> angleErrorAbs (lp_heading (local_position n)) (tc_yaw (handoff_goal n)) \<le> 5 * pi / 180"
proof -
  have en: "dds_control_enabled K now n"
    using assms(2,3) by (cases "dds_control_enabled K now n") (auto simp: on_tick_disabled split: if_splits)
  let ?n = "leave_path_active K (ticked now n)"
  have "control_mode ?n \<noteq> path_active_mode"
    using assms(2) leave_path_active_mode(1) [of K "ticked now n"] by auto
  moreover have "control_mode (fst (dispatch_mode K E ts (now - node_start_time n) later ?n)) = path_active_mode"
    using assms(2,3) by (auto simp: on_tick_enabled [OF en] split: if_splits)
  ultimately have "control_mode ?n = RC2DDS_handoff_mode" "initial_pose_reached E later ?n (handoff_goal ?n)"
    using dispatch_enters_path by blast+
  moreover from this(1) have "?n = ticked now n" "control_mode n = RC2DDS_handoff_mode"
    using leave_path_active_mode(2) [of K "ticked now n"] by auto
  ultimately have "initial_pose_reached E later (ticked now n) (handoff_goal n)"
    and h: "control_mode n = RC2DDS_handoff_mode" by (simp_all add: handoff_goal_def)
  with initial_pose_reached_bounds [OF assms(1) this(1)] show ?thesis
    by (simp add: handoff_goal_def initialPose_def message_timeout_sec_def pos_tol_def yaw_tol_def)
qed

text \<open>A node that hovers at the initial pose in the hand-over.\<close>

definition demo_handoff :: cmd_node where
  "demo_handoff = demo_node\<lparr>control_mode := RC2DDS_handoff_mode,
     has_local_position := True, last_local_position_time := 10,
     local_position := \<lparr>lp_x = 0, lp_y = - 1, lp_z = - 1, lp_heading = 0,
       lp_xy_valid = True, lp_z_valid = True\<rparr>,
     has_vehicle_attitude := True, last_vehicle_attitude_time := 10,
     vehicle_attitude := \<lparr>va_q = (Fin 1, Fin 0, Fin 0, Fin 0)\<rparr>\<rparr>"

lemma demo_handoff_reached: "initial_pose_reached eigen_ref 10 (ticked 10 demo_handoff) (handoff_goal (ticked 10 demo_handoff))"
proof -
  have "atan2 0 1 = 0" using atan2_polar [of 1 0] by simp
  then have "quatToRpy (1, 0, 0, 0) = (0, 0, 0)" by (simp add: quatToRpy_def Let_def)
  then show ?thesis
    by (simp add: initial_pose_reached_def demo_handoff_def demo_node_def Px4PositionCommand_new_def
        handoff_goal_def initialPose_def TargetCMD_zero_def const_defs angleErrorAbs_def eigen_ref_def)
qed

theorem path_starts_at_initial_pose_witness:
  "control_mode (fst (on_tick demo_consts eigen_ref 10 10 0 demo_handoff)) = path_active_mode
   \<and> control_mode demo_handoff = RC2DDS_handoff_mode"
proof -
  have "on_tick demo_consts eigen_ref 10 10 0 demo_handoff =
      apsnd ((#) (PubOffboardMode (offboard_mode_message 0)))
        (handoff_step eigen_ref 0 10 10 (ticked 10 demo_handoff))"
    by (simp add: on_tick_def Let_def demo_handoff_def demo_node_def demo_consts_def
        Px4PositionCommand_new_def dds_control_enabled_def controller_mode_fresh_def
        vehicle_status_fresh_def leave_path_active_def dispatch_mode_def message_timeout_sec_def
        split: prod.split)
  then have "control_mode (fst (on_tick demo_consts eigen_ref 10 10 0 demo_handoff)) = path_active_mode"
    using demo_handoff_reached by (simp add: handoff_step_eq Let_def)
  then show ?thesis
    using path_starts_at_initial_pose [OF eigen_ref.eigen_lib_axioms, of demo_handoff demo_consts 10 10 0]
    by (simp add: demo_handoff_def)
qed

text \<open>over any run of callbacks and ticks, from any state of the node, two requests for offboard
  mode are at least \<open>command_repeat_sec\<close> (one second) apart.\<close>

theorem offboard_requests_rate_limited:
  "sorted_wrt (\<lambda>a b. b - a \<ge> command_repeat_sec) (requests K E evs n)"
  using requests_spaced by blast

text \<open>C34: whatever path is selected, every setpoint published while a reachable node flies its path
  lies within one metre of the initial pose in x and y and at its altitude.\<close>

theorem path_setpoints_stay_in_box:
  assumes "reachable K E n" "clock_ok (Tick now later ts) n" "control_mode n = path_active_mode"
    "PubTrajectory m \<in> set (snd (on_tick K E now later ts n))"
  shows "\<exists>x y. ts_position m = (Fin x, Fin y, Fin initial_pose_z_m)
    \<and> \<bar>x - initial_pose_x_m\<bar> \<le> 1 \<and> \<bar>y - initial_pose_y_m\<bar> \<le> 1"
proof -
  have inv: "node_inv n" by (rule reachable_inv) (rule assms(1))
  have en: "dds_control_enabled K now n"
    using assms(4) by (cases "dds_control_enabled K now n") (auto simp: on_tick_disabled split: if_splits)
  let ?n = "leave_path_active K (ticked now n)"
  have m: "PubTrajectory m \<in> set (snd (dispatch_mode K E ts (now - node_start_time n) later ?n))"
    using assms(4) by (auto simp: on_tick_enabled [OF en] split: if_splits)
  have "control_mode ?n \<noteq> RC2DDS_handoff_mode"
    using leave_path_active_mode(2) [of K "ticked now n"] assms(3) by auto
  then have p: "control_mode ?n = path_active_mode" using dispatch_trajectory_mode [OF m] by simp
  then have n: "?n = ticked now n" using leave_path_active_mode(1) by blast
  have "node_inv (ticked now n)" "trajectory_start_time_sec (ticked now n) \<le> now - node_start_time n"
    using inv assms(2,3) by (auto simp: node_inv_def)
  with m p n path_active_setpoint [of "ticked now n" "now - node_start_time n" m E ts] show ?thesis
    by (simp add: dispatch_mode_def)
qed

text \<open>A reachable node on its path: started at time 0 it is brought to the initial pose.\<close>

definition demo_run :: "node_event list" where
  "demo_run =
     [ControllerMode 1 \<lparr>hb_cmd_source = 1, hb_ctrl_mode = 0\<rparr>,
      Status 1 \<lparr>vs_nav_state = 14, vs_arming_state = 2\<rparr>,
      LocalPosition 1 \<lparr>lp_x = 0, lp_y = - 1, lp_z = - 1, lp_heading = 0, lp_xy_valid = True, lp_z_valid = True\<rparr>,
      Attitude 1 \<lparr>va_q = (Fin 1, Fin 0, Fin 0, Fin 0)\<rparr>,
      Tick 1 1 0, Tick 1 1 1]"

fun node_run :: "px4_consts \<Rightarrow> eigen \<Rightarrow> node_event list \<Rightarrow> cmd_node \<Rightarrow> cmd_node" where
  "node_run K E [] n = n"
| "node_run K E (ev # evs) n = node_run K E evs (fst (node_step K E ev n))"

fun clocks_ok :: "px4_consts \<Rightarrow> eigen \<Rightarrow> node_event list \<Rightarrow> cmd_node \<Rightarrow> bool" where
  "clocks_ok K E [] n = True"
| "clocks_ok K E (ev # evs) n = (clock_ok ev n \<and> clocks_ok K E evs (fst (node_step K E ev n)))"

lemma node_run_reachable: "reachable K E n \<Longrightarrow> clocks_ok K E evs n \<Longrightarrow> reachable K E (node_run K E evs n)"
  by (induction evs arbitrary: n) (auto intro: reachable.step)

lemma quatToRpy_level: "quatToRpy (1, 0, 0, 0) = (0, 0, 0)"
proof -
  have "atan2 0 1 = 0" using atan2_polar [of 1 0] by simp
  then show ?thesis by (simp add: quatToRpy_def Let_def)
qed

lemmas tick_eval = on_tick_def Let_def Px4PositionCommand_new_def demo_consts_def
  dds_control_enabled_def controller_mode_fresh_def vehicle_status_fresh_def leave_path_active_def
  dispatch_mode_def wait_offboard_def wait_arm_def start_RC2DDS_handoff_def
  callback_defs note_input_def

lemma demo_run_states:
  defines "n0 \<equiv> Px4PositionCommand_new ''pos'' True False 0"
  defines "n1 \<equiv> node_run demo_consts eigen_ref (take 5 demo_run) n0"
  shows "control_mode n1 = RC2DDS_handoff_mode" "last_target n1 = initialPose"
    "node_start_time n1 = 0" "last_control_tick_time n1 = 1"
    "clocks_ok demo_consts eigen_ref (take 5 demo_run) n0"
    "dds_control_enabled demo_consts 1 n1" "vehicle_status_fresh 1 n1"
    "initial_pose_reached eigen_ref 1 n1 initialPose"
    "vs_nav_state (vehicle_status n1) = 14" "\<not> auto_arm n1" "trajectory_name n1 = ''pos''"
    "vs_arming_state (vehicle_status n1) = 2"
  unfolding n1_def n0_def demo_run_def
  by (simp_all add: tick_eval const_defs initial_pose_reached_def initialPose_def TargetCMD_zero_def
      eigen_ref_def quatToRpy_level angleErrorAbs_def)

lemma handoff_goal_initial: "last_target n = initialPose \<Longrightarrow> handoff_goal n = initialPose"
  by (simp add: handoff_goal_def)

lemma node_run_append: "node_run K E (xs @ ys) n = node_run K E ys (node_run K E xs n)"
  by (induction xs arbitrary: n) auto

lemma demo_run_path_active:
  defines "n \<equiv> node_run demo_consts eigen_ref demo_run (Px4PositionCommand_new ''pos'' True False 0)"
  shows "reachable demo_consts eigen_ref n" "control_mode n = path_active_mode"
    "last_control_tick_time n = 1"
    "\<exists>m. PubTrajectory m \<in> set (snd (on_tick demo_consts eigen_ref 1 1 2 n))"
proof -
  define n1 where "n1 = node_run demo_consts eigen_ref (take 5 demo_run)
    (Px4PositionCommand_new ''pos'' True False 0)"
  note st = demo_run_states [folded n1_def]
  have split: "demo_run = take 5 demo_run @ [Tick 1 1 1]" by (simp add: demo_run_def)
  have n: "n = fst (on_tick demo_consts eigen_ref 1 1 1 n1)"
    unfolding n_def by (subst split) (simp add: node_run_append n1_def)
  have n1: "reachable demo_consts eigen_ref n1"
    unfolding n1_def by (rule node_run_reachable [OF reachable.start st(5)])
  have clk: "clock_ok (Tick 1 1 1) n1" using st(4) by simp
  show "reachable demo_consts eigen_ref n"
    unfolding n using reachable.step [OF n1 clk] by simp
  have tick: "on_tick demo_consts eigen_ref 1 1 1 n1 =
      apsnd ((#) (PubOffboardMode (offboard_mode_message 1))) (handoff_step eigen_ref 1 1 1 (ticked 1 n1))"
    using st by (simp add: on_tick_enabled leave_path_active_def Let_def dispatch_mode_def)
  have step: "n = (ticked 1 n1)\<lparr>last_target := initialPose,
      rc2dds_handoff_filters := snd (RC2DDS_handoff initialPose (rc2dds_handoff_filters n1)),
      pos_x := initial_pose_x_m, pos_y := initial_pose_y_m, pos_z := initial_pose_z_m,
      trajectory_start_time_sec := 1, control_mode := path_active_mode\<rparr>"
    using st(2,8) unfolding n tick
    by (simp add: handoff_step_eq Let_def handoff_goal_initial initial_pose_reached_def)
  show "control_mode n = path_active_mode" "last_control_tick_time n = 1" by (simp_all add: step)
  have "dds_control_enabled demo_consts 1 n" "vehicle_status_fresh 1 n"
    using st(6,7) by (simp_all add: step dds_control_enabled_def controller_mode_fresh_def vehicle_status_fresh_def)
  then show "\<exists>m. PubTrajectory m \<in> set (snd (on_tick demo_consts eigen_ref 1 1 2 n))"
    using st(9,10) by (auto simp: on_tick_enabled step leave_path_active_def Let_def dispatch_mode_def
        path_active_def demo_consts_def)
qed

theorem path_setpoints_stay_in_box_witness:
  "\<exists>m x y. PubTrajectory m \<in> set (snd (on_tick demo_consts eigen_ref 1 1 2
       (node_run demo_consts eigen_ref demo_run (Px4PositionCommand_new ''pos'' True False 0))))
     \<and> ts_position m = (Fin x, Fin y, Fin initial_pose_z_m) \<and> \<bar>x\<bar> \<le> 1"
proof -
  let ?n = "node_run demo_consts eigen_ref demo_run (Px4PositionCommand_new ''pos'' True False 0)"
  obtain m where m: "PubTrajectory m \<in> set (snd (on_tick demo_consts eigen_ref 1 1 2 ?n))"
    using demo_run_path_active(4) by blast
  have "clock_ok (Tick 1 1 2) ?n" using demo_run_path_active(3) by simp
  with path_setpoints_stay_in_box [OF demo_run_path_active(1) this demo_run_path_active(2) m] m
  show ?thesis by (auto simp: initial_pose_x_m_def)
qed

end
