(* ===== verification/Servo_Dynamixel.thy ===== *)
theory Servo_Dynamixel
  imports Flight_Utils
begin

text \<open>
  The servo driver node, \<open>src/src/px4_hummingbird_cmd/src/px4_servo_to_dynamixel.cpp\<close>. The Dynamixel
  SDK is outside the repository: its calls are the fields of the record \<open>dxl_sdk\<close>, over an
  arbitrary world type, and its byte macros satisfy the laws of the locale \<open>dxl_macros\<close>. Every bus
  call is also appended to a trace, so that statements about the order of register accesses can be
  made. Sleeps and log lines are not modelled; clock readings are arguments.
\<close>

subsection \<open>The SDK as a parameter\<close>

datatype bus_call =
  ClosePort | OpenPort bool | SetBaudRate int bool
| Ping u8 bool
| Write1 u8 u16 u8 bool
| Write2 u8 u16 u16 bool
| Read1 u8 u16 u8 bool
| Read4 u8 u16 u32 bool
| ClearParam | AddParam u8 "u8 list" bool | TxPacket int

record 'w dxl_sdk =
  COMM_SUCCESS :: int
  getPortHandler :: bool
  getPacketHandler :: bool
  sdk_closePort :: "'w \<Rightarrow> 'w"
  sdk_openPort :: "'w \<Rightarrow> bool \<times> 'w"
  sdk_setBaudRate :: "int \<Rightarrow> 'w \<Rightarrow> bool \<times> 'w"
  sdk_ping :: "u8 \<Rightarrow> 'w \<Rightarrow> (int \<times> u8) \<times> 'w"
  sdk_write1ByteTxRx :: "u8 \<Rightarrow> u16 \<Rightarrow> u8 \<Rightarrow> 'w \<Rightarrow> (int \<times> u8) \<times> 'w"
  sdk_write2ByteTxRx :: "u8 \<Rightarrow> u16 \<Rightarrow> u16 \<Rightarrow> 'w \<Rightarrow> (int \<times> u8) \<times> 'w"
  sdk_read1ByteTxRx :: "u8 \<Rightarrow> u16 \<Rightarrow> 'w \<Rightarrow> (u8 \<times> int \<times> u8) \<times> 'w"
  sdk_read4ByteTxRx :: "u8 \<Rightarrow> u16 \<Rightarrow> 'w \<Rightarrow> (u32 \<times> int \<times> u8) \<times> 'w"
  sdk_clearParam :: "'w \<Rightarrow> 'w"
  sdk_addParam :: "u8 \<Rightarrow> u8 list \<Rightarrow> 'w \<Rightarrow> bool \<times> 'w"
  sdk_txPacket :: "'w \<Rightarrow> int \<times> 'w"
  DXL_LOBYTE :: "u16 \<Rightarrow> u8"
  DXL_HIBYTE :: "u16 \<Rightarrow> u8"
  DXL_LOWORD :: "u32 \<Rightarrow> u16"
  DXL_HIWORD :: "u32 \<Rightarrow> u16"

subsection \<open>Node state\<close>

record 'w dxl_node =
  bus_world :: 'w
  bus_trace :: "bus_call list"
  port_handler :: bool
  packet_handler :: bool
  sync_write :: bool
  servo_lpf :: "LPF list"
  latest_goal_ppr :: "int list"
  last_dds_receive_steady :: real
  node_ready_steady :: real
  return_start_steady :: real
  last_timeout_start :: real
  last_reopen_attempt :: real
  last_write_rate_log_steady :: real
  last_px4_timestamp_us :: u64
  consecutive_write_failures :: u32
  write_count_window :: u32
  dds_received :: bool
  no_dds_reported :: bool
  dds_timeout_reported :: bool
  returning_to_zero :: bool
  zero_return_complete :: bool
  have_goal :: bool
  reopen_attempted :: bool

definition dxl_node_init :: "'w \<Rightarrow> 'w dxl_node" where
  "dxl_node_init w =
     \<lparr>bus_world = w, bus_trace = [], port_handler = False, packet_handler = False,
      sync_write = False, servo_lpf = replicate (length DXL_SERVOS) (LPF_new 0),
      latest_goal_ppr = replicate (length DXL_SERVOS) 0,
      last_dds_receive_steady = 0, node_ready_steady = 0, return_start_steady = 0,
      last_timeout_start = 0, last_reopen_attempt = 0, last_write_rate_log_steady = 0,
      last_px4_timestamp_us = 0, consecutive_write_failures = 0, write_count_window = 0,
      dds_received = False, no_dds_reported = False, dds_timeout_reported = False,
      returning_to_zero = False, zero_return_complete = False, have_goal = False,
      reopen_attempted = False\<rparr>"

subsection \<open>Bus calls\<close>

text \<open>An action changes the node and returns a value, or fails.\<close>

type_synonym ('w, 'a) action = "'w dxl_node \<Rightarrow> 'a option \<times> 'w dxl_node"

definition act_return :: "'a \<Rightarrow> ('w, 'a) action" where
  "act_return x n = (Some x, n)"

definition act_fail :: "('w, 'a) action" where
  "act_fail n = (None, n)"

definition act_bind :: "('w, 'a) action \<Rightarrow> ('a \<Rightarrow> ('w, 'b) action) \<Rightarrow> ('w, 'b) action" where
  "act_bind m f n = (case m n of (None, n') \<Rightarrow> (None, n') | (Some x, n') \<Rightarrow> f x n')"

text \<open>A \<open>for\<close> loop whose body may return from the whole function.\<close>

fun act_map :: "('a \<Rightarrow> ('w, 'b) action) \<Rightarrow> 'a list \<Rightarrow> ('w, 'b list) action" where
  "act_map f [] = act_return []"
| "act_map f (x # xs) = act_bind (f x) (\<lambda>y. act_bind (act_map f xs) (\<lambda>ys. act_return (y # ys)))"

text \<open>A bounded retry loop.\<close>

fun act_retry :: "nat \<Rightarrow> ('w, 'a) action \<Rightarrow> ('w, 'a) action" where
  "act_retry 0 m n = (None, n)"
| "act_retry (Suc k) m n = (case m n of (Some x, n') \<Rightarrow> (Some x, n') | (None, n') \<Rightarrow> act_retry k m n')"

definition record_call :: "bus_call \<Rightarrow> 'w \<Rightarrow> 'w dxl_node \<Rightarrow> 'w dxl_node" where
  "record_call c w n = n\<lparr>bus_world := w, bus_trace := bus_trace n @ [c]\<rparr>"

definition close_port :: "'w dxl_sdk \<Rightarrow> ('w, unit) action" where
  "close_port S n = (Some (), record_call ClosePort (sdk_closePort S (bus_world n)) n)"

text \<open>\<open>openPort() && setBaudRate(DXL_BAUDRATE)\<close>: the baud rate is set only on an open port.\<close>

definition open_port :: "'w dxl_sdk \<Rightarrow> ('w, unit) action" where
  "open_port S n = (let (ok, w) = sdk_openPort S (bus_world n); n' = record_call (OpenPort ok) w n
     in if \<not> ok then (None, n')
        else let (ok2, w2) = sdk_setBaudRate S DXL_BAUDRATE (bus_world n')
             in (if ok2 then Some () else None, record_call (SetBaudRate DXL_BAUDRATE ok2) w2 n'))"

definition ping_once :: "'w dxl_sdk \<Rightarrow> u8 \<Rightarrow> ('w, unit) action" where
  "ping_once S i n = (let ((result, dxl_error), w) = sdk_ping S i (bus_world n);
       ok = (result = COMM_SUCCESS S \<and> dxl_error = 0)
     in (if ok then Some () else None, record_call (Ping i ok) w n))"

definition write1_once :: "'w dxl_sdk \<Rightarrow> u8 \<Rightarrow> u16 \<Rightarrow> u8 \<Rightarrow> ('w, unit) action" where
  "write1_once S i a v n = (let ((result, dxl_error), w) = sdk_write1ByteTxRx S i a v (bus_world n);
       ok = (result = COMM_SUCCESS S \<and> dxl_error = 0)
     in (if ok then Some () else None, record_call (Write1 i a v ok) w n))"

definition write2_once :: "'w dxl_sdk \<Rightarrow> u8 \<Rightarrow> u16 \<Rightarrow> u16 \<Rightarrow> ('w, unit) action" where
  "write2_once S i a v n = (let ((result, dxl_error), w) = sdk_write2ByteTxRx S i a v (bus_world n);
       ok = (result = COMM_SUCCESS S \<and> dxl_error = 0)
     in (if ok then Some () else None, record_call (Write2 i a v ok) w n))"

definition read1_once :: "'w dxl_sdk \<Rightarrow> u8 \<Rightarrow> u16 \<Rightarrow> ('w, u8) action" where
  "read1_once S i a n = (let ((v, result, dxl_error), w) = sdk_read1ByteTxRx S i a (bus_world n);
       ok = (result = COMM_SUCCESS S \<and> dxl_error = 0)
     in (if ok then Some v else None, record_call (Read1 i a v ok) w n))"

definition read4_once :: "'w dxl_sdk \<Rightarrow> u8 \<Rightarrow> u16 \<Rightarrow> ('w, u32) action" where
  "read4_once S i a n = (let ((v, result, dxl_error), w) = sdk_read4ByteTxRx S i a (bus_world n);
       ok = (result = COMM_SUCCESS S \<and> dxl_error = 0)
     in (if ok then Some v else None, record_call (Read4 i a v ok) w n))"

definition write_1byte :: "'w dxl_sdk \<Rightarrow> u8 \<Rightarrow> u16 \<Rightarrow> u8 \<Rightarrow> ('w, unit) action" where
  "write_1byte S i a v = act_retry REGISTER_WRITE_RETRY_COUNT (write1_once S i a v)"

definition write_2byte :: "'w dxl_sdk \<Rightarrow> u8 \<Rightarrow> u16 \<Rightarrow> u16 \<Rightarrow> ('w, unit) action" where
  "write_2byte S i a v = act_retry REGISTER_WRITE_RETRY_COUNT (write2_once S i a v)"

definition read_1byte :: "'w dxl_sdk \<Rightarrow> u8 \<Rightarrow> u16 \<Rightarrow> ('w, u8) action" where
  "read_1byte S i a = act_retry REGISTER_WRITE_RETRY_COUNT (read1_once S i a)"

definition read_4byte :: "'w dxl_sdk \<Rightarrow> u8 \<Rightarrow> u16 \<Rightarrow> ('w, u32) action" where
  "read_4byte S i a = act_retry REGISTER_WRITE_RETRY_COUNT (read4_once S i a)"

subsection \<open>Goal positions\<close>

text \<open>\<open>static_cast<int32_t>\<close> of a \<open>long\<close> or \<open>uint32_t\<close> value.\<close>

definition to_int32 :: "int \<Rightarrow> int" where
  "to_int32 x = sint (of_int x :: u32)"

definition to_ppr :: "ServoConfig \<Rightarrow> real \<Rightarrow> int" where
  "to_ppr servo rad =
     clamp (to_int32 (lround (of_int (sv_zero_ppr servo) + of_int (sv_direction servo) * rad * PPR_PER_RAD)))
       (sv_min_ppr servo) (sv_max_ppr servo)"

definition goal_bytes :: "'w dxl_sdk \<Rightarrow> int \<Rightarrow> u8 list" where
  "goal_bytes S goal = (let v = (of_int goal :: u32) in
     [DXL_LOBYTE S (DXL_LOWORD S v), DXL_HIBYTE S (DXL_LOWORD S v),
      DXL_LOBYTE S (DXL_HIWORD S v), DXL_HIBYTE S (DXL_HIWORD S v)])"

definition add_param :: "'w dxl_sdk \<Rightarrow> ServoConfig \<times> int \<Rightarrow> ('w, unit) action" where
  "add_param S sg n = (case sg of (servo, goal) \<Rightarrow>
     let bytes = goal_bytes S goal; (ok, w) = sdk_addParam S (sv_id servo) bytes (bus_world n)
     in (if ok then Some () else None, record_call (AddParam (sv_id servo) bytes ok) w n))"

definition clear_param :: "'w dxl_sdk \<Rightarrow> 'w dxl_node \<Rightarrow> 'w dxl_node" where
  "clear_param S n = record_call ClearParam (sdk_clearParam S (bus_world n)) n"

text \<open>The watchdog is cleared on every servo, failures are only logged.\<close>

fun clear_watchdogs :: "'w dxl_sdk \<Rightarrow> ServoConfig list \<Rightarrow> 'w dxl_node \<Rightarrow> 'w dxl_node" where
  "clear_watchdogs S [] n = n"
| "clear_watchdogs S (c # cs) n =
     clear_watchdogs S cs (snd (write1_once S (sv_id c) ADDR_BUS_WATCHDOG 0 n))"

definition reopen_port_after_failure :: "'w dxl_sdk \<Rightarrow> real \<Rightarrow> 'w dxl_node \<Rightarrow> 'w dxl_node" where
  "reopen_port_after_failure S now n0 =
     (let n = n0\<lparr>consecutive_write_failures := consecutive_write_failures n0 + 1\<rparr>
      in if reopen_attempted n \<and> now - last_reopen_attempt n < 1 then n
         else let n1 = n\<lparr>reopen_attempted := True, last_reopen_attempt := now\<rparr>;
                  n2 = snd (close_port S n1);
                  (ok, n3) = open_port S n2
              in if ok = None then n3 else clear_watchdogs S DXL_SERVOS n3)"

definition write_goal :: "'w dxl_sdk \<Rightarrow> real \<Rightarrow> int list \<Rightarrow> ('w, unit) action" where
  "write_goal S now goal_ppr n =
     (if \<not> sync_write n then (None, n)
      else let (ok, n1) = act_map (add_param S) (zip DXL_SERVOS goal_ppr) (clear_param S n)
           in if ok = None then (None, clear_param S n1)
              else let (result, w) = sdk_txPacket S (bus_world n1);
                       n2 = clear_param S (record_call (TxPacket result) w n1)
                   in if result \<noteq> COMM_SUCCESS S
                      then (None, reopen_port_after_failure S now n2)
                      else (Some (), n2\<lparr>consecutive_write_failures := 0\<rparr>))"

subsection \<open>Initialisation\<close>

definition open_port_attempt :: "'w dxl_sdk \<Rightarrow> ('w, unit) action" where
  "open_port_attempt S = act_bind (close_port S) (\<lambda>_. open_port S)"

definition ping_servo :: "'w dxl_sdk \<Rightarrow> ServoConfig \<Rightarrow> ('w, unit) action" where
  "ping_servo S servo = act_retry PING_RETRY_COUNT (ping_once S (sv_id servo))"

definition check_servo :: "'w dxl_sdk \<Rightarrow> ServoConfig \<Rightarrow> ('w, u8) action" where
  "check_servo S servo =
     act_bind (read_1byte S (sv_id servo) ADDR_TORQUE_ENABLE) (\<lambda>torque_enabled.
     act_bind (read_1byte S (sv_id servo) ADDR_OPERATING_MODE) (\<lambda>operating_mode.
     act_bind (read_1byte S (sv_id servo) ADDR_HARDWARE_ERROR_STATUS) (\<lambda>hardware_error.
       if hardware_error \<noteq> 0 then act_fail
       else if torque_enabled \<noteq> TORQUE_OFF \<and> operating_mode \<noteq> POSITION_CONTROL_MODE then act_fail
       else if torque_enabled = TORQUE_OFF \<and> operating_mode \<noteq> POSITION_CONTROL_MODE
       then act_bind (write_1byte S (sv_id servo) ADDR_OPERATING_MODE POSITION_CONTROL_MODE)
              (\<lambda>_. act_return torque_enabled)
       else act_return torque_enabled)))"

definition clear_watchdog :: "'w dxl_sdk \<Rightarrow> ServoConfig \<Rightarrow> ('w, unit) action" where
  "clear_watchdog S servo = write_1byte S (sv_id servo) ADDR_BUS_WATCHDOG 0"

definition write_gains :: "'w dxl_sdk \<Rightarrow> ServoConfig \<Rightarrow> ('w, unit) action" where
  "write_gains S servo =
     act_bind (write_2byte S (sv_id servo) ADDR_POSITION_P_GAIN (sv_position_p servo)) (\<lambda>_.
     act_bind (write_2byte S (sv_id servo) ADDR_POSITION_I_GAIN (sv_position_i servo)) (\<lambda>_.
     act_bind (write_2byte S (sv_id servo) ADDR_POSITION_D_GAIN (sv_position_d servo)) (\<lambda>_.
     act_bind (write_2byte S (sv_id servo) ADDR_VELOCITY_P_GAIN (sv_velocity_p servo)) (\<lambda>_.
     write_2byte S (sv_id servo) ADDR_VELOCITY_I_GAIN (sv_velocity_i servo)))))"

definition read_position :: "'w dxl_sdk \<Rightarrow> ServoConfig \<Rightarrow> ('w, int) action" where
  "read_position S servo =
     act_bind (read_4byte S (sv_id servo) ADDR_PRESENT_POSITION) (\<lambda>value. act_return (sint value))"

definition enable_torque :: "'w dxl_sdk \<Rightarrow> ServoConfig \<times> u8 \<Rightarrow> ('w, unit) action" where
  "enable_torque S st = (case st of (servo, torque_enabled) \<Rightarrow>
     if torque_enabled = TORQUE_OFF then write_1byte S (sv_id servo) ADDR_TORQUE_ENABLE TORQUE_ON
     else act_return ())"

definition initial_setting :: "'w dxl_sdk \<Rightarrow> real \<Rightarrow> ('w, int list) action" where
  "initial_setting S now n0 =
     (let n = n0\<lparr>port_handler := getPortHandler S, packet_handler := getPacketHandler S\<rparr>
      in if \<not> port_handler n \<or> \<not> packet_handler n then (None, n)
         else act_bind (act_retry PORT_OPEN_RETRY_COUNT (open_port_attempt S)) (\<lambda>_.
              act_bind (\<lambda>n. (Some (), n\<lparr>sync_write := True\<rparr>)) (\<lambda>_.
              act_bind (act_map (ping_servo S) DXL_SERVOS) (\<lambda>_.
              act_bind (act_map (check_servo S) DXL_SERVOS) (\<lambda>torque_enabled.
              act_bind (act_map (clear_watchdog S) DXL_SERVOS) (\<lambda>_.
              act_bind (act_map (write_gains S) DXL_SERVOS) (\<lambda>_.
              act_bind (act_map (read_position S) DXL_SERVOS) (\<lambda>initial_ppr.
              act_bind (write_goal S now initial_ppr) (\<lambda>_.
              act_bind (act_map (enable_torque S) (zip DXL_SERVOS torque_enabled)) (\<lambda>_.
              act_return initial_ppr))))))))) n)"

subsection \<open>Start-up return to neutral\<close>

definition filtered_goals :: "LPF list \<Rightarrow> int list" where
  "filtered_goals fs = map2 (\<lambda>servo f. to_ppr servo (fst (LPF_update f 0))) DXL_SERVOS fs"

definition advance_filters :: "LPF list \<Rightarrow> LPF list" where
  "advance_filters fs = map (\<lambda>f. snd (LPF_update f 0)) fs"

definition initial_rad :: "ServoConfig \<Rightarrow> int \<Rightarrow> real" where
  "initial_rad servo ppr =
     of_int (sv_direction servo) * (of_int ppr - of_int (sv_zero_ppr servo)) / PPR_PER_RAD"

text \<open>
  One entry of the environment list per evaluation of the loop condition: \<open>rclcpp::ok()\<close>, the
  clock there, and the clock inside \<open>write_goal\<close>. \<open>None\<close>: the readings end before the loop does.
\<close>

fun startup_loop :: "'w dxl_sdk \<Rightarrow> real \<Rightarrow> (bool \<times> real \<times> real) list \<Rightarrow> 'w dxl_node
    \<Rightarrow> 'w dxl_node option" where
  "startup_loop S start [] n = None"
| "startup_loop S start ((ok, now, wnow) # env) n =
     (if ok \<and> now - start < SERVO_STARTUP_RETURN_TIME_SEC
      then let goal_ppr = filtered_goals (servo_lpf n);
               n1 = n\<lparr>servo_lpf := advance_filters (servo_lpf n)\<rparr>
           in startup_loop S start env (snd (write_goal S wnow goal_ppr n1))
      else Some n)"

definition initial_return_to_zero ::
    "'w dxl_sdk \<Rightarrow> real \<Rightarrow> (bool \<times> real \<times> real) list \<Rightarrow> bool \<times> real \<Rightarrow> int list \<Rightarrow> 'w dxl_node
     \<Rightarrow> 'w dxl_node option" where
  "initial_return_to_zero S start env final initial_ppr n =
     (let seeded = n\<lparr>servo_lpf := map2 (\<lambda>servo ppr.
            LPF_reset (LPF_new SERVO_STARTUP_RETURN_TIME_SEC) (initial_rad servo ppr))
            DXL_SERVOS initial_ppr\<rparr>
      in case startup_loop S start env seeded of
           None \<Rightarrow> None
         | Some n1 \<Rightarrow>
             let n2 = n1\<lparr>servo_lpf := map (\<lambda>f. LPF_reset f 0) (servo_lpf n1)\<rparr>
             in Some (if fst final then snd (write_goal S (snd final) (map sv_zero_ppr DXL_SERVOS) n2)
                      else n2))"

subsection \<open>Construction and destruction\<close>

text \<open>\<open>Inl\<close>: the constructor throws, with the port closed when there is one.\<close>

definition Px4ServoToDynamixel ::
    "'w dxl_sdk \<Rightarrow> real \<Rightarrow> real \<Rightarrow> (bool \<times> real \<times> real) list \<Rightarrow> bool \<times> real \<Rightarrow> real \<Rightarrow> 'w
     \<Rightarrow> ('w dxl_node + 'w dxl_node) option" where
  "Px4ServoToDynamixel S t0 start env final ready w =
     (case initial_setting S t0 (dxl_node_init w) of
        (None, n) \<Rightarrow> Some (Inl (if port_handler n then snd (close_port S n) else n))
      | (Some initial_ppr, n) \<Rightarrow>
          map_option (\<lambda>n1. Inr (n1\<lparr>
              servo_lpf := map (\<lambda>_. LPF_reset (LPF_new SERVO_RETURN_TIME_SEC) 0) (servo_lpf n1),
              last_dds_receive_steady := ready, node_ready_steady := ready,
              last_write_rate_log_steady := ready\<rparr>))
            (initial_return_to_zero S start env final initial_ppr n))"

fun torque_off_servos :: "'w dxl_sdk \<Rightarrow> ServoConfig list \<Rightarrow> 'w dxl_node \<Rightarrow> bool \<times> 'w dxl_node" where
  "torque_off_servos S [] n = (True, n)"
| "torque_off_servos S (c # cs) n =
     (let (ok, n1) = write1_once S (sv_id c) ADDR_TORQUE_ENABLE TORQUE_OFF n;
          (rest, n2) = torque_off_servos S cs n1
      in (ok \<noteq> None \<and> rest, n2))"

definition torque_off_all :: "'w dxl_sdk \<Rightarrow> 'w dxl_node \<Rightarrow> bool \<times> 'w dxl_node" where
  "torque_off_all S n =
     (if \<not> port_handler n \<or> \<not> packet_handler n then (False, n)
      else torque_off_servos S DXL_SERVOS n)"

text \<open>The destructor, with the value of \<open>rclcpp::ok()\<close>.\<close>

definition dxl_destructor :: "'w dxl_sdk \<Rightarrow> bool \<Rightarrow> 'w dxl_node \<Rightarrow> 'w dxl_node" where
  "dxl_destructor S ros_ok n =
     (let n1 = (if ros_ok then n else snd (torque_off_all S n));
          n2 = n1\<lparr>sync_write := False\<rparr>
      in if port_handler n2 then snd (close_port S n2) else n2)"

subsection \<open>Callbacks\<close>

record servo_msg =
  sm_timestamp :: u64
  sm_control :: "xdouble list"

definition command_rad :: "ServoConfig \<Rightarrow> xdouble \<Rightarrow> real" where
  "command_rad servo c = clamp (finite_part c) (- 1) 1 * sv_angle_limit_rad servo"

text \<open>\<open>control\<close> is a fixed array of the message, at least as long as the servo table.\<close>

definition dds_callback :: "real \<Rightarrow> servo_msg \<Rightarrow> 'w dxl_node \<Rightarrow> 'w dxl_node" where
  "dds_callback receive_time msg n =
     (let control = take (length DXL_SERVOS) (sm_control msg)
      in if \<not> list_all isfinite control then n
         else let rads = map2 command_rad DXL_SERVOS control
              in n\<lparr>last_dds_receive_steady := receive_time,
                   last_px4_timestamp_us := sm_timestamp msg,
                   dds_received := True, dds_timeout_reported := False,
                   returning_to_zero := False, zero_return_complete := False,
                   servo_lpf := map2 LPF_reset (servo_lpf n) rads,
                   latest_goal_ppr := map2 to_ppr DXL_SERVOS rads,
                   have_goal := True\<rparr>)"

record tick_times =
  tk_now :: real
  tk_reopen :: real
  tk_rate :: real
  tk_log :: real

definition begin_return :: "real \<Rightarrow> 'w dxl_node \<Rightarrow> 'w dxl_node" where
  "begin_return now n =
     (if returning_to_zero n then n
      else n\<lparr>returning_to_zero := True, dds_timeout_reported := True, return_start_steady := now,
             last_timeout_start := last_dds_receive_steady n\<rparr>)"

definition return_step :: "real \<Rightarrow> 'w dxl_node \<Rightarrow> 'w dxl_node" where
  "return_step now n0 =
     (let n = begin_return now n0;
          return_finished = (now - return_start_steady n \<ge> SERVO_RETURN_TIME_SEC)
      in if return_finished
         then n\<lparr>latest_goal_ppr := map (\<lambda>servo. to_ppr servo 0) DXL_SERVOS,
                servo_lpf := map (\<lambda>f. LPF_reset f 0) (servo_lpf n),
                returning_to_zero := False, zero_return_complete := True\<rparr>
         else n\<lparr>latest_goal_ppr := filtered_goals (servo_lpf n),
                servo_lpf := advance_filters (servo_lpf n)\<rparr>)"

definition count_write :: "tick_times \<Rightarrow> 'w dxl_node \<Rightarrow> 'w dxl_node" where
  "count_write t n0 =
     (let n = n0\<lparr>write_count_window := write_count_window n0 + 1\<rparr>
      in if tk_rate t - last_write_rate_log_steady n \<ge> 5
         then n\<lparr>write_count_window := 0, last_write_rate_log_steady := tk_log t\<rparr> else n)"

definition timeout_callback :: "'w dxl_sdk \<Rightarrow> tick_times \<Rightarrow> 'w dxl_node \<Rightarrow> 'w dxl_node" where
  "timeout_callback S t n =
     (if \<not> dds_received n \<or> \<not> have_goal n
      then if tk_now t - node_ready_steady n \<ge> 1 \<and> \<not> no_dds_reported n
           then n\<lparr>no_dds_reported := True\<rparr> else n
      else let n1 = (if tk_now t - last_dds_receive_steady n \<ge> DDS_RECEIVE_TIMEOUT_SEC
                        \<and> \<not> zero_return_complete n
                     then return_step (tk_now t) n else n);
               (output_ok, n2) = write_goal S (tk_reopen t) (latest_goal_ppr n1) n1
           in if output_ok = None then n2 else count_write t n2)"

subsection \<open>Conversion of positions\<close>

lemma to_int32_small [simp]: "- (2 ^ 31) \<le> x \<Longrightarrow> x < 2 ^ 31 \<Longrightarrow> to_int32 x = x"
  by (simp add: to_int32_def sint_sbintrunc' signed_take_bit_int_eq_self)

lemma to_ppr_range: "servo_ok c \<Longrightarrow> sv_min_ppr c \<le> to_ppr c rad \<and> to_ppr c rad \<le> sv_max_ppr c"
  unfolding to_ppr_def by (rule clamp_bounds) (simp add: servo_ok_def)

lemma to_ppr_zero [simp]: "servo_ok c \<Longrightarrow> to_ppr c 0 = sv_zero_ppr c"
  by (simp add: to_ppr_def servo_ok_def)

lemma direction_square: "servo_ok c \<Longrightarrow> (of_int (sv_direction c) :: real) * of_int (sv_direction c) = 1"
proof -
  assume "servo_ok c"
  then have "sv_direction c = 1 \<or> sv_direction c = - 1" by (simp add: servo_ok_def abs_eq_iff) linarith
  then show ?thesis by auto
qed

lemma abs_direction: "servo_ok c \<Longrightarrow> \<bar>of_int (sv_direction c) :: real\<bar> = 1"
  by (metis servo_ok_def of_int_abs of_int_1)

lemma to_ppr_initial_rad:
  assumes "servo_ok c" "sv_min_ppr c \<le> p" "p \<le> sv_max_ppr c"
  shows "to_ppr c (initial_rad c p) = p"
proof -
  have "of_int (sv_direction c) * initial_rad c p * PPR_PER_RAD
      = (of_int (sv_direction c) * of_int (sv_direction c)) * (of_int p - of_int (sv_zero_ppr c))"
    by (simp add: initial_rad_def PPR_PER_RAD_def field_simps)
  also have "\<dots> = of_int p - of_int (sv_zero_ppr c)"
    by (simp add: direction_square [OF assms(1)])
  finally have "lround (of_int (sv_zero_ppr c) + of_int (sv_direction c) * initial_rad c p * PPR_PER_RAD) = p"
    by simp
  with assms show ?thesis by (simp add: to_ppr_def servo_ok_def)
qed

lemma to_ppr_error:
  assumes "servo_ok c" and fit: "of_int (sv_min_ppr c) \<le> x" "x \<le> of_int (sv_max_ppr c)"
    and x: "x = of_int (sv_zero_ppr c) + of_int (sv_direction c) * rad * PPR_PER_RAD"
  shows "\<bar>initial_rad c (to_ppr c rad) - rad\<bar> \<le> pi / 4096"
proof -
  let ?d = "of_int (sv_direction c) :: real"
  have "sv_min_ppr c \<le> lround x" "lround x \<le> sv_max_ppr c"
    using lround_mono [OF fit(1)] lround_mono [OF fit(2)] by simp_all
  then have p: "to_ppr c rad = lround x"
    using assms(1) by (simp add: to_ppr_def servo_ok_def x)
  have "initial_rad c (to_ppr c rad) - rad = ?d * (of_int (lround x) - x) / PPR_PER_RAD"
    unfolding p initial_rad_def using direction_square [OF assms(1)]
    by (simp add: x field_simps less_imp_neq [OF PPR_PER_RAD_pos, symmetric])
  then have "\<bar>initial_rad c (to_ppr c rad) - rad\<bar> = \<bar>of_int (lround x) - x\<bar> / PPR_PER_RAD"
    using abs_direction [OF assms(1)] PPR_PER_RAD_pos by (simp add: abs_mult del: PPR_PER_RAD_pos)
  also have "\<dots> \<le> (1 / 2) / PPR_PER_RAD"
    by (rule divide_right_mono [OF lround_near]) (simp add: less_imp_le)
  finally show ?thesis by (simp add: PPR_PER_RAD_def)
qed

text \<open>Position conversion. Every commanded position is inside the configured range of the
  servo; converting a position of the range to an angle and back is the identity; and an angle
  whose position lies in the range is reproduced to half an encoder count (\<open>pi / 4096\<close> rad).\<close>

theorem ppr_conversion:
  assumes "servo_ok c" and "sv_min_ppr c \<le> p" "p \<le> sv_max_ppr c"
    and "of_int (sv_min_ppr c) \<le> of_int (sv_zero_ppr c) + of_int (sv_direction c) * rad * PPR_PER_RAD"
        "of_int (sv_zero_ppr c) + of_int (sv_direction c) * rad * PPR_PER_RAD \<le> of_int (sv_max_ppr c)"
  shows "(sv_min_ppr c \<le> to_ppr c any \<and> to_ppr c any \<le> sv_max_ppr c)
    \<and> to_ppr c (initial_rad c p) = p
    \<and> \<bar>initial_rad c (to_ppr c rad) - rad\<bar> \<le> pi / 4096"
  using to_ppr_range [OF assms(1)] to_ppr_initial_rad [OF assms(1-3)]
    to_ppr_error [OF assms(1,4,5) refl] by blast

theorem ppr_conversion_witness:
  "to_ppr (DXL_SERVOS ! 1) (initial_rad (DXL_SERVOS ! 1) 100) = 100"
proof -
  have ok: "servo_ok (DXL_SERVOS ! 1)" by (rule DXL_SERVOS_ok) (simp add: DXL_SERVOS_def)
  have r: "sv_min_ppr (DXL_SERVOS ! 1) = 0" "sv_max_ppr (DXL_SERVOS ! 1) = 4095"
    "sv_zero_ppr (DXL_SERVOS ! 1) = 2048" by (simp_all add: DXL_SERVOS_def servo_config_def)
  show ?thesis using ppr_conversion [OF ok, of 100 0 0] by (simp add: r del: One_nat_def)
qed

subsection \<open>Bus activity of an operation\<close>

text \<open>
  \<open>bus_step P n n'\<close>: between the two states only bus calls satisfying \<open>P\<close> were made, and apart from
  the bus itself only the failure bookkeeping of the driver changed.
\<close>

definition bus_step :: "(bus_call \<Rightarrow> bool) \<Rightarrow> 'w dxl_node \<Rightarrow> 'w dxl_node \<Rightarrow> bool" where
  "bus_step P n n' \<longleftrightarrow> (\<exists>cs. bus_trace n' = bus_trace n @ cs \<and> list_all P cs)
     \<and> n' = n\<lparr>bus_world := bus_world n', bus_trace := bus_trace n',
              consecutive_write_failures := consecutive_write_failures n',
              reopen_attempted := reopen_attempted n', last_reopen_attempt := last_reopen_attempt n'\<rparr>"

definition emits :: "(bus_call \<Rightarrow> bool) \<Rightarrow> ('w, 'a) action \<Rightarrow> bool" where
  "emits P m \<longleftrightarrow> (\<forall>n. bus_step P n (snd (m n)))"

named_theorems emit_intros \<open>which calls the driver's actions make\<close>

lemma bus_step_refl [simp]: "bus_step P n n"
  by (simp add: bus_step_def)

lemma bus_step_trans: "bus_step P a b \<Longrightarrow> bus_step P b c \<Longrightarrow> bus_step P a c"
  unfolding bus_step_def by (cases a; cases b; cases c) auto

lemma bus_step_record: "P c \<Longrightarrow> bus_step P n (record_call c w n)"
  by (cases n) (simp add: bus_step_def record_call_def)

lemma bus_step_mono: "bus_step P n n' \<Longrightarrow> (\<And>c. P c \<Longrightarrow> Q c) \<Longrightarrow> bus_step Q n n'"
  unfolding bus_step_def by (metis list.pred_mono_strong)

lemma bus_step_trace: "bus_step P n n' \<Longrightarrow> \<exists>cs. bus_trace n' = bus_trace n @ cs \<and> list_all P cs"
  by (simp add: bus_step_def)

lemma bus_step_fields:
  assumes "bus_step P n n'"
  shows "servo_lpf n' = servo_lpf n" "latest_goal_ppr n' = latest_goal_ppr n"
    "last_dds_receive_steady n' = last_dds_receive_steady n"
    "return_start_steady n' = return_start_steady n" "dds_received n' = dds_received n"
    "have_goal n' = have_goal n" "returning_to_zero n' = returning_to_zero n"
    "zero_return_complete n' = zero_return_complete n" "sync_write n' = sync_write n"
    "port_handler n' = port_handler n" "packet_handler n' = packet_handler n"
  using assms unfolding bus_step_def by (cases n; cases n'; simp)+

lemma emits_step: "emits P m \<Longrightarrow> bus_step P n (snd (m n))"
  by (simp add: emits_def)

lemma emits_return [emit_intros]: "emits P (act_return x)"
  by (simp add: emits_def act_return_def)

lemma emits_fail [emit_intros]: "emits P act_fail"
  by (simp add: emits_def act_fail_def)

lemma emits_bind [emit_intros]:
  "emits P m \<Longrightarrow> (\<And>x. emits P (f x)) \<Longrightarrow> emits P (act_bind m f)"
  unfolding emits_def act_bind_def
  by (auto split: prod.split option.split intro: bus_step_trans)

lemma emits_map [emit_intros]: "(\<And>x. x \<in> set xs \<Longrightarrow> emits P (f x)) \<Longrightarrow> emits P (act_map f xs)"
  by (induction xs) (auto intro!: emit_intros)

lemma emits_retry [emit_intros]: "emits P m \<Longrightarrow> emits P (act_retry k m)"
proof (induction k)
  case (Suc k)
  then show ?case unfolding emits_def
    by (auto split: prod.split option.split intro: bus_step_trans)
qed (simp add: emits_def)

text \<open>Calls that neither move a servo nor touch its torque or mode registers.\<close>

fun neutral_call :: "bus_call \<Rightarrow> bool" where
  "neutral_call (Write1 i a v ok) = (a = ADDR_BUS_WATCHDOG \<and> v = 0)"
| "neutral_call (Write2 i a v ok) = False"
| "neutral_call (AddParam i bytes ok) = False"
| "neutral_call c = True"

lemma emits_write1 [emit_intros]: "(\<And>ok. P (Write1 i a v ok)) \<Longrightarrow> emits P (write1_once S i a v)"
  by (simp add: emits_def write1_once_def Let_def bus_step_record split: prod.split)

lemma emits_write2 [emit_intros]: "(\<And>ok. P (Write2 i a v ok)) \<Longrightarrow> emits P (write2_once S i a v)"
  by (simp add: emits_def write2_once_def Let_def bus_step_record split: prod.split)

lemma emits_read1 [emit_intros]: "(\<And>v ok. P (Read1 i a v ok)) \<Longrightarrow> emits P (read1_once S i a)"
  by (simp add: emits_def read1_once_def Let_def bus_step_record split: prod.split)

lemma emits_read4 [emit_intros]: "(\<And>v ok. P (Read4 i a v ok)) \<Longrightarrow> emits P (read4_once S i a)"
  by (simp add: emits_def read4_once_def Let_def bus_step_record split: prod.split)

lemma emits_ping [emit_intros]: "(\<And>ok. P (Ping i ok)) \<Longrightarrow> emits P (ping_once S i)"
  by (simp add: emits_def ping_once_def Let_def bus_step_record split: prod.split)

lemma emits_close [emit_intros]: "P ClosePort \<Longrightarrow> emits P (close_port S)"
  by (simp add: emits_def close_port_def bus_step_record)

lemma emits_open [emit_intros]:
  "(\<And>ok. P (OpenPort ok)) \<Longrightarrow> (\<And>b ok. P (SetBaudRate b ok)) \<Longrightarrow> emits P (open_port S)"
  by (simp add: emits_def open_port_def Let_def bus_step_record bus_step_trans [OF bus_step_record bus_step_record]
      split: prod.split)

lemma emits_add_param [emit_intros]:
  "(\<And>ok. P (AddParam (sv_id c) (goal_bytes S g) ok)) \<Longrightarrow> emits P (add_param S (c, g))"
  by (simp add: emits_def add_param_def Let_def bus_step_record split: prod.split)

lemma clear_param_step: "P ClearParam \<Longrightarrow> bus_step P n (clear_param S n)"
  by (simp add: clear_param_def bus_step_record)

lemma clear_watchdogs_step:
  assumes "\<And>i ok. P (Write1 i ADDR_BUS_WATCHDOG 0 ok)"
  shows "bus_step P n (clear_watchdogs S cs n)"
proof (induction cs arbitrary: n)
  case (Cons c cs)
  have "bus_step P n (snd (write1_once S (sv_id c) ADDR_BUS_WATCHDOG 0 n))"
    by (rule emits_step) (intro emit_intros assms)
  then show ?case using Cons by (auto intro: bus_step_trans)
qed simp

lemma reopen_step:
  assumes P: "\<And>c. neutral_call c \<Longrightarrow> P c"
  shows "bus_step P n (reopen_port_after_failure S now n)"
proof -
  let ?m = "n\<lparr>consecutive_write_failures := consecutive_write_failures n + 1\<rparr>"
  let ?a = "?m\<lparr>reopen_attempted := True, last_reopen_attempt := now\<rparr>"
  obtain ok b where b: "open_port S (snd (close_port S ?a)) = (ok, b)" by fastforce
  have m: "bus_step P n ?m" and a: "bus_step P n ?a" by (cases n; simp add: bus_step_def)+
  have "bus_step P ?a (snd (close_port S ?a))" by (intro emits_step emit_intros P) simp
  moreover have "bus_step P (snd (close_port S ?a)) b"
    using emits_step [of P "open_port S" "snd (close_port S ?a)"] by (simp add: b emits_open P)
  ultimately have b': "bus_step P n b" using a by (blast intro: bus_step_trans)
  have "bus_step P b (clear_watchdogs S DXL_SERVOS b)"
    by (rule clear_watchdogs_step) (simp add: P)
  then have "bus_step P n (clear_watchdogs S DXL_SERVOS b)" using b' by (blast intro: bus_step_trans)
  then show ?thesis using m b' b by (simp add: reopen_port_after_failure_def Let_def)
qed

text \<open>What \<open>write_goal\<close> puts on the bus, and what its success means.\<close>

lemma write_goal_step:
  assumes P: "\<And>c. neutral_call c \<Longrightarrow> P c"
    and G: "\<And>c g ok. (c, g) \<in> set (zip DXL_SERVOS goals) \<Longrightarrow> P (AddParam (sv_id c) (goal_bytes S g) ok)"
  shows "bus_step P n (snd (write_goal S now goals n))"
proof (cases "sync_write n")
  case True
  obtain ok a where a: "act_map (add_param S) (zip DXL_SERVOS goals) (clear_param S n) = (ok, a)"
    by fastforce
  obtain r w where r: "sdk_txPacket S (bus_world a) = (r, w)" by fastforce
  have clr: "bus_step P m (clear_param S m)" for m by (rule clear_param_step) (simp add: P)
  have "emits P (act_map (add_param S) (zip DXL_SERVOS goals))"
    by (intro emits_map) (auto intro!: emits_add_param G)
  then have "bus_step P (clear_param S n) a" using a by (metis emits_step snd_conv)
  then have na: "bus_step P n a" using clr by (blast intro: bus_step_trans)
  have "bus_step P a (record_call (TxPacket r) w a)" by (rule bus_step_record) (simp add: P)
  then have b: "bus_step P n (clear_param S (record_call (TxPacket r) w a))" (is "bus_step P n ?b")
    using na clr by (blast intro: bus_step_trans)
  moreover have "bus_step P ?b (?b\<lparr>consecutive_write_failures := 0\<rparr>)"
    by (cases ?b) (simp add: bus_step_def)
  moreover have "bus_step P ?b (reopen_port_after_failure S now ?b)" by (rule reopen_step [OF P])
  moreover have "bus_step P n (clear_param S a)" using na clr by (blast intro: bus_step_trans)
  ultimately show ?thesis using True a r
    by (auto simp: write_goal_def Let_def intro: bus_step_trans)
qed (simp add: write_goal_def)

lemma write_goal_success:
  assumes "write_goal S now goals n = (Some (), n')"
  shows "TxPacket (COMM_SUCCESS S) \<in> set (bus_trace n')"
  using assms by (auto simp: write_goal_def Let_def clear_param_def record_call_def
      split: if_splits prod.splits)

subsection \<open>Running the node\<close>

text \<open>The goals the node holds are inside the range of their servo.\<close>

definition goals_ok :: "int list \<Rightarrow> bool" where
  "goals_ok goals \<longleftrightarrow> list_all2 (\<lambda>c g. sv_min_ppr c \<le> g \<and> g \<le> sv_max_ppr c) DXL_SERVOS goals"

text \<open>The calls a running node may make: neutral ones, and goals inside the range.\<close>

definition runtime_call :: "'w dxl_sdk \<Rightarrow> bus_call \<Rightarrow> bool" where
  "runtime_call S call \<longleftrightarrow> neutral_call call
     \<or> (\<exists>c\<in>set DXL_SERVOS. \<exists>g ok. sv_min_ppr c \<le> g \<and> g \<le> sv_max_ppr c
          \<and> call = AddParam (sv_id c) (goal_bytes S g) ok)"

inductive dxl_run :: "'w dxl_sdk \<Rightarrow> 'w dxl_node \<Rightarrow> 'w dxl_node \<Rightarrow> bool" for S n0 where
  start: "dxl_run S n0 n0"
| dds: "dxl_run S n0 n \<Longrightarrow> length DXL_SERVOS \<le> length (sm_control msg) \<Longrightarrow>
    dxl_run S n0 (dds_callback t msg n)"
| tick: "dxl_run S n0 n \<Longrightarrow> dxl_run S n0 (timeout_callback S tt n)"

lemma goals_ok_map: "goals_ok (map2 to_ppr DXL_SERVOS rads)" if "length rads = length DXL_SERVOS"
  using that by (auto simp: goals_ok_def list_all2_conv_all_nth to_ppr_range DXL_SERVOS_ok)

lemma goals_ok_filtered: "length fs = length DXL_SERVOS \<Longrightarrow> goals_ok (filtered_goals fs)"
  by (auto simp: goals_ok_def filtered_goals_def list_all2_conv_all_nth to_ppr_range DXL_SERVOS_ok)

lemma zero_goals: "map (\<lambda>servo. to_ppr servo 0) DXL_SERVOS = map sv_zero_ppr DXL_SERVOS"
  by (simp add: DXL_SERVOS_ok)

lemma goals_ok_zero: "goals_ok (map sv_zero_ppr DXL_SERVOS)"
  using DXL_SERVOS_ok by (simp add: goals_ok_def list.rel_map list.rel_refl_strong servo_ok_def)

definition dxl_inv :: "'w dxl_node \<Rightarrow> bool" where
  "dxl_inv n \<longleftrightarrow> length (servo_lpf n) = length DXL_SERVOS \<and> goals_ok (latest_goal_ppr n)"

lemma write_goal_runtime:
  assumes "goals_ok goals"
  shows "bus_step (runtime_call S) n (snd (write_goal S now goals n))"
proof (rule write_goal_step)
  fix c g ok assume "(c, g) \<in> set (zip DXL_SERVOS goals)"
  moreover from this have "c \<in> set DXL_SERVOS" by (rule set_zip_leftD)
  ultimately show "runtime_call S (AddParam (sv_id c) (goal_bytes S g) ok)"
    using assms unfolding runtime_call_def goals_ok_def list_all2_iff by blast
qed (simp add: runtime_call_def)

lemma return_step_inv: "dxl_inv n \<Longrightarrow> dxl_inv (return_step now n)"
  by (auto simp: dxl_inv_def return_step_def begin_return_def advance_filters_def Let_def
      goals_ok_filtered goals_ok_zero zero_goals simp del: length_DXL_SERVOS)

lemma return_step_trace [simp]: "bus_trace (return_step now n) = bus_trace n"
  by (simp add: return_step_def begin_return_def Let_def)

lemma dds_callback_inv:
  "dxl_inv n \<Longrightarrow> length DXL_SERVOS \<le> length (sm_control msg) \<Longrightarrow> dxl_inv (dds_callback t msg n)"
  by (auto simp: dxl_inv_def dds_callback_def Let_def goals_ok_map)

lemma dds_callback_trace [simp]: "bus_trace (dds_callback t msg n) = bus_trace n"
  by (simp add: dds_callback_def Let_def)

lemma count_write_simps [simp]:
  "bus_trace (count_write t n) = bus_trace n" "servo_lpf (count_write t n) = servo_lpf n"
  "latest_goal_ppr (count_write t n) = latest_goal_ppr n"
  "dds_received (count_write t n) = dds_received n" "have_goal (count_write t n) = have_goal n"
  "last_dds_receive_steady (count_write t n) = last_dds_receive_steady n"
  "returning_to_zero (count_write t n) = returning_to_zero n"
  "zero_return_complete (count_write t n) = zero_return_complete n"
  "return_start_steady (count_write t n) = return_start_steady n"
  by (simp_all add: count_write_def Let_def)

text \<open>The state after a tick, up to the bus and the counters.\<close>

definition tick_target :: "real \<Rightarrow> 'w dxl_node \<Rightarrow> 'w dxl_node" where
  "tick_target now n =
     (if now - last_dds_receive_steady n \<ge> DDS_RECEIVE_TIMEOUT_SEC \<and> \<not> zero_return_complete n
      then return_step now n else n)"

lemma timeout_callback_active:
  assumes "dds_received n" "have_goal n"
  obtains m ok where "write_goal S (tk_reopen t) (latest_goal_ppr (tick_target (tk_now t) n))
        (tick_target (tk_now t) n) = (ok, m)"
    and "timeout_callback S t n = (if ok = None then m else count_write t m)"
proof -
  obtain ok m where "write_goal S (tk_reopen t) (latest_goal_ppr (tick_target (tk_now t) n))
        (tick_target (tk_now t) n) = (ok, m)" by fastforce
  moreover from this have "timeout_callback S t n = (if ok = None then m else count_write t m)"
    using assms by (simp add: timeout_callback_def tick_target_def Let_def split: if_splits)
  ultimately show thesis using that by blast
qed

lemma tick_target_inv: "dxl_inv n \<Longrightarrow> dxl_inv (tick_target now n)"
  by (simp add: tick_target_def return_step_inv)

lemma timeout_callback_step:
  assumes "dxl_inv n" "dds_received n" "have_goal n"
  obtains m where "bus_step (runtime_call S) (tick_target (tk_now t) n) m"
    and "timeout_callback S t n \<in> {m, count_write t m}"
proof -
  obtain m ok where w: "write_goal S (tk_reopen t) (latest_goal_ppr (tick_target (tk_now t) n))
        (tick_target (tk_now t) n) = (ok, m)"
    and r: "timeout_callback S t n = (if ok = None then m else count_write t m)"
    using timeout_callback_active [OF assms(2,3)] .
  have "goals_ok (latest_goal_ppr (tick_target (tk_now t) n))"
    using tick_target_inv [OF assms(1)] by (simp add: dxl_inv_def)
  from write_goal_runtime [OF this, of S "tick_target (tk_now t) n" "tk_reopen t"] w
  have "bus_step (runtime_call S) (tick_target (tk_now t) n) m" by simp
  with r show thesis using that by auto
qed

lemma timeout_callback_idle:
  assumes "\<not> (dds_received n \<and> have_goal n)"
  shows "timeout_callback S t n \<in> {n, n\<lparr>no_dds_reported := True\<rparr>}"
  using assms by (auto simp: timeout_callback_def)

lemma dxl_run_inv:
  assumes "dxl_run S n0 n" "dxl_inv n0"
  shows "dxl_inv n \<and> (\<exists>cs. bus_trace n = bus_trace n0 @ cs \<and> list_all (runtime_call S) cs)"
  using assms
proof (induction rule: dxl_run.induct)
  case (dds n msg t)
  then show ?case by (simp add: dds_callback_inv)
next
  case (tick n t)
  show ?case
  proof (cases "dds_received n \<and> have_goal n")
    case True
    have inv: "dxl_inv n" using tick by simp
    obtain m where m: "bus_step (runtime_call S) (tick_target (tk_now t) n) m"
      and r: "timeout_callback S t n \<in> {m, count_write t m}"
      using timeout_callback_step [OF inv] True by blast
    have "bus_trace (tick_target (tk_now t) n) = bus_trace n" by (simp add: tick_target_def)
    then obtain ds where "bus_trace m = bus_trace n @ ds" "list_all (runtime_call S) ds"
      using bus_step_trace [OF m] by auto
    then have "\<exists>cs. bus_trace m = bus_trace n0 @ cs \<and> list_all (runtime_call S) cs"
      using tick by (metis append.assoc list_all_append)
    moreover have "dxl_inv m"
      using tick_target_inv [OF inv, of "tk_now t"] bus_step_fields(1,2) [OF m] by (simp add: dxl_inv_def)
    ultimately show ?thesis using r by (auto simp: dxl_inv_def)
  next
    case False
    then show ?thesis using timeout_callback_idle [OF False, of S t] tick by (auto simp: dxl_inv_def)
  qed
qed simp

subsection \<open>Order of the initialisation\<close>

text \<open>
  A small logic of trace predicates: from a trace satisfying \<open>I\<close> the action extends it, to one
  satisfying \<open>Q\<close> of its result, or \<open>J\<close> when it fails.
\<close>

definition ensures :: "(bus_call list \<Rightarrow> bool) \<Rightarrow> ('w, 'a) action \<Rightarrow> ('a \<Rightarrow> bus_call list \<Rightarrow> bool)
    \<Rightarrow> (bus_call list \<Rightarrow> bool) \<Rightarrow> bool" where
  "ensures I m Q J \<longleftrightarrow> (\<forall>n x n'. I (bus_trace n) \<longrightarrow> m n = (x, n') \<longrightarrow>
     (\<exists>cs. bus_trace n' = bus_trace n @ cs)
     \<and> (case x of None \<Rightarrow> J (bus_trace n') | Some y \<Rightarrow> Q y (bus_trace n')))"

lemma ensuresI:
  "(\<And>n x n'. I (bus_trace n) \<Longrightarrow> m n = (x, n') \<Longrightarrow>
     (\<exists>cs. bus_trace n' = bus_trace n @ cs)
     \<and> (case x of None \<Rightarrow> J (bus_trace n') | Some y \<Rightarrow> Q y (bus_trace n'))) \<Longrightarrow> ensures I m Q J"
  by (simp add: ensures_def)

lemma ensuresD:
  assumes "ensures I m Q J" "I (bus_trace n)" "m n = (x, n')"
  shows "\<exists>cs. bus_trace n' = bus_trace n @ cs" "x = None \<Longrightarrow> J (bus_trace n')"
    "x = Some y \<Longrightarrow> Q y (bus_trace n')"
  using assms by (auto simp: ensures_def split: option.splits)

lemma ensures_bind:
  assumes m: "ensures I m Q J" and f: "\<And>x. ensures (Q x) (f x) R J"
  shows "ensures I (act_bind m f) R J"
proof (rule ensuresI)
  fix n r n'' assume I: "I (bus_trace n)" and r: "act_bind m f n = (r, n'')"
  obtain x n' where x: "m n = (x, n')" by fastforce
  note d = ensuresD [OF m I x]
  show "(\<exists>cs. bus_trace n'' = bus_trace n @ cs)
     \<and> (case r of None \<Rightarrow> J (bus_trace n'') | Some y \<Rightarrow> R y (bus_trace n''))"
  proof (cases x)
    case None
    then show ?thesis using d r x by (simp add: act_bind_def)
  next
    case (Some y)
    with r x have r': "f y n' = (r, n'')" by (simp add: act_bind_def)
    note e = ensuresD [OF f d(3) [OF Some] r']
    then show ?thesis using d(1) by (cases r) (metis append_assoc option.simps(4,5))+
  qed
qed

lemma ensures_mono:
  assumes "ensures I m Q J" "\<And>tr. I' tr \<Longrightarrow> I tr" "\<And>x tr. Q x tr \<Longrightarrow> Q' x tr" "\<And>tr. J tr \<Longrightarrow> J' tr"
  shows "ensures I' m Q' J'"
proof (rule ensuresI)
  fix n x n' assume I: "I' (bus_trace n)" and x: "m n = (x, n')"
  note d = ensuresD [OF assms(1) assms(2) [OF I] x]
  show "(\<exists>cs. bus_trace n' = bus_trace n @ cs)
     \<and> (case x of None \<Rightarrow> J' (bus_trace n') | Some y \<Rightarrow> Q' y (bus_trace n'))"
    using d assms(3,4) by (simp split: option.split)
qed

lemma ensures_emits:
  assumes "emits P m" "\<And>tr cs. I tr \<Longrightarrow> list_all P cs \<Longrightarrow> I (tr @ cs)" "\<And>tr. I tr \<Longrightarrow> J tr"
  shows "ensures I m (\<lambda>_. I) J"
proof (rule ensuresI)
  fix n x n' assume I: "I (bus_trace n)" and x: "m n = (x, n')"
  obtain cs where "bus_trace n' = bus_trace n @ cs" "list_all P cs"
    using bus_step_trace [OF emits_step [OF assms(1), of n]] x by auto
  then show "(\<exists>cs. bus_trace n' = bus_trace n @ cs)
     \<and> (case x of None \<Rightarrow> J (bus_trace n') | Some y \<Rightarrow> I (bus_trace n'))"
    using assms(2,3) I by (simp split: option.split)
qed

lemma ensures_return: "(\<And>tr. I tr \<Longrightarrow> Q x tr) \<Longrightarrow> ensures I (act_return x) Q J"
  by (rule ensuresI) (auto simp: act_return_def)

lemma ensures_fail: "(\<And>tr. I tr \<Longrightarrow> J tr) \<Longrightarrow> ensures I act_fail Q J"
  by (rule ensuresI) (auto simp: act_fail_def)

text \<open>What was established before an action and lasts is still there after it.\<close>

lemma ensures_frame:
  assumes m: "ensures I m Q J" and lasting: "\<And>tr cs. R tr \<Longrightarrow> R (tr @ cs)"
  shows "ensures (\<lambda>tr. I tr \<and> R tr) m (\<lambda>y tr. Q y tr \<and> R tr) J"
proof (rule ensuresI)
  fix n x n' assume I: "I (bus_trace n) \<and> R (bus_trace n)" and x: "m n = (x, n')"
  note d = ensuresD [OF m conjunct1 [OF I] x]
  from d(1) I have "R (bus_trace n')" using lasting by auto
  then show "(\<exists>cs. bus_trace n' = bus_trace n @ cs)
     \<and> (case x of None \<Rightarrow> J (bus_trace n') | Some y \<Rightarrow> Q y (bus_trace n') \<and> R (bus_trace n'))"
    using d by (simp split: option.split)
qed

text \<open>A loop whose body establishes a lasting fact for each element and keeps the invariant.\<close>

lemma ensures_map:
  assumes body: "\<And>x. x \<in> set xs \<Longrightarrow> ensures I (f x) (\<lambda>y tr. I tr \<and> R x y tr) J"
    and lasting: "\<And>x y tr cs. R x y tr \<Longrightarrow> R x y (tr @ cs)"
  shows "ensures I (act_map f xs) (\<lambda>ys tr. I tr \<and> list_all2 (\<lambda>x y. R x y tr) xs ys) J"
  using body
proof (induction xs)
  case Nil
  then show ?case by (simp add: ensures_return)
next
  case (Cons x xs)
  have rest: "ensures (\<lambda>tr. I tr \<and> R x y tr) (act_map f xs)
      (\<lambda>ys tr. (I tr \<and> list_all2 (\<lambda>x y. R x y tr) xs ys) \<and> R x y tr) J" for y
    by (rule ensures_frame [OF Cons.IH]) (auto intro: Cons.prems lasting)
  show ?case unfolding act_map.simps
    by (rule ensures_bind [OF Cons.prems], simp, rule ensures_bind [OF rest], rule ensures_return) auto
qed

lemma ensures_retry:
  assumes m: "ensures I m Q I"
  shows "ensures I (act_retry k m) Q I"
proof (induction k)
  case 0
  show ?case by (rule ensuresI) auto
next
  case (Suc k)
  show ?case
  proof (rule ensuresI)
    fix n r n'' assume I: "I (bus_trace n)" and r: "act_retry (Suc k) m n = (r, n'')"
    obtain x n' where x: "m n = (x, n')" by fastforce
    note d = ensuresD [OF m I x]
    show "(\<exists>cs. bus_trace n'' = bus_trace n @ cs)
     \<and> (case r of None \<Rightarrow> I (bus_trace n'') | Some y \<Rightarrow> Q y (bus_trace n''))"
    proof (cases x)
      case None
      with r x have r': "act_retry k m n' = (r, n'')" by simp
      note e = ensuresD [OF Suc d(2) [OF None] r']
      then show ?thesis using d(1) by (cases r) (metis append_assoc option.simps(4,5))+
    next
      case (Some y)
      with r x d show ?thesis by auto
    qed
  qed
qed

text \<open>Every call of the trace satisfying \<open>P\<close> comes after one that \<open>G\<close> relates to it.\<close>

fun preceded_from :: "bus_call list \<Rightarrow> (bus_call \<Rightarrow> bool) \<Rightarrow> (bus_call \<Rightarrow> bus_call \<Rightarrow> bool)
    \<Rightarrow> bus_call list \<Rightarrow> bool" where
  "preceded_from seen P G [] = True"
| "preceded_from seen P G (c # cs) =
     ((P c \<longrightarrow> (\<exists>g\<in>set seen. G c g)) \<and> preceded_from (seen @ [c]) P G cs)"

definition preceded :: "(bus_call \<Rightarrow> bool) \<Rightarrow> (bus_call \<Rightarrow> bus_call \<Rightarrow> bool) \<Rightarrow> bus_call list \<Rightarrow> bool" where
  "preceded = preceded_from []"

lemma preceded_from_append:
  "preceded_from seen P G (xs @ ys) \<longleftrightarrow> preceded_from seen P G xs \<and> preceded_from (seen @ xs) P G ys"
  by (induction xs arbitrary: seen) auto

lemma preceded_from_guarded:
  "(\<And>c. c \<in> set cs \<Longrightarrow> P c \<Longrightarrow> \<exists>g\<in>set seen. G c g) \<Longrightarrow> preceded_from seen P G cs"
proof (induction cs arbitrary: seen)
  case (Cons c cs)
  have "preceded_from (seen @ [c]) P G cs" using Cons.prems by (intro Cons.IH) fastforce
  then show ?case using Cons.prems by auto
qed simp

lemma preceded_append:
  "preceded P G tr \<Longrightarrow> (\<And>c. c \<in> set cs \<Longrightarrow> P c \<Longrightarrow> \<exists>g\<in>set tr. G c g) \<Longrightarrow> preceded P G (tr @ cs)"
  by (simp add: preceded_def preceded_from_append preceded_from_guarded)

lemma preceded_none: "list_all (\<lambda>c. \<not> P c) tr \<Longrightarrow> preceded P G tr"
  unfolding preceded_def by (rule preceded_from_guarded) (auto simp: list_all_iff)

fun torque_write :: "bus_call \<Rightarrow> bool" where
  "torque_write (Write1 i a v ok) = (a = ADDR_TORQUE_ENABLE)"
| "torque_write c = False"

fun mode_write :: "bus_call \<Rightarrow> bool" where
  "mode_write (Write1 i a v ok) = (a = ADDR_OPERATING_MODE)"
| "mode_write c = False"

text \<open>The servo written to has answered that its torque is off.\<close>

fun read_torque_off :: "bus_call \<Rightarrow> bus_call \<Rightarrow> bool" where
  "read_torque_off (Write1 i a v ok) g = (g = Read1 i ADDR_TORQUE_ENABLE TORQUE_OFF True)"
| "read_torque_off c g = False"

text \<open>The servo was found with torque on, or its torque was switched on.\<close>

definition torque_held :: "ServoConfig \<Rightarrow> bus_call list \<Rightarrow> bool" where
  "torque_held c tr \<longleftrightarrow> Write1 (sv_id c) ADDR_TORQUE_ENABLE TORQUE_ON True \<in> set tr
     \<or> (\<exists>v. v \<noteq> TORQUE_OFF \<and> Read1 (sv_id c) ADDR_TORQUE_ENABLE v True \<in> set tr)"

definition bus_order :: "'w dxl_sdk \<Rightarrow> bus_call list \<Rightarrow> bool" where
  "bus_order S tr \<longleftrightarrow> preceded torque_write (\<lambda>_ g. g = TxPacket (COMM_SUCCESS S)) tr
     \<and> preceded mode_write read_torque_off tr"

definition torque_untouched :: "bus_call list \<Rightarrow> bool" where
  "torque_untouched tr \<longleftrightarrow> list_all (\<lambda>c. \<not> torque_write c) tr \<and> preceded mode_write read_torque_off tr"

definition calm :: "bus_call \<Rightarrow> bool" where
  "calm c \<longleftrightarrow> \<not> torque_write c \<and> \<not> mode_write c"

lemma torque_untouched_order: "torque_untouched tr \<Longrightarrow> bus_order S tr"
  by (simp add: torque_untouched_def bus_order_def preceded_none)

lemma torque_untouched_append:
  "torque_untouched tr \<Longrightarrow> list_all calm cs \<Longrightarrow> torque_untouched (tr @ cs)"
  unfolding torque_untouched_def
  by (auto simp: calm_def list_all_iff intro!: preceded_append)

lemma bus_order_append:
  "bus_order S tr \<Longrightarrow> TxPacket (COMM_SUCCESS S) \<in> set tr \<Longrightarrow> list_all (\<lambda>c. \<not> mode_write c) cs
     \<Longrightarrow> bus_order S (tr @ cs)"
  unfolding bus_order_def by (auto simp: list_all_iff intro!: preceded_append)

lemma calm_simps [simp]:
  "calm ClosePort" "calm (OpenPort b)" "calm (SetBaudRate r b)" "calm (Ping i b)" "calm ClearParam"
  "calm (Read1 i a v b)" "calm (Read4 i a v4 b)" "calm (Write2 i a v2 b)" "calm (TxPacket r)"
  "calm (AddParam i bs b)" "calm (Write1 i ADDR_BUS_WATCHDOG v b)"
  by (simp_all add: calm_def const_defs)

lemma neutral_calm: "neutral_call c \<Longrightarrow> calm c"
  by (cases c) (auto simp: calm_def const_defs)

lemma ensures_calm: "emits calm m \<Longrightarrow> ensures torque_untouched m (\<lambda>_. torque_untouched) (bus_order S)"
  by (rule ensures_emits [of calm]) (auto intro: torque_untouched_append torque_untouched_order)

text \<open>A successful register access is on the trace.\<close>

lemma read_1byte_ensures:
  "ensures torque_untouched (read_1byte S i a)
     (\<lambda>v tr. torque_untouched tr \<and> Read1 i a v True \<in> set tr) torque_untouched"
  unfolding read_1byte_def
  by (rule ensures_retry, rule ensuresI)
    (auto simp: read1_once_def record_call_def Let_def torque_untouched_append split: prod.splits if_splits)

lemma write_1byte_ensures:
  assumes "\<And>tr ok. I tr \<Longrightarrow> I (tr @ [Write1 i a v ok])"
  shows "ensures I (write_1byte S i a v) (\<lambda>_ tr. I tr \<and> Write1 i a v True \<in> set tr) I"
  unfolding write_1byte_def
  by (rule ensures_retry, rule ensuresI)
    (auto simp: write1_once_def record_call_def Let_def assms split: prod.splits if_splits)

lemma mode_write_ensures:
  "ensures (\<lambda>tr. torque_untouched tr \<and> Read1 i ADDR_TORQUE_ENABLE TORQUE_OFF True \<in> set tr)
     (write_1byte S i ADDR_OPERATING_MODE v) (\<lambda>_ tr. torque_untouched tr) torque_untouched"
proof (rule ensures_mono [OF write_1byte_ensures])
  show "torque_untouched (tr @ [Write1 i ADDR_OPERATING_MODE v ok])
      \<and> Read1 i ADDR_TORQUE_ENABLE TORQUE_OFF True \<in> set (tr @ [Write1 i ADDR_OPERATING_MODE v ok])"
    if "torque_untouched tr \<and> Read1 i ADDR_TORQUE_ENABLE TORQUE_OFF True \<in> set tr" for tr ok
    using that unfolding torque_untouched_def by (auto simp: const_defs intro!: preceded_append)
qed auto

lemma check_servo_ensures:
  "ensures torque_untouched (check_servo S c)
     (\<lambda>t tr. torque_untouched tr \<and> Read1 (sv_id c) ADDR_TORQUE_ENABLE t True \<in> set tr) torque_untouched"
proof -
  let ?R = "\<lambda>t tr. Read1 (sv_id c) ADDR_TORQUE_ENABLE t True \<in> set tr"
  have read: "ensures (\<lambda>tr. torque_untouched tr \<and> ?R t tr) (read_1byte S (sv_id c) a)
      (\<lambda>_ tr. torque_untouched tr \<and> ?R t tr) torque_untouched" for t a
    by (rule ensures_mono [OF ensures_frame [OF read_1byte_ensures, of "?R t"]]) auto
  have mode: "ensures (\<lambda>tr. torque_untouched tr \<and> ?R TORQUE_OFF tr)
      (write_1byte S (sv_id c) ADDR_OPERATING_MODE v)
      (\<lambda>_ tr. torque_untouched tr \<and> ?R TORQUE_OFF tr) torque_untouched" for v
    by (rule ensures_mono [OF ensures_frame [OF mode_write_ensures, of "?R TORQUE_OFF"]]) auto
  show ?thesis unfolding check_servo_def
    by (rule ensures_bind [OF read_1byte_ensures], rule ensures_bind [OF read],
        rule ensures_bind [OF read])
      (auto intro!: ensures_fail ensures_return ensures_bind [OF mode])
qed

lemma write_goal_ensures:
  "ensures torque_untouched (write_goal S now goals)
     (\<lambda>_ tr. torque_untouched tr \<and> TxPacket (COMM_SUCCESS S) \<in> set tr) torque_untouched"
proof (rule ensuresI)
  fix n x n' assume I: "torque_untouched (bus_trace n)" and x: "write_goal S now goals n = (x, n')"
  have "bus_step calm n n'" using write_goal_step [of calm goals S n now] x by (simp add: neutral_calm)
  then obtain cs where "bus_trace n' = bus_trace n @ cs" "list_all calm cs"
    using bus_step_trace by blast
  then show "(\<exists>cs. bus_trace n' = bus_trace n @ cs)
     \<and> (case x of None \<Rightarrow> torque_untouched (bus_trace n')
        | Some y \<Rightarrow> torque_untouched (bus_trace n') \<and> TxPacket (COMM_SUCCESS S) \<in> set (bus_trace n'))"
    using I x write_goal_success [of S now goals n n'] by (auto simp: torque_untouched_append split: option.split)
qed

lemma enable_torque_ensures:
  "ensures (\<lambda>tr. bus_order S tr \<and> TxPacket (COMM_SUCCESS S) \<in> set tr) (enable_torque S (c, t))
     (\<lambda>_ tr. (bus_order S tr \<and> TxPacket (COMM_SUCCESS S) \<in> set tr)
        \<and> (t = TORQUE_OFF \<longrightarrow> Write1 (sv_id c) ADDR_TORQUE_ENABLE TORQUE_ON True \<in> set tr)) (bus_order S)"
proof (cases "t = TORQUE_OFF")
  case True
  show ?thesis unfolding enable_torque_def using True
    by simp (rule ensures_mono [OF write_1byte_ensures
        [of "\<lambda>tr. bus_order S tr \<and> TxPacket (COMM_SUCCESS S) \<in> set tr"]],
      auto simp: const_defs intro!: bus_order_append)
qed (auto simp: enable_torque_def intro: ensures_return)

lemma ensures_calm_frame:
  assumes "emits calm m" "\<And>tr cs. R tr \<Longrightarrow> R (tr @ cs)"
  shows "ensures (\<lambda>tr. torque_untouched tr \<and> R tr) m (\<lambda>_ tr. torque_untouched tr \<and> R tr) (bus_order S)"
  by (rule ensures_frame [OF ensures_calm]) (use assms in auto)

lemma list_all2_Read1_append:
  "list_all2 (\<lambda>c t. Read1 (sv_id c) a t True \<in> set tr) cs ts
     \<Longrightarrow> list_all2 (\<lambda>c t. Read1 (sv_id c) a t True \<in> set (tr @ ds)) cs ts"
  by (erule list_all2_mono) auto

lemma check_servos_ensures:
  "ensures torque_untouched (act_map (check_servo S) cs)
     (\<lambda>ts tr. torque_untouched tr
        \<and> list_all2 (\<lambda>c t. Read1 (sv_id c) ADDR_TORQUE_ENABLE t True \<in> set tr) cs ts) (bus_order S)"
  by (rule ensures_mono [OF ensures_map [where R = "\<lambda>c t tr. Read1 (sv_id c) ADDR_TORQUE_ENABLE t True \<in> set tr",
        OF check_servo_ensures]]) (auto intro: torque_untouched_order)

lemma read_positions_ensures:
  assumes "\<And>tr cs. R tr \<Longrightarrow> R (tr @ cs)"
  shows "ensures (\<lambda>tr. torque_untouched tr \<and> R tr) (act_map (read_position S) cs)
     (\<lambda>ps tr. (torque_untouched tr \<and> R tr) \<and> length ps = length cs) (bus_order S)"
proof (rule ensures_mono [OF ensures_map [where R = "\<lambda>_ _ _. True"]])
  show "ensures (\<lambda>tr. torque_untouched tr \<and> R tr) (read_position S c)
      (\<lambda>_ tr. (torque_untouched tr \<and> R tr) \<and> True) (bus_order S)" for c
    using ensures_calm_frame [of "read_position S c" R S] assms
    by (simp add: read_position_def read_4byte_def emit_intros)
qed (auto dest: list_all2_lengthD)

lemma torque_held_all:
  assumes "list_all2 (\<lambda>c t. Read1 (sv_id c) ADDR_TORQUE_ENABLE t True \<in> set tr) cs ts"
    and "\<And>c t. (c, t) \<in> set (zip cs ts) \<Longrightarrow> t = TORQUE_OFF \<Longrightarrow>
           Write1 (sv_id c) ADDR_TORQUE_ENABLE TORQUE_ON True \<in> set tr"
  shows "list_all (\<lambda>c. torque_held c tr) cs"
  unfolding list_all_length
proof (intro allI impI)
  fix i assume i: "i < length cs"
  moreover have "length ts = length cs" using assms(1) by (simp add: list_all2_lengthD)
  ultimately have "(cs ! i, ts ! i) \<in> set (zip cs ts)" by (auto simp: in_set_zip)
  moreover have "Read1 (sv_id (cs ! i)) ADDR_TORQUE_ENABLE (ts ! i) True \<in> set tr"
    using assms(1) i by (rule list_all2_nthD)
  ultimately show "torque_held (cs ! i) tr" using assms(2) unfolding torque_held_def by blast
qed

lemma enable_torques_ensures:
  "ensures (\<lambda>tr. (bus_order S tr \<and> TxPacket (COMM_SUCCESS S) \<in> set tr)
        \<and> list_all2 (\<lambda>c t. Read1 (sv_id c) ADDR_TORQUE_ENABLE t True \<in> set tr) cs ts)
     (act_map (enable_torque S) (zip cs ts))
     (\<lambda>_ tr. bus_order S tr \<and> list_all (\<lambda>c. torque_held c tr) cs) (bus_order S)"
proof (rule ensures_mono [OF ensures_frame [OF ensures_map
      [where R = "\<lambda>ct _ tr. snd ct = TORQUE_OFF \<longrightarrow> Write1 (sv_id (fst ct)) ADDR_TORQUE_ENABLE TORQUE_ON True \<in> set tr"],
      where R = "\<lambda>tr. list_all2 (\<lambda>c t. Read1 (sv_id c) ADDR_TORQUE_ENABLE t True \<in> set tr) cs ts"]])
  fix us tr
  assume a: "((bus_order S tr \<and> TxPacket (COMM_SUCCESS S) \<in> set tr)
      \<and> list_all2 (\<lambda>x y. snd x = TORQUE_OFF \<longrightarrow>
          Write1 (sv_id (fst x)) ADDR_TORQUE_ENABLE TORQUE_ON True \<in> set tr) (zip cs ts) us)
      \<and> list_all2 (\<lambda>c t. Read1 (sv_id c) ADDR_TORQUE_ENABLE t True \<in> set tr) cs ts"
  have "Write1 (sv_id c) ADDR_TORQUE_ENABLE TORQUE_ON True \<in> set tr"
    if "(c, t) \<in> set (zip cs ts)" "t = TORQUE_OFF" for c t
    using a that by (auto simp: list_all2_conv_all_nth in_set_zip)
  with a show "bus_order S tr \<and> list_all (\<lambda>c. torque_held c tr) cs"
    using torque_held_all by blast
qed (auto elim!: list_all2_mono intro!: enable_torque_ensures [simplified conj_assoc])

lemma initial_setting_ensures:
  assumes "initial_setting S now n = (r, n')" "torque_untouched (bus_trace n)"
  shows "bus_order S (bus_trace n')"
    and "r = Some ppr \<Longrightarrow> length ppr = length DXL_SERVOS
           \<and> list_all (\<lambda>c. torque_held c (bus_trace n')) DXL_SERVOS"
proof -
  let ?R = "\<lambda>ts tr. list_all2 (\<lambda>c t. Read1 (sv_id c) ADDR_TORQUE_ENABLE t True \<in> set tr) DXL_SERVOS ts"
  have frame: "ensures (\<lambda>tr. torque_untouched tr \<and> ?R ts tr) m (\<lambda>_ tr. torque_untouched tr \<and> ?R ts tr)
      (bus_order S)" if "emits calm m" for ts and m :: "('a, 'b) action"
    by (rule ensures_calm_frame [OF that]) (rule list_all2_Read1_append)
  have goal: "ensures (\<lambda>tr. (torque_untouched tr \<and> ?R ts tr) \<and> length ps = length DXL_SERVOS)
      (write_goal S now ps)
      (\<lambda>_ tr. ((bus_order S tr \<and> TxPacket (COMM_SUCCESS S) \<in> set tr) \<and> ?R ts tr)
         \<and> length ps = length DXL_SERVOS) (bus_order S)" for ts ps
    by (rule ensures_mono [OF ensures_frame [OF write_goal_ensures, where R = "\<lambda>tr. ?R ts tr
          \<and> length ps = length DXL_SERVOS"]]) (auto intro: torque_untouched_order elim!: list_all2_mono)
  have torque: "ensures (\<lambda>tr. ((bus_order S tr \<and> TxPacket (COMM_SUCCESS S) \<in> set tr) \<and> ?R ts tr)
         \<and> length ps = length DXL_SERVOS)
      (act_bind (act_map (enable_torque S) (zip DXL_SERVOS ts)) (\<lambda>_. act_return ps))
      (\<lambda>ps tr. bus_order S tr \<and> length ps = length DXL_SERVOS
         \<and> list_all (\<lambda>c. torque_held c tr) DXL_SERVOS) (bus_order S)" for ts and ps :: "int list"
    by (rule ensures_bind [OF ensures_frame [OF enable_torques_ensures,
          where R = "\<lambda>_. length ps = length DXL_SERVOS"]]) (auto intro: ensures_return)
  have pos: "ensures (\<lambda>tr. torque_untouched tr \<and> ?R ts tr) (act_map (read_position S) DXL_SERVOS)
      (\<lambda>ps tr. (torque_untouched tr \<and> ?R ts tr) \<and> length ps = length DXL_SERVOS) (bus_order S)" for ts
    by (rule read_positions_ensures) (rule list_all2_Read1_append)
  define chain where "chain = act_bind (act_retry PORT_OPEN_RETRY_COUNT (open_port_attempt S)) (\<lambda>_.
      act_bind (\<lambda>n. (Some (), n\<lparr>sync_write := True\<rparr>)) (\<lambda>_.
      act_bind (act_map (ping_servo S) DXL_SERVOS) (\<lambda>_.
      act_bind (act_map (check_servo S) DXL_SERVOS) (\<lambda>torque_enabled.
      act_bind (act_map (clear_watchdog S) DXL_SERVOS) (\<lambda>_.
      act_bind (act_map (write_gains S) DXL_SERVOS) (\<lambda>_.
      act_bind (act_map (read_position S) DXL_SERVOS) (\<lambda>initial_ppr.
      act_bind (write_goal S now initial_ppr) (\<lambda>_.
      act_bind (act_map (enable_torque S) (zip DXL_SERVOS torque_enabled)) (\<lambda>_.
      act_return initial_ppr)))))))))"
  have "ensures torque_untouched chain
      (\<lambda>ps tr. bus_order S tr \<and> length ps = length DXL_SERVOS
         \<and> list_all (\<lambda>c. torque_held c tr) DXL_SERVOS) (bus_order S)"
    unfolding chain_def
  proof (rule ensures_bind [OF ensures_calm], goal_cases)
    case 1
    show ?case by (simp add: open_port_attempt_def emit_intros)
  next
    case 2
    show ?case
    proof (rule ensures_bind [where Q = "\<lambda>_. torque_untouched"], goal_cases)
      case 1
      show ?case by (rule ensuresI) auto
    next
      case 2
      show ?case
        by (rule ensures_bind [OF ensures_calm] ensures_bind [OF check_servos_ensures]
            ensures_bind [OF frame] ensures_bind [OF pos]
            ensures_bind [OF goal] torque
          | assumption
          | simp add: emit_intros ping_servo_def clear_watchdog_def write_1byte_def write_gains_def
              write_2byte_def)+
    qed
  qed
  note chain_ok = this
  have "(if getPortHandler S \<and> getPacketHandler S
      then chain (n\<lparr>port_handler := True, packet_handler := True\<rparr>)
      else (None, n\<lparr>port_handler := getPortHandler S, packet_handler := getPacketHandler S\<rparr>)) = (r, n')"
    using assms(1) unfolding initial_setting_def chain_def by (auto simp: Let_def)
  then show "bus_order S (bus_trace n')"
    and "r = Some ppr \<Longrightarrow> length ppr = length DXL_SERVOS
           \<and> list_all (\<lambda>c. torque_held c (bus_trace n')) DXL_SERVOS"
    using ensuresD(2,3) [OF chain_ok, of "n\<lparr>port_handler := True, packet_handler := True\<rparr>" r n']
      assms(2) torque_untouched_order [OF assms(2), of S]
    by (cases r; auto split: if_splits)+
qed


subsection \<open>Start-up on a healthy bus\<close>

text \<open>
  What the driver needs of the SDK and the servos to come up: every transaction succeeds, no
  hardware error is latched, and no servo is found with torque on in another operating mode.
\<close>

locale healthy_bus =
  fixes S :: "'w dxl_sdk"
  assumes handlers: "getPortHandler S" "getPacketHandler S"
    and open_ok: "\<And>w. fst (sdk_openPort S w)" "\<And>b w. fst (sdk_setBaudRate S b w)"
    and ping_ok: "\<And>i w. fst (sdk_ping S i w) = (COMM_SUCCESS S, 0)"
    and write1_ok: "\<And>i a v w. fst (sdk_write1ByteTxRx S i a v w) = (COMM_SUCCESS S, 0)"
    and write2_ok: "\<And>i a v w. fst (sdk_write2ByteTxRx S i a v w) = (COMM_SUCCESS S, 0)"
    and read1_ok: "\<And>i a w. snd (fst (sdk_read1ByteTxRx S i a w)) = (COMM_SUCCESS S, 0)"
    and read4_ok: "\<And>i a w. snd (fst (sdk_read4ByteTxRx S i a w)) = (COMM_SUCCESS S, 0)"
    and hardware_ok: "\<And>i w. fst (fst (sdk_read1ByteTxRx S i ADDR_HARDWARE_ERROR_STATUS w)) = 0"
    and mode_ok: "\<And>i w w'. fst (fst (sdk_read1ByteTxRx S i ADDR_TORQUE_ENABLE w)) = TORQUE_OFF
        \<or> fst (fst (sdk_read1ByteTxRx S i ADDR_OPERATING_MODE w')) = POSITION_CONTROL_MODE"
    and add_ok: "\<And>i bs w. fst (sdk_addParam S i bs w)"
    and tx_ok: "\<And>w. fst (sdk_txPacket S w) = COMM_SUCCESS S"
begin

text \<open>The action succeeds whenever the SyncWrite group exists if it needs it, and keeps it.\<close>

definition works :: "bool \<Rightarrow> ('w, 'a) action \<Rightarrow> ('a \<Rightarrow> bool) \<Rightarrow> bool" where
  "works g m Q \<longleftrightarrow> (\<forall>n. (g \<longrightarrow> sync_write n) \<longrightarrow>
     (\<exists>x n'. m n = (Some x, n') \<and> Q x \<and> sync_write n' = sync_write n))"

lemma works_return: "Q x \<Longrightarrow> works g (act_return x) Q"
  by (simp add: works_def act_return_def)

lemma worksE:
  assumes "works g m Q" "g \<Longrightarrow> sync_write n"
  obtains x n' where "m n = (Some x, n')" "Q x" "sync_write n' = sync_write n"
  using assms unfolding works_def by blast

lemma works_bind:
  assumes m: "works g m Q" and f: "\<And>x. Q x \<Longrightarrow> works g (f x) R"
  shows "works g (act_bind m f) R"
  unfolding works_def
proof (intro allI impI)
  fix n :: "'w dxl_node" assume g: "g \<longrightarrow> sync_write n"
  obtain x n' where x: "m n = (Some x, n')" "Q x" "sync_write n' = sync_write n"
    using g by (auto intro: worksE [OF m, of n])
  obtain y n'' where "f x n' = (Some y, n'')" "R y" "sync_write n'' = sync_write n'"
    using g x(3) by (auto intro: worksE [OF f [OF x(2)], of n'])
  with x show "\<exists>y n''. act_bind m f n = (Some y, n'') \<and> R y \<and> sync_write n'' = sync_write n"
    by (simp add: act_bind_def)
qed

lemma works_map:
  "(\<And>x. works g (f x) (\<lambda>_. True)) \<Longrightarrow> works g (act_map f xs) (\<lambda>ys. length ys = length xs)"
proof (induction xs)
  case (Cons x xs)
  show ?case unfolding act_map.simps
    by (rule works_bind [OF Cons.prems], rule works_bind [OF Cons.IH [OF Cons.prems]], rule works_return) simp
qed (simp add: works_return)

lemma works_retry:
  assumes m: "works g m Q" and "0 < k"
  shows "works g (act_retry k m) Q"
  unfolding works_def
proof (intro allI impI)
  fix n :: "'w dxl_node" assume g: "g \<longrightarrow> sync_write n"
  obtain x n' where "m n = (Some x, n')" "Q x" "sync_write n' = sync_write n"
    using g by (auto intro: worksE [OF m, of n])
  with \<open>0 < k\<close> show "\<exists>x n'. act_retry k m n = (Some x, n') \<and> Q x \<and> sync_write n' = sync_write n"
    by (cases k) auto
qed

lemma works_once:
  "(\<And>n. \<exists>x c w. m n = (Some x, record_call c w n) \<and> Q x) \<Longrightarrow> works g m Q"
  unfolding works_def by (metis record_call_def dxl_node.select_convs(5) dxl_node.surjective dxl_node.update_convs(1,2))

lemma works_close: "works g (close_port S) (\<lambda>_. True)"
  by (rule works_once) (auto simp: close_port_def)

lemma works_open: "works g (open_port S) (\<lambda>_. True)"
  unfolding works_def
proof (intro allI impI)
  fix n :: "'w dxl_node"
  obtain w where w: "sdk_openPort S (bus_world n) = (True, w)"
    using open_ok(1) [of "bus_world n"] by (cases "sdk_openPort S (bus_world n)") auto
  obtain w' where "sdk_setBaudRate S DXL_BAUDRATE w = (True, w')"
    using open_ok(2) [of DXL_BAUDRATE w] by (cases "sdk_setBaudRate S DXL_BAUDRATE w") auto
  with w show "\<exists>x n'. open_port S n = (Some x, n') \<and> True \<and> sync_write n' = sync_write n"
    by (simp add: open_port_def record_call_def)
qed

lemma works_ping: "works g (ping_servo S c) (\<lambda>_. True)"
  unfolding ping_servo_def
proof (rule works_retry [OF works_once])
  fix n :: "'w dxl_node"
  obtain w where "sdk_ping S (sv_id c) (bus_world n) = ((COMM_SUCCESS S, 0), w)"
    by (metis ping_ok prod.collapse)
  then show "\<exists>x d w. ping_once S (sv_id c) n = (Some x, record_call d w n) \<and> True"
    by (auto simp: ping_once_def)
qed (simp add: PING_RETRY_COUNT_def)

lemma works_write1: "works g (write_1byte S i a v) (\<lambda>_. True)"
  unfolding write_1byte_def
proof (rule works_retry [OF works_once])
  fix n :: "'w dxl_node"
  obtain w where "sdk_write1ByteTxRx S i a v (bus_world n) = ((COMM_SUCCESS S, 0), w)"
    by (metis write1_ok prod.collapse)
  then show "\<exists>x d w. write1_once S i a v n = (Some x, record_call d w n) \<and> True"
    by (auto simp: write1_once_def)
qed (simp add: REGISTER_WRITE_RETRY_COUNT_def)

lemma works_write2: "works g (write_2byte S i a v) (\<lambda>_. True)"
  unfolding write_2byte_def
proof (rule works_retry [OF works_once])
  fix n :: "'w dxl_node"
  obtain w where "sdk_write2ByteTxRx S i a v (bus_world n) = ((COMM_SUCCESS S, 0), w)"
    by (metis write2_ok prod.collapse)
  then show "\<exists>x d w. write2_once S i a v n = (Some x, record_call d w n) \<and> True"
    by (auto simp: write2_once_def)
qed (simp add: REGISTER_WRITE_RETRY_COUNT_def)

lemma works_read1:
  "works g (read_1byte S i a) (\<lambda>v. \<exists>w. v = fst (fst (sdk_read1ByteTxRx S i a w)))"
  unfolding read_1byte_def
proof (rule works_retry [OF works_once])
  fix n :: "'w dxl_node"
  obtain v w where e: "sdk_read1ByteTxRx S i a (bus_world n) = ((v, COMM_SUCCESS S, 0), w)"
    by (metis read1_ok prod.collapse)
  then have "read1_once S i a n = (Some v, record_call (Read1 i a v True) w n)"
    by (simp add: read1_once_def)
  then show "\<exists>x d w. read1_once S i a n = (Some x, record_call d w n)
      \<and> (\<exists>w. x = fst (fst (sdk_read1ByteTxRx S i a w)))"
    using e by (metis fst_conv)
qed (simp add: REGISTER_WRITE_RETRY_COUNT_def)

lemma works_read4: "works g (read_4byte S i a) (\<lambda>_. True)"
  unfolding read_4byte_def
proof (rule works_retry [OF works_once])
  fix n :: "'w dxl_node"
  obtain v w where "sdk_read4ByteTxRx S i a (bus_world n) = ((v, COMM_SUCCESS S, 0), w)"
    by (metis read4_ok prod.collapse)
  then show "\<exists>x d w. read4_once S i a n = (Some x, record_call d w n) \<and> True"
    by (auto simp: read4_once_def)
qed (simp add: REGISTER_WRITE_RETRY_COUNT_def)

lemma works_check: "works g (check_servo S c) (\<lambda>_. True)"
  unfolding check_servo_def
  by (rule works_bind [OF works_read1], rule works_bind [OF works_read1], rule works_bind [OF works_read1])
    (auto simp: hardware_ok intro!: works_return works_bind [OF works_write1], metis mode_ok)

lemma works_gains: "works g (write_gains S c) (\<lambda>_. True)"
  unfolding write_gains_def by (intro works_bind [OF works_write2] works_write2)

lemma works_watchdog: "works g (clear_watchdog S c) (\<lambda>_. True)"
  unfolding clear_watchdog_def by (rule works_write1)

lemma works_position: "works g (read_position S c) (\<lambda>_. True)"
  unfolding read_position_def by (intro works_bind [OF works_read4] works_return) simp

lemma works_torque: "works g (enable_torque S ct) (\<lambda>_. True)"
  by (cases ct) (simp add: enable_torque_def works_write1 works_return)

lemma works_add_param: "works g (add_param S cg) (\<lambda>_. True)"
proof (rule works_once)
  fix n :: "'w dxl_node"
  obtain c v where cg: "cg = (c, v)" by fastforce
  obtain w where "sdk_addParam S (sv_id c) (goal_bytes S v) (bus_world n) = (True, w)"
    using add_ok [of "sv_id c" "goal_bytes S v" "bus_world n"] by (metis prod.collapse)
  then show "\<exists>x d w. add_param S cg n = (Some x, record_call d w n) \<and> True"
    by (auto simp: add_param_def cg)
qed

lemma works_goal: "works True (write_goal S now goals) (\<lambda>_. True)"
  unfolding works_def
proof (intro allI impI)
  fix n :: "'w dxl_node" assume sw: "True \<longrightarrow> sync_write n"
  obtain x a where a: "act_map (add_param S) (zip DXL_SERVOS goals) (clear_param S n) = (Some x, a)"
      "sync_write a"
    by (rule worksE [OF works_map [OF works_add_param], where g = True and n = "clear_param S n"])
      (use sw in \<open>simp_all add: clear_param_def record_call_def\<close>)
  obtain w where "sdk_txPacket S (bus_world a) = (COMM_SUCCESS S, w)" by (metis tx_ok prod.collapse)
  with a sw show "\<exists>x n'. write_goal S now goals n = (Some x, n') \<and> True \<and> sync_write n' = sync_write n"
    by (auto simp: write_goal_def Let_def clear_param_def record_call_def)
qed

lemma initial_setting_works:
  "\<exists>ppr n'. initial_setting S now n = (Some ppr, n') \<and> length ppr = length DXL_SERVOS \<and> sync_write n'"
proof -
  define rest where "rest = act_bind (act_map (ping_servo S) DXL_SERVOS) (\<lambda>_.
      act_bind (act_map (check_servo S) DXL_SERVOS) (\<lambda>torque_enabled.
      act_bind (act_map (clear_watchdog S) DXL_SERVOS) (\<lambda>_.
      act_bind (act_map (write_gains S) DXL_SERVOS) (\<lambda>_.
      act_bind (act_map (read_position S) DXL_SERVOS) (\<lambda>initial_ppr.
      act_bind (write_goal S now initial_ppr) (\<lambda>_.
      act_bind (act_map (enable_torque S) (zip DXL_SERVOS torque_enabled)) (\<lambda>_.
      act_return initial_ppr)))))))"
  have rest: "works True rest (\<lambda>ppr. length ppr = length DXL_SERVOS)"
    unfolding rest_def
    by (intro works_bind [OF works_map] works_bind [OF works_goal] works_return works_ping works_check
        works_watchdog works_gains works_position works_torque)
  have opens: "works False (act_retry PORT_OPEN_RETRY_COUNT (open_port_attempt S)) (\<lambda>_. True)"
    unfolding open_port_attempt_def
    by (intro works_retry works_bind [OF works_close] works_open) (simp add: PORT_OPEN_RETRY_COUNT_def)
  obtain x m where m: "act_retry PORT_OPEN_RETRY_COUNT (open_port_attempt S)
      (n\<lparr>port_handler := True, packet_handler := True\<rparr>) = (Some x, m)"
    by (rule worksE [OF opens]) simp_all
  obtain ppr n' where n': "rest (m\<lparr>sync_write := True\<rparr>) = (Some ppr, n')"
      "length ppr = length DXL_SERVOS" "sync_write n'"
    by (rule worksE [OF rest, of "m\<lparr>sync_write := True\<rparr>"]) simp_all
  have "initial_setting S now n = act_bind (act_retry PORT_OPEN_RETRY_COUNT (open_port_attempt S))
      (\<lambda>_. act_bind (\<lambda>n. (Some (), n\<lparr>sync_write := True\<rparr>)) (\<lambda>_. rest))
      (n\<lparr>port_handler := True, packet_handler := True\<rparr>)"
    unfolding initial_setting_def rest_def using handlers by (simp add: Let_def)
  also have "\<dots> = (Some ppr, n')" using m n'(1) by (simp add: act_bind_def)
  finally show ?thesis using n' by blast
qed

end

text \<open>A bus that answers every request: torque off, position mode, neutral position.\<close>

definition quiet_bus :: "unit dxl_sdk" where
  "quiet_bus = \<lparr>COMM_SUCCESS = 0, getPortHandler = True, getPacketHandler = True,
     sdk_closePort = (\<lambda>w. w), sdk_openPort = (\<lambda>w. (True, w)), sdk_setBaudRate = (\<lambda>b w. (True, w)),
     sdk_ping = (\<lambda>i w. ((0, 0), w)),
     sdk_write1ByteTxRx = (\<lambda>i a v w. ((0, 0), w)), sdk_write2ByteTxRx = (\<lambda>i a v w. ((0, 0), w)),
     sdk_read1ByteTxRx = (\<lambda>i a w. ((if a = 11 then 3 else 0, 0, 0), w)),
     sdk_read4ByteTxRx = (\<lambda>i a w. ((2048, 0, 0), w)),
     sdk_clearParam = (\<lambda>w. w), sdk_addParam = (\<lambda>i bs w. (True, w)), sdk_txPacket = (\<lambda>w. (0, w)),
     DXL_LOBYTE = (\<lambda>v. ucast v), DXL_HIBYTE = (\<lambda>v. ucast (drop_bit 8 v)),
     DXL_LOWORD = (\<lambda>v. ucast v), DXL_HIWORD = (\<lambda>v. ucast (drop_bit 16 v))\<rparr>"

interpretation quiet: healthy_bus quiet_bus
  by unfold_locales (simp_all add: quiet_bus_def const_defs)

lemma startup_loop_ends:
  assumes "\<exists>e\<in>set env. \<not> fst e \<or> fst (snd e) - start \<ge> SERVO_STARTUP_RETURN_TIME_SEC"
    and "length (servo_lpf n) = length DXL_SERVOS"
  shows "\<exists>n'. startup_loop S start env n = Some n' \<and> length (servo_lpf n') = length DXL_SERVOS
     \<and> latest_goal_ppr n' = latest_goal_ppr n"
  using assms
proof (induction S start env n rule: startup_loop.induct)
  case (2 S start ok now wnow env n)
  let ?n1 = "n\<lparr>servo_lpf := advance_filters (servo_lpf n)\<rparr>"
  let ?n2 = "snd (write_goal S wnow (filtered_goals (servo_lpf n)) ?n1)"
  have step: "bus_step (\<lambda>_. True) ?n1 ?n2" by (rule write_goal_step) auto
  have f: "servo_lpf ?n2 = advance_filters (servo_lpf n)" "latest_goal_ppr ?n2 = latest_goal_ppr n"
    using bus_step_fields(1,2) [OF step] by simp_all
  show ?case
  proof (cases "ok \<and> now - start < SERVO_STARTUP_RETURN_TIME_SEC")
    case True
    have "\<exists>e\<in>set env. \<not> fst e \<or> fst (snd e) - start \<ge> SERVO_STARTUP_RETURN_TIME_SEC"
      using 2(2) True by auto
    from 2(1) [OF True refl refl this] f 2(3) True show ?thesis
      by (simp add: Let_def) (simp add: advance_filters_def)
  next
    case False
    then show ?thesis using 2(3) by auto
  qed
qed simp

lemma initial_return_to_zero_ends:
  assumes "\<exists>e\<in>set env. \<not> fst e \<or> fst (snd e) - start \<ge> SERVO_STARTUP_RETURN_TIME_SEC"
    and "length ppr = length DXL_SERVOS"
  shows "\<exists>n'. initial_return_to_zero S start env final ppr n = Some n'
     \<and> length (servo_lpf n') = length DXL_SERVOS \<and> latest_goal_ppr n' = latest_goal_ppr n"
proof -
  let ?s = "n\<lparr>servo_lpf := map2 (\<lambda>servo ppr. LPF_reset (LPF_new SERVO_STARTUP_RETURN_TIME_SEC)
      (initial_rad servo ppr)) DXL_SERVOS ppr\<rparr>"
  obtain n1 where n1: "startup_loop S start env ?s = Some n1"
      "length (servo_lpf n1) = length DXL_SERVOS" "latest_goal_ppr n1 = latest_goal_ppr n"
    using startup_loop_ends [OF assms(1), of ?s S] assms(2) by auto
  let ?n2 = "n1\<lparr>servo_lpf := map (\<lambda>f. LPF_reset f 0) (servo_lpf n1)\<rparr>"
  have "bus_step (\<lambda>_. True) ?n2 (snd (write_goal S t (map sv_zero_ppr DXL_SERVOS) ?n2))" for t
    by (rule write_goal_step) auto
  from bus_step_fields(1,2) [OF this] n1 show ?thesis
    by (simp add: initial_return_to_zero_def Let_def)
qed

lemma goals_ok_initial: "goals_ok (latest_goal_ppr (dxl_node_init w))"
  by (simp add: goals_ok_def dxl_node_init_def DXL_SERVOS_def servo_config_def numeral_eq_Suc)

lemma emits_latest_goal: "emits P m \<Longrightarrow> m n = (x, n') \<Longrightarrow> latest_goal_ppr n' = latest_goal_ppr n"
  by (metis emits_step bus_step_fields(2) snd_conv)

text \<open>\<open>initial_setting\<close> does not touch the goals the callbacks send.\<close>

definition keeps_goal :: "('w, 'a) action \<Rightarrow> bool" where
  "keeps_goal m \<longleftrightarrow> (\<forall>n. latest_goal_ppr (snd (m n)) = latest_goal_ppr n)"

lemma keeps_goal_emits: "emits (\<lambda>_. True) m \<Longrightarrow> keeps_goal m"
  unfolding keeps_goal_def by (metis emits_step bus_step_fields(2))

lemma keeps_goal_bind: "keeps_goal m \<Longrightarrow> (\<And>x. keeps_goal (f x)) \<Longrightarrow> keeps_goal (act_bind m f)"
  unfolding keeps_goal_def act_bind_def
  by (auto split: prod.split option.split) (metis snd_conv)+

lemma initial_setting_goal:
  "latest_goal_ppr (snd (initial_setting S now n)) = latest_goal_ppr n"
proof -
  have "emits (\<lambda>_. True) (write_goal S now g)" for g :: "int list"
    unfolding emits_def by (intro allI write_goal_step) auto
  then have chain: "keeps_goal (act_bind (act_retry PORT_OPEN_RETRY_COUNT (open_port_attempt S)) (\<lambda>_.
      act_bind (\<lambda>n. (Some (), n\<lparr>sync_write := True\<rparr>)) (\<lambda>_.
      act_bind (act_map (ping_servo S) DXL_SERVOS) (\<lambda>_.
      act_bind (act_map (check_servo S) DXL_SERVOS) (\<lambda>torque_enabled.
      act_bind (act_map (clear_watchdog S) DXL_SERVOS) (\<lambda>_.
      act_bind (act_map (write_gains S) DXL_SERVOS) (\<lambda>_.
      act_bind (act_map (read_position S) DXL_SERVOS) (\<lambda>initial_ppr.
      act_bind (write_goal S now initial_ppr) (\<lambda>_.
      act_bind (act_map (enable_torque S) (zip DXL_SERVOS torque_enabled)) (\<lambda>_.
      act_return initial_ppr))))))))))"
    by (intro keeps_goal_bind) (auto intro!: keeps_goal_emits emit_intros
        simp: keeps_goal_def [of "\<lambda>n. (Some (), n\<lparr>sync_write := True\<rparr>)"]
        open_port_attempt_def ping_servo_def check_servo_def read_1byte_def write_1byte_def
        clear_watchdog_def write_gains_def write_2byte_def read_position_def read_4byte_def
        enable_torque_def)
  show ?thesis unfolding initial_setting_def Let_def
    using chain unfolding keeps_goal_def by simp
qed

lemma startup_loop_needs_end:
  "startup_loop S start env n = Some n' \<Longrightarrow>
     \<exists>e\<in>set env. \<not> fst e \<or> fst (snd e) - start \<ge> SERVO_STARTUP_RETURN_TIME_SEC"
proof (induction S start env n rule: startup_loop.induct)
  case (2 S start ok now wnow env n)
  then show ?case by (cases "ok \<and> now - start < SERVO_STARTUP_RETURN_TIME_SEC") (auto simp: Let_def)
qed simp

lemma constructed_inv:
  assumes "Px4ServoToDynamixel S t0 start env final ready w = Some (Inr n0)"
  shows "dxl_inv n0"
proof -
  obtain ppr n1 n2 where s: "initial_setting S t0 (dxl_node_init w) = (Some ppr, n1)"
    and z: "initial_return_to_zero S start env final ppr n1 = Some n2"
    and n0: "servo_lpf n0 = map (\<lambda>_. LPF_reset (LPF_new SERVO_RETURN_TIME_SEC) 0) (servo_lpf n2)"
      "latest_goal_ppr n0 = latest_goal_ppr n2"
    using assms by (auto simp: Px4ServoToDynamixel_def split: prod.splits option.splits)
  have "length ppr = length DXL_SERVOS"
    using initial_setting_ensures(2) [OF s _ refl]
    by (simp add: dxl_node_init_def torque_untouched_def preceded_none)
  moreover have "\<exists>e\<in>set env. \<not> fst e \<or> fst (snd e) - start \<ge> SERVO_STARTUP_RETURN_TIME_SEC"
    using z by (auto simp: initial_return_to_zero_def Let_def split: option.splits
        dest!: startup_loop_needs_end)
  ultimately have "length (servo_lpf n2) = length DXL_SERVOS" "latest_goal_ppr n2 = latest_goal_ppr n1"
    using initial_return_to_zero_ends [of env start ppr S final n1] z by auto
  moreover have "latest_goal_ppr n1 = latest_goal_ppr (dxl_node_init w)"
    using initial_setting_goal [of S t0 "dxl_node_init w"] s by simp
  ultimately show ?thesis using n0 goals_ok_initial by (simp add: dxl_inv_def)
qed

text \<open>C4: A running driver, from its construction and through any sequence of servo messages and
  timer ticks, on any bus: the goal positions it holds are inside the range of each servo, and
  everything it puts on the bus after construction is a neutral call (port, SyncWrite buffer,
  transmission, watchdog clear) or a goal inside the range of the addressed servo; in particular
  it never writes the torque, mode or gain registers.\<close>

theorem servo_runtime_safe:
  assumes "Px4ServoToDynamixel S t0 start env final ready w = Some (Inr n0)" and "dxl_run S n0 n"
  shows "goals_ok (latest_goal_ppr n)
    \<and> (\<exists>cs. bus_trace n = bus_trace n0 @ cs \<and> list_all (runtime_call S) cs)"
  using dxl_run_inv [OF assms(2) constructed_inv [OF assms(1)]] by (simp add: dxl_inv_def)

text \<open>On a healthy bus the driver always comes up: if every transaction succeeds, no hardware
  error is latched and no servo holds torque in another mode, then for any clock readings that
  reach the start-up return time (or a ROS shutdown) the constructor returns a node, with the
  SyncWrite group in place, and does not throw.\<close>

theorem healthy_bus_starts:
  assumes "healthy_bus S"
    and "\<exists>e\<in>set env. \<not> fst e \<or> fst (snd e) - start \<ge> SERVO_STARTUP_RETURN_TIME_SEC"
  shows "\<exists>n0. Px4ServoToDynamixel S t0 start env final ready w = Some (Inr n0)"
proof -
  obtain ppr n1 where s: "initial_setting S t0 (dxl_node_init w) = (Some ppr, n1)"
      "length ppr = length DXL_SERVOS"
    using healthy_bus.initial_setting_works [OF assms(1)] by blast
  obtain n2 where "initial_return_to_zero S start env final ppr n1 = Some n2"
    using initial_return_to_zero_ends [OF assms(2) s(2)] by blast
  with s(1) show ?thesis by (simp add: Px4ServoToDynamixel_def)
qed

theorem healthy_bus_starts_witness:
  "\<exists>n0. Px4ServoToDynamixel quiet_bus 0 0 [(True, 1, 1), (True, 3, 3)] (True, 3) 3 () = Some (Inr n0)"
  using healthy_bus_starts [OF quiet.healthy_bus_axioms, of "[(True, 1, 1), (True, 3, 3)]" 0]
  by (simp add: const_defs)

theorem servo_runtime_safe_witness:
  "\<exists>n0. Px4ServoToDynamixel quiet_bus 0 0 [(False, 0, 0)] (False, 0) 0 () = Some (Inr n0)
     \<and> goals_ok (latest_goal_ppr (timeout_callback quiet_bus \<lparr>tk_now = 1, tk_reopen = 1, tk_rate = 1, tk_log = 1\<rparr> n0))"
proof -
  obtain ppr n1 where s: "initial_setting quiet_bus 0 (dxl_node_init ()) = (Some ppr, n1)"
      "length ppr = length DXL_SERVOS" using quiet.initial_setting_works by blast
  obtain n2 where "initial_return_to_zero quiet_bus 0 [(False, 0, 0)] (False, 0) ppr n1 = Some n2"
    using initial_return_to_zero_ends [of "[(False, 0, 0)]" 0 ppr quiet_bus "(False, 0)" n1] s(2) by auto
  with s(1) obtain n0 where n0: "Px4ServoToDynamixel quiet_bus 0 0 [(False, 0, 0)] (False, 0) 0 () = Some (Inr n0)"
    by (simp add: Px4ServoToDynamixel_def)
  from servo_runtime_safe [OF this dxl_run.tick [OF dxl_run.start]] n0 show ?thesis by blast
qed

subsection \<open>Loss of the servo command stream\<close>

text \<open>A return to neutral that started at \<open>a\<close>, or has been completed.\<close>

definition returning :: "real \<Rightarrow> real \<Rightarrow> 'w dxl_node \<Rightarrow> bool" where
  "returning t0 a n \<longleftrightarrow> dds_received n \<and> have_goal n \<and> last_dds_receive_steady n = t0
     \<and> (if zero_return_complete n then latest_goal_ppr n = map sv_zero_ppr DXL_SERVOS
        else returning_to_zero n \<and> return_start_steady n = a)"

lemma timeout_callback_fields:
  assumes "dds_received n" "have_goal n"
  shows "latest_goal_ppr (timeout_callback S t n) = latest_goal_ppr (tick_target (tk_now t) n)"
    "zero_return_complete (timeout_callback S t n) = zero_return_complete (tick_target (tk_now t) n)"
    "returning_to_zero (timeout_callback S t n) = returning_to_zero (tick_target (tk_now t) n)"
    "return_start_steady (timeout_callback S t n) = return_start_steady (tick_target (tk_now t) n)"
    "last_dds_receive_steady (timeout_callback S t n) = last_dds_receive_steady (tick_target (tk_now t) n)"
    "dds_received (timeout_callback S t n) = dds_received (tick_target (tk_now t) n)"
    "have_goal (timeout_callback S t n) = have_goal (tick_target (tk_now t) n)"
proof -
  obtain m ok where w: "write_goal S (tk_reopen t) (latest_goal_ppr (tick_target (tk_now t) n))
        (tick_target (tk_now t) n) = (ok, m)"
    and r: "timeout_callback S t n = (if ok = None then m else count_write t m)"
    using timeout_callback_active [OF assms] .
  have "bus_step (\<lambda>_. True) (tick_target (tk_now t) n) m"
    using write_goal_step [of "\<lambda>_. True"] w by (metis snd_conv)
  note f = bus_step_fields [OF this]
  show "latest_goal_ppr (timeout_callback S t n) = latest_goal_ppr (tick_target (tk_now t) n)"
    "zero_return_complete (timeout_callback S t n) = zero_return_complete (tick_target (tk_now t) n)"
    "returning_to_zero (timeout_callback S t n) = returning_to_zero (tick_target (tk_now t) n)"
    "return_start_steady (timeout_callback S t n) = return_start_steady (tick_target (tk_now t) n)"
    "last_dds_receive_steady (timeout_callback S t n) = last_dds_receive_steady (tick_target (tk_now t) n)"
    "dds_received (timeout_callback S t n) = dds_received (tick_target (tk_now t) n)"
    "have_goal (timeout_callback S t n) = have_goal (tick_target (tk_now t) n)"
    using r f by simp_all
qed

lemma returning_tick:
  assumes "returning t0 a n" "tk_now t \<ge> t0 + DDS_RECEIVE_TIMEOUT_SEC"
  shows "returning t0 a (timeout_callback S t n)"
    and "tk_now t \<ge> a + SERVO_RETURN_TIME_SEC \<Longrightarrow> zero_return_complete (timeout_callback S t n)"
  using assms unfolding returning_def
  by (simp_all add: timeout_callback_fields tick_target_def return_step_def begin_return_def Let_def
      zero_goals split: if_splits)

lemma returning_fold:
  "returning t0 a n \<Longrightarrow> \<forall>t\<in>set ts. tk_now t \<ge> t0 + DDS_RECEIVE_TIMEOUT_SEC \<Longrightarrow>
     returning t0 a (fold (timeout_callback S) ts n)"
  by (induction ts arbitrary: n) (auto intro: returning_tick)

text \<open>The calls by which a goal is written: the goals of all servos and one packet, or those of the servos before
  the first one for which the library has no room, and no packet.\<close>

definition goal_calls :: "'w dxl_sdk \<Rightarrow> (ServoConfig \<times> int) list \<Rightarrow> bus_call list \<Rightarrow> bool" where
  "goal_calls S goals cs \<longleftrightarrow>
     (\<exists>r rest. (r = COMM_SUCCESS S \<longrightarrow> rest = [])
        \<and> cs = ClearParam # map (\<lambda>(c, g). AddParam (sv_id c) (goal_bytes S g) True) goals @ TxPacket r # ClearParam # rest)
   \<or> (\<exists>c g before after. goals = before @ (c, g) # after
        \<and> cs = ClearParam # map (\<lambda>(c, g). AddParam (sv_id c) (goal_bytes S g) True) before
            @ [AddParam (sv_id c) (goal_bytes S g) False, ClearParam])"

lemma add_params_trace:
  "act_map (add_param S) goals n = (ok, n') \<Longrightarrow>
     (if ok = None
      then \<exists>c g before after. goals = before @ (c, g) # after
        \<and> bus_trace n' = bus_trace n @ map (\<lambda>(c, g). AddParam (sv_id c) (goal_bytes S g) True) before
            @ [AddParam (sv_id c) (goal_bytes S g) False]
      else bus_trace n' = bus_trace n @ map (\<lambda>(c, g). AddParam (sv_id c) (goal_bytes S g) True) goals)"
proof (induction goals arbitrary: n ok n')
  case (Cons p goals)
  obtain c g where p: "p = (c, g)" by fastforce
  obtain b w where w: "sdk_addParam S (sv_id c) (goal_bytes S g) (bus_world n) = (b, w)" by fastforce
  let ?n = "record_call (AddParam (sv_id c) (goal_bytes S g) b) w n"
  have step: "add_param S p n = (if b then Some () else None, ?n)" by (simp add: add_param_def p w Let_def)
  have trace: "bus_trace ?n = bus_trace n @ [AddParam (sv_id c) (goal_bytes S g) b]" by (simp add: record_call_def)
  show ?case
  proof (cases b)
    case False
    with Cons.prems step trace show ?thesis
      by (auto simp: act_bind_def p intro!: exI [of _ c] exI [of _ g] exI [of _ "[] :: (ServoConfig \<times> int) list"])
  next
    case True
    obtain oks m where m: "act_map (add_param S) goals ?n = (oks, m)" by fastforce
    have n': "n' = m" "ok = None \<longleftrightarrow> oks = None"
      using Cons.prems True step m by (auto simp: act_bind_def act_return_def split: option.splits)
    from Cons.IH [OF m] show ?thesis
    proof (cases "oks = None")
      case refused: True
      with Cons.IH [OF m] obtain c' g' before after where "goals = before @ (c', g') # after"
          "bus_trace m = bus_trace ?n @ map (\<lambda>(c, g). AddParam (sv_id c) (goal_bytes S g) True) before
            @ [AddParam (sv_id c') (goal_bytes S g') False]" by auto
      then have "p # goals = ((c, g) # before) @ (c', g') # after"
          "bus_trace n' = bus_trace n @ map (\<lambda>(c, g). AddParam (sv_id c) (goal_bytes S g) True) ((c, g) # before)
            @ [AddParam (sv_id c') (goal_bytes S g') False]"
        using True n'(1) trace p by simp_all
      moreover have "ok = None" using n'(2) refused by simp
      ultimately show ?thesis by (simp only: simp_thms if_True) blast
    next
      case False
      then obtain u v where "oks = Some u" "ok = Some v" using n'(2) by blast
      with Cons.IH [OF m] True n'(1) trace p show ?thesis by simp
    qed
  qed
qed (simp add: act_return_def)

lemma write_goal_calls:
  assumes "sync_write n"
  shows "\<exists>cs. bus_trace (snd (write_goal S now goals n)) = bus_trace n @ cs \<and> goal_calls S (zip DXL_SERVOS goals) cs"
proof -
  obtain ok a where a: "act_map (add_param S) (zip DXL_SERVOS goals) (clear_param S n) = (ok, a)" by fastforce
  have clr: "bus_trace (clear_param S m) = bus_trace m @ [ClearParam]" for m
    by (simp add: clear_param_def record_call_def)
  show ?thesis
  proof (cases "ok = None")
    case True
    with add_params_trace [OF a] obtain c g before after where
      "zip DXL_SERVOS goals = before @ (c, g) # after"
      "bus_trace a = bus_trace n @ ClearParam # map (\<lambda>(c, g). AddParam (sv_id c) (goal_bytes S g) True) before
            @ [AddParam (sv_id c) (goal_bytes S g) False]" by (auto simp: clr)
    moreover have "write_goal S now goals n = (None, clear_param S a)" using assms a True by (simp add: write_goal_def)
    ultimately show ?thesis by (simp add: clr goal_calls_def) blast
  next
    case False
    then obtain u where ok: "ok = Some u" by blast
    let ?calls = "map (\<lambda>(c, g). AddParam (sv_id c) (goal_bytes S g) True) (zip DXL_SERVOS goals)"
    have trace: "bus_trace a = bus_trace n @ ClearParam # ?calls" using add_params_trace [OF a] False by (simp add: clr)
    obtain r w where r: "sdk_txPacket S (bus_world a) = (r, w)" by fastforce
    let ?b = "clear_param S (record_call (TxPacket r) w a)"
    have b: "bus_trace ?b = bus_trace n @ ClearParam # ?calls @ [TxPacket r, ClearParam]"
      by (simp add: clr record_call_def trace)
    obtain rest where rest: "bus_trace (reopen_port_after_failure S now ?b) = bus_trace ?b @ rest"
      using bus_step_trace [OF reopen_step [of "\<lambda>_. True" ?b S now]] by auto
    show ?thesis
    proof (cases "r = COMM_SUCCESS S")
      case True
      with assms a r ok b have "bus_trace (snd (write_goal S now goals n))
          = bus_trace n @ ClearParam # ?calls @ TxPacket r # ClearParam # []" by (simp add: write_goal_def Let_def)
      then show ?thesis unfolding goal_calls_def by blast
    next
      case fail: False
      with assms a r ok b rest have "bus_trace (snd (write_goal S now goals n))
          = bus_trace n @ ClearParam # ?calls @ TxPacket r # ClearParam # rest" by (simp add: write_goal_def Let_def)
      with fail show ?thesis unfolding goal_calls_def by blast
    qed
  qed
qed

lemma timeout_callback_calls:
  assumes "dds_received n" and "have_goal n" and "sync_write n"
  shows "\<exists>cs. bus_trace (timeout_callback S t n) = bus_trace n @ cs
    \<and> goal_calls S (zip DXL_SERVOS (latest_goal_ppr (tick_target (tk_now t) n))) cs"
proof -
  obtain m ok where w: "write_goal S (tk_reopen t) (latest_goal_ppr (tick_target (tk_now t) n))
        (tick_target (tk_now t) n) = (ok, m)"
    and r: "timeout_callback S t n = (if ok = None then m else count_write t m)"
    using timeout_callback_active [OF assms(1,2)] .
  have "sync_write (tick_target (tk_now t) n)" using assms(3)
    by (simp add: tick_target_def return_step_def begin_return_def Let_def)
  moreover have "bus_trace (tick_target (tk_now t) n) = bus_trace n" by (simp add: tick_target_def)
  moreover have "bus_trace (timeout_callback S t n) = bus_trace m" using r by simp
  ultimately show ?thesis
    using write_goal_calls [of "tick_target (tk_now t) n" S "tk_reopen t" "latest_goal_ppr (tick_target (tk_now t) n)"] w by simp
qed

lemma timeout_callback_sync: "sync_write (timeout_callback S t n) = sync_write n"
proof (cases "dds_received n \<and> have_goal n")
  case True
  then obtain m ok where w: "write_goal S (tk_reopen t) (latest_goal_ppr (tick_target (tk_now t) n))
        (tick_target (tk_now t) n) = (ok, m)"
    and r: "timeout_callback S t n = (if ok = None then m else count_write t m)"
    using timeout_callback_active [of n S t] by blast
  have "bus_step (\<lambda>_. True) (tick_target (tk_now t) n) m"
    using write_goal_step [of "\<lambda>_. True"] w by (metis snd_conv)
  from bus_step_fields [OF this] r show ?thesis
    by (simp add: count_write_def tick_target_def return_step_def begin_return_def Let_def)
qed (auto simp: timeout_callback_def)

lemma timeout_fold_sync: "sync_write (fold (timeout_callback S) ts n) = sync_write n"
  by (induction ts arbitrary: n) (simp_all add: timeout_callback_sync)

text \<open>C5: When servo messages stop after an accepted one, the driver returns the servos to neutral: whatever the
  bus does, once the timer has ticked after the receive timeout and again at least the return time later, the
  goal it holds is the neutral position of every servo and the return is marked complete, and that tick (and so
  every later one) writes to the bus: the neutral position of every servo, in the order of the servo table, and
  one packet with all of them, unless the library refuses one of the parameters.  The ticks in between are
  arbitrary, and the port is the one that the initialisation opened (\<open>sync_write\<close>).\<close>

theorem dds_outage_returns_to_zero:
  assumes "list_all isfinite (take (length DXL_SERVOS) (sm_control msg))"
    and "\<forall>t\<in>set (first # ticks @ [last_tick]). tk_now t \<ge> t0 + DDS_RECEIVE_TIMEOUT_SEC"
    and "tk_now last_tick \<ge> tk_now first + SERVO_RETURN_TIME_SEC" and "sync_write n0"
  shows "let before = fold (timeout_callback S) (first # ticks) (dds_callback t0 msg n0); n = timeout_callback S last_tick before
    in zero_return_complete n \<and> latest_goal_ppr n = map sv_zero_ppr DXL_SERVOS
      \<and> (\<exists>cs. bus_trace n = bus_trace before @ cs \<and> goal_calls S (map (\<lambda>c. (c, sv_zero_ppr c)) DXL_SERVOS) cs)"
proof -
  let ?n = "dds_callback t0 msg n0" and ?before = "fold (timeout_callback S) (first # ticks) (dds_callback t0 msg n0)"
  have "dds_received ?n" "have_goal ?n" "last_dds_receive_steady ?n = t0" "\<not> zero_return_complete ?n"
    "\<not> returning_to_zero ?n" using assms(1) by (simp_all add: dds_callback_def Let_def)
  then have "returning t0 (tk_now first) (timeout_callback S first ?n)"
    using assms(2) unfolding returning_def
    by (simp add: timeout_callback_fields tick_target_def return_step_def begin_return_def Let_def
        const_defs)
  then have mid: "returning t0 (tk_now first) ?before"
    using assms(2) returning_fold [of t0 "tk_now first" "timeout_callback S first ?n" ticks S] by simp
  note last = returning_tick [OF mid, of last_tick S] assms(2,3)
  then have neutral: "zero_return_complete (timeout_callback S last_tick ?before)"
    "latest_goal_ppr (timeout_callback S last_tick ?before) = map sv_zero_ppr DXL_SERVOS"
    by (simp_all add: returning_def)
  have active: "dds_received ?before" "have_goal ?before" using mid by (simp_all add: returning_def)
  have "sync_write ?before" using assms(4) by (simp only: timeout_fold_sync) (simp add: dds_callback_def Let_def)
  from timeout_callback_calls [OF active this, of S last_tick] obtain cs where
    "bus_trace (timeout_callback S last_tick ?before) = bus_trace ?before @ cs"
    "goal_calls S (zip DXL_SERVOS (map sv_zero_ppr DXL_SERVOS)) cs"
    using timeout_callback_fields(1) [OF active, of S last_tick] neutral(2) by auto
  moreover have "zip xs (map f xs) = map (\<lambda>x. (x, f x)) xs" for f :: "ServoConfig \<Rightarrow> int" and xs
    by (induction xs) simp_all
  ultimately have "\<exists>cs. bus_trace (timeout_callback S last_tick ?before) = bus_trace ?before @ cs
      \<and> goal_calls S (map (\<lambda>c. (c, sv_zero_ppr c)) DXL_SERVOS) cs" by (simp only:) blast
  with neutral show ?thesis unfolding Let_def by (intro conjI)
qed

theorem dds_outage_returns_to_zero_witness:
  "let before = timeout_callback quiet_bus \<lparr>tk_now = 1, tk_reopen = 1, tk_rate = 1, tk_log = 1\<rparr>
        (dds_callback 0 \<lparr>sm_timestamp = 5, sm_control = replicate 8 (Fin 1)\<rparr> ((dxl_node_init ())\<lparr>sync_write := True\<rparr>));
      n = timeout_callback quiet_bus \<lparr>tk_now = 7, tk_reopen = 7, tk_rate = 7, tk_log = 7\<rparr> before
   in \<exists>cs. bus_trace n = bus_trace before @ cs \<and> goal_calls quiet_bus (map (\<lambda>c. (c, sv_zero_ppr c)) DXL_SERVOS) cs"
  using dds_outage_returns_to_zero [of "\<lparr>sm_timestamp = 5, sm_control = replicate 8 (Fin 1)\<rparr>"
      "\<lparr>tk_now = 1, tk_reopen = 1, tk_rate = 1, tk_log = 1\<rparr>" "[]"
      "\<lparr>tk_now = 7, tk_reopen = 7, tk_rate = 7, tk_log = 7\<rparr>" 0 "(dxl_node_init ())\<lparr>sync_write := True\<rparr>" quiet_bus]
  by (simp add: const_defs numeral_eq_Suc Let_def)

subsection \<open>Wire format of a goal\<close>

unbundle bit_operations_syntax

text \<open>The byte and word macros of the SDK header.\<close>

locale dxl_macros =
  fixes S :: "'w dxl_sdk"
  assumes lobyte: "DXL_LOBYTE S h = ucast h"
    and hibyte: "DXL_HIBYTE S h = ucast (drop_bit 8 h)"
    and loword: "DXL_LOWORD S v = ucast v"
    and hiword: "DXL_HIWORD S v = ucast (drop_bit 16 v)"
begin

lemma reassemble:
  "(ucast (DXL_LOBYTE S (DXL_LOWORD S v)) + push_bit 8 (ucast (DXL_HIBYTE S (DXL_LOWORD S v)))
    + push_bit 16 (ucast (DXL_LOBYTE S (DXL_HIWORD S v)))
    + push_bit 24 (ucast (DXL_HIBYTE S (DXL_HIWORD S v))) :: u32) = v"
proof -
  have "(ucast (ucast (ucast v :: u16) :: u8) :: u32) = take_bit 8 v"
    by (rule bit_eqI) (auto simp: bit_simps)
  moreover have "(ucast (ucast (drop_bit 8 (ucast v :: u16)) :: u8) :: u32) = take_bit 8 (drop_bit 8 v)"
    by (rule bit_eqI) (auto simp: bit_simps)
  moreover have "(ucast (ucast (ucast (drop_bit 16 v) :: u16) :: u8) :: u32) = take_bit 8 (drop_bit 16 v)"
    by (rule bit_eqI) (auto simp: bit_simps)
  moreover have "(ucast (ucast (drop_bit 8 (ucast (drop_bit 16 v) :: u16)) :: u8) :: u32) = drop_bit 24 v"
    by (rule bit_eqI) (auto simp: bit_simps dest: bit_imp_le_length)
  moreover have "take_bit 8 v + push_bit 8 (take_bit 8 (drop_bit 8 v)) = take_bit 16 v"
    by (subst disjunctive_add) (auto simp: bit_simps intro!: bit_eqI)
  moreover have "push_bit 16 (take_bit 8 (drop_bit 16 v)) + push_bit 24 (drop_bit 24 v) = push_bit 16 (drop_bit 16 v)"
  proof (subst disjunctive_add)
    fix n
    show "push_bit 16 (take_bit 8 (drop_bit 16 v)) OR push_bit 24 (drop_bit 24 v) = push_bit 16 (drop_bit 16 v)"
    proof (rule bit_eqI)
      fix k
      show "bit (push_bit 16 (take_bit 8 (drop_bit 16 v)) OR push_bit 24 (drop_bit 24 v)) k
          = bit (push_bit 16 (drop_bit 16 v)) k"
        by (cases "k < 24") (auto simp: bit_simps not_less less_diff_conv2)
    qed
  qed (auto simp: bit_simps)
  moreover have "take_bit 16 v + push_bit 16 (drop_bit 16 v) = v" by (metis bits_ident add.commute)
  ultimately show ?thesis by (simp add: lobyte hibyte loword hiword add.assoc [symmetric]) (metis add.assoc)
qed

end

interpretation quiet_macros: dxl_macros quiet_bus
  by unfold_locales (simp_all add: quiet_bus_def)

text \<open>How a servo reads the four bytes of a goal.\<close>

fun decode_goal :: "u8 list \<Rightarrow> int" where
  "decode_goal [b0, b1, b2, b3] =
     sint (ucast b0 + push_bit 8 (ucast b1) + push_bit 16 (ucast b2) + push_bit 24 (ucast b3) :: u32)"
| "decode_goal _ = 0"

text \<open>The four bytes \<open>write_goal\<close> sends are the little-endian two's complement encoding of the
  goal: any 32-bit goal, in particular every goal in the servo range, is read back unchanged.\<close>

theorem goal_bytes_roundtrip:
  assumes "dxl_macros S" and "- (2 ^ 31) \<le> goal" "goal < 2 ^ 31"
  shows "decode_goal (goal_bytes S goal) = goal"
proof -
  have "decode_goal (goal_bytes S goal) = sint (of_int goal :: u32)"
    by (simp only: goal_bytes_def Let_def decode_goal.simps dxl_macros.reassemble [OF assms(1)])
  also have "\<dots> = to_int32 goal" by (simp only: to_int32_def)
  also have "\<dots> = goal" using assms(2,3) by (rule to_int32_small)
  finally show ?thesis .
qed

theorem goal_bytes_roundtrip_witness: "decode_goal (goal_bytes quiet_bus (- 3)) = - 3"
  by (rule goal_bytes_roundtrip [OF quiet_macros.dxl_macros_axioms]) simp_all

end
