(* ===== verification/Servo_Gz.thy ===== *)
theory Servo_Gz
  imports Flight_Utils
begin

text \<open>
  The Gazebo servo bridge, \<open>src/src/px4_hummingbird_cmd/src/px4_servo_to_gz.cpp\<close>. A publication is
  a pair of topic and value; which Gazebo publishers are valid is an argument, as are the clock
  readings and the values of the two ROS parameters.
\<close>

subsection \<open>State and operations\<close>

record gz_node =
  gz_wobble_deg :: real
  gz_wobble_hz :: real
  gz_wobble_start_time :: real
  gz_servo_lpf :: "LPF list"
  gz_last_actuator_msg_time :: real
  gz_return_start_time :: real
  gz_returning_to_zero :: bool

type_synonym gz_publication = "string \<times> real"

definition gz_topic :: "nat \<Rightarrow> string" where
  "gz_topic i = ''/model/hummingbird_0/'' @ SERVO_TOPICS ! i"

text \<open>The loop bodies' \<open>if (!servo_pubs_[i].Valid()) continue;\<close> before a publication.\<close>

definition publish_all :: "(nat \<Rightarrow> bool) \<Rightarrow> real list \<Rightarrow> gz_publication list" where
  "publish_all valid commands =
     map (\<lambda>i. (gz_topic i, commands ! i)) (filter valid [0..<length SERVO_TOPICS])"

definition Px4ServoToGz :: "(nat \<Rightarrow> bool) \<Rightarrow> real \<Rightarrow> real \<Rightarrow> real \<Rightarrow> real \<Rightarrow> real
    \<Rightarrow> gz_node \<times> gz_publication list" where
  "Px4ServoToGz valid wobble_deg wobble_hz t_wobble t_msg t_return =
     (\<lparr>gz_wobble_deg = clamp wobble_deg 0 SERVO_WOBBLE_MAX_DEG, gz_wobble_hz = max wobble_hz 0,
       gz_wobble_start_time = t_wobble,
       gz_servo_lpf = map (\<lambda>_. LPF_reset (LPF_new SERVO_RETURN_TIME_SEC) 0) SERVO_TOPICS,
       gz_last_actuator_msg_time = t_msg, gz_return_start_time = t_return,
       gz_returning_to_zero = False\<rparr>,
      publish_all valid (map (\<lambda>_. 0) SERVO_TOPICS))"

definition gz_begin_return :: "real \<Rightarrow> gz_node \<Rightarrow> gz_node" where
  "gz_begin_return now g =
     (if gz_returning_to_zero g then g
      else g\<lparr>gz_returning_to_zero := True, gz_return_start_time := now\<rparr>)"

definition gz_publish_timer :: "(nat \<Rightarrow> bool) \<Rightarrow> real \<Rightarrow> gz_node \<Rightarrow> gz_node \<times> gz_publication list" where
  "gz_publish_timer valid now g0 =
     (if now - gz_last_actuator_msg_time g0 < DDS_RECEIVE_TIMEOUT_SEC
      then (g0\<lparr>gz_returning_to_zero := False\<rparr>, [])
      else let g = gz_begin_return now g0;
               return_finished = (now - gz_return_start_time g \<ge> SERVO_RETURN_TIME_SEC);
               updated = map (\<lambda>f. LPF_update f 0) (gz_servo_lpf g)
           in if return_finished
              then (g\<lparr>gz_servo_lpf := map (\<lambda>u. LPF_reset (snd u) 0) updated\<rparr>,
                    publish_all valid (map (\<lambda>_. 0) updated))
              else (g\<lparr>gz_servo_lpf := map snd updated\<rparr>, publish_all valid (map fst updated)))"

definition gz_command :: "gz_node \<Rightarrow> real \<Rightarrow> xdouble list \<Rightarrow> nat \<Rightarrow> real" where
  "gz_command g wobble_phase control i =
     (let control_index = SERVO_CONTROL_INDEX ! i;
          c = control ! control_index;
          normalized = (if isfinite c then clamp (finite_part c) (- 1) 1 else 0);
          command = normalized * SERVO_LIMIT_RAD ! i
      in if gz_wobble_deg g > 0
         then clamp (command + gz_wobble_deg g * pi / 180
                * sin (wobble_phase + SERVO_WOBBLE_PHASE_RAD ! control_index))
                (- (SERVO_LIMIT_RAD ! i)) (SERVO_LIMIT_RAD ! i)
         else command)"

definition actuatorServosCallback :: "(nat \<Rightarrow> bool) \<Rightarrow> real \<Rightarrow> xdouble list \<Rightarrow> gz_node
    \<Rightarrow> gz_node \<times> gz_publication list" where
  "actuatorServosCallback valid now control g =
     (let wobble_phase = (if gz_wobble_deg g > 0
            then 2 * pi * gz_wobble_hz g * (now - gz_wobble_start_time g) else 0);
          commands = map (gz_command g wobble_phase control) [0..<length SERVO_TOPICS]
      in (g\<lparr>gz_last_actuator_msg_time := now, gz_returning_to_zero := False,
            gz_servo_lpf := map2 LPF_reset (gz_servo_lpf g) commands\<rparr>,
          publish_all valid commands))"

definition gz_destructor :: "(nat \<Rightarrow> bool) \<Rightarrow> gz_publication list" where
  "gz_destructor valid = concat (replicate 5 (publish_all valid (map (\<lambda>_. 0) SERVO_TOPICS)))"

subsection \<open>Running the bridge\<close>

inductive gz_run :: "(nat \<Rightarrow> bool) \<Rightarrow> gz_node \<Rightarrow> gz_publication list \<Rightarrow> bool" for valid where
  start: "Px4ServoToGz valid deg hz t1 t2 t3 = (g, out) \<Longrightarrow> gz_run valid g out"
| servos: "gz_run valid g out \<Longrightarrow> actuatorServosCallback valid now control g = (g', new)
    \<Longrightarrow> gz_run valid g' (out @ new)"
| timer: "gz_run valid g out \<Longrightarrow> gz_publish_timer valid now g = (g', new)
    \<Longrightarrow> gz_run valid g' (out @ new)"

text \<open>Every publication goes to a joint topic with a value inside the limit of that joint.\<close>

definition in_limit :: "gz_publication \<Rightarrow> bool" where
  "in_limit p \<longleftrightarrow> (\<exists>i<length SERVO_TOPICS. fst p = gz_topic i \<and> \<bar>snd p\<bar> \<le> SERVO_LIMIT_RAD ! i)"

definition gz_inv :: "gz_node \<Rightarrow> bool" where
  "gz_inv g \<longleftrightarrow> length (gz_servo_lpf g) = length SERVO_TOPICS
     \<and> (\<forall>i<length SERVO_TOPICS. LPF_ok (gz_servo_lpf g ! i)
          \<and> \<bar>lpf_y (gz_servo_lpf g ! i)\<bar> \<le> SERVO_LIMIT_RAD ! i)"

lemma limit_pos: "i < length SERVO_TOPICS \<Longrightarrow> 0 < SERVO_LIMIT_RAD ! i"
  by (simp add: SERVO_LIMIT_RAD_pos)

lemma publish_all_in_limit:
  "(\<And>i. i < length SERVO_TOPICS \<Longrightarrow> \<bar>cs ! i\<bar> \<le> SERVO_LIMIT_RAD ! i) \<Longrightarrow> list_all in_limit (publish_all valid cs)"
  by (auto simp: publish_all_def in_limit_def list_all_iff simp del: length_SERVO_tables)

lemma gz_command_bound:
  assumes "i < length SERVO_TOPICS"
  shows "\<bar>gz_command g ph control i\<bar> \<le> SERVO_LIMIT_RAD ! i"
proof -
  let ?c = "control ! (SERVO_CONTROL_INDEX ! i)" and ?l = "SERVO_LIMIT_RAD ! i"
  have l: "0 < ?l" by (rule limit_pos [OF assms])
  define n where "n = (if isfinite ?c then clamp (finite_part ?c) (- 1) 1 else 0)"
  have "\<bar>n\<bar> \<le> 1" using clamp_bounds [of "- 1" 1 "finite_part ?c"] by (auto simp: n_def)
  then have "\<bar>n * ?l\<bar> \<le> ?l" using l mult_right_mono [of "\<bar>n\<bar>" 1 ?l] by (simp add: abs_mult)
  moreover have "\<bar>clamp x (- ?l) ?l\<bar> \<le> ?l" for x
    using clamp_bounds [of "- ?l" ?l x] l by (simp add: abs_le_iff)
  ultimately show ?thesis by (simp add: gz_command_def Let_def flip: n_def)
qed

lemma Px4ServoToGz_inv:
  assumes "Px4ServoToGz valid deg hz t1 t2 t3 = (g, out)"
  shows "gz_inv g \<and> list_all in_limit out"
proof
  show "gz_inv g" using assms limit_pos
    by (auto simp: Px4ServoToGz_def gz_inv_def less_imp_le)
  show "list_all in_limit out" using assms limit_pos
    by (auto simp: Px4ServoToGz_def less_imp_le intro!: publish_all_in_limit)
qed

lemma actuatorServosCallback_inv:
  assumes "gz_inv g" "actuatorServosCallback valid now control g = (g', out)"
  shows "gz_inv g' \<and> list_all in_limit out"
proof
  show "gz_inv g'" using assms gz_command_bound
    by (auto simp: actuatorServosCallback_def gz_inv_def Let_def lpf.invar_reset)
  show "list_all in_limit out" using assms gz_command_bound
    by (auto simp: actuatorServosCallback_def Let_def intro!: publish_all_in_limit)
qed

lemma LPF_update_zero_bound:
  assumes "LPF_ok f" "\<bar>lpf_y f\<bar> \<le> l"
  shows "LPF_ok (snd (LPF_update f 0))" "\<bar>fst (LPF_update f 0)\<bar> \<le> l" "\<bar>lpf_y (snd (LPF_update f 0))\<bar> \<le> l"
proof -
  have "- l \<le> fst (LPF_update f 0) \<and> fst (LPF_update f 0) \<le> l"
    using assms by (intro lpf.upd_within) auto
  then show "\<bar>fst (LPF_update f 0)\<bar> \<le> l" by (simp add: abs_le_iff)
  then show "\<bar>lpf_y (snd (LPF_update f 0))\<bar> \<le> l" by (simp add: lpf.upd_out [OF assms(1), symmetric])
  show "LPF_ok (snd (LPF_update f 0))" by (rule lpf.invar_upd [OF assms(1)])
qed

lemma gz_begin_return_inv [simp]:
  "gz_inv (gz_begin_return now g) = gz_inv g"
  "gz_servo_lpf (gz_begin_return now g) = gz_servo_lpf g"
  "gz_returning_to_zero (gz_begin_return now g)"
  "gz_last_actuator_msg_time (gz_begin_return now g) = gz_last_actuator_msg_time g"
  by (simp_all add: gz_begin_return_def gz_inv_def)

lemma gz_publish_timer_inv:
  assumes "gz_inv g" "gz_publish_timer valid now g = (g', out)"
  shows "gz_inv g' \<and> list_all in_limit out"
proof -
  have len: "length (gz_servo_lpf g) = length SERVO_TOPICS"
    and f: "\<And>i. i < length SERVO_TOPICS \<Longrightarrow> LPF_ok (gz_servo_lpf g ! i) \<and> \<bar>lpf_y (gz_servo_lpf g ! i)\<bar> \<le> SERVO_LIMIT_RAD ! i"
    using assms(1) by (auto simp: gz_inv_def)
  have "list_all in_limit (publish_all valid (map fst (map (\<lambda>f. LPF_update f 0) (gz_servo_lpf g))))"
    using f len by (intro publish_all_in_limit) (auto intro: LPF_update_zero_bound(2))
  moreover have "list_all in_limit (publish_all valid (map (\<lambda>_. 0) (map (\<lambda>f. LPF_update f 0) (gz_servo_lpf g))))"
    using limit_pos len by (intro publish_all_in_limit) (auto simp: less_imp_le)
  moreover have "gz_inv (g\<lparr>gz_returning_to_zero := r\<rparr>)" for r using assms(1) by (simp add: gz_inv_def)
  moreover have "gz_inv ((gz_begin_return now g)\<lparr>gz_servo_lpf := map snd (map (\<lambda>f. LPF_update f 0) (gz_servo_lpf g))\<rparr>)"
    using f len by (auto simp: gz_inv_def intro: LPF_update_zero_bound)
  moreover have "gz_inv ((gz_begin_return now g)\<lparr>gz_servo_lpf :=
      map (\<lambda>u. LPF_reset (snd u) 0) (map (\<lambda>f. LPF_update f 0) (gz_servo_lpf g))\<rparr>)"
    using f len limit_pos by (auto simp: gz_inv_def less_imp_le simp: lpf.invar_reset lpf.invar_upd)
  ultimately show ?thesis using assms(2)
    by (auto simp: gz_publish_timer_def Let_def split: if_splits)
qed

text \<open>C36: Whatever messages (non-finite values included), parameters and clock readings the bridge
  sees, every value it ever publishes is inside the limit of the joint it is published to: the
  wobble and the low-pass return to neutral never leave the joint's range.\<close>

theorem gz_commands_in_limit:
  assumes "gz_run valid g out"
  shows "list_all in_limit out"
proof -
  have "gz_inv g \<and> list_all in_limit out"
    using assms
    by induction (auto dest: Px4ServoToGz_inv actuatorServosCallback_inv gz_publish_timer_inv)
  then show ?thesis by blast
qed

theorem gz_commands_in_limit_witness:
  "list_all in_limit (snd (Px4ServoToGz (\<lambda>_. True) 9 13 0 0 0)
     @ snd (actuatorServosCallback (\<lambda>_. True) 1 (replicate 8 NaN) (fst (Px4ServoToGz (\<lambda>_. True) 9 13 0 0 0))))"
  by (rule gz_commands_in_limit, rule gz_run.servos [OF gz_run.start]) (auto simp: prod_eq_iff)

text \<open>When actuator messages stop, the bridge returns the joints to zero: after a timer tick
  past the receive timeout and a later one at least the return time after it, whatever ticks come
  between them, the last tick publishes 0 on every valid joint topic.\<close>

theorem gz_returns_to_zero:
  assumes "actuatorServosCallback valid0 t0 control g0 = (g, out)"
    and "\<forall>t\<in>set (first # ticks @ [final]). t \<ge> t0 + DDS_RECEIVE_TIMEOUT_SEC"
    and "final \<ge> first + SERVO_RETURN_TIME_SEC"
    and "length (gz_servo_lpf g0) = length SERVO_TOPICS"
  shows "snd (gz_publish_timer valid final
           (fold (\<lambda>t g. fst (gz_publish_timer valid t g)) (first # ticks) g))
     = publish_all valid (map (\<lambda>_. 0) SERVO_TOPICS)"
proof -
  define ok where "ok = (\<lambda>h :: gz_node. gz_last_actuator_msg_time h = t0 \<and> gz_returning_to_zero h
     \<and> gz_return_start_time h = first \<and> length (gz_servo_lpf h) = length SERVO_TOPICS)"
  have "gz_last_actuator_msg_time g = t0" "\<not> gz_returning_to_zero g"
      "length (gz_servo_lpf g) = length SERVO_TOPICS"
    using assms(1,4) by (auto simp: actuatorServosCallback_def Let_def)
  then have one: "ok (fst (gz_publish_timer valid first g))"
    using assms(2) by (simp add: ok_def gz_publish_timer_def gz_begin_return_def Let_def)
  have step: "ok h \<Longrightarrow> t \<ge> t0 + DDS_RECEIVE_TIMEOUT_SEC \<Longrightarrow> ok (fst (gz_publish_timer valid t h))" for h t
    by (simp add: ok_def gz_publish_timer_def gz_begin_return_def Let_def)
  have "ok h \<Longrightarrow> \<forall>t\<in>set ts. t \<ge> t0 + DDS_RECEIVE_TIMEOUT_SEC \<Longrightarrow>
      ok (fold (\<lambda>t g. fst (gz_publish_timer valid t g)) ts h)" for ts h
    by (induction ts arbitrary: h) (auto intro: step)
  with one assms(2) have "ok (fold (\<lambda>t g. fst (gz_publish_timer valid t g)) (first # ticks) g)" by simp
  then show ?thesis using assms(2,3)
    by (simp add: ok_def gz_publish_timer_def gz_begin_return_def Let_def map_replicate_const del: fold.simps)
qed

theorem gz_returns_to_zero_witness:
  "snd (gz_publish_timer (\<lambda>_. True) 7
      (fold (\<lambda>t g. fst (gz_publish_timer (\<lambda>_. True) t g)) [1]
        (fst (actuatorServosCallback (\<lambda>_. True) 0 (replicate 8 (Fin 1)) (fst (Px4ServoToGz (\<lambda>_. True) 0 0 0 0 0))))))
   = publish_all (\<lambda>_. True) (map (\<lambda>_. 0) SERVO_TOPICS)"
proof (rule gz_returns_to_zero [where ticks = "[]" and ?t0.0 = 0])
  let ?g = "fst (Px4ServoToGz (\<lambda>_. True) 0 0 0 0 0)"
  show "actuatorServosCallback (\<lambda>_. True) 0 (replicate 8 (Fin 1)) ?g
      = (fst (actuatorServosCallback (\<lambda>_. True) 0 (replicate 8 (Fin 1)) ?g),
         snd (actuatorServosCallback (\<lambda>_. True) 0 (replicate 8 (Fin 1)) ?g))" by simp
qed (simp_all add: const_defs Px4ServoToGz_def)

end
