(* ===== verification/Mocap.thy ===== *)
theory Mocap
  imports Flight_Utils "HOL-Library.Sublist"
begin

text \<open>
  The motion-capture bridge: the frame conversion of
  \<open>src/src/px4_hummingbird_opti/include/utils.hpp\<close> and the node of \<open>src/mocap_to_px4.cpp\<close>. Norms,
  normalisation and the matrix-to-quaternion conversion are Eigen's (the record \<open>eigen\<close>); matrix
  and vector arithmetic is written out. The message constants are those of \<open>px4_msgs\<close>.
\<close>

subsection \<open>Frame conversion\<close>

fun mat_mul :: "mat3 \<Rightarrow> mat3 \<Rightarrow> mat3" where
  "mat_mul ((a, b, c), (d, e, f), (g, h, i)) ((a', b', c'), (d', e', f'), (g', h', i')) =
     ((a * a' + b * d' + c * g', a * b' + b * e' + c * h', a * c' + b * f' + c * i'),
      (d * a' + e * d' + f * g', d * b' + e * e' + f * h', d * c' + e * f' + f * i'),
      (g * a' + h * d' + i * g', g * b' + h * e' + i * h', g * c' + h * f' + i * i'))"

fun mat_vec :: "mat3 \<Rightarrow> vec3 \<Rightarrow> vec3" where
  "mat_vec ((a, b, c), (d, e, f), (g, h, i)) (x, y, z) =
     (a * x + b * y + c * z, d * x + e * y + f * z, g * x + h * y + i * z)"

definition mat_identity :: mat3 where
  "mat_identity = ((1, 0, 0), (0, 1, 0), (0, 0, 1))"

fun rot_matrix :: "quat \<Rightarrow> mat3" where
  "rot_matrix (w, x, y, z) =
     ((1 - 2 * (y * y + z * z), 2 * (x * y - w * z), 2 * (x * z + w * y)),
      (2 * (x * y + w * z), 1 - 2 * (x * x + z * z), 2 * (y * z - w * x)),
      (2 * (x * z - w * y), 2 * (y * z + w * x), 1 - 2 * (x * x + y * y)))"

definition quatToRot :: "eigen \<Rightarrow> quat \<Rightarrow> mat3" where
  "quatToRot E q_in = (let n = e_norm4 E q_in in
     if n < 1 / 10 ^ 9 then mat_identity
     else case q_in of (w, x, y, z) \<Rightarrow> rot_matrix (w / n, x / n, y / n, z / n))"

definition rotToQuat :: "eigen \<Rightarrow> mat3 \<Rightarrow> quat" where
  "rotToQuat E R = (let q = e_quat_of_rot E R in
     if e_norm4 E q < 1 / 10 ^ 9 then (1, 0, 0, 0) else e_normalized E q)"

record Px4Pose =
  pp_pos :: vec3
  pp_att :: quat

definition R_down :: mat3 where
  "R_down = ((1, 0, 0), (0, - 1, 0), (0, 0, - 1))"

fun vec_minus :: "vec3 \<Rightarrow> vec3 \<Rightarrow> vec3" where
  "vec_minus (x, y, z) (x', y', z') = (x - x', y - y', z - z')"

definition mocapPoseToPx4 :: "eigen \<Rightarrow> vec3 \<Rightarrow> quat \<Rightarrow> vec3 \<Rightarrow> Px4Pose" where
  "mocapPoseToPx4 E opti_pos opti_att opti_origin =
     \<lparr>pp_pos = mat_vec R_down (vec_minus opti_pos opti_origin),
      pp_att = rotToQuat E (mat_mul (mat_mul R_down (quatToRot E opti_att)) R_down)\<rparr>"

subsection \<open>The node\<close>

record odom_consts =
  POSE_FRAME_NED :: u8
  VELOCITY_FRAME_BODY_FRD :: u8

record VehicleOdometry =
  od_timestamp :: u64
  od_timestamp_sample :: u64
  od_pose_frame :: u8
  od_position :: vec3
  od_q :: quat
  od_velocity_frame :: u8
  od_velocity :: "xdouble list"
  od_angular_velocity :: "xdouble list"
  od_position_variance :: vec3
  od_orientation_variance :: vec3
  od_velocity_variance :: vec3
  od_reset_counter :: u8
  od_quality :: "8 word"

text \<open>\<open>geometry_msgs::PoseStamped\<close>; the stamp in nanoseconds (\<open>rclcpp::Time\<close> refuses negative ones).\<close>

record PoseStamped =
  ps_frame_id :: string
  ps_stamp_ns :: nat
  ps_position :: "xdouble \<times> xdouble \<times> xdouble"
  ps_orientation :: "xdouble \<times> xdouble \<times> xdouble \<times> xdouble"

record mocap_node =
  pending_odom :: "VehicleOdometry option"
  max_sample_age_sec :: real
  node_start_steady :: real
  last_input_steady :: real
  has_input :: bool
  input_missing :: bool
  position_variance :: real
  orientation_variance :: real
  mocap_quality :: int
  position_scale :: real
  target_body_name :: string
  opti_origin :: vec3

record mocap_params =
  mp_target_body_name :: string
  mp_position_scale :: real
  mp_opti_origin :: "real list"
  mp_position_stddev :: real
  mp_orientation_stddev_deg :: real
  mp_quality :: int
  mp_output_rate_hz :: real
  mp_max_sample_age_sec :: real

datatype mocap_error = Invalid_mocap_output_timing

definition MocapToPx4 :: "mocap_params \<Rightarrow> real \<Rightarrow> mocap_error + mocap_node" where
  "MocapToPx4 p now =
     (let origin = (case mp_opti_origin p of [x, y, z] \<Rightarrow> (x, y, z) | _ \<Rightarrow> (0, 0, 0));
          orientation_stddev_rad = mp_orientation_stddev_deg p * pi / 180
      in if mp_output_rate_hz p \<le> 0 \<or> mp_max_sample_age_sec p \<le> 0
         then Inl Invalid_mocap_output_timing
         else Inr \<lparr>pending_odom = None, max_sample_age_sec = mp_max_sample_age_sec p,
            node_start_steady = now, last_input_steady = 0, has_input = False, input_missing = False,
            position_variance = mp_position_stddev p * mp_position_stddev p,
            orientation_variance = orientation_stddev_rad * orientation_stddev_rad,
            mocap_quality = mp_quality p, position_scale = mp_position_scale p,
            target_body_name = mp_target_body_name p, opti_origin = origin\<rparr>)"

text \<open>Scaling by a finite factor keeps a finite coordinate finite and a non-finite one non-finite.\<close>

fun scaled_position :: "real \<Rightarrow> xdouble \<times> xdouble \<times> xdouble \<Rightarrow> vec3 option" where
  "scaled_position k (Fin x, Fin y, Fin z) = Some (k * x, k * y, k * z)"
| "scaled_position k _ = None"

fun finite_quat :: "xdouble \<times> xdouble \<times> xdouble \<times> xdouble \<Rightarrow> quat option" where
  "finite_quat (Fin w, Fin x, Fin y, Fin z) = Some (w, x, y, z)"
| "finite_quat _ = None"

definition mocap_note_input :: "real \<Rightarrow> mocap_node \<Rightarrow> mocap_node" where
  "mocap_note_input receive_steady n =
     (let n1 = (if has_input n then if input_missing n then n\<lparr>input_missing := False\<rparr> else n
                else n\<lparr>input_missing := False\<rparr>)
      in n1\<lparr>has_input := True, last_input_steady := receive_steady\<rparr>)"

definition mocap_odom :: "eigen \<Rightarrow> odom_consts \<Rightarrow> mocap_node \<Rightarrow> nat \<Rightarrow> vec3 \<Rightarrow> quat \<Rightarrow> VehicleOdometry" where
  "mocap_odom E C n measurement_ns opti_pos opti_att =
     (let pose_px4 = mocapPoseToPx4 E opti_pos opti_att (opti_origin n);
          pv = position_variance n; ov = orientation_variance n
      in \<lparr>od_timestamp = 0, od_timestamp_sample = of_nat (measurement_ns div 1000),
          od_pose_frame = POSE_FRAME_NED C, od_position = pp_pos pose_px4, od_q = pp_att pose_px4,
          od_velocity_frame = VELOCITY_FRAME_BODY_FRD C,
          od_velocity = [NaN, NaN, NaN], od_angular_velocity = [NaN, NaN, NaN],
          od_position_variance = (pv, pv, pv), od_orientation_variance = (ov, ov, ov),
          od_velocity_variance = (10 ^ 6, 10 ^ 6, 10 ^ 6), od_reset_counter = 0,
          od_quality = of_int (mocap_quality n)\<rparr>)"

text \<open>The second component is what is published on the raw topic.\<close>

definition onMocap :: "eigen \<Rightarrow> odom_consts \<Rightarrow> real \<Rightarrow> nat \<Rightarrow> PoseStamped \<Rightarrow> mocap_node
    \<Rightarrow> mocap_node \<times> PoseStamped option" where
  "onMocap E C receive_steady now_ns msg n0 =
     (if target_body_name n0 \<noteq> [] \<and> ps_frame_id msg \<noteq> target_body_name n0 then (n0, None)
      else let n = mocap_note_input receive_steady n0;
               sample = ps_stamp_ns msg;
               measurement_ns = (if sample > 0 \<and> sample \<le> now_ns then sample else now_ns)
           in case (scaled_position (position_scale n) (ps_position msg), finite_quat (ps_orientation msg)) of
                (Some opti_pos, Some opti_att) \<Rightarrow>
                  if e_norm4 E opti_att < 1 / 10 ^ 6 then (n, None)
                  else (n\<lparr>pending_odom := Some (mocap_odom E C n measurement_ns opti_pos opti_att)\<rparr>,
                        Some (case opti_pos of (x, y, z) \<Rightarrow> msg\<lparr>ps_position := (Fin x, Fin y, Fin z)\<rparr>))
              | _ \<Rightarrow> (n, None))"

definition watch_input :: "real \<Rightarrow> mocap_node \<Rightarrow> mocap_node" where
  "watch_input steady n =
     (if steady - (if has_input n then last_input_steady n else node_start_steady n) \<ge> 2 / 10
         \<and> \<not> input_missing n
      then n\<lparr>input_missing := True\<rparr> else n)"

definition sample_age_sec :: "nat \<Rightarrow> VehicleOdometry \<Rightarrow> real" where
  "sample_age_sec now_ns od =
     (of_nat now_ns - of_int (sint (od_timestamp_sample od * 1000))) / 10 ^ 9"

definition publishPx4 :: "real \<Rightarrow> nat \<Rightarrow> mocap_node \<Rightarrow> mocap_node \<times> VehicleOdometry option" where
  "publishPx4 steady now_ns n0 =
     (let n = watch_input steady n0
      in case pending_odom n of
           None \<Rightarrow> (n, None)
         | Some od \<Rightarrow>
             (n\<lparr>pending_odom := None\<rparr>,
              if 0 \<le> sample_age_sec now_ns od \<and> sample_age_sec now_ns od \<le> max_sample_age_sec n
              then Some (od\<lparr>od_timestamp := of_nat (now_ns div 1000)\<rparr>) else None))"

subsection \<open>Eigen's rotation to quaternion conversion\<close>

locale eigen_geometry = eigen_lib +
  assumes quat_of_rot: "sq_norm4 q = 1 \<Longrightarrow> e_quat_of_rot E (rot_matrix q) \<in> {q, scale4 (- 1) q}"
begin

lemma scale4_minus_norm [simp]: "sq_norm4 (scale4 (- 1) q) = sq_norm4 q"
  by (cases q) simp

lemma rotToQuat_rot_matrix:
  assumes "sq_norm4 q = 1"
  shows "rotToQuat E (rot_matrix q) \<in> {q, scale4 (- 1) q}"
proof -
  obtain r where r: "e_quat_of_rot E (rot_matrix q) = r" "r = q \<or> r = scale4 (- 1) q"
    using quat_of_rot [OF assms] by auto
  then have u: "sq_norm4 r = 1" using assms by auto
  then have "\<not> e_norm4 E r < 1 / 10 ^ 9" by (simp add: norm4)
  with u r show ?thesis by (auto simp: rotToQuat_def Let_def)
qed

end

lemma shepperd_component:
  fixes v u :: real
  assumes "v \<noteq> 0"
  shows "sqrt (4 * v\<^sup>2) * 2 / 4 = sgn v * v" "4 * (v * u) / (sqrt (4 * v\<^sup>2) * 2) = sgn v * u"
    "4 * (u * v) / (sqrt (4 * v\<^sup>2) * 2) = sgn v * u"
  using assms by (auto simp: real_sqrt_mult sgn_if field_simps)

lemma quat_of_rot_ref_sign:
  assumes "w\<^sup>2 + x\<^sup>2 + y\<^sup>2 + z\<^sup>2 = 1"
  shows "\<exists>v. v \<noteq> 0 \<and> quat_of_rot_ref (rot_matrix (w, x, y, z)) = scale4 (sgn v) (w, x, y, z)"
proof -
  let ?a = "1 - 2 * (y * y + z * z)" and ?e = "1 - 2 * (x * x + z * z)" and ?i = "1 - 2 * (x * x + y * y)"
  have s: "1 + ?a + ?e + ?i = 4 * w\<^sup>2" "1 + ?a - ?e - ?i = 4 * x\<^sup>2" "1 + ?e - ?a - ?i = 4 * y\<^sup>2"
    "1 + ?i - ?a - ?e = 4 * z\<^sup>2" using assms by (simp_all add: power2_eq_square)
  have c: "?a > ?e \<longleftrightarrow> y\<^sup>2 < x\<^sup>2" "?a > ?i \<longleftrightarrow> z\<^sup>2 < x\<^sup>2" "?e > ?i \<longleftrightarrow> z\<^sup>2 < y\<^sup>2"
    "?a + ?e + ?i > 0 \<longleftrightarrow> 1 < 4 * w\<^sup>2" using assms by (auto simp: power2_eq_square)
  have b: "2 * (y * z + w * x) - 2 * (y * z - w * x) = 4 * (w * x)"
    "2 * (x * z + w * y) - 2 * (x * z - w * y) = 4 * (w * y)"
    "2 * (x * y + w * z) - 2 * (x * y - w * z) = 4 * (w * z)"
    "2 * (x * y - w * z) + 2 * (x * y + w * z) = 4 * (x * y)"
    "2 * (x * z + w * y) + 2 * (x * z - w * y) = 4 * (x * z)"
    "2 * (y * z - w * x) + 2 * (y * z + w * x) = 4 * (y * z)" by (simp_all add: algebra_simps)
  note unfold = quat_of_rot_ref_def rot_matrix.simps prod.case Let_def c s b if_True if_False
    scale4.simps simp_thms
  consider (w) "1 < 4 * w\<^sup>2" | (x) "\<not> 1 < 4 * w\<^sup>2" "y\<^sup>2 < x\<^sup>2 \<and> z\<^sup>2 < x\<^sup>2"
    | (y) "\<not> 1 < 4 * w\<^sup>2" "\<not> (y\<^sup>2 < x\<^sup>2 \<and> z\<^sup>2 < x\<^sup>2)" "z\<^sup>2 < y\<^sup>2"
    | (z) "\<not> 1 < 4 * w\<^sup>2" "\<not> (y\<^sup>2 < x\<^sup>2 \<and> z\<^sup>2 < x\<^sup>2)" "\<not> z\<^sup>2 < y\<^sup>2" by blast
  then show ?thesis
  proof cases
    case w
    then have nz: "w \<noteq> 0" by auto
    have "quat_of_rot_ref (rot_matrix (w, x, y, z)) = scale4 (sgn w) (w, x, y, z)"
      by (simp only: unfold w shepperd_component [OF nz])
    with nz show ?thesis by blast
  next
    case x
    then have nz: "x \<noteq> 0" by (metis zero_eq_power2 not_less zero_le_power2)
    have "quat_of_rot_ref (rot_matrix (w, x, y, z)) = scale4 (sgn x) (w, x, y, z)"
      by (simp only: unfold x shepperd_component [OF nz])
    with nz show ?thesis by blast
  next
    case y
    then have nz: "y \<noteq> 0" by (metis zero_eq_power2 not_less zero_le_power2)
    have "quat_of_rot_ref (rot_matrix (w, x, y, z)) = scale4 (sgn y) (w, x, y, z)"
      by (simp only: unfold y shepperd_component [OF nz])
    with nz show ?thesis by blast
  next
    case z
    then have "x\<^sup>2 \<le> z\<^sup>2" "y\<^sup>2 \<le> z\<^sup>2" by linarith+
    then have nz: "z \<noteq> 0" using z(1) assms by auto
    have "quat_of_rot_ref (rot_matrix (w, x, y, z)) = scale4 (sgn z) (w, x, y, z)"
      by (simp only: unfold z
          shepperd_component [OF nz])
    with nz show ?thesis by blast
  qed
qed

interpretation eigen_ref_geometry: eigen_geometry eigen_ref
proof
  fix q :: quat assume "sq_norm4 q = 1"
  moreover obtain w x y z where q: "q = (w, x, y, z)" by (cases q)
  ultimately obtain v where "v \<noteq> 0" "quat_of_rot_ref (rot_matrix q) = scale4 (sgn v) q"
    using quat_of_rot_ref_sign [of w x y z] by auto
  then show "e_quat_of_rot eigen_ref (rot_matrix q) \<in> {q, scale4 (- 1) q}"
    by (cases "v > 0") (auto simp: eigen_ref_def q)
qed

subsection \<open>Correctness of the conversion\<close>

fun mat_transpose :: "mat3 \<Rightarrow> mat3" where
  "mat_transpose ((a, b, c), (d, e, f), (g, h, i)) = ((a, d, g), (b, e, h), (c, f, i))"

fun mat_det :: "mat3 \<Rightarrow> real" where
  "mat_det ((a, b, c), (d, e, f), (g, h, i)) = a * (e * i - f * h) - b * (d * i - f * g) + c * (d * h - e * g)"

lemma rot_matrix_orthogonal:
  assumes "sq_norm4 q = 1"
  shows "mat_mul (rot_matrix q) (mat_transpose (rot_matrix q)) = mat_identity" "mat_det (rot_matrix q) = 1"
proof -
  obtain w x y z where q: "q = (w, x, y, z)" by (cases q)
  have w: "w * w = 1 - x * x - y * y - z * z" using assms by (simp add: q power2_eq_square algebra_simps)
  have e: "w * (w * u) = u - x * x * u - y * y * u - z * z * u" for u
    by (simp only: mult.assoc [symmetric] w) (simp add: algebra_simps)
  show "mat_mul (rot_matrix q) (mat_transpose (rot_matrix q)) = mat_identity"
    by (simp add: q mat_identity_def algebra_simps e)
  show "mat_det (rot_matrix q) = 1" by (simp add: q algebra_simps e w)
qed

lemma R_down_conjugation:
  "mat_mul (mat_mul R_down (rot_matrix (w, x, y, z))) R_down = rot_matrix (w, x, - y, - z)"
  by (simp add: R_down_def)

lemma quatToRot_normalised:
  assumes "eigen_lib E" "\<not> e_norm4 E q < 1 / 10 ^ 9"
  obtains w x y z where "quatToRot E q = rot_matrix (w, x, y, z)" "sq_norm4 (w, x, y, z) = 1"
    "(w, x, y, z) = scale4 (1 / e_norm4 E q) q"
proof -
  obtain w x y z where q: "q = (w, x, y, z)" by (cases q)
  define n where "n = e_norm4 E q"
  have n: "0 < n" using assms(2) unfolding n_def
    by (meson divide_pos_pos less_le_trans not_less zero_less_one zero_less_power zero_less_numeral)
  have "n\<^sup>2 = sq_norm4 q" unfolding n_def eigen_lib.norm4 [OF assms(1)] by (simp add: q)
  then have "sq_norm4 (w / n, x / n, y / n, z / n) = 1"
    using n by (simp add: q power_divide add_divide_distrib [symmetric]) (metis less_irrefl zero_eq_power2)
  moreover have "quatToRot E q = rot_matrix (w / n, x / n, y / n, z / n)"
    using assms(2) by (simp add: quatToRot_def Let_def q n_def del: rot_matrix.simps)
  moreover have "(w / n, x / n, y / n, z / n) = scale4 (1 / e_norm4 E q) q" by (simp add: q n_def)
  ultimately show thesis using that by blast
qed

text \<open>\<open>quatToRot\<close> always yields a proper rotation, whatever the norm of its argument (zero
  included): the matrix times its transpose is the identity and its determinant is one.\<close>

theorem quatToRot_rotation:
  assumes "eigen_lib E"
  shows "mat_mul (quatToRot E q) (mat_transpose (quatToRot E q)) = mat_identity
    \<and> mat_det (quatToRot E q) = 1"
proof (cases "e_norm4 E q < 1 / 10 ^ 9")
  case True
  then show ?thesis by (simp add: quatToRot_def mat_identity_def)
next
  case False
  obtain w x y z where "quatToRot E q = rot_matrix (w, x, y, z)" "sq_norm4 (w, x, y, z) = 1"
    using quatToRot_normalised [OF assms False] by metis
  then show ?thesis using rot_matrix_orthogonal [of "(w, x, y, z)"] by simp
qed

theorem quatToRot_rotation_witness:
  "mat_det (quatToRot eigen_ref (0, 3, 0, 4)) = 1"
  using quatToRot_rotation [OF eigen_ref.eigen_lib_axioms] by blast

lemma att_conversion:
  assumes "eigen_geometry E" "\<not> e_norm4 E q < 1 / 10 ^ 9"
  shows "\<exists>w x y z s. \<bar>s\<bar> = 1 \<and> (w, x, y, z) = scale4 (1 / e_norm4 E q) q
     \<and> pp_att (mocapPoseToPx4 E p q origin) = scale4 s (w, x, - y, - z)
     \<and> sq_norm4 (pp_att (mocapPoseToPx4 E p q origin)) = 1"
proof -
  have lib: "eigen_lib E" using assms(1) by (rule eigen_geometry.axioms)
  obtain w x y z where r: "quatToRot E q = rot_matrix (w, x, y, z)" "sq_norm4 (w, x, y, z) = 1"
      "(w, x, y, z) = scale4 (1 / e_norm4 E q) q"
    using quatToRot_normalised [OF lib assms(2)] .
  have u: "sq_norm4 (w, x, - y, - z) = 1" using r(2) by simp
  have "pp_att (mocapPoseToPx4 E p q origin) = rotToQuat E (rot_matrix (w, x, - y, - z))"
    by (simp only: mocapPoseToPx4_def Px4Pose.simps r(1) R_down_conjugation)
  with eigen_geometry.rotToQuat_rot_matrix [OF assms(1) u]
  have "pp_att (mocapPoseToPx4 E p q origin) \<in> {(w, x, - y, - z), scale4 (- 1) (w, x, - y, - z)}"
    by (simp only:)
  then have "\<exists>s. \<bar>s\<bar> = 1 \<and> pp_att (mocapPoseToPx4 E p q origin) = scale4 s (w, x, - y, - z)"
  proof (elim insertE emptyE)
    assume "pp_att (mocapPoseToPx4 E p q origin) = (w, x, - y, - z)"
    then show ?thesis by (intro exI [of _ 1]) simp
  qed (auto intro: exI [of _ "- 1"])
  then obtain s where s: "\<bar>s\<bar> = 1" "pp_att (mocapPoseToPx4 E p q origin) = scale4 s (w, x, - y, - z)" by blast
  from s(1) have "s\<^sup>2 = 1" by (metis power2_abs one_power2)
  then have "sq_norm4 (scale4 s (w, x, - y, - z)) = 1" using r(2) by (simp add: power_mult_distrib)
  with s(2) have "sq_norm4 (pp_att (mocapPoseToPx4 E p q origin)) = 1" by (simp only:)
  with s r(3) show ?thesis by blast
qed

text \<open>The pose conversion from the z-up capture frame to PX4's NED frame: the position is the
  offset from the origin with \<open>y\<close> and \<open>z\<close> negated, and the attitude is, up to the sign that a unit
  quaternion leaves open, the normalised input with \<open>y\<close> and \<open>z\<close> negated; it has unit norm.\<close>

theorem mocapPoseToPx4_correct:
  assumes "eigen_geometry E" and "e_norm4 E q \<ge> 1 / 10 ^ 9"
  shows "pp_pos (mocapPoseToPx4 E (px, py, pz) q (ox, oy, oz)) = (px - ox, oy - py, oz - pz)
    \<and> (\<exists>w x y z s. \<bar>s\<bar> = 1 \<and> (w, x, y, z) = scale4 (1 / e_norm4 E q) q
         \<and> pp_att (mocapPoseToPx4 E (px, py, pz) q (ox, oy, oz)) = scale4 s (w, x, - y, - z)
         \<and> sq_norm4 (pp_att (mocapPoseToPx4 E (px, py, pz) q (ox, oy, oz))) = 1)"
proof
  show "pp_pos (mocapPoseToPx4 E (px, py, pz) q (ox, oy, oz)) = (px - ox, oy - py, oz - pz)"
    by (simp add: mocapPoseToPx4_def R_down_def)
qed (use att_conversion [OF assms(1)] assms(2) in \<open>simp only: not_less\<close>)

theorem mocapPoseToPx4_correct_witness:
  "sq_norm4 (pp_att (mocapPoseToPx4 eigen_ref (1, 2, 3) (0, 3, 0, 4) (0, 0, 0))) = 1"
proof -
  have "e_norm4 eigen_ref (0, 3, 0, 4) = 5" by (simp add: eigen_ref_def real_sqrt_unique)
  then have "e_norm4 eigen_ref (0, 3, 0, 4) \<ge> 1 / 10 ^ 9" by simp
  from mocapPoseToPx4_correct [OF eigen_ref_geometry.eigen_geometry_axioms this]
  show ?thesis by blast
qed

subsection \<open>The stream of visual odometry\<close>

text \<open>
  A run of the node: the samples it accepted and the messages it published to PX4, in order.
\<close>

inductive mocap_run :: "eigen \<Rightarrow> odom_consts \<Rightarrow> mocap_params \<Rightarrow> mocap_node
    \<Rightarrow> VehicleOdometry list \<Rightarrow> (nat \<times> VehicleOdometry) list \<Rightarrow> bool" for E C p where
  start: "MocapToPx4 p t = Inr n \<Longrightarrow> mocap_run E C p n [] []"
| reject: "mocap_run E C p n acc pub \<Longrightarrow> onMocap E C t now_ns msg n = (n', None)
    \<Longrightarrow> mocap_run E C p n' acc pub"
| accept: "mocap_run E C p n acc pub \<Longrightarrow> onMocap E C t now_ns msg n = (n', Some raw)
    \<Longrightarrow> pending_odom n' = Some od \<Longrightarrow> mocap_run E C p n' (acc @ [od]) pub"
| idle: "mocap_run E C p n acc pub \<Longrightarrow> publishPx4 t now_ns n = (n', None)
    \<Longrightarrow> mocap_run E C p n' acc pub"
| emit: "mocap_run E C p n acc pub \<Longrightarrow> publishPx4 t now_ns n = (n', Some od)
    \<Longrightarrow> mocap_run E C p n' acc (pub @ [(now_ns, od)])"

text \<open>A published message without its publication stamp.\<close>

definition sample_of :: "nat \<times> VehicleOdometry \<Rightarrow> VehicleOdometry" where
  "sample_of x = (snd x)\<lparr>od_timestamp := 0\<rparr>"

definition fresh_at :: "real \<Rightarrow> nat \<times> VehicleOdometry \<Rightarrow> bool" where
  "fresh_at age x \<longleftrightarrow> (case x of (now_ns, od) \<Rightarrow> od_timestamp od = of_nat (now_ns div 1000)
     \<and> 0 \<le> sample_age_sec now_ns od \<and> sample_age_sec now_ns od \<le> age)"

definition odom_ok :: "VehicleOdometry \<Rightarrow> bool" where
  "odom_ok od \<longleftrightarrow> od_timestamp od = 0 \<and> sq_norm4 (od_q od) = 1"

lemma mocap_note_input_fields [simp]:
  "pending_odom (mocap_note_input t n) = pending_odom n" "max_sample_age_sec (mocap_note_input t n) = max_sample_age_sec n"
  "opti_origin (mocap_note_input t n) = opti_origin n" "position_scale (mocap_note_input t n) = position_scale n"
  by (simp_all add: mocap_note_input_def Let_def)

lemma watch_input_fields [simp]:
  "pending_odom (watch_input t n) = pending_odom n" "max_sample_age_sec (watch_input t n) = max_sample_age_sec n"
  by (simp_all add: watch_input_def)

lemma onMocap_cases:
  assumes "onMocap E C t now_ns msg n = (n', raw)"
  shows "max_sample_age_sec n' = max_sample_age_sec n"
    and "raw = None \<Longrightarrow> pending_odom n' = pending_odom n"
  using assms by (auto simp: onMocap_def Let_def split: if_splits option.splits)

lemma onMocap_accepted:
  assumes "onMocap E C t now_ns msg n = (n', Some raw)"
  obtains k pos q where "pending_odom n' = Some (mocap_odom E C (mocap_note_input t n) k pos q)"
    "\<not> e_norm4 E q < 1 / 10 ^ 6"
proof (cases "scaled_position (position_scale n) (ps_position msg)")
  case None
  then show ?thesis using assms by (auto simp: onMocap_def Let_def split: if_splits)
next
  case (Some pos)
  show ?thesis
  proof (cases "finite_quat (ps_orientation msg)")
    case None
    then show ?thesis using assms Some by (auto simp: onMocap_def Let_def split: if_splits)
  next
    case q: (Some q)
    then have "\<not> e_norm4 E q < 1 / 10 ^ 6"
      using assms Some by (auto simp: onMocap_def Let_def split: if_splits)
    moreover from this obtain k where "pending_odom n' = Some (mocap_odom E C (mocap_note_input t n) k pos q)"
      using assms Some q unfolding onMocap_def Let_def by (auto split: if_splits)
    ultimately show ?thesis using that by blast
  qed
qed

lemma mocap_odom_ok:
  assumes "eigen_geometry E" "\<not> e_norm4 E q < 1 / 10 ^ 6"
  shows "odom_ok (mocap_odom E C n k pos q)"
proof -
  have "\<not> e_norm4 E q < 1 / 10 ^ 9" using assms(2) by simp
  from att_conversion [OF assms(1) this, of pos "opti_origin n"]
  show ?thesis by (auto simp: odom_ok_def mocap_odom_def Let_def)
qed

text \<open>The invariant: the pending sample is the last accepted one and has not been published.\<close>

definition stream_inv :: "mocap_node \<Rightarrow> VehicleOdometry list \<Rightarrow> (nat \<times> VehicleOdometry) list \<Rightarrow> bool" where
  "stream_inv n acc pub \<longleftrightarrow> (\<exists>old. subseq (map sample_of pub) old
     \<and> (case pending_odom n of None \<Rightarrow> subseq old acc | Some od \<Rightarrow> acc = old @ [od]))"

lemma stream_inv_subseq: "stream_inv n acc pub \<Longrightarrow> subseq (map sample_of pub) acc"
  unfolding stream_inv_def
  by (auto split: option.splits intro: subseq_order.order_trans list_emb_append2)

lemma publishPx4_cases:
  assumes "publishPx4 t now_ns n = (n', out)"
  shows "max_sample_age_sec n' = max_sample_age_sec n" "pending_odom n' = None"
    and "out = Some od \<Longrightarrow> \<exists>od'. pending_odom n = Some od' \<and> od = od'\<lparr>od_timestamp := of_nat (now_ns div 1000)\<rparr>
          \<and> fresh_at (max_sample_age_sec n) (now_ns, od)"
  using assms by (auto simp: publishPx4_def Let_def fresh_at_def sample_age_sec_def
      split: option.splits if_splits)

lemma mocap_run_inv:
  assumes "mocap_run E C p n acc pub" and "eigen_geometry E"
  shows "stream_inv n acc pub \<and> max_sample_age_sec n = mp_max_sample_age_sec p
     \<and> list_all odom_ok acc \<and> list_all (fresh_at (mp_max_sample_age_sec p)) pub"
  using assms(1)
proof (induction rule: mocap_run.induct)
  case (start t n)
  then show ?case by (auto simp: MocapToPx4_def Let_def stream_inv_def split: if_splits)
next
  case (reject n acc pub t now_ns msg n')
  then show ?case using onMocap_cases [OF reject(2)] by (simp add: stream_inv_def)
next
  case (accept n acc pub t now_ns msg n' raw od)
  obtain k pos q where od: "pending_odom n' = Some (mocap_odom E C (mocap_note_input t n) k pos q)"
      "\<not> e_norm4 E q < 1 / 10 ^ 6"
    using onMocap_accepted [OF accept(2)] .
  then have "odom_ok od" using accept(3) mocap_odom_ok [OF assms(2) od(2)] by simp
  moreover have "stream_inv n' (acc @ [od]) pub"
    using accept stream_inv_subseq by (auto simp: stream_inv_def [of n'])
  ultimately show ?case using accept onMocap_cases(1) [OF accept(2)] by simp
next
  case (idle n acc pub t now_ns n')
  moreover from this have "stream_inv n' acc pub"
    using stream_inv_subseq publishPx4_cases(2) [OF idle(2)]
    by (auto simp: stream_inv_def [of n'])
  ultimately show ?case using publishPx4_cases(1) [OF idle(2)] by simp
next
  case (emit n acc pub t now_ns n' od)
  obtain od' where od': "pending_odom n = Some od'" "od = od'\<lparr>od_timestamp := of_nat (now_ns div 1000)\<rparr>"
      "fresh_at (max_sample_age_sec n) (now_ns, od)"
    using publishPx4_cases(3) [OF emit(2) refl] by blast
  obtain old where old: "subseq (map sample_of pub) old" "acc = old @ [od']"
    using emit od'(1) by (auto simp: stream_inv_def)
  have "od_timestamp od' = 0" using emit old(2) by (simp add: odom_ok_def)
  then have "sample_of (now_ns, od) = od'" using od'(2) by (cases od') (simp add: sample_of_def)
  with old have "subseq (map sample_of (pub @ [(now_ns, od)])) acc"
    by (auto intro: list_emb_append_mono)
  then have "stream_inv n' acc (pub @ [(now_ns, od)])"
    using publishPx4_cases(2) [OF emit(2)] by (auto simp: stream_inv_def)
  then show ?case using emit od'(3) publishPx4_cases(1) [OF emit(2)] by simp
qed

text \<open>C35: The visual odometry PX4 receives, for any sequence of capture messages and timer ticks:
  the published messages are, in order, a subsequence of the accepted samples (none twice, none
  invented), each is stamped with the publication time and between zero and the configured age
  old at that moment, and carries a unit quaternion.\<close>

theorem mocap_stream_fresh_once:
  assumes "eigen_geometry E" and "mocap_run E C p n acc pub"
  shows "subseq (map sample_of pub) acc
    \<and> list_all (\<lambda>x. fresh_at (mp_max_sample_age_sec p) x \<and> sq_norm4 (od_q (snd x)) = 1) pub"
proof -
  have inv: "stream_inv n acc pub" "list_all odom_ok acc" "list_all (fresh_at (mp_max_sample_age_sec p)) pub"
    using mocap_run_inv [OF assms(2,1)] by auto
  have sub: "subseq (map sample_of pub) acc" by (rule stream_inv_subseq [OF inv(1)])
  have "sq_norm4 (od_q (snd x)) = 1" if "x \<in> set pub" for x
  proof -
    have "sample_of x \<in> set acc" using sub that
      by (auto elim!: list_emb_set [of _ _ _ "sample_of x"])
    then show ?thesis using inv(2) by (auto simp: odom_ok_def list_all_iff sample_of_def)
  qed
  with sub inv(3) show ?thesis by (simp add: list_all_iff)
qed

theorem mocap_stream_fresh_once_witness:
  "\<exists>n od. mocap_run eigen_ref \<lparr>POSE_FRAME_NED = 1, VELOCITY_FRAME_BODY_FRD = 3\<rparr>
       \<lparr>mp_target_body_name = [], mp_position_scale = 1, mp_opti_origin = [0, 0, 0], mp_position_stddev = 1,
        mp_orientation_stddev_deg = 3, mp_quality = 100, mp_output_rate_hz = 100, mp_max_sample_age_sec = 1\<rparr>
       n [od] [(1000, od\<lparr>od_timestamp := 1\<rparr>)] \<and> sq_norm4 (od_q od) = 1"
proof -
  let ?C = "\<lparr>POSE_FRAME_NED = 1, VELOCITY_FRAME_BODY_FRD = 3\<rparr> :: odom_consts"
  let ?p = "\<lparr>mp_target_body_name = [], mp_position_scale = 1, mp_opti_origin = [0, 0, 0], mp_position_stddev = 1,
        mp_orientation_stddev_deg = 3, mp_quality = 100, mp_output_rate_hz = 100, mp_max_sample_age_sec = 1\<rparr>"
  let ?m = "\<lparr>ps_frame_id = [], ps_stamp_ns = 0, ps_position = (Fin 1, Fin 2, Fin 3),
        ps_orientation = (Fin 1, Fin 0, Fin 0, Fin 0)\<rparr>"
  obtain n0 where n0: "MocapToPx4 ?p 0 = Inr n0" by (simp add: MocapToPx4_def Let_def)
  then have f: "target_body_name n0 = []" "position_scale n0 = 1" "max_sample_age_sec n0 = 1"
    by (auto simp: MocapToPx4_def Let_def)
  have norm: "e_norm4 eigen_ref (1, 0, 0, 0) = 1" by (simp add: eigen_ref_def)
  define od where "od = mocap_odom eigen_ref ?C (mocap_note_input 0 n0) 1000 (1, 2, 3) (1, 0, 0, 0)"
  define n1 where "n1 = (mocap_note_input 0 n0)\<lparr>pending_odom := Some od\<rparr>"
  have "onMocap eigen_ref ?C 0 1000 ?m n0 = (n1, Some (?m\<lparr>ps_position := (Fin 1, Fin 2, Fin 3)\<rparr>))"
    by (simp add: onMocap_def f norm n1_def od_def Let_def)
  then have r1: "mocap_run eigen_ref ?C ?p n1 [od] []"
    using mocap_run.accept [OF mocap_run.start [OF n0]] by (simp add: n1_def)
  have "sample_age_sec 1000 od = 0" by (simp add: sample_age_sec_def od_def mocap_odom_def Let_def)
  then have "\<exists>n2. publishPx4 0 1000 n1 = (n2, Some (od\<lparr>od_timestamp := 1\<rparr>))"
    by (simp add: publishPx4_def Let_def n1_def f)
  then obtain n2 where r2: "mocap_run eigen_ref ?C ?p n2 [od] [(1000, od\<lparr>od_timestamp := 1\<rparr>)]"
    using mocap_run.emit [OF r1] by fastforce
  from mocap_stream_fresh_once [OF eigen_ref_geometry.eigen_geometry_axioms r2]
  have "sq_norm4 (od_q od) = 1" by simp
  with r2 show ?thesis by blast
qed

end
