(* ===== verification/Stream_Framing.thy ===== *)
theory Stream_Framing
  imports Prelude
begin

text \<open>
  The serial framing of the agent,
  \<open>src/Micro-XRCE-DDS-Agent/src/cpp/transport/stream_framing/StreamFramingProtocol.cpp\<close> and its header:
  the CRC table, the escaping of octets, the write buffer, the circular read buffer and the state
  machine that recognises frames. The callbacks and the clock are a parameter \<open>port\<close> over a world
  \<open>'w\<close> that also holds the caller's \<open>transport_rc\<close>, which the framing never reads.
\<close>

unbundle bit_operations_syntax

subsection \<open>Constants and state\<close>

definition crc16_table :: "u16 list" where
  "crc16_table =
    [0x0000, 0xC0C1, 0xC181, 0x0140, 0xC301, 0x03C0, 0x0280, 0xC241,
     0xC601, 0x06C0, 0x0780, 0xC741, 0x0500, 0xC5C1, 0xC481, 0x0440,
     0xCC01, 0x0CC0, 0x0D80, 0xCD41, 0x0F00, 0xCFC1, 0xCE81, 0x0E40,
     0x0A00, 0xCAC1, 0xCB81, 0x0B40, 0xC901, 0x09C0, 0x0880, 0xC841,
     0xD801, 0x18C0, 0x1980, 0xD941, 0x1B00, 0xDBC1, 0xDA81, 0x1A40,
     0x1E00, 0xDEC1, 0xDF81, 0x1F40, 0xDD01, 0x1DC0, 0x1C80, 0xDC41,
     0x1400, 0xD4C1, 0xD581, 0x1540, 0xD701, 0x17C0, 0x1680, 0xD641,
     0xD201, 0x12C0, 0x1380, 0xD341, 0x1100, 0xD1C1, 0xD081, 0x1040,
     0xF001, 0x30C0, 0x3180, 0xF141, 0x3300, 0xF3C1, 0xF281, 0x3240,
     0x3600, 0xF6C1, 0xF781, 0x3740, 0xF501, 0x35C0, 0x3480, 0xF441,
     0x3C00, 0xFCC1, 0xFD81, 0x3D40, 0xFF01, 0x3FC0, 0x3E80, 0xFE41,
     0xFA01, 0x3AC0, 0x3B80, 0xFB41, 0x3900, 0xF9C1, 0xF881, 0x3840,
     0x2800, 0xE8C1, 0xE981, 0x2940, 0xEB01, 0x2BC0, 0x2A80, 0xEA41,
     0xEE01, 0x2EC0, 0x2F80, 0xEF41, 0x2D00, 0xEDC1, 0xEC81, 0x2C40,
     0xE401, 0x24C0, 0x2580, 0xE541, 0x2700, 0xE7C1, 0xE681, 0x2640,
     0x2200, 0xE2C1, 0xE381, 0x2340, 0xE101, 0x21C0, 0x2080, 0xE041,
     0xA001, 0x60C0, 0x6180, 0xA141, 0x6300, 0xA3C1, 0xA281, 0x6240,
     0x6600, 0xA6C1, 0xA781, 0x6740, 0xA501, 0x65C0, 0x6480, 0xA441,
     0x6C00, 0xACC1, 0xAD81, 0x6D40, 0xAF01, 0x6FC0, 0x6E80, 0xAE41,
     0xAA01, 0x6AC0, 0x6B80, 0xAB41, 0x6900, 0xA9C1, 0xA881, 0x6840,
     0x7800, 0xB8C1, 0xB981, 0x7940, 0xBB01, 0x7BC0, 0x7A80, 0xBA41,
     0xBE01, 0x7EC0, 0x7F80, 0xBF41, 0x7D00, 0xBDC1, 0xBC81, 0x7C40,
     0xB401, 0x74C0, 0x7580, 0xB541, 0x7700, 0xB7C1, 0xB681, 0x7640,
     0x7200, 0xB2C1, 0xB381, 0x7340, 0xB101, 0x71C0, 0x7080, 0xB041,
     0x5000, 0x90C1, 0x9181, 0x5140, 0x9301, 0x53C0, 0x5280, 0x9241,
     0x9601, 0x56C0, 0x5780, 0x9741, 0x5500, 0x95C1, 0x9481, 0x5440,
     0x9C01, 0x5CC0, 0x5D80, 0x9D41, 0x5F00, 0x9FC1, 0x9E81, 0x5E40,
     0x5A00, 0x9AC1, 0x9B81, 0x5B40, 0x9901, 0x59C0, 0x5880, 0x9841,
     0x8801, 0x48C0, 0x4980, 0x8941, 0x4B00, 0x8BC1, 0x8A81, 0x4A40,
     0x4E00, 0x8EC1, 0x8F81, 0x4F40, 0x8D01, 0x4DC0, 0x4C80, 0x8C41,
     0x4400, 0x84C1, 0x8581, 0x4540, 0x8701, 0x47C0, 0x4680, 0x8641,
     0x8201, 0x42C0, 0x4380, 0x8341, 0x4100, 0x81C1, 0x8081, 0x4040]"

definition framing_begin_flag :: u8 where "framing_begin_flag = 0x7E"
definition framing_esc_flag :: u8 where "framing_esc_flag = 0x7D"
definition framing_xor_flag :: u8 where "framing_xor_flag = 0x20"

datatype InputState =
    UXR_FRAMING_UNINITIALIZED
  | UXR_FRAMING_READING_SRC_ADDR
  | UXR_FRAMING_READING_DST_ADDR
  | UXR_FRAMING_READING_LEN_LSB
  | UXR_FRAMING_READING_LEN_MSB
  | UXR_FRAMING_READING_PAYLOAD
  | UXR_FRAMING_READING_CRC_LSB
  | UXR_FRAMING_READING_CRC_MSB

text \<open>The indices into the two 42-byte buffers are \<open>uint8_t\<close> and stay far below 256.\<close>

record FramingIO =
  fr_state :: InputState
  fr_local_addr :: u8
  fr_remote_addr :: u8
  fr_read_buffer :: "u8 list"
  fr_head :: nat
  fr_tail :: nat
  fr_msg_len :: u16
  fr_msg_pos :: u16
  fr_msg_crc :: u16
  fr_cmp_crc :: u16
  fr_write_buffer :: "u8 list"
  fr_write_pos :: nat

definition FramingIO_new :: "u8 \<Rightarrow> FramingIO" where
  "FramingIO_new local_addr = \<lparr>fr_state = UXR_FRAMING_UNINITIALIZED, fr_local_addr = local_addr, fr_remote_addr = 0,
     fr_read_buffer = replicate 42 0, fr_head = 0, fr_tail = 0, fr_msg_len = 0, fr_msg_pos = 0, fr_msg_crc = 0,
     fr_cmp_crc = 0, fr_write_buffer = replicate 42 0, fr_write_pos = 0\<rparr>"

text \<open>The write callback gets the bytes to send; the read callback gets the room and the timeout and
  returns its result and the bytes it stored; the clock counts nanoseconds.\<close>

record 'w port =
  write_callback :: "u8 list \<Rightarrow> 'w \<Rightarrow> int \<times> 'w"
  read_callback :: "nat \<Rightarrow> int \<Rightarrow> 'w \<Rightarrow> int \<times> u8 list \<times> 'w"
  steady_clock :: "'w \<Rightarrow> int"

subsection \<open>Octets\<close>

definition update_crc :: "u16 \<Rightarrow> u8 \<Rightarrow> u16" where
  "update_crc crc data = drop_bit 8 crc XOR crc16_table ! unat ((crc XOR ucast data) AND 0xFF)"

definition ring_next :: "nat \<Rightarrow> nat" where
  "ring_next t = (t + 1) mod 42"

definition get_next_octet :: "FramingIO \<Rightarrow> bool \<times> u8 \<times> FramingIO" where
  "get_next_octet f =
     (if fr_head f \<noteq> fr_tail f
      then if framing_esc_flag \<noteq> fr_read_buffer f ! fr_tail f
           then let octet = fr_read_buffer f ! fr_tail f
                in (framing_begin_flag \<noteq> octet, octet, f\<lparr>fr_tail := ring_next (fr_tail f)\<rparr>)
           else let temp_tail = ring_next (fr_tail f)
                in if temp_tail \<noteq> fr_head f
                   then let octet = fr_read_buffer f ! temp_tail; f' = f\<lparr>fr_tail := (fr_tail f + 2) mod 42\<rparr>
                        in if framing_begin_flag \<noteq> octet then (True, octet XOR framing_xor_flag, f')
                           else (False, octet, f')
                   else (False, 0, f)
      else (False, 0, f))"

definition add_next_octet :: "u8 \<Rightarrow> FramingIO \<Rightarrow> bool \<times> FramingIO" where
  "add_next_octet octet f =
     (if framing_begin_flag = octet \<or> framing_esc_flag = octet
      then if fr_write_pos f + 1 < 42
           then (True, f\<lparr>fr_write_buffer := (fr_write_buffer f)
                   [fr_write_pos f := framing_esc_flag, fr_write_pos f + 1 := octet XOR framing_xor_flag],
                 fr_write_pos := fr_write_pos f + 2\<rparr>)
           else (False, f)
      else if fr_write_pos f < 42
      then (True, f\<lparr>fr_write_buffer := (fr_write_buffer f)[fr_write_pos f := octet],
              fr_write_pos := fr_write_pos f + 1\<rparr>)
      else (False, f))"

subsection \<open>Writing\<close>

text \<open>Each round of the loop offers the whole buffer again.\<close>

function write_loop :: "'w port \<Rightarrow> u8 list \<Rightarrow> nat \<Rightarrow> 'w \<Rightarrow> nat \<times> 'w" where
  "write_loop P buf bytes_written w =
     (let (write_res, w') = write_callback P buf w;
          last_written = (if 0 < write_res then nat write_res else 0);
          total = bytes_written + last_written
      in if total < length buf \<and> 0 < last_written then write_loop P buf total w' else (total, w'))"
  by pat_completeness auto
termination
  by (relation "measure (\<lambda>(P, buf, n, w). length buf - n)") (auto split: if_splits)

declare write_loop.simps [simp del]

definition transport_write :: "'w port \<Rightarrow> FramingIO \<Rightarrow> 'w \<Rightarrow> bool \<times> FramingIO \<times> 'w" where
  "transport_write P f w =
     (let (bytes_written, w') = write_loop P (take (fr_write_pos f) (fr_write_buffer f)) 0 w
      in if fr_write_pos f = bytes_written then (True, f\<lparr>fr_write_pos := 0\<rparr>, w') else (False, f, w'))"

text \<open>The loop over an octet sequence, \<open>written_len\<close> being a \<open>uint16_t\<close>; it serves the payload and the
  two octets of the CRC.\<close>

partial_function (option) write_octets ::
  "'w port \<Rightarrow> u8 list \<Rightarrow> u16 \<Rightarrow> u16 \<Rightarrow> FramingIO \<Rightarrow> 'w \<Rightarrow> (bool \<times> u16 \<times> FramingIO \<times> 'w) option" where
  "write_octets P buf written_len crc f w =
     (if unat written_len < length buf
      then let octet = buf ! unat written_len; (ok, f') = add_next_octet octet f
           in if ok then write_octets P buf (written_len + 1) (update_crc crc octet) f' w
              else let (cond, f'', w') = transport_write P f' w
                   in if cond then write_octets P buf written_len crc f'' w'
                      else Some (False, crc, f'', w')
      else Some (True, crc, f, w))"

definition write_framed_msg :: "'w port \<Rightarrow> u8 list \<Rightarrow> u8 \<Rightarrow> FramingIO \<Rightarrow> 'w \<Rightarrow> (nat \<times> FramingIO \<times> 'w) option" where
  "write_framed_msg P buf remote_addr f0 w0 =
     (let len = length buf;
          f1 = f0\<lparr>fr_write_buffer := (fr_write_buffer f0)[0 := framing_begin_flag], fr_write_pos := 1\<rparr>;
          f2 = snd (add_next_octet (fr_local_addr f1) f1);
          f3 = snd (add_next_octet remote_addr f2);
          f4 = snd (add_next_octet (of_nat len) f3);
          f5 = snd (add_next_octet (of_nat (drop_bit 8 len)) f4)
      in case write_octets P buf 0 0 f5 w0 of None \<Rightarrow> None
         | Some (cond, crc, f6, w1) \<Rightarrow>
           (case (if cond then write_octets P [ucast (crc AND 0xFF), ucast (drop_bit 8 crc)] 0 crc f6 w1
                  else Some (False, crc, f6, w1)) of None \<Rightarrow> None
            | Some (cond, crc, f7, w2) \<Rightarrow>
              let (cond, f8, w3) = (if cond \<and> 0 < fr_write_pos f7 then transport_write P f7 w2 else (cond, f7, w2))
              in Some (if cond then len else 0, f8, w3)))"

subsection \<open>Reading\<close>

definition available_length :: "FramingIO \<Rightarrow> nat \<times> nat" where
  "available_length f =
     (if fr_head f = fr_tail f then (41, 0)
      else if fr_tail f < fr_head f
      then if 0 < fr_tail f then (42 - fr_head f, fr_tail f - 1) else (42 - fr_head f - 1, 0)
      else (fr_tail f - fr_head f - 1, 0))"

definition limit_length :: "nat \<Rightarrow> nat \<times> nat \<Rightarrow> nat \<times> nat" where
  "limit_length max_size av =
     (if max_size < fst av then (max_size, 0)
      else if max_size < fst av + snd av then (fst av, max_size - fst av) else av)"

definition ring_store :: "nat \<Rightarrow> u8 list \<Rightarrow> u8 list \<Rightarrow> u8 list" where
  "ring_store p bs buf = take p buf @ bs @ drop (p + length bs) buf"

text \<open>One read into the buffer at the head.\<close>

definition read_chunk :: "'w port \<Rightarrow> nat \<Rightarrow> int \<Rightarrow> FramingIO \<Rightarrow> 'w \<Rightarrow> nat \<times> FramingIO \<times> 'w" where
  "read_chunk P n timeout f w =
     (let (read_res, bs, w') = read_callback P n timeout w;
          bytes_read = (if 0 < read_res then nat read_res else 0)
      in (bytes_read, f\<lparr>fr_read_buffer := ring_store (fr_head f) bs (fr_read_buffer f),
            fr_head := (fr_head f + bytes_read) mod 42\<rparr>, w'))"

definition transport_read :: "'w port \<Rightarrow> int \<Rightarrow> nat \<Rightarrow> FramingIO \<Rightarrow> 'w \<Rightarrow> nat \<times> int \<times> FramingIO \<times> 'w" where
  "transport_read P timeout max_size f0 w0 =
     (let (a0, a1) = limit_length max_size (available_length f0);
          f1 = (if fr_head f0 = fr_tail f0 then f0\<lparr>fr_head := 0, fr_tail := 0\<rparr> else f0);
          (n, f3, w2) =
            (if 0 < a0
             then let (n0, f2, w1) = read_chunk P a0 timeout f1 w0
                  in if 0 < n0 \<and> n0 = a0 \<and> 0 < a1
                     then let (n1, f3, w2) = read_chunk P a1 0 f2 w1 in (n0 + n1, f3, w2)
                     else (n0, f2, w1)
             else (0, f1, w0));
          time_elapsed = (steady_clock P w2 - steady_clock P w0) div 1000000
      in (n, timeout - (if time_elapsed = 0 then 1 else time_elapsed), f3, w2))"

text \<open>The variables of \<open>read_framed_msg\<close>: the object, the caller's buffer, the in-out arguments, the
  result and the exit condition.\<close>

record 'w reader =
  rd_io :: FramingIO
  rd_buf :: "u8 list"
  rd_remote_addr :: u8
  rd_timeout :: int
  rd_rv :: nat
  rd_exit :: bool
  rd_world :: 'w

definition rd_set_state :: "InputState \<Rightarrow> 'w reader \<Rightarrow> 'w reader" where
  "rd_set_state st r = r\<lparr>rd_io := (rd_io r)\<lparr>fr_state := st\<rparr>\<rparr>"

definition rd_transport_read :: "'w port \<Rightarrow> nat \<Rightarrow> 'w reader \<Rightarrow> nat \<times> 'w reader" where
  "rd_transport_read P max_size r =
     (let (n, timeout, f, w) = transport_read P (rd_timeout r) max_size (rd_io r) (rd_world r)
      in (n, r\<lparr>rd_timeout := timeout, rd_io := f, rd_world := w\<rparr>))"

partial_function (option) skip_to_begin :: "u8 \<Rightarrow> FramingIO \<Rightarrow> (u8 \<times> FramingIO) option" where
  "skip_to_begin octet f =
     (if framing_begin_flag \<noteq> octet \<and> fr_head f \<noteq> fr_tail f
      then skip_to_begin (fr_read_buffer f ! fr_tail f) (f\<lparr>fr_tail := ring_next (fr_tail f)\<rparr>)
      else Some (octet, f))"

lemma get_next_octet_frame:
  "get_next_octet f = (ok, octet, f') \<Longrightarrow> \<exists>t. f' = f\<lparr>fr_tail := t\<rparr>"
  by (cases f) (auto simp: get_next_octet_def Let_def split: if_splits)

lemma unat_inc: "a < b \<Longrightarrow> unat (a + 1 :: u16) = unat a + 1"
  using unsigned_less [where 'a = nat and w = b] by (simp add: unat_word_ariths word_less_nat_alt)

lemma msg_pos_decreases:
  "fr_msg_pos f < fr_msg_len f \<Longrightarrow> unat (fr_msg_len f) - unat (fr_msg_pos f + 1) < unat (fr_msg_len f) - unat (fr_msg_pos f)"
  by (simp add: unat_inc word_less_nat_alt)

text \<open>The payload loop: the last octet read and the state after it.\<close>

function read_payload :: "u8 \<Rightarrow> u8 list \<Rightarrow> FramingIO \<Rightarrow> u8 \<times> u8 list \<times> FramingIO" where
  "read_payload octet buf f =
     (if fr_msg_pos f < fr_msg_len f
      then let (ok, octet', f') = get_next_octet f
           in if ok
              then read_payload octet' (buf[unat (fr_msg_pos f) := octet'])
                     (f'\<lparr>fr_msg_pos := fr_msg_pos f + 1, fr_cmp_crc := update_crc (fr_cmp_crc f) octet'\<rparr>)
              else (octet', buf, f')
      else (octet, buf, f))"
  by pat_completeness auto
termination
proof (relation "measure (\<lambda>(octet, buf, f). unat (fr_msg_len f) - unat (fr_msg_pos f))", goal_cases)
  case (2 octet buf f x ok y octet' f')
  then obtain t where "f' = f\<lparr>fr_tail := t\<rparr>" using get_next_octet_frame by metis
  with 2 show ?case using msg_pos_decreases by simp
qed simp

declare read_payload.simps [simp del]

text \<open>No octet could be read: the reactions of the header and CRC states.\<close>

definition no_octet :: "'w port \<Rightarrow> nat \<Rightarrow> u8 \<Rightarrow> 'w reader \<Rightarrow> 'w reader" where
  "no_octet P max_size octet r =
     (let (n, r') = rd_transport_read P max_size r
      in if 0 < n then r'
         else if framing_begin_flag = octet then rd_set_state UXR_FRAMING_READING_SRC_ADDR r'
         else r'\<lparr>rd_exit := True\<rparr>)"

text \<open>One round of the state machine.\<close>

definition step_uninitialized :: "'w reader \<Rightarrow> 'w reader option" where
  "step_uninitialized r =
     map_option (\<lambda>(octet, f). if framing_begin_flag = octet
                   then rd_set_state UXR_FRAMING_READING_SRC_ADDR (r\<lparr>rd_io := f\<rparr>)
                   else r\<lparr>rd_io := f, rd_exit := True\<rparr>)
       (skip_to_begin 0 (rd_io r))"

definition step_src_addr :: "'w port \<Rightarrow> 'w reader \<Rightarrow> 'w reader" where
  "step_src_addr P r =
     (let (ok, octet, f) = get_next_octet (rd_io r); r1 = r\<lparr>rd_io := f\<lparr>fr_remote_addr := octet\<rparr>\<rparr>
      in if ok then rd_set_state UXR_FRAMING_READING_DST_ADDR r1
         else let (n, r2) = rd_transport_read P 4 r1
              in if 0 < n then r2
                 else if framing_begin_flag \<noteq> fr_remote_addr (rd_io r2) then r2\<lparr>rd_exit := True\<rparr> else r2)"

definition step_dst_addr :: "'w port \<Rightarrow> 'w reader \<Rightarrow> 'w reader" where
  "step_dst_addr P r =
     (let (ok, octet, f) = get_next_octet (rd_io r); r1 = r\<lparr>rd_io := f\<rparr>
      in if ok then rd_set_state (if octet = fr_local_addr f then UXR_FRAMING_READING_LEN_LSB
                                  else UXR_FRAMING_UNINITIALIZED) r1
         else no_octet P 3 octet r1)"

definition step_len_lsb :: "'w port \<Rightarrow> 'w reader \<Rightarrow> 'w reader" where
  "step_len_lsb P r =
     (let (ok, octet, f) = get_next_octet (rd_io r)
      in if ok then rd_set_state UXR_FRAMING_READING_LEN_MSB (r\<lparr>rd_io := f\<lparr>fr_msg_len := ucast octet\<rparr>\<rparr>)
         else no_octet P 2 octet (r\<lparr>rd_io := f\<rparr>))"

definition step_len_msb :: "'w port \<Rightarrow> nat \<Rightarrow> 'w reader \<Rightarrow> 'w reader" where
  "step_len_msb P len r =
     (let (ok, octet, f) = get_next_octet (rd_io r)
      in if ok then let f' = f\<lparr>fr_msg_len := fr_msg_len f + push_bit 8 (ucast octet), fr_msg_pos := 0, fr_cmp_crc := 0\<rparr>
                    in if len < unat (fr_msg_len f')
                       then (rd_set_state UXR_FRAMING_UNINITIALIZED (r\<lparr>rd_io := f'\<rparr>))\<lparr>rd_exit := True\<rparr>
                       else rd_set_state UXR_FRAMING_READING_PAYLOAD (r\<lparr>rd_io := f'\<rparr>)
         else no_octet P 1 octet (r\<lparr>rd_io := f\<rparr>))"

definition step_payload :: "'w port \<Rightarrow> 'w reader \<Rightarrow> 'w reader" where
  "step_payload P r =
     (let (octet, buf, f) = read_payload 0 (rd_buf r) (rd_io r); r1 = r\<lparr>rd_io := f, rd_buf := buf\<rparr>
      in if fr_msg_pos f = fr_msg_len f then rd_set_state UXR_FRAMING_READING_CRC_LSB r1
         else if framing_begin_flag = octet then rd_set_state UXR_FRAMING_READING_SRC_ADDR r1
         else let (n, r2) = rd_transport_read P (unat (fr_msg_len f) - unat (fr_msg_pos f) + 2) r1
              in if 0 < n then r2 else r2\<lparr>rd_exit := True\<rparr>)"

definition step_crc_lsb :: "'w port \<Rightarrow> 'w reader \<Rightarrow> 'w reader" where
  "step_crc_lsb P r =
     (let (ok, octet, f) = get_next_octet (rd_io r)
      in if ok then rd_set_state UXR_FRAMING_READING_CRC_MSB (r\<lparr>rd_io := f\<lparr>fr_msg_crc := ucast octet\<rparr>\<rparr>)
         else no_octet P 2 octet (r\<lparr>rd_io := f\<rparr>))"

definition step_crc_msb :: "'w port \<Rightarrow> 'w reader \<Rightarrow> 'w reader" where
  "step_crc_msb P r =
     (let (ok, octet, f) = get_next_octet (rd_io r)
      in if ok then let f' = f\<lparr>fr_msg_crc := fr_msg_crc f + push_bit 8 (ucast octet), fr_state := UXR_FRAMING_UNINITIALIZED\<rparr>
                    in if fr_cmp_crc f' = fr_msg_crc f'
                       then r\<lparr>rd_io := f', rd_remote_addr := fr_remote_addr f', rd_rv := unat (fr_msg_len f'), rd_exit := True\<rparr>
                       else r\<lparr>rd_io := f', rd_exit := True\<rparr>
         else no_octet P 1 octet (r\<lparr>rd_io := f\<rparr>))"

definition read_step :: "'w port \<Rightarrow> nat \<Rightarrow> 'w reader \<Rightarrow> 'w reader option" where
  "read_step P len r = (case fr_state (rd_io r) of
       UXR_FRAMING_UNINITIALIZED \<Rightarrow> step_uninitialized r
     | UXR_FRAMING_READING_SRC_ADDR \<Rightarrow> Some (step_src_addr P r)
     | UXR_FRAMING_READING_DST_ADDR \<Rightarrow> Some (step_dst_addr P r)
     | UXR_FRAMING_READING_LEN_LSB \<Rightarrow> Some (step_len_lsb P r)
     | UXR_FRAMING_READING_LEN_MSB \<Rightarrow> Some (step_len_msb P len r)
     | UXR_FRAMING_READING_PAYLOAD \<Rightarrow> Some (step_payload P r)
     | UXR_FRAMING_READING_CRC_LSB \<Rightarrow> Some (step_crc_lsb P r)
     | UXR_FRAMING_READING_CRC_MSB \<Rightarrow> Some (step_crc_msb P r))"

partial_function (option) read_loop :: "'w port \<Rightarrow> nat \<Rightarrow> 'w reader \<Rightarrow> 'w reader option" where
  "read_loop P len r =
     (if \<not> rd_exit r then (case read_step P len r of None \<Rightarrow> None | Some r' \<Rightarrow> read_loop P len r') else Some r)"

text \<open>The buffer passed by the caller has \<open>len\<close> bytes.\<close>

definition read_framed_msg :: "'w port \<Rightarrow> u8 list \<Rightarrow> u8 \<Rightarrow> int \<Rightarrow> FramingIO \<Rightarrow> 'w \<Rightarrow> 'w reader option" where
  "read_framed_msg P buf remote_addr timeout f w =
     (let r0 = \<lparr>rd_io = f, rd_buf = buf, rd_remote_addr = remote_addr, rd_timeout = timeout, rd_rv = 0,
                rd_exit = False, rd_world = w\<rparr>;
          r1 = (if fr_tail f = fr_head f then snd (rd_transport_read P 5 r0) else r0)
      in if fr_tail (rd_io r1) \<noteq> fr_head (rd_io r1) then read_loop P (length buf) r1 else Some r1)"

subsection \<open>The CRC against its bitwise reference\<close>

text \<open>CRC-16 with the reflected polynomial \<open>0xA001\<close>, one bit at a time.\<close>

definition crc_bit :: "u16 \<Rightarrow> u16" where
  "crc_bit x = drop_bit 1 x XOR (if bit x 0 then 0xA001 else 0)"

definition crc_unbit :: "u16 \<Rightarrow> u16" where
  "crc_unbit y = (if bit y 15 then push_bit 1 (y XOR 0xA001) OR 1 else push_bit 1 y)"

definition crc_of :: "u8 list \<Rightarrow> u16" where
  "crc_of xs = foldl update_crc 0 xs"

lemma word_halves: "push_bit 1 (drop_bit 1 x) OR (if bit x 0 then 1 else 0) = (x :: u16)"
proof (rule bit_word_eqI)
  fix n assume "n < LENGTH(16)"
  then show "bit (push_bit 1 (drop_bit 1 x) OR (if bit x 0 then 1 else 0)) n \<longleftrightarrow> bit x n"
    by (cases n) (simp_all add: bit_or_iff bit_push_bit_iff bit_drop_bit_eq bit_1_iff del: push_bit_Suc)
qed

lemma crc_unbit_bit: "crc_unbit (crc_bit x) = x"
proof -
  have hi: "bit (crc_bit x) 15 \<longleftrightarrow> bit x 0"
    using not_bit_length [of x] by (simp add: crc_bit_def bit_simps)
  show ?thesis
  proof (cases "bit x 0")
    case True
    then have "crc_bit x XOR 0xA001 = drop_bit 1 x"
      by (simp only: crc_bit_def if_True xor.assoc xor_self_eq xor.right_neutral)
    with True show ?thesis using word_halves [of x] by (simp only: crc_unbit_def hi if_True)
  next
    case False
    then have "crc_bit x = drop_bit 1 x" by (simp only: crc_bit_def if_False xor.right_neutral)
    with False show ?thesis using word_halves [of x] hi by (simp only: crc_unbit_def if_False or.right_neutral)
  qed
qed

lemma crc_bit_xor: "crc_bit (x XOR y) = crc_bit x XOR crc_bit y"
  by (simp add: crc_bit_def bit_simps xor.assoc xor.left_commute xor.commute)

lemma crc_bits_xor: "(crc_bit ^^ n) (x XOR y) = (crc_bit ^^ n) x XOR (crc_bit ^^ n) y"
  by (induction n) (simp_all add: crc_bit_xor)

lemma crc_bits_high: "k \<le> n \<Longrightarrow> (crc_bit ^^ k) (push_bit n x) = drop_bit k (push_bit n x)"
proof (induction k)
  case (Suc k)
  then have "\<not> bit (drop_bit k (push_bit n x)) 0" by (simp add: bit_simps)
  with Suc show ?case by (simp add: crc_bit_def drop_bit_drop_bit)
qed simp

lemma crc_bits8:
  "(crc_bit ^^ 8) x = crc_bit (crc_bit (crc_bit (crc_bit (crc_bit (crc_bit (crc_bit (crc_bit x)))))))"
  by (simp add: numeral_eq_Suc)

definition octet_values :: "u16 list" where
  "octet_values =
    [0, 1, 2, 3, 4, 5, 6, 7, 8, 9, 10, 11, 12, 13, 14, 15, 16, 17, 18, 19, 20, 21, 22, 23, 24, 25, 26,
     27, 28, 29, 30, 31, 32, 33, 34, 35, 36, 37, 38, 39, 40, 41, 42, 43, 44, 45, 46, 47, 48, 49, 50, 51,
     52, 53, 54, 55, 56, 57, 58, 59, 60, 61, 62, 63, 64, 65, 66, 67, 68, 69, 70, 71, 72, 73, 74, 75, 76,
     77, 78, 79, 80, 81, 82, 83, 84, 85, 86, 87, 88, 89, 90, 91, 92, 93, 94, 95, 96, 97, 98, 99, 100,
     101, 102, 103, 104, 105, 106, 107, 108, 109, 110, 111, 112, 113, 114, 115, 116, 117, 118, 119, 120,
     121, 122, 123, 124, 125, 126, 127, 128, 129, 130, 131, 132, 133, 134, 135, 136, 137, 138, 139, 140,
     141, 142, 143, 144, 145, 146, 147, 148, 149, 150, 151, 152, 153, 154, 155, 156, 157, 158, 159, 160,
     161, 162, 163, 164, 165, 166, 167, 168, 169, 170, 171, 172, 173, 174, 175, 176, 177, 178, 179, 180,
     181, 182, 183, 184, 185, 186, 187, 188, 189, 190, 191, 192, 193, 194, 195, 196, 197, 198, 199, 200,
     201, 202, 203, 204, 205, 206, 207, 208, 209, 210, 211, 212, 213, 214, 215, 216, 217, 218, 219, 220,
     221, 222, 223, 224, 225, 226, 227, 228, 229, 230, 231, 232, 233, 234, 235, 236, 237, 238, 239, 240,
     241, 242, 243, 244, 245, 246, 247, 248, 249, 250, 251, 252, 253, 254, 255]"

lemma octet_values_nth: "map of_nat [0..<256] = octet_values"
  by (simp add: octet_values_def upt_rec)

lemma crc16_table_entries: "map (crc_bit ^^ 8) octet_values = crc16_table"
  by (simp add: crc_bits8 crc_bit_def crc16_table_def octet_values_def)

lemma crc16_table_nth: "i < 256 \<Longrightarrow> crc16_table ! i = (crc_bit ^^ 8) (of_nat i)"
  by (simp flip: crc16_table_entries octet_values_nth)

lemma low_octet: "(0xFF :: u16) = mask 8"
  by (simp add: mask_eq_exp_minus_1)

lemma update_crc_eq: "update_crc crc data = (crc_bit ^^ 8) (crc XOR ucast data)"
proof -
  let ?y = "crc XOR ucast data"
  have split: "?y = push_bit 8 (drop_bit 8 crc) XOR (?y AND 0xFF)"
    unfolding low_octet by (rule bit_word_eqI) (auto simp: bit_simps dest: bit_imp_le_length)
  have "unat (?y AND 0xFF) < 256"
    using take_bit_nat_less_exp [of 8 "unat ?y"] unfolding low_octet take_bit_eq_mask [symmetric] unsigned_take_bit_eq
    by simp
  then have "crc16_table ! unat (?y AND 0xFF) = (crc_bit ^^ 8) (?y AND 0xFF)"
    by (simp add: crc16_table_nth)
  moreover have "drop_bit 8 (push_bit 8 (drop_bit 8 crc)) = drop_bit 8 crc"
  proof (rule bit_word_eqI)
    fix n assume "n < LENGTH(16)"
    then show "bit (drop_bit 8 (push_bit 8 (drop_bit 8 crc))) n \<longleftrightarrow> bit (drop_bit 8 crc) n"
      using bit_imp_le_length [of crc "8 + n"] by (auto simp: bit_simps)
  qed
  then have "(crc_bit ^^ 8) (push_bit 8 (drop_bit 8 crc)) = drop_bit 8 crc" by (simp only: crc_bits_high order_refl)
  ultimately show ?thesis
    by (subst split) (simp only: crc_bits_xor update_crc_def)
qed

lemma crc_bits_inj: "(crc_bit ^^ n) x = (crc_bit ^^ n) y \<Longrightarrow> x = y"
  by (induction n) (auto dest: arg_cong [where f = crc_unbit] simp: crc_unbit_bit)

lemma xor_cancel: "a XOR x = b XOR x \<Longrightarrow> a = (b :: u16)"
proof -
  assume "a XOR x = b XOR x"
  then have "(a XOR x) XOR x = (b XOR x) XOR x" by (rule arg_cong)
  then show ?thesis by (simp only: xor.assoc xor_self_eq xor.right_neutral)
qed

lemma update_crc_inj: "update_crc c a = update_crc c' a \<Longrightarrow> c = c'"
  unfolding update_crc_eq by (drule crc_bits_inj) (rule xor_cancel)

lemma unat_ucast_u8 [simp]: "unat (ucast (x :: u8) :: u16) = unat x"
  using unsigned_less [where 'a = nat and w = x] by (simp add: unsigned_ucast_eq take_bit_nat_eq_self)

lemma update_crc_inj_octet:
  assumes "update_crc c a = update_crc c b"
  shows "a = b"
proof -
  have "ucast a XOR c = ucast b XOR c"
    using assms unfolding update_crc_eq by (subst (1 2) xor.commute) (rule crc_bits_inj)
  then have "(ucast a :: u16) = ucast b" by (rule xor_cancel)
  then have "unat (ucast a :: u16) = unat (ucast b :: u16)" by (rule arg_cong)
  then have "unat a = unat b" by (simp only: unat_ucast_u8)
  then show ?thesis by (rule word_unat_eq_iff [THEN iffD2])
qed

lemma foldl_update_crc_inj: "foldl update_crc c xs = foldl update_crc c' xs \<Longrightarrow> c = c'"
  by (induction xs arbitrary: c c') (auto dest: update_crc_inj)

text \<open>C40: The table-driven update is CRC-16 with the reflected polynomial \<open>0xA001\<close>: it xors the octet
  into the register and performs eight steps of the bitwise algorithm, for every register value and
  octet, so all 256 table entries are right.\<close>

theorem update_crc_reference: "update_crc crc data = (crc_bit ^^ 8) (crc XOR ucast data)"
  by (rule update_crc_eq)

text \<open>The CRC detects every corruption confined to one octet: two payloads of the same length
  that differ in exactly one octet never have the same CRC.\<close>

theorem crc_detects_octet_error:
  assumes "a \<noteq> b"
  shows "crc_of (xs @ a # ys) \<noteq> crc_of (xs @ b # ys)"
  using assms by (auto simp: crc_of_def dest: foldl_update_crc_inj update_crc_inj_octet)

theorem crc_detects_octet_error_witness: "crc_of [1, 2, 3] \<noteq> crc_of [1, 7, 3]"
  using crc_detects_octet_error [of 2 7 "[1]" "[3]"] by simp

subsection \<open>Frames\<close>

definition escape_octet :: "u8 \<Rightarrow> u8 list" where
  "escape_octet x = (if framing_begin_flag = x \<or> framing_esc_flag = x
     then [framing_esc_flag, x XOR framing_xor_flag] else [x])"

definition escape :: "u8 list \<Rightarrow> u8 list" where
  "escape xs = concat (map escape_octet xs)"

definition frame_octets :: "u8 \<Rightarrow> u8 \<Rightarrow> u8 list \<Rightarrow> u8 list" where
  "frame_octets src dst payload = [src, dst, of_nat (length payload), of_nat (drop_bit 8 (length payload))] @ payload
     @ [ucast (crc_of payload AND 0xFF), ucast (drop_bit 8 (crc_of payload))]"

definition frame :: "u8 \<Rightarrow> u8 \<Rightarrow> u8 list \<Rightarrow> u8 list" where
  "frame src dst payload = framing_begin_flag # escape (frame_octets src dst payload)"

lemma escape_simps [simp]: "escape [] = []" "escape (x # xs) = escape_octet x @ escape xs"
  "escape (xs @ ys) = escape xs @ escape ys"
  by (simp_all add: escape_def)

subsection \<open>The writer sends a frame\<close>

text \<open>A line that takes everything it is offered.\<close>

locale full_writer =
  fixes P :: "'w port" and sent :: "'w \<Rightarrow> u8 list"
  assumes write_all: "bs \<noteq> [] \<Longrightarrow> write_callback P bs w = (res, w') \<Longrightarrow>
      res = int (length bs) \<and> sent w' = sent w @ bs"

definition write_ok :: "FramingIO \<Rightarrow> bool" where
  "write_ok f \<longleftrightarrow> length (fr_write_buffer f) = 42 \<and> fr_write_pos f \<le> 42"

definition buffered :: "FramingIO \<Rightarrow> u8 list" where
  "buffered f = take (fr_write_pos f) (fr_write_buffer f)"

lemma take_update2:
  assumes "n + 1 < length xs"
  shows "take (n + 2) (xs[n := a, n + 1 := b]) = take n xs @ [a, b]"
proof -
  have "take (n + 2) (xs[n := a, n + 1 := b]) = take (Suc (Suc n)) (xs[n := a, Suc n := b])" by simp
  also have "\<dots> = take n xs @ [a, b]" using assms by (simp add: take_Suc_conv_app_nth del: take_Suc)
  finally show ?thesis .
qed

lemma add_next_octet_ok:
  assumes "write_ok f" "fr_write_pos f + 1 < 42"
  shows "\<exists>f'. add_next_octet x f = (True, f') \<and> write_ok f' \<and> buffered f' = buffered f @ escape_octet x
    \<and> fr_local_addr f' = fr_local_addr f \<and> fr_write_pos f' \<le> fr_write_pos f + 2"
  using assms
  by (auto simp: add_next_octet_def write_ok_def buffered_def escape_octet_def take_update2 take_Suc_conv_app_nth)

lemma add_next_octet_cases:
  assumes "write_ok f" "add_next_octet x f = (ok, f')"
  shows "if ok then write_ok f' \<and> buffered f' = buffered f @ escape_octet x \<and> fr_local_addr f' = fr_local_addr f
    else f' = f \<and> 0 < fr_write_pos f"
  using assms
  by (auto simp: add_next_octet_def write_ok_def buffered_def escape_octet_def take_update2 take_Suc_conv_app_nth
      split: if_splits)

context full_writer
begin

lemma transport_write_all:
  assumes "write_ok f" "0 < fr_write_pos f"
  shows "\<exists>w'. transport_write P f w = (True, f\<lparr>fr_write_pos := 0\<rparr>, w') \<and> sent w' = sent w @ buffered f"
proof -
  have ne: "buffered f \<noteq> []" "length (buffered f) = fr_write_pos f" using assms by (auto simp: buffered_def write_ok_def)
  obtain res w' where r: "write_callback P (buffered f) w = (res, w')" by (cases "write_callback P (buffered f) w")
  with write_all [OF ne(1) r] ne show ?thesis
    by (simp add: transport_write_def write_loop.simps [of _ _ 0] Let_def flip: buffered_def)
qed

lemma write_octets_all:
  assumes "write_ok f" "length buf < 65536" "n \<le> length buf"
  shows "\<exists>f' w'. write_octets P buf (of_nat n) crc f w = Some (True, foldl update_crc crc (drop n buf), f', w')
    \<and> write_ok f' \<and> sent w' @ buffered f' = sent w @ buffered f @ escape (drop n buf)"
  using assms(1,3)
proof (induction "length buf - n" arbitrary: n crc f w)
  case 0
  then have "unat (of_nat n :: u16) = length buf" using assms(2) by (simp add: unat_of_nat)
  with 0 show ?case by (subst write_octets.simps) auto
next
  case (Suc k)
  then have n: "n < length buf" by simp
  then have u: "unat (of_nat n :: u16) = n" using assms(2) by (simp add: unat_of_nat)
  have d: "drop n buf = buf ! n # drop (n + 1) buf" using n by (simp add: Cons_nth_drop_Suc)
  have go: "\<exists>f' w'. write_octets P buf (of_nat n) crc g v = Some (True, foldl update_crc crc (drop n buf), f', w')
      \<and> write_ok f' \<and> sent w' @ buffered f' = sent v @ buffered g @ escape (drop n buf)"
    if "add_next_octet (buf ! n) g = (True, g')" "write_ok g" for g g' v
  proof -
    have g': "write_ok g'" "buffered g' = buffered g @ escape_octet (buf ! n)"
      using add_next_octet_cases [OF that(2,1)] by auto
    have "k = length buf - (n + 1)" "n + 1 \<le> length buf" using Suc.hyps(2) n by auto
    from Suc.hyps(1) [OF this(1) g'(1) this(2), of "update_crc crc (buf ! n)" v] show ?thesis
      using n that(1) g'(2) by (subst write_octets.simps) (simp add: u d add.commute)
  qed
  show ?case
  proof (cases "add_next_octet (buf ! n) f")
    case (Pair ok f')
    show ?thesis
    proof (cases ok)
      case True
      with Pair go Suc.prems(1) show ?thesis by simp
    next
      case False
      with add_next_octet_cases [OF Suc.prems(1) Pair] have f': "f' = f" "0 < fr_write_pos f" by auto
      obtain w' where w': "transport_write P f w = (True, f\<lparr>fr_write_pos := 0\<rparr>, w')" "sent w' = sent w @ buffered f"
        using transport_write_all [OF Suc.prems(1) f'(2)] by blast
      let ?g = "f\<lparr>fr_write_pos := 0\<rparr>"
      have g: "write_ok ?g" "buffered ?g = []" using Suc.prems(1) by (auto simp: write_ok_def buffered_def)
      obtain g' where g': "add_next_octet (buf ! n) ?g = (True, g')" using add_next_octet_ok [OF g(1)] by auto
      have "write_octets P buf (of_nat n) crc f w = write_octets P buf (of_nat n) crc ?g w'"
        using n Pair False f'(1) w'(1) by (subst write_octets.simps) (simp add: u)
      with go [OF g' g(1), of w'] w'(2) g(2) show ?thesis by simp
    qed
  qed
qed

end

text \<open>A concrete line: what is still to be received and what was sent.\<close>

record wire =
  wire_rx :: "u8 list"
  wire_tx :: "u8 list"

definition wire_port :: "wire port" where
  "wire_port = \<lparr>write_callback = (\<lambda>bs w. (int (length bs), w\<lparr>wire_tx := wire_tx w @ bs\<rparr>)),
     read_callback = (\<lambda>n t w. (int (min n (length (wire_rx w))), take n (wire_rx w), w\<lparr>wire_rx := drop n (wire_rx w)\<rparr>)),
     steady_clock = (\<lambda>w. 0)\<rparr>"

interpretation wire_writer: full_writer wire_port wire_tx
  by unfold_locales (auto simp: wire_port_def)

text \<open>Writing a frame. On a line that takes all bytes, for a payload of fewer than 65536 bytes and
  any state of the object, \<open>write_framed_msg\<close> returns, reports the payload length, and exactly one frame
  has been sent: begin flag, escaped addresses, length, payload and CRC.\<close>

theorem write_framed_msg_sends_frame:
  assumes "full_writer P sent" and "length (fr_write_buffer f) = 42" and "length buf < 65536"
  shows "\<exists>f' w'. write_framed_msg P buf remote_addr f w = Some (length buf, f', w')
    \<and> sent w' = sent w @ frame (fr_local_addr f) remote_addr buf"
proof -
  define f1 where "f1 = f\<lparr>fr_write_buffer := (fr_write_buffer f)[0 := framing_begin_flag], fr_write_pos := 1\<rparr>"
  have f1: "write_ok f1" "buffered f1 = [framing_begin_flag]" "fr_local_addr f1 = fr_local_addr f" "fr_write_pos f1 \<le> 1"
    using assms(2) by (auto simp: f1_def write_ok_def buffered_def take_Suc_conv_app_nth)
  have header: "\<exists>g'. add_next_octet x g = (True, g') \<and> write_ok g' \<and> buffered g' = buffered g @ escape_octet x
      \<and> fr_local_addr g' = fr_local_addr g \<and> fr_write_pos g' \<le> m + 2"
    if "write_ok g" "fr_write_pos g \<le> m" "m < 41" for x g m
    using add_next_octet_ok [OF that(1), of x] that(2,3) by fastforce
  obtain f2 where f2: "add_next_octet (fr_local_addr f1) f1 = (True, f2)" "write_ok f2"
      "buffered f2 = buffered f1 @ escape_octet (fr_local_addr f)" "fr_write_pos f2 \<le> 3"
    using header [OF f1(1,4)] f1(3) by fastforce
  obtain f3 where f3: "add_next_octet remote_addr f2 = (True, f3)" "write_ok f3"
      "buffered f3 = buffered f2 @ escape_octet remote_addr" "fr_write_pos f3 \<le> 5"
    using header [OF f2(2,4)] by fastforce
  obtain f4 where f4: "add_next_octet (of_nat (length buf)) f3 = (True, f4)" "write_ok f4"
      "buffered f4 = buffered f3 @ escape_octet (of_nat (length buf))" "fr_write_pos f4 \<le> 7"
    using header [OF f3(2,4)] by fastforce
  obtain f5 where f5: "add_next_octet (of_nat (drop_bit 8 (length buf))) f4 = (True, f5)" "write_ok f5"
      "buffered f5 = buffered f4 @ escape_octet (of_nat (drop_bit 8 (length buf)))"
    using header [OF f4(2,4)] by fastforce
  obtain f6 w1 where f6: "write_octets P buf 0 0 f5 w = Some (True, crc_of buf, f6, w1)" "write_ok f6"
      "sent w1 @ buffered f6 = sent w @ buffered f5 @ escape buf"
    using full_writer.write_octets_all [OF assms(1) f5(2) assms(3), of 0 0 w] by (auto simp: crc_of_def)
  let ?crc = "[ucast (crc_of buf AND 0xFF), ucast (drop_bit 8 (crc_of buf))] :: u8 list"
  obtain c f7 w2 where f7: "write_octets P ?crc 0 (crc_of buf) f6 w1 = Some (True, c, f7, w2)" "write_ok f7"
      "sent w2 @ buffered f7 = sent w1 @ buffered f6 @ escape ?crc"
    using full_writer.write_octets_all [OF assms(1) f6(2), of ?crc 0 "crc_of buf" w1] by auto
  have all: "sent w2 @ buffered f7 = sent w @ frame (fr_local_addr f) remote_addr buf"
    by (simp add: f7(3) f6(3) f5(3) f4(3) f3(3) f2(3) f1(2) frame_def frame_octets_def flip: append_assoc)
  have "\<exists>f' w'. (if 0 < fr_write_pos f7 then transport_write P f7 w2 else (True, f7, w2)) = (True, f', w')
      \<and> sent w' = sent w2 @ buffered f7"
    using full_writer.transport_write_all [OF assms(1) f7(2), of w2] by (auto simp: buffered_def)
  with all show ?thesis
    unfolding write_framed_msg_def Let_def f1_def [symmetric]
    by (auto simp: f2(1) f3(1) f4(1) f5(1) f6(1) f7(1))
qed

theorem write_framed_msg_sends_frame_witness:
  "\<exists>f' w'. write_framed_msg wire_port [1, 0x7E, 3] 5 (FramingIO_new 9) \<lparr>wire_rx = [], wire_tx = []\<rparr> = Some (3, f', w')
    \<and> wire_tx w' = frame 9 5 [1, 0x7E, 3]"
  using write_framed_msg_sends_frame [OF wire_writer.full_writer_axioms, of "FramingIO_new 9" "[1, 0x7E, 3]" 5
      "\<lparr>wire_rx = [], wire_tx = []\<rparr>"]
  by (simp add: FramingIO_new_def numeral_3_eq_3)

end
