(* ===== verification/Framing_Reader.thy ===== *)
theory Framing_Reader
  imports Stream_Framing
begin

text \<open>
  Proofs about the reading half of the serial framing: the circular read buffer refines a queue, a
  delivered message has been checked, frames that were written are read back, and every call returns
  on a finite input. The operations are those of \<open>Stream_Framing\<close>.
\<close>

unbundle bit_operations_syntax

subsection \<open>The circular read buffer is a queue\<close>

definition ring_ok :: "FramingIO \<Rightarrow> bool" where
  "ring_ok f \<longleftrightarrow> length (fr_read_buffer f) = 42 \<and> fr_head f < 42 \<and> fr_tail f < 42"

definition ring_count :: "FramingIO \<Rightarrow> nat" where
  "ring_count f = (fr_head f + 42 - fr_tail f) mod 42"

definition pending :: "FramingIO \<Rightarrow> u8 list" where
  "pending f = map (\<lambda>i. fr_read_buffer f ! ((fr_tail f + i) mod 42)) [0..<ring_count f]"

lemma mod42_add: "a < 42 \<Longrightarrow> b < 42 \<Longrightarrow> (a + b) mod 42 = (if a + b < 42 then a + b else a + b - 42)" for a b :: nat
  by (simp add: mod_if)

lemma ring_count_if: "ring_ok f \<Longrightarrow> ring_count f =
   (if fr_tail f \<le> fr_head f then fr_head f - fr_tail f else fr_head f + 42 - fr_tail f)"
  by (auto simp: ring_count_def ring_ok_def mod_if)

lemma pending_empty: "ring_ok f \<Longrightarrow> pending f = [] \<longleftrightarrow> fr_head f = fr_tail f"
  by (auto simp: pending_def ring_count_if ring_ok_def)

lemma pending_length: "length (pending f) = ring_count f"
  by (simp add: pending_def)

lemma ring_advance:
  assumes "ring_ok f" "fr_head f \<noteq> fr_tail f"
  shows "pending f = fr_read_buffer f ! fr_tail f # pending (f\<lparr>fr_tail := ring_next (fr_tail f)\<rparr>)"
    and "ring_ok (f\<lparr>fr_tail := ring_next (fr_tail f)\<rparr>)"
proof -
  let ?g = "f\<lparr>fr_tail := ring_next (fr_tail f)\<rparr>"
  show ok: "ring_ok ?g" using assms by (simp add: ring_ok_def ring_next_def)
  have t: "fr_tail f < 42" "fr_head f < 42" using assms by (auto simp: ring_ok_def)
  have c: "ring_count f = Suc (ring_count ?g)"
    using assms t unfolding ring_count_if [OF assms(1)] ring_count_if [OF ok]
    by (auto simp: ring_next_def mod_if split: if_splits)
  have "(fr_tail f + Suc i) mod 42 = (ring_next (fr_tail f) + i) mod 42" for i
    by (simp add: ring_next_def mod_simps)
  then show "pending f = fr_read_buffer f ! fr_tail f # pending ?g"
    using t by (simp add: pending_def c upt_conv_Cons map_Suc_upt [symmetric] comp_def del: upt_Suc)
qed

lemma ring_store_length: "p + length bs \<le> length buf \<Longrightarrow> length (ring_store p bs buf) = length buf"
  by (simp add: ring_store_def)

lemma ring_store_nth: "p + length bs \<le> length buf \<Longrightarrow> i < length buf \<Longrightarrow>
   ring_store p bs buf ! i = (if p \<le> i \<and> i < p + length bs then bs ! (i - p) else buf ! i)"
  by (auto simp: ring_store_def nth_append min_def)

lemma ring_append:
  assumes "ring_ok f" "fr_head f + length bs \<le> 42" "ring_count f + length bs < 42"
    and "g = f\<lparr>fr_read_buffer := ring_store (fr_head f) bs (fr_read_buffer f), fr_head := (fr_head f + length bs) mod 42\<rparr>"
  shows "ring_ok g \<and> pending g = pending f @ bs"
proof
  have t: "fr_tail f < 42" "fr_head f < 42" "length (fr_read_buffer f) = 42" using assms(1) by (auto simp: ring_ok_def)
  show ok: "ring_ok g" using assms(1,2) by (simp add: assms(4) ring_ok_def ring_store_length)
  have c: "ring_count g = ring_count f + length bs"
    using assms(1-3) t ok unfolding ring_count_if [OF assms(1)] ring_count_if [OF ok]
    by (auto simp: assms(4) mod_if split: if_splits)
  show "pending g = pending f @ bs"
  proof (rule nth_equalityI)
    show "length (pending g) = length (pending f @ bs)" by (simp add: pending_length c)
  next
    fix i assume "i < length (pending g)"
    then have i: "i < ring_count f + length bs" by (simp add: pending_length c)
    have cell: "(fr_tail f + i) mod 42 < 42" by simp
    have "pending g ! i = ring_store (fr_head f) bs (fr_read_buffer f) ! ((fr_tail f + i) mod 42)"
      using i unfolding pending_def c by (simp add: assms(4))
    also have "\<dots> = (pending f @ bs) ! i"
    proof (cases "i < ring_count f")
      case True
      then have "\<not> (fr_head f \<le> (fr_tail f + i) mod 42 \<and> (fr_tail f + i) mod 42 < fr_head f + length bs)"
        using assms(1-3) t unfolding ring_count_if [OF assms(1)] by (auto simp: mod_if split: if_splits)
      moreover have "pending f ! i = fr_read_buffer f ! ((fr_tail f + i) mod 42)" using True by (simp add: pending_def)
      ultimately show ?thesis using True assms(2) t cell by (auto simp: ring_store_nth nth_append pending_length)
    next
      case False
      then obtain j where j: "i = ring_count f + j" "j < length bs" using i by (metis add_less_cancel_left le_add_diff_inverse not_less)
      then have "(fr_tail f + i) mod 42 = fr_head f + j"
        using assms(1-3) t unfolding ring_count_if [OF assms(1)] by (auto simp: mod_if split: if_splits)
      then show ?thesis using j assms(2) t by (simp add: ring_store_nth nth_append pending_length)
    qed
    finally show "pending g ! i = (pending f @ bs) ! i" .
  qed
qed

lemma ring_ok_update [simp]:
  "ring_ok (f\<lparr>fr_state := st\<rparr>) = ring_ok f" "ring_ok (f\<lparr>fr_remote_addr := a\<rparr>) = ring_ok f"
  "ring_ok (f\<lparr>fr_msg_len := n\<rparr>) = ring_ok f" "ring_ok (f\<lparr>fr_msg_crc := n\<rparr>) = ring_ok f"
  "ring_ok (f\<lparr>fr_msg_len := n, fr_msg_pos := p, fr_cmp_crc := c\<rparr>) = ring_ok f"
  by (simp_all add: ring_ok_def)

lemma pending_update [simp]:
  "pending (f\<lparr>fr_state := st\<rparr>) = pending f" "pending (f\<lparr>fr_remote_addr := a\<rparr>) = pending f"
  "pending (f\<lparr>fr_msg_len := n\<rparr>) = pending f" "pending (f\<lparr>fr_msg_crc := n\<rparr>) = pending f"
  "pending (f\<lparr>fr_msg_len := n, fr_msg_pos := p, fr_cmp_crc := c\<rparr>) = pending f"
  by (simp_all add: pending_def ring_count_def)

text \<open>Everything but the read buffer and its indices.\<close>

definition same_message :: "FramingIO \<Rightarrow> FramingIO \<Rightarrow> bool" where
  "same_message f g \<longleftrightarrow> fr_state g = fr_state f \<and> fr_local_addr g = fr_local_addr f \<and> fr_remote_addr g = fr_remote_addr f
     \<and> fr_msg_len g = fr_msg_len f \<and> fr_msg_pos g = fr_msg_pos f \<and> fr_msg_crc g = fr_msg_crc f
     \<and> fr_cmp_crc g = fr_cmp_crc f"

lemma same_message_trans: "same_message f g \<Longrightarrow> same_message g h \<Longrightarrow> same_message f h"
  by (simp add: same_message_def)

lemma same_message_ring [simp]: "same_message f (f\<lparr>fr_tail := t\<rparr>)"
  "same_message f (f\<lparr>fr_read_buffer := b, fr_head := h\<rparr>)" "same_message f (f\<lparr>fr_head := h, fr_tail := t\<rparr>)"
  "same_message f f"
  by (simp_all add: same_message_def)

lemma get_next_octet_pending:
  assumes "ring_ok f" "get_next_octet f = (ok, octet, f')"
  shows "ring_ok f' \<and> same_message f f'
    \<and> (case pending f of
         [] \<Rightarrow> \<not> ok \<and> octet = 0 \<and> pending f' = []
       | x # xs \<Rightarrow>
         if x \<noteq> framing_esc_flag then octet = x \<and> (ok \<longleftrightarrow> x \<noteq> framing_begin_flag) \<and> pending f' = xs
         else (case xs of [] \<Rightarrow> \<not> ok \<and> octet = 0 \<and> pending f' = [x]
               | y # ys \<Rightarrow> pending f' = ys \<and> (ok \<longleftrightarrow> y \<noteq> framing_begin_flag)
                   \<and> octet = (if ok then y XOR framing_xor_flag else y)))"
proof (cases "fr_head f = fr_tail f")
  case True
  with assms have "pending f = []" by (simp add: pending_empty)
  with True assms show ?thesis by (auto simp: get_next_octet_def)
next
  case False
  let ?g = "f\<lparr>fr_tail := ring_next (fr_tail f)\<rparr>"
  note adv = ring_advance [OF assms(1) False]
  show ?thesis
  proof (cases "fr_head f = ring_next (fr_tail f)")
    case True
    then have "pending ?g = []" using adv(2) by (simp add: pending_empty)
    with True False adv assms show ?thesis by (auto simp: get_next_octet_def Let_def)
  next
    case ne: False
    then have "fr_head ?g \<noteq> fr_tail ?g" by simp
    note adv2 = ring_advance [OF adv(2) this]
    have two: "?g\<lparr>fr_tail := ring_next (fr_tail ?g)\<rparr> = f\<lparr>fr_tail := (fr_tail f + 2) mod 42\<rparr>"
      by (simp add: ring_next_def mod_simps)
    show ?thesis using ne False adv adv2 assms(2) unfolding two
      by (auto simp: get_next_octet_def Let_def split: if_splits)
  qed
qed

subsection \<open>Reading from the line\<close>

text \<open>The bytes a sequence of read calls stored.\<close>

inductive reads :: "'w port \<Rightarrow> 'w \<Rightarrow> u8 list \<Rightarrow> 'w \<Rightarrow> bool" for P where
  reads_none: "reads P w [] w"
| reads_more: "reads P w bs w' \<Longrightarrow> 0 < n \<Longrightarrow> read_callback P n t w' = (res, cs, w'') \<Longrightarrow> reads P w (bs @ cs) w''"

lemma reads_one: "0 < n \<Longrightarrow> read_callback P n t w = (res, bs, w') \<Longrightarrow> reads P w bs w'"
  using reads_more [OF reads_none, of n P t w res bs w'] by simp

text \<open>A read callback that behaves like \<open>read(2)\<close>: a positive result is the number of bytes stored, at
  most what was asked for; otherwise nothing is stored.\<close>

locale read_port =
  fixes P :: "'w port"
  assumes read_result: "read_callback P n t w = (res, bs, w') \<Longrightarrow> length bs \<le> n \<and> res \<le> int (length bs) \<and> (bs \<noteq> [] \<longrightarrow> res = int (length bs))"
begin

lemma read_chunk_spec:
  assumes "ring_ok f" "fr_head f + a \<le> 42" "ring_count f + a < 42" "read_chunk P a t f w = (n, f', w')"
  shows "\<exists>bs. n = length bs \<and> n \<le> a \<and> ring_ok f' \<and> pending f' = pending f @ bs \<and> same_message f f'
    \<and> fr_head f' = (fr_head f + n) mod 42 \<and> fr_tail f' = fr_tail f
    \<and> (\<exists>res. read_callback P a t w = (res, bs, w'))"
proof -
  obtain res bs v where r: "read_callback P a t w = (res, bs, v)" by (metis prod_cases3)
  have b: "length bs \<le> a" "(if 0 < res then nat res else 0) = length bs" using read_result [OF r] by auto
  have f': "n = length bs" "w' = v" "f' = f\<lparr>fr_read_buffer := ring_store (fr_head f) bs (fr_read_buffer f),
      fr_head := (fr_head f + length bs) mod 42\<rparr>"
    using assms(4) b(2) by (auto simp: read_chunk_def r Let_def)
  show ?thesis using ring_append [OF assms(1) _ _ f'(3)] assms(2,3) b f' r
    by (intro exI [of _ bs]) (auto simp: f')
qed

end

lemma available_length_bounds:
  assumes "ring_ok f" "limit_length m (available_length f) = (a, b)"
    and "f1 = (if fr_head f = fr_tail f then f\<lparr>fr_head := 0, fr_tail := 0\<rparr> else f)"
  shows "ring_ok f1 \<and> pending f1 = pending f \<and> same_message f f1 \<and> fr_head f1 + a \<le> 42 \<and> ring_count f1 + a + b < 42
    \<and> (0 < b \<longrightarrow> fr_head f1 + a = 42) \<and> (0 < m \<and> length (pending f) < 41 \<longrightarrow> 0 < a)"
proof -
  have ok: "ring_ok f1" using assms(1,3) by (simp add: ring_ok_def)
  have p: "pending f1 = pending f"
  proof (cases "fr_head f = fr_tail f")
    case True
    then have "pending f = []" "pending f1 = []" using assms(1,3) ok by (simp_all add: pending_empty)
    then show ?thesis by simp
  qed (simp add: assms(3))
  have "fr_head f1 + a \<le> 42 \<and> ring_count f1 + a + b < 42 \<and> (0 < b \<longrightarrow> fr_head f1 + a = 42)
      \<and> (0 < m \<and> length (pending f) < 41 \<longrightarrow> 0 < a)"
    using assms unfolding pending_length ring_count_if [OF ok] ring_count_if [OF assms(1)]
    by (auto simp: available_length_def limit_length_def ring_ok_def split: if_splits)
  with ok p show ?thesis using assms(3) by auto
qed

context read_port
begin

lemma transport_read_spec:
  assumes "ring_ok f" "transport_read P t m f w = (n, t', f', w')"
  shows "\<exists>bs. n = length bs \<and> ring_ok f' \<and> pending f' = pending f @ bs \<and> same_message f f' \<and> reads P w bs w'
    \<and> (0 < m \<and> length (pending f) < 41 \<longrightarrow>
        (\<exists>a res bs0 w1. 0 < a \<and> read_callback P a t w = (res, bs0, w1) \<and> length bs0 \<le> n))"
proof -
  obtain a b where ab: "limit_length m (available_length f) = (a, b)" by (cases "limit_length m (available_length f)")
  define f1 where "f1 = (if fr_head f = fr_tail f then f\<lparr>fr_head := 0, fr_tail := 0\<rparr> else f)"
  note av = available_length_bounds [OF assms(1) ab f1_def]
  show ?thesis
  proof (cases "0 < a")
    case False
    with assms(2) ab av show ?thesis by (auto simp: transport_read_def Let_def f1_def [symmetric] reads_none)
  next
    case True
    obtain n0 f2 w1 where c0: "read_chunk P a t f1 w = (n0, f2, w1)" by (metis prod_cases3)
    obtain bs0 where bs0: "n0 = length bs0" "n0 \<le> a" "ring_ok f2" "pending f2 = pending f1 @ bs0" "same_message f1 f2"
        "fr_head f2 = (fr_head f1 + n0) mod 42" "\<exists>res. read_callback P a t w = (res, bs0, w1)"
      using read_chunk_spec [OF _ _ _ c0] av by fastforce
    have r0: "reads P w bs0 w1" using bs0(7) True by (auto intro: reads_one)
    show ?thesis
    proof (cases "0 < n0 \<and> n0 = a \<and> 0 < b")
      case False
      with True assms(2) ab c0 have "n = n0" "f' = f2" "w' = w1"
        by (auto simp: transport_read_def Let_def f1_def [symmetric] split: if_splits)
      then show ?thesis using bs0 av r0 True by (auto intro: same_message_trans)
    next
      case second: True
      obtain n1 f3 w2 where c1: "read_chunk P b 0 f2 w1 = (n1, f3, w2)" by (metis prod_cases3)
      have h: "fr_head f2 = 0" using bs0(6) av second by simp
      have "ring_count f2 = ring_count f1 + n0" using bs0(1,4) by (metis length_append pending_length)
      then have "fr_head f2 + b \<le> 42" "ring_count f2 + b < 42" using av second h by auto
      from read_chunk_spec [OF bs0(3) this c1] obtain bs1 where
        bs1: "n1 = length bs1" "ring_ok f3" "pending f3 = pending f2 @ bs1" "same_message f2 f3"
          "\<exists>res. read_callback P b 0 w1 = (res, bs1, w2)" by blast
      then have "reads P w (bs0 @ bs1) w2" using r0 second by (auto intro: reads_more)
      moreover have "n = n0 + n1" "f' = f3" "w' = w2"
        using True second assms(2) ab c0 c1 by (auto simp: transport_read_def Let_def f1_def [symmetric])
      moreover have "same_message f f3" using av bs0(5) bs1(4) by (blast intro: same_message_trans)
      moreover have "pending f3 = pending f @ bs0 @ bs1" using av bs0(4) bs1(3) by simp
      ultimately show ?thesis using bs0(1,7) bs1(1,2) True by (intro exI [of _ "bs0 @ bs1"]) auto
    qed
  qed
qed

end

lemma reader_read:
  assumes "read_port P" "ring_ok (rd_io r)" "rd_transport_read P m r = (n, r')"
  shows "\<exists>bs. n = length bs \<and> ring_ok (rd_io r') \<and> pending (rd_io r') = pending (rd_io r) @ bs
    \<and> same_message (rd_io r) (rd_io r') \<and> reads P (rd_world r) bs (rd_world r')
    \<and> rd_buf r' = rd_buf r \<and> rd_rv r' = rd_rv r \<and> rd_exit r' = rd_exit r \<and> rd_remote_addr r' = rd_remote_addr r
    \<and> (0 < m \<and> length (pending (rd_io r)) < 41 \<longrightarrow>
        (\<exists>a res bs0 w1. 0 < a \<and> read_callback P a (rd_timeout r) (rd_world r) = (res, bs0, w1) \<and> length bs0 \<le> n))"
proof -
  obtain k t f w where tr: "transport_read P (rd_timeout r) m (rd_io r) (rd_world r) = (k, t, f, w)"
    by (metis prod_cases4)
  with assms(3) have r': "n = k" "r' = r\<lparr>rd_timeout := t, rd_io := f, rd_world := w\<rparr>"
    by (auto simp: rd_transport_read_def)
  from read_port.transport_read_spec [OF assms(1,2) tr] show ?thesis by (auto simp: r')
qed

subsection \<open>What is delivered has been checked\<close>

text \<open>The bookkeeping of a frame in progress: how far the payload has been stored, and its CRC.\<close>

definition msg_ok :: "FramingIO \<Rightarrow> u8 list \<Rightarrow> bool" where
  "msg_ok f buf \<longleftrightarrow> ring_ok f
     \<and> (fr_state f \<in> {UXR_FRAMING_READING_PAYLOAD, UXR_FRAMING_READING_CRC_LSB, UXR_FRAMING_READING_CRC_MSB} \<longrightarrow>
          fr_msg_pos f \<le> fr_msg_len f \<and> unat (fr_msg_len f) \<le> length buf
          \<and> fr_cmp_crc f = crc_of (take (unat (fr_msg_pos f)) buf))
     \<and> (fr_state f \<in> {UXR_FRAMING_READING_CRC_LSB, UXR_FRAMING_READING_CRC_MSB} \<longrightarrow> fr_msg_pos f = fr_msg_len f)"

definition delivery_ok :: "'w reader \<Rightarrow> bool" where
  "delivery_ok r \<longleftrightarrow> msg_ok (rd_io r) (rd_buf r)
     \<and> (rd_rv r \<noteq> 0 \<longrightarrow> rd_exit r \<and> rd_rv r \<le> length (rd_buf r) \<and> crc_of (take (rd_rv r) (rd_buf r)) = fr_msg_crc (rd_io r)
          \<and> rd_remote_addr r = fr_remote_addr (rd_io r))"

lemma msg_ok_same: "same_message f g \<Longrightarrow> msg_ok f buf \<Longrightarrow> ring_ok g \<Longrightarrow> msg_ok g buf"
  by (auto simp: msg_ok_def same_message_def)

lemma crc_of_snoc: "n < length buf \<Longrightarrow> crc_of (take (Suc n) (buf[n := x])) = update_crc (crc_of (take n buf)) x"
  by (simp add: crc_of_def take_Suc_conv_app_nth)

lemma read_payload_ok:
  assumes "msg_ok f buf" "fr_state f = UXR_FRAMING_READING_PAYLOAD" "read_payload x buf f = (x', buf', f')"
  shows "msg_ok f' buf' \<and> fr_state f' = UXR_FRAMING_READING_PAYLOAD \<and> length buf' = length buf"
  using assms
proof (induction x buf f rule: read_payload.induct)
  case (1 x buf f)
  obtain ok oc g where g: "get_next_octet f = (ok, oc, g)" by (metis prod_cases3)
  have ring: "ring_ok f" using 1(2) by (simp add: msg_ok_def)
  from get_next_octet_pending [OF ring g] have sg: "ring_ok g" "same_message f g" by auto
  let ?h = "g\<lparr>fr_msg_pos := fr_msg_pos f + 1, fr_cmp_crc := update_crc (fr_cmp_crc f) oc\<rparr>"
  show ?case
  proof (cases "fr_msg_pos f < fr_msg_len f \<and> ok")
    case False
    then have "read_payload x buf f = (if fr_msg_pos f < fr_msg_len f then (oc, buf, g) else (x, buf, f))"
      by (subst read_payload.simps) (auto simp: g)
    with 1(2-4) sg msg_ok_same [OF sg(2) 1(2) sg(1)] show ?thesis by (auto simp: same_message_def split: if_splits)
  next
    case True
    have inc: "unat (fr_msg_pos f + 1) = Suc (unat (fr_msg_pos f))" using True unat_inc by fastforce
    have lt: "unat (fr_msg_pos f) < unat (fr_msg_len f)" using True by (simp add: word_less_nat_alt)
    have "msg_ok ?h (buf[unat (fr_msg_pos f) := oc])"
      using 1(2,3) sg lt inc by (auto simp: msg_ok_def same_message_def ring_ok_def crc_of_snoc word_le_nat_alt)
    moreover have "read_payload oc (buf[unat (fr_msg_pos f) := oc]) ?h = (x', buf', f')"
      using 1(4) True g by (subst (asm) read_payload.simps) simp
    ultimately show ?thesis using 1(1) True g sg(2) 1(3) by (auto simp: same_message_def)
  qed
qed

lemma no_octet_ok:
  assumes "read_port P" "msg_ok (rd_io r) (rd_buf r)" "rd_rv r = 0"
  shows "delivery_ok (no_octet P m x r) \<and> rd_rv (no_octet P m x r) = 0 \<and> rd_buf (no_octet P m x r) = rd_buf r"
proof -
  obtain n r' where r': "rd_transport_read P m r = (n, r')" by (cases "rd_transport_read P m r")
  have ring: "ring_ok (rd_io r)" using assms(2) by (simp add: msg_ok_def)
  from reader_read [OF assms(1) ring r'] have "ring_ok (rd_io r')" "same_message (rd_io r) (rd_io r')"
    "rd_buf r' = rd_buf r" "rd_rv r' = 0" using assms(3) by auto
  moreover from this have "msg_ok (rd_io r') (rd_buf r)" using msg_ok_same assms(2) by blast
  ultimately show ?thesis
    by (auto simp: no_octet_def r' delivery_ok_def rd_set_state_def msg_ok_def ring_ok_def)
qed

lemma skip_to_begin_spec:
  assumes "ring_ok f" "x \<noteq> framing_begin_flag"
  shows "\<exists>y g. skip_to_begin x f = Some (y, g) \<and> ring_ok g \<and> same_message f g
    \<and> (if framing_begin_flag \<in> set (pending f)
        then y = framing_begin_flag
          \<and> (\<exists>us. pending f = us @ framing_begin_flag # pending g \<and> framing_begin_flag \<notin> set us)
        else y \<noteq> framing_begin_flag \<and> pending g = [])"
  using assms
proof (induction "pending f" arbitrary: x f)
  case Nil
  then have "fr_head f = fr_tail f" using pending_empty by metis
  with Nil show ?case by (subst skip_to_begin.simps) auto
next
  case (Cons a as)
  let ?f = "f\<lparr>fr_tail := ring_next (fr_tail f)\<rparr>"
  have ne: "fr_head f \<noteq> fr_tail f" using Cons.hyps(2) Cons.prems(1) pending_empty by fastforce
  note adv = ring_advance [OF Cons.prems(1) ne]
  have a: "fr_read_buffer f ! fr_tail f = a" "pending ?f = as" "pending f = a # as" using adv(1) Cons.hyps(2) by auto
  have step: "skip_to_begin x f = skip_to_begin a ?f"
    using ne Cons.prems(2) by (subst skip_to_begin.simps) (auto simp: a)
  show ?case
  proof (cases "a = framing_begin_flag")
    case True
    then have "skip_to_begin a ?f = Some (a, ?f)" by (subst skip_to_begin.simps) simp
    with step adv(2) True a show ?thesis by (auto intro: exI [of _ "[]"])
  next
    case False
    from Cons.hyps(1) [OF a(2) [symmetric] adv(2) False, unfolded a(2)] obtain y g where
      g: "skip_to_begin a ?f = Some (y, g)" "ring_ok g" "same_message ?f g"
        "if framing_begin_flag \<in> set as then y = framing_begin_flag
          \<and> (\<exists>us. as = us @ framing_begin_flag # pending g \<and> framing_begin_flag \<notin> set us)
        else y \<noteq> framing_begin_flag \<and> pending g = []" by blast
    have "same_message f g" using g(3) by (rule same_message_trans [rotated]) simp
    moreover have "\<exists>us. a # as = us @ framing_begin_flag # pending g \<and> framing_begin_flag \<notin> set us"
      if "framing_begin_flag \<in> set as"
      using that g(4) False by (auto intro: exI [of _ "a # us" for us] simp: Cons_eq_append_conv)
    ultimately show ?thesis using step g False a(3) by (auto split: if_splits)
  qed
qed

lemma get_octet_ok:
  assumes "msg_ok f buf" "get_next_octet f = (ok, x, g)"
  shows "msg_ok g buf" "same_message f g"
  using get_next_octet_pending [OF _ assms(2)] assms(1) msg_ok_same by (auto simp: msg_ok_def)

lemma msg_ok_ring: "msg_ok f buf \<Longrightarrow> ring_ok f"
  by (simp add: msg_ok_def)

text \<open>A state before the payload carries no obligation but the ring.\<close>

lemma header_delivery_ok:
  assumes "ring_ok (rd_io r)" "rd_rv r = 0"
    and "fr_state (rd_io r) \<notin> {UXR_FRAMING_READING_PAYLOAD, UXR_FRAMING_READING_CRC_LSB, UXR_FRAMING_READING_CRC_MSB}"
  shows "delivery_ok r"
  using assms by (auto simp: delivery_ok_def msg_ok_def)

lemma read_step_ok:
  assumes "read_port P" "delivery_ok r" "\<not> rd_exit r" "read_step P (length (rd_buf r)) r = Some r'"
  shows "delivery_ok r' \<and> length (rd_buf r') = length (rd_buf r)"
proof -
  have m: "msg_ok (rd_io r) (rd_buf r)" "rd_rv r = 0" using assms(2,3) by (auto simp: delivery_ok_def)
  obtain ok x f where g: "get_next_octet (rd_io r) = (ok, x, f)" by (metis prod_cases3)
  note f = get_octet_ok [OF m(1) g]
  have no: "delivery_ok (no_octet P n x (r\<lparr>rd_io := f\<rparr>)) \<and> rd_buf (no_octet P n x (r\<lparr>rd_io := f\<rparr>)) = rd_buf r" for n
    using no_octet_ok [OF assms(1), of "r\<lparr>rd_io := f\<rparr>" n x] f(1) m(2) by simp
  have ring: "ring_ok f" "ring_ok (rd_io r)" using f(1) m(1) by (auto dest: msg_ok_ring)
  show ?thesis
  proof (cases "fr_state (rd_io r)")
    case UXR_FRAMING_UNINITIALIZED
    obtain y h where h: "skip_to_begin 0 (rd_io r) = Some (y, h)" "ring_ok h" "same_message (rd_io r) h"
      using skip_to_begin_spec [OF ring(2), of 0] by (auto simp: framing_begin_flag_def)
    with assms(4) UXR_FRAMING_UNINITIALIZED m show ?thesis
      by (auto simp: read_step_def step_uninitialized_def rd_set_state_def same_message_def ring_ok_def
          intro!: header_delivery_ok split: if_splits)
  next
    case UXR_FRAMING_READING_SRC_ADDR
    let ?r = "r\<lparr>rd_io := f\<lparr>fr_remote_addr := x\<rparr>\<rparr>"
    obtain n r2 where r2: "rd_transport_read P 4 ?r = (n, r2)" by (cases "rd_transport_read P 4 ?r")
    have "ring_ok (rd_io ?r)" using ring(1) by (simp add: ring_ok_def)
    from reader_read [OF assms(1) this r2] have "ring_ok (rd_io r2)" "same_message (rd_io ?r) (rd_io r2)"
      "rd_buf r2 = rd_buf r" "rd_rv r2 = 0" using m(2) by auto
    with assms(4) UXR_FRAMING_READING_SRC_ADDR m(2) f(2) r2 ring(1) show ?thesis
      by (auto simp: read_step_def step_src_addr_def g Let_def rd_set_state_def same_message_def ring_ok_def
          intro!: header_delivery_ok split: if_splits)
  next
    case UXR_FRAMING_READING_DST_ADDR
    show ?thesis
    proof (cases ok)
      case True
      then show ?thesis using assms(4) UXR_FRAMING_READING_DST_ADDR m f ring(1)
        by (auto simp: read_step_def step_dst_addr_def g Let_def rd_set_state_def delivery_ok_def msg_ok_def same_message_def
            split: if_splits)
    next
      case False
      then have "r' = no_octet P 3 x (r\<lparr>rd_io := f\<rparr>)"
        using assms(4) UXR_FRAMING_READING_DST_ADDR by (simp add: read_step_def step_dst_addr_def g)
      with no show ?thesis by simp
    qed
  next
    case UXR_FRAMING_READING_LEN_LSB
    show ?thesis
    proof (cases ok)
      case True
      then show ?thesis using assms(4) UXR_FRAMING_READING_LEN_LSB m f ring(1)
        by (auto simp: read_step_def step_len_lsb_def g Let_def rd_set_state_def delivery_ok_def msg_ok_def same_message_def)
    next
      case False
      then have "r' = no_octet P 2 x (r\<lparr>rd_io := f\<rparr>)"
        using assms(4) UXR_FRAMING_READING_LEN_LSB by (simp add: read_step_def step_len_lsb_def g)
      with no show ?thesis by simp
    qed
  next
    case UXR_FRAMING_READING_LEN_MSB
    show ?thesis
    proof (cases ok)
      case True
      then show ?thesis using assms(4) UXR_FRAMING_READING_LEN_MSB m f ring(1)
        by (auto simp: read_step_def step_len_msb_def g Let_def rd_set_state_def delivery_ok_def msg_ok_def same_message_def crc_of_def
            split: if_splits)
    next
      case False
      then have "r' = no_octet P 1 x (r\<lparr>rd_io := f\<rparr>)"
        using assms(4) UXR_FRAMING_READING_LEN_MSB by (simp add: read_step_def step_len_msb_def g)
      with no show ?thesis by simp
    qed
  next
    case UXR_FRAMING_READING_PAYLOAD
    obtain y buf h where h: "read_payload 0 (rd_buf r) (rd_io r) = (y, buf, h)" by (metis prod_cases3)
    note pl = read_payload_ok [OF m(1) UXR_FRAMING_READING_PAYLOAD h]
    let ?r = "r\<lparr>rd_io := h, rd_buf := buf\<rparr>"
    let ?n = "unat (fr_msg_len h) - unat (fr_msg_pos h) + 2"
    obtain n r2 where r2: "rd_transport_read P ?n ?r = (n, r2)" by (cases "rd_transport_read P ?n ?r")
    have "ring_ok (rd_io ?r)" using pl by (simp add: msg_ok_def)
    from reader_read [OF assms(1) this r2] have "ring_ok (rd_io r2)" "same_message h (rd_io r2)"
      "rd_buf r2 = buf" "rd_rv r2 = 0" using m(2) by auto
    with pl msg_ok_same have r2_ok: "delivery_ok r2" "delivery_ok (r2\<lparr>rd_exit := True\<rparr>)" "rd_buf r2 = buf"
      by (auto simp: delivery_ok_def)
    have lsb: "delivery_ok (rd_set_state UXR_FRAMING_READING_CRC_LSB ?r)" if "fr_msg_pos h = fr_msg_len h"
      using that pl m(2) by (auto simp: delivery_ok_def msg_ok_def rd_set_state_def ring_ok_def)
    have src: "delivery_ok (rd_set_state UXR_FRAMING_READING_SRC_ADDR ?r)"
      using pl m(2) by (simp add: delivery_ok_def msg_ok_def rd_set_state_def ring_ok_def)
    have "r' = (if fr_msg_pos h = fr_msg_len h then rd_set_state UXR_FRAMING_READING_CRC_LSB ?r
        else if framing_begin_flag = y then rd_set_state UXR_FRAMING_READING_SRC_ADDR ?r
        else if 0 < n then r2 else r2\<lparr>rd_exit := True\<rparr>)"
      using assms(4) r2 by (simp add: read_step_def UXR_FRAMING_READING_PAYLOAD step_payload_def h Let_def split: if_splits)
    then show ?thesis using lsb src r2_ok pl by (simp add: rd_set_state_def split: if_splits)
  next
    case UXR_FRAMING_READING_CRC_LSB
    show ?thesis
    proof (cases ok)
      case True
      then show ?thesis using assms(4) UXR_FRAMING_READING_CRC_LSB m f ring(1)
        by (auto simp: read_step_def step_crc_lsb_def g Let_def rd_set_state_def delivery_ok_def msg_ok_def same_message_def)
    next
      case False
      then have "r' = no_octet P 2 x (r\<lparr>rd_io := f\<rparr>)"
        using assms(4) UXR_FRAMING_READING_CRC_LSB by (simp add: read_step_def step_crc_lsb_def g)
      with no show ?thesis by simp
    qed
  next
    case UXR_FRAMING_READING_CRC_MSB
    show ?thesis
    proof (cases ok)
      case True
      then show ?thesis using assms(4) UXR_FRAMING_READING_CRC_MSB m f ring(1)
        by (auto simp: read_step_def step_crc_msb_def g Let_def rd_set_state_def delivery_ok_def msg_ok_def same_message_def ring_ok_def)
    next
      case False
      then have "r' = no_octet P 1 x (r\<lparr>rd_io := f\<rparr>)"
        using assms(4) UXR_FRAMING_READING_CRC_MSB by (simp add: read_step_def step_crc_msb_def g)
      with no show ?thesis by simp
    qed
  qed
qed

lemma read_loop_ok:
  assumes "read_loop P len r = Some r'" "read_port P" "delivery_ok r" "length (rd_buf r) = len"
  shows "delivery_ok r' \<and> length (rd_buf r') = len"
proof -
  have "case x of ((Q, n), s) \<Rightarrow> read_port Q \<longrightarrow> delivery_ok s \<longrightarrow> length (rd_buf s) = n
      \<longrightarrow> delivery_ok s' \<and> length (rd_buf s') = n" if "x = ((P, len), r)" "s' = r'" for x s'
    unfolding that
  proof (rule read_loop.raw_induct [OF _ assms(1)], goal_cases)
    case (1 rec Q n s t)
    show ?case
    proof (cases "rd_exit s")
      case True
      with 1(2) show ?thesis by simp
    next
      case False
      with 1(2) obtain u where u: "read_step Q n s = Some u" "rec Q n u = Some t" by (auto split: option.splits)
      show ?thesis
      proof (clarify)
        assume a: "read_port Q" "delivery_ok s" "n = length (rd_buf s)"
        have "delivery_ok u \<and> length (rd_buf u) = length (rd_buf s)"
          using read_step_ok [OF a(1,2) False] u(1) a(3) by simp
        with 1(1) [OF u(2)] a show "delivery_ok t \<and> length (rd_buf t) = length (rd_buf s)" by simp
      qed
    qed
  qed
  from this [OF refl refl] assms(2-4) show ?thesis by simp
qed

lemma msg_ok_new: "msg_ok (FramingIO_new a) buf"
  by (simp add: msg_ok_def FramingIO_new_def ring_ok_def)

lemma read_framed_msg_ok:
  assumes "read_port P" "msg_ok f buf" "read_framed_msg P buf remote_addr timeout f w = Some r"
  shows "delivery_ok r \<and> length (rd_buf r) = length buf"
proof -
  let ?r0 = "\<lparr>rd_io = f, rd_buf = buf, rd_remote_addr = remote_addr, rd_timeout = timeout, rd_rv = 0,
                rd_exit = False, rd_world = w\<rparr>"
  define r1 where "r1 = (if fr_tail f = fr_head f then snd (rd_transport_read P 5 ?r0) else ?r0)"
  have ring: "ring_ok (rd_io ?r0)" using assms(2) by (simp add: msg_ok_def)
  obtain n r' where r': "rd_transport_read P 5 ?r0 = (n, r')" by (cases "rd_transport_read P 5 ?r0")
  from reader_read [OF assms(1) ring r'] have "ring_ok (rd_io r')" "same_message f (rd_io r')" "rd_buf r' = buf" "rd_rv r' = 0"
    by auto
  with assms(2) msg_ok_same r' have r1: "delivery_ok r1" "rd_buf r1 = buf" by (auto simp: r1_def delivery_ok_def)
  with assms(3) read_loop_ok [OF _ assms(1)] show ?thesis
    by (auto simp: read_framed_msg_def Let_def r1_def [symmetric] split: if_splits)
qed

text \<open>C12: Checked delivery. Whatever bytes the line produces, a message \<open>read_framed_msg\<close> reports lies
  inside the caller's buffer, and the CRC of exactly the reported bytes is the CRC received with the
  frame; the source address reported is the frame's. The bookkeeping invariant and the read buffer's
  index bounds hold again afterwards, so this stays true over any sequence of calls.\<close>

theorem framing_delivers_checked:
  assumes "read_port P" and "msg_ok f buf" and "read_framed_msg P buf remote_addr timeout f w = Some r"
  shows "msg_ok (rd_io r) (rd_buf r) \<and> length (rd_buf r) = length buf \<and> rd_rv r \<le> length buf
    \<and> (rd_rv r \<noteq> 0 \<longrightarrow> crc_of (take (rd_rv r) (rd_buf r)) = fr_msg_crc (rd_io r)
          \<and> rd_remote_addr r = fr_remote_addr (rd_io r))"
  using read_framed_msg_ok [OF assms] by (auto simp: delivery_ok_def)

subsection \<open>Reading a frame\<close>

text \<open>A line with bytes still to come: a read takes at least one of them when there are any.\<close>

locale serial_line = read_port +
  fixes incoming :: "'a \<Rightarrow> u8 list"
  assumes incoming_read: "0 < n \<Longrightarrow> read_callback P n t w = (res, bs, w') \<Longrightarrow>
      incoming w = bs @ incoming w' \<and> (incoming w \<noteq> [] \<longrightarrow> bs \<noteq> [])"
begin

lemma reads_incoming: "reads P w bs w' \<Longrightarrow> incoming w = bs @ incoming w'"
proof (induction rule: reads.induct)
  case (reads_more w bs w' n t res cs w'')
  then show ?case using incoming_read by simp
qed simp

text \<open>The bytes not yet consumed, buffered or on the line.\<close>

definition unread :: "'a reader \<Rightarrow> u8 list" where
  "unread r = pending (rd_io r) @ incoming (rd_world r)"

lemma reader_read_unread:
  assumes "ring_ok (rd_io r)" "rd_transport_read P m r = (n, r')"
  shows "unread r' = unread r" "length (incoming (rd_world r')) + n = length (incoming (rd_world r))"
    and "0 < m \<Longrightarrow> length (pending (rd_io r)) < 41 \<Longrightarrow> incoming (rd_world r) \<noteq> [] \<Longrightarrow> 0 < n"
proof -
  obtain bs where bs: "n = length bs" "pending (rd_io r') = pending (rd_io r) @ bs" "reads P (rd_world r) bs (rd_world r')"
    "0 < m \<and> length (pending (rd_io r)) < 41 \<longrightarrow>
        (\<exists>a res bs0 w1. 0 < a \<and> read_callback P a (rd_timeout r) (rd_world r) = (res, bs0, w1) \<and> length bs0 \<le> n)"
    using reader_read [OF read_port_axioms assms] by blast
  have inc: "incoming (rd_world r) = bs @ incoming (rd_world r')" by (rule reads_incoming [OF bs(3)])
  show "unread r' = unread r" using bs(2) inc by (simp add: unread_def)
  show "length (incoming (rd_world r')) + n = length (incoming (rd_world r))" using bs(1) inc by simp
  show "0 < n" if "0 < m" "length (pending (rd_io r)) < 41" "incoming (rd_world r) \<noteq> []"
  proof -
    from bs(4) that obtain a res bs0 w1 where "0 < a" "read_callback P a (rd_timeout r) (rd_world r) = (res, bs0, w1)"
      "length bs0 \<le> n" by blast
    with incoming_read that(3) have "bs0 \<noteq> []" by blast
    with \<open>length bs0 \<le> n\<close> show ?thesis by (cases bs0) auto
  qed
qed

end

lemma escape_octet_flags: "framing_begin_flag \<notin> set (escape_octet x)"
  by (auto simp: escape_octet_def framing_begin_flag_def framing_esc_flag_def framing_xor_flag_def)

lemma octet_xor_twice: "(x XOR framing_xor_flag) XOR framing_xor_flag = (x :: u8)"
  by (simp add: xor.assoc)

lemma fetch_octet:
  assumes "ring_ok f" "pending f @ inc = escape_octet x @ rest"
  shows "(\<exists>g. get_next_octet f = (True, x, g) \<and> ring_ok g \<and> same_message f g \<and> pending g @ inc = rest)
    \<or> (\<exists>g. get_next_octet f = (False, 0, g) \<and> ring_ok g \<and> same_message f g \<and> pending g = pending f
        \<and> length (pending g) < 2 \<and> inc \<noteq> [])"
proof -
  obtain ok y g where g: "get_next_octet f = (ok, y, g)" by (metis prod_cases3)
  note sp = get_next_octet_pending [OF assms(1) g]
  show ?thesis
  proof (cases "framing_begin_flag = x \<or> framing_esc_flag = x")
    case True
    then have e: "escape_octet x = [framing_esc_flag, x XOR framing_xor_flag]" by (simp add: escape_octet_def)
    have nb: "x XOR framing_xor_flag \<noteq> framing_begin_flag" using escape_octet_flags [of x] e by auto
    from assms(2) e consider "pending f = []" "inc \<noteq> []" | "pending f = [framing_esc_flag]" "inc \<noteq> []"
      | ys where "pending f = framing_esc_flag # (x XOR framing_xor_flag) # ys" "ys @ inc = rest"
      by (auto simp: Cons_eq_append_conv append_eq_Cons_conv)
    then show ?thesis using g sp nb by cases (auto simp: octet_xor_twice)
  next
    case False
    then have e: "escape_octet x = [x]" by (simp add: escape_octet_def)
    from assms(2) e consider "pending f = []" "inc \<noteq> []" | ys where "pending f = x # ys" "ys @ inc = rest"
      by (auto simp: append_eq_Cons_conv)
    then show ?thesis using g sp False by cases auto
  qed
qed

subsubsection \<open>One stage per state\<close>

text \<open>What stays the same while the reader waits for an octet.\<close>

definition waits :: "'w reader \<Rightarrow> 'w reader \<Rightarrow> bool" where
  "waits r r' \<longleftrightarrow> same_message (rd_io r) (rd_io r') \<and> rd_buf r' = rd_buf r \<and> rd_rv r' = rd_rv r \<and> rd_exit r' = rd_exit r
     \<and> rd_remote_addr r' = rd_remote_addr r"

lemma waits_trans: "waits r s \<Longrightarrow> waits s t \<Longrightarrow> waits r t"
  by (auto simp: waits_def intro: same_message_trans)

lemma waits_io: "same_message (rd_io r) f \<Longrightarrow> waits r (r\<lparr>rd_io := f\<rparr>)"
  by (simp add: waits_def)

context serial_line
begin

lemma wait_octet:
  assumes "ring_ok (rd_io r)" "incoming (rd_world r) \<noteq> []" "length (pending (rd_io r)) < 2" "0 < m"
  shows "\<exists>n r'. rd_transport_read P m r = (n, r') \<and> 0 < n \<and> waits r r' \<and> ring_ok (rd_io r') \<and> unread r' = unread r
    \<and> length (incoming (rd_world r')) < length (incoming (rd_world r))"
proof -
  obtain n r' where r': "rd_transport_read P m r = (n, r')" by (cases "rd_transport_read P m r")
  note u = reader_read_unread [OF assms(1) r']
  have "0 < n" using u(3) assms by simp
  moreover have "waits r r'" "ring_ok (rd_io r')"
    using reader_read [OF read_port_axioms assms(1) r'] by (auto simp: waits_def)
  ultimately show ?thesis using u(1,2) r' by auto
qed

text \<open>A state that reads one octet and then acts on it.\<close>

lemma octet_stage:
  assumes step: "\<And>r. fr_state (rd_io r) = st \<Longrightarrow> read_step P len r =
      Some (case get_next_octet (rd_io r) of (ok, x, f) \<Rightarrow>
              if ok then act x (r\<lparr>rd_io := f\<rparr>) else no_octet P m x (r\<lparr>rd_io := f\<rparr>))"
    and "0 < m" "fr_state (rd_io r) = st" "ring_ok (rd_io r)" "\<not> rd_exit r" "unread r = escape_octet x @ rest"
  shows "\<exists>r'. read_loop P len r = read_loop P len (act x r') \<and> waits r r' \<and> ring_ok (rd_io r') \<and> unread r' = rest"
  using assms(3-6)
proof (induction "length (incoming (rd_world r))" arbitrary: r rule: less_induct)
  case less
  let ?inc = "incoming (rd_world r)"
  from fetch_octet [OF less.prems(2)] less.prems(4) consider
    g where "get_next_octet (rd_io r) = (True, x, g)" "ring_ok g" "same_message (rd_io r) g" "pending g @ ?inc = rest"
  | g where "get_next_octet (rd_io r) = (False, 0, g)" "ring_ok g" "same_message (rd_io r) g"
      "pending g = pending (rd_io r)" "length (pending g) < 2" "?inc \<noteq> []"
    unfolding unread_def by blast
  then show ?case
  proof cases
    case (1 g)
    have "read_loop P len r = read_loop P len (act x (r\<lparr>rd_io := g\<rparr>))"
      using less.prems(1,3) 1(1) by (subst read_loop.simps) (simp add: step)
    with 1 show ?thesis by (intro exI [of _ "r\<lparr>rd_io := g\<rparr>"]) (auto simp: unread_def intro: waits_io)
  next
    case (2 g)
    let ?r = "r\<lparr>rd_io := g\<rparr>"
    obtain n r1 where r1: "rd_transport_read P m ?r = (n, r1)" "0 < n" "waits ?r r1" "ring_ok (rd_io r1)"
        "unread r1 = unread ?r" "length (incoming (rd_world r1)) < length ?inc"
      using wait_octet [of ?r m] 2 assms(2) by auto
    have w: "waits r r1" using waits_io [OF 2(3)] r1(3) by (rule waits_trans)
    have "read_loop P len r = read_loop P len r1"
      using less.prems(1,3) 2(1) r1(1,2) by (subst read_loop.simps) (simp add: step no_octet_def)
    moreover have "unread r1 = escape_octet x @ rest" using r1(5) 2(4) less.prems(4) by (simp add: unread_def)
    then obtain r' where "read_loop P len r1 = read_loop P len (act x r')" "waits r1 r'" "ring_ok (rd_io r')" "unread r' = rest"
      using less.hyps [OF r1(6)] less.prems w r1(4) by (auto simp: waits_def same_message_def)
    ultimately show ?thesis using w by (auto intro: waits_trans)
  qed
qed

end

text \<open>The fields a frame fixes before its payload.\<close>

definition same_frame :: "FramingIO \<Rightarrow> FramingIO \<Rightarrow> bool" where
  "same_frame f g \<longleftrightarrow> fr_local_addr g = fr_local_addr f \<and> fr_remote_addr g = fr_remote_addr f \<and> fr_msg_len g = fr_msg_len f"

lemma same_frame_trans: "same_frame f g \<Longrightarrow> same_frame g h \<Longrightarrow> same_frame f h"
  by (simp add: same_frame_def)

lemma read_payload_prefix:
  assumes "ring_ok f" "pending f @ inc = escape xs @ rest" "unat (fr_msg_pos f) + length xs = unat (fr_msg_len f)"
    and "unat (fr_msg_len f) \<le> length buf"
  shows "\<exists>y buf' g ys zs. read_payload x buf f = (y, buf', g) \<and> xs = ys @ zs \<and> ring_ok g \<and> same_frame f g
    \<and> fr_state g = fr_state f \<and> pending g @ inc = escape zs @ rest \<and> unat (fr_msg_pos g) + length zs = unat (fr_msg_len g)
    \<and> length buf' = length buf \<and> take (unat (fr_msg_pos g)) buf' = take (unat (fr_msg_pos f)) buf @ ys
    \<and> fr_cmp_crc g = foldl update_crc (fr_cmp_crc f) ys
    \<and> (zs \<noteq> [] \<longrightarrow> y = 0 \<and> length (pending g) < 2 \<and> inc \<noteq> [])"
  using assms
proof (induction xs arbitrary: f buf x)
  case Nil
  then have "\<not> fr_msg_pos f < fr_msg_len f" by (simp add: word_less_nat_alt)
  then have "read_payload x buf f = (x, buf, f)" by (subst read_payload.simps) simp
  with Nil show ?case by (auto simp: same_frame_def)
next
  case (Cons c cs)
  have lt: "fr_msg_pos f < fr_msg_len f" using Cons.prems(3) by (simp add: word_less_nat_alt)
  from fetch_octet [OF Cons.prems(1), of inc c "escape cs @ rest"] Cons.prems(2) consider
    g where "get_next_octet f = (True, c, g)" "ring_ok g" "same_message f g" "pending g @ inc = escape cs @ rest"
  | g where "get_next_octet f = (False, 0, g)" "ring_ok g" "same_message f g" "pending g = pending f"
      "length (pending g) < 2" "inc \<noteq> []" by auto
  then show ?case
  proof cases
    case (1 g)
    let ?p = "unat (fr_msg_pos f)"
    let ?h = "g\<lparr>fr_msg_pos := fr_msg_pos f + 1, fr_cmp_crc := update_crc (fr_cmp_crc f) c\<rparr>"
    have step: "read_payload x buf f = read_payload c (buf[?p := c]) ?h"
      using lt 1(1) by (subst read_payload.simps) simp
    have p: "unat (fr_msg_pos f + 1) = Suc ?p" using unat_inc [OF lt] by simp
    have plt: "?p < length buf" using Cons.prems(3,4) by simp
    have "ring_ok ?h" using 1(2) by (simp add: ring_ok_def)
    moreover have "pending ?h @ inc = escape cs @ rest" using 1(4) by (simp add: pending_def ring_count_def)
    moreover have "unat (fr_msg_pos ?h) + length cs = unat (fr_msg_len ?h)" "unat (fr_msg_len ?h) \<le> length (buf[?p := c])"
      using Cons.prems(3,4) 1(3) p by (simp_all add: same_message_def)
    ultimately obtain y buf' k ys zs where k: "read_payload c (buf[?p := c]) ?h = (y, buf', k)" "cs = ys @ zs" "ring_ok k"
      "same_frame ?h k" "fr_state k = fr_state ?h" "pending k @ inc = escape zs @ rest"
      "unat (fr_msg_pos k) + length zs = unat (fr_msg_len k)" "length buf' = length (buf[?p := c])"
      "take (unat (fr_msg_pos k)) buf' = take (unat (fr_msg_pos ?h)) (buf[?p := c]) @ ys"
      "fr_cmp_crc k = foldl update_crc (fr_cmp_crc ?h) ys" "zs \<noteq> [] \<longrightarrow> y = 0 \<and> length (pending k) < 2 \<and> inc \<noteq> []"
      using Cons.IH by blast
    have "take (unat (fr_msg_pos k)) buf' = take ?p buf @ c # ys"
      using k(9) plt by (simp add: p take_Suc_conv_app_nth)
    moreover have "same_frame f k" "fr_state k = fr_state f" using k(4,5) 1(3) by (auto simp: same_frame_def same_message_def)
    ultimately show ?thesis using k step
      by (intro exI [of _ y] exI [of _ buf'] exI [of _ k] exI [of _ "c # ys"] exI [of _ zs]) simp
  next
    case (2 g)
    have "read_payload x buf f = (0, buf, g)" using lt 2(1) by (subst read_payload.simps) simp
    with 2 Cons.prems show ?thesis
      by (intro exI [of _ 0] exI [of _ buf] exI [of _ g] exI [of _ "[]"] exI [of _ "c # cs"])
        (auto simp: same_frame_def same_message_def)
  qed
qed

context serial_line
begin

lemma src_addr_stage:
  assumes "fr_state (rd_io r) = UXR_FRAMING_READING_SRC_ADDR" "ring_ok (rd_io r)" "\<not> rd_exit r" "unread r = escape_octet x @ rest"
  shows "\<exists>r'. read_loop P len r = read_loop P len r' \<and> fr_state (rd_io r') = UXR_FRAMING_READING_DST_ADDR
    \<and> fr_remote_addr (rd_io r') = x \<and> fr_local_addr (rd_io r') = fr_local_addr (rd_io r) \<and> ring_ok (rd_io r')
    \<and> unread r' = rest \<and> rd_buf r' = rd_buf r \<and> rd_rv r' = rd_rv r \<and> \<not> rd_exit r'"
  using assms
proof (induction "length (incoming (rd_world r))" arbitrary: r rule: less_induct)
  case less
  let ?inc = "incoming (rd_world r)"
  from fetch_octet [OF less.prems(2)] less.prems(4) consider
    g where "get_next_octet (rd_io r) = (True, x, g)" "ring_ok g" "same_message (rd_io r) g" "pending g @ ?inc = rest"
  | g where "get_next_octet (rd_io r) = (False, 0, g)" "ring_ok g" "same_message (rd_io r) g"
      "pending g = pending (rd_io r)" "length (pending g) < 2" "?inc \<noteq> []"
    unfolding unread_def by blast
  then show ?case
  proof cases
    case (1 g)
    let ?r = "rd_set_state UXR_FRAMING_READING_DST_ADDR (r\<lparr>rd_io := g\<lparr>fr_remote_addr := x\<rparr>\<rparr>)"
    have "read_loop P len r = read_loop P len ?r"
      using less.prems(1,3) 1(1) by (subst read_loop.simps) (simp add: read_step_def step_src_addr_def)
    with 1 less.prems show ?thesis
      by (intro exI [of _ ?r]) (auto simp: unread_def rd_set_state_def same_message_def ring_ok_def pending_def ring_count_def)
  next
    case (2 g)
    let ?r = "r\<lparr>rd_io := g\<lparr>fr_remote_addr := 0\<rparr>\<rparr>"
    have g: "ring_ok (rd_io ?r)" "pending (rd_io ?r) = pending g" using 2(2) by (simp_all add: ring_ok_def pending_def ring_count_def)
    obtain n r1 where r1: "rd_transport_read P 4 ?r = (n, r1)" "0 < n" "waits ?r r1" "ring_ok (rd_io r1)"
        "unread r1 = unread ?r" "length (incoming (rd_world r1)) < length ?inc"
      using wait_octet [of ?r 4] 2 g by auto
    have "read_loop P len r = read_loop P len r1"
      using less.prems(1,3) 2(1) r1(1,2) by (subst read_loop.simps) (simp add: read_step_def step_src_addr_def)
    moreover have "fr_state (rd_io r1) = UXR_FRAMING_READING_SRC_ADDR" "fr_local_addr (rd_io r1) = fr_local_addr (rd_io r)"
        "\<not> rd_exit r1" "rd_buf r1 = rd_buf r" "rd_rv r1 = rd_rv r"
      using r1(3) 2(3) less.prems by (auto simp: waits_def same_message_def)
    moreover have "unread r1 = escape_octet x @ rest" using r1(5) 2(4) g(2) less.prems(4) by (simp add: unread_def)
    ultimately show ?thesis using less.hyps [OF r1(6)] r1(4) by auto
  qed
qed

lemma payload_stage:
  assumes "fr_state (rd_io r) = UXR_FRAMING_READING_PAYLOAD" "ring_ok (rd_io r)" "\<not> rd_exit r" "unread r = escape xs @ rest"
    and "unat (fr_msg_pos (rd_io r)) + length xs = unat (fr_msg_len (rd_io r))" "unat (fr_msg_len (rd_io r)) \<le> length (rd_buf r)"
  shows "\<exists>r'. read_loop P len r = read_loop P len r' \<and> fr_state (rd_io r') = UXR_FRAMING_READING_CRC_LSB
    \<and> same_frame (rd_io r) (rd_io r') \<and> fr_cmp_crc (rd_io r') = foldl update_crc (fr_cmp_crc (rd_io r)) xs
    \<and> take (unat (fr_msg_len (rd_io r))) (rd_buf r') = take (unat (fr_msg_pos (rd_io r))) (rd_buf r) @ xs
    \<and> length (rd_buf r') = length (rd_buf r) \<and> ring_ok (rd_io r') \<and> unread r' = rest \<and> rd_rv r' = rd_rv r \<and> \<not> rd_exit r'"
  using assms
proof (induction "length (incoming (rd_world r))" arbitrary: r xs rule: less_induct)
  case less
  let ?inc = "incoming (rd_world r)"
  from read_payload_prefix [OF less.prems(2) _ less.prems(5,6), of ?inc rest 0] less.prems(4)
  obtain y buf g ys zs where g: "read_payload 0 (rd_buf r) (rd_io r) = (y, buf, g)" "xs = ys @ zs" "ring_ok g"
    "same_frame (rd_io r) g" "fr_state g = UXR_FRAMING_READING_PAYLOAD" "pending g @ ?inc = escape zs @ rest"
    "unat (fr_msg_pos g) + length zs = unat (fr_msg_len g)" "length buf = length (rd_buf r)"
    "take (unat (fr_msg_pos g)) buf = take (unat (fr_msg_pos (rd_io r))) (rd_buf r) @ ys"
    "fr_cmp_crc g = foldl update_crc (fr_cmp_crc (rd_io r)) ys"
    "zs \<noteq> [] \<longrightarrow> y = 0 \<and> length (pending g) < 2 \<and> ?inc \<noteq> []"
    unfolding unread_def less.prems(1) by blast
  let ?r = "r\<lparr>rd_io := g, rd_buf := buf\<rparr>"
  show ?case
  proof (cases "zs = []")
    case True
    then have eq: "fr_msg_pos g = fr_msg_len g" using g(7) by (simp add: word_unat_eq_iff)
    let ?s = "rd_set_state UXR_FRAMING_READING_CRC_LSB ?r"
    have "read_loop P len r = read_loop P len ?s"
      using less.prems(1,3) g(1) eq by (subst read_loop.simps) (simp add: read_step_def step_payload_def)
    with True eq g less.prems show ?thesis
      by (intro exI [of _ ?s])
        (auto simp: unread_def rd_set_state_def same_frame_def ring_ok_def pending_def ring_count_def)
  next
    case False
    then have ne: "fr_msg_pos g \<noteq> fr_msg_len g" "y \<noteq> framing_begin_flag" "length (pending g) < 2" "?inc \<noteq> []"
      using g(7,11) by (auto simp: framing_begin_flag_def)
    let ?n = "unat (fr_msg_len g) - unat (fr_msg_pos g) + 2"
    obtain n r1 where r1: "rd_transport_read P ?n ?r = (n, r1)" "0 < n" "waits ?r r1" "ring_ok (rd_io r1)"
        "unread r1 = unread ?r" "length (incoming (rd_world r1)) < length ?inc"
      using wait_octet [of ?r ?n] ne g(3) by auto
    have "read_loop P len r = read_loop P len r1"
      using less.prems(1,3) g(1) ne(1,2) r1(1,2) by (subst read_loop.simps) (simp add: read_step_def step_payload_def Let_def)
    moreover have s: "fr_state (rd_io r1) = UXR_FRAMING_READING_PAYLOAD" "\<not> rd_exit r1" "rd_buf r1 = buf" "rd_rv r1 = rd_rv r"
        "same_frame g (rd_io r1)" "fr_msg_pos (rd_io r1) = fr_msg_pos g" "fr_msg_len (rd_io r1) = fr_msg_len g"
        "fr_cmp_crc (rd_io r1) = fr_cmp_crc g" "fr_msg_len g = fr_msg_len (rd_io r)"
      using r1(3) g(4,5) less.prems by (auto simp: waits_def same_message_def same_frame_def)
    moreover have "unread r1 = escape zs @ rest" using r1(5) g(6) by (simp add: unread_def)
    then obtain r' where "read_loop P len r1 = read_loop P len r'" "fr_state (rd_io r') = UXR_FRAMING_READING_CRC_LSB"
      "same_frame (rd_io r1) (rd_io r')" "fr_cmp_crc (rd_io r') = foldl update_crc (fr_cmp_crc g) zs"
      "take (unat (fr_msg_len g)) (rd_buf r') = take (unat (fr_msg_pos g)) buf @ zs"
      "length (rd_buf r') = length buf" "ring_ok (rd_io r')" "unread r' = rest" "rd_rv r' = rd_rv r" "\<not> rd_exit r'"
      using less.hyps [OF r1(6) s(1) r1(4) s(2), of zs] s g(7,8) less.prems(6) by auto
    ultimately show ?thesis using g
      by (intro exI [of _ r']) (auto intro: same_frame_trans)
  qed
qed

end

lemma join_octets:
  assumes "n < 65536"
  shows "unat ((ucast (of_nat n :: u8) :: u16) + push_bit 8 (ucast (of_nat (drop_bit 8 n) :: u8))) = n"
proof -
  have lo: "unat (ucast (of_nat n :: u8) :: u16) = n mod 256" by (simp add: unat_of_nat)
  have "n div 256 < 256" using assms by (simp add: less_mult_imp_div_less)
  then have "unat (ucast (of_nat (drop_bit 8 n) :: u8) :: u16) = n div 256"
    by (simp add: unat_of_nat drop_bit_eq_div)
  then have hi: "unat (push_bit 8 (ucast (of_nat (drop_bit 8 n) :: u8)) :: u16) = 256 * (n div 256)"
    using \<open>n div 256 < 256\<close> by (simp add: push_bit_eq_mult unat_word_ariths)
  show ?thesis using assms by (simp only: unat_word_ariths lo hi) simp
qed

lemma join_crc:
  "(ucast (ucast (crc AND 0xFF) :: u8) :: u16) + push_bit 8 (ucast (ucast (drop_bit 8 crc) :: u8)) = (crc :: u16)"
proof -
  have e1: "ucast (crc AND 0xFF) = (of_nat (unat crc) :: u8)"
    by (rule bit_word_eqI) (simp add: low_octet bit_simps)
  have e2: "ucast (drop_bit 8 crc) = (of_nat (drop_bit 8 (unat crc)) :: u8)"
    by (rule bit_word_eqI) (simp add: bit_simps)
  have "unat crc < 65536" using unsigned_less [where 'a = nat and w = crc] by simp
  then show ?thesis unfolding e1 e2 by (intro word_unat_eq_iff [THEN iffD2] join_octets)
qed

context serial_line
begin

lemma begin_stage:
  assumes "ring_ok f" "fr_state f = UXR_FRAMING_UNINITIALIZED" "pending f @ incoming w = framing_begin_flag # rest"
  shows "\<exists>r. read_framed_msg P buf remote_addr timeout f w = read_loop P (length buf) r
    \<and> fr_state (rd_io r) = UXR_FRAMING_READING_SRC_ADDR \<and> fr_local_addr (rd_io r) = fr_local_addr f
    \<and> ring_ok (rd_io r) \<and> unread r = rest \<and> rd_buf r = buf \<and> rd_rv r = 0 \<and> \<not> rd_exit r"
proof -
  let ?r0 = "\<lparr>rd_io = f, rd_buf = buf, rd_remote_addr = remote_addr, rd_timeout = timeout, rd_rv = 0,
                rd_exit = False, rd_world = w\<rparr>"
  define r1 where "r1 = (if fr_tail f = fr_head f then snd (rd_transport_read P 5 ?r0) else ?r0)"
  have r1: "waits ?r0 r1 \<and> ring_ok (rd_io r1) \<and> unread r1 = unread ?r0 \<and> pending (rd_io r1) \<noteq> []"
  proof (cases "fr_tail f = fr_head f")
    case True
    then have e: "pending f = []" using assms(1) by (simp add: pending_empty)
    with assms(3) have "incoming w \<noteq> []" by auto
    then obtain n r' where r': "rd_transport_read P 5 ?r0 = (n, r')" "0 < n" "waits ?r0 r'" "ring_ok (rd_io r')"
        "unread r' = unread ?r0" "length (incoming (rd_world r')) < length (incoming w)"
      using wait_octet [of ?r0 5] assms(1) e by auto
    then have "length (pending (rd_io r')) > 0" using e by (simp add: unread_def) (metis length_append add.left_neutral less_irrefl list.size(3) self_append_conv2)
    with True r' show ?thesis by (auto simp: r1_def)
  next
    case False
    then show ?thesis using assms(1) pending_empty [of f] by (auto simp: r1_def waits_def)
  qed
  have un: "unread r1 = framing_begin_flag # rest" using r1 assms(3) by (simp add: unread_def)
  then obtain us where us: "pending (rd_io r1) = framing_begin_flag # us" "us @ incoming (rd_world r1) = rest"
    using r1 by (auto simp: unread_def append_eq_Cons_conv)
  have "(0 :: u8) \<noteq> framing_begin_flag" by (simp add: framing_begin_flag_def)
  from skip_to_begin_spec [OF _ this, of "rd_io r1"] r1 us(1) obtain g vs where
    g: "skip_to_begin 0 (rd_io r1) = Some (framing_begin_flag, g)" "ring_ok g" "same_message (rd_io r1) g"
      "framing_begin_flag # us = vs @ framing_begin_flag # pending g" "framing_begin_flag \<notin> set vs" by auto
  then have "pending g = us" by (cases vs) auto
  let ?r = "rd_set_state UXR_FRAMING_READING_SRC_ADDR (r1\<lparr>rd_io := g\<rparr>)"
  have st: "fr_state (rd_io r1) = UXR_FRAMING_UNINITIALIZED" "\<not> rd_exit r1" "fr_tail (rd_io r1) \<noteq> fr_head (rd_io r1)"
    using r1 assms(2) pending_empty [of "rd_io r1"] by (auto simp: waits_def same_message_def)
  then have "read_loop P (length buf) r1 = read_loop P (length buf) ?r"
    by (subst read_loop.simps) (simp add: read_step_def step_uninitialized_def g(1))
  then have "read_framed_msg P buf remote_addr timeout f w = read_loop P (length buf) ?r"
    using st(3) unfolding read_framed_msg_def Let_def r1_def [symmetric] by simp
  then show ?thesis using r1 g(2,3) us(2) \<open>pending g = us\<close>
    by (intro exI [of _ ?r]) (auto simp: waits_def same_message_def rd_set_state_def ring_ok_def unread_def pending_def ring_count_def)
qed

end

context serial_line
begin

lemmas stage_steps = read_step_def step_dst_addr_def step_len_lsb_def step_len_msb_def step_crc_lsb_def step_crc_msb_def
  Let_def case_prod_beta

lemma header_stages:
  assumes "fr_state (rd_io r) = UXR_FRAMING_READING_DST_ADDR" "ring_ok (rd_io r)" "\<not> rd_exit r" "rd_rv r = 0"
    and "unread r = escape [fr_local_addr (rd_io r), of_nat n, of_nat (drop_bit 8 n)] @ rest" "n < 65536" "n \<le> len"
  shows "\<exists>r'. read_loop P len r = read_loop P len r' \<and> fr_state (rd_io r') = UXR_FRAMING_READING_PAYLOAD
    \<and> fr_local_addr (rd_io r') = fr_local_addr (rd_io r) \<and> fr_remote_addr (rd_io r') = fr_remote_addr (rd_io r)
    \<and> unat (fr_msg_len (rd_io r')) = n \<and> fr_msg_pos (rd_io r') = 0 \<and> fr_cmp_crc (rd_io r') = 0
    \<and> ring_ok (rd_io r') \<and> unread r' = rest \<and> rd_buf r' = rd_buf r \<and> rd_rv r' = 0 \<and> \<not> rd_exit r'"
proof -
  define act_dst where "act_dst x s = rd_set_state (if x = fr_local_addr (rd_io s) then UXR_FRAMING_READING_LEN_LSB
      else UXR_FRAMING_UNINITIALIZED) s" for x and s :: "'a reader"
  define act_lsb where "act_lsb x s = rd_set_state UXR_FRAMING_READING_LEN_MSB
      (s\<lparr>rd_io := (rd_io s)\<lparr>fr_msg_len := ucast (x :: u8)\<rparr>\<rparr>)" for x and s :: "'a reader"
  define msb_io where "msb_io x f = f\<lparr>fr_msg_len := fr_msg_len f + push_bit 8 (ucast (x :: u8)), fr_msg_pos := 0,
      fr_cmp_crc := 0\<rparr>" for x and f :: FramingIO
  define act_msb where "act_msb x s = (if len < unat (fr_msg_len (msb_io x (rd_io s)))
      then (rd_set_state UXR_FRAMING_UNINITIALIZED (s\<lparr>rd_io := msb_io x (rd_io s)\<rparr>))\<lparr>rd_exit := True\<rparr>
      else rd_set_state UXR_FRAMING_READING_PAYLOAD (s\<lparr>rd_io := msb_io x (rd_io s)\<rparr>))" for x and s :: "'a reader"
  have "unread r = escape_octet (fr_local_addr (rd_io r)) @ escape [of_nat n, of_nat (drop_bit 8 n)] @ rest"
    using assms(5) by simp
  from octet_stage [OF _ _ assms(1-3) this, of len act_dst 3] obtain r1 where
    r1: "read_loop P len r = read_loop P len (act_dst (fr_local_addr (rd_io r)) r1)" "waits r r1" "ring_ok (rd_io r1)"
      "unread r1 = escape [of_nat n, of_nat (drop_bit 8 n)] @ rest"
    by (auto simp: stage_steps act_dst_def)
  define s1 where "s1 = act_dst (fr_local_addr (rd_io r)) r1"
  have s1: "fr_state (rd_io s1) = UXR_FRAMING_READING_LEN_LSB" "ring_ok (rd_io s1)" "\<not> rd_exit s1" "rd_buf s1 = rd_buf r"
    "rd_rv s1 = 0" "fr_local_addr (rd_io s1) = fr_local_addr (rd_io r)" "fr_remote_addr (rd_io s1) = fr_remote_addr (rd_io r)"
    "unread s1 = escape_octet (of_nat n) @ escape [of_nat (drop_bit 8 n)] @ rest"
    using r1 assms(3,4)
    by (auto simp: s1_def act_dst_def waits_def same_message_def rd_set_state_def ring_ok_def unread_def pending_def ring_count_def)
  from octet_stage [OF _ _ s1(1-3,8), of len act_lsb 2] obtain r2 where
    r2: "read_loop P len s1 = read_loop P len (act_lsb (of_nat n) r2)" "waits s1 r2" "ring_ok (rd_io r2)"
      "unread r2 = escape [of_nat (drop_bit 8 n)] @ rest"
    by (auto simp: stage_steps act_lsb_def)
  define s2 where "s2 = act_lsb (of_nat n) r2"
  have s2: "fr_state (rd_io s2) = UXR_FRAMING_READING_LEN_MSB" "ring_ok (rd_io s2)" "\<not> rd_exit s2" "rd_buf s2 = rd_buf r"
    "rd_rv s2 = 0" "fr_local_addr (rd_io s2) = fr_local_addr (rd_io r)" "fr_remote_addr (rd_io s2) = fr_remote_addr (rd_io r)"
    "fr_msg_len (rd_io s2) = ucast (of_nat n :: u8)" "unread s2 = escape_octet (of_nat (drop_bit 8 n)) @ rest"
    using r2 s1
    by (auto simp: s2_def act_lsb_def waits_def same_message_def rd_set_state_def ring_ok_def unread_def pending_def ring_count_def)
  from octet_stage [OF _ _ s2(1-3,9), of len act_msb 1] obtain r3 where
    r3: "read_loop P len s2 = read_loop P len (act_msb (of_nat (drop_bit 8 n)) r3)" "waits s2 r3" "ring_ok (rd_io r3)"
      "unread r3 = rest"
    by (auto simp: stage_steps act_msb_def msb_io_def)
  define s3 where "s3 = act_msb (of_nat (drop_bit 8 n)) r3"
  have "fr_msg_len (rd_io r3) = ucast (of_nat n :: u8)" using r3(2) s2(8) by (simp add: waits_def same_message_def)
  then have "unat (fr_msg_len (msb_io (of_nat (drop_bit 8 n)) (rd_io r3))) = n"
    using join_octets [OF assms(6)] by (simp add: msb_io_def)
  then have "s3 = rd_set_state UXR_FRAMING_READING_PAYLOAD (r3\<lparr>rd_io := msb_io (of_nat (drop_bit 8 n)) (rd_io r3)\<rparr>)"
    "unat (fr_msg_len (rd_io s3)) = n" using assms(7) by (auto simp: s3_def act_msb_def rd_set_state_def)
  then show ?thesis using r1(1) r2(1) r3 s2
    by (intro exI [of _ s3])
      (auto simp: s1_def [symmetric] s2_def [symmetric] s3_def [symmetric] waits_def same_message_def msb_io_def
        rd_set_state_def ring_ok_def unread_def pending_def ring_count_def)
qed

lemma crc_stages:
  assumes "fr_state (rd_io r) = UXR_FRAMING_READING_CRC_LSB" "ring_ok (rd_io r)" "\<not> rd_exit r" "rd_rv r = 0"
    and "unread r = escape [ucast (fr_cmp_crc (rd_io r) AND 0xFF), ucast (drop_bit 8 (fr_cmp_crc (rd_io r)))] @ rest"
  shows "\<exists>r'. read_loop P len r = Some r' \<and> fr_state (rd_io r') = UXR_FRAMING_UNINITIALIZED
    \<and> fr_local_addr (rd_io r') = fr_local_addr (rd_io r) \<and> rd_remote_addr r' = fr_remote_addr (rd_io r)
    \<and> rd_rv r' = unat (fr_msg_len (rd_io r)) \<and> ring_ok (rd_io r') \<and> unread r' = rest \<and> rd_buf r' = rd_buf r"
proof -
  let ?crc = "fr_cmp_crc (rd_io r)"
  let ?lo = "ucast (?crc AND 0xFF) :: u8" and ?hi = "ucast (drop_bit 8 ?crc) :: u8"
  define act_lsb where "act_lsb x s = rd_set_state UXR_FRAMING_READING_CRC_MSB
      (s\<lparr>rd_io := (rd_io s)\<lparr>fr_msg_crc := ucast (x :: u8)\<rparr>\<rparr>)" for x and s :: "'a reader"
  define msb_io where "msb_io x f = f\<lparr>fr_msg_crc := fr_msg_crc f + push_bit 8 (ucast (x :: u8)),
      fr_state := UXR_FRAMING_UNINITIALIZED\<rparr>" for x and f :: FramingIO
  define act_msb where "act_msb x s = (if fr_cmp_crc (msb_io x (rd_io s)) = fr_msg_crc (msb_io x (rd_io s))
      then s\<lparr>rd_io := msb_io x (rd_io s), rd_remote_addr := fr_remote_addr (rd_io s), rd_rv := unat (fr_msg_len (rd_io s)),
             rd_exit := True\<rparr>
      else s\<lparr>rd_io := msb_io x (rd_io s), rd_exit := True\<rparr>)" for x and s :: "'a reader"
  have "unread r = escape_octet ?lo @ escape [?hi] @ rest" using assms(5) by simp
  from octet_stage [OF _ _ assms(1-3) this, of len act_lsb 2] obtain r1 where
    r1: "read_loop P len r = read_loop P len (act_lsb ?lo r1)" "waits r r1" "ring_ok (rd_io r1)" "unread r1 = escape [?hi] @ rest"
    by (auto simp: stage_steps act_lsb_def)
  define s1 where "s1 = act_lsb ?lo r1"
  have s1: "fr_state (rd_io s1) = UXR_FRAMING_READING_CRC_MSB" "ring_ok (rd_io s1)" "\<not> rd_exit s1"
    "unread s1 = escape_octet ?hi @ rest" "rd_buf s1 = rd_buf r" "same_frame (rd_io r) (rd_io s1)"
    "fr_cmp_crc (rd_io s1) = ?crc" "fr_msg_crc (rd_io s1) = ucast ?lo"
    using r1 assms(3)
    by (auto simp: s1_def act_lsb_def waits_def same_message_def same_frame_def rd_set_state_def ring_ok_def unread_def
        pending_def ring_count_def)
  from octet_stage [OF _ _ s1(1-4), of len act_msb 1] obtain r2 where
    r2: "read_loop P len s1 = read_loop P len (act_msb ?hi r2)" "waits s1 r2" "ring_ok (rd_io r2)" "unread r2 = rest"
    by (auto simp: stage_steps act_msb_def msb_io_def)
  have "fr_msg_crc (rd_io r2) = ucast ?lo" "fr_cmp_crc (rd_io r2) = ?crc" "same_frame (rd_io r) (rd_io r2)" "rd_buf r2 = rd_buf r"
    using r2(2) s1(5-8) by (auto simp: waits_def same_message_def same_frame_def)
  moreover from this have "act_msb ?hi r2 = r2\<lparr>rd_io := msb_io ?hi (rd_io r2), rd_remote_addr := fr_remote_addr (rd_io r2),
      rd_rv := unat (fr_msg_len (rd_io r2)), rd_exit := True\<rparr>"
    using join_crc [of ?crc] by (simp add: act_msb_def msb_io_def)
  moreover from this have "read_loop P len (act_msb ?hi r2) = Some (act_msb ?hi r2)" by (subst read_loop.simps) simp
  ultimately show ?thesis using r1(1) r2
    by (auto simp: s1_def [symmetric] msb_io_def same_frame_def ring_ok_def unread_def pending_def ring_count_def)
qed

lemma read_frame:
  assumes "ring_ok f" "fr_state f = UXR_FRAMING_UNINITIALIZED"
    and "pending f @ incoming w = frame src (fr_local_addr f) payload @ rest"
    and "length payload < 65536" "length payload \<le> length buf"
  shows "\<exists>r. read_framed_msg P buf remote_addr timeout f w = Some r \<and> rd_rv r = length payload
    \<and> take (length payload) (rd_buf r) = payload \<and> rd_remote_addr r = src \<and> unread r = rest
    \<and> fr_state (rd_io r) = UXR_FRAMING_UNINITIALIZED \<and> ring_ok (rd_io r) \<and> fr_local_addr (rd_io r) = fr_local_addr f
    \<and> length (rd_buf r) = length buf"
proof -
  let ?n = "length payload" and ?crc = "crc_of payload" and ?len = "length buf"
  let ?crcs = "[ucast (?crc AND 0xFF), ucast (drop_bit 8 ?crc)] :: u8 list"
  let ?hdr = "[fr_local_addr f, of_nat ?n, of_nat (drop_bit 8 ?n)] :: u8 list"
  have "pending f @ incoming w
      = framing_begin_flag # (escape_octet src @ escape ?hdr @ escape payload @ escape ?crcs @ rest)"
    using assms(3) by (simp add: frame_def frame_octets_def)
  from begin_stage [OF assms(1,2) this, of buf remote_addr timeout] obtain r0 where
    r0: "read_framed_msg P buf remote_addr timeout f w = read_loop P ?len r0"
      "fr_state (rd_io r0) = UXR_FRAMING_READING_SRC_ADDR" "fr_local_addr (rd_io r0) = fr_local_addr f"
      "ring_ok (rd_io r0)" "unread r0 = escape_octet src @ escape ?hdr @ escape payload @ escape ?crcs @ rest"
      "rd_buf r0 = buf" "rd_rv r0 = 0" "\<not> rd_exit r0" by blast
  from src_addr_stage [OF r0(2,4,8,5), of ?len] obtain r1 where
    r1: "read_loop P ?len r0 = read_loop P ?len r1" "fr_state (rd_io r1) = UXR_FRAMING_READING_DST_ADDR"
      "fr_remote_addr (rd_io r1) = src" "fr_local_addr (rd_io r1) = fr_local_addr f" "ring_ok (rd_io r1)"
      "unread r1 = escape ?hdr @ escape payload @ escape ?crcs @ rest" "rd_buf r1 = buf" "rd_rv r1 = 0" "\<not> rd_exit r1"
    using r0 by auto
  have "unread r1 = escape [fr_local_addr (rd_io r1), of_nat ?n, of_nat (drop_bit 8 ?n)] @ escape payload @ escape ?crcs @ rest"
    using r1(4,6) by simp
  from header_stages [OF r1(2,5,9,8) this assms(4,5)] obtain r2 where
    r2: "read_loop P ?len r1 = read_loop P ?len r2" "fr_state (rd_io r2) = UXR_FRAMING_READING_PAYLOAD"
      "fr_local_addr (rd_io r2) = fr_local_addr f" "fr_remote_addr (rd_io r2) = src" "unat (fr_msg_len (rd_io r2)) = ?n"
      "fr_msg_pos (rd_io r2) = 0" "fr_cmp_crc (rd_io r2) = 0" "ring_ok (rd_io r2)"
      "unread r2 = escape payload @ escape ?crcs @ rest" "rd_buf r2 = buf" "rd_rv r2 = 0" "\<not> rd_exit r2"
    using r1 by auto
  from payload_stage [OF r2(2,8,12,9), of ?len] r2 assms(5) obtain r3 where
    r3: "read_loop P ?len r2 = read_loop P ?len r3" "fr_state (rd_io r3) = UXR_FRAMING_READING_CRC_LSB"
      "same_frame (rd_io r2) (rd_io r3)" "fr_cmp_crc (rd_io r3) = ?crc" "take ?n (rd_buf r3) = payload"
      "length (rd_buf r3) = ?len" "ring_ok (rd_io r3)" "unread r3 = escape ?crcs @ rest" "rd_rv r3 = 0" "\<not> rd_exit r3"
    by (auto simp: crc_of_def)
  have "unread r3 = escape [ucast (fr_cmp_crc (rd_io r3) AND 0xFF), ucast (drop_bit 8 (fr_cmp_crc (rd_io r3)))] @ rest"
    using r3(4,8) by simp
  from crc_stages [OF r3(2,7,10,9) this, of ?len] obtain r4 where
    "read_loop P ?len r3 = Some r4" "fr_state (rd_io r4) = UXR_FRAMING_UNINITIALIZED"
    "fr_local_addr (rd_io r4) = fr_local_addr (rd_io r3)" "rd_remote_addr r4 = fr_remote_addr (rd_io r3)"
    "rd_rv r4 = unat (fr_msg_len (rd_io r3))" "ring_ok (rd_io r4)" "unread r4 = rest" "rd_buf r4 = rd_buf r3" by blast
  then show ?thesis using r0(1) r1(1) r2(1,3,4,5) r3 by (auto simp: same_frame_def)
qed

end

subsection \<open>Every call returns on a finite input\<close>

lemma get_next_octet_shrinks:
  assumes "ring_ok f" "get_next_octet f = (ok, x, g)"
  shows "ring_ok g" "length (pending g) \<le> length (pending f)"
    and "ok \<or> x = framing_begin_flag \<Longrightarrow> length (pending g) < length (pending f)"
  using get_next_octet_pending [OF assms]
  by (auto simp: framing_begin_flag_def split: list.splits if_splits)

lemma read_payload_shrinks:
  assumes "ring_ok f" "read_payload x buf f = (y, buf', g)" "x \<noteq> framing_begin_flag \<or> fr_msg_pos f \<le> fr_msg_len f"
  shows "ring_ok g \<and> length (pending g) \<le> length (pending f)
    \<and> (fr_msg_pos g \<noteq> fr_msg_len g \<and> y = framing_begin_flag \<longrightarrow> length (pending g) < length (pending f))"
  using assms
proof (induction x buf f rule: read_payload.induct)
  case (1 x buf f)
  obtain ok oc h where h: "get_next_octet f = (ok, oc, h)" by (metis prod_cases3)
  note sh = get_next_octet_shrinks [OF 1(2) h]
  obtain t where t: "h = f\<lparr>fr_tail := t\<rparr>" using get_next_octet_frame [OF h] by blast
  let ?h = "h\<lparr>fr_msg_pos := fr_msg_pos f + 1, fr_cmp_crc := update_crc (fr_cmp_crc f) oc\<rparr>"
  show ?case
  proof (cases "fr_msg_pos f < fr_msg_len f \<and> ok")
    case False
    then have "read_payload x buf f = (if fr_msg_pos f < fr_msg_len f then (oc, buf, h) else (x, buf, f))"
      by (subst read_payload.simps) (auto simp: h)
    with 1(2-4) sh show ?thesis by (auto split: if_splits)
  next
    case True
    have same: "ring_ok ?h" "pending ?h = pending h" using sh(1) by (simp_all add: ring_ok_def pending_def ring_count_def)
    have "fr_msg_pos ?h \<le> fr_msg_len ?h" using True by (simp add: t inc_le)
    moreover have "read_payload oc (buf[unat (fr_msg_pos f) := oc]) ?h = (y, buf', g)"
      using 1(3) True h by (subst (asm) read_payload.simps) simp
    ultimately show ?thesis using 1(1) True h same sh(3) by fastforce
  qed
qed

definition progress :: "nat \<times> nat \<times> nat \<Rightarrow> nat \<times> nat \<times> nat \<Rightarrow> bool" where
  "progress b a \<longleftrightarrow> (b, a) \<in> less_than <*lex*> less_than <*lex*> less_than"

context serial_line
begin

definition budget :: "'a reader \<Rightarrow> nat \<times> nat \<times> nat" where
  "budget r = (length (unread r), length (incoming (rd_world r)),
     if fr_state (rd_io r) = UXR_FRAMING_READING_PAYLOAD then 1 else 0)"

lemma consume_progress:
  assumes "length (pending (rd_io r')) < length (pending (rd_io r))" "rd_world r' = rd_world r"
  shows "progress (budget r') (budget r)"
  using assms by (auto simp: progress_def budget_def unread_def)

lemma transport_progress:
  assumes "ring_ok (rd_io s)" "length (pending (rd_io s)) \<le> length (pending (rd_io r))" "rd_world s = rd_world r"
    and "rd_transport_read P m s = (n, r')"
  shows "ring_ok (rd_io r')" "0 < n \<Longrightarrow> progress (budget r') (budget r)"
    and "length (pending (rd_io s)) < length (pending (rd_io r)) \<Longrightarrow> progress (budget r') (budget r)"
    and "length (pending (rd_io s)) < length (pending (rd_io r)) \<Longrightarrow>
      progress (budget (rd_set_state st r')) (budget r)"
proof -
  show "ring_ok (rd_io r')" using reader_read [OF read_port_axioms assms(1,4)] by blast
  have u: "length (unread r') \<le> length (unread r)" using reader_read_unread(1) [OF assms(1,4)] assms(2,3) by (simp add: unread_def)
  show "progress (budget r') (budget r)" if "0 < n"
    using reader_read_unread(2) [OF assms(1,4)] u that assms(3) by (auto simp: progress_def budget_def)
  have less: "length (unread r') < length (unread r)" if "length (pending (rd_io s)) < length (pending (rd_io r))"
    using that reader_read_unread(1) [OF assms(1,4)] assms(3) by (simp add: unread_def)
  show "progress (budget r') (budget r)" if "length (pending (rd_io s)) < length (pending (rd_io r))"
    using less [OF that] by (simp add: progress_def budget_def)
  show "progress (budget (rd_set_state st r')) (budget r)" if "length (pending (rd_io s)) < length (pending (rd_io r))"
    using less [OF that] by (simp add: progress_def budget_def rd_set_state_def unread_def pending_def ring_count_def)
qed

lemma no_octet_progress:
  assumes "ring_ok (rd_io r)" "get_next_octet (rd_io r) = (False, x, f)"
  shows "ring_ok (rd_io (no_octet P m x (r\<lparr>rd_io := f\<rparr>)))
    \<and> (rd_exit (no_octet P m x (r\<lparr>rd_io := f\<rparr>)) \<or> progress (budget (no_octet P m x (r\<lparr>rd_io := f\<rparr>))) (budget r))"
proof -
  let ?s = "r\<lparr>rd_io := f\<rparr>"
  obtain n r' where r': "rd_transport_read P m ?s = (n, r')" by (cases "rd_transport_read P m ?s")
  note g = get_next_octet_shrinks [OF assms]
  have "ring_ok (rd_io ?s)" "length (pending (rd_io ?s)) \<le> length (pending (rd_io r))" "rd_world ?s = rd_world r" using g by auto
  note tp = transport_progress [OF this r']
  have eq: "no_octet P m x ?s = (if 0 < n then r' else if framing_begin_flag = x then rd_set_state UXR_FRAMING_READING_SRC_ADDR r'
      else r'\<lparr>rd_exit := True\<rparr>)" by (simp add: no_octet_def r')
  have "ring_ok (rd_io (rd_set_state st r'))" for st using tp(1) by (simp add: rd_set_state_def)
  then show ?thesis using tp g(3) unfolding eq by auto
qed

lemma read_step_progress:
  assumes "ring_ok (rd_io r)" "\<not> rd_exit r"
  shows "\<exists>r'. read_step P len r = Some r' \<and> ring_ok (rd_io r') \<and> (rd_exit r' \<or> progress (budget r') (budget r))"
proof -
  obtain ok x f where g: "get_next_octet (rd_io r) = (ok, x, f)" by (metis prod_cases3)
  note sh = get_next_octet_shrinks [OF assms(1) g]
  have no: "\<not> ok \<Longrightarrow> ring_ok (rd_io (no_octet P m x (r\<lparr>rd_io := f\<rparr>)))
      \<and> (rd_exit (no_octet P m x (r\<lparr>rd_io := f\<rparr>)) \<or> progress (budget (no_octet P m x (r\<lparr>rd_io := f\<rparr>))) (budget r))" for m
    using no_octet_progress [OF assms(1), of x f m] g by simp
  show ?thesis
  proof (cases "fr_state (rd_io r)")
    case UXR_FRAMING_UNINITIALIZED
    have "(0 :: u8) \<noteq> framing_begin_flag" by (simp add: framing_begin_flag_def)
    from skip_to_begin_spec [OF assms(1) this] obtain y h where h: "skip_to_begin 0 (rd_io r) = Some (y, h)" "ring_ok h"
      "y = framing_begin_flag \<longrightarrow> length (pending h) < length (pending (rd_io r))"
      by (auto split: if_splits)
    have "progress (budget (rd_set_state UXR_FRAMING_READING_SRC_ADDR (r\<lparr>rd_io := h\<rparr>))) (budget r)" if "y = framing_begin_flag"
      using h(3) that by (intro consume_progress) (simp_all add: rd_set_state_def)
    with h UXR_FRAMING_UNINITIALIZED show ?thesis
      by (cases "framing_begin_flag = y") (simp_all add: read_step_def step_uninitialized_def rd_set_state_def)
  next
    case UXR_FRAMING_READING_SRC_ADDR
    let ?s = "r\<lparr>rd_io := f\<lparr>fr_remote_addr := x\<rparr>\<rparr>"
    obtain n r2 where r2: "rd_transport_read P 4 ?s = (n, r2)" by (cases "rd_transport_read P 4 ?s")
    have "ring_ok (rd_io ?s)" "length (pending (rd_io ?s)) \<le> length (pending (rd_io r))" "rd_world ?s = rd_world r"
      using sh by simp_all
    note tp = transport_progress [OF this r2]
    have remote: "fr_remote_addr (rd_io r2) = x"
      using reader_read [OF read_port_axioms \<open>ring_ok (rd_io ?s)\<close> r2] by (auto simp: same_message_def)
    have "progress (budget (rd_set_state UXR_FRAMING_READING_DST_ADDR ?s)) (budget r)" if ok
      using sh(3) that by (intro consume_progress) (simp_all add: rd_set_state_def)
    with UXR_FRAMING_READING_SRC_ADDR tp sh remote show ?thesis
      by (cases ok) (auto simp: read_step_def step_src_addr_def g r2 rd_set_state_def)
  next
    case UXR_FRAMING_READING_DST_ADDR
    have "progress (budget (rd_set_state st (r\<lparr>rd_io := f\<rparr>))) (budget r)" if ok for st
      using sh(3) that by (intro consume_progress) (simp_all add: rd_set_state_def)
    with UXR_FRAMING_READING_DST_ADDR no [of 3] sh(1) show ?thesis
      by (cases ok) (simp_all add: read_step_def step_dst_addr_def g rd_set_state_def)
  next
    case UXR_FRAMING_READING_LEN_LSB
    have "progress (budget (rd_set_state st (r\<lparr>rd_io := f\<lparr>fr_msg_len := l\<rparr>\<rparr>))) (budget r)" if ok for st l
      using sh(3) that by (intro consume_progress) (simp_all add: rd_set_state_def)
    with UXR_FRAMING_READING_LEN_LSB no [of 2] sh(1) show ?thesis
      by (cases ok) (simp_all add: read_step_def step_len_lsb_def g rd_set_state_def)
  next
    case UXR_FRAMING_READING_LEN_MSB
    have "progress (budget (rd_set_state st (r\<lparr>rd_io := f\<lparr>fr_msg_len := l, fr_msg_pos := p, fr_cmp_crc := c\<rparr>\<rparr>))) (budget r)"
      if ok for st l p c
      using sh(3) that by (intro consume_progress) (simp_all add: rd_set_state_def)
    with UXR_FRAMING_READING_LEN_MSB no [of 1] sh(1) show ?thesis
      by (cases ok) (simp_all add: read_step_def step_len_msb_def g rd_set_state_def Let_def)
  next
    case UXR_FRAMING_READING_PAYLOAD
    obtain y buf h where h: "read_payload 0 (rd_buf r) (rd_io r) = (y, buf, h)" by (metis prod_cases3)
    have z: "(0 :: u8) \<noteq> framing_begin_flag \<or> fr_msg_pos (rd_io r) \<le> fr_msg_len (rd_io r)" by (simp add: framing_begin_flag_def)
    note pl = read_payload_shrinks [OF assms(1) h z]
    let ?s = "r\<lparr>rd_io := h, rd_buf := buf\<rparr>"
    let ?m = "unat (fr_msg_len h) - unat (fr_msg_pos h) + 2"
    obtain n r2 where r2: "rd_transport_read P ?m ?s = (n, r2)" by (cases "rd_transport_read P ?m ?s")
    have "ring_ok (rd_io ?s)" "length (pending (rd_io ?s)) \<le> length (pending (rd_io r))" "rd_world ?s = rd_world r"
      using pl by simp_all
    note tp = transport_progress [OF this r2]
    have lsb: "progress (budget (rd_set_state UXR_FRAMING_READING_CRC_LSB ?s)) (budget r)"
      using pl UXR_FRAMING_READING_PAYLOAD by (auto simp: progress_def budget_def unread_def rd_set_state_def)
    have src: "progress (budget (rd_set_state UXR_FRAMING_READING_SRC_ADDR ?s)) (budget r)"
      if "fr_msg_pos h \<noteq> fr_msg_len h" "y = framing_begin_flag"
      using pl that by (intro consume_progress) (simp_all add: rd_set_state_def)
    have "step_payload P r = (if fr_msg_pos h = fr_msg_len h then rd_set_state UXR_FRAMING_READING_CRC_LSB ?s
        else if framing_begin_flag = y then rd_set_state UXR_FRAMING_READING_SRC_ADDR ?s
        else if 0 < n then r2 else r2\<lparr>rd_exit := True\<rparr>)"
      using r2 by (simp add: step_payload_def h Let_def)
    moreover have "ring_ok (rd_io (rd_set_state st ?s))" for st using pl by (simp add: rd_set_state_def)
    ultimately show ?thesis using UXR_FRAMING_READING_PAYLOAD lsb src tp by (auto simp: read_step_def)
  next
    case UXR_FRAMING_READING_CRC_LSB
    have "progress (budget (rd_set_state st (r\<lparr>rd_io := f\<lparr>fr_msg_crc := c\<rparr>\<rparr>))) (budget r)" if ok for st c
      using sh(3) that by (intro consume_progress) (simp_all add: rd_set_state_def)
    with UXR_FRAMING_READING_CRC_LSB no [of 2] sh(1) show ?thesis
      by (cases ok) (simp_all add: read_step_def step_crc_lsb_def g rd_set_state_def)
  next
    case UXR_FRAMING_READING_CRC_MSB
    with no [of 1] sh(1) show ?thesis
      by (cases ok) (simp_all add: read_step_def step_crc_msb_def g Let_def ring_ok_def)
  qed
qed

lemma read_loop_returns:
  assumes "ring_ok (rd_io r)"
  shows "\<exists>r'. read_loop P len r = Some r'"
  using assms
proof (induction r rule: wf_induct_rule [OF wf_inv_image [of "less_than <*lex*> less_than <*lex*> less_than" budget]])
  case 1
  show ?case by (intro wf_lex_prod wf_less_than)
next
  case (2 r)
  show ?case
  proof (cases "rd_exit r")
    case True
    then show ?thesis by (subst read_loop.simps) simp
  next
    case False
    from read_step_progress [OF 2(2) this, of len] obtain r' where r': "read_step P len r = Some r'" "ring_ok (rd_io r')"
      "rd_exit r' \<or> progress (budget r') (budget r)" by blast
    from r'(3) have "\<exists>r''. read_loop P len r' = Some r''"
    proof
      assume "rd_exit r'"
      then show ?thesis by (subst read_loop.simps) simp
    next
      assume "progress (budget r') (budget r)"
      then show ?thesis using 2(1) r'(2) by (simp add: progress_def inv_image_def)
    qed
    then show ?thesis using False r'(1) by (subst read_loop.simps) simp
  qed
qed

end

subsection \<open>The reader's properties\<close>

interpretation wire_line: serial_line wire_port wire_rx
  by unfold_locales (auto simp: wire_port_def min_def)

text \<open>Repeated calls on the same buffer, collecting what is delivered.\<close>

fun read_many :: "'w port \<Rightarrow> nat \<Rightarrow> int \<Rightarrow> u8 list \<Rightarrow> FramingIO \<Rightarrow> 'w \<Rightarrow> (u8 \<times> u8 list) list option" where
  "read_many P 0 timeout buf f w = Some []"
| "read_many P (Suc n) timeout buf f w =
     (case read_framed_msg P buf 0 timeout f w of None \<Rightarrow> None
      | Some r \<Rightarrow> map_option (\<lambda>ms. (rd_remote_addr r, take (rd_rv r) (rd_buf r)) # ms)
          (read_many P n timeout (rd_buf r) (rd_io r) (rd_world r)))"

text \<open>C8: Framing round trip. When the line carries the frames of a list of messages addressed to this
  object, in whatever pieces the read callback hands them out, as many calls of \<open>read_framed_msg\<close> return
  exactly those messages in order, each with the sender's address, for every payload (flag bytes
  included) shorter than 65536 bytes that fits the buffer.\<close>

theorem framing_roundtrip:
  assumes "serial_line P incoming" and "ring_ok f" and "fr_state f = UXR_FRAMING_UNINITIALIZED"
    and "list_all (\<lambda>m. length m < 65536 \<and> length m \<le> length buf) msgs"
    and "pending f @ incoming w = concat (map (frame src (fr_local_addr f)) msgs) @ rest"
  shows "read_many P (length msgs) timeout buf f w = Some (map (Pair src) msgs)"
  using assms(2-5)
proof (induction msgs arbitrary: f w buf)
  case (Cons m ms)
  then have "length m < 65536" "length m \<le> length buf"
    "pending f @ incoming w = frame src (fr_local_addr f) m @ concat (map (frame src (fr_local_addr f)) ms) @ rest" by auto
  from serial_line.read_frame [OF assms(1) Cons.prems(1,2) this(3,1,2), of 0 timeout] obtain r where
    r: "read_framed_msg P buf 0 timeout f w = Some r" "rd_rv r = length m" "take (length m) (rd_buf r) = m"
      "rd_remote_addr r = src" "serial_line.unread incoming r = concat (map (frame src (fr_local_addr f)) ms) @ rest"
      "fr_state (rd_io r) = UXR_FRAMING_UNINITIALIZED" "ring_ok (rd_io r)" "fr_local_addr (rd_io r) = fr_local_addr f"
      "length (rd_buf r) = length buf" by blast
  have "read_many P (length ms) timeout (rd_buf r) (rd_io r) (rd_world r) = Some (map (Pair src) ms)"
    using Cons.prems(3) r serial_line.unread_def [OF assms(1), of r] by (intro Cons.IH) auto
  with r show ?case by simp
qed simp

theorem framing_roundtrip_witness:
  "read_many wire_port 2 100 (replicate 8 0) (FramingIO_new 5)
     \<lparr>wire_rx = frame 9 5 [1, 0x7E, 3] @ frame 9 5 [0x7D], wire_tx = []\<rparr> = Some [(9, [1, 0x7E, 3]), (9, [0x7D])]"
proof -
  have p: "pending (FramingIO_new 5) = []" by (simp add: pending_def ring_count_def FramingIO_new_def)
  have "ring_ok (FramingIO_new 5)" "fr_state (FramingIO_new 5) = UXR_FRAMING_UNINITIALIZED"
    by (simp_all add: FramingIO_new_def ring_ok_def)
  note t = framing_roundtrip [OF wire_line.serial_line_axioms this,
      where buf = "replicate 8 0" and msgs = "[[1, 0x7E, 3], [0x7D]]" and src = 9 and rest = "[]" and timeout = 100
        and w = "\<lparr>wire_rx = frame 9 5 [1, 0x7E, 3] @ frame 9 5 [0x7D], wire_tx = []\<rparr>"]
  have "fr_local_addr (FramingIO_new 5) = 5" by (simp add: FramingIO_new_def)
  with t p show ?thesis by (simp add: numeral_2_eq_2)
qed

text \<open>C38: Termination of the reader. On a line with finitely many bytes to come, of any content and
  delivered in any pieces, \<open>read_framed_msg\<close> returns.\<close>

theorem read_framed_msg_returns:
  assumes "serial_line P incoming" and "ring_ok f"
  shows "\<exists>r. read_framed_msg P buf remote_addr timeout f w = Some r"
proof -
  let ?r0 = "\<lparr>rd_io = f, rd_buf = buf, rd_remote_addr = remote_addr, rd_timeout = timeout, rd_rv = 0,
                rd_exit = False, rd_world = w\<rparr>"
  have ring: "ring_ok (rd_io ?r0)" using assms(2) by simp
  have "ring_ok (rd_io (snd (rd_transport_read P 5 ?r0)))"
    using reader_read [OF serial_line.axioms(1) [OF assms(1)] ring] by (metis prod.collapse)
  then show ?thesis using serial_line.read_loop_returns [OF assms(1)] ring unfolding read_framed_msg_def Let_def by auto
qed

theorem read_framed_msg_returns_witness:
  "\<exists>r. read_framed_msg wire_port (replicate 8 0) 0 100 (FramingIO_new 5) \<lparr>wire_rx = [0x7E, 1, 0x7E, 0x7D], wire_tx = []\<rparr> = Some r"
  by (rule read_framed_msg_returns [OF wire_line.serial_line_axioms msg_ok_ring [OF msg_ok_new [of _ "[]"]]])

theorem framing_delivers_checked_witness:
  "\<exists>r. read_framed_msg wire_port (replicate 8 0) 0 100 (FramingIO_new 5) \<lparr>wire_rx = frame 9 5 [1, 2], wire_tx = []\<rparr> = Some r
    \<and> rd_rv r = 2 \<and> crc_of (take 2 (rd_buf r)) = fr_msg_crc (rd_io r)"
proof -
  have p: "pending (FramingIO_new 5) = []" by (simp add: pending_def ring_count_def FramingIO_new_def)
  have i: "ring_ok (FramingIO_new 5)" "fr_state (FramingIO_new 5) = UXR_FRAMING_UNINITIALIZED" "fr_local_addr (FramingIO_new 5) = 5"
    by (simp_all add: FramingIO_new_def ring_ok_def)
  obtain r where r: "read_framed_msg wire_port (replicate 8 0) 0 100 (FramingIO_new 5) \<lparr>wire_rx = frame 9 5 [1, 2], wire_tx = []\<rparr> = Some r"
      "rd_rv r = 2"
    using wire_line.read_frame [OF i(1,2), of "\<lparr>wire_rx = frame 9 5 [1, 2], wire_tx = []\<rparr>" 9 "[1, 2]" "[]" "replicate 8 0" 0 100]
    by (auto simp: i(3) p)
  with framing_delivers_checked [OF wire_line.read_port_axioms msg_ok_new r(1)] show ?thesis by auto
qed

text \<open>A begin flag that interrupts a frame while the destination address is expected is dropped when
  the line has more bytes: the reader stays in its state, the flag is consumed, and the frame it opened
  is not recognised. In the payload state the same flag restarts the frame.\<close>

theorem begin_flag_lost:
  assumes "serial_line P incoming" and "ring_ok (rd_io r)" and "pending (rd_io r) = [framing_begin_flag]"
    and "incoming (rd_world r) \<noteq> []" and "fr_state (rd_io r) = UXR_FRAMING_READING_DST_ADDR"
    and "fr_state (rd_io q) = UXR_FRAMING_READING_PAYLOAD" and "fr_msg_pos (rd_io q) < fr_msg_len (rd_io q)"
    and "ring_ok (rd_io q)" and "pending (rd_io q) = [framing_begin_flag]"
  shows "(\<exists>r'. read_step P len r = Some r' \<and> fr_state (rd_io r') = UXR_FRAMING_READING_DST_ADDR \<and> rd_exit r' = rd_exit r
        \<and> pending (rd_io r') @ incoming (rd_world r') = incoming (rd_world r))
    \<and> (\<exists>q'. read_step P len q = Some q' \<and> fr_state (rd_io q') = UXR_FRAMING_READING_SRC_ADDR \<and> rd_world q' = rd_world q
        \<and> pending (rd_io q') = [])"
proof
  have flags: "framing_begin_flag \<noteq> framing_esc_flag" by (simp add: framing_begin_flag_def framing_esc_flag_def)
  obtain ok x f where f: "get_next_octet (rd_io r) = (ok, x, f)" by (metis prod_cases3)
  have g: "\<not> ok" "x = framing_begin_flag" "ring_ok f" "same_message (rd_io r) f" "pending f = []"
    using get_next_octet_pending [OF assms(2) f] flags by (simp_all add: assms(3))
  let ?r = "r\<lparr>rd_io := f\<rparr>"
  obtain n r1 where r1: "rd_transport_read P 3 ?r = (n, r1)" "0 < n" "waits ?r r1"
      "serial_line.unread incoming r1 = serial_line.unread incoming ?r"
    using serial_line.wait_octet [OF assms(1), of ?r 3] g assms(4) by auto
  have "read_step P len r = Some r1"
    using r1(1,2) g(1) by (simp add: read_step_def assms(5) step_dst_addr_def f no_octet_def)
  with r1(3,4) g(4,5) assms(5) show "\<exists>r'. read_step P len r = Some r' \<and> fr_state (rd_io r') = UXR_FRAMING_READING_DST_ADDR
      \<and> rd_exit r' = rd_exit r \<and> pending (rd_io r') @ incoming (rd_world r') = incoming (rd_world r)"
    by (auto simp: waits_def same_message_def serial_line.unread_def [OF assms(1)])
  obtain ok' x' h where h: "get_next_octet (rd_io q) = (ok', x', h)" by (metis prod_cases3)
  have q: "\<not> ok'" "x' = framing_begin_flag" "same_message (rd_io q) h" "pending h = []"
    using get_next_octet_pending [OF assms(8) h] flags by (simp_all add: assms(9))
  have "read_payload 0 (rd_buf q) (rd_io q) = (framing_begin_flag, rd_buf q, h)"
    using assms(7) q(1,2) h by (subst read_payload.simps) simp
  then have "read_step P len q = Some (rd_set_state UXR_FRAMING_READING_SRC_ADDR (q\<lparr>rd_io := h, rd_buf := rd_buf q\<rparr>))"
    using assms(7) q(3) by (auto simp: read_step_def assms(6) step_payload_def same_message_def Let_def)
  then show "\<exists>q'. read_step P len q = Some q' \<and> fr_state (rd_io q') = UXR_FRAMING_READING_SRC_ADDR \<and> rd_world q' = rd_world q
      \<and> pending (rd_io q') = []" using q(4) by (simp add: rd_set_state_def)
qed

definition interrupted :: "InputState \<Rightarrow> wire reader" where
  "interrupted st = \<lparr>rd_io = (FramingIO_new 5)\<lparr>fr_state := st, fr_msg_len := 3,
       fr_read_buffer := (replicate 42 0)[0 := framing_begin_flag], fr_head := 1\<rparr>,
     rd_buf = replicate 8 0, rd_remote_addr = 0, rd_timeout = 100, rd_rv = 0, rd_exit = False,
     rd_world = \<lparr>wire_rx = [9, 5, 1, 0], wire_tx = []\<rparr>\<rparr>"

theorem begin_flag_lost_witness:
  "\<exists>r'. read_step wire_port 8 (interrupted UXR_FRAMING_READING_DST_ADDR) = Some r'
    \<and> fr_state (rd_io r') = UXR_FRAMING_READING_DST_ADDR \<and> pending (rd_io r') @ wire_rx (rd_world r') = [9, 5, 1, 0]"
proof -
  have i: "ring_ok (rd_io (interrupted st))" "pending (rd_io (interrupted st)) = [framing_begin_flag]"
    "fr_state (rd_io (interrupted st)) = st" "wire_rx (rd_world (interrupted st)) = [9, 5, 1, 0]"
    "fr_msg_pos (rd_io (interrupted st)) < fr_msg_len (rd_io (interrupted st))" for st
    by (simp_all add: interrupted_def ring_ok_def pending_def ring_count_def FramingIO_new_def)
  have ne: "wire_rx (rd_world (interrupted UXR_FRAMING_READING_DST_ADDR)) \<noteq> []" by (simp add: i(4))
  from begin_flag_lost [OF wire_line.serial_line_axioms i(1,2) ne i(3,3,5) i(1,2), of 8] show ?thesis by (auto simp: i(4))
qed

end
