(* ===== verification/Seq_Num.thy ===== *)
theory Seq_Num
  imports Prelude
begin

text \<open>
  \<open>src/Micro-XRCE-DDS-Agent/include/uxr/agent/utils/SeqNum.hpp\<close>: 16-bit serial numbers with the
  wrap-around comparison of the XRCE streams. The arithmetic is the one of the source, on \<open>int\<close> and
  \<open>uint32_t\<close> intermediates; the locale \<open>serial_numbers\<close> states what the streams rely on.
\<close>

subsection \<open>Operations\<close>

type_synonym seqnum = u16

definition SeqNum_MAX :: nat where "SeqNum_MAX = 65536"
definition ADD_RANGE_0 :: nat where "ADD_RANGE_0 = 0"
definition ADD_RANGE_1 :: nat where "ADD_RANGE_1 = 32767"

definition sn_less :: "seqnum \<Rightarrow> seqnum \<Rightarrow> bool" where
  "sn_less lhs rhs \<longleftrightarrow> unat lhs \<noteq> unat rhs
     \<and> ((unat lhs < unat rhs \<and> int (unat rhs) - int (unat lhs) < int (ADD_RANGE_1 + 1))
        \<or> (unat lhs > unat rhs \<and> int (unat lhs) - int (unat rhs) > int (ADD_RANGE_1 + 1)))"

definition sn_greater :: "seqnum \<Rightarrow> seqnum \<Rightarrow> bool" where "sn_greater lhs rhs = sn_less rhs lhs"
definition sn_le :: "seqnum \<Rightarrow> seqnum \<Rightarrow> bool" where "sn_le lhs rhs = (\<not> sn_greater lhs rhs)"
definition sn_ge :: "seqnum \<Rightarrow> seqnum \<Rightarrow> bool" where "sn_ge lhs rhs = (\<not> sn_less lhs rhs)"

definition sn_add_int :: "seqnum \<Rightarrow> int \<Rightarrow> seqnum" where
  "sn_add_int s rhs =
     (if int ADD_RANGE_0 \<le> rhs \<and> rhs \<le> int ADD_RANGE_1
      then of_nat ((unat s + unat (of_int rhs :: u16)) mod SeqNum_MAX) else s)"

definition sn_add :: "seqnum \<Rightarrow> seqnum \<Rightarrow> seqnum" where
  "sn_add s rhs =
     (if sn_ge rhs (of_nat ADD_RANGE_0) \<and> sn_le rhs (of_nat ADD_RANGE_1)
      then of_nat ((unat s + unat rhs) mod SeqNum_MAX) else s)"

definition sn_inc :: "seqnum \<Rightarrow> seqnum" where
  "sn_inc s = (if unat s = 65535 then 0 else of_nat (unat s + 1))"

definition sn_sub :: "seqnum \<Rightarrow> seqnum \<Rightarrow> seqnum" where
  "sn_sub s rhs =
     (if unat rhs > unat s then of_int (int (unat s) - int (unat rhs) + int SeqNum_MAX)
      else of_int (int (unat s) - int (unat rhs)))"

definition sn_sub_int :: "seqnum \<Rightarrow> int \<Rightarrow> seqnum" where
  "sn_sub_int s rhs = sn_sub s (of_int rhs)"

text \<open>\<open>operator-(int lhs, SeqNum rhs)\<close> subtracts the other way round.\<close>

definition sn_int_sub :: "int \<Rightarrow> seqnum \<Rightarrow> seqnum" where
  "sn_int_sub lhs rhs = sn_sub_int rhs lhs"

subsection \<open>The order in terms of modular distance\<close>

lemma unat_u16: "unat (a :: u16) < 65536"
  using unsigned_less [of a, where 'a = nat] by simp

lemma unat_diff_u16:
  fixes a b :: seqnum
  shows "unat (b - a) = (if unat a \<le> unat b then unat b - unat a else unat b + 65536 - unat a)"
proof -
  have "unat a < 65536" "unat b < 65536" by (rule unat_u16)+
  then show ?thesis by (simp add: unat_sub_if_size word_size)
qed

lemma sn_less_iff: "sn_less a b \<longleftrightarrow> 0 < unat (b - a) \<and> unat (b - a) < 32768"
proof -
  have "unat a < 65536" "unat b < 65536" by (rule unat_u16)+
  then show ?thesis unfolding unat_diff_u16 sn_less_def ADD_RANGE_1_def
    by (auto simp del: of_nat_unat)
qed

lemma sn_add_eq:
  assumes "unat n < 32768"
  shows "sn_add s n = s + n"
proof -
  have "sn_ge n (of_nat ADD_RANGE_0)"
    using assms by (simp add: sn_ge_def sn_less_def ADD_RANGE_0_def ADD_RANGE_1_def del: of_nat_unat)
  moreover have "sn_le n (of_nat ADD_RANGE_1)"
    using assms by (simp add: sn_le_def sn_greater_def sn_less_def ADD_RANGE_1_def del: of_nat_unat)
  ultimately show ?thesis
    by (simp add: sn_add_def SeqNum_MAX_def unat_arith_simps(2) word_unat_eq_iff unat_word_ariths(1) unat_of_nat)
qed

lemma sn_add_int_one [simp]: "sn_add_int s 1 = s + 1"
  by (simp add: sn_add_int_def ADD_RANGE_0_def ADD_RANGE_1_def SeqNum_MAX_def word_unat_eq_iff
      unat_word_ariths(1) unat_of_nat)

lemma sn_sub_eq: "sn_sub s n = s - n"
proof -
  have "uint s < 65536" "uint n < 65536" using uint_lt2p [of s] uint_lt2p [of n] by simp_all
  then show ?thesis
    by (simp add: sn_sub_def SeqNum_MAX_def flip: uint_nat)
qed

subsection \<open>What the streams rely on\<close>

text \<open>
  The \<open>k\<close>-th item of a stream carries the serial number \<open>num k\<close>; serial numbers repeat after twice
  \<open>half\<close> items, and \<open>lt\<close> holds when the second is less than \<open>half\<close> items after the first.
\<close>

locale serial_numbers =
  fixes lt :: "'a \<Rightarrow> 'a \<Rightarrow> bool" and num :: "nat \<Rightarrow> 'a" and half :: nat
  assumes half_pos: "0 < half"
    and num_eq: "num a = num b \<longleftrightarrow> a mod (2 * half) = b mod (2 * half)"
    and lt_num: "lt (num a) (num b) \<longleftrightarrow> (\<exists>d. 0 < d \<and> d < half \<and> num (a + d) = num b)"
begin

lemma num_inj_le:
  assumes "a \<le> b" "b < a + 2 * half" "num a = num b"
  shows "a = b"
proof -
  have "2 * half dvd b - a" using assms(1,3) unfolding num_eq by (metis mod_eq_dvd_iff_nat)
  moreover have "b - a < 2 * half" using assms(2) half_pos by linarith
  ultimately have "b - a = 0" using nat_dvd_not_less by blast
  with assms(1) show ?thesis by simp
qed

lemma num_inj: "a < b + 2 * half \<Longrightarrow> b < a + 2 * half \<Longrightarrow> num a = num b \<longleftrightarrow> a = b"
  using num_inj_le [of a b] num_inj_le [of b a] by (cases "a \<le> b") auto

text \<open>Inside half a range the serial order is the order of the stream.\<close>

lemma lt_window: "a < b + half \<Longrightarrow> b < a + half \<Longrightarrow> lt (num a) (num b) \<longleftrightarrow> a < b"
proof
  assume w: "a < b + half" "b < a + half" and "lt (num a) (num b)"
  then obtain d where "0 < d" "d < half" "num (a + d) = num b" unfolding lt_num by blast
  then have "a + d = b" using num_inj [of "a + d" b] w by simp
  with \<open>0 < d\<close> show "a < b" by simp
next
  assume "a < b + half" "b < a + half" "a < b"
  then show "lt (num a) (num b)" unfolding lt_num by (intro exI [of _ "b - a"]) simp
qed

lemma lt_irrefl: "\<not> lt (num a) (num a)"
  using lt_window [of a a] half_pos by simp

lemma lt_antipode: "\<not> lt (num a) (num (a + half))"
proof
  assume "lt (num a) (num (a + half))"
  then obtain d where d: "0 < d" "d < half" "num (a + d) = num (a + half)" unfolding lt_num by blast
  then have "a + d = a + half" using num_inj [of "a + d" "a + half"] by simp
  with d show False by simp
qed

end

lemma of_nat_u16_eq: "(of_nat a :: seqnum) = of_nat b \<longleftrightarrow> a mod 65536 = b mod 65536"
  by (simp add: word_unat_eq_iff unat_of_nat)

interpretation sn: serial_numbers sn_less of_nat 32768
proof
  fix a b :: nat
  show "(of_nat a :: seqnum) = of_nat b \<longleftrightarrow> a mod (2 * 32768) = b mod (2 * 32768)"
    by (simp add: of_nat_u16_eq)
  show "sn_less (of_nat a) (of_nat b) \<longleftrightarrow> (\<exists>d. 0 < d \<and> d < 32768 \<and> (of_nat (a + d) :: seqnum) = of_nat b)"
  proof
    assume "sn_less (of_nat a) (of_nat b)"
    then have "0 < unat (of_nat b - of_nat a :: seqnum)" "unat (of_nat b - of_nat a :: seqnum) < 32768"
      by (simp_all add: sn_less_iff)
    then show "\<exists>d. 0 < d \<and> d < 32768 \<and> (of_nat (a + d) :: seqnum) = of_nat b"
      by (intro exI [of _ "unat (of_nat b - of_nat a :: seqnum)"]) simp
  next
    assume "\<exists>d. 0 < d \<and> d < 32768 \<and> (of_nat (a + d) :: seqnum) = of_nat b"
    then obtain d where d: "0 < d" "d < 32768" "(of_nat (a + d) :: seqnum) = of_nat b" by blast
    from d(3) have "of_nat b - of_nat a = (of_nat d :: seqnum)" by (metis add_diff_cancel_left' of_nat_add)
    with d(1,2) show "sn_less (of_nat a) (of_nat b)" by (simp add: sn_less_iff unat_of_nat)
  qed
qed simp


text \<open>Serial numbers order a stream across the 16-bit wrap-around: for two items less than half
  a range apart, comparison of their serial numbers is comparison of their positions; items exactly
  half a range apart are incomparable; and adding up to half a range, subtracting and incrementing
  are the arithmetic of positions.\<close>

theorem seqnum_window:
  assumes "a < b + 32768" "b < a + 32768" "n < 32768"
  shows "(sn_less (of_nat a) (of_nat b) \<longleftrightarrow> a < b) \<and> (sn_le (of_nat a) (of_nat b) \<longleftrightarrow> a \<le> b)
    \<and> \<not> sn_less (of_nat a) (of_nat (a + 32768)) \<and> \<not> sn_less (of_nat (a + 32768)) (of_nat a)
    \<and> sn_add (of_nat a) (of_nat n) = of_nat (a + n) \<and> sn_sub (of_nat (a + n)) (of_nat n) = of_nat a
    \<and> sn_inc (of_nat a) = of_nat (a + 1)"
proof -
  have "sn_inc (of_nat a) = of_nat (a + 1)"
    by (auto simp: sn_inc_def word_unat_eq_iff unat_of_nat unat_word_ariths(1) mod_Suc mod_Suc_eq)
  moreover have "sn_add (of_nat a) (of_nat n) = of_nat (a + n)"
    using assms(3) by (simp add: sn_add_eq unat_of_nat)
  moreover have "(of_nat (a + 32768 + 32768) :: seqnum) = of_nat a" by (simp add: of_nat_u16_eq del: of_nat_add)
  then have "\<not> sn_less (of_nat (a + 32768)) (of_nat a)" using sn.lt_antipode [of "a + 32768"] by metis
  moreover have "\<not> sn_less (of_nat a) (of_nat (a + 32768))" by (rule sn.lt_antipode)
  moreover have "sn_sub (of_nat (a + n)) (of_nat n) = of_nat a" by (simp add: sn_sub_eq)
  ultimately show ?thesis
    using sn.lt_window [OF assms(1,2)] sn.lt_window [OF assms(2,1)]
    by (auto simp: sn_le_def sn_greater_def simp del: of_nat_add of_nat_numeral)
qed

theorem seqnum_window_witness: "sn_less (of_nat 65535) (of_nat 65540)"
  using seqnum_window [of 65535 65540 0] by (simp del: of_nat_numeral)

end
