(* ===== verification/XRCE_Message.thy ===== *)
theory XRCE_Message
  imports Prelude
begin

text \<open>
  XRCE messages of the Micro-XRCE-DDS agent: the message and submessage headers
  (\<open>src/cpp/types/MessageHeader.cpp\<close>, \<open>SubMessageHeader.cpp\<close>) and the byte buffers around them
  (\<open>include/uxr/agent/message/OutputMessage.hpp\<close>, \<open>InputMessage.hpp\<close>). Fast-CDR is outside the
  repository: how it writes and reads numbers, Booleans and characters is the record \<open>cdr\<close>; an octet is
  itself, and an operation that does not fit the buffer throws \<open>NotEnoughMemoryException\<close> without effect.
\<close>

unbundle bit_operations_syntax

subsection \<open>Fast-CDR as a parameter\<close>

text \<open>Writing uses the default byte order, reading the one announced by the submessage; the two headers
  name theirs, \<open>Cdr::LITTLE_ENDIANNESS\<close>, in the call, whatever the current one is.  The octets of a
  string are what follows its length, with the terminating zero.  \<open>get_bool\<close> gives \<open>None\<close> for the octets on
  which Fast-CDR throws \<open>BadParamException\<close>.\<close>

record cdr =
  put_u16 :: "u16 \<Rightarrow> u8 list"
  get_u16 :: "u8 \<Rightarrow> u8 \<Rightarrow> u16"
  get_u16_big :: "u8 \<Rightarrow> u8 \<Rightarrow> u16"
  put_u16_little :: "u16 \<Rightarrow> u8 list"
  get_u16_little :: "u8 \<Rightarrow> u8 \<Rightarrow> u16"
  put_u32 :: "u32 \<Rightarrow> u8 list"
  get_u32 :: "u8 list \<Rightarrow> u32"
  get_u32_big :: "u8 list \<Rightarrow> u32"
  put_bool :: "bool \<Rightarrow> u8"
  get_bool :: "u8 \<Rightarrow> bool option"
  put_chars :: "string \<Rightarrow> u8 list"
  get_chars :: "u8 list \<Rightarrow> string"

text \<open>The reader after \<open>change_endianness\<close>; the operations that name their byte order do not change.\<close>

definition cdr_endian :: "bool \<Rightarrow> cdr \<Rightarrow> cdr" where
  "cdr_endian little C = (if little then C else C\<lparr>get_u16 := get_u16_big C, get_u32 := get_u32_big C\<rparr>)"

locale cdr_lib =
  fixes C :: cdr
  assumes put_get: "\<exists>a b. put_u16 C x = [a, b] \<and> get_u16 C a b = x"
    and put_get_little: "\<exists>a b. put_u16_little C x = [a, b] \<and> get_u16_little C a b = x"
    and put_get32: "length (put_u32 C y) = 4 \<and> get_u32 C (put_u32 C y) = y"
    and put_get_bool: "get_bool C (put_bool C f) = Some f"
    and put_get_chars: "length (put_chars C t) = length t + 1 \<and> get_chars C (put_chars C t) = t"
begin

lemma put_u16_length [simp]: "length (put_u16 C x) = 2"
  using put_get [of x] by auto

lemma put_u16_little_length [simp]: "length (put_u16_little C x) = 2"
  using put_get_little [of x] by auto

lemma get_put: "get_u16 C (put_u16 C x ! 0) (put_u16 C x ! 1) = x"
  using put_get [of x] by auto

end

definition cdr_little :: cdr where
  "cdr_little = \<lparr>put_u16 = (\<lambda>x. [ucast x, ucast (drop_bit 8 x)]),
     get_u16 = (\<lambda>a b. ucast a + push_bit 8 (ucast b)),
     get_u16_big = (\<lambda>a b. ucast b + push_bit 8 (ucast a)),
     put_u16_little = (\<lambda>x. [ucast x, ucast (drop_bit 8 x)]),
     get_u16_little = (\<lambda>a b. ucast a + push_bit 8 (ucast b)),
     put_u32 = (\<lambda>x. [ucast x, ucast (drop_bit 8 x), ucast (drop_bit 16 x), ucast (drop_bit 24 x)]),
     get_u32 = (\<lambda>b. ucast (b ! 0) OR push_bit 8 (ucast (b ! 1)) OR push_bit 16 (ucast (b ! 2)) OR push_bit 24 (ucast (b ! 3))),
     get_u32_big = (\<lambda>b. ucast (b ! 3) OR push_bit 8 (ucast (b ! 2)) OR push_bit 16 (ucast (b ! 1)) OR push_bit 24 (ucast (b ! 0))),
     put_bool = (\<lambda>f. if f then 1 else 0),
     get_bool = (\<lambda>x. if x = 0 then Some False else if x = 1 then Some True else None),
     put_chars = (\<lambda>t. map of_char t @ [0]),
     get_chars = (\<lambda>b. map (\<lambda>x. char_of (unat x)) (if b \<noteq> [] \<and> last b = 0 then butlast b else b))\<rparr>"

lemma u16_bytes: "(ucast (ucast x :: u8) + push_bit 8 (ucast (ucast (drop_bit 8 x) :: u8)) :: u16) = x"
proof -
  have "(ucast (ucast x :: u8) :: u16) = take_bit 8 x" by (rule bit_eqI) (auto simp: bit_simps)
  moreover have "(ucast (ucast (drop_bit 8 x) :: u8) :: u16) = drop_bit 8 x"
    by (rule bit_eqI) (auto simp: bit_simps dest: bit_imp_le_length)
  moreover have "take_bit 8 x + push_bit 8 (drop_bit 8 x) = x" by (metis bits_ident add.commute)
  ultimately show ?thesis by simp
qed

lemma u32_bytes:
  "(ucast (ucast x :: u8) OR push_bit 8 (ucast (ucast (drop_bit 8 x) :: u8))
     OR push_bit 16 (ucast (ucast (drop_bit 16 x) :: u8)) OR push_bit 24 (ucast (ucast (drop_bit 24 x) :: u8)) :: u32) = x" (is "?l = x")
proof (rule bit_word_eqI)
  fix n
  assume "n < LENGTH(32)"
  then show "bit ?l n = bit x n"
    by (cases "24 \<le> n"; cases "16 \<le> n"; cases "8 \<le> n") (auto simp: bit_simps)
qed

lemma char_octet: "(char_of (unat (of_char c :: u8)) :: char) = c"
proof -
  have "unat (of_char c :: u8) = of_char c"
    by (cases c) (auto simp: of_char_def horner_sum_simps split: bool.splits)
  then show ?thesis by simp
qed

interpretation cdr_little: cdr_lib cdr_little
  by unfold_locales (simp_all add: cdr_little_def u16_bytes u32_bytes char_octet comp_def)

subsection \<open>Headers\<close>

record MessageHeader =
  mh_session_id :: u8
  mh_stream_id :: u8
  mh_sequence_nr :: u16
  mh_client_key :: "u8 list"

record SubmessageHeader =
  sh_submessage_id :: u8
  sh_flags :: u8
  sh_submessage_length :: u16

definition MessageHeader_new :: MessageHeader where
  "MessageHeader_new = \<lparr>mh_session_id = 0, mh_stream_id = 0, mh_sequence_nr = 0,
     mh_client_key = [0, 0, 0, 0]\<rparr>"

definition SubmessageHeader_new :: SubmessageHeader where
  "SubmessageHeader_new = \<lparr>sh_submessage_id = 0, sh_flags = 0, sh_submessage_length = 0\<rparr>"

definition FLAG_LITTLE_ENDIANNESS :: u8 where "FLAG_LITTLE_ENDIANNESS = 1"
definition FLAG_LAST_FRAGMENT :: u8 where "FLAG_LAST_FRAGMENT = 2"
definition SUBMESSAGE_FRAGMENT :: u8 where "SUBMESSAGE_FRAGMENT = 13"

text \<open>\<open>Cdr::alignment(current, sz)\<close>: the padding that brings \<open>current\<close> to a multiple of \<open>sz\<close>.\<close>

definition cdr_alignment :: "nat \<Rightarrow> nat \<Rightarrow> nat" where
  "cdr_alignment current sz = (sz - current mod sz) mod sz"

definition mh_getCdrSerializedSize :: "MessageHeader \<Rightarrow> nat" where
  "mh_getCdrSerializedSize h =
     (let a1 = 0 + 1 + cdr_alignment 0 1; a2 = a1 + 1 + cdr_alignment a1 1; a3 = a2 + 2 + cdr_alignment a2 2
      in if mh_session_id h < 128 then a3 + 4 * 1 + cdr_alignment a3 1 else a3)"

definition sh_getCdrSerializedSize :: "SubmessageHeader \<Rightarrow> nat" where
  "sh_getCdrSerializedSize h =
     (let a1 = 0 + 1 + cdr_alignment 0 1; a2 = a1 + 1 + cdr_alignment a1 1
      in a2 + 2 + cdr_alignment a2 2)"

text \<open>The successive \<open><<\<close> operations of a \<open>serialize\<close> method.\<close>

definition mh_serialize :: "cdr \<Rightarrow> MessageHeader \<Rightarrow> u8 list list" where
  "mh_serialize C h = [[mh_session_id h], [mh_stream_id h], put_u16_little C (mh_sequence_nr h)]
     @ (if mh_session_id h < 128 then [mh_client_key h] else [])"

definition sh_serialize :: "cdr \<Rightarrow> SubmessageHeader \<Rightarrow> u8 list list" where
  "sh_serialize C h = [[sh_submessage_id h], [sh_flags h], put_u16_little C (sh_submessage_length h)]"

text \<open>Reading at a position; \<open>None\<close> is the exception.\<close>

definition read_bytes :: "u8 list \<Rightarrow> nat \<Rightarrow> nat \<Rightarrow> (u8 list \<times> nat) option" where
  "read_bytes buf pos n = (if pos + n \<le> length buf then Some (take n (drop pos buf), pos + n) else None)"

text \<open>A \<open>deserialize\<close> that throws leaves the fields read before the exception set.\<close>

definition mh_deserialize :: "cdr \<Rightarrow> u8 list \<Rightarrow> nat \<Rightarrow> MessageHeader \<Rightarrow> bool \<times> MessageHeader \<times> nat" where
  "mh_deserialize C buf pos h =
     (case read_bytes buf pos 1 of None \<Rightarrow> (False, h, pos) | Some (b1, p1) \<Rightarrow>
      let h1 = h\<lparr>mh_session_id := b1 ! 0\<rparr> in
      case read_bytes buf p1 1 of None \<Rightarrow> (False, h1, p1) | Some (b2, p2) \<Rightarrow>
      let h2 = h1\<lparr>mh_stream_id := b2 ! 0\<rparr> in
      case read_bytes buf p2 2 of None \<Rightarrow> (False, h2, p2) | Some (b3, p3) \<Rightarrow>
      let h3 = h2\<lparr>mh_sequence_nr := get_u16_little C (b3 ! 0) (b3 ! 1)\<rparr> in
      if mh_session_id h3 < 128
      then case read_bytes buf p3 4 of None \<Rightarrow> (False, h3, p3)
           | Some (b4, p4) \<Rightarrow> (True, h3\<lparr>mh_client_key := b4\<rparr>, p4)
      else (True, h3, p3))"

definition sh_deserialize :: "cdr \<Rightarrow> u8 list \<Rightarrow> nat \<Rightarrow> SubmessageHeader \<Rightarrow> bool \<times> SubmessageHeader \<times> nat" where
  "sh_deserialize C buf pos h =
     (case read_bytes buf pos 1 of None \<Rightarrow> (False, h, pos) | Some (b1, p1) \<Rightarrow>
      let h1 = h\<lparr>sh_submessage_id := b1 ! 0\<rparr> in
      case read_bytes buf p1 1 of None \<Rightarrow> (False, h1, p1) | Some (b2, p2) \<Rightarrow>
      let h2 = h1\<lparr>sh_flags := b2 ! 0\<rparr> in
      case read_bytes buf p2 2 of None \<Rightarrow> (False, h2, p2) | Some (b3, p3) \<Rightarrow>
      (True, h2\<lparr>sh_submessage_length := get_u16_little C (b3 ! 0) (b3 ! 1)\<rparr>, p3))"

subsection \<open>Output messages\<close>

record OutputMessage =
  om_bytes :: "u8 list"
  om_capacity :: nat

text \<open>A submessage as the streams see it: its announced size and its \<open>serialize\<close> operations.\<close>

record submessage =
  sub_getCdrSerializedSize :: nat
  sub_serialize :: "u8 list list"

fun om_serialize :: "u8 list list \<Rightarrow> OutputMessage \<Rightarrow> bool \<times> OutputMessage" where
  "om_serialize [] m = (True, m)"
| "om_serialize (c # cs) m =
     (if length (om_bytes m) + length c \<le> om_capacity m
      then om_serialize cs (m\<lparr>om_bytes := om_bytes m @ c\<rparr>) else (False, m))"

definition om_jump :: "nat \<Rightarrow> OutputMessage \<Rightarrow> OutputMessage" where
  "om_jump n m = (if length (om_bytes m) + n \<le> om_capacity m
     then m\<lparr>om_bytes := om_bytes m @ replicate n 0\<rparr> else m)"

text \<open>\<open>(4 - (position & 3)) & 3\<close>.\<close>

definition align4 :: "nat \<Rightarrow> nat" where
  "align4 p = (4 - p mod 4) mod 4"

definition OutputMessage_new :: "cdr \<Rightarrow> MessageHeader \<Rightarrow> nat \<Rightarrow> OutputMessage" where
  "OutputMessage_new C header len = snd (om_serialize (mh_serialize C header) \<lparr>om_bytes = [], om_capacity = len\<rparr>)"

definition om_get_len :: "OutputMessage \<Rightarrow> nat" where
  "om_get_len m = length (om_bytes m)"

definition append_subheader :: "cdr \<Rightarrow> u8 \<Rightarrow> u8 \<Rightarrow> nat \<Rightarrow> OutputMessage \<Rightarrow> bool \<times> OutputMessage" where
  "append_subheader C submessage_id flags submessage_len m =
     (let subheader = \<lparr>sh_submessage_id = submessage_id, sh_flags = flags,
                       sh_submessage_length = of_nat submessage_len\<rparr>
      in om_serialize (sh_serialize C subheader) (om_jump (align4 (om_get_len m)) m))"

definition append_submessage :: "cdr \<Rightarrow> u8 \<Rightarrow> submessage \<Rightarrow> u8 \<Rightarrow> OutputMessage \<Rightarrow> bool \<times> OutputMessage" where
  "append_submessage C submessage_id data flags m =
     (let (ok, m1) = append_subheader C submessage_id flags (sub_getCdrSerializedSize data) m
      in if ok then om_serialize (sub_serialize data) m1 else (False, m1))"

definition append_raw_payload :: "cdr \<Rightarrow> u8 \<Rightarrow> u8 list \<Rightarrow> u8 \<Rightarrow> OutputMessage \<Rightarrow> bool \<times> OutputMessage" where
  "append_raw_payload C submessage_id buf flags m =
     (let (ok, m1) = append_subheader C submessage_id flags (length buf) m
      in if ok then om_serialize [buf] m1 else (False, m1))"

definition append_fragment :: "cdr \<Rightarrow> SubmessageHeader \<Rightarrow> u8 list \<Rightarrow> OutputMessage \<Rightarrow> bool \<times> OutputMessage" where
  "append_fragment C subheader buf m =
     (let (ok, m1) = om_serialize (sh_serialize C subheader) (om_jump (align4 (om_get_len m)) m)
      in if ok then om_serialize [buf] m1 else (False, m1))"

subsection \<open>Input messages\<close>

record InputMessage =
  im_buf :: "u8 list"
  im_header :: MessageHeader
  im_subheader :: SubmessageHeader
  im_pos :: nat
  im_little_endian :: bool
  im_valid :: bool

definition im_jump :: "u8 list \<Rightarrow> nat \<Rightarrow> nat" where
  "im_jump buf pos = (if pos + align4 pos \<le> length buf then pos + align4 pos else pos)"

text \<open>The loop of \<open>count_submessages\<close> never sets its continuation flag: one round.\<close>

definition count_submessages :: "cdr \<Rightarrow> u8 list \<Rightarrow> nat" where
  "count_submessages C buf =
     (case mh_deserialize C buf 0 MessageHeader_new of (_, _, p0) \<Rightarrow>
      let p = im_jump buf p0
      in if p < length buf \<and> fst (sh_deserialize C buf p SubmessageHeader_new) then 1 else 0)"

definition InputMessage_new :: "cdr \<Rightarrow> u8 list \<Rightarrow> InputMessage" where
  "InputMessage_new C buf =
     (case mh_deserialize C buf 0 MessageHeader_new of (ok, header, pos) \<Rightarrow>
      \<lparr>im_buf = buf, im_header = header, im_subheader = SubmessageHeader_new, im_pos = pos,
       im_little_endian = True, im_valid = (ok \<and> count_submessages C buf > 0)\<rparr>)"

definition prepare_next_submessage :: "cdr \<Rightarrow> InputMessage \<Rightarrow> bool \<times> InputMessage" where
  "prepare_next_submessage C m0 =
     (let m = m0\<lparr>im_pos := im_jump (im_buf m0) (im_pos m0)\<rparr>
      in if im_pos m < length (im_buf m)
         then case sh_deserialize C (im_buf m) (im_pos m) (im_subheader m) of (ok, sh, pos) \<Rightarrow>
              (ok, m\<lparr>im_subheader := sh, im_pos := pos, im_little_endian := odd (unat (sh_flags sh))\<rparr>)
         else (False, m))"

text \<open>\<open>None\<close>: an exception of the deserialiser leaves the function.\<close>

definition get_submessage_id :: "cdr \<Rightarrow> u8 list \<Rightarrow> u8 option" where
  "get_submessage_id C buf =
     (case mh_deserialize C buf 0 MessageHeader_new of (ok, _, p0) \<Rightarrow>
      if \<not> ok then None
      else let p = im_jump buf p0
           in if p < length buf
              then case sh_deserialize C buf p SubmessageHeader_new of (ok2, sh, _) \<Rightarrow>
                   if ok2 then Some (sh_submessage_id sh) else None
              else Some (sh_submessage_id SubmessageHeader_new))"

definition get_raw_header :: "InputMessage \<Rightarrow> u8 list" where
  "get_raw_header m = (if mh_session_id (im_header m) < 128 then take 8 (im_buf m) else take 4 (im_buf m))"

text \<open>The bytes written to the caller's buffer of \<open>len\<close> bytes.\<close>

definition get_raw_payload :: "nat \<Rightarrow> InputMessage \<Rightarrow> u8 list option \<times> InputMessage" where
  "get_raw_payload len m =
     (let n = unat (sh_submessage_length (im_subheader m))
      in if n \<le> len
         then case read_bytes (im_buf m) (im_pos m) n of
                Some (bs, pos) \<Rightarrow> (Some bs, m\<lparr>im_pos := pos\<rparr>)
              | None \<Rightarrow> (None, m)
         else (None, m))"

subsection \<open>What is written is what is read\<close>

definition header_ok :: "MessageHeader \<Rightarrow> bool" where
  "header_ok h \<longleftrightarrow> length (mh_client_key h) = 4"

lemma mh_size: "mh_getCdrSerializedSize h = (if mh_session_id h < 128 then 8 else 4)"
  by (simp add: mh_getCdrSerializedSize_def cdr_alignment_def Let_def)

lemma sh_size [simp]: "sh_getCdrSerializedSize h = 4"
  by (simp add: sh_getCdrSerializedSize_def cdr_alignment_def Let_def)

lemma om_serialize_fits:
  "length (om_bytes m) + length (concat cs) \<le> om_capacity m \<Longrightarrow>
     om_serialize cs m = (True, m\<lparr>om_bytes := om_bytes m @ concat cs\<rparr>)"
  by (induction cs arbitrary: m) auto

lemma om_serialize_bytes:
  "om_serialize cs m = (ok, m') \<Longrightarrow> om_capacity m' = om_capacity m
     \<and> (ok \<longrightarrow> om_bytes m' = om_bytes m @ concat cs)
     \<and> (length (om_bytes m) \<le> om_capacity m \<longrightarrow> length (om_bytes m') \<le> om_capacity m')"
proof (induction cs arbitrary: m)
  case (Cons c cs)
  show ?case using Cons.prems Cons.IH [of "m\<lparr>om_bytes := om_bytes m @ c\<rparr>"] by (auto split: if_splits)
qed auto

lemma align4_multiple [simp]: "align4 4 = 0" "align4 8 = 0"
  by (simp_all add: align4_def)

context cdr_lib
begin

lemma mh_serialize_length: "header_ok h \<Longrightarrow> length (concat (mh_serialize C h)) = mh_getCdrSerializedSize h"
  by (simp add: mh_serialize_def mh_size header_ok_def)

lemma sh_serialize_length: "length (concat (sh_serialize C h)) = 4"
  by (simp add: sh_serialize_def)

lemma align4_header [simp]: "align4 (mh_getCdrSerializedSize h) = 0"
  by (simp add: mh_size)

lemma mh_roundtrip:
  assumes "header_ok h"
  shows "\<exists>h'. mh_deserialize C (concat (mh_serialize C h) @ rest) 0 MessageHeader_new
      = (True, h', mh_getCdrSerializedSize h)
      \<and> h' = (if mh_session_id h < 128 then h else h\<lparr>mh_client_key := [0, 0, 0, 0]\<rparr>)"
proof -
  obtain a b where ab: "put_u16_little C (mh_sequence_nr h) = [a, b]" "get_u16_little C a b = mh_sequence_nr h"
    using put_get_little by blast
  show ?thesis
  proof (cases "mh_session_id h < 128")
    case True
    have "length (mh_client_key h) = 4" using assms by (simp add: header_ok_def)
    with True show ?thesis using ab
      by (cases h) (simp add: mh_deserialize_def mh_serialize_def read_bytes_def Let_def mh_size MessageHeader_new_def)
  next
    case False
    then show ?thesis using ab
      by (cases h) (simp add: mh_deserialize_def mh_serialize_def read_bytes_def Let_def mh_size MessageHeader_new_def)
  qed
qed

lemma sh_roundtrip:
  assumes "length pre = p"
  shows "sh_deserialize C (pre @ concat (sh_serialize C h) @ rest) p h0 = (True, h, p + 4)"
proof -
  obtain a b where ab: "put_u16_little C (sh_submessage_length h) = [a, b]" "get_u16_little C a b = sh_submessage_length h"
    using put_get_little by blast
  with assms show ?thesis
    by (cases h) (auto simp: sh_deserialize_def sh_serialize_def read_bytes_def Let_def nth_append)
qed

lemma OutputMessage_new_bytes:
  assumes "header_ok h" "mh_getCdrSerializedSize h \<le> len"
  shows "OutputMessage_new C h len = \<lparr>om_bytes = concat (mh_serialize C h), om_capacity = len\<rparr>"
  using assms mh_serialize_length [OF assms(1)] by (simp add: OutputMessage_new_def om_serialize_fits)

lemma append_fragment_bytes:
  assumes "header_ok h" "mh_getCdrSerializedSize h + 4 + length buf \<le> len"
  shows "append_fragment C sh buf (OutputMessage_new C h len)
    = (True, \<lparr>om_bytes = concat (mh_serialize C h) @ concat (sh_serialize C sh) @ buf, om_capacity = len\<rparr>)"
  using assms mh_serialize_length [OF assms(1)]
  by (simp add: append_fragment_def OutputMessage_new_bytes om_get_len_def om_jump_def om_serialize_fits
      sh_serialize_length)

lemma append_submessage_bytes:
  assumes "header_ok h" "mh_getCdrSerializedSize h + 4 + length (concat (sub_serialize sub)) \<le> len"
  shows "append_submessage C i sub fl (OutputMessage_new C h len)
    = (True, \<lparr>om_bytes = concat (mh_serialize C h)
          @ concat (sh_serialize C \<lparr>sh_submessage_id = i, sh_flags = fl,
               sh_submessage_length = of_nat (sub_getCdrSerializedSize sub)\<rparr>)
          @ concat (sub_serialize sub), om_capacity = len\<rparr>)"
  using assms mh_serialize_length [OF assms(1)]
  by (simp add: append_submessage_def append_subheader_def OutputMessage_new_bytes om_get_len_def om_jump_def
      om_serialize_fits sh_serialize_length)

text \<open>A received buffer made of a header, a subheader and a payload.\<close>

lemma InputMessage_parts:
  assumes "header_ok h"
    and buf_def: "buf = concat (mh_serialize C h) @ concat (sh_serialize C sh) @ payload"
  shows "im_valid (InputMessage_new C buf)"
    and "im_header (InputMessage_new C buf) = (if mh_session_id h < 128 then h else h\<lparr>mh_client_key := [0, 0, 0, 0]\<rparr>)"
    and "get_raw_header (InputMessage_new C buf) = concat (mh_serialize C h)"
    and "\<exists>m. prepare_next_submessage C (InputMessage_new C buf) = (True, m) \<and> im_subheader m = sh
      \<and> im_pos m = mh_getCdrSerializedSize h + 4 \<and> im_buf m = buf \<and> im_header m = im_header (InputMessage_new C buf)"
proof -
  have len: "length (concat (mh_serialize C h)) = mh_getCdrSerializedSize h" by (rule mh_serialize_length [OF assms(1)])
  obtain h' where h': "mh_deserialize C buf 0 MessageHeader_new = (True, h', mh_getCdrSerializedSize h)"
      "h' = (if mh_session_id h < 128 then h else h\<lparr>mh_client_key := [0, 0, 0, 0]\<rparr>)"
    using mh_roundtrip [OF assms(1)] unfolding buf_def by blast
  have sh: "sh_deserialize C buf (mh_getCdrSerializedSize h) x = (True, sh, mh_getCdrSerializedSize h + 4)" for x
    unfolding buf_def by (rule sh_roundtrip [OF len])
  have b: "mh_getCdrSerializedSize h < length buf" "mh_getCdrSerializedSize h \<le> length buf"
    unfolding buf_def by (simp_all add: len sh_serialize_length del: length_concat)
  show "im_valid (InputMessage_new C buf)"
    using b by (simp add: InputMessage_new_def count_submessages_def h'(1) sh im_jump_def)
  show hd: "im_header (InputMessage_new C buf) = (if mh_session_id h < 128 then h else h\<lparr>mh_client_key := [0, 0, 0, 0]\<rparr>)"
    by (simp add: InputMessage_new_def h')
  have "get_raw_header (InputMessage_new C buf) = take (mh_getCdrSerializedSize h) buf"
    by (simp add: get_raw_header_def InputMessage_new_def h' mh_size)
  also have "\<dots> = concat (mh_serialize C h)" unfolding buf_def using len by simp
  finally show "get_raw_header (InputMessage_new C buf) = concat (mh_serialize C h)" .
  show "\<exists>m. prepare_next_submessage C (InputMessage_new C buf) = (True, m) \<and> im_subheader m = sh
      \<and> im_pos m = mh_getCdrSerializedSize h + 4 \<and> im_buf m = buf \<and> im_header m = im_header (InputMessage_new C buf)"
    using b by (simp add: prepare_next_submessage_def InputMessage_new_def h'(1) sh im_jump_def Let_def)
qed

end

text \<open>Message round trip. A message built from a header and one submessage, in a buffer it fits
  into, is accepted by the receiver, which recovers the header (without the client key when the
  session id says it is absent), the submessage header and the payload.\<close>

theorem message_roundtrip:
  assumes "cdr_lib C" and "header_ok h"
    and "length payload < 65536" and "mh_getCdrSerializedSize h + 4 + length payload \<le> len"
  shows "\<exists>m r. append_submessage C i \<lparr>sub_getCdrSerializedSize = length payload, sub_serialize = [payload]\<rparr> fl
           (OutputMessage_new C h len) = (True, m)
    \<and> im_valid (InputMessage_new C (om_bytes m))
    \<and> im_header (InputMessage_new C (om_bytes m)) = (if mh_session_id h < 128 then h else h\<lparr>mh_client_key := [0, 0, 0, 0]\<rparr>)
    \<and> prepare_next_submessage C (InputMessage_new C (om_bytes m)) = (True, r)
    \<and> sh_submessage_id (im_subheader r) = i \<and> sh_flags (im_subheader r) = fl
    \<and> fst (get_raw_payload (length payload) r) = Some payload"
proof -
  let ?sub = "\<lparr>sub_getCdrSerializedSize = length payload, sub_serialize = [payload]\<rparr>"
  let ?sh = "\<lparr>sh_submessage_id = i, sh_flags = fl, sh_submessage_length = of_nat (length payload)\<rparr> :: SubmessageHeader"
  define buf where "buf = concat (mh_serialize C h) @ concat (sh_serialize C ?sh) @ payload"
  have m: "append_submessage C i ?sub fl (OutputMessage_new C h len) = (True, \<lparr>om_bytes = buf, om_capacity = len\<rparr>)"
    using cdr_lib.append_submessage_bytes [OF assms(1,2), of ?sub len i fl] assms(4) by (simp add: buf_def)
  note parts = cdr_lib.InputMessage_parts [OF assms(1,2) buf_def]
  obtain r where r: "prepare_next_submessage C (InputMessage_new C buf) = (True, r)" "im_subheader r = ?sh"
      "im_pos r = mh_getCdrSerializedSize h + 4" "im_buf r = buf" using parts(4) by blast
  have "length (concat (mh_serialize C h) @ concat (sh_serialize C ?sh)) = mh_getCdrSerializedSize h + 4"
    by (simp only: length_append cdr_lib.mh_serialize_length [OF assms(1,2)] cdr_lib.sh_serialize_length [OF assms(1)])
  then have "drop (mh_getCdrSerializedSize h + 4) buf = payload"
    "length buf = mh_getCdrSerializedSize h + 4 + length payload"
    unfolding buf_def by (metis append_assoc append_eq_conv_conj, metis append_assoc length_append)
  then have "fst (get_raw_payload (length payload) r) = Some payload"
    using r assms(3) by (simp add: get_raw_payload_def read_bytes_def unat_of_nat)
  then show ?thesis using m parts(1,2) r(1,2) by auto
qed

theorem message_roundtrip_witness:
  "\<exists>m r. append_submessage cdr_little 7 \<lparr>sub_getCdrSerializedSize = 3, sub_serialize = [[1, 2, 3]]\<rparr> 1
      (OutputMessage_new cdr_little \<lparr>mh_session_id = 5, mh_stream_id = 128, mh_sequence_nr = 300, mh_client_key = [9, 8, 7, 6]\<rparr> 64)
      = (True, m) \<and> prepare_next_submessage cdr_little (InputMessage_new cdr_little (om_bytes m)) = (True, r)
      \<and> fst (get_raw_payload 3 r) = Some [1, 2, 3]"
proof -
  let ?h = "\<lparr>mh_session_id = 5, mh_stream_id = 128, mh_sequence_nr = 300, mh_client_key = [9, 8, 7, 6]\<rparr> :: MessageHeader"
  have ok: "header_ok ?h" by (simp add: header_ok_def)
  have l: "length [1, 2, 3 :: u8] = 3" by simp
  have "length [1, 2, 3 :: u8] < 65536" "mh_getCdrSerializedSize ?h + 4 + length [1, 2, 3 :: u8] \<le> 64"
    by (simp_all add: mh_size)
  from message_roundtrip [OF cdr_little.cdr_lib_axioms ok this, of 7 1, unfolded l]
  show ?thesis by blast
qed

end
