(* ===== verification/Input_Stream.thy ===== *)
theory Input_Stream
  imports Seq_Num XRCE_Message
begin

text \<open>
  The input streams of a session,
  \<open>src/Micro-XRCE-DDS-Agent/include/uxr/agent/client/session/stream/InputStream.hpp\<close>. The stream
  depths come from the generated \<open>config.hpp\<close> and are arguments. Every method holds the stream's
  mutex for its whole body, so each is one atomic step.
\<close>

unbundle bit_operations_syntax

subsection \<open>None and best-effort streams\<close>

type_synonym 'm NoneInputStream = "'m list"

definition none_push_message :: "nat \<Rightarrow> 'm \<Rightarrow> 'm NoneInputStream \<Rightarrow> bool \<times> 'm NoneInputStream" where
  "none_push_message depth m q = (if length q < depth then (True, q @ [m]) else (False, q))"

text \<open>The \<open>emplace_message\<close> templates construct the message from a buffer in place.\<close>

definition none_emplace_message :: "cdr \<Rightarrow> nat \<Rightarrow> u8 list \<Rightarrow> InputMessage NoneInputStream
    \<Rightarrow> bool \<times> InputMessage NoneInputStream" where
  "none_emplace_message C depth buf q =
     (if length q < depth then (True, q @ [InputMessage_new C buf]) else (False, q))"

definition queue_pop :: "'m list \<Rightarrow> 'm option \<times> 'm list" where
  "queue_pop q = (case q of [] \<Rightarrow> (None, []) | m # ms \<Rightarrow> (Some m, ms))"

definition none_pop_message :: "'m NoneInputStream \<Rightarrow> 'm option \<times> 'm NoneInputStream" where
  "none_pop_message q = queue_pop q"

definition none_reset :: "'m NoneInputStream \<Rightarrow> 'm NoneInputStream" where
  "none_reset q = []"

record 'm BestEffortInputStream =
  bi_messages :: "'m list"
  bi_last_received :: seqnum

definition BestEffortInputStream_new :: "'m BestEffortInputStream" where
  "BestEffortInputStream_new = \<lparr>bi_messages = [], bi_last_received = 65535\<rparr>"

definition best_push_message :: "nat \<Rightarrow> seqnum \<Rightarrow> 'm \<Rightarrow> 'm BestEffortInputStream
    \<Rightarrow> bool \<times> 'm BestEffortInputStream" where
  "best_push_message depth seq_num m s =
     (if sn_greater seq_num (bi_last_received s) \<and> length (bi_messages s) < depth
      then (True, s\<lparr>bi_messages := bi_messages s @ [m], bi_last_received := seq_num\<rparr>)
      else (False, s))"

definition best_emplace_message :: "cdr \<Rightarrow> nat \<Rightarrow> seqnum \<Rightarrow> u8 list \<Rightarrow> InputMessage BestEffortInputStream
    \<Rightarrow> bool \<times> InputMessage BestEffortInputStream" where
  "best_emplace_message C depth seq_num buf s =
     (if sn_greater seq_num (bi_last_received s) \<and> length (bi_messages s) < depth
      then (True, s\<lparr>bi_messages := bi_messages s @ [InputMessage_new C buf], bi_last_received := seq_num\<rparr>)
      else (False, s))"

definition best_pop_message :: "'m BestEffortInputStream \<Rightarrow> 'm option \<times> 'm BestEffortInputStream" where
  "best_pop_message s = (let (r, q) = queue_pop (bi_messages s) in (r, s\<lparr>bi_messages := q\<rparr>))"

definition best_reset :: "'m BestEffortInputStream \<Rightarrow> 'm BestEffortInputStream" where
  "best_reset s = s\<lparr>bi_messages := [], bi_last_received := 65535\<rparr>"

subsection \<open>Reliable stream\<close>

record 'm ReliableInputStream =
  ri_last_handled :: seqnum
  ri_last_announced :: seqnum
  ri_messages :: "seqnum \<rightharpoonup> 'm"
  ri_fragment_msg :: "u8 list"
  ri_fragment_message_available :: bool

definition ReliableInputStream_new :: "'m ReliableInputStream" where
  "ReliableInputStream_new = \<lparr>ri_last_handled = 65535, ri_last_announced = 65535, ri_messages = Map.empty,
     ri_fragment_msg = [], ri_fragment_message_available = False\<rparr>"

definition rel_push_message :: "nat \<Rightarrow> seqnum \<Rightarrow> 'm \<Rightarrow> 'm ReliableInputStream
    \<Rightarrow> bool \<times> 'm ReliableInputStream" where
  "rel_push_message depth seq_num m s =
     (if sn_greater seq_num (ri_last_handled s)
         \<and> sn_le seq_num (sn_add (ri_last_handled s) (of_nat depth))
      then if sn_greater seq_num (ri_last_announced s)
           then (True, s\<lparr>ri_last_announced := seq_num, ri_messages := map_emplace seq_num m (ri_messages s)\<rparr>)
           else if ri_messages s seq_num = None
           then (True, s\<lparr>ri_messages := map_emplace seq_num m (ri_messages s)\<rparr>)
           else (False, s)
      else (False, s))"

definition rel_emplace_message :: "cdr \<Rightarrow> nat \<Rightarrow> seqnum \<Rightarrow> u8 list \<Rightarrow> InputMessage ReliableInputStream
    \<Rightarrow> bool \<times> InputMessage ReliableInputStream" where
  "rel_emplace_message C depth seq_num buf s =
     (if sn_greater seq_num (ri_last_handled s)
         \<and> sn_le seq_num (sn_add (ri_last_handled s) (of_nat depth))
      then if sn_greater seq_num (ri_last_announced s)
           then (True, s\<lparr>ri_last_announced := seq_num,
                  ri_messages := map_emplace seq_num (InputMessage_new C buf) (ri_messages s)\<rparr>)
           else if ri_messages s seq_num = None
           then (True, s\<lparr>ri_messages := map_emplace seq_num (InputMessage_new C buf) (ri_messages s)\<rparr>)
           else (False, s)
      else (False, s))"

lemma emplace_message_eq:
  "none_emplace_message C depth buf q = none_push_message depth (InputMessage_new C buf) q"
  "best_emplace_message C depth sq buf b = best_push_message depth sq (InputMessage_new C buf) b"
  "rel_emplace_message C depth sq buf r = rel_push_message depth sq (InputMessage_new C buf) r"
  by (simp_all add: none_emplace_message_def none_push_message_def best_emplace_message_def best_push_message_def
      rel_emplace_message_def rel_push_message_def)

definition rel_pop_message :: "'m ReliableInputStream \<Rightarrow> 'm option \<times> 'm ReliableInputStream" where
  "rel_pop_message s =
     (let nxt = sn_add_int (ri_last_handled s) 1
      in case ri_messages s nxt of
           None \<Rightarrow> (None, s)
         | Some m \<Rightarrow> (Some m, s\<lparr>ri_last_handled := nxt, ri_messages := (ri_messages s)(nxt := None)\<rparr>))"

definition rel_update_from_heartbeat :: "seqnum \<Rightarrow> seqnum \<Rightarrow> 'm ReliableInputStream \<Rightarrow> 'm ReliableInputStream" where
  "rel_update_from_heartbeat first_unacked last_unacked s =
     (let s1 = (if sn_less (sn_add_int (ri_last_handled s) 1) first_unacked
                then s\<lparr>ri_last_handled := sn_sub_int first_unacked 1\<rparr> else s)
      in if sn_less (ri_last_announced s1) last_unacked
         then s1\<lparr>ri_last_announced := last_unacked\<rparr> else s1)"

record ACKNACK_Payload =
  ak_first_unacked_seq_num :: seqnum
  ak_nack_bitmap_0 :: u8
  ak_nack_bitmap_1 :: u8
  ak_stream_id :: u8

definition ACKNACK_Payload_new :: ACKNACK_Payload where
  "ACKNACK_Payload_new =
     \<lparr>ak_first_unacked_seq_num = 0, ak_nack_bitmap_0 = 0, ak_nack_bitmap_1 = 0, ak_stream_id = 0\<rparr>"

definition nack_bit :: "'m ReliableInputStream \<Rightarrow> nat \<Rightarrow> bool" where
  "nack_bit s i \<longleftrightarrow> sn_less (sn_add (ri_last_handled s) (of_nat i)) (ri_last_announced s)
     \<and> ri_messages s (sn_add (ri_last_handled s) (of_nat (i + 1))) = None"

text \<open>One round of the loop: bit \<open>i\<close> of the low and of the high byte.\<close>

definition nack_step :: "'m ReliableInputStream \<Rightarrow> nat \<Rightarrow> ACKNACK_Payload \<Rightarrow> ACKNACK_Payload" where
  "nack_step s i ak =
     (let ak1 = (if nack_bit s i
                 then ak\<lparr>ak_nack_bitmap_1 := ak_nack_bitmap_1 ak OR push_bit i 1\<rparr> else ak)
      in if nack_bit s (i + 8)
         then ak1\<lparr>ak_nack_bitmap_0 := ak_nack_bitmap_0 ak1 OR push_bit i 1\<rparr> else ak1)"

definition rel_fill_acknack :: "ACKNACK_Payload \<Rightarrow> 'm ReliableInputStream \<Rightarrow> ACKNACK_Payload" where
  "rel_fill_acknack ak s = fold (nack_step s) [0..<8]
      (ak\<lparr>ak_nack_bitmap_0 := 0, ak_nack_bitmap_1 := 0, ak_first_unacked_seq_num := sn_add_int (ri_last_handled s) 1\<rparr>)"

definition rel_reset :: "'m ReliableInputStream \<Rightarrow> 'm ReliableInputStream" where
  "rel_reset s = s\<lparr>ri_last_handled := 65535, ri_last_announced := 65535, ri_messages := Map.empty\<rparr>"

text \<open>A payload that cannot be read leaves the zero bytes \<open>resize\<close> appended.\<close>

definition push_fragment :: "InputMessage \<Rightarrow> 'm ReliableInputStream \<Rightarrow> 'm ReliableInputStream \<times> InputMessage" where
  "push_fragment msg s =
     (let buf = (if ri_fragment_msg s = [] then get_raw_header msg else ri_fragment_msg s);
          fragment_size = unat (sh_submessage_length (im_subheader msg));
          (payload, msg') = get_raw_payload fragment_size msg
      in (s\<lparr>ri_fragment_msg := buf @ (case payload of Some bs \<Rightarrow> bs | None \<Rightarrow> replicate fragment_size 0),
            ri_fragment_message_available := (FLAG_LAST_FRAGMENT AND sh_flags (im_subheader msg) \<noteq> 0)\<rparr>, msg'))"

definition pop_fragment_message :: "cdr \<Rightarrow> 'm ReliableInputStream \<Rightarrow> InputMessage option \<times> 'm ReliableInputStream" where
  "pop_fragment_message C s =
     (if ri_fragment_message_available s
      then (Some (InputMessage_new C (ri_fragment_msg s)),
            s\<lparr>ri_fragment_msg := [], ri_fragment_message_available := False\<rparr>)
      else (None, s))"

subsection \<open>Bounded first-in first-out queues\<close>

text \<open>What the none and best-effort streams promise: pushes are appended when accepted, and only
  while there is room; pops take the oldest message.\<close>

locale bounded_fifo =
  fixes push :: "'a \<Rightarrow> 'q \<Rightarrow> bool \<times> 'q"
    and pop :: "'q \<Rightarrow> 'b option \<times> 'q"
    and items :: "'q \<Rightarrow> 'b list"
    and val :: "'a \<Rightarrow> 'b"
    and depth :: nat
  assumes push_items: "push x q = (ok, q') \<Longrightarrow> items q' = (if ok then items q @ [val x] else items q)"
    and push_room: "push x q = (True, q') \<Longrightarrow> length (items q) < depth"
    and pop_none: "items q = [] \<Longrightarrow> fst (pop q) = None \<and> items (snd (pop q)) = []"
    and pop_some: "items q = y # ys \<Longrightarrow> fst (pop q) = Some y \<and> items (snd (pop q)) = ys"
begin

text \<open>A run: \<open>Some x\<close> pushes, \<open>None\<close> pops. It returns what was accepted and what was popped.\<close>

fun run :: "'a option list \<Rightarrow> 'q \<Rightarrow> 'b list \<times> 'b list \<times> 'q" where
  "run [] q = ([], [], q)"
| "run (Some x # ops) q =
     (case push x q of (ok, q') \<Rightarrow> case run ops q' of (acc, out, r) \<Rightarrow>
      ((if ok then val x # acc else acc), out, r))"
| "run (None # ops) q =
     (case pop q of (y, q') \<Rightarrow> case run ops q' of (acc, out, r) \<Rightarrow>
      (acc, (case y of Some z \<Rightarrow> z # out | None \<Rightarrow> out), r))"

lemma run_fifo: "run ops q = (acc, out, r) \<Longrightarrow> items q @ acc = out @ items r"
proof (induction ops q arbitrary: acc out rule: run.induct)
  case (2 x ops q)
  obtain ok q' where p: "push x q = (ok, q')" by fastforce
  obtain acc' out' where r: "run ops q' = (acc', out', r)" "out = out'" "acc = (if ok then val x # acc' else acc')"
    using 2(2) by (auto simp: p split: prod.splits)
  have "items q' @ acc' = out' @ items r" by (rule 2(1) [OF p [symmetric] r(1)])
  then show ?case using push_items [OF p] r(2,3) by auto
next
  case (3 ops q)
  obtain y q' where p: "pop q = (y, q')" by fastforce
  obtain acc' out' where r: "run ops q' = (acc', out', r)" "acc = acc'" "out = (case y of Some z \<Rightarrow> z # out' | None \<Rightarrow> out')"
    using 3(2) by (auto simp: p split: prod.splits)
  have "items q' @ acc' = out' @ items r" by (rule 3(1) [OF p [symmetric] r(1)])
  then show ?case using pop_none [of q] pop_some [of q] p r(2,3) by (cases "items q") auto
qed simp

lemma run_bounded: "run ops q = (acc, out, r) \<Longrightarrow> length (items q) \<le> depth \<Longrightarrow> length (items r) \<le> depth"
proof (induction ops q arbitrary: acc out rule: run.induct)
  case (2 x ops q)
  obtain ok q' where p: "push x q = (ok, q')" by fastforce
  obtain acc' out' where r: "run ops q' = (acc', out', r)" using 2(2) by (auto simp: p split: prod.splits)
  have "length (items q') \<le> depth"
    using push_items [OF p] push_room [of x q q'] p 2(3) by (cases ok) auto
  from 2(1) [OF p [symmetric] r this] show ?case .
next
  case (3 ops q)
  obtain y q' where p: "pop q = (y, q')" by fastforce
  obtain acc' out' where r: "run ops q' = (acc', out', r)" using 3(2) by (auto simp: p split: prod.splits)
  have "length (items q') \<le> depth"
    using pop_none [of q] pop_some [of q] p 3(3) by (cases "items q") auto
  from 3(1) [OF p [symmetric] r this] show ?case .
qed simp

end

interpretation none_fifo: bounded_fifo "none_push_message depth" none_pop_message "\<lambda>q. q" "\<lambda>x. x" depth for depth
  by unfold_locales (auto simp: none_push_message_def none_pop_message_def queue_pop_def split: if_splits)

interpretation best_fifo: bounded_fifo "\<lambda>(s, m). best_push_message depth s m" best_pop_message bi_messages snd depth for depth
  by unfold_locales
    (auto simp: best_push_message_def best_pop_message_def queue_pop_def split: if_splits prod.splits)

subsection \<open>Reliable delivery\<close>

text \<open>
  The abstract stream: the sender's \<open>k\<close>-th message \<open>sent k\<close> carries the serial number \<open>of_nat k\<close>.
  A run records the messages delivered so far, the positions received and how many were announced.
  Packets may be lost, duplicated and reordered, as long as none arrives half a serial range early or
  late; heartbeats come from a sender that keeps everything not yet delivered.
\<close>

inductive rel_run :: "nat \<Rightarrow> (nat \<Rightarrow> 'm) \<Rightarrow> 'm ReliableInputStream \<Rightarrow> 'm list \<Rightarrow> nat set \<Rightarrow> nat \<Rightarrow> bool"
  for depth sent where
  start: "rel_run depth sent ReliableInputStream_new [] {} 0"
| push: "rel_run depth sent s out rcv ann \<Longrightarrow> k < length out + 16384 \<Longrightarrow> length out < k + 16384
    \<Longrightarrow> rel_push_message depth (of_nat k) (sent k) s = (ok, s')
    \<Longrightarrow> rel_run depth sent s' out (if ok then insert k rcv else rcv) (if ok then max ann (k + 1) else ann)"
| pop: "rel_run depth sent s out rcv ann \<Longrightarrow> rel_pop_message s = (Some m, s')
    \<Longrightarrow> rel_run depth sent s' (out @ [m]) rcv ann"
| heartbeat: "rel_run depth sent s out rcv ann \<Longrightarrow> f \<le> length out \<Longrightarrow> length out < f + 16384
    \<Longrightarrow> l < length out + 16384 \<Longrightarrow> length out < l + 16384
    \<Longrightarrow> rel_run depth sent (rel_update_from_heartbeat (of_nat f) (of_nat l - 1) s) out rcv (max ann l)"
| fragment: "rel_run depth sent s out rcv ann \<Longrightarrow> rel_run depth sent (fst (push_fragment msg s)) out rcv ann"
| fragment_pop: "rel_run depth sent s out rcv ann \<Longrightarrow> rel_run depth sent (snd (pop_fragment_message C s)) out rcv ann"

definition rel_inv :: "nat \<Rightarrow> (nat \<Rightarrow> 'm) \<Rightarrow> 'm ReliableInputStream \<Rightarrow> nat \<Rightarrow> nat set \<Rightarrow> nat \<Rightarrow> bool" where
  "rel_inv depth sent s h rcv ann \<longleftrightarrow> ri_last_handled s = of_nat h - 1 \<and> ri_last_announced s = of_nat ann - 1
     \<and> {..<h} \<subseteq> rcv \<and> (\<forall>k\<in>rcv. k < h + depth \<and> k < ann) \<and> h \<le> ann \<and> ann < h + 16384
     \<and> (\<forall>x m. ri_messages s x = Some m \<longleftrightarrow> (\<exists>k\<in>rcv. h \<le> k \<and> x = of_nat k \<and> m = sent k))"

lemma sn_less_pred [simp]: "sn_less (x - 1) (y - 1) = sn_less x y"
  by (simp add: sn_less_iff)

lemma sn_less_pred_left: "sn_less (x - 1) y = sn_less x (y + 1)"
  by (simp add: sn_less_iff algebra_simps)

lemma sn_less_pred_right: "sn_less x (y - 1) = sn_less (x + 1) y"
  by (simp add: sn_less_iff algebra_simps)

lemma sn_less_nat: "a < b + 32768 \<Longrightarrow> b < a + 32768 \<Longrightarrow> sn_less (of_nat a) (of_nat b) \<longleftrightarrow> a < b"
  by (rule sn.lt_window)

lemma of_nat_Suc_u16: "(of_nat k :: seqnum) + 1 = of_nat (k + 1)"
  by simp

lemma of_nat_window_eq: "a < b + 65536 \<Longrightarrow> b < a + 65536 \<Longrightarrow> (of_nat a :: seqnum) = of_nat b \<longleftrightarrow> a = b"
  using sn.num_inj [of a b] by simp

text \<open>The acceptance test of \<open>push_message\<close> in terms of positions.\<close>

lemma push_guard:
  assumes "k < h + 16384" "h < k + 16384" "depth < 16384"
  shows "sn_greater (of_nat k) (of_nat h - 1) \<longleftrightarrow> h \<le> k"
    and "sn_le (of_nat k) (sn_add (of_nat h - 1) (of_nat depth)) \<longleftrightarrow> k < h + depth"
proof -
  show "sn_greater (of_nat k) (of_nat h - 1) \<longleftrightarrow> h \<le> k"
    unfolding sn_greater_def sn_less_pred_left of_nat_Suc_u16 using assms by (subst sn_less_nat) auto
  have "sn_add (of_nat h - 1) (of_nat depth) = (of_nat (h + depth) - 1 :: seqnum)"
    using assms(3) by (simp add: sn_add_eq unat_of_nat)
  then show "sn_le (of_nat k) (sn_add (of_nat h - 1) (of_nat depth)) \<longleftrightarrow> k < h + depth"
    unfolding sn_le_def sn_greater_def using assms
    by (simp only: sn_less_pred_left of_nat_Suc_u16) (subst sn_less_nat; auto)
qed

lemma rel_inv_D:
  assumes "rel_inv depth sent s h rcv ann" "depth < 16384"
  shows "ri_last_handled s = of_nat h - 1" "ri_last_announced s = of_nat ann - 1"
    "h \<le> ann" "ann < h + 16384" "{..<h} \<subseteq> rcv" "\<forall>j\<in>rcv. j < h + depth \<and> j < ann"
    "\<And>x m. ri_messages s x = Some m \<longleftrightarrow> (\<exists>k\<in>rcv. h \<le> k \<and> x = of_nat k \<and> m = sent k)"
    "h \<le> j \<Longrightarrow> j < h + 32768 \<Longrightarrow> ri_messages s (of_nat j) = (if j \<in> rcv then Some (sent j) else None)"
proof -
  show b: "\<forall>j\<in>rcv. j < h + depth \<and> j < ann"
    and m: "\<And>x m. ri_messages s x = Some m \<longleftrightarrow> (\<exists>k\<in>rcv. h \<le> k \<and> x = of_nat k \<and> m = sent k)"
    using assms(1) unfolding rel_inv_def by blast+
  show "ri_last_handled s = of_nat h - 1" "ri_last_announced s = of_nat ann - 1"
    "h \<le> ann" "ann < h + 16384" "{..<h} \<subseteq> rcv"
    using assms(1) unfolding rel_inv_def by blast+
  assume j: "h \<le> j" "j < h + 32768"
  have "k = j" if "k \<in> rcv" "h \<le> k" "(of_nat j :: seqnum) = of_nat k" for k
    using of_nat_window_eq [of j k] j that b assms(2) by fastforce
  then show "ri_messages s (of_nat j) = (if j \<in> rcv then Some (sent j) else None)"
    using m [of "of_nat j"] j by (cases "ri_messages s (of_nat j)") (metis option.distinct(1), metis option.inject)
qed

lemma rel_inv_start: "rel_inv depth sent ReliableInputStream_new 0 {} 0"
  by (simp add: rel_inv_def ReliableInputStream_new_def)

lemma rel_inv_push:
  assumes inv: "rel_inv depth sent s h rcv ann" and w: "k < h + 16384" "h < k + 16384" and d: "depth < 16384"
    and p: "rel_push_message depth (of_nat k) (sent k) s = (ok, s')"
  shows "rel_inv depth sent s' h (if ok then insert k rcv else rcv) (if ok then max ann (k + 1) else ann)"
    and "ok \<longleftrightarrow> h \<le> k \<and> k < h + depth \<and> k \<notin> rcv"
proof -
  note lh = rel_inv_D(1) [OF inv d] and la = rel_inv_D(2) [OF inv d] and bounds = rel_inv_D(3-6) [OF inv d]
    and all = rel_inv_D(7) [OF inv d] and msgs = rel_inv_D(8) [OF inv d]
  have guard: "sn_greater (of_nat k) (ri_last_handled s) \<and> sn_le (of_nat k) (sn_add (ri_last_handled s) (of_nat depth))
      \<longleftrightarrow> h \<le> k \<and> k < h + depth"
    unfolding lh using push_guard [OF w d] by simp
  have above: "sn_greater (of_nat k) (ri_last_announced s) \<longleftrightarrow> ann \<le> k" if "h \<le> k" "k < h + depth"
    unfolding la using push_guard(1) [of k ann 0] that bounds w by simp
  show ok: "ok \<longleftrightarrow> h \<le> k \<and> k < h + depth \<and> k \<notin> rcv"
  proof (cases "h \<le> k \<and> k < h + depth")
    case True
    then show ?thesis using p above msgs [of k] w bounds(4) unfolding rel_push_message_def
      by (auto simp: guard split: if_splits)
  next
    case False
    then show ?thesis using p unfolding rel_push_message_def by (simp only: guard) auto
  qed
  show "rel_inv depth sent s' h (if ok then insert k rcv else rcv) (if ok then max ann (k + 1) else ann)"
  proof (cases ok)
    case False
    then have "s' = s" using p unfolding rel_push_message_def by (auto split: if_splits)
    with False inv show ?thesis by simp
  next
    case True
    with ok have k: "h \<le> k" "k < h + depth" "k \<notin> rcv" by auto
    have none: "ri_messages s (of_nat k) = None" using msgs [of k] k w by simp
    have s': "s' = s\<lparr>ri_last_announced := of_nat (max ann (k + 1)) - 1, ri_messages := (ri_messages s)(of_nat k \<mapsto> sent k)\<rparr>"
    proof (cases "ann \<le> k")
      case True
      then show ?thesis using p k above none unfolding rel_push_message_def
        by (simp add: guard map_emplace_def max_def)
    next
      case False
      then have m: "max ann (k + 1) = ann" by simp
      have "s' = s\<lparr>ri_messages := (ri_messages s)(of_nat k \<mapsto> sent k)\<rparr>"
        using False p k above none unfolding rel_push_message_def
        by (simp add: guard map_emplace_def)
      then show ?thesis unfolding m la [symmetric] by (cases s) simp
    qed
    have "ri_messages s' x = Some m \<longleftrightarrow> (\<exists>j\<in>insert k rcv. h \<le> j \<and> x = of_nat j \<and> m = sent j)" for x m
      using all [of x m] none k(1) by (auto simp: s')
    then show ?thesis using True s' k lh bounds w d unfolding rel_inv_def by auto
  qed
qed

lemma rel_inv_pop:
  assumes inv: "rel_inv depth sent s h rcv ann" and d: "depth < 16384"
    and p: "rel_pop_message s = (Some m, s')"
  shows "rel_inv depth sent s' (Suc h) rcv ann \<and> m = sent h"
proof -
  note lh = rel_inv_D(1) [OF inv d] and la = rel_inv_D(2) [OF inv d] and bounds = rel_inv_D(3-6) [OF inv d]
    and all = rel_inv_D(7) [OF inv d] and msgs = rel_inv_D(8) [OF inv d]
  have "ri_messages s (of_nat h) = Some m" and s': "s' = s\<lparr>ri_last_handled := of_nat h, ri_messages := (ri_messages s)(of_nat h := None)\<rparr>"
    using p by (auto simp: rel_pop_message_def lh Let_def split: option.splits)
  then have m: "h \<in> rcv" "m = sent h" using msgs [of h] by (auto split: if_splits)
  have ne: "(of_nat k :: seqnum) \<noteq> of_nat h" if "Suc h \<le> k" "k \<in> rcv" for k
    using of_nat_window_eq [of k h] that bounds(4) d by fastforce
  have "ri_messages s' x = Some m' \<longleftrightarrow> (\<exists>k\<in>rcv. Suc h \<le> k \<and> x = of_nat k \<and> m' = sent k)" for x m'
  proof (cases "x = of_nat h")
    case True
    then have "ri_messages s' x = None" by (simp add: s')
    with True ne show ?thesis by (metis option.distinct(1))
  next
    case False
    then have "ri_messages s' x = ri_messages s x" by (simp add: s')
    with False all [of x m'] show ?thesis by (metis Suc_leD Suc_leI le_neq_implies_less)
  qed
  then show ?thesis using m s' la bounds unfolding rel_inv_def by (auto simp: less_Suc_eq)
qed

lemma rel_inv_heartbeat:
  assumes inv: "rel_inv depth sent s h rcv ann" and d: "depth < 16384"
    and w: "f \<le> h" "h < f + 16384" "l < h + 16384" "h < l + 16384"
  shows "rel_inv depth sent (rel_update_from_heartbeat (of_nat f) (of_nat l - 1) s) h rcv (max ann l)"
proof -
  note lh = rel_inv_D(1) [OF inv d] and la = rel_inv_D(2) [OF inv d] and bounds = rel_inv_D(3-6) [OF inv d]
    and all = rel_inv_D(7) [OF inv d]
  have "\<not> sn_less (sn_add_int (ri_last_handled s) 1) (of_nat f)"
    using w sn_less_nat [of h f] by (simp add: lh)
  moreover have "sn_less (ri_last_announced s) (of_nat l - 1) \<longleftrightarrow> ann < l"
    using w bounds sn_less_nat [of ann l] by (simp add: la)
  ultimately have "rel_update_from_heartbeat (of_nat f) (of_nat l - 1) s
      = s\<lparr>ri_last_announced := of_nat (max ann l) - 1\<rparr>"
    using la by (cases s) (auto simp: rel_update_from_heartbeat_def max_def Let_def)
  then show ?thesis using inv w unfolding rel_inv_def by auto
qed

lemma rel_run_inv:
  assumes "rel_run depth sent s out rcv ann" "depth < 16384"
  shows "rel_inv depth sent s (length out) rcv ann \<and> out = map sent [0..<length out]"
  using assms(1)
proof (induction rule: rel_run.induct)
  case start
  then show ?case by (simp add: rel_inv_start)
next
  case (push s out rcv ann k ok s')
  then show ?case using rel_inv_push(1) [where sent = sent, OF _ push(2,3) assms(2) push(4)] by blast
next
  case (pop s out rcv ann m s')
  then show ?case using rel_inv_pop [where sent = sent, OF _ assms(2) pop(2)] by auto
next
  case (heartbeat s out rcv ann f l)
  then show ?case using rel_inv_heartbeat [OF _ assms(2)] by blast
next
  case (fragment s out rcv ann msg)
  then show ?case by (simp add: rel_inv_def push_fragment_def Let_def split: prod.splits)
next
  case (fragment_pop s out rcv ann C)
  then show ?case by (simp add: rel_inv_def pop_fragment_message_def)
qed

lemma fill_acknack_fold:
  assumes "n \<le> 8" "j < 8"
  shows "(bit (ak_nack_bitmap_1 (fold (nack_step s) [0..<n]
        (ak\<lparr>ak_nack_bitmap_0 := 0, ak_nack_bitmap_1 := 0, ak_first_unacked_seq_num := x\<rparr>))) j \<longleftrightarrow> j < n \<and> nack_bit s j)
    \<and> (bit (ak_nack_bitmap_0 (fold (nack_step s) [0..<n]
        (ak\<lparr>ak_nack_bitmap_0 := 0, ak_nack_bitmap_1 := 0, ak_first_unacked_seq_num := x\<rparr>))) j \<longleftrightarrow> j < n \<and> nack_bit s (j + 8))"
  using assms
proof (induction n)
  case (Suc n)
  then show ?case by (auto simp: nack_step_def Let_def bit_simps less_Suc_eq)
qed simp

lemma fill_acknack_first: "ak_first_unacked_seq_num (rel_fill_acknack ak s) = sn_add_int (ri_last_handled s) 1"
proof -
  have "ak_first_unacked_seq_num (fold (nack_step s) xs a) = ak_first_unacked_seq_num a" for xs a
    by (induction xs arbitrary: a) (auto simp: nack_step_def Let_def)
  then show ?thesis by (simp add: rel_fill_acknack_def)
qed

lemma fill_acknack_bits:
  assumes "j < 8"
  shows "bit (ak_nack_bitmap_1 (rel_fill_acknack ak s)) j \<longleftrightarrow> nack_bit s j"
    "bit (ak_nack_bitmap_0 (rel_fill_acknack ak s)) j \<longleftrightarrow> nack_bit s (j + 8)"
  using fill_acknack_fold [OF order_refl assms, of s] assms unfolding rel_fill_acknack_def by blast+

lemma nack_bit_position:
  assumes inv: "rel_inv depth sent s h rcv ann" and d: "depth < 16384" and "i < 16"
  shows "nack_bit s i \<longleftrightarrow> h + i < ann \<and> h + i \<notin> rcv"
proof -
  note lh = rel_inv_D(1) [OF inv d] and la = rel_inv_D(2) [OF inv d] and bounds = rel_inv_D(3-6) [OF inv d]
    and msgs = rel_inv_D(8) [OF inv d]
  have a: "sn_add (ri_last_handled s) (of_nat i) = of_nat (h + i) - 1"
    "sn_add (ri_last_handled s) (of_nat (i + 1)) = of_nat (h + i)"
    using assms(3) by (simp_all add: sn_add_eq unat_of_nat lh unat_word_ariths)
  have "sn_less (of_nat (h + i) - 1) (of_nat ann - 1) \<longleftrightarrow> h + i < ann"
    unfolding sn_less_pred using bounds assms(3) by (intro sn_less_nat) auto
  with msgs [of "h + i"] assms(3) show ?thesis unfolding nack_bit_def a la by (simp del: of_nat_add)
qed

text \<open>C6: Reliable streams deliver in order and exactly once, across the 16-bit wrap-around: however
  packets are lost, duplicated and reordered, and whatever heartbeats an honest sender adds, what
  \<open>pop_message\<close> has returned is exactly the first messages of the sender, in order; and a message
  is accepted exactly when it is new and within the stream depth of the next expected one.\<close>

theorem reliable_input_in_order:
  assumes "rel_run depth sent s out rcv ann" and "depth < 16384"
    and "k < length out + 16384" "length out < k + 16384"
  shows "out = map sent [0..<length out]
    \<and> (fst (rel_push_message depth (of_nat k) (sent k) s)
         \<longleftrightarrow> length out \<le> k \<and> k < length out + depth \<and> k \<notin> rcv)
    \<and> (length out \<in> rcv \<longrightarrow> fst (rel_pop_message s) = Some (sent (length out)))"
proof -
  have inv: "rel_inv depth sent s (length out) rcv ann" and out: "out = map sent [0..<length out]"
    using rel_run_inv [OF assms(1,2)] by auto
  obtain ok s' where p: "rel_push_message depth (of_nat k) (sent k) s = (ok, s')" by fastforce
  have "length out \<in> rcv \<longrightarrow> fst (rel_pop_message s) = Some (sent (length out))"
    using rel_inv_D(1) [OF inv assms(2)] rel_inv_D(8) [OF inv assms(2), of "length out"]
    by (simp add: rel_pop_message_def Let_def)
  then show ?thesis using out rel_inv_push(2) [OF inv assms(3,4,2) p] p by simp
qed

text \<open>C39: The acknowledgement of a reliable stream: \<open>first_unacked_seq_num\<close> is the number of the next
  message to deliver, and bit \<open>i\<close> of the 16-bit bitmap is set exactly when message \<open>i\<close> after it has been
  announced and not received.\<close>

theorem acknack_reports_missing:
  assumes "rel_run depth sent s out rcv ann" and "depth < 16384" and "j < 8"
  shows "ak_first_unacked_seq_num (rel_fill_acknack ak s) = of_nat (length out)
    \<and> (bit (ak_nack_bitmap_1 (rel_fill_acknack ak s)) j \<longleftrightarrow> length out + j < ann \<and> length out + j \<notin> rcv)
    \<and> (bit (ak_nack_bitmap_0 (rel_fill_acknack ak s)) j \<longleftrightarrow> length out + (j + 8) < ann \<and> length out + (j + 8) \<notin> rcv)"
proof -
  have inv: "rel_inv depth sent s (length out) rcv ann" using rel_run_inv [OF assms(1,2)] by blast
  show ?thesis
    using nack_bit_position [OF inv assms(2), of j] nack_bit_position [OF inv assms(2), of "j + 8"] assms(3)
      rel_inv_D(1) [OF inv assms(2)]
    by (simp add: fill_acknack_first fill_acknack_bits)
qed

text \<open>The start of a run in which message 1 overtakes message 0.\<close>

definition demo_stream :: "nat ReliableInputStream" where
  "demo_stream = snd (rel_push_message 16 1 101 ReliableInputStream_new)"

lemma demo_run: "rel_run 16 (\<lambda>k. 100 + k) demo_stream [] {1} 2"
proof -
  have "rel_push_message 16 1 101 (ReliableInputStream_new :: nat ReliableInputStream) = (True, demo_stream)"
    by (simp add: demo_stream_def rel_push_message_def ReliableInputStream_new_def sn_greater_def sn_le_def
        sn_less_def sn_add_def sn_ge_def ADD_RANGE_0_def ADD_RANGE_1_def SeqNum_MAX_def)
  then show ?thesis using rel_run.push [OF rel_run.start, of 1 16 "\<lambda>k. 100 + k" True demo_stream]
    by (simp add: numeral_2_eq_2)
qed

theorem reliable_input_in_order_witness:
  "fst (rel_push_message 16 (of_nat 0) 100 demo_stream)"
  using reliable_input_in_order [OF demo_run, of 0] by simp

theorem acknack_reports_missing_witness:
  "bit (ak_nack_bitmap_1 (rel_fill_acknack ACKNACK_Payload_new demo_stream)) 0 \<and> \<not> bit (ak_nack_bitmap_1 (rel_fill_acknack ACKNACK_Payload_new demo_stream)) 1"
  using acknack_reports_missing [OF demo_run, of 0] acknack_reports_missing [OF demo_run, of 1] by simp

text \<open>Best-effort streams keep order: what has been popped, followed by what is still queued, is
  exactly the sequence of accepted messages, and the queue never exceeds the stream depth.\<close>

theorem best_effort_input_fifo:
  assumes "best_fifo.run depth ops BestEffortInputStream_new = (acc, out, s)"
  shows "acc = out @ bi_messages s \<and> length (bi_messages s) \<le> depth"
  using best_fifo.run_fifo [OF assms] best_fifo.run_bounded [OF assms]
  by (simp add: BestEffortInputStream_new_def)

theorem best_effort_input_fifo_witness:
  "\<exists>out s. best_fifo.run 1 [Some (0, 7 :: nat), Some (1, 8), None] BestEffortInputStream_new = ([7], out, s)
     \<and> [7] = out @ bi_messages s"
proof -
  have "\<exists>out s. best_fifo.run 1 [Some (0, 7 :: nat), Some (1, 8), None] BestEffortInputStream_new = ([7], out, s)"
    by (simp add: best_push_message_def best_pop_message_def queue_pop_def BestEffortInputStream_new_def
        sn_greater_def sn_less_def ADD_RANGE_1_def)
  then show ?thesis using best_effort_input_fifo by blast
qed

end
