(* ===== verification/Output_Stream.thy ===== *)
theory Output_Stream
  imports Input_Stream
begin

text \<open>
  The output streams of a session,
  \<open>src/Micro-XRCE-DDS-Agent/include/uxr/agent/client/session/stream/OutputStream.hpp\<close>. A push to the
  reliable stream waits on a condition variable: it acts, in one atomic step, on the state in which
  the wait ends, and does nothing when the predicate is still false at the time-out. Sizes are
  \<open>size_t\<close> and \<open>uint16_t\<close> values with their wrap-around.
\<close>

subsection \<open>None and best-effort streams\<close>

record SessionInfo =
  si_client_key :: "u8 list"
  si_session_id :: u8
  si_mtu :: nat

definition STREAMID_NONE :: u8 where "STREAMID_NONE = 0"
definition STREAMID_BUILTIN_BEST_EFFORTS :: u8 where "STREAMID_BUILTIN_BEST_EFFORTS = 1"
definition STREAMID_BUILTIN_RELIABLE :: u8 where "STREAMID_BUILTIN_RELIABLE = 128"

definition message_header :: "SessionInfo \<Rightarrow> u8 \<Rightarrow> seqnum \<Rightarrow> MessageHeader" where
  "message_header info stream_id seq =
     \<lparr>mh_session_id = si_session_id info, mh_stream_id = stream_id, mh_sequence_nr = seq,
      mh_client_key = si_client_key info\<rparr>"

type_synonym NoneOutputStream = "OutputMessage list"

definition none_push_submessage :: "cdr \<Rightarrow> nat \<Rightarrow> SessionInfo \<Rightarrow> u8 \<Rightarrow> submessage \<Rightarrow> NoneOutputStream
    \<Rightarrow> bool \<times> NoneOutputStream" where
  "none_push_submessage C depth info i sub q =
     (if length q < depth
      then let (ok, m) = append_submessage C i sub FLAG_LITTLE_ENDIANNESS
                 (OutputMessage_new C (message_header info STREAMID_NONE 0) (si_mtu info))
           in if ok then (True, q @ [m]) else (False, q)
      else (False, q))"

definition none_out_pop_message :: "NoneOutputStream \<Rightarrow> OutputMessage option \<times> NoneOutputStream" where
  "none_out_pop_message q = queue_pop q"

definition none_out_reset :: "NoneOutputStream \<Rightarrow> NoneOutputStream" where
  "none_out_reset q = []"

record BestEffortOutputStream =
  bo_messages :: "OutputMessage list"
  bo_last_sent :: seqnum

definition BestEffortOutputStream_new :: BestEffortOutputStream where
  "BestEffortOutputStream_new = \<lparr>bo_messages = [], bo_last_sent = 65535\<rparr>"

text \<open>A submessage larger than the MTU is dropped, and the push reports success.\<close>

definition best_push_submessage :: "cdr \<Rightarrow> nat \<Rightarrow> SessionInfo \<Rightarrow> u8 \<Rightarrow> u8 \<Rightarrow> submessage \<Rightarrow> BestEffortOutputStream
    \<Rightarrow> bool \<times> BestEffortOutputStream" where
  "best_push_submessage C depth info stream_id i sub s =
     (if length (bo_messages s) < depth
      then if si_mtu info < sub_getCdrSerializedSize sub then (True, s)
           else let (ok, m) = append_submessage C i sub FLAG_LITTLE_ENDIANNESS
                      (OutputMessage_new C (message_header info stream_id (sn_add_int (bo_last_sent s) 1)) (si_mtu info))
                in if ok then (True, s\<lparr>bo_messages := bo_messages s @ [m],
                                      bo_last_sent := sn_add_int (bo_last_sent s) 1\<rparr>)
                   else (False, s)
      else (False, s))"

definition best_out_pop_message :: "BestEffortOutputStream \<Rightarrow> OutputMessage option \<times> BestEffortOutputStream" where
  "best_out_pop_message s = (let (r, q) = queue_pop (bo_messages s) in (r, s\<lparr>bo_messages := q\<rparr>))"

definition best_out_reset :: "BestEffortOutputStream \<Rightarrow> BestEffortOutputStream" where
  "best_out_reset s = s\<lparr>bo_messages := [], bo_last_sent := 65535\<rparr>"

subsection \<open>Reliable stream\<close>

record ReliableOutputStream =
  ro_messages :: "seqnum \<rightharpoonup> OutputMessage"
  ro_last_unacked :: seqnum
  ro_last_sent :: seqnum
  ro_first_unacked :: seqnum

definition ReliableOutputStream_new :: ReliableOutputStream where
  "ReliableOutputStream_new = \<lparr>ro_messages = Map.empty, ro_last_unacked = 65535, ro_last_sent = 65535, ro_first_unacked = 0\<rparr>"

definition ro_reset :: "ReliableOutputStream \<Rightarrow> ReliableOutputStream" where
  "ro_reset s = s\<lparr>ro_last_unacked := 65535, ro_last_sent := 65535, ro_first_unacked := 0, ro_messages := Map.empty\<rparr>"

text \<open>The wait predicate; \<open>SeqNum(RELIABLE_STREAM_DEPTH - 1)\<close> converts an \<open>int\<close>.\<close>

definition ro_has_room :: "nat \<Rightarrow> ReliableOutputStream \<Rightarrow> bool" where
  "ro_has_room depth s =
     sn_less (ro_last_unacked s) (sn_add (ro_first_unacked s) (of_int (int depth - 1)))"

definition size_t_sub :: "nat \<Rightarrow> nat \<Rightarrow> nat" where
  "size_t_sub a b = nat ((int a - int b) mod 2 ^ 64)"

definition to_u16 :: "nat \<Rightarrow> nat" where
  "to_u16 n = n mod 65536"

text \<open>The \<open>do ... while\<close> loop that cuts a serialised submessage into fragments. Its value is the final
  \<open>serialized_size\<close> and stream; \<open>None\<close> is a loop that does not end, \<open>Some None\<close> a fragment that is read
  beyond the end of the buffer.\<close>

partial_function (option) fragment_loop ::
  "cdr \<Rightarrow> SessionInfo \<Rightarrow> u8 \<Rightarrow> u8 list \<Rightarrow> u8 \<Rightarrow> u8 \<Rightarrow> nat \<Rightarrow> ReliableOutputStream
     \<Rightarrow> (nat \<times> ReliableOutputStream) option option" where
  "fragment_loop C info stream_id buf sub_flags frag_flags serialized_size s =
     (let submessage_size = length buf;
          header_size = mh_getCdrSerializedSize (message_header info stream_id 0);
          subheader_size = 4;
          max_fragment_size = size_t_sub (size_t_sub (si_mtu info) header_size) subheader_size;
          more = (si_mtu info < header_size + subheader_size + size_t_sub submessage_size serialized_size);
          fragment_size = (if more then to_u16 max_fragment_size
                           else to_u16 (size_t_sub submessage_size serialized_size));
          flags = (if more then frag_flags else sub_flags OR FLAG_LAST_FRAGMENT);
          subheader = \<lparr>sh_submessage_id = SUBMESSAGE_FRAGMENT, sh_flags = flags,
                       sh_submessage_length = of_nat fragment_size\<rparr>;
          s1 = s\<lparr>ro_last_unacked := sn_add_int (ro_last_unacked s) 1\<rparr>;
          (ok, m) = append_fragment C subheader (take fragment_size (drop serialized_size buf))
             (OutputMessage_new C (message_header info stream_id (ro_last_unacked s1))
                (header_size + subheader_size + fragment_size))
      in if submessage_size < serialized_size + fragment_size then Some None
         else if ok
         then let s2 = s1\<lparr>ro_messages := map_emplace (ro_last_unacked s1) m (ro_messages s1)\<rparr>;
                  n = to_u16 (serialized_size + fragment_size)
              in if n < submessage_size then fragment_loop C info stream_id buf sub_flags flags n s2
                 else Some (Some (n, s2))
         else Some (Some (serialized_size, s1)))"

text \<open>A push: \<open>None\<close> when it does not end, \<open>Some None\<close> when it ends without a result, by reading beyond the
  buffer of the submessage or by the exception of its serialiser, which nobody catches.  What a submessage
  smaller than announced leaves of the buffer is uninitialised (here: zero).\<close>

definition ro_push_submessage :: "cdr \<Rightarrow> nat \<Rightarrow> SessionInfo \<Rightarrow> u8 \<Rightarrow> u8 \<Rightarrow> submessage \<Rightarrow> ReliableOutputStream
    \<Rightarrow> (bool \<times> ReliableOutputStream) option option" where
  "ro_push_submessage C depth info stream_id i sub s =
     (if ro_has_room depth s
      then let submessage_header = \<lparr>sh_submessage_id = i, sh_flags = FLAG_LITTLE_ENDIANNESS,
                 sh_submessage_length = of_nat (sub_getCdrSerializedSize sub)\<rparr>;
               header_size = mh_getCdrSerializedSize (message_header info stream_id 0);
               submessage_size = sh_getCdrSerializedSize submessage_header + sub_getCdrSerializedSize sub
           in if header_size + submessage_size \<le> si_mtu info
              then let s1 = s\<lparr>ro_last_unacked := sn_add_int (ro_last_unacked s) 1\<rparr>;
                       (ok, m) = append_submessage C i sub FLAG_LITTLE_ENDIANNESS
                          (OutputMessage_new C (message_header info stream_id (ro_last_unacked s1))
                             (header_size + submessage_size))
                   in if ok then Some (Some (True, s1\<lparr>ro_messages := map_emplace (ro_last_unacked s1) m (ro_messages s1)\<rparr>))
                      else Some (Some (False, s1))
              else let serialized = concat (sh_serialize C submessage_header) @ concat (sub_serialize sub);
                       buf = serialized @ replicate (submessage_size - length serialized) 0
                   in if submessage_size < length serialized then Some None
                      else map_option (map_option (\<lambda>(serialized_size, s'). (serialized_size = submessage_size, s')))
                             (fragment_loop C info stream_id buf FLAG_LITTLE_ENDIANNESS FLAG_LITTLE_ENDIANNESS 0 s)
      else Some (Some (False, s)))"

text \<open>\<open>None\<close> as a result: \<open>std::map::at\<close> throws.\<close>

definition ro_get_next_message :: "ReliableOutputStream \<Rightarrow> (OutputMessage option \<times> ReliableOutputStream) option" where
  "ro_get_next_message s =
     (if sn_less (ro_last_sent s) (ro_last_unacked s)
      then let s1 = s\<lparr>ro_last_sent := sn_add_int (ro_last_sent s) 1\<rparr>
           in map_option (\<lambda>m. (Some m, s1)) (ro_messages s1 (ro_last_sent s1))
      else Some (None, s))"

definition ro_get_message :: "seqnum \<Rightarrow> ReliableOutputStream \<Rightarrow> OutputMessage option" where
  "ro_get_message seq_num s = ro_messages s seq_num"

text \<open>The \<open>while\<close> loop of \<open>update_from_acknack\<close>.\<close>

function ack_loop :: "seqnum \<Rightarrow> ReliableOutputStream \<Rightarrow> ReliableOutputStream" where
  "ack_loop first_unacked s =
     (if sn_greater first_unacked (ro_first_unacked s)
      then ack_loop first_unacked
             (s\<lparr>ro_messages := (ro_messages s)(ro_first_unacked s := None),
                ro_first_unacked := sn_add_int (ro_first_unacked s) 1\<rparr>)
      else s)"
  by pat_completeness auto
termination
proof (relation "measure (\<lambda>(f, s). unat (f - ro_first_unacked s))")
  fix f s assume "sn_greater f (ro_first_unacked s)"
  then have pos: "0 < unat (f - ro_first_unacked s)" by (simp add: sn_greater_def sn_less_iff)
  have "unat (f - (ro_first_unacked s + 1)) = unat (f - ro_first_unacked s - 1)" by (simp add: algebra_simps)
  also have "\<dots> = unat (f - ro_first_unacked s) - 1" using pos by (subst unat_minus_one) (auto simp: unat_gt_0)
  finally show "((f, s\<lparr>ro_messages := (ro_messages s)(ro_first_unacked s := None),
      ro_first_unacked := sn_add_int (ro_first_unacked s) 1\<rparr>), f, s)
      \<in> measure (\<lambda>(f, s). unat (f - ro_first_unacked s))" using pos by simp
qed simp

definition ro_update_from_acknack :: "seqnum \<Rightarrow> ReliableOutputStream \<Rightarrow> ReliableOutputStream" where
  "ro_update_from_acknack first_unacked s =
     (if sn_le first_unacked (sn_add_int (ro_last_sent s) 1) then ack_loop first_unacked s else s)"

record HEARTBEAT_Payload =
  hb_first_unacked_seq_nr :: seqnum
  hb_last_unacked_seq_nr :: seqnum
  hb_stream_id :: u8

definition ro_fill_heartbeat :: "HEARTBEAT_Payload \<Rightarrow> ReliableOutputStream \<Rightarrow> bool \<times> HEARTBEAT_Payload" where
  "ro_fill_heartbeat hb s =
     (ro_messages s \<noteq> Map.empty,
      hb\<lparr>hb_first_unacked_seq_nr := ro_first_unacked s, hb_last_unacked_seq_nr := ro_last_unacked s\<rparr>)"

declare ack_loop.simps [simp del]

subsection \<open>The queues of the none and best-effort streams\<close>

interpretation none_out_fifo: bounded_fifo
  "\<lambda>(i, sub). none_push_submessage C depth info i sub" none_out_pop_message "\<lambda>q. q"
  "\<lambda>(i, sub). snd (append_submessage C i sub FLAG_LITTLE_ENDIANNESS
     (OutputMessage_new C (message_header info STREAMID_NONE 0) (si_mtu info)))" depth for C depth info
  by unfold_locales
    (auto simp: none_push_submessage_def none_out_pop_message_def queue_pop_def Let_def
      split: if_splits prod.splits)

subsection \<open>Fragmentation against a reference\<close>

text \<open>Cut a byte string into pieces of \<open>n\<close> bytes and a last piece of at most \<open>n\<close>.\<close>

function chunks :: "nat \<Rightarrow> u8 list \<Rightarrow> u8 list list" where
  "chunks n xs = (if n = 0 \<or> length xs \<le> n then [xs] else take n xs # chunks n (drop n xs))"
  by pat_completeness auto
termination by (relation "measure (\<lambda>(n, xs). length xs)") auto

declare chunks.simps [simp del]

definition fragment_message :: "cdr \<Rightarrow> SessionInfo \<Rightarrow> u8 \<Rightarrow> bool \<Rightarrow> seqnum \<Rightarrow> u8 list \<Rightarrow> OutputMessage" where
  "fragment_message C info stream_id is_last seq c =
     \<lparr>om_bytes = concat (mh_serialize C (message_header info stream_id seq))
        @ concat (sh_serialize C \<lparr>sh_submessage_id = SUBMESSAGE_FRAGMENT,
             sh_flags = (if is_last then FLAG_LITTLE_ENDIANNESS OR FLAG_LAST_FRAGMENT else FLAG_LITTLE_ENDIANNESS),
             sh_submessage_length = of_nat (length c)\<rparr>) @ c,
      om_capacity = mh_getCdrSerializedSize (message_header info stream_id 0) + 4 + length c\<rparr>"

fun fragment_messages :: "cdr \<Rightarrow> SessionInfo \<Rightarrow> u8 \<Rightarrow> seqnum \<Rightarrow> u8 list list \<Rightarrow> OutputMessage list" where
  "fragment_messages C info stream_id seq [] = []"
| "fragment_messages C info stream_id seq (c # cs) =
     fragment_message C info stream_id (cs = []) seq c # fragment_messages C info stream_id (seq + 1) cs"

text \<open>Append messages to the window, one serial number each.\<close>

fun ro_append :: "OutputMessage list \<Rightarrow> ReliableOutputStream \<Rightarrow> ReliableOutputStream" where
  "ro_append [] s = s"
| "ro_append (m # ms) s =
     ro_append ms (s\<lparr>ro_last_unacked := ro_last_unacked s + 1,
                     ro_messages := map_emplace (ro_last_unacked s + 1) m (ro_messages s)\<rparr>)"

lemma chunks_concat: "concat (chunks n xs) = xs"
proof (induction n xs rule: chunks.induct)
  case (1 n xs)
  then show ?case by (subst chunks.simps) auto
qed

lemma chunks_length: "0 < n \<Longrightarrow> c \<in> set (chunks n xs) \<Longrightarrow> length c \<le> n"
proof (induction n xs rule: chunks.induct)
  case (1 n xs)
  show ?case
  proof (cases "length xs \<le> n")
    case True
    then show ?thesis using 1(3) by (subst (asm) chunks.simps) auto
  next
    case False
    then show ?thesis using 1 by (subst (asm) (2) chunks.simps) auto
  qed
qed

lemma chunks_nonempty: "chunks n xs \<noteq> []"
  by (subst chunks.simps) simp

lemma mh_size_header: "mh_getCdrSerializedSize (message_header info sid seq) = mh_getCdrSerializedSize (message_header info sid 0)"
  by (simp add: mh_size message_header_def)

lemma header_ok_message_header: "length (si_client_key info) = 4 \<Longrightarrow> header_ok (message_header info sid seq)"
  by (simp add: header_ok_def message_header_def)

lemma size_t_sub_le: "b \<le> a \<Longrightarrow> a < 2 ^ 64 \<Longrightarrow> size_t_sub a b = a - b"
  by (simp add: size_t_sub_def flip: of_nat_diff)

lemma fragment_loop_step:
  assumes "size_t_sub (size_t_sub (si_mtu info) (mh_getCdrSerializedSize (message_header info sid 0))) 4 = mx"
    and "size_t_sub (length buf) ser = R"
    and "si_mtu info < mh_getCdrSerializedSize (message_header info sid 0) + 4 + R \<longleftrightarrow> M"
    and "(if M then to_u16 mx else to_u16 R) = n"
    and "(if M then ff else sf OR FLAG_LAST_FRAGMENT) = fl"
    and "append_fragment C \<lparr>sh_submessage_id = SUBMESSAGE_FRAGMENT, sh_flags = fl, sh_submessage_length = of_nat n\<rparr>
        (take n (drop ser buf))
        (OutputMessage_new C (message_header info sid (ro_last_unacked s + 1))
          (mh_getCdrSerializedSize (message_header info sid 0) + 4 + n)) = (True, m)"
    and "to_u16 (ser + n) = k" and "ser + n \<le> length buf"
  defines "s2 \<equiv> s\<lparr>ro_last_unacked := ro_last_unacked s + 1,
      ro_messages := map_emplace (ro_last_unacked s + 1) m (ro_messages s)\<rparr>"
  shows "fragment_loop C info sid buf sf ff ser s
    = (if k < length buf then fragment_loop C info sid buf sf fl k s2 else Some (Some (k, s2)))"
  by (subst fragment_loop.simps)
    (simp only: Let_def assms(1-7) sn_add_int_one s2_def, simp add: assms(6) leD [OF assms(8)])

context cdr_lib
begin

lemma fragment_message_built:
  assumes "length (si_client_key info) = 4"
  shows "append_fragment C \<lparr>sh_submessage_id = SUBMESSAGE_FRAGMENT,
             sh_flags = (if l then FLAG_LITTLE_ENDIANNESS OR FLAG_LAST_FRAGMENT else FLAG_LITTLE_ENDIANNESS),
             sh_submessage_length = of_nat (length c)\<rparr> c
      (OutputMessage_new C (message_header info sid seq) (mh_getCdrSerializedSize (message_header info sid 0) + 4 + length c))
    = (True, fragment_message C info sid l seq c)"
  using append_fragment_bytes [OF header_ok_message_header [OF assms], of sid seq c]
  by (simp add: fragment_message_def mh_size_header [of info sid seq])

lemma fragment_loop_eq:
  assumes key: "length (si_client_key info) = 4"
    and mtu: "mh_getCdrSerializedSize (message_header info sid 0) + 4 < si_mtu info" "si_mtu info < 2 ^ 64"
    and size: "length buf < 65536" and ser: "ser < length buf"
  defines "mx \<equiv> si_mtu info - mh_getCdrSerializedSize (message_header info sid 0) - 4"
  shows "fragment_loop C info sid buf FLAG_LITTLE_ENDIANNESS FLAG_LITTLE_ENDIANNESS ser s
    = Some (Some (length buf, ro_append (fragment_messages C info sid (ro_last_unacked s + 1) (chunks mx (drop ser buf))) s))"
  using ser
proof (induction "length buf - ser" arbitrary: ser s rule: less_induct)
  case less
  let ?h = "mh_getCdrSerializedSize (message_header info sid 0)"
  let ?rest = "drop ser buf"
  have mx: "0 < mx" and mxs: "size_t_sub (size_t_sub (si_mtu info) ?h) 4 = mx"
    using mtu by (auto simp: mx_def size_t_sub_le)
  have rem: "size_t_sub (length buf) ser = length buf - ser" using less.prems size by (simp add: size_t_sub_le)
  have more: "si_mtu info < ?h + 4 + (length buf - ser) \<longleftrightarrow> mx < length buf - ser" using mtu by (auto simp: mx_def)
  show ?case
  proof (cases "mx < length buf - ser")
    case True
    define c where "c = take mx ?rest"
    have c: "length c = mx" using True by (simp add: c_def)
    have small: "mx < 65536" "ser + mx < length buf" using True size by auto
    have u: "(if True then to_u16 mx else to_u16 (length buf - ser)) = mx" "to_u16 (ser + mx) = ser + mx"
      using small size by (simp_all add: to_u16_def)
    let ?s2 = "s\<lparr>ro_last_unacked := ro_last_unacked s + 1, ro_messages := map_emplace (ro_last_unacked s + 1)
        (fragment_message C info sid False (ro_last_unacked s + 1) c) (ro_messages s)\<rparr>"
    have built: "append_fragment C \<lparr>sh_submessage_id = SUBMESSAGE_FRAGMENT, sh_flags = FLAG_LITTLE_ENDIANNESS,
          sh_submessage_length = of_nat mx\<rparr> (take mx ?rest)
        (OutputMessage_new C (message_header info sid (ro_last_unacked s + 1)) (?h + 4 + mx))
        = (True, fragment_message C info sid False (ro_last_unacked s + 1) c)"
      using fragment_message_built [OF key, of False c sid "ro_last_unacked s + 1"] by (simp add: c flip: c_def)
    have m: "si_mtu info < ?h + 4 + (length buf - ser) \<longleftrightarrow> True" using more True by simp
    have "fragment_loop C info sid buf FLAG_LITTLE_ENDIANNESS FLAG_LITTLE_ENDIANNESS ser s
        = fragment_loop C info sid buf FLAG_LITTLE_ENDIANNESS FLAG_LITTLE_ENDIANNESS (ser + mx) ?s2"
      using fragment_loop_step [OF mxs rem m u(1) refl, unfolded if_True, OF built u(2)] small(2) by simp
    also have "\<dots> = Some (Some (length buf, ro_append (fragment_messages C info sid (ro_last_unacked ?s2 + 1) (chunks mx (drop (ser + mx) buf))) ?s2))"
      using less(1) [of "ser + mx" ?s2] small mx by simp
    also have "chunks mx ?rest = c # chunks mx (drop (ser + mx) buf)"
      using True mx by (subst chunks.simps) (simp add: c_def add.commute not_le)
    then have "ro_append (fragment_messages C info sid (ro_last_unacked ?s2 + 1) (chunks mx (drop (ser + mx) buf))) ?s2
        = ro_append (fragment_messages C info sid (ro_last_unacked s + 1) (chunks mx ?rest)) s"
      using chunks_nonempty by simp
    finally show ?thesis .
  next
    case False
    have u: "(if False then to_u16 mx else to_u16 (length buf - ser)) = length buf - ser"
      "to_u16 (ser + (length buf - ser)) = length buf"
      using size less.prems by (simp_all add: to_u16_def)
    have ch: "chunks mx ?rest = [?rest]" using False by (subst chunks.simps) auto
    have built: "append_fragment C \<lparr>sh_submessage_id = SUBMESSAGE_FRAGMENT,
          sh_flags = FLAG_LITTLE_ENDIANNESS OR FLAG_LAST_FRAGMENT, sh_submessage_length = of_nat (length buf - ser)\<rparr>
          (take (length buf - ser) ?rest)
        (OutputMessage_new C (message_header info sid (ro_last_unacked s + 1)) (?h + 4 + (length buf - ser)))
        = (True, fragment_message C info sid True (ro_last_unacked s + 1) ?rest)"
      using fragment_message_built [OF key, of True ?rest sid "ro_last_unacked s + 1"] by simp
    have m: "si_mtu info < ?h + 4 + (length buf - ser) \<longleftrightarrow> False" using more False by simp
    show ?thesis
      using fragment_loop_step [OF mxs rem m u(1) refl, unfolded if_False, OF built u(2)] less.prems by (simp add: ch)
  qed
qed

end

text \<open>The bytes of a submessage with its header, and the messages that carry it.\<close>

definition submessage_bytes :: "cdr \<Rightarrow> u8 \<Rightarrow> submessage \<Rightarrow> u8 list" where
  "submessage_bytes C i sub =
     concat (sh_serialize C \<lparr>sh_submessage_id = i, sh_flags = FLAG_LITTLE_ENDIANNESS,
        sh_submessage_length = of_nat (sub_getCdrSerializedSize sub)\<rparr>) @ concat (sub_serialize sub)"

definition submessage_messages :: "cdr \<Rightarrow> SessionInfo \<Rightarrow> u8 \<Rightarrow> u8 \<Rightarrow> submessage \<Rightarrow> seqnum \<Rightarrow> OutputMessage list" where
  "submessage_messages C info sid i sub seq =
     (let h = mh_getCdrSerializedSize (message_header info sid 0); bytes = submessage_bytes C i sub
      in if h + length bytes \<le> si_mtu info
         then [\<lparr>om_bytes = concat (mh_serialize C (message_header info sid seq)) @ bytes, om_capacity = h + length bytes\<rparr>]
         else fragment_messages C info sid seq (chunks (si_mtu info - h - 4) bytes))"

text \<open>A session and a submessage the stream can carry: a four-byte key, an MTU with room for at least
  one payload byte, a submessage whose announced size is right and fits the 16-bit length field.\<close>

definition session_ok :: "SessionInfo \<Rightarrow> bool" where
  "session_ok info \<longleftrightarrow> length (si_client_key info) = 4 \<and> si_mtu info < 2 ^ 64
     \<and> (if si_session_id info < 128 then 12 < si_mtu info else 8 < si_mtu info)"

definition submessage_ok :: "submessage \<Rightarrow> bool" where
  "submessage_ok sub \<longleftrightarrow> length (concat (sub_serialize sub)) = sub_getCdrSerializedSize sub
     \<and> sub_getCdrSerializedSize sub + 4 < 65536"

lemma session_ok_mtu: "session_ok info \<Longrightarrow> mh_getCdrSerializedSize (message_header info sid 0) + 4 < si_mtu info"
  by (auto simp: session_ok_def mh_size message_header_def split: if_splits)

context cdr_lib
begin

lemma submessage_bytes_length: "submessage_ok sub \<Longrightarrow> length (submessage_bytes C i sub) = 4 + sub_getCdrSerializedSize sub"
  unfolding submessage_bytes_def submessage_ok_def by (simp only: length_append sh_serialize_length)

lemma ro_push_submessage_eq:
  assumes "session_ok info" "submessage_ok sub" "ro_has_room depth s"
  shows "ro_push_submessage C depth info sid i sub s
    = Some (Some (True, ro_append (submessage_messages C info sid i sub (ro_last_unacked s + 1)) s))"
proof -
  let ?h = "mh_getCdrSerializedSize (message_header info sid 0)"
  have key: "length (si_client_key info) = 4" "si_mtu info < 2 ^ 64" using assms(1) by (auto simp: session_ok_def)
  have len: "length (submessage_bytes C i sub) = 4 + sub_getCdrSerializedSize sub"
    "length (concat (sub_serialize sub)) = sub_getCdrSerializedSize sub"
    using submessage_bytes_length [OF assms(2)] assms(2) by (simp_all add: submessage_ok_def)
  show ?thesis
  proof (cases "?h + (4 + sub_getCdrSerializedSize sub) \<le> si_mtu info")
    case True
    have "append_submessage C i sub FLAG_LITTLE_ENDIANNESS
        (OutputMessage_new C (message_header info sid (ro_last_unacked s + 1)) (?h + (4 + sub_getCdrSerializedSize sub)))
        = (True, \<lparr>om_bytes = concat (mh_serialize C (message_header info sid (ro_last_unacked s + 1)))
            @ submessage_bytes C i sub, om_capacity = ?h + (4 + sub_getCdrSerializedSize sub)\<rparr>)"
      using append_submessage_bytes [OF header_ok_message_header [OF key(1)], of sid "ro_last_unacked s + 1" sub]
      by (simp add: len mh_size_header [of info sid "ro_last_unacked s + 1"] submessage_bytes_def del: length_concat)
    then show ?thesis using True assms(3)
      by (simp add: ro_push_submessage_def submessage_messages_def Let_def len del: length_concat)
  next
    case False
    have "length (submessage_bytes C i sub) < 65536" "0 < length (submessage_bytes C i sub)"
      using assms(2) len by (simp_all add: submessage_ok_def)
    from fragment_loop_eq [OF key(1) session_ok_mtu [OF assms(1)] key(2) this(1,2), of sid s]
    show ?thesis using False assms(3)
      by (simp add: ro_push_submessage_def submessage_messages_def Let_def len sh_serialize_length submessage_bytes_def [symmetric]
          del: length_concat)
  qed
qed

text \<open>An MTU that leaves no room for the payload of a fragment: the loop puts empty fragments into the window for ever.\<close>

lemma fragment_loop_endless:
  assumes "length (si_client_key info) = 4" and "si_mtu info = mh_getCdrSerializedSize (message_header info sid 0) + 4"
    and "buf \<noteq> []" and "length buf < 2 ^ 64"
  shows "fragment_loop C info sid buf sf ff 0 s = None"
proof (rule ccontr)
  let ?h = "mh_getCdrSerializedSize (message_header info sid 0)"
  have sizes: "size_t_sub (size_t_sub (si_mtu info) ?h) 4 = 0" "size_t_sub (length buf) 0 = length buf"
    "si_mtu info < ?h + 4 + length buf"
    using assms(2-4) by (auto simp: size_t_sub_def)
  have built: "\<exists>m. append_fragment C sh [] (OutputMessage_new C (message_header info sid q) (?h + 4)) = (True, m)" for sh q
    using append_fragment_bytes [OF header_ok_message_header [OF assms(1)], of sid q "[]" "?h + 4" sh]
    by (simp add: mh_size_header [of info sid q])
  assume "fragment_loop C info sid buf sf ff 0 s \<noteq> None"
  then obtain y where y: "fragment_loop C info sid buf sf ff 0 s = Some y" by blast
  have "(C, info, sid, buf, 0) \<noteq> (C, info, sid, buf, 0 :: nat)"
  proof (rule fragment_loop.raw_induct [OF _ y, where P = "\<lambda>C' info' sid' buf' sf ff ser s y. (C', info', sid', buf', ser) \<noteq> (C, info, sid, buf, 0)"], goal_cases)
    case (1 f C' info' sid' buf' sf ff ser s y)
    show ?case
    proof
      assume "(C', info', sid', buf', ser) = (C, info, sid, buf, 0)"
      then have e: "C' = C" "info' = info" "sid' = sid" "buf' = buf" "ser = 0" by simp_all
      obtain m where m: "append_fragment C \<lparr>sh_submessage_id = SUBMESSAGE_FRAGMENT, sh_flags = ff, sh_submessage_length = 0\<rparr> []
          (OutputMessage_new C (message_header info sid (ro_last_unacked s + 1)) (?h + 4)) = (True, m)" using built by blast
      from 1(2) m obtain s' where "f C info sid buf sf ff 0 s' = Some y"
        using assms(3) by (auto simp: e sizes Let_def to_u16_def sn_add_int_one)
      then show False using 1(1) by blast
    qed
  qed
  then show False by simp
qed

lemma small_mtu_endless:
  assumes "length (si_client_key info) = 4" and "si_mtu info = mh_getCdrSerializedSize (message_header info sid 0) + 4"
    and "submessage_ok sub" and "0 < sub_getCdrSerializedSize sub" and "ro_has_room depth s"
  shows "ro_push_submessage C depth info sid i sub s = None"
proof -
  let ?buf = "submessage_bytes C i sub"
  have len: "length ?buf = 4 + sub_getCdrSerializedSize sub" by (rule submessage_bytes_length [OF assms(3)])
  then have "length ?buf < 65536" using assms(3) by (simp add: submessage_ok_def)
  moreover have "65536 < (2 :: nat) ^ 64" by simp
  ultimately have "?buf \<noteq> []" "length ?buf < 2 ^ 64" using len by (auto simp flip: length_greater_0_conv)
  note fragment_loop_endless [OF assms(1,2) this]
  then show ?thesis using assms(2-5) len
    by (simp add: submessage_ok_def ro_push_submessage_def Let_def len sh_serialize_length submessage_bytes_def [symmetric] del: length_concat)
qed

text \<open>An MTU below the headers: the room for the payload wraps around, and the first fragment is read beyond the
  end of the submessage.\<close>

lemma tiny_mtu_overrun:
  assumes "si_mtu info < mh_getCdrSerializedSize (message_header info sid 0) + 4"
    and "submessage_ok sub" and "sub_getCdrSerializedSize sub < 65500" and "ro_has_room depth s"
  shows "ro_push_submessage C depth info sid i sub s = Some None"
proof -
  let ?h = "mh_getCdrSerializedSize (message_header info sid 0)" and ?buf = "submessage_bytes C i sub"
  have len: "length ?buf = 4 + sub_getCdrSerializedSize sub" by (rule submessage_bytes_length [OF assms(2)])
  have h: "?h \<le> 8" by (simp add: mh_size)
  have "si_mtu info < 12" using assms(1) h by linarith
  then have "si_mtu info \<in> {0, 1, 2, 3, 4, 5, 6, 7, 8, 9, 10, 11}" by (simp add: numeral_eq_Suc less_Suc_eq disj_ac)
  then have "65500 < to_u16 (size_t_sub (size_t_sub (si_mtu info) ?h) 4) - 4"
    using assms(1) by (auto simp: mh_size size_t_sub_def to_u16_def split: if_splits)
  then have "length ?buf < to_u16 (size_t_sub (size_t_sub (si_mtu info) ?h) 4)" using assms(3) len by linarith
  moreover have "size_t_sub (length ?buf) 0 = length ?buf"
    using assms(3) len by (simp add: size_t_sub_def)
  moreover have "si_mtu info < ?h + 4 + length ?buf" using assms(1) by linarith
  ultimately have "fragment_loop C info sid ?buf FLAG_LITTLE_ENDIANNESS FLAG_LITTLE_ENDIANNESS 0 s = Some None"
    by (subst fragment_loop.simps) (simp add: Let_def split: prod.split)
  then show ?thesis using assms(1,2,4) len
    by (simp add: submessage_ok_def ro_push_submessage_def Let_def len sh_serialize_length submessage_bytes_def [symmetric] del: length_concat)
qed

end

lemma fragment_messages_size:
  assumes "cdr_lib C" "length (si_client_key info) = 4"
  shows "m \<in> set (fragment_messages C info sid seq cs) \<Longrightarrow>
    \<exists>c\<in>set cs. length (om_bytes m) = mh_getCdrSerializedSize (message_header info sid 0) + 4 + length c"
proof (induction cs arbitrary: seq)
  case (Cons c cs)
  have "length (om_bytes (fragment_message C info sid l q c))
      = mh_getCdrSerializedSize (message_header info sid 0) + 4 + length c" for l q
    unfolding fragment_message_def OutputMessage.select_convs length_append
      cdr_lib.mh_serialize_length [OF assms(1) header_ok_message_header [OF assms(2)]]
      cdr_lib.sh_serialize_length [OF assms(1)] mh_size_header [of info sid q] by simp
  with Cons show ?case by auto
qed simp

text \<open>C37: In a session whose MTU has room for the headers and an octet (\<open>session_ok\<close>), pushing a submessage of
  exactly its announced size, at most 65531 octets, to a reliable stream that has room for a message ends and
  succeeds, and is the reference: one message when the submessage fits the MTU, otherwise the pieces of its
  serialisation, in order, one FRAGMENT message each with the last-fragment flag on the final one only; every
  message fits the MTU, and the pieces put together are the serialised submessage.  The MTU is needed: without
  that room the push does not end, or reads beyond the submessage (\<open>reliable_push_small_mtu\<close>).\<close>

theorem reliable_push_carries_submessage:
  assumes "cdr_lib C" and "session_ok info" and "submessage_ok sub" and "ro_has_room depth s"
  shows "ro_push_submessage C depth info sid i sub s
      = Some (Some (True, ro_append (submessage_messages C info sid i sub (ro_last_unacked s + 1)) s))
    \<and> list_all (\<lambda>m. length (om_bytes m) \<le> si_mtu info) (submessage_messages C info sid i sub seq)
    \<and> concat (chunks (si_mtu info - mh_getCdrSerializedSize (message_header info sid 0) - 4) (submessage_bytes C i sub))
        = submessage_bytes C i sub"
proof -
  let ?h = "mh_getCdrSerializedSize (message_header info sid 0)"
  have key: "length (si_client_key info) = 4" using assms(2) by (simp add: session_ok_def)
  have mtu: "?h + 4 < si_mtu info" by (rule session_ok_mtu [OF assms(2)])
  have one: "length (concat (mh_serialize C (message_header info sid seq)) @ submessage_bytes C i sub)
      = ?h + length (submessage_bytes C i sub)"
    by (simp only: length_append mh_size_header [of info sid seq]
        cdr_lib.mh_serialize_length [OF assms(1) header_ok_message_header [OF key]])
  have "length (om_bytes m) \<le> si_mtu info" if "m \<in> set (submessage_messages C info sid i sub seq)" for m
  proof (cases "?h + length (submessage_bytes C i sub) \<le> si_mtu info")
    case True
    with that one show ?thesis by (auto simp: submessage_messages_def Let_def)
  next
    case False
    with that obtain c where c: "c \<in> set (chunks (si_mtu info - ?h - 4) (submessage_bytes C i sub))"
        "length (om_bytes m) = ?h + 4 + length c"
      using fragment_messages_size [OF assms(1) key] by (fastforce simp: submessage_messages_def Let_def)
    have "length c \<le> si_mtu info - ?h - 4" using chunks_length [OF _ c(1)] mtu by simp
    with c(2) mtu show ?thesis by simp
  qed
  then show ?thesis
    using cdr_lib.ro_push_submessage_eq [OF assms] chunks_concat by (simp add: list_all_iff)
qed

definition demo_info :: SessionInfo where
  "demo_info = \<lparr>si_client_key = [1, 2, 3, 4], si_session_id = 129, si_mtu = 12\<rparr>"

definition demo_sub :: submessage where
  "demo_sub = \<lparr>sub_getCdrSerializedSize = 6, sub_serialize = [[1, 2, 3], [4, 5, 6]]\<rparr>"

lemma demo_ok: "session_ok demo_info" "submessage_ok demo_sub" "ro_has_room 16 ReliableOutputStream_new"
  by (simp_all add: session_ok_def demo_info_def submessage_ok_def demo_sub_def ro_has_room_def
      ReliableOutputStream_new_def sn_add_eq sn_less_iff)

theorem reliable_push_carries_submessage_witness:
  "\<exists>s. ro_push_submessage cdr_little 16 demo_info 128 7 demo_sub ReliableOutputStream_new = Some (Some (True, s))"
  using reliable_push_carries_submessage [OF cdr_little.cdr_lib_axioms demo_ok] by blast

text \<open>The MTU is the one the client asks for when it creates its session, and nothing checks it: with an MTU of exactly
  the headers, the first submessage for a reliable stream of that client is fragmented for ever; with a smaller one,
  memory behind the submessage is read, to be sent to the client.\<close>

theorem reliable_push_small_mtu:
  assumes "cdr_lib C" and "length (si_client_key info) = 4" and "si_mtu info \<le> mh_getCdrSerializedSize (message_header info sid 0) + 4"
    and "submessage_ok sub" and "0 < sub_getCdrSerializedSize sub" and "sub_getCdrSerializedSize sub < 65500" and "ro_has_room depth s"
  shows "ro_push_submessage C depth info sid i sub s
    = (if si_mtu info = mh_getCdrSerializedSize (message_header info sid 0) + 4 then None else Some None)"
  using cdr_lib.small_mtu_endless [OF assms(1,2) _ assms(4,5,7)] cdr_lib.tiny_mtu_overrun [OF assms(1) _ assms(4,6,7)] assms(3)
  by (cases "si_mtu info = mh_getCdrSerializedSize (message_header info sid 0) + 4") simp_all

subsection \<open>The window of a reliable output stream\<close>

text \<open>
  A run of the stream with the list of all messages ever put into it, the number acknowledged and the
  number handed out. The \<open>k\<close>-th message of the list has the serial number \<open>of_nat k\<close>.
\<close>

inductive ro_run :: "cdr \<Rightarrow> nat \<Rightarrow> SessionInfo \<Rightarrow> u8 \<Rightarrow> ReliableOutputStream \<Rightarrow> OutputMessage list \<Rightarrow> nat \<Rightarrow> nat \<Rightarrow> bool"
  for C depth info sid where
  start: "ro_run C depth info sid ReliableOutputStream_new [] 0 0"
| push: "ro_run C depth info sid s hist f n \<Longrightarrow> submessage_ok sub
    \<Longrightarrow> ms = (if ro_has_room depth s then submessage_messages C info sid i sub (of_nat (length hist)) else [])
    \<Longrightarrow> length hist + length ms \<le> f + 16384
    \<Longrightarrow> ro_push_submessage C depth info sid i sub s = Some (Some (ok, s'))
    \<Longrightarrow> ro_run C depth info sid s' (hist @ ms) f n"
| get: "ro_run C depth info sid s hist f n \<Longrightarrow> ro_get_next_message s = Some (Some m, s')
    \<Longrightarrow> ro_run C depth info sid s' hist f (Suc n)"
| ack: "ro_run C depth info sid s hist f n \<Longrightarrow> a < f + 16384 \<Longrightarrow> f < a + 16384
    \<Longrightarrow> ro_run C depth info sid (ro_update_from_acknack (of_nat a) s) hist (if a \<le> n then max f a else f) n"

definition ro_inv :: "ReliableOutputStream \<Rightarrow> OutputMessage list \<Rightarrow> nat \<Rightarrow> nat \<Rightarrow> bool" where
  "ro_inv s hist f n \<longleftrightarrow> ro_last_unacked s = of_nat (length hist) - 1 \<and> ro_last_sent s = of_nat n - 1
     \<and> ro_first_unacked s = of_nat f \<and> f \<le> n \<and> n \<le> length hist \<and> length hist \<le> f + 16384
     \<and> (\<forall>x m. ro_messages s x = Some m \<longleftrightarrow> (\<exists>k. f \<le> k \<and> k < length hist \<and> x = of_nat k \<and> m = hist ! k))"

lemma ro_inv_lookup:
  assumes "ro_inv s hist f n" "f \<le> k + 16384" "k < f + 32768"
  shows "ro_messages s (of_nat k) = (if f \<le> k \<and> k < length hist then Some (hist ! k) else None)"
proof -
  have m: "\<And>x m. ro_messages s x = Some m \<longleftrightarrow> (\<exists>j. f \<le> j \<and> j < length hist \<and> x = of_nat j \<and> m = hist ! j)"
    and len: "length hist \<le> f + 16384" using assms(1) by (auto simp: ro_inv_def)
  have "j = k" if "f \<le> j" "j < length hist" "(of_nat k :: seqnum) = of_nat j" for j
    using of_nat_window_eq [of k j] that assms(2,3) len by fastforce
  then show ?thesis using m [of "of_nat k"]
    by (cases "ro_messages s (of_nat k)") (metis option.distinct(1), metis option.inject)
qed

lemma ro_append_inv:
  "ro_inv s hist f n \<Longrightarrow> length hist + length ms \<le> f + 16384 \<Longrightarrow> ro_inv (ro_append ms s) (hist @ ms) f n"
proof (induction ms arbitrary: s hist)
  case (Cons m ms)
  note inv = Cons.prems(1) and bound = Cons.prems(2)
  let ?s = "s\<lparr>ro_last_unacked := ro_last_unacked s + 1,
      ro_messages := map_emplace (ro_last_unacked s + 1) m (ro_messages s)\<rparr>"
  have none: "ro_messages s (of_nat (length hist)) = None"
    using ro_inv_lookup [OF inv, of "length hist"] inv bound by (auto simp: ro_inv_def)
  have lu: "ro_last_unacked s + 1 = of_nat (length hist)" using inv by (simp add: ro_inv_def)
  have "ro_messages ?s x = Some m' \<longleftrightarrow> (\<exists>k. f \<le> k \<and> k < length (hist @ [m]) \<and> x = of_nat k \<and> m' = (hist @ [m]) ! k)" for x m'
  proof (cases "x = of_nat (length hist)")
    case True
    have "k = length hist" if "f \<le> k" "k < length (hist @ [m])" "x = of_nat k" for k
      using of_nat_window_eq [of "length hist" k] that True inv by (auto simp: ro_inv_def)
    moreover have "ro_messages ?s x = Some m" using none True by (simp add: lu map_emplace_def)
    moreover have "f \<le> length hist" using inv by (simp add: ro_inv_def)
    ultimately show ?thesis using True
      by (metis length_append_singleton lessI nth_append_length option.inject)
  next
    case False
    then have "ro_messages ?s x = ro_messages s x" by (simp add: lu map_emplace_def)
    then show ?thesis using False inv by (auto simp: ro_inv_def nth_append less_Suc_eq)
  qed
  then have "ro_inv ?s (hist @ [m]) f n" using inv bound lu by (auto simp: ro_inv_def)
  from Cons.IH [OF this] bound show ?case by simp
qed simp

lemma ro_get_inv:
  assumes inv: "ro_inv s hist f n" and "ro_get_next_message s = Some (Some m, s')"
  shows "ro_inv s' hist f (Suc n)"
proof -
  have "sn_less (ro_last_sent s) (ro_last_unacked s) \<longleftrightarrow> n < length hist"
    using inv sn_less_nat [of n "length hist"] by (auto simp: ro_inv_def)
  with assms show ?thesis
    by (auto simp: ro_get_next_message_def ro_inv_def Let_def split: if_splits)
qed

lemma ack_loop_inv:
  assumes "ro_inv s hist f n" "f \<le> a" "a \<le> n"
  shows "ro_inv (ack_loop (of_nat a) s) hist a n"
  using assms
proof (induction "a - f" arbitrary: f s)
  case 0
  then have "a = f" by simp
  then have "\<not> sn_greater (of_nat a) (ro_first_unacked s)"
    using 0(2) sn.lt_irrefl [of a] by (simp add: ro_inv_def sn_greater_def)
  then show ?case using 0 \<open>a = f\<close> by (subst ack_loop.simps) simp
next
  case (Suc d)
  note inv = Suc.prems(1)
  have fa: "f < a" "a \<le> f + 16384" "length hist \<le> f + 16384" using Suc inv by (auto simp: ro_inv_def)
  have gt: "sn_greater (of_nat a) (ro_first_unacked s)"
    using inv fa sn_less_nat [of f a] by (simp add: ro_inv_def sn_greater_def)
  let ?s = "s\<lparr>ro_messages := (ro_messages s)(ro_first_unacked s := None),
      ro_first_unacked := sn_add_int (ro_first_unacked s) 1\<rparr>"
  have ff: "ro_first_unacked s = of_nat f" using inv by (simp add: ro_inv_def)
  have "ro_messages ?s x = Some m \<longleftrightarrow> (\<exists>k. Suc f \<le> k \<and> k < length hist \<and> x = of_nat k \<and> m = hist ! k)" for x m
  proof (cases "x = of_nat f")
    case True
    have "x \<noteq> of_nat k" if "Suc f \<le> k" "k < length hist" for k
      using of_nat_window_eq [of f k] that True fa by auto
    then show ?thesis using True by (auto simp: ff)
  next
    case False
    then have "ro_messages ?s x = ro_messages s x" by (simp add: ff)
    with False inv show ?thesis unfolding ro_inv_def by (metis Suc_leD Suc_leI le_neq_implies_less)
  qed
  then have "ro_inv ?s hist (Suc f) n" using inv fa Suc.prems by (auto simp: ro_inv_def)
  moreover have "d = a - Suc f" using Suc.hyps(2) by simp
  ultimately have "ro_inv (ack_loop (of_nat a) ?s) hist a n"
    using Suc.hyps(1) [of "Suc f" ?s] fa Suc.prems(3) by simp
  then show ?case using gt by (subst ack_loop.simps) simp
qed

lemma ro_ack_inv:
  assumes inv: "ro_inv s hist f n" and w: "a < f + 16384" "f < a + 16384"
  shows "ro_inv (ro_update_from_acknack (of_nat a) s) hist (if a \<le> n then max f a else f) n"
proof -
  have b: "f \<le> n" "n \<le> f + 16384" using inv by (auto simp: ro_inv_def)
  have le: "sn_le (of_nat a) (sn_add_int (ro_last_sent s) 1) \<longleftrightarrow> a \<le> n"
    using inv b w sn_less_nat [of n a] by (auto simp: ro_inv_def sn_le_def sn_greater_def)
  show ?thesis
  proof (cases "a \<le> n \<and> f \<le> a")
    case True
    then show ?thesis using ack_loop_inv [OF inv, of a] le
      by (simp add: ro_update_from_acknack_def max_def)
  next
    case False
    have "\<not> sn_greater (of_nat a) (ro_first_unacked s)" if "a < f"
      using inv w that sn_less_nat [of f a] by (simp add: ro_inv_def sn_greater_def)
    then have "ack_loop (of_nat a) s = s" if "a < f" using that by (subst ack_loop.simps) simp
    with False inv le show ?thesis by (auto simp: ro_update_from_acknack_def max_def)
  qed
qed

lemma ro_run_inv:
  assumes "ro_run C depth info sid s hist f n" "cdr_lib C" "session_ok info"
  shows "ro_inv s hist f n"
  using assms(1)
proof (induction rule: ro_run.induct)
  case start
  show ?case by (simp add: ro_inv_def ReliableOutputStream_new_def)
next
  case (push s hist f n sub ms i ok s')
  show ?case
  proof (cases "ro_has_room depth s")
    case True
    have "ro_last_unacked s + 1 = of_nat (length hist)" using push.IH by (simp add: ro_inv_def)
    then have "s' = ro_append ms s"
      using cdr_lib.ro_push_submessage_eq [OF assms(2,3) push(2) True, of sid i] push True by simp
    then show ?thesis using ro_append_inv [OF push.IH push(4)] by simp
  next
    case False
    then have "s' = s" "ms = []" using push by (simp_all add: ro_push_submessage_def)
    then show ?thesis using push.IH by simp
  qed
next
  case (get s hist f n m s')
  then show ?case by (blast intro: ro_get_inv)
next
  case (ack s hist f n a)
  then show ?case by (blast intro: ro_ack_inv)
qed

text \<open>C7: The window of a reliable output stream. Over any run, exactly the messages put into the
  stream and not yet acknowledged are kept, each retrievable under its serial number across the
  wrap-around; messages are handed out in order, each once, and never missing; the heartbeat announces
  exactly the kept messages; and a push is admitted exactly while fewer than the stream depth are
  outstanding.\<close>

theorem reliable_output_window:
  assumes "cdr_lib C" and "session_ok info" and "ro_run C depth info sid s hist f n"
    and "0 < depth" "depth < 16384" and "f \<le> k + 16384" "k < f + 32768"
  shows "ro_get_message (of_nat k) s = (if f \<le> k \<and> k < length hist then Some (hist ! k) else None)
    \<and> map_option fst (ro_get_next_message s) = Some (if n < length hist then Some (hist ! n) else None)
    \<and> ro_fill_heartbeat hb s = (f < length hist,
         hb\<lparr>hb_first_unacked_seq_nr := of_nat f, hb_last_unacked_seq_nr := of_nat (length hist) - 1\<rparr>)
    \<and> (ro_has_room depth s \<longleftrightarrow> length hist < f + depth)"
proof -
  have inv: "ro_inv s hist f n" by (rule ro_run_inv [OF assms(3,1,2)])
  then have b: "f \<le> n" "n \<le> length hist" "length hist \<le> f + 16384" by (auto simp: ro_inv_def)
  have get: "ro_get_message (of_nat k) s = (if f \<le> k \<and> k < length hist then Some (hist ! k) else None)"
    unfolding ro_get_message_def by (rule ro_inv_lookup [OF inv assms(6,7)])
  have "sn_less (ro_last_sent s) (ro_last_unacked s) \<longleftrightarrow> n < length hist"
    using inv b sn_less_nat [of n "length hist"] by (auto simp: ro_inv_def)
  moreover have "ro_messages s (of_nat n) = Some (hist ! n)" if "n < length hist"
    using ro_inv_lookup [OF inv, of n] that b by simp
  ultimately have nxt: "map_option fst (ro_get_next_message s) = Some (if n < length hist then Some (hist ! n) else None)"
    using inv by (auto simp: ro_get_next_message_def ro_inv_def Let_def)
  have "ro_messages s \<noteq> Map.empty \<longleftrightarrow> f < length hist"
  proof
    assume "ro_messages s \<noteq> Map.empty"
    then obtain x m where "ro_messages s x = Some m" by fastforce
    then show "f < length hist" using inv unfolding ro_inv_def by force
  next
    assume "f < length hist"
    then show "ro_messages s \<noteq> Map.empty" using ro_inv_lookup [OF inv, of f] by auto
  qed
  then have hb: "ro_fill_heartbeat hb s = (f < length hist,
         hb\<lparr>hb_first_unacked_seq_nr := of_nat f, hb_last_unacked_seq_nr := of_nat (length hist) - 1\<rparr>)"
    using inv by (simp add: ro_fill_heartbeat_def ro_inv_def)
  obtain d where d: "depth = Suc d" using assms(4) by (cases depth) auto
  have "unat (of_nat d :: seqnum) < 32768" using d assms(5) by (simp add: unat_of_nat)
  then have "sn_add (ro_first_unacked s) (of_int (int depth - 1)) = of_nat (f + depth) - 1"
    using inv by (simp add: d ro_inv_def sn_add_eq)
  then have room: "ro_has_room depth s \<longleftrightarrow> length hist < f + depth"
    using inv b assms(5) sn_less_nat [of "length hist" "f + depth"] by (simp add: ro_has_room_def ro_inv_def)
  show ?thesis using get nxt hb room by blast
qed

theorem reliable_output_window_witness:
  "ro_get_message (of_nat 0) (ro_append (submessage_messages cdr_little demo_info 128 7 demo_sub 0) ReliableOutputStream_new)
     = Some (hd (submessage_messages cdr_little demo_info 128 7 demo_sub 0))"
proof -
  let ?ms = "submessage_messages cdr_little demo_info 128 7 demo_sub 0"
  let ?s = "ro_append ?ms ReliableOutputStream_new"
  have len: "length ?ms = 3"
    by (simp add: submessage_messages_def Let_def mh_size message_header_def demo_info_def demo_sub_def
        submessage_bytes_def sh_serialize_def cdr_little_def chunks.simps)
  have m: "(65535 :: seqnum) = - 1" by simp
  have z: "ro_last_unacked ReliableOutputStream_new + 1 = 0"
    by (simp only: ReliableOutputStream_new_def ReliableOutputStream.select_convs m) simp
  have "ro_push_submessage cdr_little 16 demo_info 128 7 demo_sub ReliableOutputStream_new = Some (Some (True, ?s))"
    using cdr_lib.ro_push_submessage_eq [OF cdr_little.cdr_lib_axioms demo_ok, of 128 7] by (simp only: z)
  from ro_run.push [OF ro_run.start demo_ok(2) refl _ this] len demo_ok(3)
  have "ro_run cdr_little 16 demo_info 128 ?s ?ms 0 0" by simp
  from reliable_output_window [OF cdr_little.cdr_lib_axioms demo_ok(1) this, of 0] len
  show ?thesis by (simp add: hd_conv_nth flip: length_greater_0_conv)
qed

end
