(* ===== verification/XRCE_Session.thy ===== *)
theory XRCE_Session
  imports Output_Stream
begin

text \<open>
  A client session, \<open>src/Micro-XRCE-DDS-Agent/include/uxr/agent/client/session/Session.hpp\<close>: the
  streams of both directions by stream id, created on first use. Each method locks the mutex of the
  container it touches; the iteration order of the hash maps is an argument.
\<close>

subsection \<open>State\<close>

record Session =
  se_info :: SessionInfo
  se_none_istream :: "InputMessage NoneInputStream"
  se_best_effort_istreams :: "u8 \<rightharpoonup> InputMessage BestEffortInputStream"
  se_reliable_istreams :: "u8 \<rightharpoonup> InputMessage ReliableInputStream"
  se_none_ostream :: NoneOutputStream
  se_best_effort_ostreams :: "u8 \<rightharpoonup> BestEffortOutputStream"
  se_reliable_ostreams :: "u8 \<rightharpoonup> ReliableOutputStream"

definition Session_new :: "SessionInfo \<Rightarrow> Session" where
  "Session_new info = \<lparr>se_info = info, se_none_istream = [], se_best_effort_istreams = Map.empty,
     se_reliable_istreams = Map.empty, se_none_ostream = [], se_best_effort_ostreams = Map.empty,
     se_reliable_ostreams = Map.empty\<rparr>"

definition is_none_stream :: "u8 \<Rightarrow> bool" where
  "is_none_stream sid \<longleftrightarrow> STREAMID_NONE = sid"

definition is_besteffort_stream :: "u8 \<Rightarrow> bool" where
  "is_besteffort_stream sid \<longleftrightarrow> STREAMID_BUILTIN_RELIABLE > sid \<and> STREAMID_NONE \<noteq> sid"

definition is_reliable_stream :: "u8 \<Rightarrow> bool" where
  "is_reliable_stream sid \<longleftrightarrow> STREAMID_BUILTIN_RELIABLE \<le> sid"

text \<open>\<open>operator[]\<close> of the maps.\<close>

definition best_istream :: "Session \<Rightarrow> u8 \<Rightarrow> InputMessage BestEffortInputStream" where
  "best_istream se sid = (case se_best_effort_istreams se sid of Some s \<Rightarrow> s | None \<Rightarrow> BestEffortInputStream_new)"

definition reliable_istream :: "Session \<Rightarrow> u8 \<Rightarrow> InputMessage ReliableInputStream" where
  "reliable_istream se sid = (case se_reliable_istreams se sid of Some s \<Rightarrow> s | None \<Rightarrow> ReliableInputStream_new)"

definition best_ostream :: "Session \<Rightarrow> u8 \<Rightarrow> BestEffortOutputStream" where
  "best_ostream se sid = (case se_best_effort_ostreams se sid of Some s \<Rightarrow> s | None \<Rightarrow> BestEffortOutputStream_new)"

definition get_reliable_output_stream :: "Session \<Rightarrow> u8 \<Rightarrow> ReliableOutputStream" where
  "get_reliable_output_stream se sid = (case se_reliable_ostreams se sid of Some s \<Rightarrow> s | None \<Rightarrow> ReliableOutputStream_new)"

definition set_best_istream :: "u8 \<Rightarrow> InputMessage BestEffortInputStream \<Rightarrow> Session \<Rightarrow> Session" where
  "set_best_istream sid s se = se\<lparr>se_best_effort_istreams := (se_best_effort_istreams se)(sid \<mapsto> s)\<rparr>"

definition set_reliable_istream :: "u8 \<Rightarrow> InputMessage ReliableInputStream \<Rightarrow> Session \<Rightarrow> Session" where
  "set_reliable_istream sid s se = se\<lparr>se_reliable_istreams := (se_reliable_istreams se)(sid \<mapsto> s)\<rparr>"

definition set_best_ostream :: "u8 \<Rightarrow> BestEffortOutputStream \<Rightarrow> Session \<Rightarrow> Session" where
  "set_best_ostream sid s se = se\<lparr>se_best_effort_ostreams := (se_best_effort_ostreams se)(sid \<mapsto> s)\<rparr>"

definition set_reliable_ostream :: "u8 \<Rightarrow> ReliableOutputStream \<Rightarrow> Session \<Rightarrow> Session" where
  "set_reliable_ostream sid s se = se\<lparr>se_reliable_ostreams := (se_reliable_ostreams se)(sid \<mapsto> s)\<rparr>"

definition Session_reset :: "Session \<Rightarrow> Session" where
  "Session_reset se = se\<lparr>
     se_best_effort_istreams := map_option best_reset \<circ> se_best_effort_istreams se,
     se_reliable_istreams := map_option rel_reset \<circ> se_reliable_istreams se,
     se_none_ostream := none_out_reset (se_none_ostream se),
     se_best_effort_ostreams := map_option best_out_reset \<circ> se_best_effort_ostreams se,
     se_reliable_ostreams := map_option ro_reset \<circ> se_reliable_ostreams se\<rparr>"

subsection \<open>Input streams\<close>

record stream_depths =
  RELIABLE_STREAM_DEPTH :: nat
  BEST_EFFORT_STREAM_DEPTH :: nat

definition push_input_message :: "stream_depths \<Rightarrow> InputMessage \<Rightarrow> u8 \<Rightarrow> seqnum \<Rightarrow> Session \<Rightarrow> bool \<times> Session" where
  "push_input_message D msg sid seq se =
     (if is_none_stream sid
      then let (rv, q) = none_push_message (BEST_EFFORT_STREAM_DEPTH D) msg (se_none_istream se)
           in (rv, se\<lparr>se_none_istream := q\<rparr>)
      else if is_besteffort_stream sid
      then let (rv, s) = best_push_message (BEST_EFFORT_STREAM_DEPTH D) seq msg (best_istream se sid)
           in (rv, set_best_istream sid s se)
      else let (rv, s) = rel_push_message (RELIABLE_STREAM_DEPTH D) seq msg (reliable_istream se sid)
           in (rv, set_reliable_istream sid s se))"

definition pop_input_message :: "u8 \<Rightarrow> Session \<Rightarrow> InputMessage option \<times> Session" where
  "pop_input_message sid se =
     (if is_none_stream sid
      then let (m, q) = none_pop_message (se_none_istream se) in (m, se\<lparr>se_none_istream := q\<rparr>)
      else if is_besteffort_stream sid
      then let (m, s) = best_pop_message (best_istream se sid) in (m, set_best_istream sid s se)
      else let (m, s) = rel_pop_message (reliable_istream se sid) in (m, set_reliable_istream sid s se))"

definition update_from_heartbeat :: "u8 \<Rightarrow> seqnum \<Rightarrow> seqnum \<Rightarrow> Session \<Rightarrow> Session" where
  "update_from_heartbeat sid first_unacked last_unacked se =
     (if is_reliable_stream sid
      then set_reliable_istream sid (rel_update_from_heartbeat first_unacked last_unacked (reliable_istream se sid)) se
      else se)"

definition fill_acknack :: "u8 \<Rightarrow> ACKNACK_Payload \<Rightarrow> Session \<Rightarrow> ACKNACK_Payload \<times> Session" where
  "fill_acknack sid ak se =
     (if is_reliable_stream sid
      then (rel_fill_acknack ak (reliable_istream se sid), set_reliable_istream sid (reliable_istream se sid) se)
      else (ak, se))"

definition push_input_fragment :: "u8 \<Rightarrow> InputMessage \<Rightarrow> Session \<Rightarrow> Session" where
  "push_input_fragment sid msg se =
     (if is_reliable_stream sid
      then set_reliable_istream sid (fst (push_fragment msg (reliable_istream se sid))) se else se)"

definition pop_input_fragment_message :: "cdr \<Rightarrow> u8 \<Rightarrow> Session \<Rightarrow> InputMessage option \<times> Session" where
  "pop_input_fragment_message C sid se =
     (let (m, s) = pop_fragment_message C (reliable_istream se sid) in (m, set_reliable_istream sid s se))"

subsection \<open>Output streams\<close>

text \<open>\<open>result\<close> is created with one zero per stream, and the ids are appended behind them.\<close>

definition get_output_streams :: "(u8 set \<Rightarrow> u8 list) \<Rightarrow> Session \<Rightarrow> u8 list" where
  "get_output_streams order se =
     (let ids = order (dom (se_reliable_ostreams se)) in replicate (length ids) 0 @ ids)"

text \<open>A push has the outcomes of the push to a reliable stream.\<close>

definition push_output_submessage :: "cdr \<Rightarrow> stream_depths \<Rightarrow> u8 \<Rightarrow> u8 \<Rightarrow> submessage \<Rightarrow> Session \<Rightarrow> (bool \<times> Session) option option" where
  "push_output_submessage C D sid i sub se =
     (if is_none_stream sid
      then let (rv, q) = none_push_submessage C (BEST_EFFORT_STREAM_DEPTH D) (se_info se) i sub (se_none_ostream se)
           in Some (Some (rv, se\<lparr>se_none_ostream := q\<rparr>))
      else if is_besteffort_stream sid
      then let (rv, s) = best_push_submessage C (BEST_EFFORT_STREAM_DEPTH D) (se_info se) sid i sub (best_ostream se sid)
           in Some (Some (rv, set_best_ostream sid s se))
      else map_option (map_option (\<lambda>(rv, s). (rv, set_reliable_ostream sid s se)))
             (ro_push_submessage C (RELIABLE_STREAM_DEPTH D) (se_info se) sid i sub (get_reliable_output_stream se sid)))"

definition get_next_output_message :: "u8 \<Rightarrow> Session \<Rightarrow> (OutputMessage option \<times> Session) option" where
  "get_next_output_message sid se =
     (if is_none_stream sid
      then let (m, q) = none_out_pop_message (se_none_ostream se) in Some (m, se\<lparr>se_none_ostream := q\<rparr>)
      else if is_besteffort_stream sid
      then let (m, s) = best_out_pop_message (best_ostream se sid) in Some (m, set_best_ostream sid s se)
      else map_option (\<lambda>(m, s). (m, set_reliable_ostream sid s se))
             (ro_get_next_message (get_reliable_output_stream se sid)))"

definition get_output_message :: "u8 \<Rightarrow> seqnum \<Rightarrow> Session \<Rightarrow> OutputMessage option \<times> Session" where
  "get_output_message sid seq se =
     (if is_reliable_stream sid
      then (ro_get_message seq (get_reliable_output_stream se sid),
            set_reliable_ostream sid (get_reliable_output_stream se sid) se)
      else (None, se))"

definition update_from_acknack :: "u8 \<Rightarrow> seqnum \<Rightarrow> Session \<Rightarrow> Session" where
  "update_from_acknack sid first_unacked se =
     (if is_reliable_stream sid
      then set_reliable_ostream sid (ro_update_from_acknack first_unacked (get_reliable_output_stream se sid)) se
      else se)"

definition fill_heartbeat :: "u8 \<Rightarrow> HEARTBEAT_Payload \<Rightarrow> Session \<Rightarrow> (bool \<times> HEARTBEAT_Payload) \<times> Session" where
  "fill_heartbeat sid hb se =
     (if is_reliable_stream sid
      then let (rv, hb') = ro_fill_heartbeat hb (get_reliable_output_stream se sid)
           in ((rv, hb'\<lparr>hb_stream_id := sid\<rparr>), set_reliable_ostream sid (get_reliable_output_stream se sid) se)
      else ((False, hb), se))"

subsection \<open>Stream kinds\<close>

lemma stream_kinds:
  "is_none_stream sid \<or> is_besteffort_stream sid \<or> is_reliable_stream sid"
  "\<not> (is_none_stream sid \<and> is_besteffort_stream sid)" "\<not> (is_none_stream sid \<and> is_reliable_stream sid)"
  "\<not> (is_besteffort_stream sid \<and> is_reliable_stream sid)"
  by (auto simp: is_none_stream_def is_besteffort_stream_def is_reliable_stream_def STREAMID_NONE_def
      STREAMID_BUILTIN_RELIABLE_def)

lemmas kind_defs = is_none_stream_def is_besteffort_stream_def is_reliable_stream_def STREAMID_NONE_def
  STREAMID_BUILTIN_RELIABLE_def

lemma reliable_not: "is_reliable_stream sid \<Longrightarrow> \<not> is_none_stream sid \<and> \<not> is_besteffort_stream sid"
  using stream_kinds by blast

lemma istream_set [simp]:
  "reliable_istream (set_reliable_istream sid s se) sid' = (if sid' = sid then s else reliable_istream se sid')"
  "best_istream (set_best_istream sid b se) sid' = (if sid' = sid then b else best_istream se sid')"
  "reliable_istream (set_best_istream sid b se) sid' = reliable_istream se sid'"
  "best_istream (set_reliable_istream sid s se) sid' = best_istream se sid'"
  "se_none_istream (set_reliable_istream sid s se) = se_none_istream se"
  "se_none_istream (set_best_istream sid b se) = se_none_istream se"
  by (simp_all add: reliable_istream_def set_reliable_istream_def best_istream_def set_best_istream_def)

lemma istream_none_update [simp]:
  "reliable_istream (se\<lparr>se_none_istream := q\<rparr>) sid = reliable_istream se sid"
  "best_istream (se\<lparr>se_none_istream := q\<rparr>) sid = best_istream se sid"
  by (simp_all add: reliable_istream_def best_istream_def)

text \<open>Input streams do not interfere: a message pushed to one stream, accepted or not, never
  changes what another stream of the session delivers next.\<close>

theorem input_streams_independent:
  assumes "sid' \<noteq> sid"
  shows "fst (pop_input_message sid' (snd (push_input_message D msg sid seq se))) = fst (pop_input_message sid' se)"
  using assms by (auto simp: push_input_message_def pop_input_message_def Let_def case_prod_beta is_none_stream_def)

theorem input_streams_independent_witness:
  "fst (pop_input_message 1 (snd (push_input_message \<lparr>RELIABLE_STREAM_DEPTH = 16, BEST_EFFORT_STREAM_DEPTH = 16\<rparr>
      (InputMessage_new cdr_little []) 128 0 (Session_new demo_info)))) = fst (pop_input_message 1 (Session_new demo_info))"
  by (rule input_streams_independent) simp

subsection \<open>Fragments put together again\<close>

text \<open>What the receiver does with a message of the stream: read its subheader, hand it to the
  fragment buffer.\<close>

definition received :: "cdr \<Rightarrow> OutputMessage \<Rightarrow> InputMessage" where
  "received C m = snd (prepare_next_submessage C (InputMessage_new C (om_bytes m)))"

lemma last_fragment_flag:
  "FLAG_LAST_FRAGMENT AND (if l then FLAG_LITTLE_ENDIANNESS OR FLAG_LAST_FRAGMENT else FLAG_LITTLE_ENDIANNESS) \<noteq> 0 \<longleftrightarrow> l"
  by (simp add: FLAG_LAST_FRAGMENT_def FLAG_LITTLE_ENDIANNESS_def)

context cdr_lib
begin

lemma received_parts:
  assumes "header_ok h" "om_bytes m = concat (mh_serialize C h) @ concat (sh_serialize C sh) @ c"
    and "unat (sh_submessage_length sh) = length c"
  shows "im_subheader (received C m) = sh" "get_raw_header (received C m) = concat (mh_serialize C h)"
    and "fst (get_raw_payload (length c) (received C m)) = Some c"
proof -
  note parts = InputMessage_parts [OF assms(1,2)]
  obtain r where r: "prepare_next_submessage C (InputMessage_new C (om_bytes m)) = (True, r)" "im_subheader r = sh"
      "im_pos r = mh_getCdrSerializedSize h + 4" "im_buf r = om_bytes m"
      "im_header r = im_header (InputMessage_new C (om_bytes m))" using parts(4) by blast
  have rec: "received C m = r" by (simp add: received_def r(1))
  then show "im_subheader (received C m) = sh" by (simp add: r(2))
  have "im_buf (InputMessage_new C (om_bytes m)) = om_bytes m" by (simp add: InputMessage_new_def split: prod.splits)
  then show "get_raw_header (received C m) = concat (mh_serialize C h)"
    using parts(3) by (simp add: rec get_raw_header_def r(4,5) split: if_splits)
  have "length (concat (mh_serialize C h) @ concat (sh_serialize C sh)) = mh_getCdrSerializedSize h + 4"
    by (simp only: length_append mh_serialize_length [OF assms(1)] sh_serialize_length)
  then have "drop (mh_getCdrSerializedSize h + 4) (om_bytes m) = c"
      "length (om_bytes m) = mh_getCdrSerializedSize h + 4 + length c"
    unfolding assms(2) by (metis append_assoc append_eq_conv_conj, metis append_assoc length_append)
  then show "fst (get_raw_payload (length c) (received C m)) = Some c"
    using assms(3) by (simp add: rec get_raw_payload_def read_bytes_def r(2,3,4))
qed

lemma push_fragment_message:
  assumes "length (si_client_key info) = 4" "length c < 65536"
  shows "fst (push_fragment (received C (fragment_message C info sid l q c)) s)
    = s\<lparr>ri_fragment_msg := (if ri_fragment_msg s = [] then concat (mh_serialize C (message_header info sid q))
          else ri_fragment_msg s) @ c, ri_fragment_message_available := l\<rparr>"
proof -
  let ?sh = "\<lparr>sh_submessage_id = SUBMESSAGE_FRAGMENT,
     sh_flags = (if l then FLAG_LITTLE_ENDIANNESS OR FLAG_LAST_FRAGMENT else FLAG_LITTLE_ENDIANNESS),
     sh_submessage_length = of_nat (length c)\<rparr> :: SubmessageHeader"
  have u: "unat (sh_submessage_length ?sh) = length c" using assms(2) by (simp add: unat_of_nat)
  define m where "m = fragment_message C info sid l q c"
  have "om_bytes m = concat (mh_serialize C (message_header info sid q)) @ concat (sh_serialize C ?sh) @ c"
    by (simp add: m_def fragment_message_def)
  note r = received_parts [OF header_ok_message_header [OF assms(1)] this u]
  have "unat (sh_submessage_length (im_subheader (received C m))) = length c" by (simp only: r(1) u)
  moreover have "FLAG_LAST_FRAGMENT AND sh_flags (im_subheader (received C m)) \<noteq> 0 \<longleftrightarrow> l"
    by (simp only: r(1) SubmessageHeader.select_convs last_fragment_flag)
  ultimately show ?thesis using r(2,3) by (simp add: push_fragment_def Let_def case_prod_beta m_def [symmetric])
qed

lemma push_fragments:
  assumes "length (si_client_key info) = 4" "\<forall>c\<in>set cs. length c < 65536" "cs \<noteq> []"
  shows "fold (\<lambda>m s. fst (push_fragment (received C m) s)) (fragment_messages C info sid q cs) s
    = s\<lparr>ri_fragment_msg := (if ri_fragment_msg s = [] then concat (mh_serialize C (message_header info sid q))
          else ri_fragment_msg s) @ concat cs, ri_fragment_message_available := True\<rparr>"
  using assms(2,3)
proof (induction cs arbitrary: q s)
  case (Cons c cs)
  have ne: "concat (mh_serialize C h) \<noteq> []" for h by (simp add: mh_serialize_def)
  show ?case
  proof (cases "cs = []")
    case True
    then show ?thesis using Cons.prems by (simp add: push_fragment_message [OF assms(1)])
  next
    case False
    then show ?thesis using Cons.prems Cons.IH [OF _ False] ne
      by (simp add: push_fragment_message [OF assms(1)] del: concat_eq_Nil_conv)
  qed
qed simp

end

lemma member_length_concat: "c \<in> set cs \<Longrightarrow> length c \<le> length (concat cs)"
  by (induction cs) auto

lemma push_input_fragments:
  assumes "is_reliable_stream sid" "ms \<noteq> []"
  shows "reliable_istream (fold (\<lambda>m. push_input_fragment sid (received C m)) ms se) sid
    = fold (\<lambda>m s. fst (push_fragment (received C m) s)) ms (reliable_istream se sid)"
  using assms(2)
proof (induction ms arbitrary: se)
  case (Cons m ms)
  then show ?case using assms(1) by (cases "ms = []") (simp_all add: push_input_fragment_def)
qed simp

text \<open>C11: Fragmentation and reassembly. A submessage too large for the MTU, cut by a reliable output
  stream and handed fragment by fragment to the same stream of a receiving session, comes out of
  \<open>pop_input_fragment_message\<close> as one valid message with the original submessage id and payload, and the
  reassembly buffer is empty again.\<close>

theorem fragment_reassembly:
  assumes "cdr_lib C" and "session_ok info" and "submessage_ok sub" and "is_reliable_stream sid"
    and "si_mtu info < mh_getCdrSerializedSize (message_header info sid 0) + length (submessage_bytes C i sub)"
    and "ri_fragment_msg (reliable_istream se sid) = []"
  shows "\<exists>m se'. pop_input_fragment_message C sid
        (fold (\<lambda>f. push_input_fragment sid (received C f)) (submessage_messages C info sid i sub seq) se) = (Some m, se')
    \<and> im_buf m = concat (mh_serialize C (message_header info sid seq)) @ submessage_bytes C i sub
    \<and> im_valid m
    \<and> sh_submessage_id (im_subheader (snd (prepare_next_submessage C m))) = i
    \<and> fst (get_raw_payload (sub_getCdrSerializedSize sub) (snd (prepare_next_submessage C m)))
        = Some (concat (sub_serialize sub))
    \<and> ri_fragment_msg (reliable_istream se' sid) = []"
proof -
  let ?h = "message_header info sid seq" and ?cs = "chunks (si_mtu info - mh_getCdrSerializedSize (message_header info sid 0) - 4)
    (submessage_bytes C i sub)"
  let ?sh = "\<lparr>sh_submessage_id = i, sh_flags = FLAG_LITTLE_ENDIANNESS,
      sh_submessage_length = of_nat (sub_getCdrSerializedSize sub)\<rparr> :: SubmessageHeader"
  let ?ms = "fragment_messages C info sid seq ?cs"
  let ?buf = "concat (mh_serialize C ?h) @ submessage_bytes C i sub"
  have key: "length (si_client_key info) = 4" using assms(2) by (simp add: session_ok_def)
  have len: "length (concat (sub_serialize sub)) = sub_getCdrSerializedSize sub" "sub_getCdrSerializedSize sub + 4 < 65536"
    using assms(3) by (auto simp: submessage_ok_def)
  have short: "\<forall>c\<in>set ?cs. length c < 65536"
    using member_length_concat [of _ ?cs] cdr_lib.submessage_bytes_length [OF assms(1,3), of i] len(2)
    by (fastforce simp: chunks_concat simp del: length_concat)
  have ms: "submessage_messages C info sid i sub seq = ?ms" using assms(5) by (simp add: submessage_messages_def Let_def)
  have "?ms \<noteq> []" using chunks_nonempty by (cases ?cs) auto
  note st = push_input_fragments [OF assms(4) this, of C se]
  have fr: "reliable_istream (fold (\<lambda>f. push_input_fragment sid (received C f)) ?ms se) sid
      = (reliable_istream se sid)\<lparr>ri_fragment_msg := ?buf, ri_fragment_message_available := True\<rparr>"
    unfolding st cdr_lib.push_fragments [OF assms(1) key short chunks_nonempty] by (simp add: assms(6) chunks_concat)
  have bytes: "om_bytes \<lparr>om_bytes = ?buf, om_capacity = 0\<rparr>
      = concat (mh_serialize C ?h) @ concat (sh_serialize C ?sh) @ concat (sub_serialize sub)"
    by (simp add: submessage_bytes_def)
  have u: "unat (sh_submessage_length ?sh) = length (concat (sub_serialize sub))" using len by (simp add: unat_of_nat)
  note r = cdr_lib.received_parts [OF assms(1) header_ok_message_header [OF key] bytes u, unfolded len(1)]
  have valid: "im_valid (InputMessage_new C ?buf)"
    by (rule cdr_lib.InputMessage_parts(1) [OF assms(1) header_ok_message_header [OF key]])
      (simp only: submessage_bytes_def)
  have "im_buf (InputMessage_new C ?buf) = ?buf" by (simp add: InputMessage_new_def split: prod.splits)
  moreover have "fst (pop_input_fragment_message C sid (fold (\<lambda>f. push_input_fragment sid (received C f)) ?ms se))
      = Some (InputMessage_new C ?buf)" "ri_fragment_msg (reliable_istream (snd (pop_input_fragment_message C sid
        (fold (\<lambda>f. push_input_fragment sid (received C f)) ?ms se))) sid) = []"
    unfolding pop_input_fragment_message_def fr by (simp_all add: pop_fragment_message_def)
  ultimately show ?thesis using r(1,3) valid unfolding ms
    by (intro exI [of _ "InputMessage_new C ?buf"] exI [of _ "snd (pop_input_fragment_message C sid
        (fold (\<lambda>f. push_input_fragment sid (received C f)) ?ms se))"]) (simp add: prod_eq_iff received_def [of C "\<lparr>om_bytes = ?buf, om_capacity = 0\<rparr>"])
qed

lemma fragment_demo: "length (submessage_bytes cdr_little 7 demo_sub) = 10"
  using cdr_little.submessage_bytes_length [OF demo_ok(2)] by (simp add: demo_sub_def)

theorem fragment_reassembly_witness:
  "\<exists>m se'. pop_input_fragment_message cdr_little 128
      (fold (\<lambda>f. push_input_fragment 128 (received cdr_little f))
         (submessage_messages cdr_little demo_info 128 7 demo_sub 0) (Session_new demo_info)) = (Some m, se')
    \<and> fst (get_raw_payload 6 (snd (prepare_next_submessage cdr_little m))) = Some [1, 2, 3, 4, 5, 6]"
proof -
  have "is_reliable_stream 128" by (simp add: kind_defs)
  moreover have "si_mtu demo_info < mh_getCdrSerializedSize (message_header demo_info 128 0)
      + length (submessage_bytes cdr_little 7 demo_sub)" by (simp add: fragment_demo demo_info_def mh_size message_header_def)
  moreover have "ri_fragment_msg (reliable_istream (Session_new demo_info) 128) = []"
    by (simp add: reliable_istream_def Session_new_def ReliableInputStream_new_def)
  ultimately obtain m se' where "pop_input_fragment_message cdr_little 128
      (fold (\<lambda>f. push_input_fragment 128 (received cdr_little f))
         (submessage_messages cdr_little demo_info 128 7 demo_sub 0) (Session_new demo_info)) = (Some m, se')"
    "fst (get_raw_payload (sub_getCdrSerializedSize demo_sub) (snd (prepare_next_submessage cdr_little m)))
        = Some (concat (sub_serialize demo_sub))"
    using fragment_reassembly [OF cdr_little.cdr_lib_axioms demo_ok(1,2)] by blast
  then show ?thesis by (simp add: demo_sub_def)
qed

text \<open>\<open>get_output_streams\<close> returns every stream id once, but behind as many zeros as there are
  streams: with any stream open, id zero, the none stream, is reported although it is not reliable.\<close>

theorem get_output_streams_zeros:
  assumes "\<And>S. finite S \<Longrightarrow> set (order S) = S \<and> distinct (order S)" and "finite (dom (se_reliable_ostreams se))"
    and "dom (se_reliable_ostreams se) \<noteq> {}"
  shows "length (get_output_streams order se) = 2 * card (dom (se_reliable_ostreams se))
    \<and> set (get_output_streams order se) = insert STREAMID_NONE (dom (se_reliable_ostreams se))
    \<and> \<not> is_reliable_stream STREAMID_NONE"
proof -
  let ?D = "dom (se_reliable_ostreams se)"
  have o: "set (order ?D) = ?D" "distinct (order ?D)" using assms by auto
  then have "length (order ?D) = card ?D" by (metis distinct_card)
  moreover have "order ?D \<noteq> []" using o(1) assms(3) by (metis list.set(1))
  ultimately show ?thesis using o by (auto simp: get_output_streams_def Let_def kind_defs)
qed

theorem get_output_streams_zeros_witness:
  "set (get_output_streams sorted_list_of_set (set_reliable_ostream 128 ReliableOutputStream_new (Session_new demo_info)))
    = {0, 128}"
proof -
  have d: "dom (se_reliable_ostreams (set_reliable_ostream 128 ReliableOutputStream_new (Session_new demo_info))) = {128}"
    by (simp add: set_reliable_ostream_def Session_new_def)
  have "\<And>S :: u8 set. finite S \<Longrightarrow> set (sorted_list_of_set S) = S \<and> distinct (sorted_list_of_set S)" by simp
  from get_output_streams_zeros [OF this, of "set_reliable_ostream 128 ReliableOutputStream_new (Session_new demo_info)"]
  show ?thesis by (simp add: d STREAMID_NONE_def)
qed

end
