(* ===== verification/Ced_Topic.thy ===== *)
theory Ced_Topic
  imports Seq_Num
begin

text \<open>
  The topics of the agent's built-in middleware (\<open>src/cpp/middleware/ced/CedEntities.cpp\<close>,
  \<open>include/uxr/agent/middleware/ced/CedEntities.hpp\<close>): a topic keeps its last 16 samples in a ring
  indexed by a 16-bit serial number; a data reader keeps the serial number it has read up to.  The
  access rights of a client follow from its key (the constructor of \<open>CedMiddleware\<close>).  The mutex makes
  every operation atomic; the wait of \<open>read\<close> is given by the states of the topic at the evaluations of
  its wake-up predicate, the last of which is the one at the deadline.
\<close>

subsection \<open>Data\<close>

datatype TopicSource = SRC_INTERNAL | SRC_EXTERNAL
datatype WriteAccess = W_NONE | W_INTERNAL | W_EXTERNAL | W_COMPLETE
datatype ReadAccess = R_NONE | R_INTERNAL | R_EXTERNAL | R_COMPLETE

record CedGlobalTopic =
  gt_name :: string
  gt_domain_id :: "16 word"
  gt_last_write :: seqnum
  gt_history :: "u8 list list"
  gt_srcs :: "TopicSource list"

text \<open>\<open>srcs_\<close> is not initialised by the constructor: its content is a parameter.\<close>

definition CedGlobalTopic_new :: "TopicSource list \<Rightarrow> string \<Rightarrow> 16 word \<Rightarrow> CedGlobalTopic" where
  "CedGlobalTopic_new srcs topic_name domain_id =
     \<lparr>gt_name = topic_name, gt_domain_id = domain_id, gt_last_write = 65535,
      gt_history = replicate 16 [], gt_srcs = srcs\<rparr>"

subsection \<open>Operations\<close>

definition check_write_access :: "WriteAccess \<Rightarrow> TopicSource \<Rightarrow> bool" where
  "check_write_access write_access topic_src \<longleftrightarrow>
     write_access = W_COMPLETE \<or> (write_access = W_INTERNAL \<and> topic_src = SRC_INTERNAL)
     \<or> (write_access = W_EXTERNAL \<and> topic_src = SRC_EXTERNAL)"

definition check_read_access :: "ReadAccess \<Rightarrow> nat \<Rightarrow> CedGlobalTopic \<Rightarrow> bool" where
  "check_read_access read_access index t \<longleftrightarrow>
     read_access = R_COMPLETE \<or> (read_access = R_INTERNAL \<and> gt_srcs t ! index = SRC_INTERNAL)
     \<or> (read_access = R_EXTERNAL \<and> gt_srcs t ! index = SRC_EXTERNAL)"

definition gt_write :: "u8 list \<Rightarrow> WriteAccess \<Rightarrow> TopicSource \<Rightarrow> CedGlobalTopic \<Rightarrow> bool \<times> CedGlobalTopic" where
  "gt_write data write_access topic_src t =
     (if check_write_access write_access topic_src
      then let index = unat (sn_add_int (gt_last_write t) 1) mod 16
           in (True, t\<lparr>gt_history := (gt_history t)[index := data], gt_srcs := (gt_srcs t)[index := topic_src],
                       gt_last_write := sn_inc (gt_last_write t)\<rparr>)
      else (False, t))"

definition gt_get_data :: "ReadAccess \<Rightarrow> seqnum \<Rightarrow> CedGlobalTopic \<Rightarrow> u8 list option \<times> seqnum" where
  "gt_get_data read_access last_read t =
     (let last_read' = sn_inc last_read; index = unat last_read' mod 16
      in if check_read_access read_access index t then (Some (gt_history t ! index), last_read')
         else (None, last_read'))"

text \<open>The \<open>do\<close> loop of \<open>read\<close>, entered with \<open>last_read\<close> different from \<open>last_write_\<close>.\<close>

function gt_read_loop :: "ReadAccess \<Rightarrow> seqnum \<Rightarrow> CedGlobalTopic \<Rightarrow> u8 list option \<times> seqnum" where
  "gt_read_loop read_access last_read t =
     (if last_read = gt_last_write t then (None, last_read)
      else case gt_get_data read_access last_read t of
             (Some data, last_read') \<Rightarrow> (Some data, last_read')
           | (None, last_read') \<Rightarrow> gt_read_loop read_access last_read' t)"
  by pat_completeness auto

lemma sn_inc_eq [simp]: "sn_inc s = s + 1"
proof (cases "unat s = 65535")
  case True
  then have "s = 65535" by (simp add: word_unat_eq_iff)
  then show ?thesis by (simp add: sn_inc_def)
qed (simp add: sn_inc_def)

termination gt_read_loop
proof (relation "measure (\<lambda>(_, last_read, t). unat (gt_last_write t - last_read))")
  fix read_access last_read t x y
  assume "last_read \<noteq> gt_last_write t" "(x, y) = gt_get_data read_access last_read t"
  then have "y = last_read + 1" by (auto simp: gt_get_data_def Let_def split: if_splits)
  moreover have "gt_last_write t - last_read \<noteq> 0" using \<open>last_read \<noteq> gt_last_write t\<close> by simp
  then have "unat (gt_last_write t - last_read - 1) < unat (gt_last_write t - last_read)"
    by (metis measure_unat)
  ultimately show "((read_access, y, t), read_access, last_read, t)
      \<in> measure (\<lambda>(_, last_read, t). unat (gt_last_write t - last_read))"
    by (simp add: diff_diff_eq)
qed simp

text \<open>\<open>cv_.wait_until\<close> with the predicate of \<open>read\<close>; the error code of a timeout is the \<open>None\<close> result.\<close>

fun gt_wait :: "ReadAccess \<Rightarrow> seqnum \<Rightarrow> CedGlobalTopic list \<Rightarrow> u8 list option \<times> seqnum" where
  "gt_wait read_access last_read [] = (None, last_read)"
| "gt_wait read_access last_read (t # wakes) =
     (if last_read \<noteq> gt_last_write t
      then case gt_get_data read_access last_read t of
             (Some data, last_read') \<Rightarrow> (Some data, last_read')
           | (None, last_read') \<Rightarrow> gt_wait read_access last_read' wakes
      else gt_wait read_access last_read wakes)"

definition gt_read :: "ReadAccess \<Rightarrow> CedGlobalTopic list \<Rightarrow> seqnum \<Rightarrow> CedGlobalTopic \<Rightarrow> u8 list option \<times> seqnum" where
  "gt_read read_access wakes last_read t =
     (let lw = gt_last_write t;
          fixed = (if sn_le last_read (sn_sub_int lw 16) \<or> sn_greater last_read lw
                   then sn_sub_int lw 16 else last_read);
          (rv, lr) = (if last_read \<noteq> lw then gt_read_loop read_access fixed t else (None, last_read))
      in if rv = None \<and> lr = lw then gt_wait read_access lr wakes else (rv, lr))"

subsection \<open>Data writers, data readers and the rights of a client\<close>

record CedDataWriter =
  dw_write_access :: WriteAccess
  dw_topic_src :: TopicSource

record CedDataReader =
  dr_last_read :: seqnum
  dr_read_access :: ReadAccess

definition CedDataReader_new :: "ReadAccess \<Rightarrow> CedDataReader" where
  "CedDataReader_new read_access = \<lparr>dr_last_read = 65535, dr_read_access = read_access\<rparr>"

definition dw_write :: "CedDataWriter \<Rightarrow> u8 list \<Rightarrow> CedGlobalTopic \<Rightarrow> bool \<times> CedGlobalTopic" where
  "dw_write w data t = gt_write data (dw_write_access w) (dw_topic_src w) t"

definition dr_read :: "CedGlobalTopic list \<Rightarrow> CedGlobalTopic \<Rightarrow> CedDataReader \<Rightarrow> u8 list option \<times> CedDataReader" where
  "dr_read wakes t r =
     (let (rv, lr) = gt_read (dr_read_access r) wakes (dr_last_read r) t in (rv, r\<lparr>dr_last_read := lr\<rparr>))"

definition INTERNAL_CLIENT_KEY :: u32 where "INTERNAL_CLIENT_KEY = 0xEAEAEAEA"
definition EXTERNAL_CLIENT_KEY_PREFIX :: u8 where "EXTERNAL_CLIENT_KEY_PREFIX = 0xEA"

definition client_rights :: "u32 \<Rightarrow> TopicSource \<times> WriteAccess \<times> ReadAccess" where
  "client_rights client_key =
     (if INTERNAL_CLIENT_KEY = client_key then (SRC_EXTERNAL, W_EXTERNAL, R_NONE)
      else if ucast EXTERNAL_CLIENT_KEY_PREFIX = drop_bit 24 client_key then (SRC_EXTERNAL, W_NONE, R_INTERNAL)
      else (SRC_INTERNAL, W_COMPLETE, R_COMPLETE))"

subsection \<open>The ring as a window on the log of samples\<close>

text \<open>The position of a reader that has consumed \<open>c\<close> samples, and the topic after the samples \<open>xs\<close>:
  the ring holds the last 16 of them.\<close>

definition cursor :: "nat \<Rightarrow> seqnum" where
  "cursor c = of_nat (c + 65535)"

definition topic_log :: "(u8 list \<times> TopicSource) list \<Rightarrow> CedGlobalTopic \<Rightarrow> bool" where
  "topic_log xs t \<longleftrightarrow> gt_last_write t = cursor (length xs) \<and> length (gt_history t) = 16 \<and> length (gt_srcs t) = 16
     \<and> (\<forall>k < length xs. length xs \<le> k + 16 \<longrightarrow> gt_history t ! (k mod 16) = fst (xs ! k) \<and> gt_srcs t ! (k mod 16) = snd (xs ! k))"

definition readable :: "ReadAccess \<Rightarrow> TopicSource \<Rightarrow> bool" where
  "readable read_access src \<longleftrightarrow> read_access = R_COMPLETE \<or> (read_access = R_INTERNAL \<and> src = SRC_INTERNAL)
     \<or> (read_access = R_EXTERNAL \<and> src = SRC_EXTERNAL)"

lemma cursor_Suc: "cursor c + 1 = cursor (Suc c)"
  by (simp add: cursor_def)

lemma cursor_index: "unat (cursor (Suc c)) mod 16 = c mod 16"
proof -
  have "cursor (Suc c) = of_nat c" unfolding cursor_def by (subst of_nat_u16_eq) simp
  then show ?thesis by (simp add: unat_of_nat mod_mod_cancel)
qed

lemma cursor_diff: "c \<le> n \<Longrightarrow> n - c < 65536 \<Longrightarrow> unat (cursor n - cursor c) = n - c"
proof -
  assume "c \<le> n" "n - c < 65536"
  then have "cursor n - cursor c = of_nat (n - c)" by (simp add: cursor_def of_nat_diff)
  with \<open>n - c < 65536\<close> show ?thesis by (simp add: unat_of_nat)
qed

lemma cursor_eq_iff: "c \<le> n \<Longrightarrow> n - c < 65536 \<Longrightarrow> cursor c = cursor n \<longleftrightarrow> c = n"
  using cursor_diff [of c n] by auto

lemma topic_log_new: "length srcs = 16 \<Longrightarrow> topic_log [] (CedGlobalTopic_new srcs name domain)"
  by (simp add: topic_log_def CedGlobalTopic_new_def cursor_def)

lemma nth_upd_mod:
  assumes "k < n" "n \<le> k + 15"
  shows "k mod 16 \<noteq> n mod (16::nat)"
proof
  assume "k mod 16 = n mod 16"
  then have "16 dvd n - k" using assms(1) mod_eq_dvd_iff_nat [of k n 16] by simp
  then show False using assms nat_dvd_not_less [of "n - k" 16] by auto
qed

lemma gt_write_log:
  assumes "topic_log xs t"
  shows "gt_write data w src t =
     (if check_write_access w src then (True, snd (gt_write data w src t)) else (False, t))
   \<and> (check_write_access w src \<longrightarrow> topic_log (xs @ [(data, src)]) (snd (gt_write data w src t)))"
proof -
  have i: "unat (gt_last_write t + 1) mod 16 = length xs mod 16"
    using assms by (simp add: topic_log_def cursor_Suc cursor_index)
  have "length xs mod 16 \<noteq> k mod 16" if "k < length xs" "length xs \<le> 15 + k" for k
    using nth_upd_mod [of k "length xs"] that by auto
  then show ?thesis using assms
    by (auto simp: gt_write_def topic_log_def Let_def i cursor_Suc cursor_index nth_append less_Suc_eq)
qed

lemma gt_get_data_log:
  assumes "topic_log xs t" and "c < length xs" and "length xs \<le> c + 16"
  shows "gt_get_data a (cursor c) t =
    ((if readable a (snd (xs ! c)) then Some (fst (xs ! c)) else None), cursor (Suc c))"
  using assms by (auto simp: gt_get_data_def Let_def cursor_Suc cursor_index topic_log_def check_read_access_def readable_def)

text \<open>The first readable sample from a position on.\<close>

definition next_readable :: "ReadAccess \<Rightarrow> (u8 list \<times> TopicSource) list \<Rightarrow> nat \<Rightarrow> nat option" where
  "next_readable a xs c = find (\<lambda>k. readable a (snd (xs ! k))) [c..<length xs]"

lemma next_readable_step:
  "c < length xs \<Longrightarrow> next_readable a xs c = (if readable a (snd (xs ! c)) then Some c else next_readable a xs (Suc c))"
  by (simp add: next_readable_def upt_conv_Cons)

lemma gt_read_loop_log:
  assumes "topic_log xs t" and "c \<le> length xs" and "length xs \<le> c + 16"
  shows "gt_read_loop a (cursor c) t =
    (case next_readable a xs c of
       Some k \<Rightarrow> (Some (fst (xs ! k)), cursor (Suc k))
     | None \<Rightarrow> (None, cursor (length xs)))"
  using assms(2,3)
proof (induction "length xs - c" arbitrary: c)
  case 0
  then show ?case using assms(1) by (simp add: topic_log_def next_readable_def)
next
  case (Suc d)
  then have c: "c < length xs" by simp
  have "cursor c \<noteq> gt_last_write t"
    using assms(1) c Suc.prems(2) cursor_eq_iff [of c "length xs"] by (simp add: topic_log_def)
  then show ?case
    using Suc.hyps(1) [of "Suc c"] Suc.hyps(2) Suc.prems c
    by (simp add: gt_get_data_log [OF assms(1) c] next_readable_step)
qed

lemma read_window:
  fixes x :: u16
  assumes "lw - lr = x" and "x \<noteq> 0"
  shows "sn_le lr (sn_sub_int lw 16) \<or> sn_greater lr lw \<longleftrightarrow> 16 \<le> unat x"
proof -
  have e: "lr - (lw - 16) = 16 - x" "lr - lw = 0 - x" using assms(1) by (auto simp: algebra_simps)
  have "unat x < 65536" "0 < unat x" using assms(2) by (simp_all add: unat_u16 unat_gt_0)
  then show ?thesis
    unfolding sn_le_def sn_greater_def sn_sub_int_def sn_sub_eq sn_less_iff of_int_numeral e unat_diff_u16 by auto
qed

lemma gt_read_log:
  assumes "topic_log xs t" and "c \<le> length xs" and "length xs - c < 65536"
  shows "gt_read a wakes (cursor c) t =
    (case next_readable a xs (max c (length xs - 16)) of
       Some k \<Rightarrow> (Some (fst (xs ! k)), cursor (Suc k))
     | None \<Rightarrow> gt_wait a (cursor (length xs)) wakes)"
proof -
  have lw: "gt_last_write t = cursor (length xs)" using assms(1) by (simp add: topic_log_def)
  show ?thesis
  proof (cases "c = length xs")
    case True
    then show ?thesis by (simp add: gt_read_def lw next_readable_def)
  next
    case False
    let ?m = "max c (length xs - 16)"
    have x: "unat (cursor (length xs) - cursor c) = length xs - c" by (rule cursor_diff [OF assms(2,3)])
    then have ne: "cursor (length xs) - cursor c \<noteq> 0" using False assms(2) by auto
    have "sn_sub_int (cursor (length xs)) 16 = cursor (length xs - 16)" if "16 \<le> length xs"
      using that by (simp add: sn_sub_int_def sn_sub_eq cursor_def of_nat_diff)
    moreover have m: "16 \<le> length xs - c \<Longrightarrow> ?m = length xs - 16 \<and> 16 \<le> length xs" "\<not> 16 \<le> length xs - c \<Longrightarrow> ?m = c"
      by linarith+
    ultimately have "(if sn_le (cursor c) (sn_sub_int (cursor (length xs)) 16) \<or> sn_greater (cursor c) (cursor (length xs))
        then sn_sub_int (cursor (length xs)) 16 else cursor c) = cursor ?m"
      unfolding read_window [OF refl ne] x using m by (cases "16 \<le> length xs - c") simp_all
    then show ?thesis
      using gt_read_loop_log [OF assms(1), of ?m a] ne assms(2)
      by (cases "next_readable a xs ?m") (auto simp: gt_read_def lw Let_def)
  qed
qed

subsection \<open>What a reader gets\<close>

text \<open>The contract of a read from position \<open>c\<close> that leaves the reader at \<open>c'\<close>: a delivered sample is
  the first readable one from \<open>c\<close> on, and without a sample nothing readable has been passed over.\<close>

definition delivers :: "ReadAccess \<Rightarrow> (u8 list \<times> TopicSource) list \<Rightarrow> nat \<Rightarrow> u8 list option \<Rightarrow> nat \<Rightarrow> bool" where
  "delivers a xs c rv c' \<longleftrightarrow>
     (case rv of
        None \<Rightarrow> c \<le> c' \<and> (\<forall>j. c \<le> j \<longrightarrow> j < c' \<longrightarrow> \<not> readable a (snd (xs ! j)))
      | Some data \<Rightarrow> c < c' \<and> data = fst (xs ! (c' - 1)) \<and> readable a (snd (xs ! (c' - 1)))
          \<and> (\<forall>j. c \<le> j \<longrightarrow> j < c' - 1 \<longrightarrow> \<not> readable a (snd (xs ! j))))"

lemma delivers_skip:
  assumes "delivers a xs c rv c'" and "b \<le> c" and "\<forall>j. b \<le> j \<longrightarrow> j < c \<longrightarrow> \<not> readable a (snd (xs ! j))"
  shows "delivers a xs b rv c'"
  using assms by (cases rv) (simp_all add: delivers_def, (meson le_less_linear order.strict_trans2)+)

lemma gt_wait_delivers:
  assumes "list_all2 (\<lambda>n. topic_log (take n xs)) ns wakes" and "sorted ns"
    and "\<forall>n\<in>set ns. c \<le> n \<and> n \<le> length xs" and "length xs \<le> c + 16" and "c \<le> length xs"
    and "gt_wait a (cursor c) wakes = (rv, lr)"
  shows "\<exists>c' \<le> length xs. lr = cursor c' \<and> delivers a xs c rv c'"
  using assms
proof (induction ns wakes arbitrary: c rule: list_all2_induct)
  case Nil
  then show ?case by (auto simp: delivers_def)
next
  case (Cons n ns t wakes)
  have n: "c \<le> n" "n \<le> length xs" and log: "topic_log (take n xs) t" using Cons.prems Cons.hyps by auto
  have len: "length (take n xs) = n" using n by simp
  show ?case
  proof (cases "c = n")
    case True
    then show ?thesis using Cons.IH [of c] Cons.prems log len by (simp add: topic_log_def)
  next
    case False
    then have c: "c < n" using n by simp
    have ne: "cursor c \<noteq> gt_last_write t"
      using log len c Cons.prems(3) n cursor_eq_iff [of c n] by (simp add: topic_log_def)
    have get: "gt_get_data a (cursor c) t =
        ((if readable a (snd (xs ! c)) then Some (fst (xs ! c)) else None), cursor (Suc c))"
      using gt_get_data_log [OF log, of c a] c n len Cons.prems(3) by simp
    show ?thesis
    proof (cases "readable a (snd (xs ! c))")
      case True
      then have "rv = Some (fst (xs ! c)) \<and> lr = cursor (Suc c)" using Cons.prems(5) ne get by simp
      with True c n show ?thesis by (intro exI [of _ "Suc c"]) (simp add: delivers_def)
    next
      case False
      have "\<forall>m\<in>set ns. Suc c \<le> m \<and> m \<le> length xs" using Cons.prems(1,2) c by auto
      moreover have "gt_wait a (cursor (Suc c)) wakes = (rv, lr)" using Cons.prems(5) ne get False by simp
      ultimately obtain c' where "c' \<le> length xs" "lr = cursor c'" "delivers a xs (Suc c) rv c'"
        using Cons.IH [of "Suc c"] Cons.prems(1,3) c n by auto
      moreover have "\<forall>j. c \<le> j \<longrightarrow> j < Suc c \<longrightarrow> \<not> readable a (snd (xs ! j))"
        using False by (auto simp: less_Suc_eq)
      ultimately show ?thesis using delivers_skip [of a xs "Suc c" rv c' c] by auto
    qed
  qed
qed

lemma next_readable_delivers:
  "next_readable a xs c = Some k \<Longrightarrow> delivers a xs c (Some (fst (xs ! k))) (Suc k) \<and> k < length xs"
  "next_readable a xs c = None \<Longrightarrow> c \<le> length xs \<Longrightarrow> \<forall>j. c \<le> j \<longrightarrow> j < length xs \<longrightarrow> \<not> readable a (snd (xs ! j))"
proof -
  assume "next_readable a xs c = Some k"
  then obtain i where "i < length xs - c" "k = c + i" "readable a (snd (xs ! k))"
    "\<forall>j < i. \<not> readable a (snd (xs ! (c + j)))"
    by (auto simp: next_readable_def find_Some_iff)
  moreover have "\<not> readable a (snd (xs ! j))" if "c \<le> j" "j < k" for j
    using that calculation by (metis add_diff_inverse_nat nat_add_left_cancel_less not_le)
  ultimately show "delivers a xs c (Some (fst (xs ! k))) (Suc k) \<and> k < length xs" by (simp add: delivers_def)
next
  assume "next_readable a xs c = None" "c \<le> length xs"
  then show "\<forall>j. c \<le> j \<longrightarrow> j < length xs \<longrightarrow> \<not> readable a (snd (xs ! j))"
    by (auto simp: next_readable_def find_None_iff)
qed

text \<open>C30: a data reader sees the samples of a topic in the order they were written, each at most once.
  For a reader that has consumed \<open>c\<close> of the samples \<open>xs\<close> (less than 65536 behind), \<open>read\<close> delivers the
  first sample its rights allow among those still in the 16-sample window; if there is none it waits,
  and as long as no more than 16 samples are written while it waits it delivers the first readable new
  one it wakes up to, passing over nothing it may read.\<close>

theorem ced_read_in_order:
  assumes "topic_log xs t" and "c \<le> length xs" and "length xs - c < 65536"
    and "list_all2 (\<lambda>n. topic_log (take n (xs @ ys))) ns wakes" and "sorted ns"
    and "\<forall>n\<in>set ns. length xs \<le> n \<and> n \<le> length (xs @ ys)" and "length ys \<le> 16"
    and "gt_read a wakes (cursor c) t = (rv, lr)"
  shows "\<exists>c' \<le> length (xs @ ys). lr = cursor c' \<and> delivers a (xs @ ys) (max c (length xs - 16)) rv c'
    \<and> (rv = None \<longrightarrow> length xs \<le> c')"
proof -
  let ?m = "max c (length xs - 16)"
  have m: "?m \<le> length xs" using assms(2) by simp
  show ?thesis
  proof (cases "next_readable a xs ?m")
    case (Some k)
    then have k: "delivers a xs ?m (Some (fst (xs ! k))) (Suc k)" "k < length xs"
      using next_readable_delivers(1) by blast+
    then have "delivers a (xs @ ys) ?m (Some (fst (xs ! k))) (Suc k)" by (simp add: delivers_def nth_append)
    with k(2) Some gt_read_log [OF assms(1-3), of a wakes] assms(8) show ?thesis
      by (intro exI [of _ "Suc k"]) simp
  next
    case None
    then have "gt_wait a (cursor (length xs)) wakes = (rv, lr)"
      using gt_read_log [OF assms(1-3), of a wakes] assms(8) by simp
    from gt_wait_delivers [OF assms(4,5,6) _ _ this] assms(7)
    obtain c' where c': "c' \<le> length (xs @ ys)" "lr = cursor c'" "delivers a (xs @ ys) (length xs) rv c'" by auto
    moreover have "\<forall>j. ?m \<le> j \<longrightarrow> j < length xs \<longrightarrow> \<not> readable a (snd ((xs @ ys) ! j))"
      using next_readable_delivers(2) [OF None m] by (simp add: nth_append)
    ultimately show ?thesis using delivers_skip [OF c'(3) m] by (auto simp: delivers_def)
  qed
qed

lemma topic_log_one:
  "topic_log [(data, SRC_INTERNAL)]
     (snd (gt_write data W_COMPLETE SRC_INTERNAL (CedGlobalTopic_new (replicate 16 SRC_INTERNAL) name domain)))"
  using gt_write_log [OF topic_log_new, of "replicate 16 SRC_INTERNAL" data W_COMPLETE SRC_INTERNAL name domain]
  by (simp add: check_write_access_def)

theorem ced_read_in_order_witness:
  "\<exists>c'. snd (gt_read R_COMPLETE [] (cursor 0)
      (snd (gt_write [1, 2] W_COMPLETE SRC_INTERNAL (CedGlobalTopic_new (replicate 16 SRC_INTERNAL) ''rt'' 0)))) = cursor c'
   \<and> delivers R_COMPLETE [([1, 2], SRC_INTERNAL)] 0 (fst (gt_read R_COMPLETE [] (cursor 0)
      (snd (gt_write [1, 2] W_COMPLETE SRC_INTERNAL (CedGlobalTopic_new (replicate 16 SRC_INTERNAL) ''rt'' 0))))) c'"
  using ced_read_in_order [OF topic_log_one [of "[1, 2]" "''rt''" 0], of 0 "[]" "[]" "[]" R_COMPLETE,
      OF _ _ _ _ _ _ prod.collapse [symmetric]]
  by auto

text \<open>A waiting reader that wakes up to more than 16 new samples does not move its position up to the
  window first, as \<open>read\<close> does: it gets the newest sample under the number of the oldest, the reads that
  follow deliver older ones, and the newest is delivered a second time.\<close>

theorem ced_late_wakeup_duplicates:
  assumes "topic_log xs t" and "length xs = 17"
  shows "gt_wait R_COMPLETE (cursor 0) [t] = (Some (fst (xs ! 16)), cursor 1)
    \<and> gt_read R_COMPLETE [] (cursor 1) t = (Some (fst (xs ! 1)), cursor 2)
    \<and> gt_read R_COMPLETE [] (cursor 16) t = (Some (fst (xs ! 16)), cursor 17)"
proof -
  have all: "readable R_COMPLETE s" for s by (simp add: readable_def)
  have "next_readable R_COMPLETE xs c = Some c" if "c < 17" for c
    using next_readable_step [of c xs R_COMPLETE] that assms(2) all by simp
  then have "gt_read R_COMPLETE [] (cursor c) t = (Some (fst (xs ! c)), cursor (Suc c))" if "1 \<le> c" "c < 17" for c
    using gt_read_log [OF assms(1), of c R_COMPLETE "[]"] that assms(2) by (simp add: max_def)
  from this [of 1] this [of 16]
  have r: "gt_read R_COMPLETE [] (cursor 1) t = (Some (fst (xs ! 1)), cursor 2)"
    "gt_read R_COMPLETE [] (cursor 16) t = (Some (fst (xs ! 16)), cursor 17)" by (simp_all add: numeral_2_eq_2)
  have "\<forall>k < 17. 17 \<le> k + 16 \<longrightarrow> gt_history t ! (k mod 16) = fst (xs ! k)"
    using assms by (simp add: topic_log_def)
  from this [rule_format, of 16] have "gt_get_data R_COMPLETE (cursor 0) t = (Some (fst (xs ! 16)), cursor 1)"
    using cursor_index [of 0] by (simp add: gt_get_data_def Let_def cursor_Suc check_read_access_def)
  moreover have "cursor 0 \<noteq> gt_last_write t"
    using assms cursor_eq_iff [of 0 17] by (simp add: topic_log_def)
  ultimately show ?thesis using r by simp
qed

subsection \<open>Peers do not get their own samples back\<close>

text \<open>The topic after the writes of clients with the given keys.\<close>

definition client_write :: "u32 \<Rightarrow> u8 list \<Rightarrow> CedGlobalTopic \<Rightarrow> CedGlobalTopic" where
  "client_write client_key data t =
     (case client_rights client_key of (src, write_access, _) \<Rightarrow>
      snd (dw_write \<lparr>dw_write_access = write_access, dw_topic_src = src\<rparr> data t))"

definition client_writes :: "(u32 \<times> u8 list) list \<Rightarrow> CedGlobalTopic \<Rightarrow> CedGlobalTopic" where
  "client_writes ws t = fold (\<lambda>(client_key, data). client_write client_key data) ws t"

definition peer_key :: "u32 \<Rightarrow> bool" where
  "peer_key client_key \<longleftrightarrow> drop_bit 24 client_key = 0xEA"

definition accepted :: "(u32 \<times> u8 list) list \<Rightarrow> (u8 list \<times> TopicSource) list" where
  "accepted ws = map (\<lambda>(k, data). (data, fst (client_rights k)))
     (filter (\<lambda>(k, data). check_write_access (fst (snd (client_rights k))) (fst (client_rights k))) ws)"

lemma client_rights_peer:
  "peer_key k \<Longrightarrow> fst (client_rights k) = SRC_EXTERNAL \<and> (snd (snd (client_rights k)) = R_NONE \<or> snd (snd (client_rights k)) = R_INTERNAL)"
  "\<not> peer_key k \<Longrightarrow> client_rights k = (SRC_INTERNAL, W_COMPLETE, R_COMPLETE)"
  by (auto simp: client_rights_def peer_key_def INTERNAL_CLIENT_KEY_def EXTERNAL_CLIENT_KEY_PREFIX_def)

lemma client_writes_log:
  assumes "topic_log xs t"
  shows "topic_log (xs @ accepted ws) (client_writes ws t)"
  using assms
proof (induction ws arbitrary: xs t)
  case Nil
  then show ?case by (simp add: accepted_def client_writes_def)
next
  case (Cons w ws)
  obtain k data where w: "w = (k, data)" by (cases w)
  obtain src wa ra where r: "client_rights k = (src, wa, ra)" by (cases "client_rights k")
  note g = gt_write_log [OF Cons.prems, of data wa src]
  show ?case
  proof (cases "check_write_access wa src")
    case True
    then have "topic_log (xs @ [(data, src)]) (client_write k data t)" using g by (simp add: client_write_def dw_write_def r)
    from Cons.IH [OF this] True show ?thesis by (simp add: w r accepted_def client_writes_def)
  next
    case False
    then have "client_write k data t = t" using g by (simp add: client_write_def dw_write_def r)
    with Cons.IH [OF Cons.prems] False show ?thesis by (simp add: w r accepted_def client_writes_def)
  qed
qed

text \<open>samples do not travel in circles between agents.  Whatever clients write to a topic, a client
  whose key marks it as another agent (prefix \<open>0xEA\<close>) is only ever handed samples that a client without
  that prefix wrote: nothing that came from a peer goes back to a peer.\<close>

theorem ced_no_echo:
  assumes "length srcs = 16" and "peer_key k" and "c \<le> length (accepted ws)" and "length (accepted ws) - c < 65536"
    and "fst (dr_read [] (client_writes ws (CedGlobalTopic_new srcs name domain))
         \<lparr>dr_last_read = cursor c, dr_read_access = snd (snd (client_rights k))\<rparr>) = Some data"
  shows "\<exists>k'. (k', data) \<in> set ws \<and> \<not> peer_key k'"
proof -
  let ?t = "client_writes ws (CedGlobalTopic_new srcs name domain)"
  let ?a = "snd (snd (client_rights k))" and ?m = "max c (length (accepted ws) - 16)"
  have log: "topic_log (accepted ws) ?t" using client_writes_log [OF topic_log_new [OF assms(1)], of ws] by simp
  obtain i where i: "next_readable ?a (accepted ws) ?m = Some i" "data = fst (accepted ws ! i)"
    using gt_read_log [OF log assms(3,4), of ?a "[]"] assms(5)
    by (auto simp: dr_read_def split: option.splits prod.splits)
  then have "i < length (accepted ws)" "readable ?a (snd (accepted ws ! i))"
    using next_readable_delivers(1) [OF i(1)] by (simp_all add: delivers_def)
  then have "(data, SRC_INTERNAL) \<in> set (accepted ws)"
    using i(2) client_rights_peer(1) [OF assms(2)] by (auto simp: readable_def) (metis nth_mem prod.collapse)
  then obtain k' where "(k', data) \<in> set ws" "fst (client_rights k') = SRC_INTERNAL"
    by (auto simp: accepted_def)
  then show ?thesis using client_rights_peer(1) [of k'] by auto
qed

theorem ced_no_echo_witness:
  "\<exists>k'. (k', [5]) \<in> set [(0xEAEAEAEA, [4]), (1::u32, [5::u8])] \<and> \<not> peer_key k'"
proof -
  let ?ws = "[(0xEAEAEAEA, [4]), (1::u32, [5::u8])]" and ?t = "CedGlobalTopic_new (replicate 16 SRC_INTERNAL) ''rt'' 0"
  have acc: "accepted ?ws = [([4], SRC_EXTERNAL), ([5], SRC_INTERNAL)]"
    by (simp add: accepted_def client_rights_def check_write_access_def INTERNAL_CLIENT_KEY_def EXTERNAL_CLIENT_KEY_PREFIX_def)
  have rights: "snd (snd (client_rights 0xEA000001)) = R_INTERNAL"
    by (simp add: client_rights_def INTERNAL_CLIENT_KEY_def EXTERNAL_CLIENT_KEY_PREFIX_def)
  have log: "topic_log (accepted ?ws) (client_writes ?ws ?t)"
    using client_writes_log [OF topic_log_new, of "replicate 16 SRC_INTERNAL" ?ws "''rt''" 0] by simp
  have "fst (gt_read R_INTERNAL [] (cursor 0) (client_writes ?ws ?t)) = Some [5]"
    using gt_read_log [OF log, of 0 R_INTERNAL "[]"] unfolding acc
    by (simp add: next_readable_def readable_def upt_rec)
  then show ?thesis
    by (intro ced_no_echo [of "replicate 16 SRC_INTERNAL" "0xEA000001" 0 ?ws "''rt''" 0])
      (simp_all add: acc rights peer_key_def dr_read_def split_def)
qed

theorem ced_late_wakeup_duplicates_witness:
  "gt_wait R_COMPLETE (cursor 0) [client_writes (replicate 17 (1, [7])) (CedGlobalTopic_new (replicate 16 SRC_INTERNAL) ''rt'' 0)]
     = (Some [7], cursor 1)"
proof -
  let ?ws = "replicate 17 (1::u32, [7::u8])" and ?t = "CedGlobalTopic_new (replicate 16 SRC_INTERNAL) ''rt'' 0"
  have log: "topic_log (accepted ?ws) (client_writes ?ws ?t)"
    using client_writes_log [OF topic_log_new, of "replicate 16 SRC_INTERNAL" ?ws "''rt''" 0] by simp
  have acc: "accepted ?ws = replicate 17 ([7], SRC_INTERNAL)"
    by (simp add: accepted_def client_rights_def check_write_access_def INTERNAL_CLIENT_KEY_def
        EXTERNAL_CLIENT_KEY_PREFIX_def filter_replicate)
  from ced_late_wakeup_duplicates [OF log] show ?thesis by (simp add: acc)
qed

end
