(* ===== verification/Middleware.thy ===== *)
theory Middleware
  imports Prelude
begin

text \<open>
  The interface \<open>Middleware\<close> (\<open>include/uxr/agent/middleware/Middleware.hpp\<close>) between the agent's XRCE
  objects and the DDS implementation behind them, as a record of its virtual functions over the state
  of the implementation.  The source has one function per entity and per way of describing it
  (\<open>create_topic_by_ref\<close>, \<open>create_topic_by_xml\<close>, \dots); here the entity is an argument.  The second
  number is the domain for participants and the identifier of the parent for the others.  \<open>None\<close> is an
  execution without a result (an exception, undefined behaviour).  The locale states what the agent
  relies on.
\<close>

datatype entity = E_participant | E_topic | E_publisher | E_subscriber | E_datawriter | E_datareader
  | E_requester | E_replier

text \<open>The objects a binary representation decodes to, with the fields the built-in middleware reads.\<close>

datatype binary_object = DomainParticipant_Binary "16 word" | Topic_Binary string | Publisher_Binary
  | Subscriber_Binary | DataWriter_Binary u16 | DataReader_Binary u16 | Requester_Binary | Replier_Binary

record 'w Middleware =
  mw_create_by_ref :: "entity \<Rightarrow> u16 \<Rightarrow> u16 \<Rightarrow> string \<Rightarrow> 'w \<Rightarrow> (bool \<times> 'w) option"
  mw_create_by_xml :: "entity \<Rightarrow> u16 \<Rightarrow> u16 \<Rightarrow> string \<Rightarrow> 'w \<Rightarrow> (bool \<times> 'w) option"
  mw_create_by_bin :: "entity \<Rightarrow> u16 \<Rightarrow> u16 \<Rightarrow> binary_object \<Rightarrow> 'w \<Rightarrow> (bool \<times> 'w) option"
  mw_delete :: "entity \<Rightarrow> u16 \<Rightarrow> 'w \<Rightarrow> bool \<times> 'w"
  mw_matched_from_ref :: "entity \<Rightarrow> u16 \<Rightarrow> u16 \<Rightarrow> string \<Rightarrow> 'w \<Rightarrow> bool"
  mw_matched_from_xml :: "entity \<Rightarrow> u16 \<Rightarrow> u16 \<Rightarrow> string \<Rightarrow> 'w \<Rightarrow> bool"
  mw_matched_from_bin :: "entity \<Rightarrow> u16 \<Rightarrow> u16 \<Rightarrow> binary_object \<Rightarrow> 'w \<Rightarrow> bool"
  mw_write_data :: "u16 \<Rightarrow> u8 list \<Rightarrow> 'w \<Rightarrow> bool \<times> 'w"
  mw_write_request :: "u16 \<Rightarrow> u32 \<Rightarrow> u8 list \<Rightarrow> 'w \<Rightarrow> bool \<times> 'w"
  mw_write_reply :: "u16 \<Rightarrow> u8 list \<Rightarrow> 'w \<Rightarrow> bool \<times> 'w"

text \<open>An attempt to create the entity \<open>e\<close> under the identifier \<open>i\<close> with outcome \<open>b\<close>, in terms of the
  entities that exist: success means that it did not exist and exists now, and nothing else changes.\<close>

definition entity_enters :: "(entity \<Rightarrow> u16 \<Rightarrow> 'w \<Rightarrow> bool) \<Rightarrow> entity \<Rightarrow> u16 \<Rightarrow> bool \<Rightarrow> 'w \<Rightarrow> 'w \<Rightarrow> bool" where
  "entity_enters has e i b w w' \<longleftrightarrow> (b \<longrightarrow> \<not> has e i w)
     \<and> (\<forall>e' i'. has e' i' w' \<longleftrightarrow> has e' i' w \<or> (b \<and> e' = e \<and> i' = i))"

lemma entity_enters_same [simp]: "entity_enters has e i False w w"
  by (simp add: entity_enters_def)

locale dds_middleware =
  fixes M :: "'w Middleware" and has :: "entity \<Rightarrow> u16 \<Rightarrow> 'w \<Rightarrow> bool" and ok :: "'w \<Rightarrow> bool"
  assumes create_ref: "ok w \<Longrightarrow> mw_create_by_ref M e i p x w = Some (b, w') \<Longrightarrow> ok w' \<and> entity_enters has e i b w w'"
    and create_xml: "ok w \<Longrightarrow> mw_create_by_xml M e i p x w = Some (b, w') \<Longrightarrow> ok w' \<and> entity_enters has e i b w w'"
    and create_bin: "ok w \<Longrightarrow> mw_create_by_bin M e i p y w = Some (b, w') \<Longrightarrow> ok w' \<and> entity_enters has e i b w w'"
    and delete: "ok w \<Longrightarrow> mw_delete M e i w = (b, w') \<Longrightarrow>
      ok w' \<and> b = has e i w \<and> (\<forall>e' i'. has e' i' w' \<longleftrightarrow> has e' i' w \<and> \<not> (e' = e \<and> i' = i))"
    and write_data: "ok w \<Longrightarrow> ok (snd (mw_write_data M i data w)) \<and> has e j (snd (mw_write_data M i data w)) = has e j w"
    and write_request: "ok w \<Longrightarrow> ok (snd (mw_write_request M i n data w)) \<and> has e j (snd (mw_write_request M i n data w)) = has e j w"
    and write_reply: "ok w \<Longrightarrow> ok (snd (mw_write_reply M i data w)) \<and> has e j (snd (mw_write_reply M i data w)) = has e j w"

end
