(* ===== verification/Ced_Middleware.thy ===== *)
theory Ced_Middleware
  imports Ced_Topic Middleware
begin

text \<open>
  \<open>CedMiddleware\<close> (\<open>src/cpp/middleware/ced/CedMiddleware.cpp\<close>) and the parts of \<open>CedEntities.cpp\<close> it
  rests on: participants, topics and the process-wide \<open>CedTopicManager\<close>.  Participants and topics
  are shared through \<open>std::shared_ptr\<close>/\<open>weak_ptr\<close>, so a middleware has a small heap of them, and the
  destructor of a topic runs when the last map entry that holds it goes.  A global topic is shared by
  the clients of the process; at most one is alive per domain and name (its destructor removes the
  registry entry), so the registry holds it together with the number of topics that own it.
  \<open>CedSubscriber\<close> keeps a reference into the participants' map instead of a pointer: the model records
  which entry it refers to, and following it after that entry was erased is undefined (\<open>None\<close>).
\<close>

subsection \<open>State\<close>

type_synonym addr = nat

record CedParticipant =
  cp_domain_id :: "16 word"
  cp_topic_register :: "string \<rightharpoonup> addr"

record CedTopic =
  ct_participant :: addr
  ct_domain :: "16 word"
  ct_name :: string

datatype callback = OnNewDomain u32 "16 word" | OnNewTopic u32 "16 word" string

record CedTopicManager =
  tm_topics :: "16 word \<rightharpoonup> (string \<rightharpoonup> CedGlobalTopic \<times> nat)"
  tm_on_new_domain :: "u32 list"
  tm_on_new_topic :: "u32 list"
  tm_calls :: "callback list"

record CedMiddleware =
  cm_participants :: "u16 \<rightharpoonup> addr"
  cm_topics :: "u16 \<rightharpoonup> addr"
  cm_publishers :: "u16 \<rightharpoonup> addr"
  cm_subscribers :: "u16 \<rightharpoonup> u16 \<times> addr"
  cm_datawriters :: "u16 \<rightharpoonup> CedDataWriter \<times> addr"
  cm_datareaders :: "u16 \<rightharpoonup> CedDataReader \<times> addr"
  cm_topics_src :: TopicSource
  cm_write_access :: WriteAccess
  cm_read_access :: ReadAccess
  cm_participant_heap :: "addr \<rightharpoonup> CedParticipant"
  cm_topic_heap :: "addr \<rightharpoonup> CedTopic"
  cm_next :: addr

type_synonym ced = "CedMiddleware \<times> CedTopicManager"

definition CedMiddleware_new :: "u32 \<Rightarrow> CedMiddleware" where
  "CedMiddleware_new client_key = (case client_rights client_key of (src, wa, ra) \<Rightarrow>
     \<lparr>cm_participants = Map.empty, cm_topics = Map.empty, cm_publishers = Map.empty, cm_subscribers = Map.empty,
      cm_datawriters = Map.empty, cm_datareaders = Map.empty, cm_topics_src = src, cm_write_access = wa,
      cm_read_access = ra, cm_participant_heap = Map.empty, cm_topic_heap = Map.empty, cm_next = 0\<rparr>)"

text \<open>\<open>ref.substr(0, ref.find(pat))\<close>.\<close>

fun before_substr :: "string \<Rightarrow> string \<Rightarrow> string" where
  "before_substr pat [] = []"
| "before_substr pat (c # cs) = (if take (length pat) (c # cs) = pat then [] else c # before_substr pat cs)"

definition remove_suffix_form_topic_ref :: "string \<Rightarrow> string" where
  "remove_suffix_form_topic_ref ref = before_substr ''__t'' ref"

definition remove_suffix_form_datawriter_ref :: "string \<Rightarrow> string" where
  "remove_suffix_form_datawriter_ref ref = before_substr ''__dw'' ref"

definition remove_suffix_form_datareader_ref :: "string \<Rightarrow> string" where
  "remove_suffix_form_datareader_ref ref = before_substr ''__dr'' ref"

subsection \<open>The topic manager\<close>

definition register_on_new_domain_cb :: "u32 \<Rightarrow> 16 word list \<Rightarrow> CedTopicManager \<Rightarrow> CedTopicManager" where
  "register_on_new_domain_cb key domains T =
     T\<lparr>tm_calls := tm_calls T @ map (OnNewDomain key) domains,
       tm_on_new_domain := (if key \<in> set (tm_on_new_domain T) then tm_on_new_domain T else tm_on_new_domain T @ [key])\<rparr>"

definition unregister_on_new_domain_cb :: "u32 \<Rightarrow> CedTopicManager \<Rightarrow> CedTopicManager" where
  "unregister_on_new_domain_cb key T = T\<lparr>tm_on_new_domain := removeAll key (tm_on_new_domain T)\<rparr>"

definition register_on_new_topic_cb :: "u32 \<Rightarrow> (16 word \<times> string) list \<Rightarrow> CedTopicManager \<Rightarrow> CedTopicManager" where
  "register_on_new_topic_cb key topics T =
     T\<lparr>tm_calls := tm_calls T @ map (\<lambda>(d, n). OnNewTopic key d n) topics,
       tm_on_new_topic := (if key \<in> set (tm_on_new_topic T) then tm_on_new_topic T else tm_on_new_topic T @ [key])\<rparr>"

definition unregister_on_new_topic_cb :: "u32 \<Rightarrow> CedTopicManager \<Rightarrow> CedTopicManager" where
  "unregister_on_new_topic_cb key T = T\<lparr>tm_on_new_topic := removeAll key (tm_on_new_topic T)\<rparr>"

text \<open>The registered topics of a domain, and the global topic registered under a name.\<close>

definition domain_topics :: "16 word \<Rightarrow> CedTopicManager \<Rightarrow> string \<rightharpoonup> CedGlobalTopic \<times> nat" where
  "domain_topics d T = (case tm_topics T d of None \<Rightarrow> Map.empty | Some m \<Rightarrow> m)"

text \<open>\<open>CedTopicManager::register_topic\<close>, with the ownership the returned pointer is given: a new global
  topic (\<open>srcs\<close> its uninitialised array) or one more owner of the registered one.\<close>

definition tm_register_topic :: "TopicSource list \<Rightarrow> string \<Rightarrow> 16 word \<Rightarrow> CedTopicManager \<Rightarrow> CedTopicManager" where
  "tm_register_topic srcs topic_name domain_id T0 =
     (let T1 = (if tm_topics T0 domain_id = None
                then T0\<lparr>tm_topics := (tm_topics T0)(domain_id \<mapsto> Map.empty),
                        tm_calls := tm_calls T0 @ map (\<lambda>key. OnNewDomain key domain_id) (tm_on_new_domain T0)\<rparr>
                else T0);
          m = domain_topics domain_id T1
      in case m topic_name of
           None \<Rightarrow> T1\<lparr>tm_calls := tm_calls T1 @ map (\<lambda>key. OnNewTopic key domain_id topic_name) (tm_on_new_topic T1),
                      tm_topics := (tm_topics T1)(domain_id \<mapsto>
                        m(topic_name \<mapsto> (CedGlobalTopic_new srcs topic_name domain_id, 1)))\<rparr>
         | Some (g, owners) \<Rightarrow>
             T1\<lparr>tm_topics := (tm_topics T1)(domain_id \<mapsto> m(topic_name \<mapsto> (g, owners + 1)))\<rparr>)"

text \<open>An owner of a global topic goes: with the last one its destructor runs \<open>unregister_topic\<close>.\<close>

definition tm_release_topic :: "string \<Rightarrow> 16 word \<Rightarrow> CedTopicManager \<Rightarrow> CedTopicManager" where
  "tm_release_topic topic_name domain_id T =
     (let m = domain_topics domain_id T
      in case m topic_name of
           None \<Rightarrow> T
         | Some (g, owners) \<Rightarrow>
             if owners \<le> 1
             then let m' = m(topic_name := None)
                  in T\<lparr>tm_topics := (tm_topics T)(domain_id := (if m' = Map.empty then None else Some m'))\<rparr>
             else T\<lparr>tm_topics := (tm_topics T)(domain_id \<mapsto> m(topic_name \<mapsto> (g, owners - 1)))\<rparr>)"

subsection \<open>Creation\<close>

definition create_participant_by_ref :: "u16 \<Rightarrow> 16 word \<Rightarrow> ced \<Rightarrow> bool \<times> ced" where
  "create_participant_by_ref participant_id domain_id = (\<lambda>(M, T).
     if cm_participants M participant_id = None
     then (True, M\<lparr>cm_participants := (cm_participants M)(participant_id \<mapsto> cm_next M),
                   cm_participant_heap := (cm_participant_heap M)(cm_next M \<mapsto>
                     \<lparr>cp_domain_id = domain_id, cp_topic_register = Map.empty\<rparr>),
                   cm_next := cm_next M + 1\<rparr>, T)
     else (False, M, T))"

text \<open>\<open>CedParticipant::find_topic\<close>: the weak pointer can be locked while the topic is alive.\<close>

definition find_topic :: "addr \<Rightarrow> string \<Rightarrow> CedMiddleware \<Rightarrow> addr option" where
  "find_topic p topic_name M =
     (case cm_participant_heap M p of
        None \<Rightarrow> None
      | Some cp \<Rightarrow> (case cp_topic_register cp topic_name of
          None \<Rightarrow> None
        | Some t \<Rightarrow> if cm_topic_heap M t = None then None else Some t))"

text \<open>The static \<open>create_topic\<close>: the topic of that name of the participant, or a new one.  When the
  name is still registered the new topic is dropped again at once.\<close>

definition create_topic :: "TopicSource list \<Rightarrow> addr \<Rightarrow> string \<Rightarrow> ced \<Rightarrow> addr option \<times> ced" where
  "create_topic srcs p topic_name = (\<lambda>(M, T).
     case find_topic p topic_name M of
       Some t \<Rightarrow> (Some t, M, T)
     | None \<Rightarrow> (case cm_participant_heap M p of
         None \<Rightarrow> (None, M, T)
       | Some cp \<Rightarrow>
           if cp_topic_register cp topic_name = None
           then (Some (cm_next M),
                 M\<lparr>cm_topic_heap := (cm_topic_heap M)(cm_next M \<mapsto>
                     \<lparr>ct_participant = p, ct_domain = cp_domain_id cp, ct_name = topic_name\<rparr>),
                   cm_participant_heap := (cm_participant_heap M)(p \<mapsto>
                     cp\<lparr>cp_topic_register := (cp_topic_register cp)(topic_name \<mapsto> cm_next M)\<rparr>),
                   cm_next := cm_next M + 1\<rparr>,
                 tm_register_topic srcs topic_name (cp_domain_id cp) T)
           else (None, M\<lparr>cm_participant_heap := (cm_participant_heap M)(p \<mapsto>
                     cp\<lparr>cp_topic_register := (cp_topic_register cp)(topic_name := None)\<rparr>)\<rparr>,
                 tm_release_topic topic_name (cp_domain_id cp) (tm_register_topic srcs topic_name (cp_domain_id cp) T))))"

definition create_topic_by_ref :: "TopicSource list \<Rightarrow> u16 \<Rightarrow> u16 \<Rightarrow> string \<Rightarrow> ced \<Rightarrow> bool \<times> ced" where
  "create_topic_by_ref srcs topic_id participant_id ref = (\<lambda>(M, T).
     case cm_participants M participant_id of
       None \<Rightarrow> (False, M, T)
     | Some p \<Rightarrow>
         if cm_topics M topic_id = None
         then case create_topic srcs p (remove_suffix_form_topic_ref ref) (M, T) of
                (Some t, M1, T1) \<Rightarrow> (True, M1\<lparr>cm_topics := map_emplace topic_id t (cm_topics M1)\<rparr>, T1)
              | (None, M1, T1) \<Rightarrow> (False, M1, T1)
         else (False, M, T))"

definition create_publisher_by_xml :: "u16 \<Rightarrow> u16 \<Rightarrow> ced \<Rightarrow> bool \<times> ced" where
  "create_publisher_by_xml publisher_id participant_id = (\<lambda>(M, T).
     case cm_participants M participant_id of
       None \<Rightarrow> (False, M, T)
     | Some p \<Rightarrow> if cm_publishers M publisher_id = None
                then (True, M\<lparr>cm_publishers := (cm_publishers M)(publisher_id \<mapsto> p)\<rparr>, T)
                else (False, M, T))"

definition create_subscriber_by_xml :: "u16 \<Rightarrow> u16 \<Rightarrow> ced \<Rightarrow> bool \<times> ced" where
  "create_subscriber_by_xml subscriber_id participant_id = (\<lambda>(M, T).
     case cm_participants M participant_id of
       None \<Rightarrow> (False, M, T)
     | Some p \<Rightarrow> if cm_subscribers M subscriber_id = None
                then (True, M\<lparr>cm_subscribers := (cm_subscribers M)(subscriber_id \<mapsto> (participant_id, p))\<rparr>, T)
                else (False, M, T))"

definition create_datawriter_by_ref :: "u16 \<Rightarrow> u16 \<Rightarrow> string \<Rightarrow> ced \<Rightarrow> bool \<times> ced" where
  "create_datawriter_by_ref datawriter_id publisher_id ref = (\<lambda>(M, T).
     case cm_publishers M publisher_id of
       None \<Rightarrow> (False, M, T)
     | Some p \<Rightarrow>
         if cm_datawriters M datawriter_id = None
         then case find_topic p (remove_suffix_form_datawriter_ref ref) M of
                None \<Rightarrow> (False, M, T)
              | Some t \<Rightarrow> (True, M\<lparr>cm_datawriters := (cm_datawriters M)(datawriter_id \<mapsto>
                    (\<lparr>dw_write_access = cm_write_access M, dw_topic_src = cm_topics_src M\<rparr>, t))\<rparr>, T)
         else (False, M, T))"

text \<open>The participant a subscriber refers to, while the map entry it refers to is there.\<close>

definition subscriber_participant :: "u16 \<times> addr \<Rightarrow> CedMiddleware \<Rightarrow> addr option" where
  "subscriber_participant s M = (if cm_participants M (fst s) = Some (snd s) then Some (snd s) else None)"

definition create_datareader_by_ref :: "u16 \<Rightarrow> u16 \<Rightarrow> string \<Rightarrow> ced \<Rightarrow> (bool \<times> ced) option" where
  "create_datareader_by_ref datareader_id subscriber_id ref = (\<lambda>(M, T).
     case cm_subscribers M subscriber_id of
       None \<Rightarrow> Some (False, M, T)
     | Some s \<Rightarrow>
         if cm_datareaders M datareader_id = None
         then case subscriber_participant s M of
                None \<Rightarrow> None
              | Some p \<Rightarrow> Some (case find_topic p (remove_suffix_form_datareader_ref ref) M of
                  None \<Rightarrow> (False, M, T)
                | Some t \<Rightarrow> (True, M\<lparr>cm_datareaders := (cm_datareaders M)(datareader_id \<mapsto>
                      (CedDataReader_new (cm_read_access M), t))\<rparr>, T))
         else Some (False, M, T))"

text \<open>The name of the topic with a given identifier, for the binary forms.\<close>

definition topic_name_of :: "u16 \<Rightarrow> CedMiddleware \<Rightarrow> string option" where
  "topic_name_of topic_id M =
     (case cm_topics M topic_id of None \<Rightarrow> None | Some t \<Rightarrow> map_option ct_name (cm_topic_heap M t))"

definition create_datawriter_by_bin :: "u16 \<Rightarrow> u16 \<Rightarrow> u16 \<Rightarrow> ced \<Rightarrow> bool \<times> ced" where
  "create_datawriter_by_bin datawriter_id publisher_id topic_id = (\<lambda>(M, T).
     case topic_name_of topic_id M of
       None \<Rightarrow> (False, M, T)
     | Some name \<Rightarrow> create_datawriter_by_ref datawriter_id publisher_id name (M, T))"

definition create_datareader_by_bin :: "u16 \<Rightarrow> u16 \<Rightarrow> u16 \<Rightarrow> ced \<Rightarrow> (bool \<times> ced) option" where
  "create_datareader_by_bin datareader_id subscriber_id topic_id = (\<lambda>(M, T).
     case topic_name_of topic_id M of
       None \<Rightarrow> Some (False, M, T)
     | Some name \<Rightarrow> create_datareader_by_ref datareader_id subscriber_id name (M, T))"

subsection \<open>Deletion\<close>

text \<open>A topic is owned by the topics map, the data writers and the data readers.\<close>

definition topic_owned :: "addr \<Rightarrow> CedMiddleware \<Rightarrow> bool" where
  "topic_owned t M \<longleftrightarrow> (\<exists>i. cm_topics M i = Some t) \<or> (\<exists>i w. cm_datawriters M i = Some (w, t))
     \<or> (\<exists>i r. cm_datareaders M i = Some (r, t))"

text \<open>The destructor of \<open>CedTopic\<close>, when the last owner has gone.\<close>

definition drop_topic :: "addr \<Rightarrow> ced \<Rightarrow> ced" where
  "drop_topic t = (\<lambda>(M, T).
     if topic_owned t M then (M, T)
     else case cm_topic_heap M t of
            None \<Rightarrow> (M, T)
          | Some ct \<Rightarrow>
              (M\<lparr>cm_participant_heap := (case cm_participant_heap M (ct_participant ct) of
                     None \<Rightarrow> cm_participant_heap M
                   | Some cp \<Rightarrow> (cm_participant_heap M)(ct_participant ct \<mapsto>
                       cp\<lparr>cp_topic_register := (cp_topic_register cp)(ct_name ct := None)\<rparr>)),
                 cm_topic_heap := (cm_topic_heap M)(t := None)\<rparr>,
               tm_release_topic (ct_name ct) (ct_domain ct) T))"

definition delete_participant :: "u16 \<Rightarrow> ced \<Rightarrow> bool \<times> ced" where
  "delete_participant i = (\<lambda>(M, T).
     (cm_participants M i \<noteq> None, M\<lparr>cm_participants := (cm_participants M)(i := None)\<rparr>, T))"

definition delete_topic :: "u16 \<Rightarrow> ced \<Rightarrow> bool \<times> ced" where
  "delete_topic i = (\<lambda>(M, T).
     case cm_topics M i of
       None \<Rightarrow> (False, M, T)
     | Some t \<Rightarrow> (True, drop_topic t (M\<lparr>cm_topics := (cm_topics M)(i := None)\<rparr>, T)))"

definition delete_publisher :: "u16 \<Rightarrow> ced \<Rightarrow> bool \<times> ced" where
  "delete_publisher i = (\<lambda>(M, T).
     (cm_publishers M i \<noteq> None, M\<lparr>cm_publishers := (cm_publishers M)(i := None)\<rparr>, T))"

definition delete_subscriber :: "u16 \<Rightarrow> ced \<Rightarrow> bool \<times> ced" where
  "delete_subscriber i = (\<lambda>(M, T).
     (cm_subscribers M i \<noteq> None, M\<lparr>cm_subscribers := (cm_subscribers M)(i := None)\<rparr>, T))"

definition delete_datawriter :: "u16 \<Rightarrow> ced \<Rightarrow> bool \<times> ced" where
  "delete_datawriter i = (\<lambda>(M, T).
     case cm_datawriters M i of
       None \<Rightarrow> (False, M, T)
     | Some (w, t) \<Rightarrow> (True, drop_topic t (M\<lparr>cm_datawriters := (cm_datawriters M)(i := None)\<rparr>, T)))"

definition delete_datareader :: "u16 \<Rightarrow> ced \<Rightarrow> bool \<times> ced" where
  "delete_datareader i = (\<lambda>(M, T).
     case cm_datareaders M i of
       None \<Rightarrow> (False, M, T)
     | Some (r, t) \<Rightarrow> (True, drop_topic t (M\<lparr>cm_datareaders := (cm_datareaders M)(i := None)\<rparr>, T)))"

subsection \<open>Writing, reading and matching\<close>

definition global_of :: "addr \<Rightarrow> ced \<Rightarrow> (CedGlobalTopic \<times> nat) option" where
  "global_of t = (\<lambda>(M, T).
     case cm_topic_heap M t of None \<Rightarrow> None | Some ct \<Rightarrow> domain_topics (ct_domain ct) T (ct_name ct))"

definition set_global :: "16 word \<Rightarrow> string \<Rightarrow> CedGlobalTopic \<times> nat \<Rightarrow> CedTopicManager \<Rightarrow> CedTopicManager" where
  "set_global d name g T = T\<lparr>tm_topics := (tm_topics T)(d \<mapsto> (domain_topics d T)(name \<mapsto> g))\<rparr>"

definition ced_write_data :: "u16 \<Rightarrow> u8 list \<Rightarrow> ced \<Rightarrow> bool \<times> ced" where
  "ced_write_data datawriter_id data = (\<lambda>(M, T).
     case cm_datawriters M datawriter_id of
       None \<Rightarrow> (False, M, T)
     | Some (w, t) \<Rightarrow>
         (case (cm_topic_heap M t, global_of t (M, T)) of
            (Some ct, Some (g, owners)) \<Rightarrow>
              (case dw_write w data g of (rv, g') \<Rightarrow> (rv, M, set_global (ct_domain ct) (ct_name ct) (g', owners) T))
          | _ \<Rightarrow> (False, M, T)))"

definition ced_write_request :: "u16 \<Rightarrow> u32 \<Rightarrow> u8 list \<Rightarrow> ced \<Rightarrow> bool \<times> ced" where
  "ced_write_request requester_id sequence_number data w = (False, w)"

definition ced_write_reply :: "u16 \<Rightarrow> u8 list \<Rightarrow> ced \<Rightarrow> bool \<times> ced" where
  "ced_write_reply replier_id data w = (False, w)"

definition ced_read_data :: "u16 \<Rightarrow> CedGlobalTopic list \<Rightarrow> ced \<Rightarrow> u8 list option \<times> ced" where
  "ced_read_data datareader_id wakes = (\<lambda>(M, T).
     case cm_datareaders M datareader_id of
       None \<Rightarrow> (None, M, T)
     | Some (r, t) \<Rightarrow>
         (case global_of t (M, T) of
            Some (g, owners) \<Rightarrow>
              (case dr_read wakes g r of (rv, r') \<Rightarrow>
                 (rv, M\<lparr>cm_datareaders := (cm_datareaders M)(datareader_id \<mapsto> (r', t))\<rparr>, T))
          | None \<Rightarrow> (None, M, T)))"

definition matched_participant_from_ref :: "u16 \<Rightarrow> 16 word \<Rightarrow> ced \<Rightarrow> bool" where
  "matched_participant_from_ref i domain_id = (\<lambda>(M, T).
     case cm_participants M i of
       None \<Rightarrow> False
     | Some p \<Rightarrow> (case cm_participant_heap M p of None \<Rightarrow> False | Some cp \<Rightarrow> domain_id = cp_domain_id cp))"

definition topic_has_name :: "addr \<Rightarrow> string \<Rightarrow> CedMiddleware \<Rightarrow> bool" where
  "topic_has_name t name M = (case cm_topic_heap M t of None \<Rightarrow> False | Some ct \<Rightarrow> name = ct_name ct)"

definition matched_topic_from_ref :: "u16 \<Rightarrow> string \<Rightarrow> ced \<Rightarrow> bool" where
  "matched_topic_from_ref i ref = (\<lambda>(M, T).
     case cm_topics M i of None \<Rightarrow> False | Some t \<Rightarrow> topic_has_name t (remove_suffix_form_topic_ref ref) M)"

definition matched_datawriter_from_ref :: "u16 \<Rightarrow> string \<Rightarrow> ced \<Rightarrow> bool" where
  "matched_datawriter_from_ref i ref = (\<lambda>(M, T).
     case cm_datawriters M i of
       None \<Rightarrow> False | Some (w, t) \<Rightarrow> topic_has_name t (remove_suffix_form_datawriter_ref ref) M)"

definition matched_datareader_from_ref :: "u16 \<Rightarrow> string \<Rightarrow> ced \<Rightarrow> bool" where
  "matched_datareader_from_ref i ref = (\<lambda>(M, T).
     case cm_datareaders M i of
       None \<Rightarrow> False | Some (r, t) \<Rightarrow> topic_has_name t (remove_suffix_form_datareader_ref ref) M)"

definition matched_datawriter_from_bin :: "u16 \<Rightarrow> u16 \<Rightarrow> ced \<Rightarrow> bool" where
  "matched_datawriter_from_bin i topic_id = (\<lambda>(M, T).
     case topic_name_of topic_id M of None \<Rightarrow> False | Some name \<Rightarrow> matched_datawriter_from_ref i name (M, T))"

definition matched_datareader_from_bin :: "u16 \<Rightarrow> u16 \<Rightarrow> ced \<Rightarrow> bool" where
  "matched_datareader_from_bin i topic_id = (\<lambda>(M, T).
     case topic_name_of topic_id M of None \<Rightarrow> False | Some name \<Rightarrow> matched_datareader_from_ref i name (M, T))"

subsection \<open>Ownership\<close>

text \<open>The number of owners of a global topic that the registry records, and the number of a
  middleware's own topics under a domain and a name.\<close>

definition tm_owners :: "16 word \<Rightarrow> string \<Rightarrow> CedTopicManager \<Rightarrow> nat" where
  "tm_owners d name T = (case domain_topics d T name of None \<Rightarrow> 0 | Some (g, k) \<Rightarrow> k)"

definition live_topics :: "16 word \<Rightarrow> string \<Rightarrow> CedMiddleware \<Rightarrow> addr set" where
  "live_topics d name M = {t. \<exists>ct. cm_topic_heap M t = Some ct \<and> ct_domain ct = d \<and> ct_name ct = name}"

text \<open>A registered global topic has an owner, and a registered domain has a topic.\<close>

definition tm_ok :: "CedTopicManager \<Rightarrow> bool" where
  "tm_ok T \<longleftrightarrow> (\<forall>d name. domain_topics d T name \<noteq> None \<longrightarrow> 0 < tm_owners d name T) \<and> (\<forall>d. tm_topics T d \<noteq> Some Map.empty)"

text \<open>The heap of a middleware: exactly the owned topics are alive, each is registered with its
  participant under its name, and the registers hold nothing else.\<close>

definition topics_ok :: "CedMiddleware \<Rightarrow> bool" where
  "topics_ok M \<longleftrightarrow> (\<forall>t. cm_topic_heap M t \<noteq> None \<longleftrightarrow> topic_owned t M)
     \<and> (\<forall>t ct. cm_topic_heap M t = Some ct \<longrightarrow> t < cm_next M
          \<and> (\<exists>cp. cm_participant_heap M (ct_participant ct) = Some cp \<and> cp_domain_id cp = ct_domain ct
               \<and> cp_topic_register cp (ct_name ct) = Some t))
     \<and> (\<forall>p cp name t. cm_participant_heap M p = Some cp \<longrightarrow> cp_topic_register cp name = Some t \<longrightarrow>
          (\<exists>ct. cm_topic_heap M t = Some ct \<and> ct_participant ct = p \<and> ct_name ct = name))"

definition participants_ok :: "CedMiddleware \<Rightarrow> bool" where
  "participants_ok M \<longleftrightarrow> (\<forall>p. cm_participant_heap M p \<noteq> None \<longrightarrow> p < cm_next M)
     \<and> (\<forall>i p. cm_participants M i = Some p \<longrightarrow> cm_participant_heap M p \<noteq> None)
     \<and> (\<forall>i p. cm_publishers M i = Some p \<longrightarrow> cm_participant_heap M p \<noteq> None)"

text \<open>With \<open>rest\<close> owners elsewhere in the process.\<close>

definition ced_ok :: "(16 word \<Rightarrow> string \<Rightarrow> nat) \<Rightarrow> ced \<Rightarrow> bool" where
  "ced_ok rest = (\<lambda>(M, T). topics_ok M \<and> participants_ok M \<and> tm_ok T
     \<and> (\<forall>d name. tm_owners d name T = card (live_topics d name M) + rest d name))"

lemma finite_live_topics: "topics_ok M \<Longrightarrow> finite (live_topics d name M)"
  by (rule finite_subset [of _ "{..<cm_next M}"]) (auto simp: topics_ok_def live_topics_def)

lemma domain_topics_upd [simp]:
  "domain_topics d (T\<lparr>tm_topics := (tm_topics T)(e := m)\<rparr>) = (if d = e then (case m of None \<Rightarrow> Map.empty | Some x \<Rightarrow> x) else domain_topics d T)"
  "domain_topics d (T\<lparr>tm_calls := c\<rparr>) = domain_topics d T"
  by (auto simp: domain_topics_def)

lemma register_owners:
  "tm_owners d' name' (tm_register_topic srcs name d T) = tm_owners d' name' T + (if d' = d \<and> name' = name then 1 else 0)"
  by (auto simp: tm_register_topic_def tm_owners_def domain_topics_def Let_def split: option.splits)

lemma register_ok: "tm_ok T \<Longrightarrow> tm_ok (tm_register_topic srcs name d T)"
  unfolding tm_ok_def
  by (auto simp: tm_register_topic_def tm_owners_def domain_topics_def Let_def split: option.splits if_splits)

lemma release_owners:
  assumes "tm_ok T" and "0 < tm_owners d name T"
  shows "tm_owners d' name' (tm_release_topic name d T) = tm_owners d' name' T - (if d' = d \<and> name' = name then 1 else 0)"
  using assms by (auto simp: tm_release_topic_def tm_owners_def domain_topics_def Let_def split: option.splits if_splits)
    (metis fun_upd_other option.distinct(1))

lemma release_ok: "tm_ok T \<Longrightarrow> tm_ok (tm_release_topic name d T)"
  unfolding tm_ok_def
  by (auto simp: tm_release_topic_def tm_owners_def domain_topics_def Let_def split: option.splits if_splits)

text \<open>A topic that enters or leaves the heap changes the count of its own domain and name only.\<close>

lemma live_topics_add:
  assumes "topics_ok M" and "cm_topic_heap M t = None"
  shows "card (live_topics d name (M\<lparr>cm_topic_heap := (cm_topic_heap M)(t \<mapsto> ct)\<rparr>))
    = card (live_topics d name M) + (if d = ct_domain ct \<and> name = ct_name ct then 1 else 0)"
proof -
  have "t \<notin> live_topics d name M" using assms(2) by (simp add: live_topics_def)
  moreover have "live_topics d name (M\<lparr>cm_topic_heap := (cm_topic_heap M)(t \<mapsto> ct)\<rparr>)
      = (if d = ct_domain ct \<and> name = ct_name ct then insert t (live_topics d name M) else live_topics d name M)"
    using assms(2) by (auto simp: live_topics_def)
  ultimately show ?thesis using finite_live_topics [OF assms(1), of d name] by auto
qed

lemma live_topics_remove:
  assumes "topics_ok M" and "cm_topic_heap M t = Some ct"
  shows "card (live_topics d name (M\<lparr>cm_topic_heap := (cm_topic_heap M)(t := None)\<rparr>))
    = card (live_topics d name M) - (if d = ct_domain ct \<and> name = ct_name ct then 1 else 0)"
proof -
  have "live_topics d name (M\<lparr>cm_topic_heap := (cm_topic_heap M)(t := None)\<rparr>) = live_topics d name M - {t}"
    by (auto simp: live_topics_def)
  moreover have "t \<in> live_topics d name M \<longleftrightarrow> d = ct_domain ct \<and> name = ct_name ct"
    using assms(2) by (auto simp: live_topics_def)
  ultimately show ?thesis using finite_live_topics [OF assms(1)] by (simp add: card_Diff_singleton_if)
qed

lemma live_topics_cong:
  "cm_topic_heap M' = cm_topic_heap M \<Longrightarrow> live_topics d name M' = live_topics d name M"
  by (simp add: live_topics_def)

text \<open>Changes of a middleware that keep its heap and do not change who owns a topic.\<close>

lemma ced_ok_same_heap:
  assumes "ced_ok rest (M, T)" and "cm_topic_heap M' = cm_topic_heap M" and "cm_participant_heap M' = cm_participant_heap M"
    and "cm_next M' = cm_next M" and "\<forall>t. topic_owned t M' \<longleftrightarrow> topic_owned t M"
    and "\<forall>i p. cm_participants M' i = Some p \<longrightarrow> cm_participant_heap M p \<noteq> None"
    and "\<forall>i p. cm_publishers M' i = Some p \<longrightarrow> cm_participant_heap M p \<noteq> None"
  shows "ced_ok rest (M', T)"
  using assms by (simp add: ced_ok_def topics_ok_def participants_ok_def live_topics_cong [OF assms(2)])

lemma topics_okD:
  assumes "topics_ok M"
  shows "cm_topic_heap M t \<noteq> None \<longleftrightarrow> topic_owned t M"
    and "cm_topic_heap M t = Some ct \<Longrightarrow> t < cm_next M"
    and "cm_topic_heap M t = Some ct \<Longrightarrow> \<exists>cp. cm_participant_heap M (ct_participant ct) = Some cp
      \<and> cp_domain_id cp = ct_domain ct \<and> cp_topic_register cp (ct_name ct) = Some t"
    and "cm_participant_heap M p = Some cp \<Longrightarrow> cp_topic_register cp name = Some t \<Longrightarrow>
      \<exists>ct. cm_topic_heap M t = Some ct \<and> ct_participant ct = p \<and> ct_name ct = name"
  using assms unfolding topics_ok_def by blast+

lemma find_topic_owned:
  assumes "topics_ok M" and "find_topic p name M = Some t"
  shows "topic_owned t M \<and> (\<exists>ct. cm_topic_heap M t = Some ct \<and> ct_name ct = name \<and> ct_participant ct = p)"
  using assms by (auto simp: find_topic_def topics_ok_def split: option.splits if_splits) metis+

lemma create_participant_ok:
  assumes "ced_ok rest (M, T)"
  shows "ced_ok rest (snd (create_participant_by_ref i d (M, T)))"
proof (cases "cm_participants M i")
  case None
  let ?cp = "\<lparr>cp_domain_id = d, cp_topic_register = Map.empty\<rparr>"
  let ?M = "M\<lparr>cm_participants := (cm_participants M)(i \<mapsto> cm_next M),
    cm_participant_heap := (cm_participant_heap M)(cm_next M \<mapsto> ?cp), cm_next := cm_next M + 1\<rparr>"
  have ok: "topics_ok M" "participants_ok M" using assms by (simp_all add: ced_ok_def)
  have fresh: "cm_participant_heap M (cm_next M) = None" using ok(2) unfolding participants_ok_def by blast
  have own: "topic_owned t ?M = topic_owned t M" for t by (simp add: topic_owned_def)
  have "topics_ok ?M" unfolding topics_ok_def own
    using ok(1) fresh unfolding topics_ok_def by (auto simp: less_SucI) (metis option.distinct(1))
  moreover have "participants_ok ?M" using ok(2) unfolding participants_ok_def by (auto simp: less_SucI less_Suc_eq)
  moreover have "live_topics d' name ?M = live_topics d' name M" for d' name by (rule live_topics_cong) simp
  ultimately show ?thesis using assms None by (simp add: ced_ok_def create_participant_by_ref_def)
qed (use assms in \<open>simp add: create_participant_by_ref_def\<close>)

text \<open>A new topic: alive, registered with its participant, owned by the new entry of the topics map,
  and one more owner of the global topic.\<close>

lemma create_topic_new_ok:
  assumes "ced_ok rest (M, T)" and cp: "cm_participant_heap M p = Some cp" and reg: "cp_topic_register cp name = None"
    and free: "cm_topics M i = None"
  shows "ced_ok rest (M\<lparr>cm_topic_heap := (cm_topic_heap M)(cm_next M \<mapsto>
        \<lparr>ct_participant = p, ct_domain = cp_domain_id cp, ct_name = name\<rparr>),
      cm_participant_heap := (cm_participant_heap M)(p \<mapsto> cp\<lparr>cp_topic_register := (cp_topic_register cp)(name \<mapsto> cm_next M)\<rparr>),
      cm_next := cm_next M + 1, cm_topics := (cm_topics M)(i \<mapsto> cm_next M)\<rparr>, tm_register_topic srcs name (cp_domain_id cp) T)"
    (is "ced_ok rest (?M, _)")
proof -
  let ?ct = "\<lparr>ct_participant = p, ct_domain = cp_domain_id cp, ct_name = name\<rparr>"
  have ok: "topics_ok M" "participants_ok M" and T: "tm_ok T"
    and n: "\<And>d nm. tm_owners d nm T = card (live_topics d nm M) + rest d nm"
    using assms(1) by (simp_all add: ced_ok_def)
  have fresh: "cm_topic_heap M (cm_next M) = None" using ok(1) unfolding topics_ok_def by (metis less_irrefl not_None_eq)
  have own: "topic_owned t ?M \<longleftrightarrow> t = cm_next M \<or> topic_owned t M" for t
    using free by (auto simp: topic_owned_def ex_map_upd simp del: fun_upd_apply)
  have alive: "topic_owned t M \<longleftrightarrow> cm_topic_heap M t \<noteq> None" for t using ok(1) by (simp add: topics_ok_def)
  have "topics_ok ?M" unfolding topics_ok_def own alive
  proof (intro conjI allI impI)
    fix t ct assume t: "cm_topic_heap ?M t = Some ct"
    show "t < cm_next ?M" using t ok(1) by (auto simp: topics_ok_def less_SucI split: if_splits)
    show "\<exists>cp. cm_participant_heap ?M (ct_participant ct) = Some cp \<and> cp_domain_id cp = ct_domain ct
        \<and> cp_topic_register cp (ct_name ct) = Some t"
    proof (cases "t = cm_next M")
      case True
      with t show ?thesis by auto
    next
      case False
      with t have t': "cm_topic_heap M t = Some ct" by simp
      with ok(1) obtain cq where cq: "cm_participant_heap M (ct_participant ct) = Some cq" "cp_domain_id cq = ct_domain ct"
          "cp_topic_register cq (ct_name ct) = Some t" using topics_okD(3) by blast
      then show ?thesis using cp reg by auto
    qed
  next
    fix q cq nm t assume q: "cm_participant_heap ?M q = Some cq" "cp_topic_register cq nm = Some t"
    show "\<exists>ct. cm_topic_heap ?M t = Some ct \<and> ct_participant ct = q \<and> ct_name ct = nm"
    proof (cases "q = p \<and> nm = name")
      case True
      with q cp show ?thesis by auto
    next
      case False
      obtain cr where cr: "cm_participant_heap M q = Some cr" "cp_topic_register cr nm = Some t"
        using q False cp by (auto split: if_splits)
      then obtain ct where "cm_topic_heap M t = Some ct" "ct_participant ct = q" "ct_name ct = nm"
        using topics_okD(4) [OF ok(1)] by blast
      then show ?thesis using fresh by auto
    qed
  qed (use fresh in auto)
  moreover have "participants_ok ?M" using ok(2) cp unfolding participants_ok_def by (auto simp: less_SucI)
  moreover have "card (live_topics d nm ?M) = card (live_topics d nm M) + (if d = cp_domain_id cp \<and> nm = name then 1 else 0)" for d nm
    using live_topics_add [OF ok(1) fresh, of d nm ?ct] by (simp add: live_topics_def)
  ultimately show ?thesis using register_ok [OF T] n by (simp add: ced_ok_def register_owners)
qed

lemma create_topic_by_ref_ok:
  assumes "ced_ok rest (M, T)"
  shows "ced_ok rest (snd (create_topic_by_ref srcs i pid ref (M, T)))"
proof -
  have ok: "topics_ok M" "participants_ok M" using assms by (simp_all add: ced_ok_def)
  let ?name = "remove_suffix_form_topic_ref ref"
  show ?thesis
  proof (cases "cm_participants M pid = None \<or> cm_topics M i \<noteq> None")
    case True
    then show ?thesis using assms by (auto simp: create_topic_by_ref_def split: option.splits)
  next
    case False
    then obtain p where p: "cm_participants M pid = Some p" and free: "cm_topics M i = None" by auto
    obtain cp where cp: "cm_participant_heap M p = Some cp" using ok(2) p unfolding participants_ok_def by blast
    show ?thesis
    proof (cases "find_topic p ?name M")
      case (Some t)
      then have "topic_owned t M" using find_topic_owned [OF ok(1)] by blast
      then have "\<forall>u. topic_owned u (M\<lparr>cm_topics := (cm_topics M)(i \<mapsto> t)\<rparr>) \<longleftrightarrow> topic_owned u M"
        using free by (auto simp: topic_owned_def ex_map_upd simp del: fun_upd_apply)
      then have "ced_ok rest (M\<lparr>cm_topics := (cm_topics M)(i \<mapsto> t)\<rparr>, T)"
        by (intro ced_ok_same_heap [OF assms]) (use ok(2) in \<open>auto simp: participants_ok_def\<close>)
      then show ?thesis using Some p free by (simp add: create_topic_by_ref_def create_topic_def map_emplace_def)
    next
      case None
      then have "cp_topic_register cp ?name = None"
        using ok(1) cp unfolding topics_ok_def by (fastforce simp: find_topic_def split: option.splits if_splits)
      with create_topic_new_ok [OF assms cp this free, of srcs] None p free cp show ?thesis
        by (simp add: create_topic_by_ref_def create_topic_def map_emplace_def)
    qed
  qed
qed

text \<open>When an owner of a topic has been erased, dropping the topic restores the invariant.\<close>

lemma drop_topic_ok:
  assumes "ced_ok rest (M, T)" and own: "topic_owned t M" and others: "\<forall>u. u \<noteq> t \<longrightarrow> topic_owned u M' = topic_owned u M"
    and less: "topic_owned t M' \<Longrightarrow> topic_owned t M"
    and same: "cm_topic_heap M' = cm_topic_heap M" "cm_participant_heap M' = cm_participant_heap M" "cm_next M' = cm_next M"
      "cm_participants M' = cm_participants M" "cm_publishers M' = cm_publishers M"
  shows "ced_ok rest (drop_topic t (M', T))"
proof (cases "topic_owned t M'")
  case True
  have "\<forall>u. topic_owned u M' \<longleftrightarrow> topic_owned u M" using True own others by metis
  then have "ced_ok rest (M', T)"
    by (intro ced_ok_same_heap [OF assms(1) same(1-3)]) (use assms(1) same in \<open>auto simp: ced_ok_def participants_ok_def\<close>)
  with True show ?thesis by (simp add: drop_topic_def)
next
  case False
  have ok: "topics_ok M" "participants_ok M" and T: "tm_ok T"
    and n: "\<And>d nm. tm_owners d nm T = card (live_topics d nm M) + rest d nm"
    using assms(1) by (simp_all add: ced_ok_def)
  obtain ct where ct: "cm_topic_heap M t = Some ct" using topics_okD(1) [OF ok(1)] own by blast
  obtain cp where cp: "cm_participant_heap M (ct_participant ct) = Some cp" "cp_topic_register cp (ct_name ct) = Some t"
    using topics_okD(3) [OF ok(1) ct] by blast
  let ?M = "M'\<lparr>cm_participant_heap := (cm_participant_heap M)(ct_participant ct \<mapsto>
      cp\<lparr>cp_topic_register := (cp_topic_register cp)(ct_name ct := None)\<rparr>), cm_topic_heap := (cm_topic_heap M)(t := None)\<rparr>"
  have drop: "drop_topic t (M', T) = (?M, tm_release_topic (ct_name ct) (ct_domain ct) T)"
    using False ct cp(1) same by (simp add: drop_topic_def)
  have own': "topic_owned u ?M \<longleftrightarrow> cm_topic_heap M u \<noteq> None \<and> u \<noteq> t" for u
    using others False topics_okD(1) [OF ok(1), of u] by (cases "u = t") (simp_all add: topic_owned_def)
  have tok: "topics_ok ?M" unfolding topics_ok_def own'
  proof (intro conjI allI impI)
    fix u cu assume u: "cm_topic_heap ?M u = Some cu"
    then have u': "cm_topic_heap M u = Some cu" "u \<noteq> t" by (auto split: if_splits)
    then show "u < cm_next ?M" using topics_okD(2) [OF ok(1)] same by simp
    obtain cq where "cm_participant_heap M (ct_participant cu) = Some cq" "cp_domain_id cq = ct_domain cu"
        "cp_topic_register cq (ct_name cu) = Some u" using topics_okD(3) [OF ok(1) u'(1)] by blast
    then show "\<exists>cp. cm_participant_heap ?M (ct_participant cu) = Some cp \<and> cp_domain_id cp = ct_domain cu
        \<and> cp_topic_register cp (ct_name cu) = Some u" using cp u'(2) by auto
  next
    fix q cq nm u assume q: "cm_participant_heap ?M q = Some cq" "cp_topic_register cq nm = Some u"
    then obtain cr where cr: "cm_participant_heap M q = Some cr" "cp_topic_register cr nm = Some u"
        "q \<noteq> ct_participant ct \<or> nm \<noteq> ct_name ct"
      using cp(1) by (auto split: if_splits)
    then obtain cu where "cm_topic_heap M u = Some cu" "ct_participant cu = q" "ct_name cu = nm"
      using topics_okD(4) [OF ok(1)] by blast
    with cr(3) ct show "\<exists>ct. cm_topic_heap ?M u = Some ct \<and> ct_participant ct = q \<and> ct_name ct = nm" by auto
  qed auto
  have pok: "participants_ok ?M" using ok(2) cp(1) same unfolding participants_ok_def by auto
  have live: "card (live_topics d nm ?M) = card (live_topics d nm M) - (if d = ct_domain ct \<and> nm = ct_name ct then 1 else 0)" for d nm
    using live_topics_remove [OF ok(1) ct, of d nm] by (simp add: live_topics_def)
  have "t \<in> live_topics (ct_domain ct) (ct_name ct) M" using ct by (simp add: live_topics_def)
  then have pos: "0 < card (live_topics (ct_domain ct) (ct_name ct) M)"
    using finite_live_topics [OF ok(1)] by (metis card_gt_0_iff empty_iff)
  then have "0 < tm_owners (ct_domain ct) (ct_name ct) T" using n by simp
  note rel = release_owners [OF T this]
  have "tm_owners d nm (tm_release_topic (ct_name ct) (ct_domain ct) T) = card (live_topics d nm ?M) + rest d nm" for d nm
    unfolding rel live n using pos by auto
  with tok pok release_ok [OF T] show ?thesis unfolding drop by (simp add: ced_ok_def)
qed

lemmas owned_simps = topic_owned_def ex_map_upd ex_map_del ex_map_pair_upd ex_map_pair_del

lemma delete_topic_ok:
  assumes "ced_ok rest (M, T)"
  shows "ced_ok rest (snd (delete_topic i (M, T)))"
proof (cases "cm_topics M i")
  case (Some t)
  have "ced_ok rest (drop_topic t (M\<lparr>cm_topics := (cm_topics M)(i := None)\<rparr>, T))"
    by (rule drop_topic_ok [OF assms])
      (use Some in \<open>auto simp: owned_simps simp del: fun_upd_apply intro: exI [of _ i]\<close>)
  with Some show ?thesis by (simp add: delete_topic_def)
qed (use assms in \<open>simp add: delete_topic_def\<close>)

lemma delete_datawriter_ok:
  assumes "ced_ok rest (M, T)"
  shows "ced_ok rest (snd (delete_datawriter i (M, T)))"
proof (cases "cm_datawriters M i")
  case (Some wt)
  then obtain w t where wt: "cm_datawriters M i = Some (w, t)" by (cases wt) simp
  have "ced_ok rest (drop_topic t (M\<lparr>cm_datawriters := (cm_datawriters M)(i := None)\<rparr>, T))"
    by (rule drop_topic_ok [OF assms])
      (use wt in \<open>auto simp: owned_simps simp del: fun_upd_apply intro: exI [of _ i]\<close>)
  with wt show ?thesis by (simp add: delete_datawriter_def)
qed (use assms in \<open>simp add: delete_datawriter_def\<close>)

lemma delete_datareader_ok:
  assumes "ced_ok rest (M, T)"
  shows "ced_ok rest (snd (delete_datareader i (M, T)))"
proof (cases "cm_datareaders M i")
  case (Some rt)
  then obtain r t where rt: "cm_datareaders M i = Some (r, t)" by (cases rt) simp
  have "ced_ok rest (drop_topic t (M\<lparr>cm_datareaders := (cm_datareaders M)(i := None)\<rparr>, T))"
    by (rule drop_topic_ok [OF assms])
      (use rt in \<open>auto simp: owned_simps simp del: fun_upd_apply intro: exI [of _ i]\<close>)
  with rt show ?thesis by (simp add: delete_datareader_def)
qed (use assms in \<open>simp add: delete_datareader_def\<close>)

lemma participants_okD:
  assumes "ced_ok rest (M, T)"
  shows "\<forall>i p. cm_participants M i = Some p \<longrightarrow> cm_participant_heap M p \<noteq> None"
    and "\<forall>i p. cm_publishers M i = Some p \<longrightarrow> cm_participant_heap M p \<noteq> None"
  using assms unfolding ced_ok_def participants_ok_def by blast+

lemma create_publisher_ok:
  assumes "ced_ok rest (M, T)"
  shows "ced_ok rest (snd (create_publisher_by_xml i pid (M, T)))"
  using assms participants_okD [OF assms]
  by (auto simp: create_publisher_by_xml_def topic_owned_def intro!: ced_ok_same_heap [OF assms] split: option.splits if_splits)

lemma create_subscriber_ok:
  assumes "ced_ok rest (M, T)"
  shows "ced_ok rest (snd (create_subscriber_by_xml i pid (M, T)))"
  using assms participants_okD [OF assms]
  by (auto simp: create_subscriber_by_xml_def topic_owned_def intro!: ced_ok_same_heap [OF assms] split: option.splits if_splits)

lemma create_datawriter_ok:
  assumes "ced_ok rest (M, T)"
  shows "ced_ok rest (snd (create_datawriter_by_ref i pub ref (M, T)))"
proof -
  have "ced_ok rest (M\<lparr>cm_datawriters := (cm_datawriters M)(i \<mapsto> (w, t))\<rparr>, T)"
    if "cm_datawriters M i = None" "find_topic p name M = Some t" for w t p name
  proof -
    have "topic_owned t M" using find_topic_owned that(2) assms by (auto simp: ced_ok_def)
    then have "\<forall>u. topic_owned u (M\<lparr>cm_datawriters := (cm_datawriters M)(i \<mapsto> (w, t))\<rparr>) = topic_owned u M"
      using that(1) by (auto simp: owned_simps simp del: fun_upd_apply)
    then show ?thesis by (intro ced_ok_same_heap [OF assms]) (use participants_okD [OF assms] in simp_all)
  qed
  then show ?thesis using assms by (auto simp: create_datawriter_by_ref_def split: option.splits)
qed

lemma create_datareader_ok:
  assumes "ced_ok rest (M, T)" and "create_datareader_by_ref i sub ref (M, T) = Some (b, w')"
  shows "ced_ok rest w'"
proof -
  have "ced_ok rest (M\<lparr>cm_datareaders := (cm_datareaders M)(i \<mapsto> (r, t))\<rparr>, T)"
    if "cm_datareaders M i = None" "find_topic p name M = Some t" for r t p name
  proof -
    have "topic_owned t M" using find_topic_owned that(2) assms(1) by (auto simp: ced_ok_def)
    then have "\<forall>u. topic_owned u (M\<lparr>cm_datareaders := (cm_datareaders M)(i \<mapsto> (r, t))\<rparr>) = topic_owned u M"
      using that(1) by (auto simp: owned_simps simp del: fun_upd_apply)
    then show ?thesis by (intro ced_ok_same_heap [OF assms(1)]) (use participants_okD [OF assms(1)] in simp_all)
  qed
  then show ?thesis using assms by (auto simp: create_datareader_by_ref_def split: option.splits if_splits)
qed

lemma create_datawriter_bin_ok: "ced_ok rest (M, T) \<Longrightarrow> ced_ok rest (snd (create_datawriter_by_bin i pub tid (M, T)))"
  by (simp add: create_datawriter_by_bin_def create_datawriter_ok split: option.split)

lemma create_datareader_bin_ok:
  "ced_ok rest (M, T) \<Longrightarrow> create_datareader_by_bin i sub tid (M, T) = Some (b, w') \<Longrightarrow> ced_ok rest w'"
  by (auto simp: create_datareader_by_bin_def create_datareader_ok split: option.splits)

lemma delete_plain_ok:
  assumes "ced_ok rest (M, T)"
  shows "ced_ok rest (snd (delete_participant i (M, T)))" "ced_ok rest (snd (delete_publisher i (M, T)))"
    "ced_ok rest (snd (delete_subscriber i (M, T)))"
  unfolding delete_participant_def delete_publisher_def delete_subscriber_def
  using participants_okD [OF assms]
  by (auto intro!: ced_ok_same_heap [OF assms] simp: topic_owned_def split: if_splits)

lemma set_global_owners:
  assumes "domain_topics d T name = Some (g, k)"
  shows "tm_owners d' name' (set_global d name (g', k) T) = tm_owners d' name' T"
    and "tm_ok T \<Longrightarrow> tm_ok (set_global d name (g', k) T)"
proof -
  show own: "tm_owners d' name' (set_global d name (g', k) T) = tm_owners d' name' T" for d' name'
    using assms by (auto simp: set_global_def tm_owners_def)
  show "tm_ok (set_global d name (g', k) T)" if "tm_ok T"
    using that assms unfolding tm_ok_def own
    by (auto simp: set_global_def split: if_splits)
qed

lemma write_data_ok: "ced_ok rest (M, T) \<Longrightarrow> ced_ok rest (snd (ced_write_data i data (M, T)))"
  by (auto simp: ced_write_data_def global_of_def ced_ok_def set_global_owners split: option.splits prod.splits)

lemma read_data_ok:
  assumes "ced_ok rest (M, T)"
  shows "ced_ok rest (snd (ced_read_data i wakes (M, T)))"
proof -
  have "ced_ok rest (M\<lparr>cm_datareaders := (cm_datareaders M)(i \<mapsto> (r', t))\<rparr>, T)"
    if "cm_datareaders M i = Some (r, t)" for r r' t
  proof -
    have "(\<exists>j r. ((cm_datareaders M)(i \<mapsto> (r', t))) j = Some (r, u)) \<longleftrightarrow> (\<exists>j r. cm_datareaders M j = Some (r, u))" for u
      using that by (metis fun_upd_apply option.inject prod.inject)
    then have "\<forall>u. topic_owned u (M\<lparr>cm_datareaders := (cm_datareaders M)(i \<mapsto> (r', t))\<rparr>) = topic_owned u M"
      by (simp add: topic_owned_def)
    then show ?thesis by (intro ced_ok_same_heap [OF assms]) (use participants_okD [OF assms] in simp_all)
  qed
  then show ?thesis using assms by (auto simp: ced_read_data_def split: option.splits prod.splits)
qed

subsection \<open>The middleware interface of the built-in middleware\<close>

text \<open>The XML forms are the reference forms; the binary forms take the domain, the name or the topic
  from the decoded object.\<close>

definition create_participant_by_xml :: "u16 \<Rightarrow> 16 word \<Rightarrow> ced \<Rightarrow> bool \<times> ced" where
  "create_participant_by_xml i domain_id = create_participant_by_ref i domain_id"

definition create_participant_by_bin :: "u16 \<Rightarrow> 16 word \<Rightarrow> ced \<Rightarrow> bool \<times> ced" where
  "create_participant_by_bin i xrce_domain_id = create_participant_by_ref i xrce_domain_id"

definition create_topic_by_xml :: "TopicSource list \<Rightarrow> u16 \<Rightarrow> u16 \<Rightarrow> string \<Rightarrow> ced \<Rightarrow> bool \<times> ced" where
  "create_topic_by_xml srcs i p xml = create_topic_by_ref srcs i p xml"

definition create_topic_by_bin :: "TopicSource list \<Rightarrow> u16 \<Rightarrow> u16 \<Rightarrow> string \<Rightarrow> ced \<Rightarrow> bool \<times> ced" where
  "create_topic_by_bin srcs i p xrce_topic_name = create_topic_by_ref srcs i p xrce_topic_name"

definition create_publisher_by_bin :: "u16 \<Rightarrow> u16 \<Rightarrow> ced \<Rightarrow> bool \<times> ced" where
  "create_publisher_by_bin i p = create_publisher_by_xml i p"

definition create_subscriber_by_bin :: "u16 \<Rightarrow> u16 \<Rightarrow> ced \<Rightarrow> bool \<times> ced" where
  "create_subscriber_by_bin i p = create_subscriber_by_xml i p"

definition create_datawriter_by_xml :: "u16 \<Rightarrow> u16 \<Rightarrow> string \<Rightarrow> ced \<Rightarrow> bool \<times> ced" where
  "create_datawriter_by_xml i p xml = create_datawriter_by_ref i p xml"

definition create_datareader_by_xml :: "u16 \<Rightarrow> u16 \<Rightarrow> string \<Rightarrow> ced \<Rightarrow> (bool \<times> ced) option" where
  "create_datareader_by_xml i p xml = create_datareader_by_ref i p xml"

definition matched_participant_from_xml :: "u16 \<Rightarrow> 16 word \<Rightarrow> ced \<Rightarrow> bool" where
  "matched_participant_from_xml i domain_id = matched_participant_from_ref i domain_id"

definition matched_participant_from_bin :: "u16 \<Rightarrow> 16 word \<Rightarrow> ced \<Rightarrow> bool" where
  "matched_participant_from_bin i domain_id = matched_participant_from_ref i domain_id"

definition matched_topic_from_xml :: "u16 \<Rightarrow> string \<Rightarrow> ced \<Rightarrow> bool" where
  "matched_topic_from_xml i xml = matched_topic_from_ref i xml"

definition matched_topic_from_bin :: "u16 \<Rightarrow> string \<Rightarrow> ced \<Rightarrow> bool" where
  "matched_topic_from_bin i xrce_topic_name = matched_topic_from_ref i xrce_topic_name"

definition matched_datawriter_from_xml :: "u16 \<Rightarrow> string \<Rightarrow> ced \<Rightarrow> bool" where
  "matched_datawriter_from_xml i xml = matched_datawriter_from_ref i xml"

definition matched_datareader_from_xml :: "u16 \<Rightarrow> string \<Rightarrow> ced \<Rightarrow> bool" where
  "matched_datareader_from_xml i xml = matched_datareader_from_ref i xml"

lemmas create_forms = create_participant_by_xml_def create_participant_by_bin_def create_topic_by_xml_def
  create_topic_by_bin_def create_publisher_by_bin_def create_subscriber_by_bin_def create_datawriter_by_xml_def
  create_datareader_by_xml_def

text \<open>The virtual functions of \<open>CedMiddleware\<close> by entity; requesters and repliers are not implemented and
  answer \<open>false\<close>.  (The interface has no reference form for publishers and subscribers.)\<close>

definition ced_create_by_ref :: "TopicSource list \<Rightarrow> entity \<Rightarrow> u16 \<Rightarrow> u16 \<Rightarrow> string \<Rightarrow> ced \<Rightarrow> (bool \<times> ced) option" where
  "ced_create_by_ref srcs e i p x w =
     (case e of
        E_participant \<Rightarrow> Some (create_participant_by_ref i p w)
      | E_topic \<Rightarrow> Some (create_topic_by_ref srcs i p x w)
      | E_publisher \<Rightarrow> Some (create_publisher_by_xml i p w)
      | E_subscriber \<Rightarrow> Some (create_subscriber_by_xml i p w)
      | E_datawriter \<Rightarrow> Some (create_datawriter_by_ref i p x w)
      | E_datareader \<Rightarrow> create_datareader_by_ref i p x w
      | _ \<Rightarrow> Some (False, w))"

definition ced_create_by_xml :: "TopicSource list \<Rightarrow> entity \<Rightarrow> u16 \<Rightarrow> u16 \<Rightarrow> string \<Rightarrow> ced \<Rightarrow> (bool \<times> ced) option" where
  "ced_create_by_xml srcs e i p x w =
     (case e of
        E_participant \<Rightarrow> Some (create_participant_by_xml i p w)
      | E_topic \<Rightarrow> Some (create_topic_by_xml srcs i p x w)
      | E_publisher \<Rightarrow> Some (create_publisher_by_xml i p w)
      | E_subscriber \<Rightarrow> Some (create_subscriber_by_xml i p w)
      | E_datawriter \<Rightarrow> Some (create_datawriter_by_xml i p x w)
      | E_datareader \<Rightarrow> create_datareader_by_xml i p x w
      | _ \<Rightarrow> Some (False, w))"

definition ced_create_by_bin :: "TopicSource list \<Rightarrow> entity \<Rightarrow> u16 \<Rightarrow> u16 \<Rightarrow> binary_object \<Rightarrow> ced \<Rightarrow> (bool \<times> ced) option" where
  "ced_create_by_bin srcs e i p y w =
     (case (e, y) of
        (E_participant, DomainParticipant_Binary d) \<Rightarrow> Some (create_participant_by_bin i d w)
      | (E_topic, Topic_Binary name) \<Rightarrow> Some (create_topic_by_bin srcs i p name w)
      | (E_publisher, _) \<Rightarrow> Some (create_publisher_by_bin i p w)
      | (E_subscriber, _) \<Rightarrow> Some (create_subscriber_by_bin i p w)
      | (E_datawriter, DataWriter_Binary t) \<Rightarrow> Some (create_datawriter_by_bin i p t w)
      | (E_datareader, DataReader_Binary t) \<Rightarrow> create_datareader_by_bin i p t w
      | _ \<Rightarrow> Some (False, w))"

definition ced_delete :: "entity \<Rightarrow> u16 \<Rightarrow> ced \<Rightarrow> bool \<times> ced" where
  "ced_delete e i w =
     (case e of
        E_participant \<Rightarrow> delete_participant i w
      | E_topic \<Rightarrow> delete_topic i w
      | E_publisher \<Rightarrow> delete_publisher i w
      | E_subscriber \<Rightarrow> delete_subscriber i w
      | E_datawriter \<Rightarrow> delete_datawriter i w
      | E_datareader \<Rightarrow> delete_datareader i w
      | _ \<Rightarrow> (False, w))"

definition ced_matched_from_ref :: "entity \<Rightarrow> u16 \<Rightarrow> u16 \<Rightarrow> string \<Rightarrow> ced \<Rightarrow> bool" where
  "ced_matched_from_ref e i d x w =
     (case e of
        E_participant \<Rightarrow> matched_participant_from_ref i d w
      | E_topic \<Rightarrow> matched_topic_from_ref i x w
      | E_datawriter \<Rightarrow> matched_datawriter_from_ref i x w
      | E_datareader \<Rightarrow> matched_datareader_from_ref i x w
      | _ \<Rightarrow> False)"

definition ced_matched_from_xml :: "entity \<Rightarrow> u16 \<Rightarrow> u16 \<Rightarrow> string \<Rightarrow> ced \<Rightarrow> bool" where
  "ced_matched_from_xml e i d x w =
     (case e of
        E_participant \<Rightarrow> matched_participant_from_xml i d w
      | E_topic \<Rightarrow> matched_topic_from_xml i x w
      | E_datawriter \<Rightarrow> matched_datawriter_from_xml i x w
      | E_datareader \<Rightarrow> matched_datareader_from_xml i x w
      | _ \<Rightarrow> False)"

definition ced_matched_from_bin :: "entity \<Rightarrow> u16 \<Rightarrow> u16 \<Rightarrow> binary_object \<Rightarrow> ced \<Rightarrow> bool" where
  "ced_matched_from_bin e i d y w =
     (case (e, y) of
        (E_participant, _) \<Rightarrow> matched_participant_from_bin i d w
      | (E_topic, Topic_Binary name) \<Rightarrow> matched_topic_from_bin i name w
      | (E_datawriter, DataWriter_Binary t) \<Rightarrow> matched_datawriter_from_bin i t w
      | (E_datareader, DataReader_Binary t) \<Rightarrow> matched_datareader_from_bin i t w
      | _ \<Rightarrow> False)"

definition ced_middleware :: "TopicSource list \<Rightarrow> ced Middleware" where
  "ced_middleware srcs =
     \<lparr>mw_create_by_ref = ced_create_by_ref srcs, mw_create_by_xml = ced_create_by_xml srcs,
      mw_create_by_bin = ced_create_by_bin srcs, mw_delete = ced_delete,
      mw_matched_from_ref = ced_matched_from_ref, mw_matched_from_xml = ced_matched_from_xml,
      mw_matched_from_bin = ced_matched_from_bin, mw_write_data = ced_write_data,
      mw_write_request = ced_write_request, mw_write_reply = ced_write_reply\<rparr>"

lemma ced_create_xml_eq: "ced_create_by_xml = ced_create_by_ref"
  by (intro ext) (simp add: ced_create_by_xml_def ced_create_by_ref_def create_forms split: entity.split)

definition ced_has :: "entity \<Rightarrow> u16 \<Rightarrow> ced \<Rightarrow> bool" where
  "ced_has e i = (\<lambda>(M, T).
     case e of
       E_participant \<Rightarrow> cm_participants M i \<noteq> None
     | E_topic \<Rightarrow> cm_topics M i \<noteq> None
     | E_publisher \<Rightarrow> cm_publishers M i \<noteq> None
     | E_subscriber \<Rightarrow> cm_subscribers M i \<noteq> None
     | E_datawriter \<Rightarrow> cm_datawriters M i \<noteq> None
     | E_datareader \<Rightarrow> cm_datareaders M i \<noteq> None
     | _ \<Rightarrow> False)"

text \<open>Dropping a topic changes no map of entities.\<close>

lemma drop_topic_has: "ced_has e i (drop_topic t (M, T)) = ced_has e i (M, T)"
  by (cases e) (auto simp: ced_has_def drop_topic_def split: option.splits)

lemma create_topic_has:
  "create_topic srcs p name (M, T) = (r, w) \<Longrightarrow> ced_has e i w = ced_has e i (M, T) \<and> cm_topics (fst w) = cm_topics M"
  by (cases e) (auto simp: ced_has_def create_topic_def split: option.splits if_splits)

lemma create_topic_by_ref_enters:
  assumes "create_topic_by_ref srcs i pid ref (M, T) = (b, w')"
  shows "entity_enters ced_has E_topic i b (M, T) w'"
proof (cases "cm_participants M pid = None \<or> cm_topics M i \<noteq> None")
  case True
  then show ?thesis using assms by (auto simp: create_topic_by_ref_def split: option.splits)
next
  case False
  then obtain p where p: "cm_participants M pid = Some p" and free: "cm_topics M i = None" by auto
  obtain r M1 T1 where c: "create_topic srcs p (remove_suffix_form_topic_ref ref) (M, T) = (r, M1, T1)"
    by (metis prod_cases3)
  have has: "ced_has e' i' (M1, T1) = ced_has e' i' (M, T)" and top: "cm_topics M1 = cm_topics M" for e' i'
    using create_topic_has [OF c] by simp_all
  have upd: "ced_has e' i' (M1\<lparr>cm_topics := (cm_topics M)(i \<mapsto> t)\<rparr>, T1) \<longleftrightarrow> ced_has e' i' (M1, T1) \<or> (e' = E_topic \<and> i' = i)" for e' i' t
    by (cases e') (auto simp: ced_has_def top)
  have "\<not> ced_has E_topic i (M, T)" using free by (simp add: ced_has_def)
  with assms p free c show ?thesis
    by (cases r) (auto simp: create_topic_by_ref_def map_emplace_def top entity_enters_def upd has)
qed

lemma ced_create_ref_contract:
  assumes "ced_ok rest w" and "ced_create_by_ref srcs e i p x w = Some (b, w')"
  shows "ced_ok rest w' \<and> entity_enters ced_has e i b w w'"
proof -
  obtain M T where w: "w = (M, T)" by (cases w)
  have "ced_ok rest w'"
    using assms create_participant_ok create_topic_by_ref_ok create_publisher_ok create_subscriber_ok
      create_datawriter_ok create_datareader_ok
    unfolding w ced_create_by_ref_def by (cases e) (auto, (metis snd_conv)+)
  moreover have "entity_enters ced_has e i b w w'"
  proof (cases "e = E_topic")
    case True
    then show ?thesis using assms(2) create_topic_by_ref_enters
      unfolding w ced_create_by_ref_def by simp
  next
    case False
    then show ?thesis using assms(2) unfolding w ced_create_by_ref_def entity_enters_def
      by (cases e) (auto simp: ced_has_def create_participant_by_ref_def create_publisher_by_xml_def create_subscriber_by_xml_def
          create_datawriter_by_ref_def create_datareader_by_ref_def split: option.splits if_splits entity.splits)
  qed
  ultimately show ?thesis by simp
qed

text \<open>Each binary form is a reference form or changes nothing.\<close>

lemma ced_create_bin_as_ref:
  assumes "ced_create_by_bin srcs e i p y w = Some (b, w')"
  shows "(b, w') = (False, w) \<or> (\<exists>p' x. ced_create_by_ref srcs e i p' x w = Some (b, w'))"
  using assms
  by (auto simp: ced_create_by_bin_def ced_create_by_ref_def create_forms create_datawriter_by_bin_def create_datareader_by_bin_def
      split: entity.splits binary_object.splits option.splits prod.splits)

lemma ced_create_bin_contract:
  assumes "ced_ok rest w" and "ced_create_by_bin srcs e i p y w = Some (b, w')"
  shows "ced_ok rest w' \<and> entity_enters ced_has e i b w w'"
  using ced_create_bin_as_ref [OF assms(2)]
proof (elim disjE exE)
  show ?thesis if "(b, w') = (False, w)" using that assms(1) by simp
qed (rule ced_create_ref_contract [OF assms(1)])

lemma ced_delete_contract:
  assumes "ced_ok rest w" and "ced_delete e i w = (b, w')"
  shows "ced_ok rest w' \<and> b = ced_has e i w \<and> (\<forall>e' i'. ced_has e' i' w' \<longleftrightarrow> ced_has e' i' w \<and> \<not> (e' = e \<and> i' = i))"
proof -
  obtain M T where w: "w = (M, T)" by (cases w)
  have "ced_ok rest w'"
    using assms delete_topic_ok delete_datawriter_ok delete_datareader_ok delete_plain_ok
    unfolding w ced_delete_def by (cases e) (auto, (metis snd_conv)+)
  moreover have "b = ced_has e i w \<and> (ced_has e' i' w' \<longleftrightarrow> ced_has e' i' w \<and> \<not> (e' = e \<and> i' = i))" for e' i'
    using assms(2) unfolding w ced_delete_def
    by (cases e) (auto simp: delete_participant_def delete_topic_def delete_publisher_def delete_subscriber_def
        delete_datawriter_def delete_datareader_def drop_topic_has split: option.splits;
      auto simp: ced_has_def split: entity.splits if_splits)+
  ultimately show ?thesis by blast
qed

lemma write_data_entities: "ced_has e j (snd (ced_write_data i data (M, T))) = ced_has e j (M, T)"
  by (auto simp: ced_write_data_def ced_has_def split: option.splits prod.splits entity.splits)

interpretation ced: dds_middleware "ced_middleware srcs" ced_has "ced_ok rest" for srcs rest
proof
  fix w w' e i p x y b
  assume ok: "ced_ok rest w"
  show "mw_create_by_ref (ced_middleware srcs) e i p x w = Some (b, w') \<Longrightarrow> ced_ok rest w' \<and> entity_enters ced_has e i b w w'"
    "mw_create_by_xml (ced_middleware srcs) e i p x w = Some (b, w') \<Longrightarrow> ced_ok rest w' \<and> entity_enters ced_has e i b w w'"
    unfolding ced_middleware_def Middleware.select_convs ced_create_xml_eq by (rule ced_create_ref_contract [OF ok], assumption)+
  show "mw_create_by_bin (ced_middleware srcs) e i p y w = Some (b, w') \<Longrightarrow> ced_ok rest w' \<and> entity_enters ced_has e i b w w'"
    unfolding ced_middleware_def Middleware.select_convs by (rule ced_create_bin_contract [OF ok])
  show "mw_delete (ced_middleware srcs) e i w = (b, w') \<Longrightarrow> ced_ok rest w' \<and> b = ced_has e i w
      \<and> (\<forall>e' i'. ced_has e' i' w' \<longleftrightarrow> ced_has e' i' w \<and> \<not> (e' = e \<and> i' = i))"
    unfolding ced_middleware_def Middleware.select_convs by (rule ced_delete_contract [OF ok])
next
  fix w i n data e j
  assume ok: "ced_ok rest w"
  show "ced_ok rest (snd (mw_write_data (ced_middleware srcs) i data w))
      \<and> ced_has e j (snd (mw_write_data (ced_middleware srcs) i data w)) = ced_has e j w"
    unfolding ced_middleware_def Middleware.select_convs using ok write_data_ok write_data_entities by (cases w) metis
  show "ced_ok rest (snd (mw_write_request (ced_middleware srcs) i n data w))
      \<and> ced_has e j (snd (mw_write_request (ced_middleware srcs) i n data w)) = ced_has e j w"
    "ced_ok rest (snd (mw_write_reply (ced_middleware srcs) i data w))
      \<and> ced_has e j (snd (mw_write_reply (ced_middleware srcs) i data w)) = ced_has e j w"
    using ok by (simp_all add: ced_middleware_def ced_write_request_def ced_write_reply_def)
qed

text \<open>A subscriber outlives its participant with a dangling reference: creating a data reader on it
  then has no defined result, although the subscriber is still there.\<close>

lemma ced_dangling_subscriber:
  assumes "cm_subscribers M s = Some (p, a)" and "cm_datareaders M i = None"
  shows "ced_has E_subscriber s (snd (delete_participant p (M, T)))
    \<and> create_datareader_by_ref i s ref (snd (delete_participant p (M, T))) = None"
  using assms by (simp add: delete_participant_def create_datareader_by_ref_def subscriber_participant_def ced_has_def)

end
