(* ===== verification/Ced_Process.thy ===== *)
theory Ced_Process
  imports Ced_Middleware
begin

text \<open>
  The built-in middleware as the whole process uses it: every client has a \<open>CedMiddleware\<close> of its own
  and all of them share the \<open>CedTopicManager\<close>.  The states of the process are an inductive set, with any
  client performing any operation at any time; the invariant says that the registry of global topics is
  exact, and the last theorem that a sample travels from one client to another.
\<close>

subsection \<open>Steps\<close>

text \<open>The destructor of a \<open>CedMiddleware\<close> destroys its maps: every topic it owns goes once.\<close>

definition release_one :: "CedMiddleware \<Rightarrow> addr \<Rightarrow> CedTopicManager \<Rightarrow> CedTopicManager" where
  "release_one M t T = (case cm_topic_heap M t of None \<Rightarrow> T | Some ct \<Rightarrow> tm_release_topic (ct_name ct) (ct_domain ct) T)"

definition CedMiddleware_destroy :: "CedMiddleware \<Rightarrow> CedTopicManager \<Rightarrow> CedTopicManager" where
  "CedMiddleware_destroy M T = fold (release_one M) [0..<cm_next M] T"

text \<open>One operation of a client on its middleware; the uninitialised array of a new global topic is
  whatever it is, but of its length.\<close>

inductive ced_step :: "ced \<Rightarrow> ced \<Rightarrow> bool" where
  step_create: "length srcs = 16 \<Longrightarrow> ced_create_by_ref srcs e i p x w = Some (b, w') \<Longrightarrow> ced_step w w'"
| step_create_bin: "length srcs = 16 \<Longrightarrow> ced_create_by_bin srcs e i p y w = Some (b, w') \<Longrightarrow> ced_step w w'"
| step_delete: "ced_delete e i w = (b, w') \<Longrightarrow> ced_step w w'"
| step_write: "ced_write_data i data w = (b, w') \<Longrightarrow> ced_step w w'"
| step_read: "ced_read_data i wakes w = (d, w') \<Longrightarrow> ced_step w w'"

inductive ced_process :: "(u32 \<rightharpoonup> CedMiddleware) \<Rightarrow> CedTopicManager \<Rightarrow> bool" where
  process_start: "ced_process Map.empty \<lparr>tm_topics = Map.empty, tm_on_new_domain = ks, tm_on_new_topic = ks', tm_calls = []\<rparr>"
| process_connect: "ced_process cs T \<Longrightarrow> cs k = None \<Longrightarrow> ced_process (cs(k \<mapsto> CedMiddleware_new k)) T"
| process_step: "ced_process cs T \<Longrightarrow> cs k = Some M \<Longrightarrow> ced_step (M, T) (M', T') \<Longrightarrow> ced_process (cs(k \<mapsto> M')) T'"
| process_disconnect: "ced_process cs T \<Longrightarrow> cs k = Some M \<Longrightarrow> ced_process (cs(k := None)) (CedMiddleware_destroy M T)"

subsection \<open>Every step keeps the ownership invariant\<close>

lemma ced_step_ok: "ced_step w w' \<Longrightarrow> ced_ok rest w \<Longrightarrow> ced_ok rest w'"
proof (induction rule: ced_step.induct)
  case (step_create srcs e i p x w b w')
  then show ?case using ced_create_ref_contract by blast
next
  case (step_create_bin srcs e i p y w b w')
  then show ?case using ced_create_bin_contract by blast
next
  case (step_delete e i w b w')
  then show ?case using ced_delete_contract by blast
next
  case (step_write i data w b w')
  then show ?case using write_data_ok by (metis prod.collapse snd_conv)
next
  case (step_read i wakes w d w')
  then show ?case using read_data_ok by (metis prod.collapse snd_conv)
qed

lemma fold_release_owners:
  assumes "tm_ok T" and "distinct ts"
    and "\<forall>d name. card {t \<in> set ts. t \<in> live_topics d name M} \<le> tm_owners d name T"
  shows "tm_ok (fold (release_one M) ts T)
    \<and> tm_owners d name (fold (release_one M) ts T) = tm_owners d name T - card {t \<in> set ts. t \<in> live_topics d name M}"
  using assms
proof (induction ts arbitrary: T)
  case (Cons t ts)
  let ?set = "\<lambda>d name. {u \<in> set ts. u \<in> live_topics d name M}"
  have t: "t \<notin> set ts" using Cons.prems(2) by simp
  have split: "card {u \<in> set (t # ts). u \<in> live_topics d name M}
      = card (?set d name) + (if t \<in> live_topics d name M then 1 else 0)" for d name
  proof -
    have "{u \<in> set (t # ts). u \<in> live_topics d name M}
        = (if t \<in> live_topics d name M then insert t (?set d name) else ?set d name)" by auto
    then show ?thesis using t by simp
  qed
  show ?case
  proof (cases "cm_topic_heap M t")
    case None
    then have nl: "t \<notin> live_topics d name M" for d name by (simp add: live_topics_def)
    have le: "\<forall>d name. card (?set d name) \<le> tm_owners d name T"
      using Cons.prems(3) unfolding split using nl by simp
    have "release_one M t T = T" using None by (simp add: release_one_def)
    then show ?thesis unfolding split using Cons.IH [OF Cons.prems(1) _ le] Cons.prems(2) nl by simp
  next
    case (Some ct)
    have live: "t \<in> live_topics d name M \<longleftrightarrow> d = ct_domain ct \<and> name = ct_name ct" for d name
      using Some by (auto simp: live_topics_def)
    let ?T = "tm_release_topic (ct_name ct) (ct_domain ct) T"
    have le: "card (?set d name) + (if d = ct_domain ct \<and> name = ct_name ct then 1 else 0) \<le> tm_owners d name T" for d name
      using Cons.prems(3) unfolding split live by blast
    from le [of "ct_domain ct" "ct_name ct"] have "0 < tm_owners (ct_domain ct) (ct_name ct) T" by simp
    note rel = release_owners [OF Cons.prems(1) this]
    have "\<forall>d name. card (?set d name) \<le> tm_owners d name ?T"
    proof (intro allI)
      show "card (?set d name) \<le> tm_owners d name ?T" for d name unfolding rel using le [of d name] by simp
    qed
    from Cons.IH [OF release_ok [OF Cons.prems(1)] _ this] Cons.prems(2)
    have "tm_ok (fold (release_one M) ts ?T)
        \<and> tm_owners d name (fold (release_one M) ts ?T) = tm_owners d name ?T - card (?set d name)" by simp
    moreover have "release_one M t T = ?T" by (simp add: release_one_def Some)
    ultimately show ?thesis unfolding split live rel by simp
  qed
qed simp

lemma destroy_owners:
  assumes "ced_ok rest (M, T)"
  shows "tm_ok (CedMiddleware_destroy M T) \<and> tm_owners d name (CedMiddleware_destroy M T) = rest d name"
proof -
  have ok: "topics_ok M" "tm_ok T" and n: "\<And>d name. tm_owners d name T = card (live_topics d name M) + rest d name"
    using assms by (simp_all add: ced_ok_def)
  have "{t \<in> set [0..<cm_next M]. t \<in> live_topics d name M} = live_topics d name M" for d name
    using topics_okD(2) [OF ok(1)] by (auto simp: live_topics_def)
  then show ?thesis unfolding CedMiddleware_destroy_def
    using fold_release_owners [OF ok(2), of "[0..<cm_next M]" M d name] n by simp
qed

subsection \<open>The registry is exact\<close>

definition clients_owners :: "(u32 \<rightharpoonup> CedMiddleware) \<Rightarrow> 16 word \<Rightarrow> string \<Rightarrow> nat" where
  "clients_owners cs d name = (\<Sum>k\<in>dom cs. card (live_topics d name (the (cs k))))"

definition process_ok :: "(u32 \<rightharpoonup> CedMiddleware) \<Rightarrow> CedTopicManager \<Rightarrow> bool" where
  "process_ok cs T \<longleftrightarrow> finite (dom cs) \<and> tm_ok T \<and> (\<forall>k M. cs k = Some M \<longrightarrow> topics_ok M \<and> participants_ok M)
     \<and> (\<forall>d name. tm_owners d name T = clients_owners cs d name)"

text \<open>The owners of one client against those of all the others.\<close>

lemma clients_owners_split:
  assumes "finite (dom cs)"
  shows "clients_owners (cs(k \<mapsto> M)) d name = card (live_topics d name M) + clients_owners (cs(k := None)) d name"
proof -
  have d: "dom (cs(k \<mapsto> M)) = insert k (dom (cs(k := None)))" "k \<notin> dom (cs(k := None))" "finite (dom (cs(k := None)))"
    using assms by auto
  have "(\<Sum>j\<in>dom (cs(k := None)). card (live_topics d name (the ((cs(k \<mapsto> M)) j))))
      = (\<Sum>j\<in>dom (cs(k := None)). card (live_topics d name (the ((cs(k := None)) j))))"
    by (rule sum.cong) auto
  then show ?thesis unfolding clients_owners_def d(1) sum.insert [OF d(3,2)] by (simp only: fun_upd_same option.sel)
qed

lemma process_client_ok:
  assumes "process_ok cs T" and "cs k = Some M"
  shows "ced_ok (clients_owners (cs(k := None))) (M, T)"
proof -
  have "cs(k \<mapsto> M) = cs" using assms(2) by auto
  then show ?thesis using assms clients_owners_split [of cs k M] by (simp add: process_ok_def ced_ok_def)
qed

lemma process_upd_ok:
  assumes "process_ok cs T" and "ced_ok (clients_owners (cs(k := None))) (M, T')"
  shows "process_ok (cs(k \<mapsto> M)) T'"
  using assms clients_owners_split [of cs k M] by (auto simp: process_ok_def ced_ok_def simp del: fun_upd_apply split: if_splits)
    (auto split: if_splits)

lemma new_client_ok: "tm_ok T \<Longrightarrow> (\<And>d name. tm_owners d name T = rest d name) \<Longrightarrow> ced_ok rest (CedMiddleware_new k, T)"
  by (simp add: ced_ok_def CedMiddleware_new_def topics_ok_def participants_ok_def topic_owned_def live_topics_def split_def)

lemma ced_process_ok: "ced_process cs T \<Longrightarrow> process_ok cs T"
proof (induction rule: ced_process.induct)
  case (process_start ks ks')
  then show ?case
    by (simp add: process_ok_def tm_ok_def tm_owners_def domain_topics_def clients_owners_def)
next
  case (process_connect cs T k)
  have "cs(k := None) = cs" using process_connect.hyps(2) by auto
  with process_connect.IH show ?case
    by (intro process_upd_ok [OF process_connect.IH] new_client_ok) (auto simp: process_ok_def)
next
  case (process_step cs T k M M' T')
  then show ?case using process_client_ok ced_step_ok process_upd_ok by blast
next
  case (process_disconnect cs T k M)
  note d = destroy_owners [OF process_client_ok [OF process_disconnect.IH process_disconnect.hyps(2)]]
  have "finite (dom (cs(k := None)))" "\<forall>j M. (cs(k := None)) j = Some M \<longrightarrow> topics_ok M \<and> participants_ok M"
    using process_disconnect.IH by (auto simp: process_ok_def)
  with d show ?case unfolding process_ok_def by blast
qed

lemma registered_iff:
  assumes "process_ok cs T"
  shows "domain_topics d T name \<noteq> None \<longleftrightarrow> (\<exists>k M t. cs k = Some M \<and> t \<in> live_topics d name M)"
proof -
  have fin: "finite (live_topics d name M)" if "cs k = Some M" for k M
    using assms that finite_live_topics by (auto simp: process_ok_def)
  have "domain_topics d T name \<noteq> None \<longleftrightarrow> 0 < clients_owners cs d name"
  proof
    show "domain_topics d T name \<noteq> None \<Longrightarrow> 0 < clients_owners cs d name"
      using assms unfolding process_ok_def tm_ok_def by metis
    show "domain_topics d T name \<noteq> None" if "0 < clients_owners cs d name"
      using assms that unfolding process_ok_def by (metis less_irrefl option.simps(4) tm_owners_def)
  qed
  also have "\<dots> \<longleftrightarrow> (\<exists>k\<in>dom cs. 0 < card (live_topics d name (the (cs k))))"
    using assms by (auto simp: clients_owners_def process_ok_def sum_eq_0_iff simp flip: neq0_conv)
  also have "\<dots> \<longleftrightarrow> (\<exists>k M t. cs k = Some M \<and> t \<in> live_topics d name M)"
  proof
    assume "\<exists>k\<in>dom cs. 0 < card (live_topics d name (the (cs k)))"
    then obtain k M where "cs k = Some M" "0 < card (live_topics d name M)" by force
    then show "\<exists>k M t. cs k = Some M \<and> t \<in> live_topics d name M" by (metis card.empty all_not_in_conv less_irrefl)
  next
    assume "\<exists>k M t. cs k = Some M \<and> t \<in> live_topics d name M"
    then obtain k M t where kM: "cs k = Some M" "t \<in> live_topics d name M" by blast
    then have "0 < card (live_topics d name M)" using fin card_gt_0_iff by blast
    with kM(1) show "\<exists>k\<in>dom cs. 0 < card (live_topics d name (the (cs k)))" by (intro bexI [of _ k]) auto
  qed
  finally show ?thesis .
qed

text \<open>C31: the registry of global topics is exact, whatever the clients of the process create, delete,
  write and read and however they come and go: a global topic is registered under a domain and a name
  exactly while some client has a topic, data writer or data reader on it, a domain exactly while it has
  a topic, and no entity of a client refers to a topic that has been destroyed.\<close>

theorem ced_registry_exact:
  assumes "ced_process cs T"
  shows "(domain_topics d T name \<noteq> None \<longleftrightarrow>
      (\<exists>k M t ct. cs k = Some M \<and> topic_owned t M \<and> cm_topic_heap M t = Some ct \<and> ct_domain ct = d \<and> ct_name ct = name))
    \<and> (tm_topics T d \<noteq> None \<longleftrightarrow> (\<exists>name. domain_topics d T name \<noteq> None))
    \<and> (\<forall>k M t. cs k = Some M \<longrightarrow> (topic_owned t M \<longleftrightarrow> cm_topic_heap M t \<noteq> None))"
proof -
  have ok: "process_ok cs T" by (rule ced_process_ok [OF assms])
  have heap: "\<forall>k M t. cs k = Some M \<longrightarrow> (topic_owned t M \<longleftrightarrow> cm_topic_heap M t \<noteq> None)"
    using ok unfolding process_ok_def topics_ok_def by metis
  have "domain_topics d T name \<noteq> None \<longleftrightarrow>
      (\<exists>k M t ct. cs k = Some M \<and> topic_owned t M \<and> cm_topic_heap M t = Some ct \<and> ct_domain ct = d \<and> ct_name ct = name)"
    unfolding registered_iff [OF ok] live_topics_def using heap by fastforce
  moreover have "tm_topics T d \<noteq> None \<longleftrightarrow> (\<exists>name. domain_topics d T name \<noteq> None)"
  proof (cases "tm_topics T d")
    case (Some m)
    then have "m \<noteq> Map.empty" using ok by (auto simp: process_ok_def tm_ok_def)
    with Some show ?thesis by (auto simp: domain_topics_def fun_eq_iff)
  qed (simp add: domain_topics_def)
  ultimately show ?thesis using heap by blast
qed

text \<open>Clients that create entities one after the other, for the examples.\<close>

fun run_creates :: "TopicSource list \<Rightarrow> (entity \<times> u16 \<times> u16 \<times> string) list \<Rightarrow> ced \<Rightarrow> ced option" where
  "run_creates srcs [] w = Some w"
| "run_creates srcs ((e, i, p, x) # ops) w =
     (case ced_create_by_ref srcs e i p x w of None \<Rightarrow> None | Some (_, w') \<Rightarrow> run_creates srcs ops w')"

lemma run_creates_process:
  assumes "run_creates srcs ops w = Some (M', T')" and "ced_process (cs(k \<mapsto> fst w)) (snd w)" and "length srcs = 16"
  shows "ced_process (cs(k \<mapsto> M')) T'"
  using assms
proof (induction srcs ops w rule: run_creates.induct)
  case (2 srcs e i p x ops w)
  obtain b w' where w': "ced_create_by_ref srcs e i p x w = Some (b, w')" "run_creates srcs ops w' = Some (M', T')"
    using "2.prems"(1) by (auto split: option.splits prod.splits)
  have "ced_step (fst w, snd w) (fst w', snd w')" using step_create [OF "2.prems"(3) w'(1)] by simp
  moreover have "(cs(k \<mapsto> fst w)) k = Some (fst w)" by simp
  ultimately have "ced_process (cs(k \<mapsto> fst w')) (snd w')"
    using process_step [OF "2.prems"(2), of k "fst w" "fst w'" "snd w'"] by (simp only: fun_upd_upd)
  from "2.IH" [OF w'(1) refl w'(2) this "2.prems"(3)] show ?case .
qed auto

definition example_process :: "ced option" where
  "example_process = run_creates (replicate 16 SRC_INTERNAL)
     [(E_participant, 1, 0, []), (E_topic, 2, 1, ''rt__t''), (E_publisher, 3, 1, []), (E_subscriber, 4, 1, []),
      (E_datawriter, 5, 3, ''rt__dw''), (E_datareader, 6, 4, ''rt__dr'')]
     (CedMiddleware_new 5, \<lparr>tm_topics = Map.empty, tm_on_new_domain = [], tm_on_new_topic = [], tm_calls = []\<rparr>)"

lemma example_process_reached:
  assumes "example_process = Some (M, T)"
  shows "ced_process [5 \<mapsto> M] T"
proof (rule run_creates_process [OF assms [unfolded example_process_def]])
  show "ced_process [5 \<mapsto> fst (CedMiddleware_new 5, \<lparr>tm_topics = Map.empty, tm_on_new_domain = [], tm_on_new_topic = [], tm_calls = []\<rparr>)]
     (snd (CedMiddleware_new 5, \<lparr>tm_topics = Map.empty, tm_on_new_domain = [], tm_on_new_topic = [], tm_calls = []\<rparr>))"
    using process_connect [OF process_start, of 5 "[]" "[]"] by simp
qed simp

lemma example_process_value:
  "\<exists>M T. example_process = Some (M, T)
    \<and> cm_datawriters M 5 = Some (\<lparr>dw_write_access = W_COMPLETE, dw_topic_src = SRC_INTERNAL\<rparr>, Suc 0)
    \<and> cm_datareaders M 6 = Some (\<lparr>dr_last_read = 65535, dr_read_access = R_COMPLETE\<rparr>, Suc 0)
    \<and> cm_topic_heap M (Suc 0) = Some \<lparr>ct_participant = 0, ct_domain = 0, ct_name = ''rt''\<rparr>
    \<and> domain_topics 0 T ''rt'' = Some (CedGlobalTopic_new (replicate 16 SRC_INTERNAL) ''rt'' 0, 1)"
proof -
  let ?s = "replicate 16 SRC_INTERNAL"
  let ?start = "\<lparr>tm_topics = Map.empty, tm_on_new_domain = [], tm_on_new_topic = [], tm_calls = []\<rparr>"
  let ?g = "CedGlobalTopic_new ?s ''rt'' 0"
  let ?T = "?start\<lparr>tm_topics := [0 \<mapsto> [''rt'' \<mapsto> (?g, 1)]]\<rparr>"
  have new: "client_rights 5 = (SRC_INTERNAL, W_COMPLETE, R_COMPLETE)"
    by (simp add: client_rights_def INTERNAL_CLIENT_KEY_def EXTERNAL_CLIENT_KEY_PREFIX_def)
  define M0 where "M0 = CedMiddleware_new 5"
  define M1 where "M1 = M0\<lparr>cm_participants := [1 \<mapsto> 0], cm_participant_heap := [0 \<mapsto> \<lparr>cp_domain_id = 0, cp_topic_register = Map.empty\<rparr>], cm_next := 1\<rparr>"
  define M2 where "M2 = M1\<lparr>cm_topic_heap := [Suc 0 \<mapsto> \<lparr>ct_participant = 0, ct_domain = 0, ct_name = ''rt''\<rparr>],
    cm_participant_heap := [0 \<mapsto> \<lparr>cp_domain_id = 0, cp_topic_register = [''rt'' \<mapsto> Suc 0]\<rparr>], cm_next := 2, cm_topics := [2 \<mapsto> Suc 0]\<rparr>"
  define M3 where "M3 = M2\<lparr>cm_publishers := [3 \<mapsto> 0]\<rparr>"
  define M4 where "M4 = M3\<lparr>cm_subscribers := [4 \<mapsto> (1, 0)]\<rparr>"
  define M5 where "M5 = M4\<lparr>cm_datawriters := [5 \<mapsto> (\<lparr>dw_write_access = W_COMPLETE, dw_topic_src = SRC_INTERNAL\<rparr>, Suc 0)]\<rparr>"
  define M6 where "M6 = M5\<lparr>cm_datareaders := [6 \<mapsto> (\<lparr>dr_last_read = 65535, dr_read_access = R_COMPLETE\<rparr>, Suc 0)]\<rparr>"
  note Ms = M1_def M2_def M3_def M4_def M5_def M6_def M0_def CedMiddleware_new_def new
  have sfx: "remove_suffix_form_topic_ref ''rt__t'' = ''rt''" "remove_suffix_form_datawriter_ref ''rt__dw'' = ''rt''"
    "remove_suffix_form_datareader_ref ''rt__dr'' = ''rt''"
    by (simp_all add: remove_suffix_form_topic_ref_def remove_suffix_form_datawriter_ref_def remove_suffix_form_datareader_ref_def)
  have reg: "tm_register_topic ?s ''rt'' 0 ?start = ?T"
    by (simp add: tm_register_topic_def domain_topics_def Let_def)
  have "create_participant_by_ref 1 0 (M0, ?start) = (True, M1, ?start)" by (simp add: create_participant_by_ref_def Ms)
  moreover have "create_topic_by_ref ?s 2 1 ''rt__t'' (M1, ?start) = (True, M2, ?T)"
    by (simp add: create_topic_by_ref_def create_topic_def find_topic_def sfx map_emplace_def reg Ms numeral_2_eq_2)
  moreover have "create_publisher_by_xml 3 1 (M2, ?T) = (True, M3, ?T)" by (simp add: create_publisher_by_xml_def Ms)
  moreover have "create_subscriber_by_xml 4 1 (M3, ?T) = (True, M4, ?T)" by (simp add: create_subscriber_by_xml_def Ms)
  moreover have "create_datawriter_by_ref 5 3 ''rt__dw'' (M4, ?T) = (True, M5, ?T)"
    by (simp add: create_datawriter_by_ref_def sfx find_topic_def Ms)
  moreover have "create_datareader_by_ref 6 4 ''rt__dr'' (M5, ?T) = Some (True, M6, ?T)"
    by (simp add: create_datareader_by_ref_def sfx find_topic_def subscriber_participant_def CedDataReader_new_def Ms)
  ultimately have "example_process = Some (M6, ?T)"
    unfolding example_process_def M0_def [symmetric] by (simp add: ced_create_by_ref_def)
  then show ?thesis by (intro exI [of _ M6] exI [of _ ?T] conjI) (simp_all add: Ms domain_topics_def)
qed

theorem ced_registry_exact_witness:
  "\<exists>M T. example_process = Some (M, T) \<and> topic_owned (Suc 0) M \<and> domain_topics 0 T ''rt'' \<noteq> None"
proof -
  obtain M T where e: "example_process = Some (M, T)" "cm_topic_heap M (Suc 0) = Some \<lparr>ct_participant = 0, ct_domain = 0, ct_name = ''rt''\<rparr>"
    using example_process_value by blast
  have own: "topic_owned (Suc 0) M"
    using ced_registry_exact [OF example_process_reached [OF e(1)], of 0 "''rt''"] e(2) by simp
  moreover have "domain_topics 0 T ''rt'' \<noteq> None"
    using ced_registry_exact [OF example_process_reached [OF e(1)], of 0 "''rt''", THEN conjunct1, THEN iffD2] own e(2)
    by fastforce
  ultimately show ?thesis using e(1) by blast
qed

subsection \<open>A sample travels from one client to another\<close>

text \<open>Every registered global topic is the result of some samples.\<close>

definition tm_logged :: "CedTopicManager \<Rightarrow> bool" where
  "tm_logged T \<longleftrightarrow> (\<forall>d name g k. domain_topics d T name = Some (g, k) \<longrightarrow> (\<exists>xs. topic_log xs g))"

lemma register_lookup:
  "domain_topics d' (tm_register_topic srcs name d T) name' =
     (if d' = d \<and> name' = name
      then (case domain_topics d T name of
              None \<Rightarrow> Some (CedGlobalTopic_new srcs name d, 1) | Some (g, k) \<Rightarrow> Some (g, k + 1))
      else domain_topics d' T name')"
  by (auto simp: tm_register_topic_def Let_def domain_topics_def split: option.splits)

lemma release_lookup:
  "domain_topics d' (tm_release_topic name d T) name' = Some (g, k) \<Longrightarrow> \<exists>k'. domain_topics d' T name' = Some (g, k')"
  by (auto simp: tm_release_topic_def Let_def split: option.splits if_splits)

lemma register_logged:
  assumes "tm_logged T" and "length srcs = 16"
  shows "tm_logged (tm_register_topic srcs name d T)"
  unfolding tm_logged_def
proof (intro allI impI)
  fix d' name' g k assume "domain_topics d' (tm_register_topic srcs name d T) name' = Some (g, k)"
  then show "\<exists>xs. topic_log xs g"
    using assms(1) topic_log_new [OF assms(2)] unfolding register_lookup tm_logged_def
    by (auto split: if_splits option.splits) blast+
qed

lemma release_logged: "tm_logged T \<Longrightarrow> tm_logged (tm_release_topic name d T)"
  unfolding tm_logged_def using release_lookup by metis

lemma create_ref_logged:
  assumes "tm_logged T" and "length srcs = 16" and "ced_create_by_ref srcs e i p x (M, T) = Some (b, w')"
  shows "tm_logged (snd w')"
proof (cases "e = E_topic")
  case True
  have "tm_logged (snd (snd (create_topic srcs q name (M, T))))" for q name
    using assms(1,2) register_logged release_logged by (auto simp: create_topic_def split: option.splits)
  with True assms show ?thesis
    by (auto simp: ced_create_by_ref_def create_topic_by_ref_def split: option.splits if_splits prod.splits)
      (metis snd_conv)+
next
  case False
  with assms show ?thesis
    by (cases e) (auto simp: ced_create_by_ref_def create_participant_by_ref_def create_publisher_by_xml_def
        create_subscriber_by_xml_def create_datawriter_by_ref_def create_datareader_by_ref_def split: option.splits if_splits)
qed

lemma drop_topic_logged: "tm_logged T \<Longrightarrow> tm_logged (snd (drop_topic t (M, T)))"
  by (auto simp: drop_topic_def release_logged split: option.splits)

lemma write_logged:
  assumes "tm_logged T"
  shows "tm_logged (snd (snd (ced_write_data i data (M, T))))"
proof -
  have "tm_logged (set_global d name (snd (dw_write w data g), k) T)" if "domain_topics d T name = Some (g, k)" for d name w g k
  proof -
    obtain xs where "topic_log xs g" using assms \<open>domain_topics d T name = Some (g, k)\<close> unfolding tm_logged_def by blast
    then have "\<exists>ys. topic_log ys (snd (dw_write w data g))"
      using gt_write_log [of xs g data "dw_write_access w" "dw_topic_src w"] unfolding dw_write_def by (metis snd_conv)
    then show ?thesis using assms unfolding tm_logged_def set_global_def by (auto split: if_splits)
  qed
  then show ?thesis using assms
    by (auto simp: ced_write_data_def global_of_def split: option.splits prod.splits) (metis snd_conv)
qed

lemma ced_step_logged: "ced_step w w' \<Longrightarrow> tm_logged (snd w) \<Longrightarrow> tm_logged (snd w')"
proof (induction rule: ced_step.induct)
  case (step_create srcs e i p x w b w')
  then show ?case using create_ref_logged by (cases w) auto
next
  case (step_create_bin srcs e i p y w b w')
  show ?case using ced_create_bin_as_ref [OF step_create_bin.hyps(2)]
  proof (elim disjE exE)
    show ?thesis if "(b, w') = (False, w)" using that step_create_bin.prems by simp
  next
    fix p' x assume "ced_create_by_ref srcs e i p' x w = Some (b, w')"
    then show ?thesis using create_ref_logged [OF step_create_bin.prems step_create_bin.hyps(1)] by (cases w) auto
  qed
next
  case (step_delete e i w b w')
  obtain M T where w: "w = (M, T)" by (cases w)
  from step_delete show ?case unfolding w ced_delete_def
    by (cases e) (auto simp: delete_participant_def delete_topic_def delete_publisher_def delete_subscriber_def
        delete_datawriter_def delete_datareader_def drop_topic_logged split: option.splits)
next
  case (step_write i data w b w')
  then show ?case using write_logged by (cases w) (metis snd_conv)
next
  case (step_read i wakes w d w')
  then show ?case by (cases w) (auto simp: ced_read_data_def split: option.splits prod.splits)
qed

lemma ced_process_logged: "ced_process cs T \<Longrightarrow> tm_logged T"
proof (induction rule: ced_process.induct)
  case (process_disconnect cs T k M)
  have "tm_logged (fold (release_one M) ts T)" if "tm_logged T" for ts T
    using that by (induction ts arbitrary: T) (auto simp: release_one_def release_logged split: option.splits)
  with process_disconnect.IH show ?case by (simp add: CedMiddleware_destroy_def)
qed (use ced_step_logged in \<open>force simp: tm_logged_def domain_topics_def\<close>)+

text \<open>C32: publish and subscribe between two clients of the process.  If the topic of a data writer of one
  client and that of a data reader of another have the same domain and name, the writer may write and the
  reader may read the writer's samples, and the reader has read everything so far, then a sample written
  is accepted and is the next one the reader gets.\<close>

theorem ced_publish_subscribe:
  assumes "ced_process cs T" and "cs kw = Some Mw" and "cs kr = Some Mr"
    and "cm_datawriters Mw i = Some (w, t)" and "cm_datareaders Mr j = Some (r, u)"
    and "map_option ct_domain (cm_topic_heap Mw t) = map_option ct_domain (cm_topic_heap Mr u)"
    and "map_option ct_name (cm_topic_heap Mw t) = map_option ct_name (cm_topic_heap Mr u)"
    and "check_write_access (dw_write_access w) (dw_topic_src w)" and "readable (dr_read_access r) (dw_topic_src w)"
    and "map_option (gt_last_write \<circ> fst) (global_of u (Mr, T)) = Some (dr_last_read r)"
  shows "\<exists>T'. ced_write_data i data (Mw, T) = (True, Mw, T') \<and> fst (ced_read_data j [] (Mr, T')) = Some data"
proof -
  have ok: "process_ok cs T" by (rule ced_process_ok [OF assms(1)])
  have "topic_owned t Mw" using assms(4) by (auto simp: topic_owned_def)
  then obtain ct where ct: "cm_topic_heap Mw t = Some ct"
    using ok assms(2) topics_okD(1) unfolding process_ok_def by blast
  then obtain cu where cu: "cm_topic_heap Mr u = Some cu" "ct_domain cu = ct_domain ct" "ct_name cu = ct_name ct"
    using assms(6,7) by (cases "cm_topic_heap Mr u") auto
  have "t \<in> live_topics (ct_domain ct) (ct_name ct) Mw" using ct by (simp add: live_topics_def)
  then obtain g k where g: "domain_topics (ct_domain ct) T (ct_name ct) = Some (g, k)"
    using registered_iff [OF ok] assms(2) by fastforce
  then obtain xs where xs: "topic_log xs g" using ced_process_logged [OF assms(1)] unfolding tm_logged_def by blast
  let ?g = "snd (gt_write data (dw_write_access w) (dw_topic_src w) g)"
  have wr: "dw_write w data g = (True, ?g)" and log: "topic_log (xs @ [(data, dw_topic_src w)]) ?g"
    using gt_write_log [OF xs, of data "dw_write_access w" "dw_topic_src w"] assms(8) by (simp_all add: dw_write_def)
  let ?T = "set_global (ct_domain ct) (ct_name ct) (?g, k) T"
  have "ced_write_data i data (Mw, T) = (True, Mw, ?T)"
    using assms(4) ct g wr by (simp add: ced_write_data_def global_of_def)
  moreover have "dr_last_read r = cursor (length xs)"
    using assms(10) cu g xs by (simp add: global_of_def topic_log_def)
  then have "fst (dr_read [] ?g r) = Some data"
    using gt_read_log [OF log, of "length xs" "dr_read_access r" "[]"] assms(9)
    by (simp add: dr_read_def split_def next_readable_def nth_append)
  then have "fst (ced_read_data j [] (Mr, ?T)) = Some data"
    using assms(5) cu by (simp add: ced_read_data_def global_of_def set_global_def split_def)
  ultimately show ?thesis by blast
qed

theorem ced_publish_subscribe_witness:
  "\<exists>M T T'. example_process = Some (M, T) \<and> ced_write_data 5 [1, 2] (M, T) = (True, M, T')
    \<and> fst (ced_read_data 6 [] (M, T')) = Some [1, 2]"
proof -
  obtain M T where e: "example_process = Some (M, T)"
    "cm_datawriters M 5 = Some (\<lparr>dw_write_access = W_COMPLETE, dw_topic_src = SRC_INTERNAL\<rparr>, Suc 0)"
    "cm_datareaders M 6 = Some (\<lparr>dr_last_read = 65535, dr_read_access = R_COMPLETE\<rparr>, Suc 0)"
    "cm_topic_heap M (Suc 0) = Some \<lparr>ct_participant = 0, ct_domain = 0, ct_name = ''rt''\<rparr>"
    "domain_topics 0 T ''rt'' = Some (CedGlobalTopic_new (replicate 16 SRC_INTERNAL) ''rt'' 0, 1)"
    using example_process_value by blast
  have "\<exists>T'. ced_write_data 5 [1, 2] (M, T) = (True, M, T') \<and> fst (ced_read_data 6 [] (M, T')) = Some [1, 2]"
    by (rule ced_publish_subscribe [OF example_process_reached [OF e(1)], of 5 M 5 M, OF _ _ e(2,3)])
      (simp_all add: e check_write_access_def readable_def global_of_def CedGlobalTopic_new_def)
  with e(1) show ?thesis by blast
qed

end
