(* ===== verification/Cdr_Codec.thy ===== *)
theory Cdr_Codec
  imports XRCE_Message
begin

text \<open>
  The operations of a \<open>fastcdr::Cdr\<close> from which the generated \<open>serialize\<close>, \<open>deserialize\<close> and
  \<open>getCdrSerializedSize\<close> methods of \<open>src/cpp/types/XRCETypes.cpp\<close> are made.  A writer gives the pieces that
  its \<open><<\<close> operations append at a position (padding included), a reader the value or the exception and the
  new position; \<open>>>\<close> on a member updates the object, so an exception leaves the members read before it.
  The rules at the end compose round trips and sizes from those of the members.
\<close>

datatype cdr_exception = NotEnoughMemory | BadParam

type_synonym writer = "nat \<Rightarrow> u8 list list"
type_synonym 'a reader = "u8 list \<Rightarrow> nat \<Rightarrow> (cdr_exception + 'a) \<times> nat"
type_synonym 'a deser = "u8 list \<Rightarrow> 'a \<times> nat \<Rightarrow> cdr_exception option \<times> 'a \<times> nat"
type_synonym sizer = "nat \<Rightarrow> nat"

subsection \<open>Writing\<close>

fun w_all :: "writer list \<Rightarrow> writer" where
  "w_all [] p = []"
| "w_all (w # ws) p = w p @ w_all ws (p + length (concat (w p)))"

definition w_octets :: "u8 list \<Rightarrow> writer" where
  "w_octets xs p = [xs]"

definition w_u8 :: "u8 \<Rightarrow> writer" where
  "w_u8 x p = [[x]]"

definition w_bool :: "cdr \<Rightarrow> bool \<Rightarrow> writer" where
  "w_bool C b p = [[put_bool C b]]"

definition w_u16 :: "cdr \<Rightarrow> u16 \<Rightarrow> writer" where
  "w_u16 C x p = [replicate (cdr_alignment p 2) 0 @ put_u16 C x]"

definition w_u32 :: "cdr \<Rightarrow> u32 \<Rightarrow> writer" where
  "w_u32 C x p = [replicate (cdr_alignment p 4) 0 @ put_u32 C x]"

text \<open>A string, and a sequence of octets: the length and what it counts.\<close>

definition w_string :: "cdr \<Rightarrow> string \<Rightarrow> writer" where
  "w_string C t p = [replicate (cdr_alignment p 4) 0 @ put_u32 C (of_nat (length (put_chars C t))) @ put_chars C t]"

definition w_bytes :: "cdr \<Rightarrow> u8 list \<Rightarrow> writer" where
  "w_bytes C xs p = [replicate (cdr_alignment p 4) 0 @ put_u32 C (of_nat (length xs)) @ xs]"

text \<open>A sequence of structures is undone as a whole when it does not fit.\<close>

definition w_vector :: "cdr \<Rightarrow> ('b \<Rightarrow> writer) \<Rightarrow> 'b list \<Rightarrow> writer" where
  "w_vector C w xs p = [concat (w_all (w_u32 C (of_nat (length xs)) # map w xs) p)]"

definition w_optional :: "cdr \<Rightarrow> ('b \<Rightarrow> writer) \<Rightarrow> 'b option \<Rightarrow> writer" where
  "w_optional C w x = w_all (w_bool C (x \<noteq> None) # (case x of None \<Rightarrow> [] | Some v \<Rightarrow> [w v]))"

subsection \<open>Reading\<close>

definition r_octets :: "nat \<Rightarrow> u8 list reader" where
  "r_octets n buf p = (case read_bytes buf p n of None \<Rightarrow> (Inl NotEnoughMemory, p) | Some (bs, q) \<Rightarrow> (Inr bs, q))"

definition r_u8 :: "u8 reader" where
  "r_u8 buf p = (case read_bytes buf p 1 of None \<Rightarrow> (Inl NotEnoughMemory, p) | Some (bs, q) \<Rightarrow> (Inr (bs ! 0), q))"

definition r_bool :: "cdr \<Rightarrow> bool reader" where
  "r_bool C buf p =
     (case read_bytes buf p 1 of
        None \<Rightarrow> (Inl NotEnoughMemory, p)
      | Some (bs, q) \<Rightarrow> (case get_bool C (bs ! 0) of None \<Rightarrow> (Inl BadParam, q) | Some b \<Rightarrow> (Inr b, q)))"

definition r_u16 :: "cdr \<Rightarrow> u16 reader" where
  "r_u16 C buf p =
     (case read_bytes buf (p + cdr_alignment p 2) 2 of
        None \<Rightarrow> (Inl NotEnoughMemory, p)
      | Some (bs, q) \<Rightarrow> (Inr (get_u16 C (bs ! 0) (bs ! 1)), q))"

definition r_u32 :: "cdr \<Rightarrow> u32 reader" where
  "r_u32 C buf p =
     (case read_bytes buf (p + cdr_alignment p 4) 4 of
        None \<Rightarrow> (Inl NotEnoughMemory, p)
      | Some (bs, q) \<Rightarrow> (Inr (get_u32 C bs), q))"

definition r_counted :: "cdr \<Rightarrow> u8 list reader" where
  "r_counted C buf p =
     (case r_u32 C buf p of
        (Inl e, q) \<Rightarrow> (Inl e, p)
      | (Inr n, q) \<Rightarrow> (case read_bytes buf q (unat n) of None \<Rightarrow> (Inl NotEnoughMemory, p) | Some (bs, q') \<Rightarrow> (Inr bs, q')))"

definition r_string :: "cdr \<Rightarrow> string reader" where
  "r_string C buf p = (case r_counted C buf p of (Inl e, q) \<Rightarrow> (Inl e, q) | (Inr bs, q) \<Rightarrow> (Inr (get_chars C bs), q))"

definition r_bytes :: "cdr \<Rightarrow> u8 list reader" where
  "r_bytes C = r_counted C"

text \<open>Reading into an object, and reading a fresh object.\<close>

fun d_all :: "'a deser list \<Rightarrow> 'a deser" where
  "d_all [] buf s = (None, s)"
| "d_all (d # ds) buf s = (case d buf s of (None, s') \<Rightarrow> d_all ds buf s' | (Some e, s') \<Rightarrow> (Some e, s'))"

definition d_read :: "'b reader \<Rightarrow> ('b \<Rightarrow> 'a \<Rightarrow> 'a) \<Rightarrow> 'a deser" where
  "d_read r upd buf = (\<lambda>(x, p). case r buf p of (Inl e, q) \<Rightarrow> (Some e, x, q) | (Inr v, q) \<Rightarrow> (None, upd v x, q))"

definition d_member :: "'b deser \<Rightarrow> ('a \<Rightarrow> 'b) \<Rightarrow> ('b \<Rightarrow> 'a \<Rightarrow> 'a) \<Rightarrow> 'a deser" where
  "d_member d get upd buf = (\<lambda>(x, p). case d buf (get x, p) of (e, v, q) \<Rightarrow> (e, upd v x, q))"

definition d_case :: "('a \<Rightarrow> 'a deser) \<Rightarrow> 'a deser" where
  "d_case f buf = (\<lambda>(x, p). f x buf (x, p))"

definition d_skip :: "'a deser" where
  "d_skip buf s = (None, s)"

definition r_fresh :: "'b deser \<Rightarrow> 'b \<Rightarrow> 'b reader" where
  "r_fresh d x0 buf p = (case d buf (x0, p) of (None, x, q) \<Rightarrow> (Inr x, q) | (Some e, x, q) \<Rightarrow> (Inl e, q))"

definition d_optional :: "cdr \<Rightarrow> 'b reader \<Rightarrow> ('b \<Rightarrow> 'a \<Rightarrow> 'a) \<Rightarrow> 'a deser" where
  "d_optional C r upd buf = (\<lambda>(x, p).
     case r_bool C buf p of
       (Inl e, q) \<Rightarrow> (Some e, x, q)
     | (Inr b, q) \<Rightarrow> if b then d_read r upd buf (x, q) else (None, x, q))"

fun r_elements :: "'b reader \<Rightarrow> nat \<Rightarrow> u8 list \<Rightarrow> nat \<Rightarrow> (cdr_exception + 'b list) \<times> nat" where
  "r_elements r 0 buf p = (Inr [], p)"
| "r_elements r (Suc n) buf p =
     (case r buf p of
        (Inl e, q) \<Rightarrow> (Inl e, q)
      | (Inr v, q) \<Rightarrow> (case r_elements r n buf q of (Inl e, q') \<Rightarrow> (Inl e, q') | (Inr vs, q') \<Rightarrow> (Inr (v # vs), q')))"

text \<open>A sequence: the count, then the elements.  The source resizes the vector to the count it has read before it reads an
  element; the memory for that is taken to suffice (as everywhere, running out of memory is not modelled), so a count
  larger than the buffer ends with the exception of the element that is not there.\<close>

definition r_vector :: "cdr \<Rightarrow> 'b reader \<Rightarrow> 'b list reader" where
  "r_vector C r buf p =
     (case r_u32 C buf p of
        (Inl e, q) \<Rightarrow> (Inl e, p)
      | (Inr n, q) \<Rightarrow> (case r_elements r (unat n) buf q of (Inl e, q') \<Rightarrow> (Inl e, p) | (Inr vs, q') \<Rightarrow> (Inr vs, q')))"

subsection \<open>Sizes\<close>

fun s_all :: "sizer list \<Rightarrow> sizer" where
  "s_all [] p = 0"
| "s_all (s # ss) p = s p + s_all ss (p + s p)"

definition s_prim :: "nat \<Rightarrow> sizer" where
  "s_prim k p = k + cdr_alignment p k"

definition s_octets :: "nat \<Rightarrow> sizer" where
  "s_octets n p = n * 1 + cdr_alignment p 1"

definition s_string :: "string \<Rightarrow> sizer" where
  "s_string t p = 4 + cdr_alignment p 4 + length t + 1"

definition s_bytes :: "u8 list \<Rightarrow> sizer" where
  "s_bytes xs = s_all [s_prim 4, s_octets (length xs)]"

subsection \<open>What is written is what is read\<close>

definition reads :: "writer \<Rightarrow> 'b reader \<Rightarrow> 'b \<Rightarrow> bool" where
  "reads w r v \<longleftrightarrow> (\<forall>pre rest. r (pre @ concat (w (length pre)) @ rest) (length pre)
     = (Inr v, length pre + length (concat (w (length pre)))))"

definition codes :: "writer \<Rightarrow> 'a deser \<Rightarrow> 'a \<Rightarrow> 'a \<Rightarrow> bool" where
  "codes w d x0 x \<longleftrightarrow> (\<forall>pre rest. d (pre @ concat (w (length pre)) @ rest) (x0, length pre)
     = (None, x, length pre + length (concat (w (length pre)))))"

definition sized :: "writer \<Rightarrow> sizer \<Rightarrow> bool" where
  "sized w s \<longleftrightarrow> (\<forall>p. length (concat (w p)) = s p)"

lemma readsD: "reads w r v \<Longrightarrow> r (pre @ concat (w (length pre)) @ rest) (length pre)
    = (Inr v, length pre + length (concat (w (length pre))))"
  unfolding reads_def by blast

lemma codesD: "codes w d x0 x \<Longrightarrow> d (pre @ concat (w (length pre)) @ rest) (x0, length pre)
    = (None, x, length pre + length (concat (w (length pre))))"
  unfolding codes_def by blast

lemma concat_w_all: "concat (w_all (w # ws) p) = concat (w p) @ concat (w_all ws (p + length (concat (w p))))"
  by simp

lemma codes_nil [simp]: "codes (w_all []) (d_all []) x0 x \<longleftrightarrow> x = x0"
  by (auto simp: codes_def)

lemma codes_skip: "codes (w_all []) d_skip x0 x0"
  by (simp add: codes_def d_skip_def)

lemma codes_cons:
  assumes "codes w d x0 x1" and "codes (w_all ws) (d_all ds) x1 x"
  shows "codes (w_all (w # ws)) (d_all (d # ds)) x0 x"
  unfolding codes_def
proof (intro allI)
  fix pre rest :: "u8 list"
  let ?b = "concat (w (length pre))"
  have l: "length (pre @ ?b) = length pre + length ?b" by simp
  note 1 = codesD [OF assms(1), of pre "concat (w_all ws (length (pre @ ?b))) @ rest"]
  note 2 = codesD [OF assms(2), of "pre @ ?b" rest]
  show "d_all (d # ds) (pre @ concat (w_all (w # ws) (length pre)) @ rest) (x0, length pre)
      = (None, x, length pre + length (concat (w_all (w # ws) (length pre))))"
    using 1 2 unfolding concat_w_all d_all.simps append_assoc l by simp
qed

lemma codes_read: "reads w r v \<Longrightarrow> codes w (d_read r upd) x0 (upd v x0)"
  by (simp add: codes_def d_read_def readsD)

lemma codes_member: "codes w d (get x0) v \<Longrightarrow> codes w (d_member d get upd) x0 (upd v x0)"
  by (simp add: codes_def d_member_def)

lemma codes_case: "codes w (f x0) x0 x \<Longrightarrow> codes w (d_case f) x0 x"
  by (simp add: codes_def d_case_def)

lemma reads_fresh: "codes w d x0 x \<Longrightarrow> reads w (r_fresh d x0) x"
  by (simp add: codes_def reads_def r_fresh_def)

lemma codes_single: "codes w d x0 x \<Longrightarrow> codes (w_all [w]) d x0 x"
  by (simp add: codes_def)

lemma reads_octets: "length xs = n \<Longrightarrow> reads (w_octets xs) (r_octets n) xs"
  by (simp add: reads_def w_octets_def r_octets_def read_bytes_def)

lemma reads_u8: "reads (w_u8 x) r_u8 x"
  by (simp add: reads_def w_u8_def r_u8_def read_bytes_def)

lemma sized_all: "list_all2 sized ws ss \<Longrightarrow> sized (w_all ws) (s_all ss)"
proof (induction rule: list_all2_induct)
  case (Cons w ws s ss)
  then show ?case unfolding sized_def by (simp add: length_concat)
qed (simp add: sized_def)

lemma sized_u8: "sized (w_u8 x) (s_prim 1)"
  by (simp add: sized_def w_u8_def s_prim_def cdr_alignment_def)

lemma sized_octets: "length xs = n \<Longrightarrow> sized (w_octets xs) (s_octets n)"
  by (simp add: sized_def w_octets_def s_octets_def cdr_alignment_def)

lemma sized_bool: "sized (w_bool C b) (s_prim 1)"
  by (simp add: sized_def w_bool_def s_prim_def cdr_alignment_def)

context cdr_lib
begin

lemma reads_bool: "reads (w_bool C b) (r_bool C) b"
  by (simp add: reads_def w_bool_def r_bool_def read_bytes_def put_get_bool)

lemma reads_u16: "reads (w_u16 C x) (r_u16 C) x"
  using get_put [of x] by (simp add: reads_def w_u16_def r_u16_def read_bytes_def nth_append)

lemma reads_u32: "reads (w_u32 C x) (r_u32 C) x"
  using put_get32 [of x] by (simp add: reads_def w_u32_def r_u32_def read_bytes_def)

lemma reads_counted:
  assumes "length xs < 2 ^ 32"
  shows "reads (\<lambda>p. [replicate (cdr_alignment p 4) 0 @ put_u32 C (of_nat (length xs)) @ xs]) (r_counted C) xs"
  unfolding reads_def
proof (intro allI)
  fix pre rest :: "u8 list"
  have n: "unat (of_nat (length xs) :: u32) = length xs" using assms by (simp add: unat_of_nat)
  have "r_u32 C (pre @ concat (w_u32 C (of_nat (length xs)) (length pre)) @ xs @ rest) (length pre)
      = (Inr (of_nat (length xs)), length pre + length (concat (w_u32 C (of_nat (length xs)) (length pre))))"
    by (rule readsD [OF reads_u32])
  then show "r_counted C (pre @ concat [replicate (cdr_alignment (length pre) 4) 0 @ put_u32 C (of_nat (length xs)) @ xs] @ rest) (length pre)
      = (Inr xs, length pre + length (concat [replicate (cdr_alignment (length pre) 4) 0 @ put_u32 C (of_nat (length xs)) @ xs]))"
    using n put_get32 [of "of_nat (length xs)"] by (simp add: r_counted_def w_u32_def read_bytes_def)
qed

lemma reads_bytes: "length xs < 2 ^ 32 \<Longrightarrow> reads (w_bytes C xs) (r_bytes C) xs"
  using reads_counted [of xs] by (simp add: w_bytes_def [abs_def] r_bytes_def)

lemma reads_string: "length t + 1 < 2 ^ 32 \<Longrightarrow> reads (w_string C t) (r_string C) t"
  using reads_counted [of "put_chars C t"] put_get_chars [of t]
  by (simp add: reads_def w_string_def r_string_def)

lemma reads_elements:
  assumes "\<And>v. v \<in> set vs \<Longrightarrow> reads (w v) r v"
  shows "reads (w_all (map w vs)) (r_elements r (length vs)) vs"
  using assms
proof (induction vs)
  case (Cons v vs)
  show ?case unfolding reads_def
  proof (intro allI)
    fix pre rest :: "u8 list"
    let ?b = "concat (w v (length pre))"
    have l: "length (pre @ ?b) = length pre + length ?b" by simp
    have "reads (w v) r v" "reads (w_all (map w vs)) (r_elements r (length vs)) vs" using Cons by simp_all
    note this [THEN readsD]
    from this(1) [of pre "concat (w_all (map w vs) (length (pre @ ?b))) @ rest"] this(2) [of "pre @ ?b" rest]
    show "r_elements r (length (v # vs)) (pre @ concat (w_all (map w (v # vs)) (length pre)) @ rest) (length pre)
        = (Inr (v # vs), length pre + length (concat (w_all (map w (v # vs)) (length pre))))"
      unfolding list.map concat_w_all append_assoc l by simp
  qed
qed (simp add: reads_def)

lemma reads_vector:
  assumes "\<And>v. v \<in> set vs \<Longrightarrow> reads (w v) r v" and "length vs < 2 ^ 32"
  shows "reads (w_vector C w vs) (r_vector C r) vs"
  unfolding reads_def
proof (intro allI)
  fix pre rest :: "u8 list"
  let ?b = "concat (w_u32 C (of_nat (length vs)) (length pre))"
  have l: "length (pre @ ?b) = length pre + length ?b" by simp
  have n: "unat (of_nat (length vs) :: u32) = length vs" using assms(2) by (simp add: unat_of_nat)
  from readsD [OF reads_u32, of pre "of_nat (length vs)" "concat (w_all (map w vs) (length (pre @ ?b))) @ rest"]
    readsD [OF reads_elements [OF assms(1)], of vs "pre @ ?b" rest]
  show "r_vector C r (pre @ concat (w_vector C w vs (length pre)) @ rest) (length pre)
      = (Inr vs, length pre + length (concat (w_vector C w vs (length pre))))"
    unfolding w_vector_def concat_w_all append_assoc l r_vector_def by (simp add: n)
qed

lemma codes_optional:
  assumes "\<And>v. x = Some v \<Longrightarrow> reads (w v) r v"
  shows "codes (w_optional C w x) (d_optional C r upd) x0 (case x of None \<Rightarrow> x0 | Some v \<Rightarrow> upd v x0)"
proof (cases x)
  case None
  then show ?thesis using readsD [OF reads_bool, of _ False]
    by (simp add: codes_def w_optional_def d_optional_def w_bool_def)
next
  case (Some v)
  show ?thesis unfolding codes_def
  proof (intro allI)
    fix pre rest :: "u8 list"
    let ?b = "concat (w_bool C True (length pre))"
    have l: "length (pre @ ?b) = length pre + length ?b" by simp
    from readsD [OF reads_bool, of pre True "concat (w v (length (pre @ ?b))) @ rest"]
      readsD [OF assms [OF Some], of "pre @ ?b" rest]
    show "d_optional C r upd (pre @ concat (w_optional C w x (length pre)) @ rest) (x0, length pre)
        = (None, case x of None \<Rightarrow> x0 | Some v \<Rightarrow> upd v x0, length pre + length (concat (w_optional C w x (length pre))))"
      unfolding Some w_optional_def option.simps concat_w_all append_assoc l d_optional_def
      by (simp add: d_read_def)
  qed
qed

lemma sized_u16: "sized (w_u16 C x) (s_prim 2)"
  by (simp add: sized_def w_u16_def s_prim_def)

lemma sized_u32: "sized (w_u32 C x) (s_prim 4)"
  using put_get32 [of x] by (simp add: sized_def w_u32_def s_prim_def)

lemma sized_string: "sized (w_string C t) (s_string t)"
  using put_get32 [of "of_nat (length (put_chars C t))"] put_get_chars [of t]
  by (simp add: sized_def w_string_def s_string_def)

lemma sized_bytes: "sized (w_bytes C xs) (s_bytes xs)"
  using put_get32 [of "of_nat (length xs)"]
  by (simp add: sized_def w_bytes_def s_bytes_def s_prim_def s_octets_def cdr_alignment_def)

lemma sized_vector:
  assumes "\<And>v. v \<in> set vs \<Longrightarrow> sized (w v) (s v)"
  shows "sized (w_vector C w vs) (s_all (s_prim 4 # map s vs))"
proof -
  have "list_all2 sized (map w vs) (map s vs)"
    using assms by (simp add: list_all2_map1 list_all2_map2 list_all2_same)
  then have "sized (w_all (w_u32 C (of_nat (length vs)) # map w vs)) (s_all (s_prim 4 # map s vs))"
    using sized_u32 sized_all by blast
  then show ?thesis by (simp add: sized_def w_vector_def)
qed

lemma sized_optional:
  assumes "\<And>v. x = Some v \<Longrightarrow> sized (w v) (s v)"
  shows "sized (w_optional C w x) (s_all (s_prim 1 # (case x of None \<Rightarrow> [] | Some v \<Rightarrow> [s v])))"
  unfolding w_optional_def using assms by (intro sized_all) (auto simp: sized_bool simp del: One_nat_def split: option.split)

end

end
