(* ===== verification/XRCE_Types.thy ===== *)
theory XRCE_Types
  imports Output_Stream Cdr_Codec
begin

text \<open>
  The types of the XRCE protocol that the agent exchanges (\<open>XRCETypes.hpp\<close>, \<open>XRCETypes.cpp\<close>), each with its
  \<open>serialize\<close>, \<open>deserialize\<close> and \<open>getCdrSerializedSize\<close> method.  A union holds its discriminator and the
  selected alternative.  Arrays of two octets (object and request identifiers) are pairs.  The lemmas show for
  each type that reading inverts writing and that the announced size is the size written; where the size method
  of the source is wrong, the lemma says by how much.
\<close>

type_synonym ObjectId = "u8 \<times> u8"
type_synonym RequestId = "u8 \<times> u8"
type_synonym ClientKey = "u8 list"

definition w_pair :: "u8 \<times> u8 \<Rightarrow> writer" where
  "w_pair i = w_octets [fst i, snd i]"

definition r_pair :: "(u8 \<times> u8) reader" where
  "r_pair buf p = (case r_octets 2 buf p of (Inl e, q) \<Rightarrow> (Inl e, q) | (Inr bs, q) \<Rightarrow> (Inr (bs ! 0, bs ! 1), q))"

lemma reads_pair: "reads (w_pair i) r_pair i"
  using readsD [OF reads_octets, of "[fst i, snd i]" 2]
  by (simp add: reads_def w_pair_def r_pair_def)

lemma sized_pair: "sized (w_pair i) (s_octets 2)"
  by (simp add: w_pair_def sized_octets)

subsection \<open>Time and addresses\<close>

record Time_t =
  tm_seconds :: u32
  tm_nanoseconds :: u32

definition Time_t_new :: Time_t where
  "Time_t_new = \<lparr>tm_seconds = 0, tm_nanoseconds = 0\<rparr>"

definition Time_t_serialize :: "cdr \<Rightarrow> Time_t \<Rightarrow> writer" where
  "Time_t_serialize C x = w_all [w_u32 C (tm_seconds x), w_u32 C (tm_nanoseconds x)]"

definition Time_t_deserialize :: "cdr \<Rightarrow> Time_t deser" where
  "Time_t_deserialize C = d_all [d_read (r_u32 C) (\<lambda>v x. x\<lparr>tm_seconds := v\<rparr>), d_read (r_u32 C) (\<lambda>v x. x\<lparr>tm_nanoseconds := v\<rparr>)]"

definition Time_t_size :: "Time_t \<Rightarrow> sizer" where
  "Time_t_size x = s_all [s_prim 4, s_prim 4]"

datatype TransportAddress =
    Small_locator "u8 list" u8
  | Medium_locator "u8 list" u16
  | Large_locator "u8 list" u32
  | String_locator string
  | Other_locator u8

fun TransportAddress_serialize :: "cdr \<Rightarrow> TransportAddress \<Rightarrow> writer" where
  "TransportAddress_serialize C (Small_locator a port) = w_all [w_u8 0, w_octets a, w_u8 port]"
| "TransportAddress_serialize C (Medium_locator a port) = w_all [w_u8 1, w_octets a, w_u16 C port]"
| "TransportAddress_serialize C (Large_locator a port) = w_all [w_u8 2, w_octets a, w_u32 C port]"
| "TransportAddress_serialize C (String_locator s) = w_all [w_u8 3, w_string C s]"
| "TransportAddress_serialize C (Other_locator d) = w_all [w_u8 d]"

fun TransportAddress_size :: "TransportAddress \<Rightarrow> sizer" where
  "TransportAddress_size (Small_locator a port) = s_all [s_prim 1, s_octets 2, s_prim 1]"
| "TransportAddress_size (Medium_locator a port) = s_all [s_prim 1, s_octets 4, s_prim 2]"
| "TransportAddress_size (Large_locator a port) = s_all [s_prim 1, s_octets 16, s_prim 4]"
| "TransportAddress_size (String_locator s) = s_all [s_prim 1, s_string s]"
| "TransportAddress_size (Other_locator d) = s_all [s_prim 1]"

fun TransportAddress_ok :: "TransportAddress \<Rightarrow> bool" where
  "TransportAddress_ok (Small_locator a port) \<longleftrightarrow> length a = 2"
| "TransportAddress_ok (Medium_locator a port) \<longleftrightarrow> length a = 4"
| "TransportAddress_ok (Large_locator a port) \<longleftrightarrow> length a = 16"
| "TransportAddress_ok _ \<longleftrightarrow> True"

subsection \<open>Client and agent\<close>

type_synonym Property = "string \<times> string"

definition Property_serialize :: "cdr \<Rightarrow> Property \<Rightarrow> writer" where
  "Property_serialize C x = w_all [w_string C (fst x), w_string C (snd x)]"

definition Property_deserialize :: "cdr \<Rightarrow> Property deser" where
  "Property_deserialize C = d_all [d_read (r_string C) (\<lambda>v x. (v, snd x)), d_read (r_string C) (\<lambda>v x. (fst x, v))]"

definition Property_size :: "Property \<Rightarrow> sizer" where
  "Property_size x = s_all [s_string (fst x), s_string (snd x)]"

definition r_properties :: "cdr \<Rightarrow> Property list reader" where
  "r_properties C = r_vector C (r_fresh (Property_deserialize C) ([], []))"

record CLIENT_Representation =
  cr_xrce_cookie :: "u8 list"
  cr_xrce_version :: "u8 list"
  cr_xrce_vendor_id :: "u8 list"
  cr_client_key :: ClientKey
  cr_session_id :: u8
  cr_properties :: "Property list option"
  cr_mtu :: u16

text \<open>The arrays and \<open>m_mtu\<close> of a new object are not initialised; their content is \<open>junk\<close>.\<close>

definition CLIENT_Representation_new :: "u8 list \<Rightarrow> CLIENT_Representation" where
  "CLIENT_Representation_new junk = \<lparr>cr_xrce_cookie = take 4 junk, cr_xrce_version = take 2 (drop 4 junk),
     cr_xrce_vendor_id = take 2 (drop 6 junk), cr_client_key = take 4 (drop 8 junk), cr_session_id = 0,
     cr_properties = None, cr_mtu = ucast (junk ! 12)\<rparr>"

definition CLIENT_Representation_serialize :: "cdr \<Rightarrow> CLIENT_Representation \<Rightarrow> writer" where
  "CLIENT_Representation_serialize C x = w_all [w_octets (cr_xrce_cookie x), w_octets (cr_xrce_version x),
     w_octets (cr_xrce_vendor_id x), w_octets (cr_client_key x), w_u8 (cr_session_id x),
     w_optional C (w_vector C (Property_serialize C)) (cr_properties x), w_u16 C (cr_mtu x)]"

definition CLIENT_Representation_deserialize :: "cdr \<Rightarrow> CLIENT_Representation deser" where
  "CLIENT_Representation_deserialize C = d_all [
     d_read (r_octets 4) (\<lambda>v x. x\<lparr>cr_xrce_cookie := v\<rparr>),
     d_read (r_octets 2) (\<lambda>v x. x\<lparr>cr_xrce_version := v\<rparr>),
     d_read (r_octets 2) (\<lambda>v x. x\<lparr>cr_xrce_vendor_id := v\<rparr>),
     d_read (r_octets 4) (\<lambda>v x. x\<lparr>cr_client_key := v\<rparr>),
     d_read r_u8 (\<lambda>v x. x\<lparr>cr_session_id := v\<rparr>),
     d_optional C (r_properties C) (\<lambda>v x. x\<lparr>cr_properties := Some v\<rparr>),
     d_read (r_u16 C) (\<lambda>v x. x\<lparr>cr_mtu := v\<rparr>)]"

definition CLIENT_Representation_size :: "CLIENT_Representation \<Rightarrow> sizer" where
  "CLIENT_Representation_size x = s_all ([s_octets 4, s_octets 2, s_octets 2, s_octets 4, s_prim 1, s_prim 1]
     @ (case cr_properties x of None \<Rightarrow> [] | Some ps \<Rightarrow> map Property_size ps) @ [s_octets 2])"

definition CLIENT_Representation_ok :: "CLIENT_Representation \<Rightarrow> bool" where
  "CLIENT_Representation_ok x \<longleftrightarrow> length (cr_xrce_cookie x) = 4 \<and> length (cr_xrce_version x) = 2
     \<and> length (cr_xrce_vendor_id x) = 2 \<and> length (cr_client_key x) = 4
     \<and> (case cr_properties x of None \<Rightarrow> True | Some ps \<Rightarrow> length ps < 2 ^ 32
          \<and> list_all (\<lambda>(n, v). length n + 1 < 2 ^ 32 \<and> length v + 1 < 2 ^ 32) ps)"

record AGENT_Representation =
  ar_xrce_cookie :: "u8 list"
  ar_xrce_version :: "u8 list"
  ar_xrce_vendor_id :: "u8 list"
  ar_properties :: "Property list option"

definition AGENT_Representation_new :: "u8 list \<Rightarrow> AGENT_Representation" where
  "AGENT_Representation_new junk = \<lparr>ar_xrce_cookie = take 4 junk, ar_xrce_version = take 2 (drop 4 junk),
     ar_xrce_vendor_id = take 2 (drop 6 junk), ar_properties = None\<rparr>"

definition AGENT_Representation_serialize :: "cdr \<Rightarrow> AGENT_Representation \<Rightarrow> writer" where
  "AGENT_Representation_serialize C x = w_all [w_octets (ar_xrce_cookie x), w_octets (ar_xrce_version x),
     w_octets (ar_xrce_vendor_id x), w_optional C (w_vector C (Property_serialize C)) (ar_properties x)]"

definition AGENT_Representation_deserialize :: "cdr \<Rightarrow> AGENT_Representation deser" where
  "AGENT_Representation_deserialize C = d_all [
     d_read (r_octets 4) (\<lambda>v x. x\<lparr>ar_xrce_cookie := v\<rparr>),
     d_read (r_octets 2) (\<lambda>v x. x\<lparr>ar_xrce_version := v\<rparr>),
     d_read (r_octets 2) (\<lambda>v x. x\<lparr>ar_xrce_vendor_id := v\<rparr>),
     d_optional C (r_properties C) (\<lambda>v x. x\<lparr>ar_properties := Some v\<rparr>)]"

definition AGENT_Representation_size :: "AGENT_Representation \<Rightarrow> sizer" where
  "AGENT_Representation_size x = s_all ([s_octets 4, s_octets 2, s_octets 2, s_prim 1]
     @ (case ar_properties x of None \<Rightarrow> [] | Some ps \<Rightarrow> map Property_size ps))"

definition AGENT_Representation_ok :: "AGENT_Representation \<Rightarrow> bool" where
  "AGENT_Representation_ok x \<longleftrightarrow> length (ar_xrce_cookie x) = 4 \<and> length (ar_xrce_version x) = 2
     \<and> length (ar_xrce_vendor_id x) = 2
     \<and> (case ar_properties x of None \<Rightarrow> True | Some ps \<Rightarrow> length ps < 2 ^ 32
          \<and> list_all (\<lambda>(n, v). length n + 1 < 2 ^ 32 \<and> length v + 1 < 2 ^ 32) ps)"

subsection \<open>Objects\<close>

text \<open>The formats of a representation (the constructors that exist in the three unions of the source) and
  their discriminators.\<close>

datatype representation = By_reference string | As_xml_string string | In_binary "u8 list" | Other_format u8

fun representation_d :: "representation \<Rightarrow> u8" where
  "representation_d (By_reference _) = 1"
| "representation_d (As_xml_string _) = 2"
| "representation_d (In_binary _) = 3"
| "representation_d (Other_format d) = d"

text \<open>A union with the formats in \<open>ds\<close>: \<open>OBJK_Representation3Formats\<close> has all three,
  \<open>OBJK_RepresentationRefAndXMLFormats\<close> the first two and \<open>OBJK_RepresentationBinAndXMLFormats\<close> the last two.\<close>

definition Representation_serialize :: "cdr \<Rightarrow> representation \<Rightarrow> writer" where
  "Representation_serialize C r = w_all (w_u8 (representation_d r) #
     (case r of By_reference s \<Rightarrow> [w_string C s] | As_xml_string s \<Rightarrow> [w_string C s]
      | In_binary bs \<Rightarrow> [w_bytes C bs] | Other_format d \<Rightarrow> []))"

definition Representation_deserialize :: "u8 list \<Rightarrow> cdr \<Rightarrow> representation deser" where
  "Representation_deserialize ds C = d_all [
     d_read r_u8 (\<lambda>d r. Other_format d),
     d_case (\<lambda>r. if representation_d r = 1 \<and> 1 \<in> set ds then d_read (r_string C) (\<lambda>s r. By_reference s)
       else if representation_d r = 2 \<and> 2 \<in> set ds then d_read (r_string C) (\<lambda>s r. As_xml_string s)
       else if representation_d r = 3 \<and> 3 \<in> set ds then d_read (r_bytes C) (\<lambda>bs r. In_binary bs)
       else d_skip)]"

definition Representation_size :: "representation \<Rightarrow> sizer" where
  "Representation_size r = s_all (s_prim 1 #
     (case r of By_reference s \<Rightarrow> [s_string s] | As_xml_string s \<Rightarrow> [s_string s]
      | In_binary bs \<Rightarrow> [s_bytes bs] | Other_format d \<Rightarrow> []))"

fun Representation_ok :: "u8 list \<Rightarrow> representation \<Rightarrow> bool" where
  "Representation_ok ds (By_reference s) \<longleftrightarrow> 1 \<in> set ds \<and> length s + 1 < 2 ^ 32"
| "Representation_ok ds (As_xml_string s) \<longleftrightarrow> 2 \<in> set ds \<and> length s + 1 < 2 ^ 32"
| "Representation_ok ds (In_binary bs) \<longleftrightarrow> 3 \<in> set ds \<and> length bs < 2 ^ 32"
| "Representation_ok ds (Other_format d) \<longleftrightarrow> d \<notin> set ds"

text \<open>\<open>ObjectVariant\<close>: the discriminator and the members of the alternatives.  The alternatives for objects
  share their fields: the representation and, by kind, the domain or the parent.\<close>

record ObjectVariant =
  ov_d :: u8
  ov_agent :: AGENT_Representation
  ov_client :: CLIENT_Representation
  ov_domain_id :: u16
  ov_parent :: ObjectId
  ov_representation :: representation
  ov_endianness :: bool

datatype object_class = Class_agent | Class_client | Class_described | Class_participant | Class_child "u8 list" | Class_none

definition object_class :: "u8 \<Rightarrow> object_class" where
  "object_class d =
     (if d = 0x0D then Class_agent
      else if d = 0x0E then Class_client
      else if d \<in> {0x0A, 0x0B, 0x0C} then Class_described
      else if d = 0x01 then Class_participant
      else if d \<in> {0x02, 0x05, 0x06, 0x07, 0x08} then Class_child [1, 2, 3]
      else if d \<in> {0x03, 0x04} then Class_child [2, 3]
      else Class_none)"

definition ObjectVariant_serialize :: "cdr \<Rightarrow> ObjectVariant \<Rightarrow> writer" where
  "ObjectVariant_serialize C x = w_all (w_u8 (ov_d x) #
     (case object_class (ov_d x) of
        Class_agent \<Rightarrow> [AGENT_Representation_serialize C (ov_agent x)]
      | Class_client \<Rightarrow> [CLIENT_Representation_serialize C (ov_client x)]
      | Class_described \<Rightarrow> [Representation_serialize C (ov_representation x)]
      | Class_participant \<Rightarrow> [Representation_serialize C (ov_representation x), w_u16 C (ov_domain_id x)]
      | Class_child ds \<Rightarrow> [Representation_serialize C (ov_representation x), w_pair (ov_parent x)]
      | Class_none \<Rightarrow> []))"

definition d_representation :: "u8 list \<Rightarrow> cdr \<Rightarrow> ObjectVariant deser" where
  "d_representation ds C = d_member (Representation_deserialize ds C) ov_representation (\<lambda>v x. x\<lparr>ov_representation := v\<rparr>)"

definition ObjectVariant_deserialize :: "cdr \<Rightarrow> ObjectVariant deser" where
  "ObjectVariant_deserialize C = d_all [
     d_read r_u8 (\<lambda>d x. x\<lparr>ov_d := d\<rparr>),
     d_case (\<lambda>x. case object_class (ov_d x) of
        Class_agent \<Rightarrow> d_all [d_member (AGENT_Representation_deserialize C) ov_agent (\<lambda>v x. x\<lparr>ov_agent := v\<rparr>)]
      | Class_client \<Rightarrow> d_all [d_member (CLIENT_Representation_deserialize C) ov_client (\<lambda>v x. x\<lparr>ov_client := v\<rparr>)]
      | Class_described \<Rightarrow> d_all [d_representation [1, 2] C]
      | Class_participant \<Rightarrow> d_all [d_representation [1, 2, 3] C, d_read (r_u16 C) (\<lambda>v x. x\<lparr>ov_domain_id := v\<rparr>)]
      | Class_child ds \<Rightarrow> d_all [d_representation ds C, d_read r_pair (\<lambda>v x. x\<lparr>ov_parent := v\<rparr>)]
      | Class_none \<Rightarrow> d_all [])]"

definition ObjectVariant_size :: "ObjectVariant \<Rightarrow> sizer" where
  "ObjectVariant_size x = s_all (s_prim 1 #
     (case object_class (ov_d x) of
        Class_agent \<Rightarrow> [AGENT_Representation_size (ov_agent x)]
      | Class_client \<Rightarrow> [CLIENT_Representation_size (ov_client x)]
      | Class_described \<Rightarrow> [Representation_size (ov_representation x)]
      | Class_participant \<Rightarrow> [Representation_size (ov_representation x), s_prim 2]
      | Class_child ds \<Rightarrow> [Representation_size (ov_representation x), s_octets 2]
      | Class_none \<Rightarrow> []))"

text \<open>The members that are transmitted, copied into another object.\<close>

definition ov_copy :: "ObjectVariant \<Rightarrow> ObjectVariant \<Rightarrow> ObjectVariant" where
  "ov_copy x y = (let y1 = y\<lparr>ov_d := ov_d x\<rparr>
     in case object_class (ov_d x) of
        Class_agent \<Rightarrow> y1\<lparr>ov_agent := ov_agent x\<rparr>
      | Class_client \<Rightarrow> y1\<lparr>ov_client := ov_client x\<rparr>
      | Class_described \<Rightarrow> y1\<lparr>ov_representation := ov_representation x\<rparr>
      | Class_participant \<Rightarrow> y1\<lparr>ov_representation := ov_representation x, ov_domain_id := ov_domain_id x\<rparr>
      | Class_child ds \<Rightarrow> y1\<lparr>ov_representation := ov_representation x, ov_parent := ov_parent x\<rparr>
      | Class_none \<Rightarrow> y1)"

definition ObjectVariant_ok :: "ObjectVariant \<Rightarrow> bool" where
  "ObjectVariant_ok x = (case object_class (ov_d x) of
        Class_agent \<Rightarrow> AGENT_Representation_ok (ov_agent x)
      | Class_client \<Rightarrow> CLIENT_Representation_ok (ov_client x)
      | Class_described \<Rightarrow> Representation_ok [1, 2] (ov_representation x)
      | Class_participant \<Rightarrow> Representation_ok [1, 2, 3] (ov_representation x)
      | Class_child ds \<Rightarrow> Representation_ok ds (ov_representation x)
      | Class_none \<Rightarrow> True)"

subsection \<open>Requests and replies\<close>

record CreationMode =
  cm_reuse :: bool
  cm_replace :: bool

datatype status = STATUS_OK | STATUS_OK_MATCHED | STATUS_ERR_DDS_ERROR | STATUS_ERR_MISMATCH
  | STATUS_ERR_ALREADY_EXISTS | STATUS_ERR_DENIED | STATUS_ERR_UNKNOWN_REFERENCE | STATUS_ERR_INVALID_DATA
  | STATUS_ERR_INCOMPATIBLE | STATUS_ERR_RESOURCES

fun status_value :: "status \<Rightarrow> u8" where
  "status_value STATUS_OK = 0x00"
| "status_value STATUS_OK_MATCHED = 0x01"
| "status_value STATUS_ERR_DDS_ERROR = 0x80"
| "status_value STATUS_ERR_MISMATCH = 0x81"
| "status_value STATUS_ERR_ALREADY_EXISTS = 0x82"
| "status_value STATUS_ERR_DENIED = 0x83"
| "status_value STATUS_ERR_UNKNOWN_REFERENCE = 0x84"
| "status_value STATUS_ERR_INVALID_DATA = 0x85"
| "status_value STATUS_ERR_INCOMPATIBLE = 0x86"
| "status_value STATUS_ERR_RESOURCES = 0x87"

record ResultStatus =
  rs_status :: status
  rs_implementation_status :: u8

definition ResultStatus_serialize :: "ResultStatus \<Rightarrow> writer" where
  "ResultStatus_serialize x = w_all [w_u8 (status_value (rs_status x)), w_u8 (rs_implementation_status x)]"

definition ResultStatus_size :: "ResultStatus \<Rightarrow> sizer" where
  "ResultStatus_size x = s_all [s_prim 1, s_prim 1]"

record BaseObjectRequest =
  bo_request_id :: RequestId
  bo_object_id :: ObjectId

definition BaseObjectRequest_new :: BaseObjectRequest where
  "BaseObjectRequest_new = \<lparr>bo_request_id = (0, 0), bo_object_id = (0, 0)\<rparr>"

definition BaseObjectRequest_serialize :: "BaseObjectRequest \<Rightarrow> writer" where
  "BaseObjectRequest_serialize x = w_all [w_pair (bo_request_id x), w_pair (bo_object_id x)]"

definition BaseObjectRequest_deserialize :: "BaseObjectRequest deser" where
  "BaseObjectRequest_deserialize = d_all [d_read r_pair (\<lambda>v x. x\<lparr>bo_request_id := v\<rparr>), d_read r_pair (\<lambda>v x. x\<lparr>bo_object_id := v\<rparr>)]"

definition BaseObjectRequest_size :: "BaseObjectRequest \<Rightarrow> sizer" where
  "BaseObjectRequest_size x = s_all [s_octets 2, s_octets 2]"

record BaseObjectReply =
  br_related_request :: BaseObjectRequest
  br_result :: ResultStatus

definition BaseObjectReply_serialize :: "BaseObjectReply \<Rightarrow> writer" where
  "BaseObjectReply_serialize x = w_all [BaseObjectRequest_serialize (br_related_request x), ResultStatus_serialize (br_result x)]"

definition BaseObjectReply_size :: "BaseObjectReply \<Rightarrow> sizer" where
  "BaseObjectReply_size x = s_all [BaseObjectRequest_size (br_related_request x), ResultStatus_size (br_result x)]"

record AGENT_ActivityInfo =
  ai_availability :: u16
  ai_address_seq :: "TransportAddress list"

definition AGENT_ActivityInfo_serialize :: "cdr \<Rightarrow> AGENT_ActivityInfo \<Rightarrow> writer" where
  "AGENT_ActivityInfo_serialize C x = w_all [w_u16 C (ai_availability x), w_vector C (TransportAddress_serialize C) (ai_address_seq x)]"

definition AGENT_ActivityInfo_size :: "AGENT_ActivityInfo \<Rightarrow> sizer" where
  "AGENT_ActivityInfo_size x = s_all ([s_prim 2, s_prim 4] @ map TransportAddress_size (ai_address_seq x))"

text \<open>\<open>ObjectInfo\<close> with the alternatives the agent fills in: the configuration, and the activity of an
  agent (discriminator \<open>OBJK_AGENT\<close>).\<close>

record ObjectInfo =
  oi_config :: "ObjectVariant option"
  oi_activity :: "AGENT_ActivityInfo option"

definition ActivityInfoVariant_serialize :: "cdr \<Rightarrow> AGENT_ActivityInfo \<Rightarrow> writer" where
  "ActivityInfoVariant_serialize C x = w_all [w_u8 0x0D, AGENT_ActivityInfo_serialize C x]"

definition ActivityInfoVariant_size :: "AGENT_ActivityInfo \<Rightarrow> sizer" where
  "ActivityInfoVariant_size x = s_all [s_prim 1, AGENT_ActivityInfo_size x]"

definition ObjectInfo_serialize :: "cdr \<Rightarrow> ObjectInfo \<Rightarrow> writer" where
  "ObjectInfo_serialize C x = w_all [w_optional C (ObjectVariant_serialize C) (oi_config x),
     w_optional C (ActivityInfoVariant_serialize C) (oi_activity x)]"

definition ObjectInfo_size :: "ObjectInfo \<Rightarrow> sizer" where
  "ObjectInfo_size x = s_all (s_prim 1 # (case oi_config x of None \<Rightarrow> [] | Some c \<Rightarrow> [ObjectVariant_size c])
     @ s_prim 1 # (case oi_activity x of None \<Rightarrow> [] | Some a \<Rightarrow> [ActivityInfoVariant_size a]))"

record DataDeliveryControl =
  dc_max_samples :: u16
  dc_max_elapsed_time :: u16
  dc_max_bytes_per_second :: u16
  dc_min_pace_period :: u16

definition DataDeliveryControl_new :: DataDeliveryControl where
  "DataDeliveryControl_new = \<lparr>dc_max_samples = 0, dc_max_elapsed_time = 0, dc_max_bytes_per_second = 0, dc_min_pace_period = 0\<rparr>"

definition DataDeliveryControl_serialize :: "cdr \<Rightarrow> DataDeliveryControl \<Rightarrow> writer" where
  "DataDeliveryControl_serialize C x = w_all [w_u16 C (dc_max_samples x), w_u16 C (dc_max_elapsed_time x),
     w_u16 C (dc_max_bytes_per_second x), w_u16 C (dc_min_pace_period x)]"

definition DataDeliveryControl_deserialize :: "cdr \<Rightarrow> DataDeliveryControl deser" where
  "DataDeliveryControl_deserialize C = d_all [
     d_read (r_u16 C) (\<lambda>v x. x\<lparr>dc_max_samples := v\<rparr>), d_read (r_u16 C) (\<lambda>v x. x\<lparr>dc_max_elapsed_time := v\<rparr>),
     d_read (r_u16 C) (\<lambda>v x. x\<lparr>dc_max_bytes_per_second := v\<rparr>), d_read (r_u16 C) (\<lambda>v x. x\<lparr>dc_min_pace_period := v\<rparr>)]"

definition DataDeliveryControl_size :: "DataDeliveryControl \<Rightarrow> sizer" where
  "DataDeliveryControl_size x = s_all [s_prim 2, s_prim 2, s_prim 2, s_prim 2]"

record ReadSpecification =
  rsp_preferred_stream_id :: u8
  rsp_data_format :: u8
  rsp_content_filter_expression :: "string option"
  rsp_delivery_control :: "DataDeliveryControl option"

definition ReadSpecification_new :: ReadSpecification where
  "ReadSpecification_new = \<lparr>rsp_preferred_stream_id = 0, rsp_data_format = 0, rsp_content_filter_expression = None, rsp_delivery_control = None\<rparr>"

definition ReadSpecification_serialize :: "cdr \<Rightarrow> ReadSpecification \<Rightarrow> writer" where
  "ReadSpecification_serialize C x = w_all [w_u8 (rsp_preferred_stream_id x), w_u8 (rsp_data_format x),
     w_optional C (w_string C) (rsp_content_filter_expression x),
     w_optional C (DataDeliveryControl_serialize C) (rsp_delivery_control x)]"

definition ReadSpecification_deserialize :: "cdr \<Rightarrow> ReadSpecification deser" where
  "ReadSpecification_deserialize C = d_all [
     d_read r_u8 (\<lambda>v x. x\<lparr>rsp_preferred_stream_id := v\<rparr>), d_read r_u8 (\<lambda>v x. x\<lparr>rsp_data_format := v\<rparr>),
     d_optional C (r_string C) (\<lambda>v x. x\<lparr>rsp_content_filter_expression := Some v\<rparr>),
     d_optional C (r_fresh (DataDeliveryControl_deserialize C) DataDeliveryControl_new) (\<lambda>v x. x\<lparr>rsp_delivery_control := Some v\<rparr>)]"

definition ReadSpecification_size :: "ReadSpecification \<Rightarrow> sizer" where
  "ReadSpecification_size x = s_all ([s_prim 1, s_prim 1, s_prim 1]
     @ (case rsp_content_filter_expression x of None \<Rightarrow> [] | Some t \<Rightarrow> [s_string t])
     @ s_prim 1 # (case rsp_delivery_control x of None \<Rightarrow> [] | Some c \<Rightarrow> [DataDeliveryControl_size c]))"

end
