(* ===== verification/XRCE_Payloads.thy ===== *)
theory XRCE_Payloads
  imports XRCE_Types
begin

text \<open>
  The payloads of the submessages (\<open>src/cpp/types/XRCETypes.cpp\<close>) and \<open>InputMessage::get_payload\<close>, which
  reads one in the byte order of the submessage.  Of the exceptions of Fast-CDR only
  \<open>NotEnoughMemoryException\<close> is caught there; any other leaves the processing thread (\<open>None\<close>).
\<close>

subsection \<open>Payloads\<close>

text \<open>\<open>CREATE_CLIENT_Payload\<close> consists of its \<open>CLIENT_Representation\<close>.\<close>

definition CREATE_CLIENT_Payload_serialize :: "cdr \<Rightarrow> CLIENT_Representation \<Rightarrow> writer" where
  "CREATE_CLIENT_Payload_serialize C x = w_all [CLIENT_Representation_serialize C x]"

definition CREATE_CLIENT_Payload_deserialize :: "cdr \<Rightarrow> CLIENT_Representation deser" where
  "CREATE_CLIENT_Payload_deserialize C = d_all [CLIENT_Representation_deserialize C]"

record CREATE_Payload =
  cp_request :: BaseObjectRequest
  cp_object_representation :: ObjectVariant

definition CREATE_Payload_serialize :: "cdr \<Rightarrow> CREATE_Payload \<Rightarrow> writer" where
  "CREATE_Payload_serialize C x = w_all [BaseObjectRequest_serialize (cp_request x), ObjectVariant_serialize C (cp_object_representation x)]"

definition CREATE_Payload_deserialize :: "cdr \<Rightarrow> CREATE_Payload deser" where
  "CREATE_Payload_deserialize C = d_all [
     d_member BaseObjectRequest_deserialize cp_request (\<lambda>v x. x\<lparr>cp_request := v\<rparr>),
     d_member (ObjectVariant_deserialize C) cp_object_representation (\<lambda>v x. x\<lparr>cp_object_representation := v\<rparr>)]"

definition CREATE_Payload_size :: "CREATE_Payload \<Rightarrow> sizer" where
  "CREATE_Payload_size x = s_all [BaseObjectRequest_size (cp_request x), ObjectVariant_size (cp_object_representation x)]"

record GET_INFO_Payload =
  gi_request :: BaseObjectRequest
  gi_info_mask :: u32

definition GET_INFO_Payload_new :: GET_INFO_Payload where
  "GET_INFO_Payload_new = \<lparr>gi_request = BaseObjectRequest_new, gi_info_mask = 1\<rparr>"

definition GET_INFO_Payload_serialize :: "cdr \<Rightarrow> GET_INFO_Payload \<Rightarrow> writer" where
  "GET_INFO_Payload_serialize C x = w_all [BaseObjectRequest_serialize (gi_request x), w_u32 C (gi_info_mask x)]"

definition GET_INFO_Payload_deserialize :: "cdr \<Rightarrow> GET_INFO_Payload deser" where
  "GET_INFO_Payload_deserialize C = d_all [
     d_member BaseObjectRequest_deserialize gi_request (\<lambda>v x. x\<lparr>gi_request := v\<rparr>),
     d_read (r_u32 C) (\<lambda>v x. x\<lparr>gi_info_mask := v\<rparr>)]"

definition GET_INFO_Payload_size :: "GET_INFO_Payload \<Rightarrow> sizer" where
  "GET_INFO_Payload_size x = s_all [BaseObjectRequest_size (gi_request x), s_prim 4]"

text \<open>\<open>DELETE_Payload\<close> is a \<open>BaseObjectRequest\<close>, \<open>STATUS_Payload\<close> a \<open>BaseObjectReply\<close>.\<close>

definition DELETE_Payload_deserialize :: "cdr \<Rightarrow> BaseObjectRequest deser" where
  "DELETE_Payload_deserialize C = BaseObjectRequest_deserialize"

definition STATUS_Payload_serialize :: "BaseObjectReply \<Rightarrow> writer" where
  "STATUS_Payload_serialize x = BaseObjectReply_serialize x"

definition STATUS_Payload_size :: "BaseObjectReply \<Rightarrow> sizer" where
  "STATUS_Payload_size x = s_all [BaseObjectReply_size x]"

record STATUS_AGENT_Payload =
  sa_result :: ResultStatus
  sa_agent_info :: AGENT_Representation

definition STATUS_AGENT_Payload_serialize :: "cdr \<Rightarrow> STATUS_AGENT_Payload \<Rightarrow> writer" where
  "STATUS_AGENT_Payload_serialize C x = w_all [ResultStatus_serialize (sa_result x), AGENT_Representation_serialize C (sa_agent_info x)]"

definition STATUS_AGENT_Payload_size :: "STATUS_AGENT_Payload \<Rightarrow> sizer" where
  "STATUS_AGENT_Payload_size x = s_all [ResultStatus_size (sa_result x), AGENT_Representation_size (sa_agent_info x)]"

record INFO_Payload =
  ip_reply :: BaseObjectReply
  ip_object_info :: ObjectInfo

definition INFO_Payload_serialize :: "cdr \<Rightarrow> INFO_Payload \<Rightarrow> writer" where
  "INFO_Payload_serialize C x = w_all [BaseObjectReply_serialize (ip_reply x), ObjectInfo_serialize C (ip_object_info x)]"

definition INFO_Payload_size :: "INFO_Payload \<Rightarrow> sizer" where
  "INFO_Payload_size x = s_all [BaseObjectReply_size (ip_reply x), ObjectInfo_size (ip_object_info x)]"

record READ_DATA_Payload =
  rd_request :: BaseObjectRequest
  rd_read_specification :: ReadSpecification

definition READ_DATA_Payload_new :: READ_DATA_Payload where
  "READ_DATA_Payload_new = \<lparr>rd_request = BaseObjectRequest_new, rd_read_specification = ReadSpecification_new\<rparr>"

definition READ_DATA_Payload_serialize :: "cdr \<Rightarrow> READ_DATA_Payload \<Rightarrow> writer" where
  "READ_DATA_Payload_serialize C x = w_all [BaseObjectRequest_serialize (rd_request x), ReadSpecification_serialize C (rd_read_specification x)]"

definition READ_DATA_Payload_deserialize :: "cdr \<Rightarrow> READ_DATA_Payload deser" where
  "READ_DATA_Payload_deserialize C = d_all [
     d_member BaseObjectRequest_deserialize rd_request (\<lambda>v x. x\<lparr>rd_request := v\<rparr>),
     d_member (ReadSpecification_deserialize C) rd_read_specification (\<lambda>v x. x\<lparr>rd_read_specification := v\<rparr>)]"

definition READ_DATA_Payload_size :: "READ_DATA_Payload \<Rightarrow> sizer" where
  "READ_DATA_Payload_size x = s_all [BaseObjectRequest_size (rd_request x), ReadSpecification_size (rd_read_specification x)]"

text \<open>\<open>WRITE_DATA_Payload_Data\<close> and \<open>DATA_Payload_Data\<close>: the octets of a sample, without their number.  The
  reader fills the vector, whose size has been set before.\<close>

record DATA_Payload_Data =
  dp_request :: BaseObjectRequest
  dp_data :: "u8 list"

definition DATA_Payload_Data_serialize :: "DATA_Payload_Data \<Rightarrow> writer" where
  "DATA_Payload_Data_serialize x = w_all [BaseObjectRequest_serialize (dp_request x), w_octets (dp_data x)]"

definition WRITE_DATA_Payload_Data_deserialize :: "cdr \<Rightarrow> DATA_Payload_Data deser" where
  "WRITE_DATA_Payload_Data_deserialize C = d_all [
     d_member BaseObjectRequest_deserialize dp_request (\<lambda>v x. x\<lparr>dp_request := v\<rparr>),
     d_case (\<lambda>x. d_read (r_octets (length (dp_data x))) (\<lambda>v x. x\<lparr>dp_data := v\<rparr>))]"

definition DATA_Payload_Data_size :: "DATA_Payload_Data \<Rightarrow> sizer" where
  "DATA_Payload_Data_size x = s_all [BaseObjectRequest_size (dp_request x), s_octets (length (dp_data x))]"

definition ACKNACK_Payload_serialize :: "cdr \<Rightarrow> ACKNACK_Payload \<Rightarrow> writer" where
  "ACKNACK_Payload_serialize C x = w_all [w_u16 C (ak_first_unacked_seq_num x),
     w_octets [ak_nack_bitmap_0 x, ak_nack_bitmap_1 x], w_u8 (ak_stream_id x)]"

definition ACKNACK_Payload_deserialize :: "cdr \<Rightarrow> ACKNACK_Payload deser" where
  "ACKNACK_Payload_deserialize C = d_all [
     d_read (r_u16 C) (\<lambda>v x. x\<lparr>ak_first_unacked_seq_num := v\<rparr>),
     d_read r_pair (\<lambda>v x. x\<lparr>ak_nack_bitmap_0 := fst v, ak_nack_bitmap_1 := snd v\<rparr>),
     d_read r_u8 (\<lambda>v x. x\<lparr>ak_stream_id := v\<rparr>)]"

definition ACKNACK_Payload_size :: "ACKNACK_Payload \<Rightarrow> sizer" where
  "ACKNACK_Payload_size x = s_all [s_prim 2, s_octets 2, s_prim 1]"

definition HEARTBEAT_Payload_new :: HEARTBEAT_Payload where
  "HEARTBEAT_Payload_new = \<lparr>hb_first_unacked_seq_nr = 0, hb_last_unacked_seq_nr = 0, hb_stream_id = 0\<rparr>"

definition HEARTBEAT_Payload_serialize :: "cdr \<Rightarrow> HEARTBEAT_Payload \<Rightarrow> writer" where
  "HEARTBEAT_Payload_serialize C x = w_all [w_u16 C (hb_first_unacked_seq_nr x), w_u16 C (hb_last_unacked_seq_nr x),
     w_u8 (hb_stream_id x)]"

definition HEARTBEAT_Payload_deserialize :: "cdr \<Rightarrow> HEARTBEAT_Payload deser" where
  "HEARTBEAT_Payload_deserialize C = d_all [
     d_read (r_u16 C) (\<lambda>v x. x\<lparr>hb_first_unacked_seq_nr := v\<rparr>),
     d_read (r_u16 C) (\<lambda>v x. x\<lparr>hb_last_unacked_seq_nr := v\<rparr>),
     d_read r_u8 (\<lambda>v x. x\<lparr>hb_stream_id := v\<rparr>)]"

definition HEARTBEAT_Payload_size :: "HEARTBEAT_Payload \<Rightarrow> sizer" where
  "HEARTBEAT_Payload_size x = s_all [s_prim 2, s_prim 2, s_prim 1]"

text \<open>\<open>TIMESTAMP_Payload\<close> is the time it was sent.\<close>

definition TIMESTAMP_Payload_serialize :: "cdr \<Rightarrow> Time_t \<Rightarrow> writer" where
  "TIMESTAMP_Payload_serialize C x = w_all [Time_t_serialize C x]"

definition TIMESTAMP_Payload_deserialize :: "cdr \<Rightarrow> Time_t deser" where
  "TIMESTAMP_Payload_deserialize C = d_all [Time_t_deserialize C]"

record TIMESTAMP_REPLY_Payload =
  tr_transmit_timestamp :: Time_t
  tr_receive_timestamp :: Time_t
  tr_originate_timestamp :: Time_t

definition TIMESTAMP_REPLY_Payload_serialize :: "cdr \<Rightarrow> TIMESTAMP_REPLY_Payload \<Rightarrow> writer" where
  "TIMESTAMP_REPLY_Payload_serialize C x = w_all [Time_t_serialize C (tr_transmit_timestamp x),
     Time_t_serialize C (tr_receive_timestamp x), Time_t_serialize C (tr_originate_timestamp x)]"

definition TIMESTAMP_REPLY_Payload_size :: "TIMESTAMP_REPLY_Payload \<Rightarrow> sizer" where
  "TIMESTAMP_REPLY_Payload_size x = s_all [Time_t_size (tr_transmit_timestamp x), Time_t_size (tr_receive_timestamp x),
     Time_t_size (tr_originate_timestamp x)]"

subsection \<open>Payloads in messages\<close>

text \<open>A payload as the output streams take it; it starts at a multiple of four.\<close>

definition payload :: "writer \<Rightarrow> sizer \<Rightarrow> submessage" where
  "payload w s = \<lparr>sub_getCdrSerializedSize = s 0, sub_serialize = w 0\<rparr>"

definition get_payload :: "cdr \<Rightarrow> (cdr \<Rightarrow> 'a deser) \<Rightarrow> 'a \<Rightarrow> InputMessage \<Rightarrow> (bool \<times> 'a \<times> InputMessage) option" where
  "get_payload C d x0 m =
     (case d (cdr_endian (im_little_endian m) C) (im_buf m) (x0, im_pos m) of
        (None, x, q) \<Rightarrow> Some (True, x, m\<lparr>im_pos := q\<rparr>)
      | (Some NotEnoughMemory, x, q) \<Rightarrow> Some (False, x, m\<lparr>im_pos := q\<rparr>)
      | (Some BadParam, x, q) \<Rightarrow> None)"

subsection \<open>Round trips\<close>

lemma codes_eq: "codes w d x0 y \<Longrightarrow> y = x \<Longrightarrow> codes w d x0 x"
  by simp

lemma codes_nilI: "codes (w_all []) (d_all []) x x"
  by simp

context cdr_lib
begin

lemmas plain_codes = codes_cons codes_read reads_u8 reads_bool reads_u16 reads_u32 reads_pair codes_nilI

lemma Time_t_codes: "codes (Time_t_serialize C x) (Time_t_deserialize C) x0 x"
  unfolding Time_t_serialize_def Time_t_deserialize_def
  by (rule codes_eq, (rule plain_codes)+, cases x, cases x0, simp)

lemma BaseObjectRequest_codes: "codes (BaseObjectRequest_serialize x) BaseObjectRequest_deserialize x0 x"
  unfolding BaseObjectRequest_serialize_def BaseObjectRequest_deserialize_def
  by (rule codes_eq, (rule plain_codes)+, cases x, cases x0, simp)

lemma DataDeliveryControl_codes: "codes (DataDeliveryControl_serialize C x) (DataDeliveryControl_deserialize C) x0 x"
  unfolding DataDeliveryControl_serialize_def DataDeliveryControl_deserialize_def
  by (rule codes_eq, (rule plain_codes)+, cases x, cases x0, simp)

lemma HEARTBEAT_Payload_codes: "codes (HEARTBEAT_Payload_serialize C x) (HEARTBEAT_Payload_deserialize C) x0 x"
  unfolding HEARTBEAT_Payload_serialize_def HEARTBEAT_Payload_deserialize_def
  by (rule codes_eq, (rule plain_codes)+, cases x, cases x0, simp)

lemma ACKNACK_Payload_codes: "codes (ACKNACK_Payload_serialize C x) (ACKNACK_Payload_deserialize C) x0 x"
proof -
  have "w_octets [ak_nack_bitmap_0 x, ak_nack_bitmap_1 x] = w_pair (ak_nack_bitmap_0 x, ak_nack_bitmap_1 x)"
    by (simp add: w_pair_def)
  then show ?thesis unfolding ACKNACK_Payload_serialize_def ACKNACK_Payload_deserialize_def
    by (simp only:) (rule codes_eq, (rule plain_codes)+, cases x, cases x0, simp)
qed

lemma TIMESTAMP_Payload_codes: "codes (TIMESTAMP_Payload_serialize C x) (TIMESTAMP_Payload_deserialize C) x0 x"
  unfolding TIMESTAMP_Payload_serialize_def TIMESTAMP_Payload_deserialize_def
  by (rule Time_t_codes plain_codes)+

lemma GET_INFO_Payload_codes: "codes (GET_INFO_Payload_serialize C x) (GET_INFO_Payload_deserialize C) x0 x"
  unfolding GET_INFO_Payload_serialize_def GET_INFO_Payload_deserialize_def
  by (rule codes_eq, (rule codes_member BaseObjectRequest_codes plain_codes)+, cases x, cases x0, simp)

lemma WRITE_DATA_Payload_Data_codes:
  assumes "length (dp_data x0) = length (dp_data x)"
  shows "codes (DATA_Payload_Data_serialize x) (WRITE_DATA_Payload_Data_deserialize C) x0 x"
  unfolding DATA_Payload_Data_serialize_def WRITE_DATA_Payload_Data_deserialize_def
  by (rule codes_eq, rule codes_cons, rule codes_member, rule BaseObjectRequest_codes, rule codes_cons, rule codes_case,
      rule codes_read, rule reads_octets) (use assms in \<open>auto\<close>)

lemma Property_reads:
  assumes "length (fst x) + 1 < 2 ^ 32" and "length (snd x) + 1 < 2 ^ 32"
  shows "reads (Property_serialize C x) (r_fresh (Property_deserialize C) ([], [])) x"
  unfolding Property_serialize_def Property_deserialize_def
  by (rule reads_fresh, rule codes_eq, rule codes_cons, rule codes_read, rule reads_string [OF assms(1)], rule codes_cons,
      rule codes_read, rule reads_string [OF assms(2)], rule codes_nilI) simp

lemma properties_read:
  assumes "length ps < 2 ^ 32 \<and> list_all (\<lambda>(n, v). length n + 1 < 2 ^ 32 \<and> length v + 1 < 2 ^ 32) ps"
  shows "reads (w_vector C (Property_serialize C) ps) (r_properties C) ps"
  unfolding r_properties_def using assms
  by (intro reads_vector Property_reads) (auto simp: list_all_iff)

lemma AGENT_Representation_codes:
  assumes "AGENT_Representation_ok x" and "ar_properties x0 = None"
  shows "codes (AGENT_Representation_serialize C x) (AGENT_Representation_deserialize C) x0 x"
proof -
  have "reads (w_vector C (Property_serialize C) ps) (r_properties C) ps" if "ar_properties x = Some ps" for ps
    using assms(1) that by (intro properties_read) (simp add: AGENT_Representation_ok_def)
  note props = codes_optional [OF this]
  have "length (ar_xrce_cookie x) = 4" "length (ar_xrce_version x) = 2" "length (ar_xrce_vendor_id x) = 2"
    using assms(1) by (simp_all add: AGENT_Representation_ok_def)
  note octets = this [THEN reads_octets]
  show ?thesis unfolding AGENT_Representation_serialize_def AGENT_Representation_deserialize_def
    by (rule codes_eq, (rule codes_cons codes_read octets props codes_nilI)+)
      (use assms(2) in \<open>auto split: option.split\<close>)
qed

lemma CLIENT_Representation_codes:
  assumes "CLIENT_Representation_ok x" and "cr_properties x0 = None"
  shows "codes (CLIENT_Representation_serialize C x) (CLIENT_Representation_deserialize C) x0 x"
proof -
  have "reads (w_vector C (Property_serialize C) ps) (r_properties C) ps" if "cr_properties x = Some ps" for ps
    using assms(1) that by (intro properties_read) (simp add: CLIENT_Representation_ok_def)
  note props = codes_optional [OF this]
  have "length (cr_xrce_cookie x) = 4" "length (cr_xrce_version x) = 2" "length (cr_xrce_vendor_id x) = 2" "length (cr_client_key x) = 4"
    using assms(1) by (simp_all add: CLIENT_Representation_ok_def)
  note octets = this [THEN reads_octets]
  let ?y = "x0\<lparr>cr_xrce_cookie := cr_xrce_cookie x, cr_xrce_version := cr_xrce_version x,
    cr_xrce_vendor_id := cr_xrce_vendor_id x, cr_client_key := cr_client_key x, cr_session_id := cr_session_id x\<rparr>"
  have "codes (CLIENT_Representation_serialize C x) (CLIENT_Representation_deserialize C) x0
      ((case cr_properties x of None \<Rightarrow> ?y | Some v \<Rightarrow> ?y\<lparr>cr_properties := Some v\<rparr>)\<lparr>cr_mtu := cr_mtu x\<rparr>)"
    unfolding CLIENT_Representation_serialize_def CLIENT_Representation_deserialize_def
    by (rule codes_cons codes_read octets reads_u8 reads_u16 props codes_nilI | assumption)+
  moreover have "(case cr_properties x of None \<Rightarrow> ?y | Some v \<Rightarrow> ?y\<lparr>cr_properties := Some v\<rparr>)\<lparr>cr_mtu := cr_mtu x\<rparr> = x"
    using assms(2) by (cases x; cases x0) (auto split: option.split)
  ultimately show ?thesis by simp
qed

lemma Representation_alternative:
  assumes "f (Other_format d) = d_read rd upd" and "reads w rd v"
  shows "codes (w_all [w_u8 d, w]) (d_all [d_read r_u8 (\<lambda>d r. Other_format d), d_case f]) r0 (upd v (Other_format d))"
  using assms by (intro codes_cons [OF codes_read [OF reads_u8]] codes_cons [OF codes_case] codes_nilI) (simp_all add: codes_read)

lemma Representation_codes:
  assumes "Representation_ok ds r"
  shows "codes (Representation_serialize C r) (Representation_deserialize ds C) r0 r"
proof -
  show ?thesis
  proof (cases r)
    case (By_reference s)
    then show ?thesis using assms reads_string [of s] unfolding Representation_serialize_def Representation_deserialize_def
      by simp (rule Representation_alternative [where upd = "\<lambda>s r. By_reference s"], simp_all)
  next
    case (As_xml_string s)
    then show ?thesis using assms reads_string [of s] unfolding Representation_serialize_def Representation_deserialize_def
      by simp (rule Representation_alternative [where upd = "\<lambda>s r. As_xml_string s"], simp_all)
  next
    case (In_binary bs)
    then show ?thesis using assms reads_bytes [of bs] unfolding Representation_serialize_def Representation_deserialize_def
      by simp (rule Representation_alternative [where upd = "\<lambda>s r. In_binary s"], simp_all)
  next
    case (Other_format d)
    have "codes (w_all [w_u8 d, w_all []]) (Representation_deserialize ds C) r0 (Other_format d)"
      unfolding Representation_deserialize_def using assms Other_format
      by (intro codes_cons [OF codes_read [OF reads_u8]] codes_cons [OF codes_case] codes_nilI) (auto simp: codes_skip)
    with Other_format show ?thesis by (simp add: Representation_serialize_def codes_def)
  qed
qed

lemma ReadSpecification_codes:
  assumes "case rsp_content_filter_expression x of None \<Rightarrow> True | Some t \<Rightarrow> length t + 1 < 2 ^ 32"
    and "rsp_content_filter_expression x0 = None" and "rsp_delivery_control x0 = None"
  shows "codes (ReadSpecification_serialize C x) (ReadSpecification_deserialize C) x0 x"
proof -
  have "reads (w_string C t) (r_string C) t" if "rsp_content_filter_expression x = Some t" for t
    using assms(1) that by (intro reads_string) simp
  note filter = codes_optional [OF this]
  have "reads (DataDeliveryControl_serialize C c) (r_fresh (DataDeliveryControl_deserialize C) DataDeliveryControl_new) c" for c
    by (rule reads_fresh [OF DataDeliveryControl_codes])
  note control = codes_optional [OF this]
  have "\<exists>y. codes (ReadSpecification_serialize C x) (ReadSpecification_deserialize C) x0 y \<and> y = x"
    unfolding ReadSpecification_serialize_def ReadSpecification_deserialize_def
    by (rule exI, rule conjI, (rule codes_cons codes_read reads_u8 filter control codes_nilI | assumption)+)
      (insert assms(2,3), cases x; cases x0; auto split: option.split)
  then show ?thesis by blast
qed

lemma READ_DATA_Payload_codes:
  assumes "case rsp_content_filter_expression (rd_read_specification x) of None \<Rightarrow> True | Some t \<Rightarrow> length t + 1 < 2 ^ 32"
  shows "codes (READ_DATA_Payload_serialize C x) (READ_DATA_Payload_deserialize C) READ_DATA_Payload_new x"
  unfolding READ_DATA_Payload_serialize_def READ_DATA_Payload_deserialize_def
  by (rule codes_eq, rule codes_cons, rule codes_member, rule BaseObjectRequest_codes, rule codes_cons, rule codes_member,
      rule ReadSpecification_codes [OF assms], simp_all add: READ_DATA_Payload_new_def ReadSpecification_new_def codes_nilI)

lemma ObjectVariant_codes:
  assumes "ObjectVariant_ok x" and "ar_properties (ov_agent x0) = None" and "cr_properties (ov_client x0) = None"
  shows "codes (ObjectVariant_serialize C x) (ObjectVariant_deserialize C) x0 (ov_copy x x0)"
proof -
  let ?body = "\<lambda>x. case object_class (ov_d x) of
        Class_agent \<Rightarrow> d_all [d_member (AGENT_Representation_deserialize C) ov_agent (\<lambda>v x. x\<lparr>ov_agent := v\<rparr>)]
      | Class_client \<Rightarrow> d_all [d_member (CLIENT_Representation_deserialize C) ov_client (\<lambda>v x. x\<lparr>ov_client := v\<rparr>)]
      | Class_described \<Rightarrow> d_all [d_representation [1, 2] C]
      | Class_participant \<Rightarrow> d_all [d_representation [1, 2, 3] C, d_read (r_u16 C) (\<lambda>v x. x\<lparr>ov_domain_id := v\<rparr>)]
      | Class_child ds \<Rightarrow> d_all [d_representation ds C, d_read r_pair (\<lambda>v x. x\<lparr>ov_parent := v\<rparr>)]
      | Class_none \<Rightarrow> d_all []"
  let ?ws = "case object_class (ov_d x) of
        Class_agent \<Rightarrow> [AGENT_Representation_serialize C (ov_agent x)]
      | Class_client \<Rightarrow> [CLIENT_Representation_serialize C (ov_client x)]
      | Class_described \<Rightarrow> [Representation_serialize C (ov_representation x)]
      | Class_participant \<Rightarrow> [Representation_serialize C (ov_representation x), w_u16 C (ov_domain_id x)]
      | Class_child ds \<Rightarrow> [Representation_serialize C (ov_representation x), w_pair (ov_parent x)]
      | Class_none \<Rightarrow> []"
  let ?x1 = "x0\<lparr>ov_d := ov_d x\<rparr>"
  have rep: "codes (Representation_serialize C r) (d_representation ds C) y (y\<lparr>ov_representation := r\<rparr>)"
    if "Representation_ok ds r" for ds r y
    unfolding d_representation_def by (rule codes_member [OF Representation_codes [OF that]])
  have "codes (w_all ?ws) (?body ?x1) ?x1 (ov_copy x x0)"
  proof (cases "object_class (ov_d x)")
    case Class_agent
    then show ?thesis using assms by (simp add: ov_copy_def Let_def ObjectVariant_ok_def)
        (rule codes_eq, rule codes_cons, rule codes_member, rule AGENT_Representation_codes, assumption, simp, rule codes_nilI, simp)
  next
    case Class_client
    then show ?thesis using assms by (simp add: ov_copy_def Let_def ObjectVariant_ok_def)
        (rule codes_eq, rule codes_cons, rule codes_member, rule CLIENT_Representation_codes, assumption, simp, rule codes_nilI, simp)
  next
    case Class_described
    then show ?thesis using assms by (simp add: ov_copy_def Let_def ObjectVariant_ok_def) (rule codes_eq, rule codes_cons, rule rep, assumption, rule codes_nilI, simp)
  next
    case Class_participant
    then show ?thesis using assms
      by (simp add: ov_copy_def Let_def ObjectVariant_ok_def)
        (rule codes_eq, rule codes_cons, rule rep, assumption, rule codes_cons, rule codes_read, rule reads_u16, rule codes_nilI, simp)
  next
    case (Class_child ds)
    then show ?thesis using assms
      by (simp add: ov_copy_def Let_def ObjectVariant_ok_def)
        (rule codes_eq, rule codes_cons, rule rep, assumption, rule codes_cons, rule codes_read, rule reads_pair, rule codes_nilI, simp)
  qed (simp add: ov_copy_def Let_def)
  then have "codes (w_all [w_u8 (ov_d x), w_all ?ws]) (ObjectVariant_deserialize C) x0 (ov_copy x x0)"
    unfolding ObjectVariant_deserialize_def
    by - (rule codes_cons [OF codes_read [OF reads_u8]], rule codes_cons [OF codes_case], assumption, rule codes_nilI)
  then show ?thesis unfolding ObjectVariant_serialize_def by (simp add: codes_def)
qed

lemma CREATE_Payload_codes:
  assumes "ObjectVariant_ok (cp_object_representation x)"
    and "ar_properties (ov_agent (cp_object_representation x0)) = None" and "cr_properties (ov_client (cp_object_representation x0)) = None"
  shows "codes (CREATE_Payload_serialize C x) (CREATE_Payload_deserialize C) x0
    \<lparr>cp_request = cp_request x, cp_object_representation = ov_copy (cp_object_representation x) (cp_object_representation x0)\<rparr>"
  unfolding CREATE_Payload_serialize_def CREATE_Payload_deserialize_def
  by (rule codes_eq, rule codes_cons, rule codes_member, rule BaseObjectRequest_codes, rule codes_cons, rule codes_member,
      rule ObjectVariant_codes [OF assms(1)], use assms(2,3) in \<open>simp_all add: codes_nilI\<close>)

subsection \<open>Sizes\<close>

lemma sized_nested: "sized w s \<Longrightarrow> sized (w_all [w]) (s_all [s])"
  by (intro sized_all) simp

lemma BaseObjectRequest_sized: "sized (BaseObjectRequest_serialize x) (BaseObjectRequest_size x)"
  unfolding BaseObjectRequest_serialize_def BaseObjectRequest_size_def by (intro sized_all) (simp add: sized_pair)

lemma ResultStatus_sized: "sized (ResultStatus_serialize x) (ResultStatus_size x)"
  unfolding ResultStatus_serialize_def ResultStatus_size_def by (intro sized_all) (simp add: sized_u8 del: One_nat_def)

lemma BaseObjectReply_sized: "sized (BaseObjectReply_serialize x) (BaseObjectReply_size x)"
  unfolding BaseObjectReply_serialize_def BaseObjectReply_size_def
  by (intro sized_all) (simp add: BaseObjectRequest_sized ResultStatus_sized)

lemma Time_t_sized: "sized (Time_t_serialize C x) (Time_t_size x)"
  unfolding Time_t_serialize_def Time_t_size_def by (intro sized_all) (simp add: sized_u32)

lemma AGENT_Representation_sized:
  assumes "AGENT_Representation_ok x" and "ar_properties x = None"
  shows "sized (AGENT_Representation_serialize C x) (AGENT_Representation_size x)"
proof -
  have "sized (w_optional C (w_vector C (Property_serialize C)) (ar_properties x)) (s_all [s_prim 1])"
    using sized_optional [of "ar_properties x"] assms(2) by simp
  then have "sized (AGENT_Representation_serialize C x) (s_all [s_octets 4, s_octets 2, s_octets 2, s_all [s_prim 1]])"
    unfolding AGENT_Representation_serialize_def using assms(1)
    by (intro sized_all) (simp add: sized_octets AGENT_Representation_ok_def)
  then show ?thesis using assms(2) by (simp add: sized_def AGENT_Representation_size_def)
qed

lemma TransportAddress_sized: "TransportAddress_ok a \<Longrightarrow> sized (TransportAddress_serialize C a) (TransportAddress_size a)"
  by (cases a) (auto intro!: sized_all simp: sized_octets sized_u8 sized_u16 sized_u32 sized_string simp del: One_nat_def)

lemma AGENT_ActivityInfo_sized:
  assumes "list_all TransportAddress_ok (ai_address_seq x)"
  shows "sized (AGENT_ActivityInfo_serialize C x) (AGENT_ActivityInfo_size x)"
proof -
  have "sized (w_vector C (TransportAddress_serialize C) (ai_address_seq x))
      (s_all (s_prim 4 # map TransportAddress_size (ai_address_seq x)))"
    using assms by (intro sized_vector TransportAddress_sized) (simp add: list_all_iff)
  then have "sized (AGENT_ActivityInfo_serialize C x) (s_all [s_prim 2, s_all (s_prim 4 # map TransportAddress_size (ai_address_seq x))])"
    unfolding AGENT_ActivityInfo_serialize_def by (intro sized_all) (simp add: sized_u16)
  then show ?thesis by (simp add: sized_def AGENT_ActivityInfo_size_def)
qed

lemma ObjectInfo_sized:
  assumes "\<And>c. oi_config x = Some c \<Longrightarrow> sized (ObjectVariant_serialize C c) (ObjectVariant_size c)"
    and "\<And>a. oi_activity x = Some a \<Longrightarrow> list_all TransportAddress_ok (ai_address_seq a)"
  shows "sized (ObjectInfo_serialize C x) (ObjectInfo_size x)"
proof -
  have "sized (ActivityInfoVariant_serialize C a) (ActivityInfoVariant_size a)" if "oi_activity x = Some a" for a
    unfolding ActivityInfoVariant_serialize_def ActivityInfoVariant_size_def
    using AGENT_ActivityInfo_sized [OF assms(2) [OF that]] by (intro sized_all) (simp add: sized_u8 del: One_nat_def)
  then have "sized (ObjectInfo_serialize C x)
      (s_all [s_all (s_prim 1 # (case oi_config x of None \<Rightarrow> [] | Some c \<Rightarrow> [ObjectVariant_size c])),
              s_all (s_prim 1 # (case oi_activity x of None \<Rightarrow> [] | Some a \<Rightarrow> [ActivityInfoVariant_size a]))])"
    unfolding ObjectInfo_serialize_def using assms(1) by (intro sized_all) (simp add: sized_optional del: One_nat_def)
  then show ?thesis by (auto simp: sized_def ObjectInfo_size_def add.assoc split: option.split)
qed

lemma agent_variant_sized:
  assumes "ov_d c = 0x0D" and "AGENT_Representation_ok (ov_agent c)" and "ar_properties (ov_agent c) = None"
  shows "sized (ObjectVariant_serialize C c) (ObjectVariant_size c)"
  unfolding ObjectVariant_serialize_def ObjectVariant_size_def using assms
  by (intro sized_all) (simp add: object_class_def AGENT_Representation_sized sized_u8 del: One_nat_def)

end

subsection \<open>Replies\<close>

text \<open>The submessages the agent sends, with their identifiers.\<close>

datatype reply =
    Reply_STATUS_AGENT STATUS_AGENT_Payload
  | Reply_STATUS BaseObjectReply
  | Reply_INFO INFO_Payload
  | Reply_DATA DATA_Payload_Data
  | Reply_ACKNACK ACKNACK_Payload
  | Reply_HEARTBEAT HEARTBEAT_Payload
  | Reply_TIMESTAMP_REPLY TIMESTAMP_REPLY_Payload
  | Reply_GET_INFO GET_INFO_Payload

fun reply_id :: "reply \<Rightarrow> u8" where
  "reply_id (Reply_STATUS_AGENT _) = 4"
| "reply_id (Reply_STATUS _) = 5"
| "reply_id (Reply_INFO _) = 6"
| "reply_id (Reply_DATA _) = 9"
| "reply_id (Reply_ACKNACK _) = 10"
| "reply_id (Reply_HEARTBEAT _) = 11"
| "reply_id (Reply_TIMESTAMP_REPLY _) = 15"
| "reply_id (Reply_GET_INFO _) = 2"

fun reply_writer :: "cdr \<Rightarrow> reply \<Rightarrow> writer" where
  "reply_writer C (Reply_STATUS_AGENT x) = STATUS_AGENT_Payload_serialize C x"
| "reply_writer C (Reply_STATUS x) = STATUS_Payload_serialize x"
| "reply_writer C (Reply_INFO x) = INFO_Payload_serialize C x"
| "reply_writer C (Reply_DATA x) = DATA_Payload_Data_serialize x"
| "reply_writer C (Reply_ACKNACK x) = ACKNACK_Payload_serialize C x"
| "reply_writer C (Reply_HEARTBEAT x) = HEARTBEAT_Payload_serialize C x"
| "reply_writer C (Reply_TIMESTAMP_REPLY x) = TIMESTAMP_REPLY_Payload_serialize C x"
| "reply_writer C (Reply_GET_INFO x) = GET_INFO_Payload_serialize C x"

fun reply_sizer :: "reply \<Rightarrow> sizer" where
  "reply_sizer (Reply_STATUS_AGENT x) = STATUS_AGENT_Payload_size x"
| "reply_sizer (Reply_STATUS x) = STATUS_Payload_size x"
| "reply_sizer (Reply_INFO x) = INFO_Payload_size x"
| "reply_sizer (Reply_DATA x) = DATA_Payload_Data_size x"
| "reply_sizer (Reply_ACKNACK x) = ACKNACK_Payload_size x"
| "reply_sizer (Reply_HEARTBEAT x) = HEARTBEAT_Payload_size x"
| "reply_sizer (Reply_TIMESTAMP_REPLY x) = TIMESTAMP_REPLY_Payload_size x"
| "reply_sizer (Reply_GET_INFO x) = GET_INFO_Payload_size x"

definition reply_submessage :: "cdr \<Rightarrow> reply \<Rightarrow> submessage" where
  "reply_submessage C r = payload (reply_writer C r) (reply_sizer r)"

text \<open>A message of its own for a reply, in a buffer of the computed size.\<close>

definition reply_message :: "cdr \<Rightarrow> MessageHeader \<Rightarrow> reply \<Rightarrow> bool \<times> OutputMessage" where
  "reply_message C h r = append_submessage C (reply_id r) (reply_submessage C r) FLAG_LITTLE_ENDIANNESS
     (OutputMessage_new C h (mh_getCdrSerializedSize h + sh_getCdrSerializedSize SubmessageHeader_new + reply_sizer r 0))"

text \<open>The replies the agent forms: an agent without properties, arrays of their length.\<close>

fun reply_ok :: "reply \<Rightarrow> bool" where
  "reply_ok (Reply_STATUS_AGENT x) \<longleftrightarrow> AGENT_Representation_ok (sa_agent_info x) \<and> ar_properties (sa_agent_info x) = None"
| "reply_ok (Reply_INFO x) \<longleftrightarrow>
     (case oi_config (ip_object_info x) of None \<Rightarrow> True
      | Some c \<Rightarrow> ov_d c = 0x0D \<and> AGENT_Representation_ok (ov_agent c) \<and> ar_properties (ov_agent c) = None)
     \<and> (case oi_activity (ip_object_info x) of None \<Rightarrow> True | Some a \<Rightarrow> list_all TransportAddress_ok (ai_address_seq a))"
| "reply_ok _ \<longleftrightarrow> True"

context cdr_lib
begin

lemma reply_sized:
  assumes "reply_ok r"
  shows "sized (reply_writer C r) (reply_sizer r)"
proof (cases r)
  case (Reply_STATUS_AGENT x)
  with assms show ?thesis
    by (auto simp: STATUS_AGENT_Payload_serialize_def STATUS_AGENT_Payload_size_def AGENT_Representation_sized
        ResultStatus_sized intro!: sized_all)
next
  case (Reply_STATUS x)
  then show ?thesis using BaseObjectReply_sized [of x]
    by (simp add: STATUS_Payload_serialize_def STATUS_Payload_size_def sized_def)
next
  case (Reply_INFO x)
  have "sized (ObjectInfo_serialize C (ip_object_info x)) (ObjectInfo_size (ip_object_info x))"
    using assms Reply_INFO by (intro ObjectInfo_sized agent_variant_sized) auto
  with Reply_INFO show ?thesis
    by (auto simp: INFO_Payload_serialize_def INFO_Payload_size_def BaseObjectReply_sized intro!: sized_all)
next
  case (Reply_DATA x)
  then show ?thesis
    by (auto simp: DATA_Payload_Data_serialize_def DATA_Payload_Data_size_def BaseObjectRequest_sized sized_octets intro!: sized_all)
next
  case (Reply_ACKNACK x)
  then show ?thesis
    by (auto simp: ACKNACK_Payload_serialize_def ACKNACK_Payload_size_def sized_u16 sized_u8 sized_octets simp del: One_nat_def
        intro!: sized_all)
next
  case (Reply_HEARTBEAT x)
  then show ?thesis
    by (auto simp: HEARTBEAT_Payload_serialize_def HEARTBEAT_Payload_size_def sized_u16 sized_u8 simp del: One_nat_def
        intro!: sized_all)
next
  case (Reply_TIMESTAMP_REPLY x)
  then show ?thesis
    by (auto simp: TIMESTAMP_REPLY_Payload_serialize_def TIMESTAMP_REPLY_Payload_size_def Time_t_sized intro!: sized_all)
next
  case (Reply_GET_INFO x)
  then show ?thesis
    by (auto simp: GET_INFO_Payload_serialize_def GET_INFO_Payload_size_def BaseObjectRequest_sized sized_u32 intro!: sized_all)
qed

end

text \<open>C26: the size methods of all payloads the agent sends are exact: a reply put into a message of its own,
  whose buffer is allocated from the computed sizes, is written completely (no serialisation error, no
  truncation) and fills the buffer to the last octet, and its submessage header announces the length written.\<close>

theorem replies_fit_exactly:
  assumes "cdr_lib C" and "header_ok h" and "reply_ok r"
  shows "reply_message C h r = (True, \<lparr>om_bytes = concat (mh_serialize C h)
      @ concat (sh_serialize C \<lparr>sh_submessage_id = reply_id r, sh_flags = FLAG_LITTLE_ENDIANNESS,
           sh_submessage_length = of_nat (length (concat (reply_writer C r 0)))\<rparr>)
      @ concat (reply_writer C r 0),
      om_capacity = mh_getCdrSerializedSize h + 4 + length (concat (reply_writer C r 0))\<rparr>)"
proof -
  have n: "reply_sizer r 0 = length (concat (reply_writer C r 0))"
    using cdr_lib.reply_sized [OF assms(1,3)] by (simp add: sized_def)
  show ?thesis unfolding reply_message_def reply_submessage_def payload_def
    by (subst cdr_lib.append_submessage_bytes [OF assms(1,2)]) (simp_all add: n del: length_concat)
qed

theorem replies_fit_exactly_witness:
  "fst (reply_message cdr_little \<lparr>mh_session_id = 0x81, mh_stream_id = 0, mh_sequence_nr = 0, mh_client_key = [0, 0, 0, 0]\<rparr>
     (Reply_HEARTBEAT \<lparr>hb_first_unacked_seq_nr = 1, hb_last_unacked_seq_nr = 3, hb_stream_id = 0x80\<rparr>)) = True"
proof -
  have ok: "header_ok \<lparr>mh_session_id = 0x81, mh_stream_id = 0, mh_sequence_nr = 0, mh_client_key = [0, 0, 0, 0]\<rparr>"
    by (simp add: header_ok_def)
  show ?thesis by (simp add: replies_fit_exactly [OF cdr_little.cdr_lib_axioms ok])
qed

subsection \<open>Requests\<close>

text \<open>Writers only depend on the position modulo four.\<close>

definition periodic :: "writer \<Rightarrow> bool" where
  "periodic w \<longleftrightarrow> (\<forall>p k. w (p + 4 * k) = w p)"

lemma alignment_periodic:
  "cdr_alignment (p + 4 * k) 2 = cdr_alignment p 2" "cdr_alignment (p + 4 * k) 4 = cdr_alignment p 4"
proof -
  have "(p + 4 * k) mod 2 = p mod 2" by presburger
  then show "cdr_alignment (p + 4 * k) 2 = cdr_alignment p 2" by (simp add: cdr_alignment_def)
  show "cdr_alignment (p + 4 * k) 4 = cdr_alignment p 4" by (simp add: cdr_alignment_def)
qed

lemma periodic_prims [simp]:
  "periodic (w_u8 x)" "periodic (w_bool C b)" "periodic (w_octets xs)" "periodic (w_pair i)" "periodic (w_u16 C y)"
  "periodic (w_u32 C z)" "periodic (w_string C t)" "periodic (w_bytes C xs)"
  by (simp_all add: periodic_def w_u8_def w_bool_def w_octets_def w_pair_def w_u16_def w_u32_def w_string_def
      w_bytes_def alignment_periodic)

lemma periodic_all: "list_all periodic ws \<Longrightarrow> periodic (w_all ws)"
proof (induction ws)
  case (Cons w ws)
  then have w: "w (p + 4 * k) = w p" and ws: "w_all ws (p + 4 * k) = w_all ws p" for p k by (simp_all add: periodic_def)
  show ?case unfolding periodic_def
  proof (intro allI)
    fix p k
    have "p + 4 * k + length (concat (w p)) = (p + length (concat (w p))) + 4 * k" by simp
    then show "w_all (w # ws) (p + 4 * k) = w_all (w # ws) p" by (simp only: w_all.simps w ws)
  qed
qed (simp add: periodic_def)

lemma periodic_vector:
  assumes "\<And>v. v \<in> set vs \<Longrightarrow> periodic (w v)"
  shows "periodic (w_vector C w vs)"
proof -
  have "periodic (w_all (w_u32 C (of_nat (length vs)) # map w vs))"
    using assms by (intro periodic_all) (simp add: list_all_iff)
  then show ?thesis by (simp add: periodic_def w_vector_def del: w_all.simps)
qed

lemma periodic_optional: "(\<And>v. periodic (w v)) \<Longrightarrow> periodic (w_optional C w x)"
  unfolding w_optional_def by (rule periodic_all) (simp split: option.split)

lemma periodic_properties: "periodic (w_vector C (Property_serialize C) ps)"
  by (intro periodic_vector) (simp add: Property_serialize_def periodic_all)

lemma CREATE_Payload_periodic: "periodic (CREATE_Payload_serialize C x)"
  unfolding CREATE_Payload_serialize_def BaseObjectRequest_serialize_def ObjectVariant_serialize_def
    Representation_serialize_def AGENT_Representation_serialize_def CLIENT_Representation_serialize_def
  by (auto intro!: periodic_all periodic_optional periodic_properties split: object_class.split representation.split)

context cdr_lib
begin

lemma received_payload:
  assumes "header_ok h" and "odd (unat fl)" and "periodic w" and "codes w (d C) x0 x"
    and "mh_getCdrSerializedSize h + 4 + length (concat (w 0)) \<le> len"
  shows "\<exists>m r r'. append_submessage C i (payload w s) fl (OutputMessage_new C h len) = (True, m)
    \<and> im_header (InputMessage_new C (om_bytes m)) = (if mh_session_id h < 128 then h else h\<lparr>mh_client_key := [0, 0, 0, 0]\<rparr>)
    \<and> prepare_next_submessage C (InputMessage_new C (om_bytes m)) = (True, r)
    \<and> sh_submessage_id (im_subheader r) = i \<and> get_payload C d x0 r = Some (True, x, r')"
proof -
  let ?sh = "\<lparr>sh_submessage_id = i, sh_flags = fl, sh_submessage_length = of_nat (s 0)\<rparr> :: SubmessageHeader"
  let ?pre = "concat (mh_serialize C h) @ concat (sh_serialize C ?sh)"
  define buf where "buf = concat (mh_serialize C h) @ concat (sh_serialize C ?sh) @ concat (w 0)"
  have m: "append_submessage C i (payload w s) fl (OutputMessage_new C h len) = (True, \<lparr>om_bytes = buf, om_capacity = len\<rparr>)"
    using append_submessage_bytes [OF assms(1), of "payload w s" len i fl] assms(5) by (simp add: buf_def payload_def)
  note parts = InputMessage_parts [OF assms(1) buf_def]
  obtain r where r: "prepare_next_submessage C (InputMessage_new C buf) = (True, r)" "im_subheader r = ?sh"
      "im_pos r = mh_getCdrSerializedSize h + 4" "im_buf r = buf" using parts(4) by blast
  have len: "length ?pre = mh_getCdrSerializedSize h + 4"
    by (simp only: length_append mh_serialize_length [OF assms(1)] sh_serialize_length)
  obtain k where k: "length ?pre = 0 + 4 * k" unfolding len by (cases "mh_session_id h < 128") (auto simp: mh_size intro: that [of 3] that [of 2])
  then have "w (length ?pre) = w 0" using assms(3) unfolding periodic_def by metis
  then have "d C buf (x0, length ?pre) = (None, x, length ?pre + length (concat (w 0)))"
    using codesD [OF assms(4), of ?pre "[]"] by (simp add: buf_def)
  moreover have "im_little_endian r"
    using r(1,2) assms(2) by (auto simp: prepare_next_submessage_def Let_def split: if_splits prod.splits)
  ultimately have "get_payload C d x0 r = Some (True, x, r\<lparr>im_pos := length ?pre + length (concat (w 0))\<rparr>)"
    using r(3,4) len by (simp add: get_payload_def cdr_endian_def)
  then show ?thesis using m parts(2) r(1,2) by auto
qed

end

text \<open>C27: round trip of a creation request: a client's \<open>CREATE\<close> submessage, with any kind of object and any
  representation, put into a message with a header and sent in little-endian order, arrives as it was sent.  The
  receiver finds the submessage and decodes the request identifier, the object identifier, the kind and the members
  of that kind.\<close>

theorem create_request_roundtrip:
  assumes "cdr_lib C" and "header_ok h" and "odd (unat fl)" and "ObjectVariant_ok (cp_object_representation x)"
    and "ar_properties (ov_agent (cp_object_representation x0)) = None"
    and "cr_properties (ov_client (cp_object_representation x0)) = None"
    and "mh_getCdrSerializedSize h + 4 + length (concat (CREATE_Payload_serialize C x 0)) \<le> len"
  shows "\<exists>m r r'. append_submessage C 1 (payload (CREATE_Payload_serialize C x) (CREATE_Payload_size x)) fl (OutputMessage_new C h len) = (True, m)
    \<and> im_header (InputMessage_new C (om_bytes m)) = (if mh_session_id h < 128 then h else h\<lparr>mh_client_key := [0, 0, 0, 0]\<rparr>)
    \<and> prepare_next_submessage C (InputMessage_new C (om_bytes m)) = (True, r)
    \<and> sh_submessage_id (im_subheader r) = 1
    \<and> get_payload C CREATE_Payload_deserialize x0 r = Some (True, \<lparr>cp_request = cp_request x,
        cp_object_representation = ov_copy (cp_object_representation x) (cp_object_representation x0)\<rparr>, r')"
  by (rule cdr_lib.received_payload [where d = CREATE_Payload_deserialize, OF assms(1-3) CREATE_Payload_periodic cdr_lib.CREATE_Payload_codes [OF assms(1,4-6)] assms(7)])

definition example_variant :: ObjectVariant where
  "example_variant = \<lparr>ov_d = 1, ov_agent = AGENT_Representation_new [], ov_client = CLIENT_Representation_new [],
     ov_domain_id = 0, ov_parent = (0, 0), ov_representation = As_xml_string ''p'', ov_endianness = True\<rparr>"

definition example_request :: CREATE_Payload where
  "example_request = \<lparr>cp_request = \<lparr>bo_request_id = (0, 10), bo_object_id = (0, 0x10)\<rparr>, cp_object_representation = example_variant\<rparr>"

theorem create_request_roundtrip_witness:
  "\<exists>m r r'. append_submessage cdr_little 1 (payload (CREATE_Payload_serialize cdr_little example_request) (CREATE_Payload_size example_request)) 1
       (OutputMessage_new cdr_little \<lparr>mh_session_id = 0x81, mh_stream_id = 0x80, mh_sequence_nr = 0, mh_client_key = [0, 0, 0, 0]\<rparr> 64) = (True, m)
    \<and> prepare_next_submessage cdr_little (InputMessage_new cdr_little (om_bytes m)) = (True, r)
    \<and> get_payload cdr_little CREATE_Payload_deserialize example_request r = Some (True, example_request, r')"
proof -
  let ?h = "\<lparr>mh_session_id = 0x81, mh_stream_id = 0x80, mh_sequence_nr = 0, mh_client_key = [0, 0, 0, 0]\<rparr> :: MessageHeader"
  have hyps: "header_ok ?h" "odd (unat (1 :: u8))" "ObjectVariant_ok (cp_object_representation example_request)"
      "ar_properties (ov_agent (cp_object_representation example_request)) = None"
      "cr_properties (ov_client (cp_object_representation example_request)) = None"
    by (simp_all add: header_ok_def example_request_def example_variant_def ObjectVariant_ok_def object_class_def
        AGENT_Representation_new_def CLIENT_Representation_new_def)
  have len: "mh_getCdrSerializedSize ?h + 4 + length (concat (CREATE_Payload_serialize cdr_little example_request 0)) \<le> 64"
    by (simp add: mh_size CREATE_Payload_serialize_def BaseObjectRequest_serialize_def ObjectVariant_serialize_def
        Representation_serialize_def object_class_def example_request_def example_variant_def w_pair_def w_octets_def
        w_u8_def w_string_def w_u16_def cdr_alignment_def cdr_little_def)
  have "\<lparr>cp_request = cp_request example_request,
      cp_object_representation = ov_copy (cp_object_representation example_request) (cp_object_representation example_request)\<rparr> = example_request"
    by (simp add: example_request_def example_variant_def ov_copy_def object_class_def)
  with create_request_roundtrip [OF cdr_little.cdr_lib_axioms hyps len] show ?thesis by auto
qed

text \<open>The size methods of the two representations leave out the number of properties.\<close>

lemma client_size_without_count:
  assumes "CLIENT_Representation_ok x" and "cr_properties x = Some []"
  shows "CLIENT_Representation_size x 0 = 16 \<and> length (concat (CLIENT_Representation_serialize cdr_little x 0)) = 22"
  using assms by (simp add: CLIENT_Representation_ok_def CLIENT_Representation_size_def CLIENT_Representation_serialize_def
      s_octets_def s_prim_def w_octets_def w_u8_def w_optional_def w_bool_def w_vector_def w_u32_def w_u16_def
      cdr_alignment_def cdr_little_def)

end
