(* ===== verification/Reader_Task.thy ===== *)
theory Reader_Task
  imports XRCE_Types "HOL-Library.Sublist"
begin

text \<open>
  Delivery of data to a client: \<open>TokenBucket\<close> (\<open>include/uxr/agent/utils/TokenBucket.hpp\<close>), which limits the
  rate, and \<open>Reader\<close> (\<open>include/uxr/agent/reader/Reader.hpp\<close>), the thread that reads samples and writes them to
  the client.  Times are nanoseconds of the steady clock, time-outs are milliseconds; token counts have the width
  of \<open>size_t\<close> and wrap around.
\<close>

subsection \<open>Token bucket\<close>

type_synonym u64 = "64 word"

record TokenBucket =
  tb_rate :: u64
  tb_capacity :: u64
  tb_tokens :: u64
  tb_timestamp :: int

text \<open>\<open>duration_cast<milliseconds>\<close> truncates towards zero.\<close>

definition to_ms :: "int \<Rightarrow> int" where
  "to_ms d = (if 0 \<le> d then d div 1000000 else - ((- d) div 1000000))"

definition TokenBucket_new :: "u64 \<Rightarrow> u64 \<Rightarrow> int \<Rightarrow> TokenBucket" where
  "TokenBucket_new rate capacity now =
     (let c = (if capacity = 0 then rate else capacity)
      in \<lparr>tb_rate = rate, tb_capacity = c, tb_tokens = c, tb_timestamp = now\<rparr>)"

definition tokens_at :: "int \<Rightarrow> TokenBucket \<Rightarrow> u64" where
  "tokens_at t b = min (tb_capacity b)
     (tb_tokens b + (tb_rate b * of_int (to_ms (t - tb_timestamp b))) div 1000)"

text \<open>The time the caller is made to wait: the difference of the token counts is unsigned, its multiple wraps
  around, and the quotient is converted to the signed count of a duration.\<close>

definition token_wait :: "u64 \<Rightarrow> int \<Rightarrow> TokenBucket \<Rightarrow> int" where
  "token_wait required timeout b = min (sint ((1000 * (tb_tokens b - required)) div tb_rate b)) timeout"

text \<open>The result, the bucket, and the time at which the call returns.\<close>

definition consume_tokens :: "int \<Rightarrow> u64 \<Rightarrow> int \<Rightarrow> TokenBucket \<Rightarrow> bool \<times> TokenBucket \<times> int" where
  "consume_tokens init_time required timeout b =
     (if required > tb_capacity b then (False, b, init_time)
      else let current = tokens_at init_time b
           in if current < required
              then let final_time = init_time + 1000000 * token_wait required timeout b;
                       expected = tokens_at final_time b
                   in if expected \<ge> required
                      then (True, b\<lparr>tb_tokens := expected - required, tb_timestamp := final_time\<rparr>, max init_time final_time)
                      else (False, b, max init_time final_time)
              else (True, b\<lparr>tb_tokens := current - required, tb_timestamp := init_time\<rparr>, init_time))"

subsection \<open>Reader\<close>

record WriteFnArgs =
  wa_client_key :: ClientKey
  wa_stream_id :: u8
  wa_object_id :: ObjectId
  wa_request_id :: RequestId

record Reader =
  rd_delivery_control :: DataDeliveryControl
  rd_write_args :: "WriteFnArgs option"
  rd_running_cond :: bool
  rd_joinable :: bool

definition Reader_new :: Reader where
  "Reader_new = \<lparr>rd_delivery_control = DataDeliveryControl_new, rd_write_args = None, rd_running_cond = False, rd_joinable = False\<rparr>"

definition start_reading :: "DataDeliveryControl \<Rightarrow> WriteFnArgs \<Rightarrow> Reader \<Rightarrow> bool \<times> Reader" where
  "start_reading dc args r =
     (if \<not> rd_running_cond r
      then (True, r\<lparr>rd_delivery_control := dc, rd_write_args := Some args, rd_running_cond := True, rd_joinable := True\<rparr>)
      else (False, r))"

text \<open>A thread that was joined is no longer joinable.\<close>

definition stop_reading :: "Reader \<Rightarrow> bool \<times> Reader" where
  "stop_reading r =
     (if rd_running_cond r
      then (rd_joinable r, r\<lparr>rd_running_cond := False, rd_joinable := False\<rparr>)
      else (True, r))"

subsection \<open>The reading thread\<close>

text \<open>Where the thread is: at the head of the outer loop, at the token bucket with a sample, at the write
  function with a sample that has been paid for, or at its end.\<close>

datatype phase = Head | Throttle "u8 list" | Write "u8 list" | Exited

record ReadTask =
  rk_token_bucket :: TokenBucket
  rk_message_count :: u16
  rk_final_time :: int
  rk_timeout :: int
  rk_phase :: phase

definition max_timeout :: int where "max_timeout = 100"
definition max_samples_unlimited :: u16 where "max_samples_unlimited = 0xFFFF"
definition time_point_max :: int where "time_point_max = 2 ^ 63 - 1"

definition read_task_rate :: "DataDeliveryControl \<Rightarrow> u64" where
  "read_task_rate dc = (if dc_max_bytes_per_second dc = 0 then - 1 else ucast (dc_max_bytes_per_second dc))"

definition read_task_init :: "DataDeliveryControl \<Rightarrow> int \<Rightarrow> ReadTask" where
  "read_task_init dc now =
     \<lparr>rk_token_bucket = TokenBucket_new (read_task_rate dc) 0 now, rk_message_count = 0,
      rk_final_time = (if dc_max_elapsed_time dc = 0 then time_point_max
                       else now + 1000000000 * int (unat (dc_max_elapsed_time dc))),
      rk_timeout = 0, rk_phase = Head\<rparr>"

definition write_timeout :: "int \<Rightarrow> ReadTask \<Rightarrow> int" where
  "write_timeout now k = min max_timeout (to_ms (rk_final_time k - now))"

text \<open>The condition at the end of the outer loop's body.\<close>

definition stop_cond :: "DataDeliveryControl \<Rightarrow> int \<Rightarrow> ReadTask \<Rightarrow> bool" where
  "stop_cond dc now k \<longleftrightarrow>
     (max_samples_unlimited \<noteq> dc_max_samples dc \<and> rk_message_count k = dc_max_samples dc) \<or> now > rk_final_time k"

definition end_of_body :: "DataDeliveryControl \<Rightarrow> int \<Rightarrow> ReadTask \<Rightarrow> ReadTask" where
  "end_of_body dc now k = k\<lparr>rk_phase := (if stop_cond dc now k then Exited else Head)\<rparr>"

text \<open>One step of the thread.  What it finds outside: the value of \<open>running_cond_\<close>, the clock before and after
  the call, and the result of \<open>read_fn\<close> or \<open>write_fn\<close> when it calls one.\<close>

record task_input =
  ti_running :: bool
  ti_now :: int
  ti_later :: int
  ti_read :: "u8 list option"
  ti_written :: bool

fun read_task_step :: "DataDeliveryControl \<Rightarrow> task_input \<Rightarrow> ReadTask \<Rightarrow> ReadTask" where
  "read_task_step dc i k =
     (case rk_phase k of
        Head \<Rightarrow>
          if ti_running i
          then let k1 = k\<lparr>rk_timeout := write_timeout (ti_now i) k\<rparr>
               in case ti_read i of
                    None \<Rightarrow> end_of_body dc (ti_later i) k1
                  | Some data \<Rightarrow> k1\<lparr>rk_phase := Throttle data\<rparr>
          else k\<lparr>rk_phase := Exited\<rparr>
      | Throttle data \<Rightarrow>
          let (granted, b, _) = consume_tokens (ti_now i) (of_nat (length data)) (rk_timeout k) (rk_token_bucket k);
              k1 = k\<lparr>rk_token_bucket := b\<rparr>
          in if granted then k1\<lparr>rk_phase := Write data\<rparr>
             else if ti_running i then k1 else end_of_body dc (ti_later i) k1
      | Write data \<Rightarrow>
          let k1 = k\<lparr>rk_timeout := write_timeout (ti_now i) k\<rparr>
          in if ti_written i then end_of_body dc (ti_later i) (k1\<lparr>rk_message_count := rk_message_count k1 + 1\<rparr>)
             else if ti_running i then k1 else end_of_body dc (ti_later i) k1
      | Exited \<Rightarrow> k)"

text \<open>A run of the thread, with the samples it obtained and those the client was sent.\<close>

fun fetched :: "task_input \<Rightarrow> ReadTask \<Rightarrow> u8 list list" where
  "fetched i k = (if rk_phase k = Head \<and> ti_running i then (case ti_read i of None \<Rightarrow> [] | Some d \<Rightarrow> [d]) else [])"

fun delivered :: "task_input \<Rightarrow> ReadTask \<Rightarrow> u8 list list" where
  "delivered i k = (case rk_phase k of Write d \<Rightarrow> if ti_written i then [d] else [] | _ \<Rightarrow> [])"

fun read_task_run :: "DataDeliveryControl \<Rightarrow> task_input list \<Rightarrow> ReadTask \<Rightarrow> u8 list list \<times> u8 list list \<times> ReadTask" where
  "read_task_run dc [] k = ([], [], k)"
| "read_task_run dc (i # is) k =
     (let (fs, ds, k') = read_task_run dc is (read_task_step dc i k)
      in (fetched i k @ fs, delivered i k @ ds, k'))"

subsection \<open>The rate limit\<close>

text \<open>A bucket for a rate that fits the delivery control, with the capacity \<open>read_task\<close> gives it.\<close>

definition bucket_ok :: "TokenBucket \<Rightarrow> bool" where
  "bucket_ok b \<longleftrightarrow> 0 < tb_rate b \<and> unat (tb_rate b) < 2 ^ 16 \<and> tb_capacity b = tb_rate b \<and> tb_tokens b \<le> tb_rate b"

text \<open>Spans of less than \<open>2 ^ 40\<close> milliseconds (35 years) do not overflow the counters.\<close>

definition span_ok :: "int \<Rightarrow> TokenBucket \<Rightarrow> bool" where
  "span_ok t b \<longleftrightarrow> tb_timestamp b \<le> t \<and> to_ms (t - tb_timestamp b) < 2 ^ 40"

lemma unat_u64: "n < 2 ^ 64 \<Longrightarrow> unat (of_nat n :: u64) = n"
  by (simp add: unsigned_of_nat take_bit_nat_eq_self)

lemma tokens_at_value:
  assumes "bucket_ok b" and "span_ok t b"
  shows "unat (tokens_at t b) = min (unat (tb_rate b))
    (unat (tb_tokens b) + unat (tb_rate b) * nat (to_ms (t - tb_timestamp b)) div 1000)"
proof -
  let ?r = "unat (tb_rate b)" and ?m = "nat (to_ms (t - tb_timestamp b))" and ?k = "unat (tb_tokens b)"
  have m: "0 \<le> to_ms (t - tb_timestamp b)" "?m < 2 ^ 40" using assms(2) by (auto simp: span_ok_def to_ms_def)
  have r: "?r < 2 ^ 16" "?k \<le> ?r" using assms(1) by (auto simp: bucket_ok_def word_le_nat_alt)
  have "?r * ?m < 2 ^ 16 * 2 ^ 40" using r(1) m(2) by (intro mult_strict_mono) auto
  then have prod: "?r * ?m < 2 ^ 64" by simp
  have "tb_rate b * of_int (to_ms (t - tb_timestamp b)) = of_nat (?r * ?m)" using m(1) by simp
  then have "unat ((tb_rate b * of_int (to_ms (t - tb_timestamp b))) div 1000) = ?r * ?m div 1000"
    using unat_u64 [OF prod] by (simp add: unat_div del: of_nat_mult)
  moreover have "?r * ?m div 1000 \<le> ?r * ?m" by (rule div_le_dividend)
  with \<open>?r * ?m < 2 ^ 16 * 2 ^ 40\<close> r have "?k + ?r * ?m div 1000 < 2 ^ 64" by simp
  ultimately have "unat (tb_tokens b + (tb_rate b * of_int (to_ms (t - tb_timestamp b))) div 1000) = ?k + ?r * ?m div 1000"
    by (simp add: unat_word_ariths)
  then show ?thesis using assms(1) by (auto simp: tokens_at_def bucket_ok_def min_def word_le_nat_alt)
qed

lemma sint_small: "unat (q :: u64) < 2 ^ 63 \<Longrightarrow> sint q = int (unat q)"
proof -
  assume "unat q < 2 ^ 63"
  then have "int (unat q) < int (2 ^ 63)" by (simp only: of_nat_less_iff)
  then have "uint q < 2 ^ 63" by simp
  moreover have "0 \<le> uint q" by simp
  ultimately have "signed_take_bit 63 (uint q) = uint q" by (intro signed_take_bit_int_eq_self) linarith+
  then show ?thesis by (simp add: sint_uint)
qed

text \<open>Unless the rate is one octet per second the wait is always the time-out.\<close>

lemma token_wait_value:
  assumes "bucket_ok b" and "2 \<le> unat (tb_rate b)" and "tb_tokens b < required" and "required \<le> tb_rate b" and "timeout \<le> max_timeout"
  shows "token_wait required timeout b = timeout"
proof -
  let ?r = "unat (tb_rate b)" and ?d = "unat required - unat (tb_tokens b)"
  have d: "1 \<le> ?d" "?d < 2 ^ 16" "?r < 2 ^ 16" using assms(1,3,4) by (auto simp: bucket_ok_def word_less_nat_alt word_le_nat_alt)
  have dw: "unat (required - tb_tokens b) = ?d" using assms(3) by (simp add: unat_sub word_less_nat_alt word_le_nat_alt)
  have dd: "required - tb_tokens b = of_nat ?d" by (simp only: dw [symmetric] of_nat_unat ucast_id)
  have "1000 * (tb_tokens b - required) = - (1000 * (required - tb_tokens b))" by (simp add: algebra_simps)
  also have "\<dots> = - of_nat (1000 * ?d)" by (simp only: dd of_nat_mult of_nat_numeral)
  also have "\<dots> = of_nat (2 ^ 64 - 1000 * ?d)"
    using d(2) by (simp add: of_nat_diff)
  finally have x: "unat (1000 * (tb_tokens b - required)) = 2 ^ 64 - 1000 * ?d"
    using d(1) by (simp add: unat_u64)
  let ?q = "(1000 * (tb_tokens b - required)) div tb_rate b"
  have q: "unat ?q = (2 ^ 64 - 1000 * ?d) div ?r" by (simp only: unat_div x)
  also have "\<dots> \<le> (2 ^ 64 - 1000 * ?d) div 2" by (rule div_le_mono2) (use assms(2) in simp_all)
  also have "\<dots> < 2 ^ 63" by (rule less_mult_imp_div_less) (use d(1) in simp)
  finally have hi: "unat ?q < 2 ^ 63" .
  have "101 * ?r \<le> 2 ^ 64 - 1000 * ?d" using d by simp
  then have "101 \<le> unat ?q" unfolding q using assms(2) by (simp add: less_eq_div_iff_mult_less_eq)
  then have "timeout \<le> sint ?q" using sint_small [OF hi] assms(5) unfolding max_timeout_def by linarith
  then show ?thesis unfolding token_wait_def by (rule min_absorb2)
qed

lemma to_ms_mono: "a \<le> b \<Longrightarrow> to_ms a \<le> to_ms b"
  by (auto simp: to_ms_def zdiv_mono1 intro: order_trans [of _ 0])

lemma to_ms_add: "0 \<le> a \<Longrightarrow> 0 \<le> b \<Longrightarrow> to_ms a + to_ms b \<le> to_ms (a + b)"
  by (simp add: to_ms_def)

lemma to_ms_nonneg: "0 \<le> a \<Longrightarrow> 0 \<le> to_ms a"
  by (simp add: to_ms_def)

text \<open>What is taken at a time was there before or has been earned since.\<close>

lemma grant_rate:
  assumes "bucket_ok b" and "span_ok t b" and "required \<le> tokens_at t b"
  shows "bucket_ok (b\<lparr>tb_tokens := tokens_at t b - required, tb_timestamp := t\<rparr>)"
    and "1000 * (unat (tokens_at t b - required) + unat required)
      \<le> 1000 * unat (tb_tokens b) + unat (tb_rate b) * nat (to_ms (t - tb_timestamp b))"
    and "unat (tokens_at t b - required) + unat required \<le> unat (tb_rate b)"
proof -
  have sub: "unat (tokens_at t b - required) + unat required = unat (tokens_at t b)"
    using assms(3) by (simp add: unat_sub word_le_nat_alt)
  note v = tokens_at_value [OF assms(1,2)]
  show "bucket_ok (b\<lparr>tb_tokens := tokens_at t b - required, tb_timestamp := t\<rparr>)"
    using assms(1) v sub by (auto simp: bucket_ok_def word_le_nat_alt)
  show "1000 * (unat (tokens_at t b - required) + unat required)
      \<le> 1000 * unat (tb_tokens b) + unat (tb_rate b) * nat (to_ms (t - tb_timestamp b))"
    unfolding sub v by (simp add: min_def) (use div_times_less_eq_dividend [of "unat (tb_rate b) * nat (to_ms (t - tb_timestamp b))" 1000] in linarith)
  show "unat (tokens_at t b - required) + unat required \<le> unat (tb_rate b)" unfolding sub v by simp
qed

lemma consume_tokens_rate:
  assumes "bucket_ok b" and "2 \<le> unat (tb_rate b)" and "tb_timestamp b \<le> now" and "0 \<le> timeout" and "timeout \<le> max_timeout"
    and "consume_tokens now required timeout b = (g, b', t')" and "to_ms (t' - tb_timestamp b) < 2 ^ 40"
  shows "bucket_ok b' \<and> tb_rate b' = tb_rate b \<and> tb_timestamp b \<le> tb_timestamp b' \<and> tb_timestamp b' \<le> t' \<and> now \<le> t'
    \<and> unat (tb_tokens b') + (if g then unat required else 0) \<le> unat (tb_rate b) \<and> (\<not> g \<longrightarrow> b' = b) \<and> (g \<longrightarrow> now \<le> tb_timestamp b')
    \<and> 1000 * (unat (tb_tokens b') + (if g then unat required else 0))
        \<le> 1000 * unat (tb_tokens b) + unat (tb_rate b) * nat (to_ms (tb_timestamp b' - tb_timestamp b))"
proof -
  have cap: "tb_capacity b = tb_rate b" and tokens: "unat (tb_tokens b) \<le> unat (tb_rate b)"
    using assms(1) by (simp_all add: bucket_ok_def word_le_nat_alt)
  have now: "now \<le> t'" using assms(6) by (auto simp: consume_tokens_def Let_def split: if_splits)
  have grant: ?thesis if "g" "required \<le> tokens_at t b" "now \<le> t" "t \<le> t'"
      "b' = b\<lparr>tb_tokens := tokens_at t b - required, tb_timestamp := t\<rparr>" for t
  proof -
    have "span_ok t b" using that assms(3,7) to_ms_mono [of "t - tb_timestamp b" "t' - tb_timestamp b"] by (simp add: span_ok_def)
    from grant_rate [OF assms(1) this that(2)] show ?thesis using that assms(3) now by (simp add: that(5))
  qed
  consider (large) "tb_rate b < required" | (enough) "required \<le> tb_rate b" "required \<le> tokens_at now b"
    | (wait) "required \<le> tb_rate b" "tokens_at now b < required" by force
  then show ?thesis
  proof cases
    case large
    then have "g = False" "b' = b" "t' = now" using assms(6) by (auto simp: consume_tokens_def cap)
    then show ?thesis using assms(1,3) tokens by simp
  next
    case enough
    then have "g" "b' = b\<lparr>tb_tokens := tokens_at now b - required, tb_timestamp := now\<rparr>"
      using assms(6) by (auto simp: consume_tokens_def cap Let_def leD)
    with enough(2) now show ?thesis by (intro grant [of now]) simp_all
  next
    case wait
    let ?t = "now + 1000000 * timeout"
    have "span_ok now b" using assms(3,7) now to_ms_mono [of "now - tb_timestamp b" "t' - tb_timestamp b"] by (simp add: span_ok_def)
    from tokens_at_value [OF assms(1) this] wait assms(1) have "tb_tokens b < required"
      by (auto simp: word_less_nat_alt word_le_nat_alt bucket_ok_def min_def split: if_splits)
    then have w: "token_wait required timeout b = timeout" using token_wait_value assms(1,2,5) wait by blast
    show ?thesis
    proof (cases "required \<le> tokens_at ?t b")
      case True
      then have "g" "b' = b\<lparr>tb_tokens := tokens_at ?t b - required, tb_timestamp := ?t\<rparr>" "t' = max now ?t"
        using wait w assms(6) by (auto simp: consume_tokens_def cap Let_def leD)
      with True assms(4) show ?thesis by (intro grant [of ?t]) simp_all
    next
      case False
      then have "g = False" "b' = b" using wait w assms(6) by (auto simp: consume_tokens_def cap Let_def leD)
      then show ?thesis using assms(1,3) now tokens by simp
    qed
  qed
qed

text \<open>The sample that has been paid for but not sent, the time after a step, and runs whose clock does not go
  back: a call of \<open>consume_tokens\<close> returns when its wait is over, and less than a millisecond passes between the
  test of the elapsed time and the computation of the next time-out.\<close>

definition paid :: "phase \<Rightarrow> nat" where
  "paid p = (case p of Write d \<Rightarrow> length d | _ \<Rightarrow> 0)"

definition task_clock :: "task_input \<Rightarrow> ReadTask \<Rightarrow> int" where
  "task_clock i k = (case rk_phase k of
     Throttle d \<Rightarrow> max (ti_later i) (snd (snd (consume_tokens (ti_now i) (of_nat (length d)) (rk_timeout k) (rk_token_bucket k))))
   | _ \<Rightarrow> ti_later i)"

fun timely :: "DataDeliveryControl \<Rightarrow> int \<Rightarrow> task_input list \<Rightarrow> ReadTask \<Rightarrow> bool" where
  "timely dc t [] k = True"
| "timely dc t (i # is) k = (t \<le> ti_now i \<and> ti_now i \<le> ti_later i
     \<and> (rk_phase k = Head \<longrightarrow> ti_now i < rk_final_time k + 1000000)
     \<and> (case ti_read i of None \<Rightarrow> True | Some d \<Rightarrow> length d < 2 ^ 64)
     \<and> timely dc (task_clock i k) is (read_task_step dc i k))"

fun task_end :: "DataDeliveryControl \<Rightarrow> int \<Rightarrow> task_input list \<Rightarrow> ReadTask \<Rightarrow> int" where
  "task_end dc t [] k = t"
| "task_end dc t (i # is) k = task_end dc (task_clock i k) is (read_task_step dc i k)"

text \<open>The state of a thread that started at \<open>t0\<close>, at the time \<open>t\<close>.\<close>

definition task_ok :: "u64 \<Rightarrow> int \<Rightarrow> int \<Rightarrow> ReadTask \<Rightarrow> bool" where
  "task_ok r t0 t k \<longleftrightarrow> (let b = rk_token_bucket k in
     bucket_ok b \<and> tb_rate b = r \<and> t0 \<le> tb_timestamp b \<and> tb_timestamp b \<le> t \<and> paid (rk_phase k) \<le> unat r
     \<and> (case rk_phase k of Throttle d \<Rightarrow> 0 \<le> rk_timeout k \<and> rk_timeout k \<le> max_timeout \<and> length d < 2 ^ 64 | _ \<Rightarrow> True))"

text \<open>The account of a period that began at \<open>t1\<close> with \<open>p\<close> octets paid for: until tokens are taken in the period
  only those have been sent; from then on, what was sent, is paid for or is in the bucket is covered by them, by
  the capacity the bucket had at most at \<open>t1\<close>, and by what has been earned since.\<close>

definition period_inv :: "u64 \<Rightarrow> int \<Rightarrow> nat \<Rightarrow> nat \<Rightarrow> ReadTask \<Rightarrow> bool" where
  "period_inv r t1 p n k \<longleftrightarrow> (let b = rk_token_bucket k in
     tb_timestamp b \<le> t1 \<and> n + paid (rk_phase k) \<le> p
     \<or> t1 \<le> tb_timestamp b
       \<and> 1000 * (n + paid (rk_phase k) + unat (tb_tokens b)) \<le> 1000 * (p + unat r) + unat r * nat (to_ms (tb_timestamp b - t1)))"

lemma end_of_body_fields [simp]:
  "rk_token_bucket (end_of_body dc t k) = rk_token_bucket k" "rk_message_count (end_of_body dc t k) = rk_message_count k"
  "paid (rk_phase (end_of_body dc t k)) = 0"
  by (simp_all add: end_of_body_def paid_def)

lemma task_ok_idle:
  assumes "task_ok r t0 t k" and "t \<le> t'" and "rk_token_bucket k' = rk_token_bucket k"
    and "paid (rk_phase k') \<le> paid (rk_phase k)" and "\<forall>d. rk_phase k' \<noteq> Throttle d"
  shows "task_ok r t0 t' k'"
  using assms by (auto simp: task_ok_def Let_def split: phase.splits)

lemma period_inv_idle:
  assumes "period_inv r t1 p n k" and "rk_token_bucket k' = rk_token_bucket k"
    and "n' + paid (rk_phase k') \<le> n + paid (rk_phase k)"
  shows "period_inv r t1 p n' k'"
proof -
  have "1000 * (n' + paid (rk_phase k') + unat (tb_tokens (rk_token_bucket k))) \<le> 1000 * (n + paid (rk_phase k) + unat (tb_tokens (rk_token_bucket k)))"
    using assms(3) by simp
  then show ?thesis using assms by (auto simp: period_inv_def Let_def)
qed

lemma end_of_body_phase: "rk_phase (end_of_body dc t k) \<noteq> Throttle d"
  by (simp add: end_of_body_def)

lemma task_clock_later:
  "ti_now i \<le> ti_later i \<Longrightarrow> t \<le> ti_now i \<Longrightarrow> t \<le> task_clock i k"
  by (auto simp: task_clock_def split: phase.splits)

lemma step_head:
  assumes "task_ok r t0 t k" and "rk_phase k = Head" and "timely dc t [i] k"
  shows "task_ok r t0 (task_clock i k) (read_task_step dc i k)"
    and "rk_token_bucket (read_task_step dc i k) = rk_token_bucket k" and "paid (rk_phase (read_task_step dc i k)) = 0"
proof -
  have t: "t \<le> task_clock i k" using assms(3) by (auto intro: task_clock_later)
  let ?k1 = "k\<lparr>rk_timeout := write_timeout (ti_now i) k\<rparr>"
  have to: "0 \<le> write_timeout (ti_now i) k" "write_timeout (ti_now i) k \<le> max_timeout"
    using assms(2,3) by (auto simp: write_timeout_def max_timeout_def to_ms_def)
  have "task_ok r t0 (task_clock i k) (read_task_step dc i k) \<and> rk_token_bucket (read_task_step dc i k) = rk_token_bucket k
      \<and> paid (rk_phase (read_task_step dc i k)) = 0"
  proof (cases "ti_running i \<and> ti_read i \<noteq> None")
    case True
    then obtain d where "ti_read i = Some d" by blast
    with True show ?thesis using assms t to by (auto simp: task_ok_def Let_def paid_def)
  next
    case False
    then have "read_task_step dc i k = k\<lparr>rk_phase := Exited\<rparr> \<or> read_task_step dc i k = end_of_body dc (ti_later i) ?k1"
      using assms(2) by (auto simp: Let_def)
    then show ?thesis
      by (elim disjE; intro conjI task_ok_idle [OF assms(1) t]) (simp_all add: paid_def end_of_body_def)
  qed
  then show "task_ok r t0 (task_clock i k) (read_task_step dc i k)"
    "rk_token_bucket (read_task_step dc i k) = rk_token_bucket k" "paid (rk_phase (read_task_step dc i k)) = 0" by simp_all
qed

text \<open>A call of the bucket inside a period: the account is kept, whether the last tokens were taken before the
  period or in it.\<close>

lemma account_granted:
  assumes "tb_timestamp b \<le> t1 \<and> n \<le> p \<or> t1 \<le> tb_timestamp b
      \<and> 1000 * (n + unat (tb_tokens b)) \<le> 1000 * (p + r) + r * nat (to_ms (tb_timestamp b - t1))"
    and "t1 \<le> ts" and "tb_timestamp b \<le> ts" and "tokens' + paid' \<le> r"
    and "1000 * (tokens' + paid') \<le> 1000 * unat (tb_tokens b) + r * nat (to_ms (ts - tb_timestamp b))"
  shows "1000 * (n + paid' + tokens') \<le> 1000 * (p + r) + r * nat (to_ms (ts - t1))"
proof (cases "tb_timestamp b \<le> t1 \<and> n \<le> p")
  case True
  then show ?thesis using assms(4) by simp
next
  case False
  with assms(1) have b: "t1 \<le> tb_timestamp b"
    "1000 * (n + unat (tb_tokens b)) \<le> 1000 * (p + r) + r * nat (to_ms (tb_timestamp b - t1))" by auto
  have "to_ms (ts - tb_timestamp b) + to_ms (tb_timestamp b - t1) \<le> to_ms (ts - t1)"
    using to_ms_add [of "ts - tb_timestamp b" "tb_timestamp b - t1"] assms(3) b(1) by simp
  then have "nat (to_ms (ts - tb_timestamp b)) + nat (to_ms (tb_timestamp b - t1)) \<le> nat (to_ms (ts - t1))"
    using to_ms_nonneg [of "ts - tb_timestamp b"] to_ms_nonneg [of "tb_timestamp b - t1"] assms(3) b(1) by simp
  then have "r * nat (to_ms (ts - tb_timestamp b)) + r * nat (to_ms (tb_timestamp b - t1)) \<le> r * nat (to_ms (ts - t1))"
    by (metis add_mult_distrib2 mult_le_mono2)
  with b(2) assms(5) show ?thesis by simp
qed

lemma step_throttle:
  assumes "task_ok r t0 t k" and "period_inv r t1 p n k" and "t1 \<le> t" and "2 \<le> unat r" and "rk_phase k = Throttle d"
    and "timely dc t [i] k" and "to_ms (task_clock i k - t0) < 2 ^ 40"
  shows "task_ok r t0 (task_clock i k) (read_task_step dc i k) \<and> period_inv r t1 p n (read_task_step dc i k)"
proof -
  let ?b = "rk_token_bucket k"
  obtain g b' t' where c: "consume_tokens (ti_now i) (of_nat (length d)) (rk_timeout k) ?b = (g, b', t')" by (metis prod_cases3)
  have inv: "bucket_ok ?b" "tb_rate ?b = r" "t0 \<le> tb_timestamp ?b" "tb_timestamp ?b \<le> ti_now i" "0 \<le> rk_timeout k"
      "rk_timeout k \<le> max_timeout" "length d < 2 ^ 64" "t \<le> ti_now i" "ti_now i \<le> task_clock i k"
    using assms(1,5,6) by (auto simp: task_ok_def Let_def paid_def task_clock_def)
  have clock: "t' \<le> task_clock i k" by (simp add: task_clock_def assms(5) c)
  have "to_ms (t' - tb_timestamp ?b) < 2 ^ 40"
    using to_ms_mono [of "t' - tb_timestamp ?b" "task_clock i k - t0"] clock inv(3) assms(7) by simp
  from consume_tokens_rate [OF inv(1) _ inv(4,5,6) c this] inv(2) assms(4)
  have step: "bucket_ok b'" "tb_rate b' = r" "tb_timestamp ?b \<le> tb_timestamp b'" "tb_timestamp b' \<le> t'"
    "unat (tb_tokens b') + (if g then length d else 0) \<le> unat r"
    "\<not> g \<Longrightarrow> b' = ?b" "g \<Longrightarrow> ti_now i \<le> tb_timestamp b'"
    "1000 * (unat (tb_tokens b') + (if g then length d else 0))
        \<le> 1000 * unat (tb_tokens ?b) + unat r * nat (to_ms (tb_timestamp b' - tb_timestamp ?b))"
    using unat_u64 [OF inv(7)] by auto
  have k': "read_task_step dc i k = (let k1 = k\<lparr>rk_token_bucket := b'\<rparr> in if g then k1\<lparr>rk_phase := Write d\<rparr>
      else if ti_running i then k1 else end_of_body dc (ti_later i) k1)"
    using assms(5) c by (simp add: Let_def)
  have ts: "t0 \<le> tb_timestamp b'" "tb_timestamp b' \<le> task_clock i k" using step(3,4) inv(3) clock by simp_all
  have ok: "task_ok r t0 (task_clock i k) (read_task_step dc i k)"
    unfolding k' task_ok_def
    using assms(5) step(1,2,5) ts inv(5-7) by (simp add: Let_def paid_def end_of_body_def split: if_splits)
  have before: "tb_timestamp ?b \<le> t1 \<and> n \<le> p \<or> t1 \<le> tb_timestamp ?b
      \<and> 1000 * (n + unat (tb_tokens ?b)) \<le> 1000 * (p + unat r) + unat r * nat (to_ms (tb_timestamp ?b - t1))"
    using assms(2,5) by (simp add: period_inv_def Let_def paid_def)
  have "period_inv r t1 p n (read_task_step dc i k)"
  proof (cases g)
    case True
    have "1000 * (n + length d + unat (tb_tokens b')) \<le> 1000 * (p + unat r) + unat r * nat (to_ms (tb_timestamp b' - t1))"
      by (rule account_granted [OF before _ step(3)]) (use True step(5,7,8) inv(8) assms(3) in simp_all)
    moreover have "t1 \<le> tb_timestamp b'" using step(7) [OF True] inv(8) assms(3) by simp
    ultimately show ?thesis unfolding k' using True by (simp add: period_inv_def Let_def paid_def)
  next
    case False
    with step(6) have "rk_token_bucket (read_task_step dc i k) = ?b \<and> paid (rk_phase (read_task_step dc i k)) = 0"
      unfolding k' using assms(5) by (simp add: Let_def paid_def end_of_body_def)
    then show ?thesis by (intro period_inv_idle [OF assms(2)]) simp_all
  qed
  with ok show ?thesis by simp
qed

lemma rate_step:
  assumes "task_ok r t0 t k" and "period_inv r t1 p n k" and "t1 \<le> t" and "2 \<le> unat r" and "timely dc t [i] k"
    and "to_ms (task_clock i k - t0) < 2 ^ 40"
  shows "task_ok r t0 (task_clock i k) (read_task_step dc i k)
    \<and> period_inv r t1 p (n + length (concat (delivered i k))) (read_task_step dc i k)"
proof (cases "rk_phase k")
  case Head
  note h = step_head [OF assms(1) Head assms(5)]
  from h(2,3) have "period_inv r t1 p n (read_task_step dc i k)" by (intro period_inv_idle [OF assms(2)]) simp_all
  with h(1) show ?thesis using Head by simp
next
  case (Throttle d)
  then show ?thesis using step_throttle [OF assms(1-4) Throttle assms(5,6)] by simp
next
  case (Write d)
  have t: "t \<le> task_clock i k" using assms(5) by (auto intro: task_clock_later)
  show ?thesis
    by (intro conjI task_ok_idle [OF assms(1) t] period_inv_idle [OF assms(2)]) (simp_all add: Write Let_def paid_def end_of_body_def)
next
  case Exited
  have t: "t \<le> task_clock i k" using assms(5) by (auto intro: task_clock_later)
  show ?thesis by (intro conjI task_ok_idle [OF assms(1) t] period_inv_idle [OF assms(2)]) (simp_all add: Exited)
qed

lemma timely_clock: "timely dc t is k \<Longrightarrow> t \<le> task_end dc t is k"
proof (induction dc t "is" k rule: timely.induct)
  case (2 dc t i "is" k)
  then have "t \<le> task_clock i k" by (auto intro: task_clock_later)
  with 2 show ?case by auto
qed simp

lemma rate_run:
  assumes "task_ok r t0 t k" and "period_inv r t1 p n k" and "t1 \<le> t" and "2 \<le> unat r" and "timely dc t is k"
    and "to_ms (task_end dc t is k - t0) < 2 ^ 40" and "read_task_run dc is k = (fs, ds, k')"
  shows "task_ok r t0 (task_end dc t is k) k' \<and> period_inv r t1 p (n + length (concat ds)) k'"
  using assms(1-3,5-7)
proof (induction "is" arbitrary: t n k fs ds)
  case (Cons i "is")
  obtain fs1 ds1 where run: "read_task_run dc is (read_task_step dc i k) = (fs1, ds1, k')" and ds: "ds = delivered i k @ ds1"
    using Cons.prems(6) by (auto simp: Let_def split: prod.splits)
  have "task_clock i k \<le> task_end dc t (i # is) k" using Cons.prems(4) timely_clock by auto
  then have "to_ms (task_clock i k - t0) < 2 ^ 40"
    using Cons.prems(5) to_ms_mono [of "task_clock i k - t0" "task_end dc t (i # is) k - t0"] by simp
  with Cons.prems(1-4) assms(4)
  have step: "task_ok r t0 (task_clock i k) (read_task_step dc i k)"
    "period_inv r t1 p (n + length (concat (delivered i k))) (read_task_step dc i k)"
    using rate_step by auto
  have "t1 \<le> task_clock i k" using Cons.prems(3,4) task_clock_later [of i t k] by auto
  from Cons.IH [OF step this _ _ run] Cons.prems(4,5) show ?case
    by (simp add: ds add.assoc del: read_task_step.simps delivered.simps)
qed simp

text \<open>At any time a thread of a reader is ready for a new period, with the sample it has paid for.\<close>

lemma unat_rate: "unat (ucast (dc_max_bytes_per_second dc) :: u64) = unat (dc_max_bytes_per_second dc)"
  using unsigned_less [where 'a = nat and w = "dc_max_bytes_per_second dc"]
  by (simp add: unsigned_ucast_eq take_bit_nat_eq_self)

lemma task_ok_init:
  assumes "2 \<le> unat (dc_max_bytes_per_second dc)"
  shows "task_ok (ucast (dc_max_bytes_per_second dc)) t0 t0 (read_task_init dc t0)"
proof -
  have "unat (dc_max_bytes_per_second dc) < 2 ^ 16"
    using unsigned_less [where 'a = nat and w = "dc_max_bytes_per_second dc"] by simp
  with unat_rate [of dc] show ?thesis using assms
    by (auto simp: task_ok_def read_task_init_def read_task_rate_def TokenBucket_new_def bucket_ok_def Let_def
        paid_def word_less_nat_alt)
qed

lemma period_inv_start: "task_ok r t0 t k \<Longrightarrow> period_inv r t (paid (rk_phase k)) 0 k"
  by (simp add: task_ok_def period_inv_def Let_def)

lemma period_inv_sent:
  assumes "task_ok r t0 t k" and "period_inv r t1 p n k" and "t1 \<le> t"
  shows "1000 * n \<le> 1000 * p + unat r * (1000 + nat (to_ms (t - t1)))"
proof -
  let ?b = "rk_token_bucket k" and ?m = "nat (to_ms (tb_timestamp (rk_token_bucket k) - t1))"
  have "1000 * n \<le> 1000 * p \<or> t1 \<le> tb_timestamp ?b \<and> 1000 * n \<le> 1000 * (p + unat r) + unat r * ?m"
    using assms(2) by (auto simp: period_inv_def Let_def)
  moreover have "unat r * ?m \<le> unat r * nat (to_ms (t - t1))"
    using assms(1) to_ms_mono [of "tb_timestamp ?b - t1" "t - t1"] by (auto simp: task_ok_def Let_def intro!: mult_le_mono2 nat_mono)
  moreover have "1000 * p + unat r * (1000 + nat (to_ms (t - t1))) = 1000 * (p + unat r) + unat r * nat (to_ms (t - t1))"
    by (simp add: algebra_simps)
  ultimately show ?thesis by linarith
qed

lemma timely_append: "timely dc t (is @ js) k \<longleftrightarrow>
    timely dc t is k \<and> timely dc (task_end dc t is k) js (snd (snd (read_task_run dc is k)))"
  by (induction "is" arbitrary: t k) (auto simp: Let_def split_def simp del: read_task_step.simps)

lemma task_end_append: "task_end dc t (is @ js) k = task_end dc (task_end dc t is k) js (snd (snd (read_task_run dc is k)))"
  by (induction "is" arbitrary: t k) (auto simp: Let_def split_def simp del: read_task_step.simps)

text \<open>C24: the rate limit of a reader, in every period: let a reader with a \<open>max_bytes_per_second\<close> of at least two
  run from \<open>t0\<close> to \<open>t1\<close> and then from \<open>t1\<close> to \<open>t2\<close>.  The octets it sends between \<open>t1\<close> and \<open>t2\<close> are at most the
  rate times the length of the period, plus one second's worth (what the bucket can hold, however long the reader
  was idle before), plus the sample that had been paid for and not sent at \<open>t1\<close>, if there was one; and that
  sample is at most one second's worth too.  (The clock advances by less than \<open>2 ^ 40\<close> milliseconds in all; a rate
  of one octet per second is not limited, see \<open>rate_one_unlimited\<close>.)\<close>

theorem reader_rate_limited:
  assumes "2 \<le> unat (dc_max_bytes_per_second dc)" and "timely dc t0 (is1 @ is2) (read_task_init dc t0)"
    and "read_task_run dc is1 (read_task_init dc t0) = (fs1, ds1, k1)" and "task_end dc t0 is1 (read_task_init dc t0) = t1"
    and "read_task_run dc is2 k1 = (fs2, ds2, k2)" and "task_end dc t1 is2 k1 = t2" and "to_ms (t2 - t0) < 2 ^ 40"
  shows "1000 * length (concat ds2)
      \<le> 1000 * paid (rk_phase k1) + unat (dc_max_bytes_per_second dc) * (1000 + nat (to_ms (t2 - t1)))
    \<and> paid (rk_phase k1) \<le> unat (dc_max_bytes_per_second dc)"
proof -
  let ?r = "ucast (dc_max_bytes_per_second dc) :: u64"
  have r: "unat ?r = unat (dc_max_bytes_per_second dc)" "2 \<le> unat ?r"
    using assms(1) by (simp_all add: unat_rate)
  note start = task_ok_init [OF assms(1), of t0]
  have timely: "timely dc t0 is1 (read_task_init dc t0)" "timely dc t1 is2 k1"
    using assms(2-4) by (simp_all add: timely_append)
  have t: "t1 \<le> t2" "to_ms (t1 - t0) < 2 ^ 40"
    using timely_clock [OF timely(2)] assms(6,7) to_ms_mono [of "t1 - t0" "t2 - t0"] by simp_all
  have ok1: "task_ok ?r t0 t1 k1"
    using rate_run [OF start period_inv_start [OF start] order_refl r(2) timely(1) _ assms(3)] assms(4) t(2) by simp
  have "task_ok ?r t0 t2 k2" "period_inv ?r t1 (paid (rk_phase k1)) (length (concat ds2)) k2"
    using rate_run [OF ok1 period_inv_start [OF ok1] order_refl r(2) timely(2) _ assms(5)] assms(6,7) by simp_all
  from period_inv_sent [OF this t(1)] ok1 show ?thesis by (simp add: r(1) task_ok_def Let_def)
qed

subsection \<open>The samples\<close>

text \<open>A reader is told to stop once, and not started again before its thread has ended: the values of
  \<open>running_cond_\<close> are true, then false.\<close>

definition pending :: "phase \<Rightarrow> u8 list list" where
  "pending p = (case p of Throttle d \<Rightarrow> [d] | Write d \<Rightarrow> [d] | _ \<Rightarrow> [])"

lemma pending_end_of_body [simp]: "pending (rk_phase (end_of_body dc t k)) = []"
  by (simp add: pending_def end_of_body_def)

lemma step_running:
  assumes "ti_running i"
  shows "pending (rk_phase k) @ fetched i k = delivered i k @ pending (rk_phase (read_task_step dc i k))"
  using assms by (auto simp: pending_def end_of_body_def Let_def split: phase.splits option.splits prod.splits)

lemma step_stopping:
  assumes "\<not> ti_running i"
  shows "fetched i k = [] \<and> prefix (delivered i k @ pending (rk_phase (read_task_step dc i k))) (pending (rk_phase k))"
  using assms by (auto simp: pending_def end_of_body_def Let_def split: phase.splits option.splits prod.splits)

lemma run_running:
  assumes "list_all ti_running is" and "read_task_run dc is k = (fs, ds, k')"
  shows "pending (rk_phase k) @ fs = ds @ pending (rk_phase k')"
  using assms
proof (induction "is" arbitrary: k fs ds)
  case (Cons i "is")
  obtain fs1 ds1 where run: "read_task_run dc is (read_task_step dc i k) = (fs1, ds1, k')" and
      eq: "fs = fetched i k @ fs1" "ds = delivered i k @ ds1"
    using Cons.prems(2) by (auto simp: Let_def split: prod.splits)
  have "pending (rk_phase k) @ fetched i k = delivered i k @ pending (rk_phase (read_task_step dc i k))"
    using step_running Cons.prems(1) by simp
  with Cons.IH [OF _ run] Cons.prems(1) show ?case
    by (simp add: eq del: read_task_step.simps delivered.simps fetched.simps flip: append_assoc) simp
qed simp

lemma run_stopping:
  assumes "list_all (\<lambda>i. \<not> ti_running i) is" and "read_task_run dc is k = (fs, ds, k')"
  shows "fs = [] \<and> prefix ds (pending (rk_phase k))"
  using assms
proof (induction "is" arbitrary: k fs ds)
  case (Cons i "is")
  obtain fs1 ds1 where run: "read_task_run dc is (read_task_step dc i k) = (fs1, ds1, k')" and
      eq: "fs = fetched i k @ fs1" "ds = delivered i k @ ds1"
    using Cons.prems(2) by (auto simp: Let_def split: prod.splits)
  have step: "fetched i k = []" "prefix (delivered i k @ pending (rk_phase (read_task_step dc i k))) (pending (rk_phase k))"
    using step_stopping [of i k dc] Cons.prems(1) by simp_all
  have "fs1 = []" "prefix ds1 (pending (rk_phase (read_task_step dc i k)))" using Cons.IH [OF _ run] Cons.prems(1) by simp_all
  then show ?case unfolding eq step(1) using step(2) prefix_order.trans same_prefix_prefix by blast
qed simp

lemma read_task_run_append:
  "read_task_run dc (is @ js) k =
     (let (fs, ds, k1) = read_task_run dc is k; (gs, es, k2) = read_task_run dc js k1 in (fs @ gs, ds @ es, k2))"
  by (induction "is" arbitrary: k) (simp_all add: Let_def split_def)

text \<open>The counter of the samples and the limit.\<close>

definition count_inv :: "DataDeliveryControl \<Rightarrow> nat \<Rightarrow> ReadTask \<Rightarrow> bool" where
  "count_inv dc n k \<longleftrightarrow> rk_message_count k = of_nat n \<and> n \<le> unat (dc_max_samples dc)
     \<and> (rk_phase k \<noteq> Exited \<longrightarrow> n < unat (dc_max_samples dc))"

lemma count_inv_step:
  assumes "count_inv dc n k" and "dc_max_samples dc \<noteq> max_samples_unlimited"
  shows "count_inv dc (n + length (delivered i k)) (read_task_step dc i k)"
proof -
  have full: "of_nat (Suc n) = dc_max_samples dc \<longleftrightarrow> Suc n = unat (dc_max_samples dc)" if "n < unat (dc_max_samples dc)"
  proof -
    have "Suc n < 2 ^ 16" using that unsigned_less [where 'a = nat and w = "dc_max_samples dc"] by simp
    then show ?thesis by (simp add: word_unat_eq_iff unsigned_of_nat take_bit_nat_eq_self del: of_nat_Suc)
  qed
  show ?thesis
    using assms full
    by (auto simp: count_inv_def end_of_body_def stop_cond_def Let_def add.commute
        split: phase.splits option.splits prod.splits if_splits)
qed

lemma count_inv_run:
  assumes "dc_max_samples dc \<noteq> max_samples_unlimited"
  shows "read_task_run dc is k = (fs, ds, k') \<Longrightarrow> count_inv dc n k \<Longrightarrow> count_inv dc (n + length ds) k'"
proof (induction "is" arbitrary: k fs ds n)
  case (Cons i "is")
  obtain fs1 ds1 where run: "read_task_run dc is (read_task_step dc i k) = (fs1, ds1, k')" and
      eq: "fs = fetched i k @ fs1" "ds = delivered i k @ ds1"
    using Cons.prems(1) by (auto simp: Let_def split: prod.splits)
  from Cons.IH [OF run count_inv_step [OF Cons.prems(2) assms]] show ?case
    by (simp add: eq add.assoc del: delivered.simps)
qed simp

lemma stopped_exits:
  assumes "\<not> ti_running i" "\<not> ti_running j" "\<not> ti_running l"
  shows "rk_phase (read_task_step dc l (read_task_step dc j (read_task_step dc i k))) = Exited"
proof -
  have 1: "rk_phase (read_task_step dc l k) = Exited" if "rk_phase k = Head \<or> rk_phase k = Exited" for k
    using that assms(3) by auto
  have 2: "rk_phase (read_task_step dc j k) \<in> {Head, Exited}" if "\<forall>d. rk_phase k \<noteq> Throttle d" for k
    using that assms(2) by (cases "rk_phase k") (auto simp: end_of_body_def Let_def)
  have 3: "\<forall>d. rk_phase (read_task_step dc i k) \<noteq> Throttle d"
    using assms(1) by (cases "rk_phase k") (auto simp: end_of_body_def Let_def split: prod.splits)
  show ?thesis using 1 2 [OF 3] by (simp del: read_task_step.simps)
qed

lemma exited_stays: "rk_phase k = Exited \<Longrightarrow> read_task_run dc is k = (fs, ds, k') \<Longrightarrow> k' = k"
  by (induction "is" arbitrary: fs ds) (auto simp: Let_def split: prod.splits)

lemma stopping_ends:
  assumes "list_all (\<lambda>i. \<not> ti_running i) is" and "3 \<le> length is" and "read_task_run dc is k = (fs, ds, k')"
  shows "rk_phase k' = Exited"
proof -
  obtain i j l js where "is": "is = i # j # l # js" using assms(2) by (cases "is"; cases "tl is"; cases "tl (tl is)") auto
  let ?k = "read_task_step dc l (read_task_step dc j (read_task_step dc i k))"
  obtain fs1 ds1 where "read_task_run dc js ?k = (fs1, ds1, k')"
    using assms(3) by (auto simp: "is" Let_def split_def simp del: read_task_step.simps) (metis prod.collapse)
  moreover have "rk_phase ?k = Exited" using stopped_exits assms(1) by (simp add: "is" del: read_task_step.simps)
  ultimately show ?thesis using exited_stays by metis
qed

text \<open>C25: what a reader sends: the samples it obtained, in their order, each once.  While it runs, the only sample
  obtained and not sent is the one it is working on, and when it is stopped at most that one is lost.  A limit of
  the number of samples (neither zero nor unlimited) is respected, and the thread ends when it is reached.  After
  the request to stop, the thread ends within three of its steps.\<close>

theorem reader_delivers_in_order:
  assumes "list_all ti_running is" and "list_all (\<lambda>i. \<not> ti_running i) js"
    and "read_task_run dc (is @ js) (read_task_init dc t0) = (fs, ds, k)"
  shows "prefix ds fs \<and> length fs \<le> Suc (length ds) \<and> (js = [] \<longrightarrow> fs = ds @ pending (rk_phase k))
    \<and> (3 \<le> length js \<longrightarrow> rk_phase k = Exited)
    \<and> (0 < dc_max_samples dc \<and> dc_max_samples dc \<noteq> max_samples_unlimited \<longrightarrow>
         length ds \<le> unat (dc_max_samples dc) \<and> (length ds = unat (dc_max_samples dc) \<longrightarrow> rk_phase k = Exited))"
proof -
  obtain fs1 ds1 k1 fs2 ds2 where run: "read_task_run dc is (read_task_init dc t0) = (fs1, ds1, k1)"
      "read_task_run dc js k1 = (fs2, ds2, k)" and eq: "fs = fs1 @ fs2" "ds = ds1 @ ds2"
    using assms(3) by (auto simp: read_task_run_append Let_def split: prod.splits)
  have 1: "fs1 = ds1 @ pending (rk_phase k1)"
    using run_running [OF assms(1) run(1)] by (simp add: read_task_init_def pending_def)
  have 2: "fs2 = []" "prefix ds2 (pending (rk_phase k1))" using run_stopping [OF assms(2) run(2)] by simp_all
  have 3: "length (pending p) \<le> 1" for p by (simp add: pending_def split: phase.split)
  have 4: "js = [] \<longrightarrow> fs = ds @ pending (rk_phase k)" using run(2) 1 by (auto simp: eq)
  have 5: "3 \<le> length js \<longrightarrow> rk_phase k = Exited" using stopping_ends [OF assms(2) _ run(2)] by blast
  have 6: "count_inv dc (length ds) k" if "0 < dc_max_samples dc" "dc_max_samples dc \<noteq> max_samples_unlimited"
  proof -
    have "count_inv dc 0 (read_task_init dc t0)"
      using that(1) by (simp add: count_inv_def read_task_init_def word_less_nat_alt)
    from count_inv_run [OF that(2) assms(3) this] show ?thesis by simp
  qed
  show ?thesis using 1 2 3 [of "rk_phase k1"] 4 5 6 by (auto simp: eq count_inv_def)
qed

subsection \<open>Limits of the limits\<close>

text \<open>At one octet per second the wait is negative: the difference of the token counts has wrapped around, and
  tokens that are not there are granted at once.\<close>

lemma rate_one_unlimited:
  assumes "bucket_ok b" and "tb_rate b = 1" and "tb_tokens b = 0" and "tb_timestamp b \<le> now"
    and "now - tb_timestamp b \<le> 999000000" and "0 \<le> timeout"
  shows "fst (consume_tokens now 1 timeout b) \<and> snd (snd (consume_tokens now 1 timeout b)) = now"
proof -
  let ?d = "now - tb_timestamp b"
  have cap: "tb_capacity b = 1" using assms(1,2) by (simp add: bucket_ok_def)
  have "token_wait 1 timeout b = min (- 1000) timeout"
    unfolding token_wait_def assms(2,3) by (rule arg_cong [where f = "\<lambda>x. min x timeout"]) simp
  then have w: "token_wait 1 timeout b = - 1000" using assms(6) by simp
  have ms: "to_ms (now + 1000000 * - 1000 - tb_timestamp b) \<in> {- 1000 .. - 1}"
    using assms(4,5) by (auto simp: to_ms_def)
  define m where "m = nat (- to_ms (now + 1000000 * - 1000 - tb_timestamp b))"
  with ms have m: "to_ms (now + 1000000 * - 1000 - tb_timestamp b) = - int m" "1 \<le> m" "m \<le> 1000"
    unfolding atLeastAtMost_iff by linarith+
  have e: "(of_int (- int m) :: u64) = of_nat (2 ^ 64 - m)" using m(3) by (simp add: of_nat_diff)
  have u: "unat (of_nat (2 ^ 64 - m) :: u64) = 2 ^ 64 - m" by (rule unat_u64) (use m(2) in simp)
  have "1 \<le> (2 ^ 64 - m) div 1000" using m(3) by simp
  also have "\<dots> = unat (of_int (- int m) div 1000 :: u64)" unfolding e unat_div u by simp
  finally have "1 \<le> (of_int (- int m) div 1000 :: u64)" unfolding word_le_nat_alt by simp
  then have late: "tokens_at (now + 1000000 * - 1000) b = 1" by (simp only: tokens_at_def m(1) assms(2,3) cap) (simp add: min_def)
  have "unat (tokens_at now b) = 0"
  proof -
    have "to_ms ?d < 1000" using assms(4,5) by (simp add: to_ms_def)
    moreover from this have "span_ok now b" using assms(4) by (simp add: span_ok_def)
    ultimately show ?thesis using tokens_at_value [OF assms(1)] assms(2,3) by simp
  qed
  then have "tokens_at now b = 0" by (simp add: unat_eq_zero)
  then show ?thesis using w late by (simp add: consume_tokens_def Let_def cap)
qed

text \<open>A limit of zero samples is tested after the first sample has been counted, and does not stop the
  thread then.\<close>

lemma zero_samples_continue:
  assumes "dc_max_samples dc = 0" and "rk_phase k = Write d" and "rk_message_count k = 0" and "ti_written i"
    and "ti_later i \<le> rk_final_time k"
  shows "rk_phase (read_task_step dc i k) = Head"
  using assms by (simp add: Let_def end_of_body_def stop_cond_def max_samples_unlimited_def)

text \<open>A sample larger than the capacity is refused for ever, without a wait.\<close>

lemma large_sample_stuck:
  assumes "tb_capacity (rk_token_bucket k) < of_nat (length d)" and "rk_phase k = Throttle d" and "list_all ti_running is"
  shows "snd (snd (read_task_run dc is k)) = k" "fst (snd (read_task_run dc is k)) = []"
proof -
  have "read_task_step dc i k = k" if "ti_running i" for i
    using that assms(1,2) by (simp add: consume_tokens_def)
  with assms(2,3) show "snd (snd (read_task_run dc is k)) = k" "fst (snd (read_task_run dc is k)) = []"
    by (induction "is") (simp_all add: Let_def split_def del: read_task_step.simps)
qed

subsection \<open>A reader with two samples\<close>

definition example_control :: DataDeliveryControl where
  "example_control = \<lparr>dc_max_samples = 2, dc_max_elapsed_time = 0, dc_max_bytes_per_second = 10, dc_min_pace_period = 0\<rparr>"

definition example_inputs :: "task_input list" where
  "example_inputs =
     [\<lparr>ti_running = True, ti_now = 0, ti_later = 0, ti_read = Some [1, 2, 3, 4, 5, 6], ti_written = False\<rparr>,
      \<lparr>ti_running = True, ti_now = 0, ti_later = 0, ti_read = None, ti_written = False\<rparr>,
      \<lparr>ti_running = True, ti_now = 0, ti_later = 0, ti_read = None, ti_written = True\<rparr>,
      \<lparr>ti_running = True, ti_now = 300000000, ti_later = 300000000, ti_read = Some [7, 8, 9, 10, 11, 12], ti_written = False\<rparr>,
      \<lparr>ti_running = True, ti_now = 300000000, ti_later = 300000000, ti_read = None, ti_written = False\<rparr>,
      \<lparr>ti_running = True, ti_now = 400000000, ti_later = 400000000, ti_read = None, ti_written = True\<rparr>]"

lemma example_run:
  "fst (snd (read_task_run example_control example_inputs (read_task_init example_control 0))) = [[1, 2, 3, 4, 5, 6], [7, 8, 9, 10, 11, 12]]"
  "timely example_control 0 example_inputs (read_task_init example_control 0)"
  "task_end example_control 0 example_inputs (read_task_init example_control 0) = 400000000"
  by (simp_all add: example_control_def example_inputs_def read_task_init_def read_task_rate_def TokenBucket_new_def
      write_timeout_def max_timeout_def time_point_max_def to_ms_def consume_tokens_def tokens_at_def token_wait_def
      end_of_body_def stop_cond_def max_samples_unlimited_def task_clock_def)

text \<open>A period that begins after the first sample has been paid for: it and the second one are sent in it.\<close>

definition example_state :: ReadTask where
  "example_state = snd (snd (read_task_run example_control (take 2 example_inputs) (read_task_init example_control 0)))"

lemma example_period:
  "rk_phase example_state = Write [1, 2, 3, 4, 5, 6]"
  "fst (snd (read_task_run example_control (drop 2 example_inputs) example_state)) = [[1, 2, 3, 4, 5, 6], [7, 8, 9, 10, 11, 12]]"
  "task_end example_control 0 (take 2 example_inputs) (read_task_init example_control 0) = 0"
  "task_end example_control 0 (drop 2 example_inputs) example_state = 400000000"
  by (simp_all add: example_state_def example_control_def example_inputs_def read_task_init_def read_task_rate_def TokenBucket_new_def
      write_timeout_def max_timeout_def time_point_max_def to_ms_def consume_tokens_def tokens_at_def token_wait_def
      end_of_body_def stop_cond_def max_samples_unlimited_def task_clock_def)

theorem reader_rate_limited_witness:
  "rk_phase example_state = Write [1, 2, 3, 4, 5, 6]
   \<and> fst (snd (read_task_run example_control (drop 2 example_inputs) example_state)) = [[1, 2, 3, 4, 5, 6], [7, 8, 9, 10, 11, 12]]
   \<and> 1000 * length (concat (fst (snd (read_task_run example_control (drop 2 example_inputs) example_state))))
      \<le> 1000 * 6 + 10 * (1000 + 400)"
proof -
  obtain fs1 ds1 where run1: "read_task_run example_control (take 2 example_inputs) (read_task_init example_control 0) = (fs1, ds1, example_state)"
    unfolding example_state_def by (metis prod.collapse)
  obtain fs2 ds2 k2 where run2: "read_task_run example_control (drop 2 example_inputs) example_state = (fs2, ds2, k2)"
    by (metis prod_cases3)
  have ds: "ds2 = [[1, 2, 3, 4, 5, 6], [7, 8, 9, 10, 11, 12]]" using run2 example_period(2) by simp
  have "unat (dc_max_bytes_per_second example_control) = 10" by (simp add: example_control_def)
  then show ?thesis
    using reader_rate_limited [OF _ _ run1 example_period(3) run2 example_period(4)] example_run(2)
    by (simp add: run2 ds to_ms_def example_period(1) paid_def)
qed

theorem reader_delivers_in_order_witness:
  "length (fst (snd (read_task_run example_control example_inputs (read_task_init example_control 0)))) = 2
   \<and> rk_phase (snd (snd (read_task_run example_control example_inputs (read_task_init example_control 0)))) = Exited"
proof -
  obtain fs ds k where run: "read_task_run example_control (example_inputs @ []) (read_task_init example_control 0) = (fs, ds, k)"
    by (metis prod_cases3)
  have "list_all ti_running example_inputs" by (simp add: example_inputs_def)
  from reader_delivers_in_order [OF this _ run] run example_run(1) show ?thesis
    by (simp add: example_control_def max_samples_unlimited_def)
qed

end
