(* ===== verification/Proxy_Client.thy ===== *)
theory Proxy_Client
  imports XRCE_Session Ced_Process XRCE_Payloads Reader_Task
begin

text \<open>
  \<open>ProxyClient\<close> (\<open>src/cpp/client/ProxyClient.cpp\<close>), what the agent keeps for one client, and the XRCE
  object classes it creates (\<open>Participant\<close>, \<open>Topic\<close>, \<open>Publisher\<close>, \<open>Subscriber\<close>, \<open>DataWriter\<close>,
  \<open>DataReader\<close>, \<open>Requester\<close>, \<open>Replier\<close>), over any \<open>Middleware\<close>.  Decoding of binary representations
  (generated type support over Fast-CDR) is the parameter \<open>D\<close>; an exception it raises leaves
  \<open>create_object\<close>, so that function is partial.  Times are in nanoseconds of the steady clock.
\<close>

subsection \<open>Identifiers\<close>

definition objectid_to_raw :: "ObjectId \<Rightarrow> u16" where
  "objectid_to_raw object_id = drop_bit 4 (ucast (snd object_id)) + push_bit 4 (ucast (fst object_id))"

definition raw_to_objectid :: "u16 \<Rightarrow> u8 \<Rightarrow> ObjectId" where
  "raw_to_objectid raw kind = (ucast (drop_bit 4 raw), ucast (push_bit 4 raw OR (ucast kind :: u16)))"

definition clientkey_to_raw :: "u8 list \<Rightarrow> u32" where
  "clientkey_to_raw k = push_bit 24 (ucast (k ! 0)) + push_bit 16 (ucast (k ! 1)) + push_bit 8 (ucast (k ! 2)) + ucast (k ! 3)"

definition raw_to_clientkey :: "u32 \<Rightarrow> u8 list" where
  "raw_to_clientkey key = [ucast (drop_bit 24 key), ucast (drop_bit 16 key), ucast (drop_bit 8 key), ucast key]"

subsection \<open>Kinds\<close>

fun object_kind :: "entity \<Rightarrow> u8" where
  "object_kind E_participant = 1"
| "object_kind E_topic = 2"
| "object_kind E_publisher = 3"
| "object_kind E_subscriber = 4"
| "object_kind E_datawriter = 5"
| "object_kind E_datareader = 6"
| "object_kind E_requester = 7"
| "object_kind E_replier = 8"

type_synonym decoder = "entity \<Rightarrow> 16 word \<Rightarrow> bool \<Rightarrow> u8 list \<Rightarrow> binary_object option"

subsection \<open>The XRCE objects\<close>

text \<open>Data readers, requesters and repliers have a reading thread; the others leave it unused.\<close>

record xrce_object =
  xo_id :: ObjectId
  xo_entity :: entity
  xo_reader :: Reader

text \<open>The \<open>create\<close> functions hand the representation to the middleware; \<open>p\<close> is the domain of a
  participant and the raw identifier of the parent otherwise.\<close>

definition create_three_formats :: "'w Middleware \<Rightarrow> decoder \<Rightarrow> entity \<Rightarrow> ObjectId \<Rightarrow> u16 \<Rightarrow> ObjectVariant \<Rightarrow> 'w
    \<Rightarrow> (bool \<times> 'w) option" where
  "create_three_formats M D e object_id p ov w =
     (case ov_representation ov of
        By_reference ref \<Rightarrow> mw_create_by_ref M e (objectid_to_raw object_id) p ref w
      | As_xml_string xml \<Rightarrow> mw_create_by_xml M e (objectid_to_raw object_id) p xml w
      | In_binary bs \<Rightarrow>
          (case D e (ov_domain_id ov) (ov_endianness ov) bs of
             None \<Rightarrow> None
           | Some y \<Rightarrow> mw_create_by_bin M e (objectid_to_raw object_id) p y w)
      | Other_format _ \<Rightarrow> Some (False, w))"

definition create_two_formats :: "'w Middleware \<Rightarrow> decoder \<Rightarrow> entity \<Rightarrow> ObjectId \<Rightarrow> u16 \<Rightarrow> ObjectVariant \<Rightarrow> 'w
    \<Rightarrow> (bool \<times> 'w) option" where
  "create_two_formats M D e object_id p ov w =
     (case ov_representation ov of
        As_xml_string xml \<Rightarrow> mw_create_by_xml M e (objectid_to_raw object_id) p xml w
      | In_binary bs \<Rightarrow>
          (case D e (ov_domain_id ov) (ov_endianness ov) bs of
             None \<Rightarrow> None
           | Some y \<Rightarrow> mw_create_by_bin M e (objectid_to_raw object_id) p y w)
      | _ \<Rightarrow> Some (False, w))"

definition Participant_create where
  "Participant_create M D object_id ov = create_three_formats M D E_participant object_id (ov_domain_id ov) ov"

definition Topic_create where
  "Topic_create M D object_id participant_id ov = create_three_formats M D E_topic object_id participant_id ov"

definition Publisher_create where
  "Publisher_create M D object_id participant_id ov = create_two_formats M D E_publisher object_id participant_id ov"

definition Subscriber_create where
  "Subscriber_create M D object_id participant_id ov = create_two_formats M D E_subscriber object_id participant_id ov"

definition DataWriter_create where
  "DataWriter_create M D object_id publisher_id ov = create_three_formats M D E_datawriter object_id publisher_id ov"

definition DataReader_create where
  "DataReader_create M D object_id subscriber_id ov = create_three_formats M D E_datareader object_id subscriber_id ov"

definition Requester_create where
  "Requester_create M D object_id participant_id ov = create_three_formats M D E_requester object_id participant_id ov"

definition Replier_create where
  "Replier_create M D object_id participant_id ov = create_three_formats M D E_replier object_id participant_id ov"

text \<open>\<open>matched\<close>: the kind first, then the middleware; publishers and subscribers always match.  \<open>None\<close> is
  an exception of the decoder.\<close>

definition matched_three_formats :: "'w Middleware \<Rightarrow> decoder \<Rightarrow> xrce_object \<Rightarrow> ObjectVariant \<Rightarrow> 'w \<Rightarrow> bool option" where
  "matched_three_formats M D obj ov w =
     (let e = xo_entity obj; raw = objectid_to_raw (xo_id obj)
      in if snd (xo_id obj) AND 0x0F \<noteq> ov_d ov then Some False
         else case ov_representation ov of
                By_reference ref \<Rightarrow> Some (mw_matched_from_ref M e raw (ov_domain_id ov) ref w)
              | As_xml_string xml \<Rightarrow> Some (mw_matched_from_xml M e raw (ov_domain_id ov) xml w)
              | In_binary bs \<Rightarrow> map_option (\<lambda>y. mw_matched_from_bin M e raw (ov_domain_id ov) y w)
                                  (D e (ov_domain_id ov) (ov_endianness ov) bs)
              | Other_format _ \<Rightarrow> Some False)"

definition object_matched :: "'w Middleware \<Rightarrow> decoder \<Rightarrow> xrce_object \<Rightarrow> ObjectVariant \<Rightarrow> 'w \<Rightarrow> bool option" where
  "object_matched M D obj ov w =
     (if xo_entity obj = E_publisher \<or> xo_entity obj = E_subscriber then Some True
      else matched_three_formats M D obj ov w)"

text \<open>The destructors stop the reading thread and delete the entity from the middleware.\<close>

definition object_destroy :: "'w Middleware \<Rightarrow> xrce_object \<Rightarrow> 'w \<Rightarrow> 'w" where
  "object_destroy M obj w = snd (mw_delete M (xo_entity obj) (objectid_to_raw (xo_id obj)) w)"

subsection \<open>The proxy of a client\<close>

datatype client_state = alive | dead | to_remove

record 'w ProxyClient =
  pc_representation :: CLIENT_Representation
  pc_middleware :: 'w
  pc_objects :: "ObjectId \<rightharpoonup> xrce_object"
  pc_session :: Session
  pc_state :: client_state
  pc_timestamp :: int
  pc_properties :: "string \<rightharpoonup> string"
  pc_client_dead_time :: int
  pc_hard_liveliness_check :: bool
  pc_hard_liveliness_check_tries :: u8

text \<open>\<open>std::stoi\<close>: leading white space, a sign, decimal digits; \<open>None\<close> for the exceptions
  \<open>invalid_argument\<close> and \<open>out_of_range\<close>.\<close>

fun digits_value :: "string \<Rightarrow> nat option \<Rightarrow> nat option" where
  "digits_value [] acc = acc"
| "digits_value (c # cs) acc =
     (if 48 \<le> (of_char c :: nat) \<and> (of_char c :: nat) \<le> 57
      then digits_value cs (Some (10 * (case acc of None \<Rightarrow> 0 | Some n \<Rightarrow> n) + (of_char c - 48)))
      else acc)"

definition int_in_range :: "int \<Rightarrow> int option" where
  "int_in_range i = (if - (2 ^ 31) \<le> i \<and> i < 2 ^ 31 then Some i else None)"

definition stoi :: "string \<Rightarrow> int option" where
  "stoi s =
     (let t = dropWhile (\<lambda>c. c \<in> {CHR '' '', CHR 0x09, CHR 0x0A, CHR 0x0B, CHR 0x0C, CHR 0x0D}) s
      in case t of
           [] \<Rightarrow> None
         | c # cs \<Rightarrow>
             if c = CHR ''-'' then Option.bind (digits_value cs None) (\<lambda>n. int_in_range (- int n))
             else if c = CHR ''+'' then Option.bind (digits_value cs None) (\<lambda>n. int_in_range (int n))
             else Option.bind (digits_value t None) (\<lambda>n. int_in_range (int n)))"

text \<open>The middlewares a proxy can be given, with both profiles built: the case of no middleware falls
  through to Fast DDS.\<close>

datatype Middleware_Kind = Kind_NONE | Kind_FASTDDS | Kind_CED

record 'w middleware_factory =
  new_fastdds :: "bool \<Rightarrow> 'w"
  new_ced :: "u32 \<Rightarrow> 'w"

definition choose_middleware :: "'w middleware_factory \<Rightarrow> Middleware_Kind \<Rightarrow> CLIENT_Representation \<Rightarrow> (string \<rightharpoonup> string) \<Rightarrow> 'w" where
  "choose_middleware F kind repr properties =
     (case kind of
        Kind_CED \<Rightarrow> new_ced F (clientkey_to_raw (cr_client_key repr))
      | _ \<Rightarrow> new_fastdds F (properties ''uxr_sm'' = Some ''1''))"

text \<open>The constructor; \<open>tries\<close> is the content of the member it leaves uninitialised, \<open>None\<close> the
  exception of \<open>std::stoi\<close> on the property \<open>uxr_hl\<close>.\<close>

definition ProxyClient_new :: "'w middleware_factory \<Rightarrow> int \<Rightarrow> u8 \<Rightarrow> int \<Rightarrow> CLIENT_Representation \<Rightarrow> Middleware_Kind
    \<Rightarrow> (string \<rightharpoonup> string) \<Rightarrow> 'w ProxyClient option" where
  "ProxyClient_new F CLIENT_DEAD_TIME tries now repr kind properties =
     (let pc = \<lparr>pc_representation = repr, pc_middleware = choose_middleware F kind repr properties,
                pc_objects = Map.empty,
                pc_session = Session_new \<lparr>si_client_key = cr_client_key repr,
                  si_session_id = cr_session_id repr, si_mtu = unat (cr_mtu repr)\<rparr>,
                pc_state = alive, pc_timestamp = now, pc_properties = properties,
                pc_client_dead_time = CLIENT_DEAD_TIME, pc_hard_liveliness_check = False,
                pc_hard_liveliness_check_tries = tries\<rparr>
      in case properties ''uxr_hl'' of
           None \<Rightarrow> Some pc
         | Some v \<Rightarrow> map_option (\<lambda>ms. pc\<lparr>pc_hard_liveliness_check := True, pc_client_dead_time := ms\<rparr>) (stoi v))"

definition get_object :: "ObjectId \<Rightarrow> 'w ProxyClient \<Rightarrow> xrce_object option" where
  "get_object object_id pc = pc_objects pc object_id"

definition delete_object_unlock :: "'w Middleware \<Rightarrow> ObjectId \<Rightarrow> 'w ProxyClient \<Rightarrow> bool \<times> 'w ProxyClient" where
  "delete_object_unlock M object_id pc =
     (case pc_objects pc object_id of
        None \<Rightarrow> (False, pc)
      | Some obj \<Rightarrow> (True, pc\<lparr>pc_objects := (pc_objects pc)(object_id := None),
                              pc_middleware := object_destroy M obj (pc_middleware pc)\<rparr>))"

definition delete_object :: "'w Middleware \<Rightarrow> ObjectId \<Rightarrow> 'w ProxyClient \<Rightarrow> status \<times> 'w ProxyClient" where
  "delete_object M object_id pc =
     (case delete_object_unlock M object_id pc of
        (True, pc') \<Rightarrow> (STATUS_OK, pc')
      | (False, pc') \<Rightarrow> (STATUS_ERR_UNKNOWN_REFERENCE, pc'))"

text \<open>What follows the \<open>create\<close> of an object in every \<open>create_\<close> function: the object is entered, or the
  status says why not.  A created object that cannot be entered is destroyed again.\<close>

definition enter_object :: "'w Middleware \<Rightarrow> entity \<Rightarrow> ObjectId \<Rightarrow> bool \<times> 'w \<Rightarrow> 'w ProxyClient \<Rightarrow> status \<times> 'w ProxyClient" where
  "enter_object M e object_id created pc =
     (let obj = \<lparr>xo_id = object_id, xo_entity = e, xo_reader = Reader_new\<rparr>
      in if fst created
         then if pc_objects pc object_id = None
              then (STATUS_OK, pc\<lparr>pc_objects := (pc_objects pc)(object_id \<mapsto> obj), pc_middleware := snd created\<rparr>)
              else (STATUS_ERR_RESOURCES, pc\<lparr>pc_middleware := object_destroy M obj (snd created)\<rparr>)
         else (STATUS_ERR_DDS_ERROR, pc\<lparr>pc_middleware := snd created\<rparr>))"

definition create_participant :: "'w Middleware \<Rightarrow> decoder \<Rightarrow> ObjectId \<Rightarrow> ObjectVariant \<Rightarrow> 'w ProxyClient
    \<Rightarrow> (status \<times> 'w ProxyClient) option" where
  "create_participant M D object_id ov pc =
     map_option (\<lambda>c. enter_object M E_participant object_id c pc) (Participant_create M D object_id ov (pc_middleware pc))"

text \<open>The parent's identifier, with the kind the parent must have.\<close>

definition parent_id :: "entity \<Rightarrow> ObjectVariant \<Rightarrow> ObjectId" where
  "parent_id e ov = (fst (ov_parent ov), (snd (ov_parent ov) AND 0xF0) OR object_kind e)"

definition create_child :: "'w Middleware \<Rightarrow> entity \<Rightarrow> ObjectId \<Rightarrow> ObjectId \<Rightarrow> (u16 \<Rightarrow> 'w \<Rightarrow> (bool \<times> 'w) option)
    \<Rightarrow> 'w ProxyClient \<Rightarrow> (status \<times> 'w ProxyClient) option" where
  "create_child M e object_id parent create pc =
     (if pc_objects pc parent = None then Some (STATUS_ERR_UNKNOWN_REFERENCE, pc)
      else map_option (\<lambda>c. enter_object M e object_id c pc) (create (objectid_to_raw parent) (pc_middleware pc)))"

definition create_topic_object where
  "create_topic_object M D object_id ov =
     create_child M E_topic object_id (parent_id E_participant ov) (\<lambda>p. Topic_create M D object_id p ov)"

definition create_publisher_object where
  "create_publisher_object M D object_id ov =
     create_child M E_publisher object_id (parent_id E_participant ov) (\<lambda>p. Publisher_create M D object_id p ov)"

definition create_subscriber_object where
  "create_subscriber_object M D object_id ov =
     create_child M E_subscriber object_id (parent_id E_participant ov) (\<lambda>p. Subscriber_create M D object_id p ov)"

definition create_datawriter_object where
  "create_datawriter_object M D object_id ov =
     create_child M E_datawriter object_id (parent_id E_publisher ov) (\<lambda>p. DataWriter_create M D object_id p ov)"

definition create_datareader_object where
  "create_datareader_object M D object_id ov =
     create_child M E_datareader object_id (parent_id E_subscriber ov) (\<lambda>p. DataReader_create M D object_id p ov)"

definition create_requester_object where
  "create_requester_object M D object_id ov =
     create_child M E_requester object_id (parent_id E_participant ov) (\<lambda>p. Requester_create M D object_id p ov)"

definition create_replier_object where
  "create_replier_object M D object_id ov =
     create_child M E_replier object_id (parent_id E_participant ov) (\<lambda>p. Replier_create M D object_id p ov)"

definition create_object_dispatch :: "'w Middleware \<Rightarrow> decoder \<Rightarrow> ObjectId \<Rightarrow> ObjectVariant \<Rightarrow> 'w ProxyClient
    \<Rightarrow> (status \<times> 'w ProxyClient) option" where
  "create_object_dispatch M D object_id ov pc =
     (if ov_d ov = 1 then create_participant M D object_id ov pc
      else if ov_d ov = 2 then create_topic_object M D object_id ov pc
      else if ov_d ov = 3 then create_publisher_object M D object_id ov pc
      else if ov_d ov = 4 then create_subscriber_object M D object_id ov pc
      else if ov_d ov = 5 then create_datawriter_object M D object_id ov pc
      else if ov_d ov = 6 then create_datareader_object M D object_id ov pc
      else if ov_d ov = 7 then create_requester_object M D object_id ov pc
      else if ov_d ov = 8 then create_replier_object M D object_id ov pc
      else Some (STATUS_OK, pc))"

text \<open>\<open>create_object\<close> by creation mode (Table 7 of the XRCE specification).  The status starts as
  \<open>STATUS_OK\<close> and the \<open>create_\<close> functions only overwrite it on errors.\<close>

definition variant_id :: "ObjectId \<Rightarrow> ObjectVariant \<Rightarrow> ObjectId" where
  "variant_id object_prefix ov = (fst object_prefix, (snd object_prefix AND 0xF0) OR ov_d ov)"

definition replace_object :: "'w Middleware \<Rightarrow> decoder \<Rightarrow> ObjectId \<Rightarrow> ObjectVariant \<Rightarrow> 'w ProxyClient
    \<Rightarrow> (status \<times> 'w ProxyClient) option" where
  "replace_object M D object_id ov pc =
     create_object_dispatch M D object_id ov (snd (delete_object_unlock M object_id pc))"

definition create_object :: "'w Middleware \<Rightarrow> decoder \<Rightarrow> CreationMode \<Rightarrow> ObjectId \<Rightarrow> ObjectVariant \<Rightarrow> 'w ProxyClient
    \<Rightarrow> (status \<times> 'w ProxyClient) option" where
  "create_object M D mode object_prefix ov pc =
     (let object_id = variant_id object_prefix ov
      in case pc_objects pc object_id of
           None \<Rightarrow> create_object_dispatch M D object_id ov pc
         | Some obj \<Rightarrow>
             if \<not> cm_reuse mode
             then if \<not> cm_replace mode then Some (STATUS_ERR_ALREADY_EXISTS, pc)
                  else replace_object M D object_id ov pc
             else case object_matched M D obj ov (pc_middleware pc) of
                    None \<Rightarrow> None
                  | Some True \<Rightarrow> Some (STATUS_OK_MATCHED, pc)
                  | Some False \<Rightarrow>
                      if \<not> cm_replace mode then Some (STATUS_ERR_MISMATCH, pc)
                      else replace_object M D object_id ov pc)"

text \<open>\<open>release\<close> clears the map; \<open>ids\<close> is the order in which the hash map destroys its entries.\<close>

fun release :: "'w Middleware \<Rightarrow> ObjectId list \<Rightarrow> 'w ProxyClient \<Rightarrow> 'w ProxyClient" where
  "release M [] pc = pc"
| "release M (i # ids) pc = release M ids (snd (delete_object_unlock M i pc))"

text \<open>Liveliness.\<close>

definition get_state :: "int \<Rightarrow> 'w ProxyClient \<Rightarrow> client_state \<times> 'w ProxyClient" where
  "get_state now pc =
     (if pc_state pc = alive
      then let s = (if (now - pc_timestamp pc) div 1000000 < pc_client_dead_time pc then alive else dead)
           in (s, pc\<lparr>pc_state := s\<rparr>)
      else (pc_state pc, pc))"

definition update_state :: "int \<Rightarrow> client_state \<Rightarrow> 'w ProxyClient \<Rightarrow> 'w ProxyClient" where
  "update_state now st pc =
     (let pc1 = pc\<lparr>pc_state := st\<rparr>
      in if st = alive then pc1\<lparr>pc_timestamp := now, pc_hard_liveliness_check_tries := 0\<rparr> else pc1)"

subsection \<open>Identifiers and entities\<close>

lemma objectid_to_raw_or:
  "objectid_to_raw (a, b) = drop_bit 4 (ucast b) OR push_bit 4 (ucast a)"
proof -
  have "\<not> bit (drop_bit 4 (ucast b) :: u16) n \<or> \<not> bit (push_bit 4 (ucast a) :: u16) n" for n
    by (auto simp: bit_simps dest: bit_imp_le_length)
  from disjunctive_add [OF this] show ?thesis by (simp add: objectid_to_raw_def)
qed

lemma raw_to_objectid_back: "raw_to_objectid (objectid_to_raw x) (snd x AND 15) = x"
proof -
  obtain a b where x: "x = (a, b)" by (cases x)
  have m: "(15 :: u8) = mask 4" by (simp add: mask_eq_exp_minus_1)
  have "ucast (drop_bit 4 (objectid_to_raw x)) = a"
    unfolding x objectid_to_raw_or by (rule bit_word_eqI) (auto simp: bit_simps dest: bit_imp_le_length)
  moreover have "ucast (push_bit 4 (objectid_to_raw x) OR (ucast (b AND 15) :: u16)) = b"
    unfolding x objectid_to_raw_or m by (rule bit_word_eqI) (auto simp: bit_simps dest: bit_imp_le_length)
  ultimately show ?thesis by (simp add: raw_to_objectid_def x)
qed

text \<open>The raw identifier and the kind determine an object identifier.\<close>

lemma objectid_to_raw_inject:
  assumes "objectid_to_raw x = objectid_to_raw y" and "snd x AND 15 = snd y AND 15"
  shows "x = y"
  using assms by (metis raw_to_objectid_back)

subsection \<open>The objects of a client and the entities of its middleware\<close>

definition pc_typed :: "'w ProxyClient \<Rightarrow> bool" where
  "pc_typed pc \<longleftrightarrow> (\<forall>i obj. pc_objects pc i = Some obj \<longrightarrow> xo_id obj = i \<and> snd i AND 15 = object_kind (xo_entity obj))"

definition pc_sync :: "(entity \<Rightarrow> u16 \<Rightarrow> 'w \<Rightarrow> bool) \<Rightarrow> 'w ProxyClient \<Rightarrow> bool" where
  "pc_sync has pc \<longleftrightarrow> (\<forall>e i. snd i AND 15 = object_kind e \<longrightarrow>
     (pc_objects pc i \<noteq> None \<longleftrightarrow> has e (objectid_to_raw i) (pc_middleware pc)))"

text \<open>What an attempt to create an object leaves behind.\<close>

definition creation_outcome :: "ObjectId \<Rightarrow> ObjectVariant \<Rightarrow> 'w ProxyClient \<Rightarrow> status \<Rightarrow> 'w ProxyClient \<Rightarrow> bool" where
  "creation_outcome i ov pc st pc' \<longleftrightarrow>
     (\<forall>j. j \<noteq> i \<longrightarrow> pc_objects pc' j = pc_objects pc j)
     \<and> (st = STATUS_OK \<or> st = STATUS_ERR_DDS_ERROR \<or> st = STATUS_ERR_UNKNOWN_REFERENCE)
     \<and> (st \<noteq> STATUS_OK \<longrightarrow> pc_objects pc' i = None)
     \<and> (\<forall>e. ov_d ov = object_kind e \<longrightarrow> st = STATUS_OK \<longrightarrow> pc_objects pc' i = Some \<lparr>xo_id = i, xo_entity = e, xo_reader = Reader_new\<rparr>)"

lemma object_kind_inject [simp]: "object_kind e = object_kind e' \<longleftrightarrow> e = e'"
  by (cases e; cases e') simp_all

lemma variant_id_kind: "ov_d ov = object_kind e \<Longrightarrow> snd (variant_id object_prefix ov) AND 15 = object_kind e"
  by (cases e) (simp_all add: variant_id_def bit.conj_disj_distrib2 and.assoc)

text \<open>Every stored object carries its key and the kind of its entity, the middleware has exactly the
  entities of the stored objects, and its own invariant holds.\<close>

definition pc_inv :: "(entity \<Rightarrow> u16 \<Rightarrow> 'w \<Rightarrow> bool) \<Rightarrow> ('w \<Rightarrow> bool) \<Rightarrow> 'w ProxyClient \<Rightarrow> bool" where
  "pc_inv has ok pc \<longleftrightarrow> pc_typed pc \<and> pc_sync has pc \<and> ok (pc_middleware pc)"

lemma pc_typedD: "pc_typed pc \<Longrightarrow> pc_objects pc i = Some obj \<Longrightarrow> xo_id obj = i \<and> snd i AND 15 = object_kind (xo_entity obj)"
  unfolding pc_typed_def by blast

lemma pc_syncD: "pc_sync has pc \<Longrightarrow> snd i AND 15 = object_kind e \<Longrightarrow>
    pc_objects pc i \<noteq> None \<longleftrightarrow> has e (objectid_to_raw i) (pc_middleware pc)"
  unfolding pc_sync_def by blast

lemma pc_syncI: "(\<And>e i. snd i AND 15 = object_kind e \<Longrightarrow>
    pc_objects pc i \<noteq> None \<longleftrightarrow> has e (objectid_to_raw i) (pc_middleware pc)) \<Longrightarrow> pc_sync has pc"
  unfolding pc_sync_def by blast

lemma pc_typedI: "(\<And>i obj. pc_objects pc i = Some obj \<Longrightarrow> xo_id obj = i \<and> snd i AND 15 = object_kind (xo_entity obj)) \<Longrightarrow> pc_typed pc"
  unfolding pc_typed_def by blast

text \<open>The creation table of the XRCE specification (Table 7): what is to be done with a request, by the
  creation mode and by whether an object of that identifier is there (\<open>None\<close>) and matches.\<close>

datatype creation_action = Create_object | Keep_object status

fun creation_table :: "CreationMode \<Rightarrow> bool option \<Rightarrow> creation_action" where
  "creation_table mode None = Create_object"
| "creation_table mode (Some match) =
     (if cm_reuse mode \<and> match then Keep_object STATUS_OK_MATCHED
      else if cm_replace mode then Create_object
      else if cm_reuse mode then Keep_object STATUS_ERR_MISMATCH
      else Keep_object STATUS_ERR_ALREADY_EXISTS)"

definition existing_match :: "'w Middleware \<Rightarrow> decoder \<Rightarrow> ObjectId \<Rightarrow> ObjectVariant \<Rightarrow> 'w ProxyClient \<Rightarrow> bool option" where
  "existing_match M D i ov pc =
     map_option (\<lambda>obj. object_matched M D obj ov (pc_middleware pc) = Some True) (pc_objects pc i)"

definition creation_contract :: "CreationMode \<Rightarrow> ObjectId \<Rightarrow> ObjectVariant \<Rightarrow> bool option \<Rightarrow> 'w ProxyClient \<Rightarrow> status
    \<Rightarrow> 'w ProxyClient \<Rightarrow> bool" where
  "creation_contract mode i ov ex pc st pc' \<longleftrightarrow>
     (case creation_table mode ex of
        Keep_object s \<Rightarrow> st = s \<and> pc' = pc
      | Create_object \<Rightarrow> creation_outcome i ov pc st pc')"

lemmas dispatch_defs = create_object_dispatch_def create_topic_object_def
  create_publisher_object_def create_subscriber_object_def create_datawriter_object_def create_datareader_object_def
  create_requester_object_def create_replier_object_def Topic_create_def Publisher_create_def Subscriber_create_def
  DataWriter_create_def DataReader_create_def Requester_create_def Replier_create_def

text \<open>A kind without a \<open>create_\<close> function is answered with \<open>STATUS_OK\<close>, and nothing is created.\<close>

lemma dispatch_unsupported:
  assumes "\<nexists>e. ov_d ov = object_kind e"
  shows "create_object_dispatch M D i ov pc = Some (STATUS_OK, pc)"
proof -
  have "ov_d ov \<noteq> object_kind e" for e using assms by blast
  from this [of E_participant] this [of E_topic] this [of E_publisher] this [of E_subscriber] this [of E_datawriter]
    this [of E_datareader] this [of E_requester] this [of E_replier]
  show ?thesis by (simp add: create_object_dispatch_def)
qed

context dds_middleware
begin

lemma create_formats:
  assumes "ok w"
  shows "create_three_formats M D e i p ov w = Some (b, w') \<Longrightarrow> ok w' \<and> entity_enters has e (objectid_to_raw i) b w w'"
    and "create_two_formats M D e i p ov w = Some (b, w') \<Longrightarrow> ok w' \<and> entity_enters has e (objectid_to_raw i) b w w'"
  using create_ref [OF assms] create_xml [OF assms] create_bin [OF assms] assms
  unfolding create_three_formats_def create_two_formats_def
  by (auto split: representation.splits option.splits)

lemma delete_unlock:
  assumes "pc_inv has ok pc" and "delete_object_unlock M i pc = (b, pc')"
  shows "pc_inv has ok pc' \<and> pc_objects pc' = (pc_objects pc)(i := None) \<and> b = (pc_objects pc i \<noteq> None)"
proof (cases "pc_objects pc i")
  case None
  then have "(pc_objects pc)(i := None) = pc_objects pc" by auto
  with None assms show ?thesis by (simp add: delete_object_unlock_def)
next
  case (Some obj)
  have obj: "xo_id obj = i" "snd i AND 15 = object_kind (xo_entity obj)"
    using pc_typedD [OF _ Some] assms(1) by (simp_all add: pc_inv_def)
  have pc': "pc' = pc\<lparr>pc_objects := (pc_objects pc)(i := None), pc_middleware := object_destroy M obj (pc_middleware pc)\<rparr>" and b
    using assms(2) Some by (simp_all add: delete_object_unlock_def)
  have ok: "ok (pc_middleware pc)" using assms(1) by (simp add: pc_inv_def)
  note del = delete [OF ok prod.collapse [symmetric], of "xo_entity obj" "objectid_to_raw i"]
  have w: "object_destroy M obj (pc_middleware pc) = snd (mw_delete M (xo_entity obj) (objectid_to_raw i) (pc_middleware pc))"
    by (simp add: object_destroy_def obj(1))
  have "pc_sync has pc'"
  proof (rule pc_syncI)
    fix e and j :: ObjectId assume k: "snd j AND 15 = object_kind e"
    have "j = i" if "e = xo_entity obj" "objectid_to_raw j = objectid_to_raw i"
      using objectid_to_raw_inject that k obj(2) by simp
    then show "pc_objects pc' j \<noteq> None \<longleftrightarrow> has e (objectid_to_raw j) (pc_middleware pc')"
      using pc_syncD [of has pc, OF _ k] assms(1) k obj(2) del unfolding pc_inv_def pc' w by auto
  qed
  moreover have "pc_typed pc'"
    using assms(1) pc_typedD [of pc] by (intro pc_typedI) (simp add: pc_inv_def pc' split: if_splits)
  ultimately show ?thesis using Some del pc' \<open>b\<close> w by (simp add: pc_inv_def)
qed

lemma enter_object_outcome:
  assumes "pc_inv has ok pc" and "ok w'" and "entity_enters has e (objectid_to_raw i) b (pc_middleware pc) w'"
    and "snd i AND 15 = object_kind e" and "pc_objects pc i = None" and "ov_d ov = object_kind e"
    and "enter_object M e i (b, w') pc = (st, pc')"
  shows "pc_inv has ok pc' \<and> creation_outcome i ov pc st pc'"
proof -
  let ?obj = "\<lparr>xo_id = i, xo_entity = e, xo_reader = Reader_new\<rparr>"
  let ?objs = "if b then (pc_objects pc)(i \<mapsto> ?obj) else pc_objects pc"
  have pc': "pc' = pc\<lparr>pc_objects := ?objs, pc_middleware := w'\<rparr>" and st: "st = (if b then STATUS_OK else STATUS_ERR_DDS_ERROR)"
    using assms(5,7) by (auto simp: enter_object_def Let_def split: if_splits)
  have "pc_sync has pc'"
  proof (rule pc_syncI)
    fix e' and j :: ObjectId assume k: "snd j AND 15 = object_kind e'"
    have "j = i" if "e' = e" "objectid_to_raw j = objectid_to_raw i"
      using objectid_to_raw_inject that k assms(4) by simp
    then show "pc_objects pc' j \<noteq> None \<longleftrightarrow> has e' (objectid_to_raw j) (pc_middleware pc')"
      using pc_syncD [of has pc, OF _ k] assms(1,3,4) k unfolding pc_inv_def entity_enters_def pc' by auto
  qed
  moreover have "pc_typed pc'"
    using assms(1,4) pc_typedD [of pc] by (intro pc_typedI) (auto simp: pc_inv_def pc' split: if_splits)
  moreover have "creation_outcome i ov pc st pc'" using assms(5,6) by (auto simp: creation_outcome_def pc' st)
  ultimately show ?thesis using assms(2) by (simp add: pc_inv_def pc')
qed

lemma create_child_outcome:
  assumes "pc_inv has ok pc" and "\<And>p b w'. create p (pc_middleware pc) = Some (b, w') \<Longrightarrow>
      ok w' \<and> entity_enters has e (objectid_to_raw i) b (pc_middleware pc) w'"
    and "snd i AND 15 = object_kind e" and "pc_objects pc i = None" and "ov_d ov = object_kind e"
    and "create_child M e i parent create pc = Some (st, pc')"
  shows "pc_inv has ok pc' \<and> creation_outcome i ov pc st pc'"
proof (cases "pc_objects pc parent")
  case None
  then show ?thesis using assms(1,4,6) by (auto simp: create_child_def creation_outcome_def)
next
  case (Some x)
  then obtain b w' where c: "create (objectid_to_raw parent) (pc_middleware pc) = Some (b, w')"
      "enter_object M e i (b, w') pc = (st, pc')"
    using assms(6) by (auto simp: create_child_def)
  from assms(2) [OF c(1)] enter_object_outcome [OF assms(1) _ _ assms(3-5) c(2)] show ?thesis by blast
qed

lemma dispatch_outcome:
  assumes "pc_inv has ok pc" and "ov_d ov = object_kind e" and "snd i AND 15 = object_kind e" and "pc_objects pc i = None"
    and "create_object_dispatch M D i ov pc = Some (st, pc')"
  shows "pc_inv has ok pc' \<and> creation_outcome i ov pc st pc'"
proof -
  have ok: "ok (pc_middleware pc)" using assms(1) by (simp add: pc_inv_def)
  note child = create_child_outcome [OF assms(1) _ assms(3,4,2)]
  show ?thesis
  proof (cases e)
    case E_participant
    then obtain b w' where c: "create_three_formats M D e i (ov_domain_id ov) ov (pc_middleware pc) = Some (b, w')"
        "enter_object M e i (b, w') pc = (st, pc')"
      using assms(2,5) by (auto simp: create_object_dispatch_def create_participant_def Participant_create_def)
    from create_formats(1) [OF ok c(1)] enter_object_outcome [OF assms(1) _ _ assms(3,4,2) c(2)] show ?thesis by blast
  qed (rule child, erule create_formats [OF ok], use assms(2,5) in \<open>simp add: dispatch_defs\<close>)+
qed

lemma dispatch_any_outcome:
  assumes "pc_inv has ok pc" and "pc_objects pc (variant_id object_prefix ov) = None"
    and "create_object_dispatch M D (variant_id object_prefix ov) ov pc = Some (st, pc')"
  shows "pc_inv has ok pc' \<and> creation_outcome (variant_id object_prefix ov) ov pc st pc'"
proof (cases "\<exists>e. ov_d ov = object_kind e")
  case True
  then obtain e where e: "ov_d ov = object_kind e" by blast
  from dispatch_outcome [OF assms(1) e variant_id_kind [OF e] assms(2,3)] show ?thesis .
next
  case False
  then have "st = STATUS_OK" "pc' = pc" using assms(3) by (simp_all add: dispatch_unsupported)
  then show ?thesis using assms(1) False by (auto simp: creation_outcome_def)
qed

lemma replace_outcome:
  assumes "pc_inv has ok pc" and "replace_object M D (variant_id object_prefix ov) ov pc = Some (st, pc')"
  shows "pc_inv has ok pc' \<and> creation_outcome (variant_id object_prefix ov) ov pc st pc'"
proof -
  obtain b pc1 where d: "delete_object_unlock M (variant_id object_prefix ov) pc = (b, pc1)" by fastforce
  note del = delete_unlock [OF assms(1) d]
  have "create_object_dispatch M D (variant_id object_prefix ov) ov pc1 = Some (st, pc')"
    using assms(2) d by (simp add: replace_object_def)
  from dispatch_any_outcome [OF _ _ this] del show ?thesis by (auto simp: creation_outcome_def)
qed

lemma create_object_contract:
  assumes "pc_inv has ok pc" and "create_object M D mode object_prefix ov pc = Some (st, pc')"
  shows "pc_inv has ok pc' \<and> creation_contract mode (variant_id object_prefix ov) ov
    (existing_match M D (variant_id object_prefix ov) ov pc) pc st pc'"
proof (cases "pc_objects pc (variant_id object_prefix ov)")
  case None
  then show ?thesis using assms dispatch_any_outcome
    by (simp add: create_object_def existing_match_def creation_contract_def)
next
  case (Some obj)
  then show ?thesis using assms replace_outcome [OF assms(1), of D object_prefix ov st pc']
    by (auto simp: create_object_def existing_match_def creation_contract_def split: if_splits option.splits bool.splits)
qed

lemma release_empties:
  "pc_inv has ok pc \<Longrightarrow> pc_inv has ok (release M ids pc) \<and> pc_objects (release M ids pc) = (pc_objects pc) |` (- set ids)"
proof (induction ids arbitrary: pc)
  case (Cons i ids)
  obtain b pc1 where d: "delete_object_unlock M i pc = (b, pc1)" by fastforce
  from delete_unlock [OF Cons.prems this] Cons.IH [of pc1] d show ?case
    by (auto simp: restrict_map_def fun_eq_iff)
qed (simp add: restrict_map_def)

end

subsection \<open>The creation table\<close>

text \<open>C13: \<open>ProxyClient::create_object\<close> carries out the creation table of the XRCE specification, over any
  middleware that keeps its contract: where the table says so the request is refused (or answered as matched)
  and nothing changes; otherwise the object, after an existing one of that identifier has been deleted, is
  stored with status \<open>STATUS_OK\<close>, or the status is a DDS error or an unknown parent and no object of that
  identifier is left; objects of other identifiers are untouched, and the stored objects and the entities of the
  middleware stay in correspondence.\<close>

theorem create_object_table:
  assumes "dds_middleware M has ok" and "pc_inv has ok pc"
    and "create_object M D mode object_prefix ov pc = Some (st, pc')"
  shows "pc_inv has ok pc' \<and> creation_contract mode (variant_id object_prefix ov) ov
    (existing_match M D (variant_id object_prefix ov) ov pc) pc st pc'"
  using dds_middleware.create_object_contract [OF assms] .

subsection \<open>A client on the built-in middleware\<close>

text \<open>The operations of the agent on the proxy of a client.\<close>

inductive proxy_run :: "'w Middleware \<Rightarrow> decoder \<Rightarrow> 'w ProxyClient \<Rightarrow> 'w ProxyClient \<Rightarrow> bool"
  for M D pc0 where
  run_start: "proxy_run M D pc0 pc0"
| run_create: "proxy_run M D pc0 pc \<Longrightarrow> create_object M D mode object_prefix ov pc = Some (st, pc') \<Longrightarrow> proxy_run M D pc0 pc'"
| run_delete: "proxy_run M D pc0 pc \<Longrightarrow> delete_object M i pc = (st, pc') \<Longrightarrow> proxy_run M D pc0 pc'"
| run_release: "proxy_run M D pc0 pc \<Longrightarrow> proxy_run M D pc0 (release M ids pc)"
| run_get_state: "proxy_run M D pc0 pc \<Longrightarrow> get_state now pc = (s, pc') \<Longrightarrow> proxy_run M D pc0 pc'"
| run_update_state: "proxy_run M D pc0 pc \<Longrightarrow> proxy_run M D pc0 (update_state now s pc)"

lemma state_ops_inv [simp]:
  "pc_inv has ok (update_state now s pc) = pc_inv has ok pc"
  "pc_inv has ok (snd (get_state now pc)) = pc_inv has ok pc"
  unfolding pc_inv_def pc_typed_def pc_sync_def by (simp_all add: update_state_def get_state_def Let_def)

context dds_middleware
begin

lemma proxy_run_inv: "proxy_run M D pc0 pc \<Longrightarrow> pc_inv has ok pc0 \<Longrightarrow> pc_inv has ok pc"
proof (induction rule: proxy_run.induct)
  case (run_delete pc i st pc')
  obtain b pc1 where d: "delete_object_unlock M i pc = (b, pc1)" by fastforce
  then show ?case using run_delete delete_unlock [OF _ d] by (auto simp: delete_object_def split: bool.splits)
next
  case (run_get_state pc now s pc')
  then show ?case using state_ops_inv(2) [of has ok now pc] by simp
qed (use create_object_contract release_empties in \<open>auto\<close>)

end

definition ced_factory :: "CedTopicManager \<Rightarrow> (bool \<Rightarrow> ced) \<Rightarrow> ced middleware_factory" where
  "ced_factory T fast = \<lparr>new_fastdds = fast, new_ced = \<lambda>k. (CedMiddleware_new k, T)\<rparr>"

lemma new_proxy_inv:
  assumes "tm_ok T" and "ProxyClient_new (ced_factory T fast) dead_time tries now repr Kind_CED props = Some pc0"
  shows "pc_inv ced_has (ced_ok (\<lambda>d name. tm_owners d name T)) pc0"
proof -
  have pc0: "pc_objects pc0 = Map.empty" "pc_middleware pc0 = (CedMiddleware_new (clientkey_to_raw (cr_client_key repr)), T)"
    using assms(2) by (auto simp: ProxyClient_new_def choose_middleware_def ced_factory_def Let_def split: option.splits)
  have "\<not> ced_has e i (CedMiddleware_new k, T)" for e i k
    by (cases e) (simp_all add: ced_has_def CedMiddleware_new_def split: prod.splits)
  then show ?thesis using new_client_ok [OF assms(1)]
    unfolding pc_inv_def by (auto simp: pc_typed_def pc_sync_def pc0)
qed

text \<open>C14: throughout the life of a client on the built-in middleware (creations in any mode, with any
  representation and outcome, deletions, releases, liveliness updates), the proxy and the middleware agree: an
  object identifier of an entity's kind is stored if and only if the middleware has that entity, and
  \<open>release\<close> (over all stored identifiers, in any order) leaves neither objects nor entities.\<close>

theorem proxy_middleware_agree:
  assumes "tm_ok T" and "ProxyClient_new (ced_factory T fast) dead_time tries now repr Kind_CED props = Some pc0"
    and "proxy_run (ced_middleware srcs) D pc0 pc"
    and "snd i AND 15 = object_kind e" and "dom (pc_objects pc) \<subseteq> set ids"
  shows "(get_object i pc \<noteq> None \<longleftrightarrow> ced_has e (objectid_to_raw i) (pc_middleware pc))
    \<and> pc_objects (release (ced_middleware srcs) ids pc) = Map.empty
    \<and> \<not> ced_has e (objectid_to_raw i) (pc_middleware (release (ced_middleware srcs) ids pc))"
proof -
  let ?ok = "ced_ok (\<lambda>d name. tm_owners d name T)"
  have inv: "pc_inv ced_has ?ok pc"
    using ced.proxy_run_inv [OF assms(3) new_proxy_inv [OF assms(1,2)]] .
  note rel = ced.release_empties [OF inv, of srcs ids]
  have "pc_objects pc |` (- set ids) = Map.empty"
    using assms(5) by (auto simp: restrict_map_def fun_eq_iff domIff)
  then show ?thesis
    using rel inv pc_syncD [OF _ assms(4), of ced_has pc] pc_syncD [OF _ assms(4), of ced_has "release (ced_middleware srcs) ids pc"]
    by (simp add: pc_inv_def get_object_def)
qed

subsection \<open>A participant created twice\<close>

definition example_manager :: CedTopicManager where
  "example_manager = \<lparr>tm_topics = Map.empty, tm_on_new_domain = [], tm_on_new_topic = [], tm_calls = []\<rparr>"

definition example_client :: CLIENT_Representation where
  "example_client = \<lparr>cr_xrce_cookie = [0x58, 0x52, 0x43, 0x45], cr_xrce_version = [1, 0], cr_xrce_vendor_id = [1, 15], cr_client_key = [0, 0, 0, 1],
     cr_session_id = 0x81, cr_properties = None, cr_mtu = 512\<rparr>"

definition example_new :: "ced ProxyClient" where
  "example_new = the (ProxyClient_new (ced_factory example_manager (\<lambda>b. (CedMiddleware_new 0, example_manager))) 30000 0 0
     example_client Kind_CED Map.empty)"

definition example_proxy :: "ced ProxyClient" where
  "example_proxy = snd (the (create_object (ced_middleware []) (\<lambda>_ _ _ _. None) \<lparr>cm_reuse = False, cm_replace = False\<rparr> (0, 0x10)
     example_variant example_new))"

lemma example_new_eq:
  "ProxyClient_new (ced_factory example_manager (\<lambda>b. (CedMiddleware_new 0, example_manager))) 30000 0 0 example_client Kind_CED Map.empty
    = Some example_new"
  by (simp add: example_new_def ProxyClient_new_def Let_def)

lemma example_id: "variant_id (0, 0x10) example_variant = (0, 0x11)"
  by (simp add: variant_id_def example_variant_def)

lemma example_new_facts:
  "pc_objects example_new = Map.empty" "tm_ok example_manager"
  "pc_middleware example_new = (CedMiddleware_new 1, example_manager)"
  by (simp_all add: example_new_def ProxyClient_new_def Let_def choose_middleware_def ced_factory_def
      example_client_def clientkey_to_raw_def tm_ok_def example_manager_def domain_topics_def)

lemma new_middleware_empty: "cm_participants (CedMiddleware_new k) i = None"
  by (simp add: CedMiddleware_new_def split: prod.splits)

lemma example_proxy_eq:
  "create_object (ced_middleware []) (\<lambda>_ _ _ _. None) \<lparr>cm_reuse = False, cm_replace = False\<rparr> (0, 0x10) example_variant example_new
    = Some (STATUS_OK, example_proxy)"
  "pc_objects example_proxy = [(0, 0x11) \<mapsto> \<lparr>xo_id = (0, 0x11), xo_entity = E_participant, xo_reader = Reader_new\<rparr>]"
  unfolding example_proxy_def create_object_def example_id Let_def
  by (simp_all add: example_new_facts new_middleware_empty create_object_dispatch_def example_variant_def create_participant_def
      Participant_create_def create_three_formats_def ced_middleware_def ced_create_by_xml_def create_participant_by_xml_def
      create_participant_by_ref_def enter_object_def)

lemma example_again:
  "create_object (ced_middleware []) (\<lambda>_ _ _ _. None) \<lparr>cm_reuse = False, cm_replace = False\<rparr> (0, 0x10) example_variant example_proxy
    = Some (STATUS_ERR_ALREADY_EXISTS, example_proxy)"
  unfolding create_object_def example_id Let_def by (simp add: example_proxy_eq(2))

theorem create_object_table_witness:
  "creation_contract \<lparr>cm_reuse = False, cm_replace = False\<rparr> (0, 0x11) example_variant None example_new STATUS_OK example_proxy
    \<and> creation_contract \<lparr>cm_reuse = False, cm_replace = False\<rparr> (0, 0x11) example_variant
        (existing_match (ced_middleware []) (\<lambda>_ _ _ _. None) (0, 0x11) example_variant example_proxy) example_proxy
        STATUS_ERR_ALREADY_EXISTS example_proxy"
proof -
  note table = create_object_table [OF ced.dds_middleware_axioms, unfolded example_id]
  note new = table [OF new_proxy_inv [OF example_new_facts(2) example_new_eq] example_proxy_eq(1), unfolded example_id]
  from new table [OF conjunct1 [OF new] example_again, unfolded example_id] show ?thesis
    by (simp add: existing_match_def example_new_facts(1))
qed

theorem proxy_middleware_agree_witness:
  "get_object (0, 0x11) example_proxy \<noteq> None \<and> ced_has E_participant (objectid_to_raw (0, 0x11)) (pc_middleware example_proxy)"
proof -
  have run: "proxy_run (ced_middleware []) (\<lambda>_ _ _ _. None) example_new example_proxy"
    by (rule run_create [OF run_start example_proxy_eq(1)])
  have k: "snd (0 :: u8, 0x11 :: u8) AND 15 = object_kind E_participant" by simp
  from proxy_middleware_agree [OF example_new_facts(2) example_new_eq run k, of "[(0, 0x11)]"] example_proxy_eq(2)
  show ?thesis by (simp add: get_object_def)
qed

subsection \<open>Liveliness\<close>

text \<open>after a message of the client at time \<open>t0\<close>, a sequence of liveliness checks finds the client alive
  as long as no check comes \<open>client_dead_time\<close> milliseconds or more after \<open>t0\<close>; from the first such check
  on it is dead, whatever the times of later checks, until it is updated again.\<close>

theorem liveliness:
  "pc_state (fold (\<lambda>now p. snd (get_state now p)) checks (update_state t0 alive pc))
    = (if list_ex (\<lambda>now. pc_client_dead_time pc \<le> (now - t0) div 1000000) checks then dead else alive)"
proof -
  have dead: "pc_state (fold (\<lambda>now p. snd (get_state now p)) checks p) = dead" if "pc_state p = dead" for p :: "'a ProxyClient" and checks
    using that by (induction checks arbitrary: p) (simp_all add: get_state_def)
  have "pc_state (fold (\<lambda>now p. snd (get_state now p)) checks p)
      = (if list_ex (\<lambda>now. pc_client_dead_time p \<le> (now - pc_timestamp p) div 1000000) checks then dead else alive)"
    if "pc_state p = alive" for p :: "'a ProxyClient" and checks
    using that
  proof (induction checks arbitrary: p)
    case (Cons now checks)
    then show ?case using dead [of "p\<lparr>pc_state := dead\<rparr>" checks] by (auto simp: get_state_def Let_def)
  qed simp
  from this [of "update_state t0 alive pc" checks] show ?thesis by (simp add: update_state_def)
qed

end
