(* ===== verification/Ordered_Map.thy ===== *)
theory Ordered_Map
  imports Prelude
begin

text \<open>
  \<open>std::map\<close> with an iterator kept across calls: the entries in key order, and the iterator as the key
  it points at (\<open>None\<close> for \<open>end()\<close>).  Insertion and erasure of other keys leave an iterator valid, as the
  standard guarantees.  \<open>om_rest\<close> is what an iteration from a given iterator still visits.
\<close>

type_synonym ('k, 'v) omap = "('k \<times> 'v) list"

definition om_ok :: "('k::linorder, 'v) omap \<Rightarrow> bool" where
  "om_ok xs \<longleftrightarrow> sorted_wrt (<) (map fst xs)"

definition om_set :: "'k::linorder \<Rightarrow> 'v \<Rightarrow> ('k, 'v) omap \<Rightarrow> ('k, 'v) omap" where
  "om_set k v xs = takeWhile (\<lambda>p. fst p < k) xs @ (k, v) # dropWhile (\<lambda>p. fst p \<le> k) xs"

definition om_erase :: "'k \<Rightarrow> ('k, 'v) omap \<Rightarrow> ('k, 'v) omap" where
  "om_erase k xs = filter (\<lambda>p. fst p \<noteq> k) xs"

definition om_begin :: "('k, 'v) omap \<Rightarrow> 'k option" where
  "om_begin xs = (case xs of [] \<Rightarrow> None | p # _ \<Rightarrow> Some (fst p))"

definition om_next :: "'k::linorder \<Rightarrow> ('k, 'v) omap \<Rightarrow> 'k option" where
  "om_next k xs = om_begin (dropWhile (\<lambda>p. fst p \<le> k) xs)"

definition om_rest :: "'k::linorder option \<Rightarrow> ('k, 'v) omap \<Rightarrow> ('k, 'v) omap" where
  "om_rest it xs = (case it of None \<Rightarrow> [] | Some k \<Rightarrow> dropWhile (\<lambda>p. fst p < k) xs)"

definition om_valid :: "'k option \<Rightarrow> ('k, 'v) omap \<Rightarrow> bool" where
  "om_valid it xs \<longleftrightarrow> (\<forall>k. it = Some k \<longrightarrow> map_of xs k \<noteq> None)"

subsection \<open>The map\<close>

lemma om_ok_simps [simp]:
  "om_ok []" "om_ok ((k, v) # xs) \<longleftrightarrow> (\<forall>p\<in>set xs. k < fst p) \<and> om_ok xs"
  by (auto simp: om_ok_def)

lemma om_set_Cons:
  "om_ok ((a, b) # xs) \<Longrightarrow> om_set k v ((a, b) # xs) =
    (if k < a then (k, v) # (a, b) # xs else if k = a then (k, v) # xs else (a, b) # om_set k v xs)"
  by (cases xs) (auto simp: om_set_def)

lemma map_of_om_set: "om_ok xs \<Longrightarrow> map_of (om_set k v xs) = (map_of xs)(k \<mapsto> v)"
proof (induction xs)
  case (Cons p xs)
  then show ?case by (cases p) (auto simp: om_set_Cons fun_eq_iff)
qed (simp add: om_set_def)

lemma set_om_set: "p \<in> set (om_set k v xs) \<Longrightarrow> p = (k, v) \<or> p \<in> set xs"
  by (auto simp: om_set_def dest: set_takeWhileD set_dropWhileD)

lemma om_ok_set: "om_ok xs \<Longrightarrow> om_ok (om_set k v xs)"
proof (induction xs)
  case (Cons p xs)
  then show ?case by (cases p) (auto simp: om_set_Cons dest: set_om_set)
qed (simp add: om_set_def)

lemma map_of_om_erase: "map_of (om_erase k xs) = (map_of xs)(k := None)"
  by (induction xs) (auto simp: om_erase_def fun_eq_iff)

lemma om_ok_erase: "om_ok xs \<Longrightarrow> om_ok (om_erase k xs)"
proof (induction xs)
  case (Cons p xs)
  then show ?case by (cases p) (auto simp: om_erase_def)
qed (simp add: om_erase_def)

lemma om_ok_distinct: "om_ok xs \<Longrightarrow> distinct (map fst xs)"
  by (induction xs) fastforce+

lemma om_ok_lookup: "om_ok xs \<Longrightarrow> (k, v) \<in> set xs \<longleftrightarrow> map_of xs k = Some v"
  using om_ok_distinct [of xs] by (simp add: map_of_eq_Some_iff)

subsection \<open>The iterator\<close>

lemma om_valid_simps [simp]: "om_valid None xs" "om_valid (Some k) xs \<longleftrightarrow> map_of xs k \<noteq> None"
  by (auto simp: om_valid_def)

lemma om_begin_valid [simp]: "om_valid (om_begin xs) xs"
  by (cases xs) (auto simp: om_begin_def)

lemma om_rest_None [simp]: "om_rest None xs = []"
  by (simp add: om_rest_def)

lemma om_rest_begin: "om_rest (om_begin xs) xs = xs"
  by (cases xs) (auto simp: om_rest_def om_begin_def)

lemma om_begin_drop_valid: "om_valid (om_begin (dropWhile P xs)) xs"
proof (cases "dropWhile P xs")
  case (Cons p ps)
  then have "p \<in> set xs" using set_dropWhileD [of p P xs] by simp
  then have "map_of xs (fst p) \<noteq> None" by (auto simp: map_of_eq_None_iff)
  with Cons show ?thesis by (simp add: om_begin_def)
qed (simp add: om_begin_def del: dropWhile_eq_Nil_conv)

lemma om_next_valid: "om_valid (om_next k xs) xs"
  by (simp add: om_next_def om_begin_drop_valid)

lemma om_rest_step:
  assumes "om_ok xs" and "map_of xs k = Some v"
  shows "om_rest (Some k) xs = (k, v) # om_rest (om_next k xs) xs"
  using assms
proof (induction xs)
  case (Cons p xs)
  show ?case
  proof (cases "fst p = k")
    case True
    then have p: "p = (k, v)" using Cons.prems(2) by (cases p) simp
    then have "dropWhile (\<lambda>q. fst q \<le> k) xs = xs" using Cons.prems(1) by (cases xs) auto
    moreover have "om_rest (om_begin xs) (p # xs) = xs"
      using Cons.prems(1) p by (cases xs) (auto simp: om_rest_def om_begin_def)
    ultimately show ?thesis by (simp add: om_rest_def om_next_def p)
  next
    case False
    then have k: "map_of xs k = Some v" using Cons.prems(2) by (cases p) simp
    then have "fst p < k" using Cons.prems(1) map_of_SomeD [OF k] by (cases p) auto
    moreover from this have "om_rest (om_begin (dropWhile (\<lambda>q. fst q \<le> k) xs)) (p # xs) = om_rest (om_begin (dropWhile (\<lambda>q. fst q \<le> k) xs)) xs"
      by (cases "dropWhile (\<lambda>q. fst q \<le> k) xs") (auto simp: om_rest_def om_begin_def simp del: dropWhile_eq_Nil_conv dest!: dropWhile_eq_Cons_conv [THEN iffD1])
    ultimately show ?thesis using Cons.IH [OF _ k] Cons.prems(1) by (cases p) (auto simp: om_rest_def om_next_def)
  qed
qed simp

lemma om_rest_erase:
  assumes "om_ok xs"
  shows "om_rest it (om_erase j xs) = om_erase j (om_rest it xs)"
proof (cases it)
  case (Some k)
  have "dropWhile (\<lambda>p. fst p < k) (filter (\<lambda>p. fst p \<noteq> j) xs) = filter (\<lambda>p. fst p \<noteq> j) (dropWhile (\<lambda>p. fst p < k) xs)"
    using assms
  proof (induction xs)
    case (Cons p xs)
    show ?case
    proof (cases "fst p < k")
      case False
      then have "\<forall>q\<in>set xs. \<not> fst q < k" using Cons.prems by (cases p) auto
      then have "\<forall>q\<in>set (filter (\<lambda>p. fst p \<noteq> j) xs). \<not> fst q < k" by simp
      then have "dropWhile (\<lambda>p. fst p < k) (filter (\<lambda>p. fst p \<noteq> j) xs) = filter (\<lambda>p. fst p \<noteq> j) xs"
        by (cases "filter (\<lambda>p. fst p \<noteq> j) xs") simp_all
      with False show ?thesis by auto
    qed (use Cons in \<open>cases p, auto\<close>)
  qed simp
  with Some show ?thesis by (simp add: om_rest_def om_erase_def)
qed (simp add: om_erase_def)

lemma om_erase_absent: "map_of xs j = None \<Longrightarrow> om_erase j xs = xs"
  by (auto simp: om_erase_def map_of_eq_None_iff intro!: filter_True)

end
