(* ===== verification/Agent_Root.thy ===== *)
theory Agent_Root
  imports Proxy_Client Ordered_Map "HOL-Library.List_Lexorder"
begin

text \<open>
  \<open>Root\<close> (\<open>src/cpp/Root.cpp\<close>), the agent's directory of clients: a \<open>std::map\<close> from client keys to proxies
  and the iterator \<open>current_client_\<close> with which the heartbeat thread walks over it.  The mutex makes every
  operation one atomic step.  Keys are compared as the arrays of the source, octet by octet.  An operation
  that raises (\<open>std::stoi\<close> in the constructor of a proxy) has no result.  The proxies are independent of each
  other here; what clients of the built-in middleware share is in \<open>Ced_Process\<close>.
\<close>

subsection \<open>State\<close>

definition CLIENTKEY_INVALID :: ClientKey where "CLIENTKEY_INVALID = [0, 0, 0, 0]"
definition XRCE_COOKIE :: "u8 list" where "XRCE_COOKIE = [0x58, 0x52, 0x43, 0x45]"
definition XRCE_VERSION_MAJOR :: u8 where "XRCE_VERSION_MAJOR = 0x01"
definition XRCE_VERSION :: "u8 list" where "XRCE_VERSION = [XRCE_VERSION_MAJOR, 0x00]"
definition EPROSIMA_VENDOR_ID :: "u8 list" where "EPROSIMA_VENDOR_ID = [0x01, 0x0F]"

definition agent_representation :: AGENT_Representation where
  "agent_representation = \<lparr>ar_xrce_cookie = XRCE_COOKIE, ar_xrce_version = XRCE_VERSION,
     ar_xrce_vendor_id = EPROSIMA_VENDOR_ID, ar_properties = None\<rparr>"

record 'w Root =
  rt_clients :: "(ClientKey, 'w ProxyClient) omap"
  rt_current_client :: "ClientKey option"

definition Root_new :: "'w Root" where
  "Root_new = \<lparr>rt_clients = [], rt_current_client = om_begin ([] :: (ClientKey, 'w ProxyClient) omap)\<rparr>"

text \<open>What the constructor of a proxy takes from its surroundings: the middlewares, the configured dead
  time, the content of the uninitialised counter and the clock.\<close>

record 'w agent_env =
  env_factory :: "'w middleware_factory"
  env_client_dead_time :: int
  env_tries :: u8
  env_now :: int

subsection \<open>Operations\<close>

definition get_client :: "ClientKey \<Rightarrow> 'w Root \<Rightarrow> 'w ProxyClient option" where
  "get_client key r = map_of (rt_clients r) key"

text \<open>\<open>insert\<close> keeps the first value of a property.\<close>

definition client_properties :: "CLIENT_Representation \<Rightarrow> string \<rightharpoonup> string" where
  "client_properties repr =
     (case cr_properties repr of
        None \<Rightarrow> Map.empty
      | Some ps \<Rightarrow> fold (\<lambda>(name, val). map_emplace name val) ps Map.empty)"

definition new_proxy :: "'w agent_env \<Rightarrow> CLIENT_Representation \<Rightarrow> Middleware_Kind \<Rightarrow> (string \<rightharpoonup> string) \<Rightarrow> 'w ProxyClient option" where
  "new_proxy E repr kind properties =
     ProxyClient_new (env_factory E) (env_client_dead_time E) (env_tries E) (env_now E) repr kind properties"

text \<open>A client that is known is given a new proxy when its session identifier has changed (without
  properties, and without a release of the old one), and a reset of its streams otherwise.  The second
  component is what is written to the reply (\<open>None\<close>: the reply is left as it was).\<close>

definition create_client :: "'w agent_env \<Rightarrow> CLIENT_Representation \<Rightarrow> Middleware_Kind \<Rightarrow> 'w Root
    \<Rightarrow> (status \<times> AGENT_Representation option \<times> 'w Root) option" where
  "create_client E repr kind r =
     (if cr_client_key repr = CLIENTKEY_INVALID then Some (STATUS_ERR_INVALID_DATA, None, r)
      else map_option (\<lambda>(st, r'). (st, Some agent_representation, r'))
        (if cr_xrce_cookie repr = XRCE_COOKIE
         then if cr_xrce_version repr ! 0 = XRCE_VERSION_MAJOR
              then let key = cr_client_key repr
                   in case get_client key r of
                        None \<Rightarrow> map_option (\<lambda>pc. (STATUS_OK, r\<lparr>rt_clients := om_set key pc (rt_clients r)\<rparr>))
                                  (new_proxy E repr kind (client_properties repr))
                      | Some client \<Rightarrow>
                          if cr_session_id repr \<noteq> cr_session_id (pc_representation client)
                          then map_option (\<lambda>pc. (STATUS_OK, r\<lparr>rt_clients := om_set key pc (rt_clients r)\<rparr>))
                                 (new_proxy E repr kind Map.empty)
                          else Some (STATUS_OK, r\<lparr>rt_clients := om_set key
                                 (client\<lparr>pc_session := Session_reset (pc_session client)\<rparr>) (rt_clients r)\<rparr>)
              else Some (STATUS_ERR_INCOMPATIBLE, r)
         else Some (STATUS_ERR_INVALID_DATA, r)))"

definition root_get_info :: "status \<times> AGENT_Representation" where
  "root_get_info = (STATUS_OK, agent_representation)"

text \<open>\<open>ord\<close> is the order in which the hash map of a proxy releases its objects.  The released proxy is
  returned as well, for callers that hold a pointer to it.\<close>

definition delete_client :: "'w Middleware \<Rightarrow> ('w ProxyClient \<Rightarrow> ObjectId list) \<Rightarrow> ClientKey \<Rightarrow> 'w Root
    \<Rightarrow> status \<times> 'w ProxyClient option \<times> 'w Root" where
  "delete_client M ord key r =
     (case get_client key r of
        None \<Rightarrow> (STATUS_ERR_UNKNOWN_REFERENCE, None, r)
      | Some client \<Rightarrow>
          (STATUS_OK, Some (release M (ord client) client),
           r\<lparr>rt_clients := om_erase key (rt_clients r),
             rt_current_client := (if rt_current_client r = Some key then om_next key (rt_clients r) else rt_current_client r)\<rparr>))"

text \<open>\<open>None\<close>: an iterator that points nowhere is dereferenced.\<close>

definition get_next_client :: "'w Root \<Rightarrow> ('w ProxyClient option \<times> 'w Root) option" where
  "get_next_client r =
     (case rt_current_client r of
        None \<Rightarrow> Some (None, r\<lparr>rt_current_client := om_begin (rt_clients r)\<rparr>)
      | Some k \<Rightarrow> (case get_client k r of
          None \<Rightarrow> None
        | Some client \<Rightarrow> Some (Some client, r\<lparr>rt_current_client := om_next k (rt_clients r)\<rparr>)))"

definition root_reset :: "'w Middleware \<Rightarrow> ('w ProxyClient \<Rightarrow> ObjectId list) \<Rightarrow> 'w Root \<Rightarrow> 'w ProxyClient list \<times> 'w Root" where
  "root_reset M ord r =
     (map (\<lambda>(k, client). release M (ord client) client) (rt_clients r),
      r\<lparr>rt_clients := [], rt_current_client := om_begin ([] :: (ClientKey, 'w ProxyClient) omap)\<rparr>)"

definition Root_destroy :: "'w Middleware \<Rightarrow> ('w ProxyClient \<Rightarrow> ObjectId list) \<Rightarrow> 'w Root \<Rightarrow> 'w ProxyClient list" where
  "Root_destroy M ord r = map (\<lambda>(k, client). release M (ord client) client) (rt_clients r)"

text \<open>A proxy is shared: its owners change it in place.\<close>

definition update_client :: "ClientKey \<Rightarrow> 'w ProxyClient \<Rightarrow> 'w Root \<Rightarrow> 'w Root" where
  "update_client key pc r = (if get_client key r = None then r else r\<lparr>rt_clients := om_set key pc (rt_clients r)\<rparr>)"

subsection \<open>The invariant\<close>

text \<open>The entries are in order, the iterator points at an entry or at the end, and every proxy is stored
  under the key of its representation, which passed the checks of \<open>create_client\<close>.\<close>

definition client_accepted :: "CLIENT_Representation \<Rightarrow> bool" where
  "client_accepted repr \<longleftrightarrow> cr_client_key repr \<noteq> CLIENTKEY_INVALID \<and> cr_xrce_cookie repr = XRCE_COOKIE
     \<and> cr_xrce_version repr ! 0 = XRCE_VERSION_MAJOR"

definition root_ok :: "'w Root \<Rightarrow> bool" where
  "root_ok r \<longleftrightarrow> om_ok (rt_clients r) \<and> om_valid (rt_current_client r) (rt_clients r)
     \<and> (\<forall>k pc. get_client k r = Some pc \<longrightarrow> cr_client_key (pc_representation pc) = k \<and> client_accepted (pc_representation pc))"

lemma new_proxy_fields:
  assumes "new_proxy E repr kind props = Some pc"
  shows "pc_representation pc = repr" "pc_objects pc = Map.empty" "pc_state pc = alive" "pc_properties pc = props"
    "pc_timestamp pc = env_now E"
  using assms by (auto simp: new_proxy_def ProxyClient_new_def Let_def split: option.splits)

lemma root_ok_set:
  assumes "root_ok r" and "cr_client_key (pc_representation pc) = k" and "client_accepted (pc_representation pc)"
  shows "root_ok (r\<lparr>rt_clients := om_set k pc (rt_clients r)\<rparr>)"
  using assms by (auto simp: root_ok_def get_client_def map_of_om_set om_ok_set om_valid_def split: if_splits)

lemma get_client_set:
  "root_ok r \<Longrightarrow> get_client k' (r\<lparr>rt_clients := om_set k pc (rt_clients r)\<rparr>) = (if k' = k then Some pc else get_client k' r)"
  by (simp add: get_client_def map_of_om_set root_ok_def)

lemma root_ok_new: "root_ok Root_new"
  by (simp add: root_ok_def Root_new_def get_client_def om_begin_def)

lemma root_ok_delete:
  assumes "root_ok r" and "delete_client M ord key r = (st, old, r')"
  shows "root_ok r' \<and> get_client k r' = (if k = key then None else get_client k r)
    \<and> st = (if get_client key r = None then STATUS_ERR_UNKNOWN_REFERENCE else STATUS_OK)
    \<and> old = map_option (\<lambda>c. release M (ord c) c) (get_client key r)"
proof (cases "get_client key r")
  case None
  with assms show ?thesis by (auto simp: delete_client_def)
next
  case (Some pc)
  have ok: "om_ok (rt_clients r)" using assms(1) by (simp add: root_ok_def)
  have "om_next key (rt_clients r) \<noteq> Some key"
  proof
    assume "om_next key (rt_clients r) = Some key"
    then obtain p ps where "dropWhile (\<lambda>p. fst p \<le> key) (rt_clients r) = p # ps" "fst p = key"
      by (auto simp: om_next_def om_begin_def split: list.splits)
    then show False using dropWhile_eq_Cons_conv [of "\<lambda>p. fst p \<le> key" "rt_clients r" p ps] by simp
  qed
  then have "om_valid (rt_current_client r') (rt_clients r')"
    using assms Some om_next_valid [of key "rt_clients r"]
    by (auto simp: delete_client_def root_ok_def om_valid_def map_of_om_erase split: if_splits)
  then show ?thesis using assms Some ok
    by (auto simp: delete_client_def root_ok_def get_client_def map_of_om_erase om_ok_erase split: if_splits)
qed

lemma root_ok_next:
  assumes "root_ok r"
  shows "get_next_client r = Some (map_option snd (case om_rest (rt_current_client r) (rt_clients r) of [] \<Rightarrow> None | p # _ \<Rightarrow> Some p),
      r\<lparr>rt_current_client := (case rt_current_client r of None \<Rightarrow> om_begin (rt_clients r) | Some k \<Rightarrow> om_next k (rt_clients r))\<rparr>)"
proof (cases "rt_current_client r")
  case (Some k)
  then obtain pc where "map_of (rt_clients r) k = Some pc" using assms by (auto simp: root_ok_def)
  with Some assms om_rest_step [of "rt_clients r" k pc] show ?thesis by (simp add: get_next_client_def get_client_def root_ok_def)
qed (simp add: get_next_client_def)

lemma root_ok_current: "root_ok r \<Longrightarrow> om_valid it (rt_clients r) \<Longrightarrow> root_ok (r\<lparr>rt_current_client := it\<rparr>)"
  by (simp add: root_ok_def get_client_def)

lemma root_ok_next_state: "root_ok r \<Longrightarrow> get_next_client r = Some (c, r') \<Longrightarrow> root_ok r'"
  by (auto simp: root_ok_next intro!: root_ok_current om_next_valid split: option.splits)

subsection \<open>Admission of clients\<close>

lemma create_client_admits:
  assumes "root_ok r" and "create_client E repr kind r = Some (st, reply, r')"
  shows "root_ok r'
    \<and> st = (if cr_client_key repr = CLIENTKEY_INVALID \<or> cr_xrce_cookie repr \<noteq> XRCE_COOKIE then STATUS_ERR_INVALID_DATA
           else if cr_xrce_version repr ! 0 \<noteq> XRCE_VERSION_MAJOR then STATUS_ERR_INCOMPATIBLE else STATUS_OK)
    \<and> (st \<noteq> STATUS_OK \<longrightarrow> r' = r)
    \<and> (\<forall>k. k \<noteq> cr_client_key repr \<longrightarrow> get_client k r' = get_client k r)
    \<and> (st = STATUS_OK \<longrightarrow> (\<exists>pc. get_client (cr_client_key repr) r' = Some pc
          \<and> cr_session_id (pc_representation pc) = cr_session_id repr
          \<and> (case get_client (cr_client_key repr) r of
               Some old \<Rightarrow> if cr_session_id (pc_representation old) = cr_session_id repr
                           then pc = old\<lparr>pc_session := Session_reset (pc_session old)\<rparr> else pc_objects pc = Map.empty
             | None \<Rightarrow> pc_objects pc = Map.empty \<and> pc_properties pc = client_properties repr)))"
proof (cases "client_accepted repr")
  case False
  with assms show ?thesis by (auto simp: client_accepted_def create_client_def split: if_splits)
next
  case True
  note set = root_ok_set [OF assms(1)] get_client_set [OF assms(1)]
  show ?thesis
  proof (cases "get_client (cr_client_key repr) r")
    case None
    with assms(2) True obtain pc where pc: "new_proxy E repr kind (client_properties repr) = Some pc" "st = STATUS_OK"
        "r' = r\<lparr>rt_clients := om_set (cr_client_key repr) pc (rt_clients r)\<rparr>"
      by (auto simp: client_accepted_def create_client_def Let_def)
    with None True new_proxy_fields [OF pc(1)] set [where pc = pc] show ?thesis by (simp add: client_accepted_def)
  next
    case (Some old)
    have old: "cr_client_key (pc_representation old) = cr_client_key repr" "client_accepted (pc_representation old)"
      using assms(1) Some by (auto simp: root_ok_def)
    show ?thesis
    proof (cases "cr_session_id repr = cr_session_id (pc_representation old)")
      case same: True
      with assms(2) True Some old set [where pc = "old\<lparr>pc_session := Session_reset (pc_session old)\<rparr>"] show ?thesis
        by (auto simp: client_accepted_def create_client_def Let_def)
    next
      case other: False
      with assms(2) True Some obtain pc where pc: "new_proxy E repr kind Map.empty = Some pc" "st = STATUS_OK"
          "r' = r\<lparr>rt_clients := om_set (cr_client_key repr) pc (rt_clients r)\<rparr>"
        by (auto simp: client_accepted_def create_client_def Let_def)
      with other Some True new_proxy_fields [OF pc(1)] set [where pc = pc] show ?thesis by (simp add: client_accepted_def)
    qed
  qed
qed

text \<open>\<open>create_client\<close> admits a client exactly when its key is not the invalid key, its cookie is the XRCE
  cookie and its major version is 1, with the status of the first check that fails; a refused request changes
  nothing.  An admitted client is stored under its key with the session it asked for: a new client and one with a
  new session identifier get a proxy without objects, a client that repeats its request keeps its proxy and its
  objects and has its streams reset.  The other clients are not touched, and the directory stays well formed.\<close>

theorem create_client_contract:
  assumes "root_ok r" and "create_client E repr kind r = Some (st, reply, r')"
  shows "root_ok r'
    \<and> st = (if cr_client_key repr = CLIENTKEY_INVALID \<or> cr_xrce_cookie repr \<noteq> XRCE_COOKIE then STATUS_ERR_INVALID_DATA
           else if cr_xrce_version repr ! 0 \<noteq> XRCE_VERSION_MAJOR then STATUS_ERR_INCOMPATIBLE else STATUS_OK)
    \<and> (st \<noteq> STATUS_OK \<longrightarrow> r' = r)
    \<and> (\<forall>k. k \<noteq> cr_client_key repr \<longrightarrow> get_client k r' = get_client k r)
    \<and> (st = STATUS_OK \<longrightarrow> (\<exists>pc. get_client (cr_client_key repr) r' = Some pc
          \<and> cr_session_id (pc_representation pc) = cr_session_id repr
          \<and> (case get_client (cr_client_key repr) r of
               Some old \<Rightarrow> if cr_session_id (pc_representation old) = cr_session_id repr
                           then pc = old\<lparr>pc_session := Session_reset (pc_session old)\<rparr> else pc_objects pc = Map.empty
             | None \<Rightarrow> pc_objects pc = Map.empty \<and> pc_properties pc = client_properties repr)))"
  using create_client_admits [OF assms] .

subsection \<open>Runs of the directory\<close>

text \<open>The operations of all threads of the agent, in any order; a proxy is changed in place by whoever
  holds it, which never changes its representation.\<close>

inductive root_run :: "'w Root \<Rightarrow> bool" where
  root_start: "root_run Root_new"
| root_create: "root_run r \<Longrightarrow> create_client E repr kind r = Some (st, reply, r') \<Longrightarrow> root_run r'"
| root_delete: "root_run r \<Longrightarrow> delete_client M ord key r = (st, old, r') \<Longrightarrow> root_run r'"
| root_next: "root_run r \<Longrightarrow> get_next_client r = Some (c, r') \<Longrightarrow> root_run r'"
| root_reset: "root_run r \<Longrightarrow> root_reset M ord r = (cs, r') \<Longrightarrow> root_run r'"
| root_update: "root_run r \<Longrightarrow> get_client key r = Some pc \<Longrightarrow> pc_representation pc' = pc_representation pc
    \<Longrightarrow> root_run (update_client key pc' r)"

lemma root_ok_update:
  assumes "root_ok r" and "get_client key r = Some pc" and "pc_representation pc' = pc_representation pc"
  shows "root_ok (update_client key pc' r)"
  using assms root_ok_set [OF assms(1), of pc' key] by (simp add: update_client_def) (simp add: root_ok_def)

lemma root_run_ok: "root_run r \<Longrightarrow> root_ok r"
proof (induction rule: root_run.induct)
  case (root_create r E repr kind st reply r')
  then show ?case using create_client_admits by blast
next
  case (root_reset r M ord cs r')
  then show ?case by (auto simp: root_reset_def root_ok_def get_client_def om_begin_def)
qed (use root_ok_new root_ok_delete root_ok_next_state root_ok_update in blast)+

text \<open>One pass of the heartbeat thread over the clients: \<open>get_next_client\<close> until it reports the end.\<close>

partial_function (option) visit_clients :: "'w Root \<Rightarrow> ('w ProxyClient list \<times> 'w Root) option" where
  "visit_clients r =
     Option.bind (get_next_client r) (\<lambda>(c, r').
       case c of
         None \<Rightarrow> Some ([], r')
       | Some pc \<Rightarrow> Option.bind (visit_clients r') (\<lambda>(pcs, r''). Some (pc # pcs, r'')))"

lemma visit_clients_rest:
  assumes "root_ok r"
  shows "visit_clients r = Some (map snd (om_rest (rt_current_client r) (rt_clients r)),
    r\<lparr>rt_current_client := om_begin (rt_clients r)\<rparr>)"
  using assms
proof (induction "om_rest (rt_current_client r) (rt_clients r)" arbitrary: r)
  case Nil
  have "rt_current_client r = None"
  proof (cases "rt_current_client r")
    case (Some k)
    then obtain pc where "map_of (rt_clients r) k = Some pc" using Nil.prems by (auto simp: root_ok_def)
    then show ?thesis using om_rest_step [of "rt_clients r" k pc] Nil Some by (simp add: root_ok_def)
  qed
  then show ?case using root_ok_next [OF Nil.prems] by (subst visit_clients.simps) simp
next
  case (Cons p ps)
  then obtain k where k: "rt_current_client r = Some k" by (cases "rt_current_client r") auto
  then obtain pc where pc: "map_of (rt_clients r) k = Some pc" using Cons.prems by (auto simp: root_ok_def)
  have ok: "om_ok (rt_clients r)" using Cons.prems by (simp add: root_ok_def)
  let ?r = "r\<lparr>rt_current_client := om_next k (rt_clients r)\<rparr>"
  note step = om_rest_step [OF ok pc]
  then have "ps = om_rest (om_next k (rt_clients r)) (rt_clients r)" using Cons.hyps(2) k by simp
  then have "visit_clients ?r = Some (map snd ps, ?r\<lparr>rt_current_client := om_begin (rt_clients r)\<rparr>)"
    using Cons.hyps(1) [of ?r] root_ok_current [OF Cons.prems om_next_valid, of k] by simp
  then show ?case using root_ok_next [OF Cons.prems] k step Cons.hyps(2) by (subst visit_clients.simps) simp
qed

text \<open>however clients come, go and reconnect while the heartbeat thread walks over the directory, the
  iterator it keeps between its calls never dangles, and a pass ends: it visits the remaining clients and leaves
  the iterator at the beginning, so that a second pass visits every client exactly once, in key order.  Every
  client met is stored under its own key and was admitted.\<close>

theorem client_iteration:
  assumes "root_run r"
  shows "\<exists>seen r'. visit_clients r = Some (seen, r')
    \<and> visit_clients r' = Some (map snd (rt_clients r), r')
    \<and> sorted_wrt (<) (map (cr_client_key \<circ> pc_representation) (map snd (rt_clients r)))
    \<and> set seen \<subseteq> snd ` set (rt_clients r)
    \<and> list_all (client_accepted \<circ> pc_representation) (map snd (rt_clients r))"
proof -
  note ok = root_run_ok [OF assms]
  let ?r = "r\<lparr>rt_current_client := om_begin (rt_clients r)\<rparr>"
  have ok': "root_ok ?r" using root_ok_current [OF ok] by simp
  have om: "om_ok (rt_clients r)" using ok by (simp add: root_ok_def)
  have entry: "cr_client_key (pc_representation pc) = k \<and> client_accepted (pc_representation pc)" if "(k, pc) \<in> set (rt_clients r)" for k pc
    using ok om_ok_lookup [OF om] that by (simp add: root_ok_def get_client_def)
  then have keys: "map (cr_client_key \<circ> pc_representation) (map snd (rt_clients r)) = map fst (rt_clients r)" by auto
  have "set (om_rest (rt_current_client r) (rt_clients r)) \<subseteq> set (rt_clients r)"
    by (auto simp: om_rest_def dest: set_dropWhileD split: option.splits)
  then show ?thesis
    using visit_clients_rest [OF ok] visit_clients_rest [OF ok'] om entry unfolding keys
    by (auto simp: om_rest_begin om_ok_def list_all_iff)
qed

subsection \<open>One client\<close>

definition example_env :: "ced agent_env" where
  "example_env = \<lparr>env_factory = ced_factory example_manager (\<lambda>b. (CedMiddleware_new 0, example_manager)),
     env_client_dead_time = 30000, env_tries = 0, env_now = 0\<rparr>"

definition example_root :: "ced Root" where
  "example_root = \<lparr>rt_clients = [([0, 0, 0, 1], example_new)], rt_current_client = None\<rparr>"

lemma example_create:
  "create_client example_env example_client Kind_CED Root_new = Some (STATUS_OK, Some agent_representation, example_root)"
proof -
  have "new_proxy example_env example_client Kind_CED (client_properties example_client) = Some example_new"
    using example_new_eq by (simp add: new_proxy_def example_env_def client_properties_def example_client_def)
  moreover have "cr_client_key example_client = [0, 0, 0, 1]" "cr_client_key example_client \<noteq> CLIENTKEY_INVALID"
      "cr_xrce_cookie example_client = XRCE_COOKIE" "cr_xrce_version example_client ! 0 = XRCE_VERSION_MAJOR"
    by (simp_all add: example_client_def CLIENTKEY_INVALID_def XRCE_COOKIE_def XRCE_VERSION_MAJOR_def)
  ultimately show ?thesis
    by (simp add: create_client_def Root_new_def get_client_def om_begin_def om_set_def example_root_def)
qed

theorem create_client_contract_witness:
  "root_ok example_root \<and> get_client [0, 0, 0, 1] example_root \<noteq> None"
proof -
  have "cr_client_key example_client = [0, 0, 0, 1]" by (simp add: example_client_def)
  with create_client_contract [OF root_ok_new example_create] show ?thesis by auto
qed

theorem client_iteration_witness:
  "\<exists>seen r'. visit_clients example_root = Some (seen, r') \<and> visit_clients r' = Some ([example_new], r')"
proof -
  have "map snd (rt_clients example_root) = [example_new]" by (simp add: example_root_def)
  with client_iteration [OF root_create [OF root_start example_create]] show ?thesis by (metis (no_types, lifting))
qed

end
