(* ===== verification/Packet_Scheduler.thy ===== *)
theory Packet_Scheduler
  imports Prelude "HOL-Library.Sublist"
begin

text \<open>
  \<open>PacketScheduler<T>\<close> (\<open>include/uxr/agent/scheduler/PacketScheduler.hpp\<close>), the bounded priority queue
  between the threads of a server.  \<open>deque_\<close> and \<open>sizes_\<close> are maps from priorities (\<open>uint8_t\<close>) and
  \<open>operator[]\<close> inserts a default entry.  Every operation runs under the mutex, so it is one atomic
  step; \<open>pop\<close> waits on the condition variable while the scheduler is empty and running, which is the
  outcome \<open>Blocked\<close>.  \<open>pop_front\<close> on an empty deque is undefined behaviour in C++: \<open>push\<close> is partial.
\<close>

subsection \<open>State and operations\<close>

record 'a PacketScheduler =
  ps_deque :: "u8 \<rightharpoonup> 'a list"
  ps_sizes :: "u8 \<rightharpoonup> nat"
  ps_running_cond :: bool
  ps_max_size :: nat

definition PacketScheduler_new :: "nat \<Rightarrow> 'a PacketScheduler" where
  "PacketScheduler_new max_size =
     \<lparr>ps_deque = Map.empty, ps_sizes = Map.empty, ps_running_cond = False, ps_max_size = max_size\<rparr>"

definition set_priority_size :: "u8 \<Rightarrow> nat \<Rightarrow> 'a PacketScheduler \<Rightarrow> 'a PacketScheduler" where
  "set_priority_size priority sz s = s\<lparr>ps_sizes := (ps_sizes s)(priority \<mapsto> sz)\<rparr>"

definition sched_init :: "'a PacketScheduler \<Rightarrow> 'a PacketScheduler" where
  "sched_init s = s\<lparr>ps_sizes := (ps_sizes s)(0 \<mapsto> ps_max_size s), ps_running_cond := True\<rparr>"

definition sched_deinit :: "'a PacketScheduler \<Rightarrow> 'a PacketScheduler" where
  "sched_deinit s = s\<lparr>ps_running_cond := False\<rparr>"

text \<open>The queue and the capacity that \<open>operator[]\<close> yields for a priority.\<close>

definition ps_queue :: "'a PacketScheduler \<Rightarrow> u8 \<Rightarrow> 'a list" where
  "ps_queue s p = (case ps_deque s p of None \<Rightarrow> [] | Some q \<Rightarrow> q)"

definition ps_size :: "'a PacketScheduler \<Rightarrow> u8 \<Rightarrow> nat" where
  "ps_size s p = (case ps_sizes s p of None \<Rightarrow> 0 | Some n \<Rightarrow> n)"

definition sched_push :: "'a \<Rightarrow> u8 \<Rightarrow> 'a PacketScheduler \<Rightarrow> 'a PacketScheduler option" where
  "sched_push element priority s =
     (let s1 = s\<lparr>ps_sizes := (ps_sizes s)(priority \<mapsto> ps_size s priority)\<rparr>;
          q = ps_queue s priority
      in if ps_size s priority \<le> length q
         then if q = [] then None
              else Some (s1\<lparr>ps_deque := (ps_deque s)(priority \<mapsto> tl q @ [element])\<rparr>)
         else Some (s1\<lparr>ps_deque := (ps_deque s)(priority \<mapsto> q @ [element])\<rparr>))"

definition sched_push_front :: "'a \<Rightarrow> u8 \<Rightarrow> 'a PacketScheduler \<Rightarrow> 'a PacketScheduler" where
  "sched_push_front element priority s =
     s\<lparr>ps_deque := (ps_deque s)(priority \<mapsto> element # ps_queue s priority)\<rparr>"

text \<open>The keys a \<open>std::map\<close> over \<open>uint8_t\<close> can hold, in iteration order.\<close>

definition all_priorities :: "u8 list" where
  "all_priorities = map of_nat [0..<256]"

definition sched_empty :: "'a PacketScheduler \<Rightarrow> bool" where
  "sched_empty s = list_all (\<lambda>p. ps_queue s p = []) all_priorities"

text \<open>The reverse iteration of \<open>pop\<close>: the largest priority with a non-empty queue.\<close>

definition available_priority :: "'a PacketScheduler \<Rightarrow> u8 option" where
  "available_priority s = find (\<lambda>p. length (ps_queue s p) > 0) (rev all_priorities)"

datatype 'a pop_outcome = Blocked | Stopped | Popped 'a

definition sched_pop :: "'a PacketScheduler \<Rightarrow> 'a pop_outcome \<times> 'a PacketScheduler" where
  "sched_pop s =
     (if sched_empty s \<and> ps_running_cond s then (Blocked, s)
      else if ps_running_cond s
      then case available_priority s of
             Some p \<Rightarrow> (Popped (hd (ps_queue s p)), s\<lparr>ps_deque := (ps_deque s)(p \<mapsto> tl (ps_queue s p))\<rparr>)
           | None \<Rightarrow> (Blocked, s)
      else (Stopped, s))"

subsection \<open>The abstract queues\<close>

text \<open>
  The contract: one queue per priority that keeps the newest \<open>size\<close> elements, and a pop that serves
  the largest priority with something queued.
\<close>

definition keep_last :: "nat \<Rightarrow> 'a list \<Rightarrow> 'a list" where
  "keep_last n xs = drop (length xs - n) xs"

definition sched_ready :: "'a PacketScheduler \<Rightarrow> bool" where
  "sched_ready s \<longleftrightarrow> ps_running_cond s \<and> (\<forall>p. length (ps_queue s p) \<le> ps_size s p)"

lemma set_all_priorities [simp]: "set all_priorities = UNIV"
proof -
  have "p \<in> set all_priorities" for p
  proof -
    have "p = of_nat (unat p)" by simp
    moreover have "unat p < 256" using unsigned_less [where 'a = nat and w = p] by simp
    ultimately show ?thesis unfolding all_priorities_def by (metis atLeastLessThan_iff image_eqI le0 list.set_map set_upt)
  qed
  then show ?thesis by blast
qed

lemma sched_empty_iff: "sched_empty s \<longleftrightarrow> (\<forall>p. ps_queue s p = [])"
  by (simp add: sched_empty_def list_all_iff)

lemma sorted_all_priorities: "sorted all_priorities"
  unfolding all_priorities_def
  by (simp add: sorted_iff_nth_mono word_le_nat_alt unsigned_of_nat take_bit_nat_eq_self)

lemma find_last_greatest:
  assumes "sorted xs" and "find P (rev xs) = Some p" and "q \<in> set xs" and "P q"
  shows "q \<le> p"
  using assms by (induction xs rule: rev_induct) (auto simp: sorted_append split: if_splits)

lemma available_priority_iff:
  "available_priority s = Some p \<longleftrightarrow> ps_queue s p \<noteq> [] \<and> (\<forall>q > p. ps_queue s q = [])"
proof
  assume a: "available_priority s = Some p"
  then have "ps_queue s p \<noteq> []" by (auto simp: available_priority_def find_Some_iff)
  moreover have "q \<le> p" if "ps_queue s q \<noteq> []" for q
    by (rule find_last_greatest [OF sorted_all_priorities a [unfolded available_priority_def]])
      (simp_all add: that)
  ultimately show "ps_queue s p \<noteq> [] \<and> (\<forall>q > p. ps_queue s q = [])" by (meson leD)
next
  assume a: "ps_queue s p \<noteq> [] \<and> (\<forall>q > p. ps_queue s q = [])"
  then obtain q where q: "available_priority s = Some q"
    by (cases "available_priority s") (auto simp: available_priority_def find_None_iff)
  then have "ps_queue s q \<noteq> []" by (auto simp: available_priority_def find_Some_iff)
  moreover have "p \<le> q"
    by (rule find_last_greatest [OF sorted_all_priorities q [unfolded available_priority_def]])
      (simp_all add: a)
  ultimately have "p = q" using a by (meson le_neq_trans)
  with q show "available_priority s = Some p" by simp
qed

lemma keep_last_snoc:
  assumes "length q \<le> n" and "0 < n"
  shows "keep_last n (q @ [x]) = (if n \<le> length q then tl q else q) @ [x]"
  using assms by (cases q) (auto simp: keep_last_def)

lemma subseq_keep_last: "subseq (keep_last n xs) xs"
  by (simp add: keep_last_def list_emb_append2 [of "(=)" "drop k xs" "drop k xs" "take k xs" for k xs, simplified])

lemma length_keep_last [simp]: "length (keep_last n xs) = min n (length xs)"
  by (simp add: keep_last_def)

text \<open>The elements still queued and those already served, per priority, are an ordered selection of
  those that arrived: nothing is invented, duplicated or reordered.\<close>

definition in_order :: "(u8 \<Rightarrow> 'a list) \<Rightarrow> (u8 \<Rightarrow> 'a list) \<Rightarrow> (u8 \<Rightarrow> 'a list) \<Rightarrow> bool" where
  "in_order queue arrived served \<longleftrightarrow> (\<forall>p. subseq (served p @ queue p) (arrived p))"

locale bounded_queues =
  fixes push :: "'a \<Rightarrow> u8 \<Rightarrow> 's \<Rightarrow> 's option"
    and pop :: "'s \<Rightarrow> 'a pop_outcome \<times> 's"
    and queue :: "'s \<Rightarrow> u8 \<Rightarrow> 'a list"
    and capacity :: "'s \<Rightarrow> u8 \<Rightarrow> nat"
    and ready :: "'s \<Rightarrow> bool"
  assumes ready_bound: "ready s \<Longrightarrow> length (queue s p) \<le> capacity s p"
    and push_law: "ready s \<Longrightarrow> 0 < capacity s p \<Longrightarrow> \<exists>s'. push x p s = Some s' \<and> ready s'
      \<and> capacity s' = capacity s \<and> queue s' = (queue s)(p := keep_last (capacity s p) (queue s p @ [x]))"
    and pop_law: "ready s \<Longrightarrow> queue s p \<noteq> [] \<Longrightarrow> \<forall>q > p. queue s q = [] \<Longrightarrow>
      \<exists>s'. pop s = (Popped (hd (queue s p)), s') \<and> ready s' \<and> capacity s' = capacity s
        \<and> queue s' = (queue s)(p := tl (queue s p))"
    and pop_blocked: "ready s \<Longrightarrow> \<forall>p. queue s p = [] \<Longrightarrow> pop s = (Blocked, s)"
begin

lemma push_room:
  assumes "ready s" and "length (queue s p) < capacity s p"
  shows "\<exists>s'. push x p s = Some s' \<and> queue s' p = queue s p @ [x]"
  using push_law [of s p x] assms by (auto simp: keep_last_snoc)

lemma push_in_order:
  assumes "ready s" and "0 < capacity s p" and "in_order (queue s) arrived served"
  shows "\<exists>s'. push x p s = Some s' \<and> ready s' \<and> capacity s' = capacity s
     \<and> in_order (queue s') (arrived(p := arrived p @ [x])) served"
proof -
  obtain s' where s': "push x p s = Some s'" "ready s'" "capacity s' = capacity s"
      "queue s' = (queue s)(p := keep_last (capacity s p) (queue s p @ [x]))"
    using push_law [OF assms(1,2), of x] by blast
  have "subseq (served p @ keep_last (capacity s p) (queue s p @ [x])) ((served p @ queue s p) @ [x])"
    by (simp add: subseq_append' subseq_keep_last)
  also have "subseq ((served p @ queue s p) @ [x]) (arrived p @ [x])"
    using assms(3) unfolding in_order_def by (intro list_emb_append_mono) auto
  finally have "in_order (queue s') (arrived(p := arrived p @ [x])) served"
    using assms(3) unfolding in_order_def s'(4) by simp
  with s' show ?thesis by blast
qed

lemma pop_in_order:
  assumes "ready s" and "queue s p \<noteq> []" and "\<forall>q > p. queue s q = []" and "in_order (queue s) arrived served"
  shows "\<exists>s'. pop s = (Popped (hd (queue s p)), s') \<and> ready s' \<and> capacity s' = capacity s
     \<and> in_order (queue s') arrived (served(p := served p @ [hd (queue s p)]))"
proof -
  obtain s' where "pop s = (Popped (hd (queue s p)), s')" "ready s'" "capacity s' = capacity s"
      "queue s' = (queue s)(p := tl (queue s p))"
    using pop_law [OF assms(1-3)] by blast
  then show ?thesis using assms(2,4) unfolding in_order_def by auto
qed

end

subsection \<open>The scheduler implements the queues\<close>

lemma ps_queue_upd [simp]:
  "ps_queue (s\<lparr>ps_deque := (ps_deque s)(p \<mapsto> q)\<rparr>) = (ps_queue s)(p := q)"
  "ps_queue (s\<lparr>ps_sizes := z\<rparr>) = ps_queue s"
  by (auto simp: ps_queue_def fun_eq_iff)

lemma ps_size_upd [simp]:
  "ps_size (s\<lparr>ps_deque := d\<rparr>) = ps_size s"
  "ps_size (s\<lparr>ps_sizes := (ps_sizes s)(p \<mapsto> n)\<rparr>) = (ps_size s)(p := n)"
  by (auto simp: ps_size_def fun_eq_iff)

lemma push_refines:
  assumes "sched_ready s" and "0 < ps_size s p"
  shows "\<exists>s'. sched_push x p s = Some s' \<and> sched_ready s' \<and> ps_size s' = ps_size s
    \<and> ps_queue s' = (ps_queue s)(p := keep_last (ps_size s p) (ps_queue s p @ [x]))"
proof -
  let ?q = "if ps_size s p \<le> length (ps_queue s p) then tl (ps_queue s p) else ps_queue s p"
  let ?s1 = "s\<lparr>ps_sizes := (ps_sizes s)(p \<mapsto> ps_size s p)\<rparr>"
  let ?s' = "?s1\<lparr>ps_deque := (ps_deque ?s1)(p \<mapsto> ?q @ [x])\<rparr>"
  have len: "length (ps_queue s q) \<le> ps_size s q" for q using assms(1) by (simp add: sched_ready_def)
  have q: "keep_last (ps_size s p) (ps_queue s p @ [x]) = ?q @ [x]"
    by (rule keep_last_snoc [OF len assms(2)])
  have "ps_queue s p \<noteq> []" if "ps_size s p \<le> length (ps_queue s p)" using that assms(2) by auto
  then have p: "sched_push x p s = Some ?s'" by (auto simp: sched_push_def Let_def)
  have sz: "ps_size ?s' = ps_size s" unfolding ps_size_upd by (simp add: fun_eq_iff)
  have qu: "ps_queue ?s' = (ps_queue s)(p := ?q @ [x])" unfolding ps_queue_upd ..
  have "length (?q @ [x]) \<le> ps_size s p" using q length_keep_last [of "ps_size s p" "ps_queue s p @ [x]"] by simp
  then have "length (ps_queue ?s' r) \<le> ps_size ?s' r" for r unfolding sz qu using len [of r] by (cases "r = p") auto
  then have "sched_ready ?s'" using assms(1) by (simp add: sched_ready_def)
  with p sz qu q show ?thesis by auto
qed

lemma pop_refines:
  assumes "sched_ready s" and "ps_queue s p \<noteq> []" and "\<forall>q > p. ps_queue s q = []"
  shows "\<exists>s'. sched_pop s = (Popped (hd (ps_queue s p)), s') \<and> sched_ready s' \<and> ps_size s' = ps_size s
    \<and> ps_queue s' = (ps_queue s)(p := tl (ps_queue s p))"
proof -
  let ?s' = "s\<lparr>ps_deque := (ps_deque s)(p \<mapsto> tl (ps_queue s p))\<rparr>"
  have "available_priority s = Some p" using assms(2,3) by (simp add: available_priority_iff)
  moreover have "\<not> sched_empty s" using assms(2) by (auto simp: sched_empty_iff)
  ultimately have "sched_pop s = (Popped (hd (ps_queue s p)), ?s')"
    using assms(1) by (simp add: sched_pop_def sched_ready_def)
  moreover have "sched_ready ?s'" using assms(1) by (auto simp: sched_ready_def le_diff_conv le_SucI)
  ultimately show ?thesis by simp
qed

interpretation ps: bounded_queues sched_push sched_pop ps_queue ps_size sched_ready
proof
  show "length (ps_queue s p) \<le> ps_size s p" if "sched_ready s" for s :: "'a PacketScheduler" and p
    using that by (simp add: sched_ready_def)
  show "sched_pop s = (Blocked, s)" if "sched_ready s" "\<forall>p. ps_queue s p = []" for s :: "'a PacketScheduler"
    using that by (simp add: sched_pop_def sched_ready_def sched_empty_iff)
qed (rule push_refines pop_refines; assumption)+

subsection \<open>Traffic through a scheduler\<close>

text \<open>Any interleaving of producers and the consumer: packets that arrive at a priority, and the
  consumer's attempts to take one (a blocked attempt changes nothing).  The served packets are
  recorded with the priority they were taken from.\<close>

datatype 'a traffic = Arrive 'a u8 | Serve

fun sched_run :: "'a traffic list \<Rightarrow> 'a PacketScheduler \<Rightarrow> ((u8 \<times> 'a) list \<times> 'a PacketScheduler) option" where
  "sched_run [] s = Some ([], s)"
| "sched_run (Arrive x p # ts) s = (case sched_push x p s of None \<Rightarrow> None | Some s' \<Rightarrow> sched_run ts s')"
| "sched_run (Serve # ts) s =
     (case sched_pop s of
        (Popped x, s') \<Rightarrow> map_option (\<lambda>(out, t). ((the (available_priority s), x) # out, t)) (sched_run ts s')
      | (_, s') \<Rightarrow> sched_run ts s')"

fun arrived_at :: "u8 \<Rightarrow> 'a traffic list \<Rightarrow> 'a list" where
  "arrived_at p [] = []"
| "arrived_at p (Arrive x q # ts) = (if q = p then x # arrived_at p ts else arrived_at p ts)"
| "arrived_at p (Serve # ts) = arrived_at p ts"

definition served_at :: "u8 \<Rightarrow> (u8 \<times> 'a) list \<Rightarrow> 'a list" where
  "served_at p out = map snd (filter (\<lambda>(q, _). q = p) out)"

lemma sched_run_in_order:
  assumes "sched_ready s" and "\<forall>x p. Arrive x p \<in> set ts \<longrightarrow> 0 < ps_size s p"
    and "in_order (ps_queue s) arrived served"
  shows "\<exists>out t. sched_run ts s = Some (out, t) \<and> sched_ready t \<and> ps_size t = ps_size s
    \<and> in_order (ps_queue t) (\<lambda>p. arrived p @ arrived_at p ts) (\<lambda>p. served p @ served_at p out)"
  using assms
proof (induction ts s arbitrary: arrived served rule: sched_run.induct)
  case (1 s)
  then show ?case by (simp add: served_at_def)
next
  case (2 x p ts s)
  obtain s' where s': "sched_push x p s = Some s'" "sched_ready s'" "ps_size s' = ps_size s"
      "in_order (ps_queue s') (arrived(p := arrived p @ [x])) served"
    using ps.push_in_order [OF 2(2) _ 2(4), of p x] 2(3) by auto
  have "(\<lambda>q. (arrived(p := arrived p @ [x])) q @ arrived_at q ts) = (\<lambda>q. arrived q @ arrived_at q (Arrive x p # ts))"
    by (auto simp: fun_eq_iff)
  with 2(1) [OF s'(1,2) _ s'(4)] 2(3) s' show ?case by auto
next
  case (3 ts s)
  show ?case
  proof (cases "available_priority s")
    case None
    then have "\<forall>p. ps_queue s p = []" by (simp add: available_priority_def find_None_iff)
    then have "sched_pop s = (Blocked, s)" using ps.pop_blocked 3(4) by blast
    with 3(1) [OF this [symmetric] refl] 3(4-6) show ?thesis by simp
  next
    case (Some p)
    then have p: "ps_queue s p \<noteq> []" "\<forall>q > p. ps_queue s q = []" by (simp_all add: available_priority_iff)
    obtain s' where s': "sched_pop s = (Popped (hd (ps_queue s p)), s')" "sched_ready s'" "ps_size s' = ps_size s"
        "in_order (ps_queue s') arrived (served(p := served p @ [hd (ps_queue s p)]))"
      using ps.pop_in_order [OF 3(4) p 3(6)] by blast
    obtain out t where t: "sched_run ts s' = Some (out, t)" "sched_ready t" "ps_size t = ps_size s'"
        "in_order (ps_queue t) (\<lambda>q. arrived q @ arrived_at q ts)
           (\<lambda>q. (served(p := served p @ [hd (ps_queue s p)])) q @ served_at q out)"
      using 3(3) [OF s'(1) [symmetric] refl s'(2) _ s'(4)] 3(5) s'(3) by auto
    have "(\<lambda>q. (served(p := served p @ [hd (ps_queue s p)])) q @ served_at q out)
        = (\<lambda>q. served q @ served_at q ((p, hd (ps_queue s p)) # out))"
      by (auto simp: fun_eq_iff served_at_def)
    with t s' Some show ?thesis by simp
  qed
qed

text \<open>The packet scheduler implements one bounded queue per priority.  While it runs and its queues
  are within their capacities, a push at a priority with a capacity keeps exactly the newest packets
  (dropping the oldest when full), and a pop takes the oldest packet of the largest priority that has
  one, or waits when there is none.\<close>

theorem scheduler_refines_queues:
  assumes "sched_ready s" and "0 < ps_size s p"
  shows "(\<exists>s'. sched_push x p s = Some s' \<and> sched_ready s'
      \<and> ps_queue s' = (ps_queue s)(p := keep_last (ps_size s p) (ps_queue s p @ [x])))
    \<and> (if \<forall>q. ps_queue s q = [] then sched_pop s = (Blocked, s)
       else \<exists>q s'. ps_queue s q \<noteq> [] \<and> (\<forall>r > q. ps_queue s r = [])
              \<and> sched_pop s = (Popped (hd (ps_queue s q)), s') \<and> sched_ready s'
              \<and> ps_queue s' = (ps_queue s)(q := tl (ps_queue s q)))"
proof (intro conjI)
  show "\<exists>s'. sched_push x p s = Some s' \<and> sched_ready s'
      \<and> ps_queue s' = (ps_queue s)(p := keep_last (ps_size s p) (ps_queue s p @ [x]))"
    using ps.push_law [OF assms] by blast
next
  show "if \<forall>q. ps_queue s q = [] then sched_pop s = (Blocked, s)
       else \<exists>q s'. ps_queue s q \<noteq> [] \<and> (\<forall>r > q. ps_queue s r = [])
              \<and> sched_pop s = (Popped (hd (ps_queue s q)), s') \<and> sched_ready s'
              \<and> ps_queue s' = (ps_queue s)(q := tl (ps_queue s q))"
  proof (cases "available_priority s")
    case None
    then have "\<forall>q. ps_queue s q = []" by (simp add: available_priority_def find_None_iff)
    with ps.pop_blocked [OF assms(1)] show ?thesis by simp
  next
    case (Some q)
    then have q: "ps_queue s q \<noteq> []" "\<forall>r > q. ps_queue s r = []" by (simp_all add: available_priority_iff)
    then show ?thesis using ps.pop_law [OF assms(1) q] by auto
  qed
qed

lemma sched_ready_fresh:
  "sched_ready (sched_init (PacketScheduler_new n)) \<and> ps_queue (sched_init (PacketScheduler_new n)) p = []
   \<and> ps_size (sched_init (PacketScheduler_new n)) 0 = n"
  by (simp add: sched_ready_def sched_init_def PacketScheduler_new_def ps_queue_def ps_size_def)

theorem scheduler_refines_queues_witness:
  "\<exists>s'. sched_push (7::nat) 0 (sched_init (PacketScheduler_new 2)) = Some s' \<and> ps_queue s' 0 = [7]"
proof -
  have "sched_ready (sched_init (PacketScheduler_new 2) :: nat PacketScheduler)"
    "0 < ps_size (sched_init (PacketScheduler_new 2) :: nat PacketScheduler) 0"
    by (simp_all add: sched_ready_fresh)
  from scheduler_refines_queues [OF this, of 7, THEN conjunct1] show ?thesis
    by (auto simp: keep_last_def sched_ready_fresh)
qed

text \<open>Whatever the interleaving of producers and consumer, a scheduler started empty never runs into
  the undefined \<open>pop_front\<close> as long as packets arrive only at priorities with a capacity; per priority
  the served packets followed by the queued ones are an ordered selection of those that arrived, and
  never more are queued than the capacity allows.\<close>

theorem scheduler_order:
  assumes "sched_ready s" and "\<forall>p. ps_queue s p = []"
    and "\<forall>x p. Arrive x p \<in> set ts \<longrightarrow> 0 < ps_size s p"
  shows "\<exists>out t. sched_run ts s = Some (out, t)
    \<and> (\<forall>p. subseq (served_at p out @ ps_queue t p) (arrived_at p ts) \<and> length (ps_queue t p) \<le> ps_size s p)"
proof -
  have "in_order (ps_queue s) (\<lambda>_. []) (\<lambda>_. [])" using assms(2) by (simp add: in_order_def)
  from sched_run_in_order [OF assms(1,3) this] obtain out t where
    "sched_run ts s = Some (out, t)" "sched_ready t" "ps_size t = ps_size s"
    "in_order (ps_queue t) (\<lambda>p. arrived_at p ts) (\<lambda>p. served_at p out)" by auto
  then show ?thesis using ps.ready_bound [of t] by (auto simp: in_order_def)
qed

theorem scheduler_order_witness:
  "\<exists>out t. sched_run [Arrive (7::nat) 0, Serve, Arrive 8 0] (sched_init (PacketScheduler_new 1)) = Some (out, t)
    \<and> subseq (served_at 0 out @ ps_queue t 0) [7, 8]"
proof -
  have "sched_ready (sched_init (PacketScheduler_new 1) :: nat PacketScheduler)"
    "\<forall>p. ps_queue (sched_init (PacketScheduler_new 1) :: nat PacketScheduler) p = []"
    "\<forall>x p. Arrive x p \<in> set [Arrive (7::nat) 0, Serve, Arrive 8 0]
       \<longrightarrow> 0 < ps_size (sched_init (PacketScheduler_new 1) :: nat PacketScheduler) p"
    by (simp_all add: sched_ready_fresh)
  from scheduler_order [OF this] obtain out t where
    o: "sched_run [Arrive (7::nat) 0, Serve, Arrive 8 0] (sched_init (PacketScheduler_new 1)) = Some (out, t)"
    and "\<forall>p. subseq (served_at p out @ ps_queue t p) (arrived_at p [Arrive (7::nat) 0, Serve, Arrive 8 0])"
    by blast
  then have "subseq (served_at 0 out @ ps_queue t 0) (arrived_at 0 [Arrive (7::nat) 0, Serve, Arrive 8 0])" by blast
  with o show ?thesis by simp
qed

end
