(* ===== verification/Agent_Server.thy ===== *)
theory Agent_Server
  imports XRCE_Message Packet_Scheduler
begin

text \<open>
  \<open>Server<EndPoint>\<close> (\<open>src/cpp/transport/Server.cpp\<close>): the queues and the bodies of the threads' loops.
  The transport below it (\<open>init\<close>, \<open>fini\<close>, \<open>recv_message\<close>, \<open>send_message\<close>, \<open>handle_error\<close>) is virtual;
  each loop body is one function of what the virtual call returned.  A thread that waits for the
  error handler waits after its state change, so the wait itself is not part of the state.  \<open>None\<close> is
  the undefined \<open>pop_front\<close> of the scheduler or an exception of the message decoder.
\<close>

subsection \<open>State\<close>

datatype TransportRc = Rc_ok | Rc_server_error | Rc_timeout_error | Rc_connection_error

record 'e InputPacket =
  ip_source :: 'e
  ip_message :: InputMessage

record 'e OutputPacket =
  op_destination :: 'e
  op_message :: "OutputMessage option"

record 'e Server =
  srv_running_cond :: bool
  srv_input_scheduler :: "'e InputPacket PacketScheduler"
  srv_output_scheduler :: "'e OutputPacket PacketScheduler"
  srv_transport_rc :: TransportRc

definition SUBMESSAGE_HEARTBEAT :: u8 where "SUBMESSAGE_HEARTBEAT = 11"

subsection \<open>Operations\<close>

definition Server_new :: "nat \<Rightarrow> 'e Server" where
  "Server_new SERVER_QUEUE_MAX_SIZE =
     \<lparr>srv_running_cond = False, srv_input_scheduler = PacketScheduler_new SERVER_QUEUE_MAX_SIZE,
      srv_output_scheduler = PacketScheduler_new SERVER_QUEUE_MAX_SIZE, srv_transport_rc = Rc_ok\<rparr>"

definition server_start :: "bool \<Rightarrow> 'e Server \<Rightarrow> bool \<times> 'e Server" where
  "server_start init_ok v =
     (if \<not> init_ok then (False, v)
      else (True, v\<lparr>srv_input_scheduler := set_priority_size 1 1 (sched_init (srv_input_scheduler v)),
                    srv_output_scheduler := sched_init (srv_output_scheduler v),
                    srv_running_cond := True\<rparr>))"

text \<open>\<open>stop\<close> with the results of \<open>fini_discovery\<close> and \<open>fini_p2p\<close> (\<open>None\<close> for a transport that has no such server) and of
  \<open>fini\<close>; all of them are called.\<close>

definition server_stop :: "bool option \<Rightarrow> bool option \<Rightarrow> bool \<Rightarrow> 'e Server \<Rightarrow> bool \<times> 'e Server" where
  "server_stop fini_discovery fini_p2p fini_ok v =
     (let rv = (case fini_discovery of None \<Rightarrow> True | Some ok \<Rightarrow> ok);
          rv1 = (case fini_p2p of None \<Rightarrow> rv | Some ok \<Rightarrow> ok \<and> rv)
      in (fini_ok \<and> rv1, v\<lparr>srv_running_cond := False,
                srv_input_scheduler := sched_deinit (srv_input_scheduler v),
                srv_output_scheduler := sched_deinit (srv_output_scheduler v)\<rparr>))"

text \<open>The switches; \<open>init\<close> is the transport's \<open>init_discovery\<close> or \<open>init_p2p\<close> over the state of that server.\<close>

definition enable_discovery :: "(u16 \<Rightarrow> 's \<Rightarrow> bool \<times> 's) \<Rightarrow> u16 \<Rightarrow> 'e Server \<Rightarrow> 's \<Rightarrow> bool \<times> 's" where
  "enable_discovery init discovery_port v s = (if srv_running_cond v then init discovery_port s else (False, s))"

definition enable_p2p :: "(u16 \<Rightarrow> 's \<Rightarrow> bool \<times> 's) \<Rightarrow> u16 \<Rightarrow> 'e Server \<Rightarrow> 's \<Rightarrow> bool \<times> 's" where
  "enable_p2p init p2p_port v s = (if srv_running_cond v then init p2p_port s else (False, s))"

definition push_output_packet :: "'e OutputPacket \<Rightarrow> 'e Server \<Rightarrow> 'e Server option" where
  "push_output_packet packet v =
     (if op_message packet \<noteq> None
      then map_option (\<lambda>q. v\<lparr>srv_output_scheduler := q\<rparr>) (sched_push packet 0 (srv_output_scheduler v))
      else Some v)"

text \<open>The priority the receiver gives a packet: a lone heartbeat gets 1.\<close>

definition input_priority :: "cdr \<Rightarrow> InputMessage \<Rightarrow> u8 option" where
  "input_priority C m =
     (if im_valid m \<and> count_submessages C (im_buf m) = 1
      then map_option (\<lambda>i. if i = SUBMESSAGE_HEARTBEAT then 1 else 0) (get_submessage_id C (im_buf m))
      else Some 0)"

definition receiver_iteration :: "cdr \<Rightarrow> TransportRc + 'e InputPacket \<Rightarrow> 'e Server \<Rightarrow> 'e Server option" where
  "receiver_iteration C received v =
     (case received of
        Inr packet \<Rightarrow>
          (case input_priority C (ip_message packet) of
             None \<Rightarrow> None
           | Some p \<Rightarrow> map_option (\<lambda>q. v\<lparr>srv_input_scheduler := q\<rparr>) (sched_push packet p (srv_input_scheduler v)))
      | Inl rc \<Rightarrow> Some (if srv_running_cond v \<and> rc = Rc_server_error then v\<lparr>srv_transport_rc := rc\<rparr> else v))"

text \<open>The receiver of the multi-serial server gets a batch and queues all of it at priority 0.\<close>

fun push_all :: "'a list \<Rightarrow> 'a PacketScheduler \<Rightarrow> 'a PacketScheduler option" where
  "push_all [] q = Some q"
| "push_all (x # xs) q = (case sched_push x 0 q of None \<Rightarrow> None | Some q' \<Rightarrow> push_all xs q')"

definition multiserial_receiver_iteration :: "TransportRc + 'e InputPacket list \<Rightarrow> 'e Server \<Rightarrow> 'e Server option" where
  "multiserial_receiver_iteration received v =
     (case received of
        Inr packets \<Rightarrow> map_option (\<lambda>q. v\<lparr>srv_input_scheduler := q\<rparr>) (push_all packets (srv_input_scheduler v))
      | Inl rc \<Rightarrow> Some (if srv_running_cond v \<and> rc = Rc_server_error then v\<lparr>srv_transport_rc := rc\<rparr> else v))"

text \<open>One round of the sender: \<open>send\<close> is the transport's answer to a packet (\<open>None\<close>: sent).  The
  first component is what was handed to the transport.\<close>

definition sender_iteration :: "('e OutputPacket \<Rightarrow> TransportRc option) \<Rightarrow> 'e Server
    \<Rightarrow> 'e OutputPacket option \<times> 'e Server" where
  "sender_iteration send v =
     (case sched_pop (srv_output_scheduler v) of
        (Popped packet, q) \<Rightarrow>
          let v1 = v\<lparr>srv_output_scheduler := q\<rparr>
          in (Some packet,
              case send packet of
                None \<Rightarrow> v1
              | Some rc \<Rightarrow> if rc = Rc_server_error \<and> srv_running_cond v
                          then v1\<lparr>srv_transport_rc := rc, srv_output_scheduler := sched_push_front packet 0 q\<rparr>
                          else v1)
      | (_, q) \<Rightarrow> (None, v\<lparr>srv_output_scheduler := q\<rparr>))"

text \<open>One round of the processing thread: the packet given to the processor.\<close>

definition processing_iteration :: "'e Server \<Rightarrow> 'e InputPacket option \<times> 'e Server" where
  "processing_iteration v =
     (case sched_pop (srv_input_scheduler v) of
        (Popped packet, q) \<Rightarrow> (Some packet, v\<lparr>srv_input_scheduler := q\<rparr>)
      | (_, q) \<Rightarrow> (None, v\<lparr>srv_input_scheduler := q\<rparr>))"

text \<open>One activation of the error handler.  \<open>answers\<close> lists, for its successive calls of
  \<open>handle_error\<close>, the result and the value of \<open>running_cond_\<close> the loop reads next; \<open>None\<close> while it is
  still trying.\<close>

definition error_handler_iteration :: "(bool \<times> bool) list \<Rightarrow> 'e Server \<Rightarrow> 'e Server option" where
  "error_handler_iteration answers v =
     (if srv_running_cond v \<and> srv_transport_rc v = Rc_server_error
      then if list_ex (\<lambda>(error_handled, running). error_handled \<or> \<not> running) answers
           then Some (v\<lparr>srv_transport_rc := Rc_ok\<rparr>) else None
      else Some v)"

subsection \<open>Input: order and priority\<close>

text \<open>Every message built from received bytes gets a priority: the routing raises no exception.\<close>

lemma input_priority_total: "\<exists>p. input_priority C (InputMessage_new C buf) = Some p \<and> (p = 0 \<or> p = 1)"
  by (auto simp: input_priority_def InputMessage_new_def count_submessages_def get_submessage_id_def Let_def
      split: prod.splits if_splits)

text \<open>What happens at the input of a running server: bytes received from an endpoint (the transports
  build the message from them), and rounds of the processing thread.\<close>

datatype 'e input_event = Received 'e "u8 list" | Process

fun server_input_run :: "cdr \<Rightarrow> 'e input_event list \<Rightarrow> 'e Server \<Rightarrow> ('e InputPacket list \<times> 'e Server) option" where
  "server_input_run C [] v = Some ([], v)"
| "server_input_run C (Received e buf # evs) v =
     (case receiver_iteration C (Inr \<lparr>ip_source = e, ip_message = InputMessage_new C buf\<rparr>) v of
        None \<Rightarrow> None
      | Some v' \<Rightarrow> server_input_run C evs v')"
| "server_input_run C (Process # evs) v =
     (case processing_iteration v of
        (Some packet, v') \<Rightarrow> map_option (\<lambda>(out, u). (packet # out, u)) (server_input_run C evs v')
      | (None, v') \<Rightarrow> server_input_run C evs v')"

definition packet_priority :: "cdr \<Rightarrow> 'e InputPacket \<Rightarrow> u8" where
  "packet_priority C packet = the (input_priority C (ip_message packet))"

fun input_traffic :: "cdr \<Rightarrow> 'e input_event list \<Rightarrow> 'e InputPacket traffic list" where
  "input_traffic C [] = []"
| "input_traffic C (Received e buf # evs) =
     (let packet = \<lparr>ip_source = e, ip_message = InputMessage_new C buf\<rparr>
      in Arrive packet (packet_priority C packet) # input_traffic C evs)"
| "input_traffic C (Process # evs) = Serve # input_traffic C evs"

lemma server_input_run_sched:
  "server_input_run C evs v = map_option (\<lambda>(out, q). (map snd out, v\<lparr>srv_input_scheduler := q\<rparr>))
     (sched_run (input_traffic C evs) (srv_input_scheduler v))"
proof (induction C evs v rule: server_input_run.induct)
  case (2 C e buf evs v)
  obtain p where "input_priority C (InputMessage_new C buf) = Some p" using input_priority_total by blast
  then show ?case using 2
    by (auto simp: receiver_iteration_def packet_priority_def Let_def option.map_comp o_def split_def split: option.splits)
next
  case (3 C evs v)
  then show ?case
    by (auto simp: processing_iteration_def option.map_comp o_def split_def
        split: prod.splits pop_outcome.splits)
qed simp

text \<open>The packets received, in order.\<close>

fun received_packets :: "cdr \<Rightarrow> 'e input_event list \<Rightarrow> 'e InputPacket list" where
  "received_packets C [] = []"
| "received_packets C (Received e buf # evs) =
     \<lparr>ip_source = e, ip_message = InputMessage_new C buf\<rparr> # received_packets C evs"
| "received_packets C (Process # evs) = received_packets C evs"

lemma arrived_input_traffic:
  "arrived_at p (input_traffic C evs) = filter (\<lambda>x. packet_priority C x = p) (received_packets C evs)"
  by (induction C evs rule: received_packets.induct) (simp_all add: Let_def)

lemma input_traffic_priorities: "Arrive x p \<in> set (input_traffic C evs) \<Longrightarrow> p = 0 \<or> p = 1"
proof (induction C evs rule: input_traffic.induct)
  case (2 C e buf evs)
  then show ?case using input_priority_total [of C buf] by (auto simp: Let_def packet_priority_def)
qed auto

lemma arrived_at_Arrive: "x \<in> set (arrived_at p ts) \<Longrightarrow> Arrive x p \<in> set ts"
  by (induction p ts rule: arrived_at.induct) (auto split: if_splits)

text \<open>When the packets arrive at the priority a function gives them, the priority they are served at
  is that function's.\<close>

lemma served_at_priority:
  assumes "\<forall>p. subseq (served_at p out @ q p) (filter (\<lambda>x. prio x = p) xs)"
  shows "served_at p out = filter (\<lambda>x. prio x = p) (map snd out)"
proof -
  have "prio x = r" if "(r, x) \<in> set out" for r x
  proof -
    have "x \<in> set (served_at r out)" using that by (force simp: served_at_def)
    then have "x \<in> set (served_at r out @ q r)" by simp
    from list_emb_set [OF assms [rule_format, of r] this] show ?thesis by auto
  qed
  then show ?thesis unfolding served_at_def filter_map by (auto intro!: arg_cong [where f = "map snd"] filter_cong)
qed

lemma server_start_ready:
  fixes n defines "s \<equiv> srv_input_scheduler (snd (server_start True (Server_new n)))"
  shows "sched_ready s" and "\<forall>p. ps_queue s p = []" and "ps_size s 0 = n" and "ps_size s 1 = 1"
  unfolding s_def server_start_def Server_new_def
  by (simp_all add: set_priority_size_def sched_init_def PacketScheduler_new_def sched_ready_def ps_queue_def ps_size_def)

lemma server_input_run_ok:
  fixes evs :: "'e input_event list"
  assumes "0 < n"
  obtains out q where
    "server_input_run C evs (snd (server_start True (Server_new n)))
       = Some (map snd out, (snd (server_start True (Server_new n)))\<lparr>srv_input_scheduler := q\<rparr>)"
    and "sched_ready q" and "ps_size q 0 = n" and "ps_size q 1 = 1"
    and "\<forall>p. subseq (served_at p out @ ps_queue q p) (filter (\<lambda>x. packet_priority C x = p) (received_packets C evs))"
    and "\<forall>p. p \<noteq> 0 \<longrightarrow> p \<noteq> 1 \<longrightarrow> ps_queue q p = []"
proof -
  let ?v = "snd (server_start True (Server_new n)) :: 'e Server"
  let ?s = "srv_input_scheduler ?v"
  note ready = server_start_ready [where 'a = 'e and n = n]
  have "in_order (ps_queue ?s) (\<lambda>_. []) (\<lambda>_. [])" using ready(2) by (simp add: in_order_def)
  moreover have "\<forall>x p. Arrive x p \<in> set (input_traffic C evs) \<longrightarrow> 0 < ps_size ?s p"
    using input_traffic_priorities ready(3,4) assms by (metis zero_less_one)
  ultimately obtain out q where q: "sched_run (input_traffic C evs) ?s = Some (out, q)" "sched_ready q" "ps_size q = ps_size ?s"
      "in_order (ps_queue q) (\<lambda>p. arrived_at p (input_traffic C evs)) (\<lambda>p. served_at p out)"
    using sched_run_in_order [OF ready(1), of "input_traffic C evs"] by fastforce
  have sub: "subseq (served_at p out @ ps_queue q p) (arrived_at p (input_traffic C evs))" for p
    using q(4) by (simp add: in_order_def)
  have "ps_queue q p = []" if "p \<noteq> 0" "p \<noteq> 1" for p
  proof -
    have "arrived_at p (input_traffic C evs) = []"
      using that input_traffic_priorities arrived_at_Arrive by (metis list.set_intros(1) neq_Nil_conv)
    with sub [of p] show ?thesis using list_emb_Nil2 by fastforce
  qed
  with that [of out q] q sub ready(3,4) show ?thesis by (simp add: server_input_run_sched arrived_input_traffic)
qed

text \<open>C28: the input side of a running server, for any interleaving of received bytes and rounds of the
  processing thread: no round fails; per priority the processed packets followed by the queued ones are
  an ordered selection of those received; at most one lone heartbeat is pending, and while one is
  pending it is what the processor gets next, before any other packet.\<close>

theorem server_input_order:
  assumes "0 < n"
  shows "\<exists>out v. server_input_run C evs (snd (server_start True (Server_new n))) = Some (out, v)
    \<and> (\<forall>p. subseq (filter (\<lambda>x. packet_priority C x = p) out @ ps_queue (srv_input_scheduler v) p)
            (filter (\<lambda>x. packet_priority C x = p) (received_packets C evs)))
    \<and> length (ps_queue (srv_input_scheduler v) 0) \<le> n \<and> length (ps_queue (srv_input_scheduler v) 1) \<le> 1
    \<and> (\<forall>h. h \<in> set (ps_queue (srv_input_scheduler v) 1) \<longrightarrow> fst (processing_iteration v) = Some h)"
proof -
  obtain out q where q: "server_input_run C evs (snd (server_start True (Server_new n)))
       = Some (map snd out, (snd (server_start True (Server_new n)))\<lparr>srv_input_scheduler := q\<rparr>)"
      "sched_ready q" "ps_size q 0 = n" "ps_size q 1 = 1"
      "\<forall>p. subseq (served_at p out @ ps_queue q p) (filter (\<lambda>x. packet_priority C x = p) (received_packets C evs))"
      "\<forall>p. p \<noteq> 0 \<longrightarrow> p \<noteq> 1 \<longrightarrow> ps_queue q p = []"
    using server_input_run_ok [OF assms] by metis
  let ?v = "(snd (server_start True (Server_new n)))\<lparr>srv_input_scheduler := q\<rparr>"
  have len: "length (ps_queue q 0) \<le> n" "length (ps_queue q 1) \<le> 1"
    using ps.ready_bound [OF q(2)] q(3,4) by metis+
  have "fst (processing_iteration ?v) = Some h" if "h \<in> set (ps_queue q 1)" for h
  proof -
    have h: "ps_queue q 1 = [h]" using that len(2) by (cases "ps_queue q 1") auto
    have "\<forall>r > 1. ps_queue q r = []" using q(6) by (metis less_irrefl word_not_simps(1))
    then obtain s' where "sched_pop q = (Popped h, s')" using ps.pop_law [OF q(2), of 1] h by auto
    then show ?thesis by (simp add: processing_iteration_def)
  qed
  with q(1,5) len served_at_priority [OF q(5)] show ?thesis by auto
qed

theorem server_input_order_witness:
  "\<exists>out v. server_input_run cdr_little [Received (7::nat) [129, 1, 0, 0, 11, 1, 0, 0], Process]
       (snd (server_start True (Server_new 4))) = Some (out, v)
    \<and> length (ps_queue (srv_input_scheduler v) 1) \<le> 1"
  using server_input_order [of 4 cdr_little "[Received (7::nat) [129, 1, 0, 0, 11, 1, 0, 0], Process]"] by auto

subsection \<open>Output: errors of the transport\<close>

lemma sched_push_front_pop:
  assumes "ps_running_cond s" and "ps_queue s p \<noteq> []" and "\<forall>r > p. ps_queue s r = []"
  shows "\<exists>s'. sched_pop s = (Popped (hd (ps_queue s p)), s')
    \<and> ps_queue (sched_push_front (hd (ps_queue s p)) p s') = ps_queue s \<and> ps_running_cond s'"
proof -
  have "available_priority s = Some p" using assms(2,3) by (simp add: available_priority_iff)
  moreover have "\<not> sched_empty s" using assms(2) by (auto simp: sched_empty_iff)
  ultimately show ?thesis using assms(1,2)
    by (auto simp: sched_pop_def sched_push_front_def fun_eq_iff)
qed

text \<open>C29: the sender on every answer of the transport.  A sent packet and one that fails with any error
  but a server error leave the output queue; after a server error of a running server the queue is as
  it was, the error handler is asked for, and once it has succeeded the next round hands the transport
  the very same packet.\<close>

theorem sender_error_paths:
  assumes "srv_running_cond v" and "ps_running_cond (srv_output_scheduler v)"
    and "ps_queue (srv_output_scheduler v) 0 = packet # rest" and "\<forall>p > 0. ps_queue (srv_output_scheduler v) p = []"
  shows "\<exists>v'. sender_iteration send v = (Some packet, v')
    \<and> (if send packet = Some Rc_server_error
       then ps_queue (srv_output_scheduler v') = ps_queue (srv_output_scheduler v)
         \<and> srv_transport_rc v' = Rc_server_error
         \<and> error_handler_iteration [] v' = None
         \<and> (\<forall>send'. \<exists>u. error_handler_iteration [(True, True)] v' = Some u
              \<and> srv_transport_rc u = Rc_ok \<and> fst (sender_iteration send' u) = Some packet)
       else ps_queue (srv_output_scheduler v') = (ps_queue (srv_output_scheduler v))(0 := rest)
         \<and> srv_transport_rc v' = srv_transport_rc v)"
proof -
  obtain q where q: "sched_pop (srv_output_scheduler v) = (Popped packet, q)"
      "ps_queue (sched_push_front packet 0 q) = ps_queue (srv_output_scheduler v)" "ps_running_cond q"
    using sched_push_front_pop [OF assms(2) _ assms(4)] assms(3) by auto
  have rest: "ps_queue q = (ps_queue (srv_output_scheduler v))(0 := rest)"
    using q(2) assms(3) by (auto simp: sched_push_front_def fun_eq_iff split: if_splits)
  let ?u = "sched_push_front packet 0 q"
  have "ps_running_cond ?u" using q(3) by (simp add: sched_push_front_def)
  then obtain q' where "sched_pop ?u = (Popped packet, q')"
    using sched_push_front_pop [of ?u 0] q(2) assms(3,4) by auto
  with q rest assms(1) show ?thesis
    by (auto simp: sender_iteration_def error_handler_iteration_def Let_def split: option.splits)
qed

theorem sender_error_paths_witness:
  "\<exists>v'. sender_iteration (\<lambda>_. Some Rc_server_error)
      (the (push_output_packet \<lparr>op_destination = 7::nat, op_message = Some (OutputMessage_new cdr_little MessageHeader_new 4)\<rparr>
        (snd (server_start True (Server_new 2))))) = (Some \<lparr>op_destination = 7,
          op_message = Some (OutputMessage_new cdr_little MessageHeader_new 4)\<rparr>, v')
    \<and> srv_transport_rc v' = Rc_server_error"
proof -
  define packet where "packet = \<lparr>op_destination = 7::nat, op_message = Some (OutputMessage_new cdr_little MessageHeader_new 4)\<rparr>"
  define v where "v = the (push_output_packet packet (snd (server_start True (Server_new 2))))"
  have "srv_running_cond v" "ps_running_cond (srv_output_scheduler v)"
    "ps_queue (srv_output_scheduler v) 0 = packet # []" "\<forall>p > 0. ps_queue (srv_output_scheduler v) p = []"
    unfolding v_def packet_def
    by (simp_all add: push_output_packet_def server_start_def Server_new_def sched_push_def sched_init_def
        PacketScheduler_new_def ps_queue_def ps_size_def Let_def)
  from sender_error_paths [OF this, of "\<lambda>_. Some Rc_server_error"] show ?thesis
    unfolding v_def packet_def by auto
qed

end
