(* ===== verification/Session_Manager.thy ===== *)
theory Session_Manager
  imports Prelude
begin

text \<open>
  \<open>SessionManager<EndPoint>\<close> (\<open>include/uxr/agent/transport/SessionManager.hpp\<close>), the directory every
  agent server keeps between transport endpoints and client keys.  Sessions whose identifier is
  below 128 carry the client key in every message; the others are recognised by the endpoint the
  message came from, so only those are entered in the endpoint map.  The endpoint type is left
  open, as in the template.  The two \<open>std::map\<close>s are partial functions; the mutex makes every
  operation one atomic step.
\<close>

subsection \<open>State and operations\<close>

record 'e SessionManager =
  endpoint_to_client_map :: "'e \<rightharpoonup> u32"
  client_to_endpoint_map :: "u32 \<rightharpoonup> 'e"

definition SessionManager_new :: "'e SessionManager" where
  "SessionManager_new = \<lparr>endpoint_to_client_map = Map.empty, client_to_endpoint_map = Map.empty\<rparr>"

definition has_session_client_key :: "u8 \<Rightarrow> bool" where
  "has_session_client_key session_id \<longleftrightarrow> 128 > session_id"

definition establish_session :: "'e \<Rightarrow> u32 \<Rightarrow> u8 \<Rightarrow> 'e SessionManager \<Rightarrow> 'e SessionManager" where
  "establish_session endpoint client_key session_id s =
     (let s1 = (case client_to_endpoint_map s client_key of
                  Some old \<Rightarrow>
                    s\<lparr>endpoint_to_client_map := (endpoint_to_client_map s)(old := None),
                      client_to_endpoint_map := (client_to_endpoint_map s)(client_key \<mapsto> endpoint)\<rparr>
                | None \<Rightarrow>
                    s\<lparr>client_to_endpoint_map := map_emplace client_key endpoint (client_to_endpoint_map s)\<rparr>)
      in if \<not> has_session_client_key session_id
         then case endpoint_to_client_map s1 endpoint of
                Some _ \<Rightarrow> s1\<lparr>endpoint_to_client_map := (endpoint_to_client_map s1)(endpoint \<mapsto> client_key)\<rparr>
              | None \<Rightarrow> s1\<lparr>endpoint_to_client_map := map_emplace endpoint client_key (endpoint_to_client_map s1)\<rparr>
         else s1)"

text \<open>The two overloads of \<open>destroy_session\<close>.\<close>

definition destroy_session_endpoint :: "'e \<Rightarrow> 'e SessionManager \<Rightarrow> 'e SessionManager" where
  "destroy_session_endpoint endpoint s =
     (case endpoint_to_client_map s endpoint of
        Some k \<Rightarrow> s\<lparr>client_to_endpoint_map := (client_to_endpoint_map s)(k := None),
                    endpoint_to_client_map := (endpoint_to_client_map s)(endpoint := None)\<rparr>
      | None \<Rightarrow> s)"

definition destroy_session_key :: "u32 \<Rightarrow> 'e SessionManager \<Rightarrow> 'e SessionManager" where
  "destroy_session_key client_key s =
     (case client_to_endpoint_map s client_key of
        Some e \<Rightarrow> s\<lparr>endpoint_to_client_map := (endpoint_to_client_map s)(e := None),
                    client_to_endpoint_map := (client_to_endpoint_map s)(client_key := None)\<rparr>
      | None \<Rightarrow> s)"

definition get_client_key :: "'e \<Rightarrow> 'e SessionManager \<Rightarrow> u32 option" where
  "get_client_key endpoint s = endpoint_to_client_map s endpoint"

definition get_endpoint :: "u32 \<Rightarrow> 'e SessionManager \<Rightarrow> 'e option" where
  "get_endpoint client_key s = client_to_endpoint_map s client_key"

subsection \<open>The interface the servers rely on\<close>

text \<open>
  What the packet processor expects of a session directory: establishing a session makes the client
  reachable at its endpoint and, for a session without a key, makes its packets attributable to it;
  every operation leaves the other clients reachable where they were; a packet is never attributed
  to a client that would be answered elsewhere.
\<close>

locale session_directory =
  fixes establish :: "'e \<Rightarrow> u32 \<Rightarrow> u8 \<Rightarrow> 's \<Rightarrow> 's"
    and destroy :: "u32 \<Rightarrow> 's \<Rightarrow> 's"
    and key_of :: "'e \<Rightarrow> 's \<Rightarrow> u32 option"
    and endpoint_of :: "u32 \<Rightarrow> 's \<Rightarrow> 'e option"
    and coherent :: "'s \<Rightarrow> bool"
  assumes coherent_route: "coherent s \<Longrightarrow> key_of e s = Some k \<Longrightarrow> endpoint_of k s = Some e"
    and coherent_establish: "coherent s \<Longrightarrow> coherent (establish e k i s)"
    and coherent_destroy: "coherent s \<Longrightarrow> coherent (destroy k s)"
    and endpoint_establish: "endpoint_of k' (establish e k i s) = (if k' = k then Some e else endpoint_of k' s)"
    and endpoint_destroy: "endpoint_of k' (destroy k s) = (if k' = k then None else endpoint_of k' s)"
    and key_establish: "\<not> has_session_client_key i \<Longrightarrow> key_of e (establish e k i s) = Some k"
begin

text \<open>Two endpoints are never attributed to one client.\<close>

lemma route_unique: "coherent s \<Longrightarrow> key_of e s = Some k \<Longrightarrow> key_of e' s = Some k \<Longrightarrow> e = e'"
  using coherent_route [of s e k] coherent_route [of s e' k] by simp

text \<open>A client that has moved is no longer recognised at the old endpoint.\<close>

lemma moved_client: "coherent s \<Longrightarrow> e \<noteq> e' \<Longrightarrow> key_of e (establish e' k i s) \<noteq> Some k"
  using coherent_route [OF coherent_establish] endpoint_establish [of k e' k i s] by fastforce

text \<open>A destroyed client is recognised at no endpoint.\<close>

lemma destroyed_client: "coherent s \<Longrightarrow> key_of e (destroy k s) \<noteq> Some k"
  using coherent_route [OF coherent_destroy] endpoint_destroy [of k k s] by fastforce

text \<open>Operations on one client keep the packets of another attributed to it or to nobody else
  than the client that came to that endpoint.\<close>

lemma attribution_after_establish:
  assumes "coherent s" and "key_of e (establish e' k i s) = Some k'" and "k' \<noteq> k"
  shows "endpoint_of k' s = Some e"
  using assms coherent_route [OF coherent_establish [OF assms(1)] assms(2)] endpoint_establish by simp

end

subsection \<open>The directory keeps its contract\<close>

definition sm_coherent :: "'e SessionManager \<Rightarrow> bool" where
  "sm_coherent s \<longleftrightarrow>
     (\<forall>e k. endpoint_to_client_map s e = Some k \<longrightarrow> client_to_endpoint_map s k = Some e)"

lemmas sm_ops = establish_session_def destroy_session_endpoint_def destroy_session_key_def
  get_client_key_def get_endpoint_def map_emplace_def Let_def

lemma establish_coherent: "sm_coherent s \<Longrightarrow> sm_coherent (establish_session e k i s)"
  unfolding sm_coherent_def
  by (auto simp: sm_ops split: option.splits if_splits)

lemma destroy_endpoint_coherent: "sm_coherent s \<Longrightarrow> sm_coherent (destroy_session_endpoint e s)"
  unfolding sm_coherent_def
  by (auto simp: sm_ops split: option.splits if_splits) (metis option.inject)

lemma destroy_key_coherent: "sm_coherent s \<Longrightarrow> sm_coherent (destroy_session_key k s)"
  unfolding sm_coherent_def
  by (auto simp: sm_ops split: option.splits if_splits)

interpretation sm: session_directory establish_session destroy_session_key get_client_key get_endpoint sm_coherent
  apply unfold_locales
       apply (simp add: sm_coherent_def get_client_key_def get_endpoint_def)
      apply (rule establish_coherent, assumption)
     apply (rule destroy_key_coherent, assumption)
    apply (auto simp: sm_ops split: option.splits)
  done

text \<open>The states a server's directory can reach, whatever the order of the operations.\<close>

inductive sm_reachable :: "'e SessionManager \<Rightarrow> bool" where
  sm_initial: "sm_reachable SessionManager_new"
| sm_establish: "sm_reachable s \<Longrightarrow> sm_reachable (establish_session e k i s)"
| sm_destroy_endpoint: "sm_reachable s \<Longrightarrow> sm_reachable (destroy_session_endpoint e s)"
| sm_destroy_key: "sm_reachable s \<Longrightarrow> sm_reachable (destroy_session_key k s)"

lemma sm_reachable_coherent: "sm_reachable s \<Longrightarrow> sm_coherent s"
proof (induction rule: sm_reachable.induct)
  case sm_initial
  show ?case by (simp add: SessionManager_new_def sm_coherent_def)
qed (simp_all add: establish_coherent destroy_endpoint_coherent destroy_key_coherent)

text \<open>in every reachable state of the session directory a packet is attributed only to a client
  that would be answered at the very endpoint it came from.  Establishing a session makes the client
  reachable at the new endpoint, attributes the endpoint to it when the session carries no client key,
  takes every other endpoint away from it and leaves all other clients reachable where they were; a
  destroyed client is reachable nowhere and recognised nowhere.\<close>

theorem session_routing:
  assumes "sm_reachable s"
  shows "(get_client_key e s = Some k \<longrightarrow> get_endpoint k s = Some e)
    \<and> get_endpoint k' (establish_session e k i s) = (if k' = k then Some e else get_endpoint k' s)
    \<and> (128 \<le> i \<longrightarrow> get_client_key e (establish_session e k i s) = Some k)
    \<and> (e' \<noteq> e \<longrightarrow> get_client_key e' (establish_session e k i s) \<noteq> Some k)
    \<and> get_endpoint k' (destroy_session_key k s) = (if k' = k then None else get_endpoint k' s)
    \<and> get_client_key e' (destroy_session_key k s) \<noteq> Some k"
  using sm_reachable_coherent [OF assms]
  by (simp add: sm.coherent_route sm.endpoint_establish sm.key_establish has_session_client_key_def
      sm.moved_client sm.endpoint_destroy sm.destroyed_client not_less)

theorem session_routing_witness:
  "get_client_key (7::nat) (establish_session 7 5 129 SessionManager_new) = Some 5
   \<and> get_endpoint 5 (establish_session (7::nat) 5 129 SessionManager_new) = Some 7"
  using session_routing [OF sm_initial, of "7::nat" 5 5 129 8] by simp

text \<open>Two ways in which the directory loses or keeps an entry it should not.  When a client with a
  key (session id below 128) leaves an endpoint that a client without a key has taken over, the entry
  of the latter is erased and its packets are attributed to nobody; and \<open>destroy_session\<close> by endpoint
  does nothing for a client whose session carries its key, so the client stays reachable.\<close>

theorem session_directory_leaks:
  assumes "i < 128" and "128 \<le> j" and "k \<noteq> k'" and "e \<noteq> e'"
  shows "get_client_key e (establish_session e k' j (establish_session e k i SessionManager_new)) = Some k'
    \<and> get_client_key e (establish_session e' k i
         (establish_session e k' j (establish_session e k i SessionManager_new))) = None
    \<and> get_endpoint k (destroy_session_endpoint e (establish_session e k i SessionManager_new)) = Some e"
  using assms by (simp add: sm_ops SessionManager_new_def has_session_client_key_def not_less)

theorem session_directory_leaks_witness:
  "get_client_key (7::nat) (establish_session 8 5 1
     (establish_session 7 6 129 (establish_session 7 5 1 SessionManager_new))) = None"
  using session_directory_leaks [of 1 129 5 6 "7::nat" 8] by simp

end
