(* ===== verification/Agent_Processor.thy ===== *)
theory Agent_Processor
  imports Agent_Root Agent_Server Session_Manager
begin

text \<open>
  \<open>Processor<EndPoint>\<close> (\<open>src/cpp/processor/Processor.cpp\<close>): what the agent does with a packet.  The state is
  the directory of clients (\<open>Root\<close>), the directory of sessions and the queues of the server.  A handler works on
  a proxy it holds a pointer to; the proxy is written back to the directory, where it is stored as long as the
  client has not been deleted.  Where the result is an option, \<open>None\<close> is an execution without a result: an
  exception that nobody catches, or an undefined operation.  Where it is an option of an option, the inner
  \<open>None\<close> is that, and the outer \<open>None\<close> is an execution that does not end (a reply that is fragmented for ever, a
  loop that is never left).
\<close>

subsection \<open>State\<close>

record ('w, 'e) agent =
  ag_root :: "'w Root"
  ag_sessions :: "'e SessionManager"
  ag_server :: "'e Server"

text \<open>What a handler takes from its surroundings: the serialisation library, the middleware and the decoder of
  binary objects, the configuration, the orders in which hash maps are traversed, the content of uninitialised
  memory, and the clocks.\<close>

record 'w processor_env =
  pe_cdr :: cdr
  pe_middleware :: "'w Middleware"
  pe_decoder :: decoder
  pe_depths :: stream_depths
  pe_agent :: "'w agent_env"
  pe_kind :: Middleware_Kind
  pe_object_order :: "'w ProxyClient \<Rightarrow> ObjectId list"
  pe_stream_order :: "u8 set \<Rightarrow> u8 list"
  pe_write_limit :: bool
  pe_junk :: "u8 list"
  pe_receive_time :: Time_t
  pe_transmit_time :: Time_t

definition SESSIONID_NONE_WITH_CLIENT_KEY :: u8 where "SESSIONID_NONE_WITH_CLIENT_KEY = 0x00"
definition SESSIONID_NONE_WITHOUT_CLIENT_KEY :: u8 where "SESSIONID_NONE_WITHOUT_CLIENT_KEY = 0x80"
definition FLAG_REUSE :: u8 where "FLAG_REUSE = 2"
definition FLAG_REPLACE :: u8 where "FLAG_REPLACE = 4"
definition FORMAT_DATA_FLAG :: u8 where "FORMAT_DATA_FLAG = 0"
definition OBJK_CLIENT :: u8 where "OBJK_CLIENT = 0x0E"
definition OBJECTID_CLIENT :: ObjectId where "OBJECTID_CLIENT = (0xFF, 0xFE)"

definition outside_session :: "InputMessage \<Rightarrow> bool" where
  "outside_session m \<longleftrightarrow> mh_session_id (im_header m) = SESSIONID_NONE_WITH_CLIENT_KEY
     \<or> mh_session_id (im_header m) = SESSIONID_NONE_WITHOUT_CLIENT_KEY"

subsection \<open>Output\<close>

definition packet_to :: "'e \<Rightarrow> OutputMessage \<Rightarrow> 'e OutputPacket" where
  "packet_to destination m = \<lparr>op_destination = destination, op_message = Some m\<rparr>"

definition push_message :: "'e \<Rightarrow> OutputMessage \<Rightarrow> ('w, 'e) agent \<Rightarrow> ('w, 'e) agent option" where
  "push_message destination m s = map_option (\<lambda>v. s\<lparr>ag_server := v\<rparr>) (push_output_packet (packet_to destination m) (ag_server s))"

text \<open>The number of messages \<open>get_next_output_message\<close> can still yield.\<close>

definition output_pending :: "u8 \<Rightarrow> Session \<Rightarrow> nat" where
  "output_pending sid se =
     (if is_none_stream sid then length (se_none_ostream se)
      else if is_besteffort_stream sid then length (bo_messages (best_ostream se sid))
      else let s = get_reliable_output_stream se sid in unat (ro_last_unacked s - ro_last_sent s))"

lemma ostream_set [simp]:
  "get_reliable_output_stream (set_reliable_ostream sid s se) sid' = (if sid' = sid then s else get_reliable_output_stream se sid')"
  "best_ostream (set_best_ostream sid b se) sid' = (if sid' = sid then b else best_ostream se sid')"
  by (simp_all add: get_reliable_output_stream_def set_reliable_ostream_def best_ostream_def set_best_ostream_def)

lemma output_pending_decreases:
  assumes "get_next_output_message sid se = Some (Some m, se')"
  shows "output_pending sid se' < output_pending sid se"
proof -
  consider "is_none_stream sid" | "is_besteffort_stream sid" "\<not> is_none_stream sid"
    | "\<not> is_none_stream sid" "\<not> is_besteffort_stream sid" by blast
  then show ?thesis
  proof cases
    case 1
    with assms show ?thesis
      by (auto simp: get_next_output_message_def output_pending_def none_out_pop_message_def queue_pop_def split: list.splits)
  next
    case 2
    with assms show ?thesis
      by (auto simp: get_next_output_message_def output_pending_def best_out_pop_message_def queue_pop_def Let_def split: list.splits prod.splits)
  next
    case 3
    let ?s = "get_reliable_output_stream se sid"
    from 3 assms have less: "sn_less (ro_last_sent ?s) (ro_last_unacked ?s)"
        and se': "get_reliable_output_stream se' sid = ?s\<lparr>ro_last_sent := sn_add_int (ro_last_sent ?s) 1\<rparr>"
      by (auto simp: get_next_output_message_def ro_get_next_message_def Let_def split: if_splits)
    let ?d = "ro_last_unacked ?s - ro_last_sent ?s"
    have pos: "0 < unat ?d" using less by (simp add: sn_less_iff)
    have e1: "ro_last_unacked ?s - (ro_last_sent ?s + 1) = ?d - 1" by simp
    have e2: "unat (?d - 1) = unat ?d - 1" using pos by (simp add: unat_minus_one unat_gt_0)
    have "unat (ro_last_unacked ?s - (ro_last_sent ?s + 1)) = unat ?d - 1" by (simp only: e1 e2)
    then have "unat (ro_last_unacked ?s - (ro_last_sent ?s + 1)) < unat ?d" using pos by linarith
    then show ?thesis using 3 by (simp add: output_pending_def Let_def se')
  qed
qed

text \<open>The loop that hands all messages of a stream to the server.\<close>

function flush_output :: "u8 \<Rightarrow> 'e \<Rightarrow> Session \<Rightarrow> ('w, 'e) agent \<Rightarrow> (Session \<times> ('w, 'e) agent) option" where
  "flush_output sid destination se s =
     (case get_next_output_message sid se of
        None \<Rightarrow> None
      | Some (None, se') \<Rightarrow> Some (se', s)
      | Some (Some m, se') \<Rightarrow>
          (case push_message destination m s of
             None \<Rightarrow> None
           | Some s' \<Rightarrow> flush_output sid destination se' s'))"
  by pat_completeness auto
termination
  by (relation "measure (\<lambda>(sid, _, se, _). output_pending sid se)") (auto intro: output_pending_decreases)

declare flush_output.simps [simp del]

text \<open>A submessage is put into a stream of the client and the stream is emptied.  With \<open>send_one\<close> a single
  message is taken.\<close>

definition send_reply :: "'w processor_env \<Rightarrow> u8 \<Rightarrow> 'e \<Rightarrow> reply \<Rightarrow> 'w ProxyClient \<Rightarrow> ('w, 'e) agent
    \<Rightarrow> ('w ProxyClient \<times> ('w, 'e) agent) option option" where
  "send_reply E sid destination r pc s =
     (case push_output_submessage (pe_cdr E) (pe_depths E) sid (reply_id r) (reply_submessage (pe_cdr E) r) (pc_session pc) of
        None \<Rightarrow> None
      | Some None \<Rightarrow> Some None
      | Some (Some (_, se)) \<Rightarrow>
          Some (map_option (\<lambda>(se', s'). (pc\<lparr>pc_session := se'\<rparr>, s')) (flush_output sid destination se s)))"

definition send_one_reply :: "'w processor_env \<Rightarrow> u8 \<Rightarrow> 'e \<Rightarrow> reply \<Rightarrow> 'w ProxyClient \<Rightarrow> ('w, 'e) agent
    \<Rightarrow> ('w ProxyClient \<times> ('w, 'e) agent) option option" where
  "send_one_reply E sid destination r pc s =
     (case push_output_submessage (pe_cdr E) (pe_depths E) sid (reply_id r) (reply_submessage (pe_cdr E) r) (pc_session pc) of
        None \<Rightarrow> None
      | Some None \<Rightarrow> Some None
      | Some (Some (_, se)) \<Rightarrow> Some
          (case get_next_output_message sid se of
             None \<Rightarrow> None
           | Some (None, se') \<Rightarrow> Some (pc\<lparr>pc_session := se'\<rparr>, s)
           | Some (Some m, se') \<Rightarrow> map_option (\<lambda>s'. (pc\<lparr>pc_session := se'\<rparr>, s')) (push_message destination m s)))"

text \<open>The stream of the replies: the built-in stream of the kind of the stream of the request.\<close>

definition reply_stream :: "InputMessage \<Rightarrow> u8" where
  "reply_stream m = (if is_reliable_stream (mh_stream_id (im_header m)) then STREAMID_BUILTIN_RELIABLE else STREAMID_BUILTIN_BEST_EFFORTS)"

definition status_reply :: "BaseObjectRequest \<Rightarrow> status \<Rightarrow> reply" where
  "status_reply request st = Reply_STATUS \<lparr>br_related_request = request,
     br_result = \<lparr>rs_status = st, rs_implementation_status = 0\<rparr>\<rparr>"

text \<open>The variants and requests before they are read; what their constructors leave uninitialised is \<open>junk\<close>.\<close>

definition ObjectVariant_new :: "u8 list \<Rightarrow> ObjectVariant" where
  "ObjectVariant_new junk = \<lparr>ov_d = 0x0D, ov_agent = AGENT_Representation_new junk, ov_client = CLIENT_Representation_new junk,
     ov_domain_id = 0, ov_parent = (0, 0), ov_representation = By_reference [], ov_endianness = True\<rparr>"

definition CREATE_Payload_new :: "u8 list \<Rightarrow> CREATE_Payload" where
  "CREATE_Payload_new junk = \<lparr>cp_request = BaseObjectRequest_new, cp_object_representation = ObjectVariant_new junk\<rparr>"

subsection \<open>Clients\<close>

text \<open>An endpoint has one client: the one that used it before is deleted.\<close>

definition evict_former_client :: "'w processor_env \<Rightarrow> 'e \<Rightarrow> ClientKey \<Rightarrow> ('w, 'e) agent \<Rightarrow> ('w, 'e) agent" where
  "evict_former_client E source key s =
     (case get_client_key source (ag_sessions s) of
        None \<Rightarrow> s
      | Some raw_client_key \<Rightarrow>
          if key \<noteq> raw_to_clientkey raw_client_key
          then let (_, _, r) = delete_client (pe_middleware E) (pe_object_order E) (raw_to_clientkey raw_client_key) (ag_root s)
               in s\<lparr>ag_root := r, ag_sessions := destroy_session_endpoint source (ag_sessions s)\<rparr>
          else s)"

text \<open>The new client, and the answer to it: the representation of the agent is left as it was constructed when
  the key is refused.\<close>

definition admit_client :: "'w processor_env \<Rightarrow> 'e \<Rightarrow> MessageHeader \<Rightarrow> CLIENT_Representation \<Rightarrow> ('w, 'e) agent
    \<Rightarrow> ('w, 'e) agent option" where
  "admit_client E source header client_representation s =
     (case create_client (pe_agent E) client_representation (pe_kind E) (ag_root s) of
        None \<Rightarrow> None
      | Some (st, info, r) \<Rightarrow>
          let status_header = header\<lparr>mh_session_id := cr_session_id client_representation\<rparr>;
              sessions = (if st = STATUS_OK
                then establish_session source (clientkey_to_raw (cr_client_key client_representation))
                       (cr_session_id client_representation) (ag_sessions s)
                else ag_sessions s);
              status_agent = \<lparr>sa_result = \<lparr>rs_status = st, rs_implementation_status = 0\<rparr>,
                sa_agent_info = (case info of Some i \<Rightarrow> i | None \<Rightarrow> AGENT_Representation_new (pe_junk E))\<rparr>
          in push_message source (snd (reply_message (pe_cdr E) status_header (Reply_STATUS_AGENT status_agent)))
               (s\<lparr>ag_root := r, ag_sessions := sessions\<rparr>))"

definition process_create_client_submessage :: "'w processor_env \<Rightarrow> 'e \<Rightarrow> InputMessage \<Rightarrow> ('w, 'e) agent
    \<Rightarrow> (bool \<times> InputMessage \<times> ('w, 'e) agent) option" where
  "process_create_client_submessage E source m s =
     (if \<not> outside_session m then Some (False, m, s)
      else case get_payload (pe_cdr E) CREATE_CLIENT_Payload_deserialize (CLIENT_Representation_new (pe_junk E)) m of
        None \<Rightarrow> None
      | Some (False, _, m1) \<Rightarrow> Some (False, m1, s)
      | Some (True, client_representation, m1) \<Rightarrow>
          map_option (\<lambda>s'. (True, m1, s'))
            (admit_client E source (im_header m) client_representation
               (evict_former_client E source (cr_client_key client_representation) s)))"

text \<open>The answer to a \<open>GET_INFO\<close> request; a payload that cannot be read is answered with what was read of it.\<close>

definition agent_info :: "BaseObjectRequest \<Rightarrow> u8 \<Rightarrow> TransportAddress list \<Rightarrow> reply" where
  "agent_info request implementation_status addresses = Reply_INFO
     \<lparr>ip_reply = \<lparr>br_related_request = request,
        br_result = \<lparr>rs_status = fst root_get_info, rs_implementation_status = implementation_status\<rparr>\<rparr>,
      ip_object_info = \<lparr>oi_config = Some ((ObjectVariant_new [])\<lparr>ov_agent := snd root_get_info\<rparr>),
        oi_activity = Some \<lparr>ai_availability = 1, ai_address_seq = addresses\<rparr>\<rparr>\<rparr>"

definition process_get_info_packet :: "'w processor_env \<Rightarrow> 'e \<Rightarrow> InputMessage \<Rightarrow> ('w, 'e) agent \<Rightarrow> ('w, 'e) agent option" where
  "process_get_info_packet E source m s =
     (case get_payload (pe_cdr E) GET_INFO_Payload_deserialize GET_INFO_Payload_new m of
        None \<Rightarrow> None
      | Some (_, request, _) \<Rightarrow>
          let known = (if get_client_key source (ag_sessions s) \<noteq> None then 1 else 0)
          in push_message source (snd (reply_message (pe_cdr E) (im_header m) (agent_info (gi_request request) known []))) s)"

definition process_get_info_submessage :: "'w processor_env \<Rightarrow> 'e \<Rightarrow> InputMessage \<Rightarrow> 'w ProxyClient \<Rightarrow> ('w, 'e) agent
    \<Rightarrow> (bool \<times> InputMessage \<times> 'w ProxyClient \<times> ('w, 'e) agent) option" where
  "process_get_info_submessage E source m pc s =
     (case get_payload (pe_cdr E) GET_INFO_Payload_deserialize GET_INFO_Payload_new m of
        None \<Rightarrow> None
      | Some (_, request, m1) \<Rightarrow>
          let header = MessageHeader_new\<lparr>mh_session_id := cr_session_id (pc_representation pc),
                mh_client_key := cr_client_key (pc_representation pc)\<rparr>;
              (rv, msg) = reply_message (pe_cdr E) header (agent_info (gi_request request) 1 [])
          in map_option (\<lambda>s'. (rv, m1, pc, s')) (push_message source msg s))"

subsection \<open>Objects\<close>

definition process_create_submessage :: "'w processor_env \<Rightarrow> 'e \<Rightarrow> InputMessage \<Rightarrow> 'w ProxyClient \<Rightarrow> ('w, 'e) agent
    \<Rightarrow> (bool \<times> InputMessage \<times> 'w ProxyClient \<times> ('w, 'e) agent) option option" where
  "process_create_submessage E source m pc s =
     (let flags = sh_flags (im_subheader m);
          creation_mode = \<lparr>cm_reuse = 0 < flags AND FLAG_REUSE, cm_replace = 0 < flags AND FLAG_REPLACE\<rparr>
      in case get_payload (pe_cdr E) CREATE_Payload_deserialize (CREATE_Payload_new (pe_junk E)) m of
           None \<Rightarrow> Some None
         | Some (False, _, m1) \<Rightarrow> Some (Some (True, m1, pc, s))
         | Some (True, request, m1) \<Rightarrow>
             let variant = (cp_object_representation request)\<lparr>ov_endianness := odd (unat flags)\<rparr>
             in case create_object (pe_middleware E) (pe_decoder E) creation_mode (bo_object_id (cp_request request)) variant pc of
                  None \<Rightarrow> Some None
                | Some (st, pc1) \<Rightarrow>
                    map_option (map_option (\<lambda>(pc2, s'). (True, m1, pc2, s')))
                      (send_reply E (reply_stream m) source (status_reply (cp_request request) st) pc1 s))"

text \<open>A deleted client is released and leaves both directories; the answer still goes through its streams.\<close>

definition process_delete_submessage :: "'w processor_env \<Rightarrow> 'e \<Rightarrow> InputMessage \<Rightarrow> 'w ProxyClient \<Rightarrow> ('w, 'e) agent
    \<Rightarrow> (bool \<times> InputMessage \<times> 'w ProxyClient \<times> ('w, 'e) agent) option option" where
  "process_delete_submessage E source m pc s =
     (case get_payload (pe_cdr E) DELETE_Payload_deserialize BaseObjectRequest_new m of
        None \<Rightarrow> Some None
      | Some (False, _, m1) \<Rightarrow> Some (Some (False, m1, pc, s))
      | Some (True, request, m1) \<Rightarrow>
          if snd (bo_object_id request) AND 0x0F = OBJK_CLIENT
          then let key = cr_client_key (pc_representation pc);
                   (st, released, r) = delete_client (pe_middleware E) (pe_object_order E) key (update_client key pc (ag_root s));
                   pc1 = (case released of Some c \<Rightarrow> c | None \<Rightarrow> pc);
                   s1 = s\<lparr>ag_root := r,
                     ag_sessions := (if st = STATUS_OK then destroy_session_endpoint source (ag_sessions s) else ag_sessions s)\<rparr>
               in map_option (map_option (\<lambda>(pc2, s'). (True, m1, pc2, s')))
                    (send_reply E STREAMID_NONE source (status_reply request st) pc1 s1)
          else let (st, pc1) = delete_object (pe_middleware E) (bo_object_id request) pc
               in map_option (map_option (\<lambda>(pc2, s'). (True, m1, pc2, s')))
                    (send_reply E (reply_stream m) source (status_reply request st) pc1 s))"

subsection \<open>Data\<close>

text \<open>\<open>dynamic_pointer_cast\<close> of the object with an identifier.\<close>

definition object_of :: "entity \<Rightarrow> ObjectId \<Rightarrow> 'w ProxyClient \<Rightarrow> xrce_object option" where
  "object_of e object_id pc = (case get_object object_id pc of
     None \<Rightarrow> None | Some obj \<Rightarrow> if xo_entity obj = e then Some obj else None)"

definition DataWriter_write :: "'w Middleware \<Rightarrow> xrce_object \<Rightarrow> u8 list \<Rightarrow> 'w \<Rightarrow> bool \<times> 'w" where
  "DataWriter_write M obj data w = mw_write_data M (objectid_to_raw (xo_id obj)) data w"

text \<open>The sequence number of a request names the requester and the request.\<close>

definition request_sequence_number :: "ObjectId \<Rightarrow> RequestId \<Rightarrow> u32" where
  "request_sequence_number object_id request_id =
     push_bit 16 (ucast (objectid_to_raw object_id)) + push_bit 8 (ucast (fst request_id)) + ucast (snd request_id)"

definition Requester_write :: "'w Middleware \<Rightarrow> xrce_object \<Rightarrow> RequestId \<Rightarrow> u8 list \<Rightarrow> 'w \<Rightarrow> bool \<times> 'w" where
  "Requester_write M obj request_id data w =
     mw_write_request M (objectid_to_raw (xo_id obj)) (request_sequence_number (xo_id obj) request_id) data w"

definition Replier_write :: "'w Middleware \<Rightarrow> xrce_object \<Rightarrow> u8 list \<Rightarrow> 'w \<Rightarrow> bool \<times> 'w" where
  "Replier_write M obj data w = mw_write_reply M (objectid_to_raw (xo_id obj)) data w"

text \<open>What \<open>Requester::read_fn\<close> delivers for a reply: the request it answers, then the data.\<close>

definition reply_sample :: "ObjectId \<Rightarrow> u32 \<Rightarrow> u8 list \<Rightarrow> u8 list" where
  "reply_sample object_id sequence_number data =
     concat (BaseObjectRequest_serialize \<lparr>bo_request_id = (ucast (drop_bit 8 sequence_number AND 0xFF), ucast (sequence_number AND 0xFF)),
       bo_object_id = object_id\<rparr> 0) @ data"

text \<open>\<open>read\<close> of data readers, requesters and repliers: the thread is started anew, by default for one sample.\<close>

definition object_read :: "READ_DATA_Payload \<Rightarrow> WriteFnArgs \<Rightarrow> xrce_object \<Rightarrow> bool \<times> xrce_object" where
  "object_read request args obj =
     (let delivery_control = (case rsp_delivery_control (rd_read_specification request) of
            Some c \<Rightarrow> c | None \<Rightarrow> DataDeliveryControl_new\<lparr>dc_max_samples := 1\<rparr>);
          (stopped, r1) = stop_reading (xo_reader obj)
      in if stopped then let (started, r2) = start_reading delivery_control args r1 in (started, obj\<lparr>xo_reader := r2\<rparr>)
         else (False, obj\<lparr>xo_reader := r1\<rparr>))"

definition write_target :: "'w Middleware \<Rightarrow> DATA_Payload_Data \<Rightarrow> 'w ProxyClient \<Rightarrow> bool \<times> 'w ProxyClient" where
  "write_target M x pc =
     (let object_id = bo_object_id (dp_request x); kind = snd object_id AND 0x0F; w = pc_middleware pc;
          (written, w') =
            (if kind = object_kind E_datawriter
             then case object_of E_datawriter object_id pc of Some obj \<Rightarrow> DataWriter_write M obj (dp_data x) w | None \<Rightarrow> (False, w)
             else if kind = object_kind E_requester
             then case object_of E_requester object_id pc of
                    Some obj \<Rightarrow> Requester_write M obj (bo_request_id (dp_request x)) (dp_data x) w | None \<Rightarrow> (False, w)
             else if kind = object_kind E_replier
             then case object_of E_replier object_id pc of Some obj \<Rightarrow> Replier_write M obj (dp_data x) w | None \<Rightarrow> (False, w)
             else (False, w))
      in (written, pc\<lparr>pc_middleware := w'\<rparr>))"

text \<open>The vector of the data is resized to the length that remains after the identifiers; for a length below that
  the difference wraps around, and \<open>resize\<close> raises \<open>std::length_error\<close>.\<close>

definition process_write_data_submessage :: "'w processor_env \<Rightarrow> InputMessage \<Rightarrow> 'w ProxyClient
    \<Rightarrow> (bool \<times> InputMessage \<times> 'w ProxyClient) option" where
  "process_write_data_submessage E m pc =
     (let flags = sh_flags (im_subheader m) AND 0x0E;
          announced = unat (sh_submessage_length (im_subheader m));
          submessage_length = (if pe_write_limit E \<and> announced = 0
            then size_t_sub (size_t_sub (length (im_buf m)) (mh_getCdrSerializedSize (im_header m))) (sh_getCdrSerializedSize (im_subheader m))
            else announced)
      in if flags = FORMAT_DATA_FLAG
         then if submessage_length < 4 then None
              else case get_payload (pe_cdr E) WRITE_DATA_Payload_Data_deserialize
                     \<lparr>dp_request = BaseObjectRequest_new, dp_data = replicate (submessage_length - 4) 0\<rparr> m of
                None \<Rightarrow> None
              | Some (False, _, m1) \<Rightarrow> Some (False, m1, pc)
              | Some (True, x, m1) \<Rightarrow> let (written, pc1) = write_target (pe_middleware E) x pc in Some (written, m1, pc1)
         else Some (False, m, pc))"

definition reader_kinds :: "u8 \<Rightarrow> entity option" where
  "reader_kinds kind =
     (if kind = object_kind E_datareader then Some E_datareader
      else if kind = object_kind E_requester then Some E_requester
      else if kind = object_kind E_replier then Some E_replier
      else None)"

definition start_reader :: "READ_DATA_Payload \<Rightarrow> 'w ProxyClient \<Rightarrow> status \<times> 'w ProxyClient" where
  "start_reader request pc =
     (let object_id = bo_object_id (rd_request request)
      in case Option.bind (reader_kinds (snd object_id AND 0x0F)) (\<lambda>e. object_of e object_id pc) of
           None \<Rightarrow> (STATUS_ERR_UNKNOWN_REFERENCE, pc)
         | Some obj \<Rightarrow>
             let args = \<lparr>wa_client_key = cr_client_key (pc_representation pc),
                   wa_stream_id = rsp_preferred_stream_id (rd_read_specification request),
                   wa_object_id = object_id, wa_request_id = bo_request_id (rd_request request)\<rparr>;
                 (reading, obj') = object_read request args obj
             in (if reading then STATUS_OK else STATUS_ERR_RESOURCES,
                 pc\<lparr>pc_objects := (pc_objects pc)(object_id \<mapsto> obj')\<rparr>))"

definition process_read_data_submessage :: "'w processor_env \<Rightarrow> 'e \<Rightarrow> InputMessage \<Rightarrow> 'w ProxyClient \<Rightarrow> ('w, 'e) agent
    \<Rightarrow> (bool \<times> InputMessage \<times> 'w ProxyClient \<times> ('w, 'e) agent) option option" where
  "process_read_data_submessage E source m pc s =
     (case get_payload (pe_cdr E) READ_DATA_Payload_deserialize READ_DATA_Payload_new m of
        None \<Rightarrow> Some None
      | Some (False, _, m1) \<Rightarrow> Some (Some (False, m1, pc, s))
      | Some (True, request, m1) \<Rightarrow>
          let (st, pc1) = start_reader request pc
          in if st = STATUS_OK then Some (Some (True, m1, pc1, s))
             else map_option (map_option (\<lambda>(pc2, s'). (True, m1, pc2, s')))
                    (send_reply E STREAMID_BUILTIN_RELIABLE source (status_reply (rd_request request) st) pc1 s))"

text \<open>The write function of the reading threads: a sample is sent to wherever the client is now.\<close>

definition read_data_callback :: "'w processor_env \<Rightarrow> WriteFnArgs \<Rightarrow> u8 list \<Rightarrow> 'w ProxyClient \<Rightarrow> ('w, 'e) agent
    \<Rightarrow> (bool \<times> 'w ProxyClient \<times> ('w, 'e) agent) option option" where
  "read_data_callback E args buffer pc s =
     (let r = Reply_DATA \<lparr>dp_request = \<lparr>bo_request_id = wa_request_id args, bo_object_id = wa_object_id args\<rparr>, dp_data = buffer\<rparr>
      in case get_endpoint (clientkey_to_raw (wa_client_key args)) (ag_sessions s) of
           None \<Rightarrow> Some (Some (False, pc, s))
         | Some destination \<Rightarrow>
             (case push_output_submessage (pe_cdr E) (pe_depths E) (wa_stream_id args) (reply_id r)
                     (reply_submessage (pe_cdr E) r) (pc_session pc) of
                None \<Rightarrow> None
              | Some None \<Rightarrow> Some None
              | Some (Some (rv, se)) \<Rightarrow> Some
                  (map_option (\<lambda>(se', s'). (rv, pc\<lparr>pc_session := se'\<rparr>, s')) (flush_output (wa_stream_id args) destination se s))))"

subsection \<open>Streams\<close>

text \<open>The numbers of the messages an \<open>ACKNACK\<close> asks for, in the order in which they are sent again.\<close>

definition nack_requests :: "ACKNACK_Payload \<Rightarrow> seqnum list" where
  "nack_requests ak = concat (map (\<lambda>i. let mask = push_bit i 1 :: u8 in
       (if ak_nack_bitmap_1 ak AND mask = mask then [ak_first_unacked_seq_num ak + of_nat i] else [])
     @ (if ak_nack_bitmap_0 ak AND mask = mask then [ak_first_unacked_seq_num ak + of_nat i + 8] else [])) [0..<8])"

fun resend :: "u8 \<Rightarrow> 'e \<Rightarrow> seqnum list \<Rightarrow> Session \<Rightarrow> ('w, 'e) agent \<Rightarrow> (Session \<times> ('w, 'e) agent) option" where
  "resend sid destination [] se s = Some (se, s)"
| "resend sid destination (n # ns) se s =
     (case get_output_message sid n se of
        (None, se') \<Rightarrow> resend sid destination ns se' s
      | (Some m, se') \<Rightarrow>
          (case push_message destination m s of None \<Rightarrow> None | Some s' \<Rightarrow> resend sid destination ns se' s'))"

definition process_acknack_submessage :: "'w processor_env \<Rightarrow> 'e \<Rightarrow> InputMessage \<Rightarrow> 'w ProxyClient \<Rightarrow> ('w, 'e) agent
    \<Rightarrow> (bool \<times> InputMessage \<times> 'w ProxyClient \<times> ('w, 'e) agent) option" where
  "process_acknack_submessage E source m pc s =
     (case get_payload (pe_cdr E) ACKNACK_Payload_deserialize ACKNACK_Payload_new m of
        None \<Rightarrow> None
      | Some (False, _, m1) \<Rightarrow> Some (False, m1, pc, s)
      | Some (True, ak, m1) \<Rightarrow>
          map_option (\<lambda>(se, s'). (True, m1,
              pc\<lparr>pc_session := update_from_acknack (ak_stream_id ak) (ak_first_unacked_seq_num ak) se\<rparr>, s'))
            (resend (ak_stream_id ak) source (nack_requests ak) (pc_session pc) s))"

definition process_heartbeat_submessage :: "'w processor_env \<Rightarrow> 'e \<Rightarrow> InputMessage \<Rightarrow> 'w ProxyClient \<Rightarrow> ('w, 'e) agent
    \<Rightarrow> (bool \<times> InputMessage \<times> 'w ProxyClient \<times> ('w, 'e) agent) option option" where
  "process_heartbeat_submessage E source m pc s =
     (case get_payload (pe_cdr E) HEARTBEAT_Payload_deserialize HEARTBEAT_Payload_new m of
        None \<Rightarrow> Some None
      | Some (False, _, m1) \<Rightarrow> Some (Some (False, m1, pc, s))
      | Some (True, hb, m1) \<Rightarrow>
          let sid = hb_stream_id hb;
              se1 = update_from_heartbeat sid (hb_first_unacked_seq_nr hb) (hb_last_unacked_seq_nr hb) (pc_session pc);
              (ak, se2) = fill_acknack sid ACKNACK_Payload_new se1
          in map_option (map_option (\<lambda>(pc1, s'). (True, m1, pc1, s')))
               (send_one_reply E STREAMID_NONE source (Reply_ACKNACK (ak\<lparr>ak_stream_id := sid\<rparr>)) (pc\<lparr>pc_session := se2\<rparr>) s))"

definition process_reset_submessage :: "'w ProxyClient \<Rightarrow> 'w ProxyClient" where
  "process_reset_submessage pc = pc\<lparr>pc_session := Session_reset (pc_session pc)\<rparr>"

definition process_timestamp_submessage :: "'w processor_env \<Rightarrow> 'e \<Rightarrow> InputMessage \<Rightarrow> 'w ProxyClient \<Rightarrow> ('w, 'e) agent
    \<Rightarrow> (bool \<times> InputMessage \<times> 'w ProxyClient \<times> ('w, 'e) agent) option option" where
  "process_timestamp_submessage E source m pc s =
     (case get_payload (pe_cdr E) TIMESTAMP_Payload_deserialize Time_t_new m of
        None \<Rightarrow> Some None
      | Some (False, _, m1) \<Rightarrow> Some (Some (False, m1, pc, s))
      | Some (True, t, m1) \<Rightarrow>
          map_option (map_option (\<lambda>(pc1, s'). (True, m1, pc1, s')))
            (send_one_reply E STREAMID_NONE source (Reply_TIMESTAMP_REPLY \<lparr>tr_transmit_timestamp = pe_transmit_time E,
               tr_receive_timestamp = pe_receive_time E, tr_originate_timestamp = t\<rparr>) pc s))"

subsection \<open>Messages\<close>

text \<open>A fragment is added to the buffer of its stream; the position in the message moves behind it.  A message
  that is complete is taken out.\<close>

definition process_fragment_submessage :: "'w processor_env \<Rightarrow> InputMessage \<Rightarrow> 'w ProxyClient
    \<Rightarrow> InputMessage option \<times> InputMessage \<times> 'w ProxyClient" where
  "process_fragment_submessage E m pc =
     (let sid = mh_stream_id (im_header m);
          m1 = (if is_reliable_stream sid then snd (push_fragment m (reliable_istream (pc_session pc) sid)) else m);
          (fragment, se) = pop_input_fragment_message (pe_cdr E) sid (push_input_fragment sid m (pc_session pc))
      in (fragment, m1, pc\<lparr>pc_session := se\<rparr>))"

text \<open>The other submessages.  A message of a session does not have the session identifiers of messages outside
  a session, so the handler of \<open>CREATE_CLIENT\<close> refuses here before it changes anything.\<close>

definition process_submessage :: "'w processor_env \<Rightarrow> 'e \<Rightarrow> InputMessage \<Rightarrow> 'w ProxyClient \<Rightarrow> ('w, 'e) agent
    \<Rightarrow> (bool \<times> InputMessage \<times> 'w ProxyClient \<times> ('w, 'e) agent) option option" where
  "process_submessage E source m pc s =
     (let i = sh_submessage_id (im_subheader m)
      in if i = 0 then Some (map_option (\<lambda>(rv, m1, s1). (rv, m1, pc, s1)) (process_create_client_submessage E source m s))
         else if i = 1 then process_create_submessage E source m pc s
         else if i = 2 then Some (process_get_info_submessage E source m pc s)
         else if i = 3 then process_delete_submessage E source m pc s
         else if i = 7 then Some (map_option (\<lambda>(rv, m1, pc1). (rv, m1, pc1, s)) (process_write_data_submessage E m pc))
         else if i = 8 then process_read_data_submessage E source m pc s
         else if i = 10 then Some (process_acknack_submessage E source m pc s)
         else if i = 11 then process_heartbeat_submessage E source m pc s
         else if i = 12 then Some (Some (True, m, process_reset_submessage pc, s))
         else if i = 14 then process_timestamp_submessage E source m pc s
         else Some (Some (False, m, pc, s)))"

text \<open>The submessages of a message in their order, up to the first that is refused; a message put together from
  fragments is processed within the one that completes it.\<close>

partial_function (option) process_input_message :: "'w processor_env \<Rightarrow> 'e \<Rightarrow> InputMessage \<Rightarrow> 'w ProxyClient
    \<Rightarrow> ('w, 'e) agent \<Rightarrow> ('w ProxyClient \<times> ('w, 'e) agent) option option" where
  "process_input_message E source m pc s =
     (case prepare_next_submessage (pe_cdr E) m of
        (ok, m1) \<Rightarrow>
          if \<not> ok then Some (Some (pc, s))
          else if sh_submessage_id (im_subheader m1) = SUBMESSAGE_FRAGMENT
          then case process_fragment_submessage E m1 pc of
                 (fragment, m2, pc1) \<Rightarrow>
                   Option.bind (case fragment of None \<Rightarrow> Some (Some (pc1, s)) | Some fm \<Rightarrow> process_input_message E source fm pc1 s)
                     (\<lambda>r. case r of None \<Rightarrow> Some None | Some (pc2, s2) \<Rightarrow> process_input_message E source m2 pc2 s2)
          else case process_submessage E source m1 pc s of
                 None \<Rightarrow> None
               | Some None \<Rightarrow> Some None
               | Some (Some (rv, m2, pc1, s1)) \<Rightarrow>
                   if rv then process_input_message E source m2 pc1 s1 else Some (Some (pc1, s1)))"

partial_function (option) process_input_stream :: "'w processor_env \<Rightarrow> 'e \<Rightarrow> u8 \<Rightarrow> 'w ProxyClient
    \<Rightarrow> ('w, 'e) agent \<Rightarrow> ('w ProxyClient \<times> ('w, 'e) agent) option option" where
  "process_input_stream E source sid pc s =
     (case pop_input_message sid (pc_session pc) of
        (popped, se) \<Rightarrow>
          (case popped of
             None \<Rightarrow> Some (Some (pc\<lparr>pc_session := se\<rparr>, s))
           | Some m \<Rightarrow>
               Option.bind (process_input_message E source m (pc\<lparr>pc_session := se\<rparr>) s)
                 (\<lambda>r. case r of None \<Rightarrow> Some None | Some (pc1, s1) \<Rightarrow> process_input_stream E source sid pc1 s1)))"

text \<open>The acknowledgement that follows every message on a reliable stream.\<close>

definition acknowledge :: "'w processor_env \<Rightarrow> 'e \<Rightarrow> MessageHeader \<Rightarrow> 'w ProxyClient \<Rightarrow> ('w, 'e) agent
    \<Rightarrow> ('w ProxyClient \<times> ('w, 'e) agent) option" where
  "acknowledge E source header pc s =
     (let sid = mh_stream_id header
      in if is_reliable_stream sid
         then let acknack_header = \<lparr>mh_session_id = mh_session_id header, mh_stream_id = STREAMID_NONE, mh_sequence_nr = 0,
                    mh_client_key = mh_client_key header\<rparr>;
                  (ak, se) = fill_acknack sid ACKNACK_Payload_new (pc_session pc)
              in map_option (\<lambda>s'. (pc\<lparr>pc_session := se\<rparr>, s'))
                   (push_message source (snd (reply_message (pe_cdr E) acknack_header (Reply_ACKNACK (ak\<lparr>ak_stream_id := sid\<rparr>)))) s)
         else Some (pc, s))"

definition process_client_message :: "'w processor_env \<Rightarrow> 'e InputPacket \<Rightarrow> 'w ProxyClient \<Rightarrow> ('w, 'e) agent
    \<Rightarrow> ('w ProxyClient \<times> ('w, 'e) agent) option option" where
  "process_client_message E packet pc s =
     (let m = ip_message packet; header = im_header m; sid = mh_stream_id header;
          pc1 = update_state (env_now (pe_agent E)) alive pc;
          pc2 = pc1\<lparr>pc_session := snd (push_input_message (pe_depths E) m sid (mh_sequence_nr header) (pc_session pc1))\<rparr>
      in Option.bind (process_input_stream E (ip_source packet) sid pc2 s)
           (\<lambda>r. case r of None \<Rightarrow> Some None | Some (pc3, s3) \<Rightarrow> Some (acknowledge E (ip_source packet) header pc3 s3)))"

text \<open>Requests of clients that are not known: a deletion is confirmed, a ping is answered.\<close>

definition process_unknown_client :: "'w processor_env \<Rightarrow> 'e InputPacket \<Rightarrow> ('w, 'e) agent \<Rightarrow> ('w, 'e) agent option" where
  "process_unknown_client E packet s =
     (case prepare_next_submessage (pe_cdr E) (ip_message packet) of
        (False, _) \<Rightarrow> Some s
      | (True, m) \<Rightarrow>
          if sh_submessage_id (im_subheader m) = 3
          then case get_payload (pe_cdr E) DELETE_Payload_deserialize BaseObjectRequest_new m of
                 None \<Rightarrow> None
               | Some (read, request, _) \<Rightarrow>
                   if read \<and> snd (bo_object_id request) AND 0x0F = OBJK_CLIENT
                   then push_message (ip_source packet)
                          (snd (reply_message (pe_cdr E) (im_header m) (status_reply request STATUS_OK))) s
                   else Some s
          else if sh_submessage_id (im_subheader m) = 2 then process_get_info_packet E (ip_source packet) m s
          else Some s)"

definition sender_key :: "'e InputPacket \<Rightarrow> ('w, 'e) agent \<Rightarrow> ClientKey" where
  "sender_key packet s =
     (let header = im_header (ip_message packet)
      in if mh_session_id header < 128 then mh_client_key header
         else case get_client_key (ip_source packet) (ag_sessions s) of
                None \<Rightarrow> CLIENTKEY_INVALID
              | Some raw_client_key \<Rightarrow> raw_to_clientkey raw_client_key)"

definition process_input_packet :: "'w processor_env \<Rightarrow> 'e InputPacket \<Rightarrow> ('w, 'e) agent \<Rightarrow> ('w, 'e) agent option option" where
  "process_input_packet E packet s =
     (if outside_session (ip_message packet)
      then Some (case prepare_next_submessage (pe_cdr E) (ip_message packet) of
             (False, _) \<Rightarrow> Some s
           | (True, m) \<Rightarrow>
               if sh_submessage_id (im_subheader m) = 0
               then map_option (\<lambda>(_, _, s'). s') (process_create_client_submessage E (ip_source packet) m s)
               else if sh_submessage_id (im_subheader m) = 2 then process_get_info_packet E (ip_source packet) m s
               else Some s)
      else let key = sender_key packet s
           in case get_client key (ag_root s) of
                None \<Rightarrow> Some (process_unknown_client E packet s)
              | Some pc \<Rightarrow>
                  Option.bind (process_client_message E packet pc s)
                    (\<lambda>r. Some (map_option (\<lambda>(pc', s'). s'\<lparr>ag_root := update_client key pc' (ag_root s')\<rparr>) r)))"

end
