(* ===== verification/Processor_Isolation.thy ===== *)
theory Processor_Isolation
  imports Agent_Processor
begin

text \<open>
  What a packet can change.  \<open>pushed\<close> and \<open>handled\<close> describe the effect of the helpers and of the handlers of
  \<open>Agent_Processor\<close>; both compose, so that the effect of a whole packet follows from that of each handler.
\<close>

subsection \<open>Output to one endpoint\<close>

fun push_packets :: "'e OutputPacket list \<Rightarrow> 'e Server \<Rightarrow> 'e Server option" where
  "push_packets [] v = Some v"
| "push_packets (p # ps) v = (case push_output_packet p v of None \<Rightarrow> None | Some v' \<Rightarrow> push_packets ps v')"

lemma push_packets_append: "push_packets (ps @ qs) v = Option.bind (push_packets ps v) (push_packets qs)"
  by (induction ps arbitrary: v) (simp_all split: option.split)

definition pushed :: "'e \<Rightarrow> ('w, 'e) agent \<Rightarrow> ('w, 'e) agent \<Rightarrow> bool" where
  "pushed destination s s' \<longleftrightarrow> ag_root s' = ag_root s \<and> ag_sessions s' = ag_sessions s
     \<and> (\<exists>ms. push_packets (map (packet_to destination) ms) (ag_server s) = Some (ag_server s'))"

lemma pushed_refl [simp]: "pushed d s s"
  unfolding pushed_def by (metis list.simps(8) push_packets.simps(1))

lemma pushed_trans: "pushed d s s' \<Longrightarrow> pushed d s' s'' \<Longrightarrow> pushed d s s''"
  unfolding pushed_def by (metis bind.bind_lunit map_append push_packets_append)

lemma pushed_root: "pushed d s s' \<Longrightarrow> ag_root s' = ag_root s"
  by (simp add: pushed_def)

lemma pushed_message: "push_message d m s = Some s' \<Longrightarrow> pushed d s s'"
  unfolding pushed_def push_message_def by (auto intro!: exI [of _ "[m]"])

lemma pushed_flush: "flush_output sid d se s = Some (se', s') \<Longrightarrow> pushed d s s'"
proof (induction sid d se s rule: flush_output.induct)
  case (1 sid d se s)
  from 1(2) show ?case
    by (subst (asm) flush_output.simps)
      (auto split: option.splits prod.splits intro: pushed_trans [OF pushed_message 1(1)])
qed

lemma pushed_send_reply: "send_reply E sid d r pc s = Some (Some (pc', s')) \<Longrightarrow> pushed d s s' \<and> (\<exists>se. pc' = pc\<lparr>pc_session := se\<rparr>)"
  by (auto simp: send_reply_def split: option.splits dest: pushed_flush)

lemma pushed_send_one: "send_one_reply E sid d r pc s = Some (Some (pc', s')) \<Longrightarrow> pushed d s s' \<and> (\<exists>se. pc' = pc\<lparr>pc_session := se\<rparr>)"
  by (auto simp: send_one_reply_def split: option.splits prod.splits dest: pushed_message)

lemma pushed_resend: "resend sid d ns se s = Some (se', s') \<Longrightarrow> pushed d s s'"
proof (induction ns arbitrary: se s)
  case (Cons n ns)
  obtain x se1 where g: "get_output_message sid n se = (x, se1)" by fastforce
  show ?case
  proof (cases x)
    case None
    with Cons g show ?thesis by simp
  next
    case (Some m)
    then obtain s1 where "push_message d m s = Some s1" "resend sid d ns se1 s1 = Some (se', s')"
      using Cons.prems g by (auto split: option.splits)
    then show ?thesis using Cons.IH pushed_message pushed_trans by metis
  qed
qed simp

subsection \<open>Operations on objects\<close>

text \<open>They change the objects of the proxy and the state of the middleware only.\<close>

definition objects_only :: "'w ProxyClient \<Rightarrow> 'w ProxyClient \<Rightarrow> bool" where
  "objects_only pc pc' \<longleftrightarrow> (\<exists>objs w. pc' = pc\<lparr>pc_objects := objs, pc_middleware := w\<rparr>)"

lemma objects_only_refl [simp]: "objects_only pc pc"
  unfolding objects_only_def by (rule exI [of _ "pc_objects pc"], rule exI [of _ "pc_middleware pc"]) simp

lemma objects_only_trans: "objects_only pc pc' \<Longrightarrow> objects_only pc' pc'' \<Longrightarrow> objects_only pc pc''"
  by (auto simp: objects_only_def) blast

lemma objects_onlyI:
  "objects_only pc (pc\<lparr>pc_objects := objs\<rparr>)" "objects_only pc (pc\<lparr>pc_middleware := w\<rparr>)"
  "objects_only pc (pc\<lparr>pc_objects := objs, pc_middleware := w\<rparr>)"
  unfolding objects_only_def
    by (rule exI [of _ objs], rule exI [of _ "pc_middleware pc"], simp)
      (rule exI [of _ "pc_objects pc"], rule exI [of _ w], simp, blast)

lemma objects_onlyD: "objects_only pc pc' \<Longrightarrow> pc_representation pc' = pc_representation pc \<and> pc_session pc' = pc_session pc"
  by (auto simp: objects_only_def)

lemma delete_unlock_objects: "objects_only pc (snd (delete_object_unlock M i pc))"
  by (simp add: delete_object_unlock_def objects_onlyI split: option.split)

lemma delete_objects: "delete_object M i pc = (st, pc') \<Longrightarrow> objects_only pc pc'"
  using delete_unlock_objects [of pc M i] by (auto simp: delete_object_def split: prod.splits bool.splits)

lemma release_objects: "objects_only pc (release M ids pc)"
  by (induction ids arbitrary: pc) (auto intro: objects_only_trans [OF delete_unlock_objects])

lemma enter_objects: "enter_object M e i c pc = (st, pc') \<Longrightarrow> objects_only pc pc'"
  by (auto simp: enter_object_def Let_def objects_onlyI split: if_splits)

lemma create_child_objects: "create_child M e i p f pc = Some (st, pc') \<Longrightarrow> objects_only pc pc'"
  by (auto simp: create_child_def split: if_splits intro: enter_objects)

lemmas create_object_defs = create_topic_object_def create_publisher_object_def create_subscriber_object_def
  create_datawriter_object_def create_datareader_object_def create_requester_object_def create_replier_object_def

lemma dispatch_objects: "create_object_dispatch M D i ov pc = Some (st, pc') \<Longrightarrow> objects_only pc pc'"
proof -
  have "create_participant M D i ov pc = Some (st, pc') \<Longrightarrow> objects_only pc pc'"
    by (auto simp: create_participant_def intro: enter_objects)
  then show "create_object_dispatch M D i ov pc = Some (st, pc') \<Longrightarrow> objects_only pc pc'"
    unfolding create_object_dispatch_def create_object_defs
    by (auto split: if_splits dest: create_child_objects)
qed

lemma create_objects: "create_object M D mode i ov pc = Some (st, pc') \<Longrightarrow> objects_only pc pc'"
  unfolding create_object_def replace_object_def Let_def
  by (auto split: option.splits if_splits bool.splits dest: dispatch_objects
      intro: objects_only_trans [OF delete_unlock_objects dispatch_objects])

lemma write_target_objects: "objects_only pc (snd (write_target M x pc))"
  by (simp add: write_target_def Let_def split_def objects_onlyI)

lemma start_reader_objects: "start_reader request pc = (st, pc') \<Longrightarrow> objects_only pc pc'"
  by (auto simp: start_reader_def Let_def objects_onlyI split: option.splits prod.splits)

subsection \<open>Handlers\<close>

text \<open>A handler for the client with key \<open>key\<close> keeps the directory well formed, the other clients as they
  are, and the client's own representation; sessions end at most at the endpoint the packet came from, and
  messages go to that endpoint.\<close>

definition handled :: "'e \<Rightarrow> ClientKey \<Rightarrow> ('w, 'e) agent \<Rightarrow> ('w, 'e) agent \<Rightarrow> bool" where
  "handled source key s s' \<longleftrightarrow> (root_ok (ag_root s) \<longrightarrow> root_ok (ag_root s')
       \<and> (\<forall>k. k \<noteq> key \<longrightarrow> get_client k (ag_root s') = get_client k (ag_root s))
       \<and> get_client key (ag_root s') \<in> {None, get_client key (ag_root s)})
     \<and> ag_sessions s' \<in> {ag_sessions s, destroy_session_endpoint source (ag_sessions s)}
     \<and> (\<exists>ms. push_packets (map (packet_to source) ms) (ag_server s) = Some (ag_server s'))"

lemma destroy_session_idem [simp]:
  "destroy_session_endpoint e (destroy_session_endpoint e s) = destroy_session_endpoint e s"
  by (simp add: destroy_session_endpoint_def split: option.split)

lemma handled_pushed: "pushed source s s' \<Longrightarrow> handled source key s s'"
  by (auto simp: handled_def pushed_def)

lemma handled_refl [simp]: "handled source key s s"
  by (simp add: handled_pushed)

lemma handled_trans: "handled source key s s' \<Longrightarrow> handled source key s' s'' \<Longrightarrow> handled source key s s''"
proof -
  assume a: "handled source key s s'" and b: "handled source key s' s''"
  then obtain ms ms' where "push_packets (map (packet_to source) ms) (ag_server s) = Some (ag_server s')"
      "push_packets (map (packet_to source) ms') (ag_server s') = Some (ag_server s'')"
    by (auto simp: handled_def)
  then have "push_packets (map (packet_to source) (ms @ ms')) (ag_server s) = Some (ag_server s'')"
    by (simp add: push_packets_append)
  then have "\<exists>ms. push_packets (map (packet_to source) ms) (ag_server s) = Some (ag_server s'')" by blast
  with a b show ?thesis unfolding handled_def by auto
qed

text \<open>The proxy a handler holds is the one in the directory, as long as it is there.\<close>

definition holds :: "'w ProxyClient \<Rightarrow> ('w, 'e) agent \<Rightarrow> bool" where
  "holds pc s \<longleftrightarrow> root_ok (ag_root s)
     \<and> (\<forall>c. get_client (cr_client_key (pc_representation pc)) (ag_root s) = Some c \<longrightarrow> pc_representation c = pc_representation pc)"

lemma holds_handled:
  assumes "holds pc s" and "handled source (cr_client_key (pc_representation pc)) s s'" and "pc_representation pc' = pc_representation pc"
  shows "holds pc' s'"
proof -
  let ?key = "cr_client_key (pc_representation pc)"
  have "root_ok (ag_root s')" "get_client ?key (ag_root s') \<in> {None, get_client ?key (ag_root s)}"
    using assms(1,2) unfolding holds_def handled_def by blast+
  moreover have "get_client ?key (ag_root s) = Some c \<Longrightarrow> pc_representation c = pc_representation pc" for c
    using assms(1) unfolding holds_def by blast
  ultimately show ?thesis unfolding holds_def assms(3) by (metis insertE option.distinct(1) singletonD)
qed

lemma handled_delete_client:
  assumes "holds pc s" and "key = cr_client_key (pc_representation pc)"
    and "delete_client M ord key (update_client key pc (ag_root s)) = (st, released, r)"
    and "ss \<in> {ag_sessions s, destroy_session_endpoint source (ag_sessions s)}"
  shows "handled source key s (s\<lparr>ag_root := r, ag_sessions := ss\<rparr>)
    \<and> pc_representation (case released of Some c \<Rightarrow> c | None \<Rightarrow> pc) = pc_representation pc
    \<and> pc_session (case released of Some c \<Rightarrow> c | None \<Rightarrow> pc) = pc_session pc"
proof -
  let ?root = "update_client key pc (ag_root s)"
  have ok: "root_ok (ag_root s)" using assms(1) by (simp add: holds_def)
  have root: "root_ok ?root \<and> (\<forall>k. k \<noteq> key \<longrightarrow> get_client k ?root = get_client k (ag_root s))
      \<and> get_client key ?root = (if get_client key (ag_root s) = None then None else Some pc)"
  proof (cases "get_client key (ag_root s)")
    case None
    then show ?thesis using ok by (simp add: update_client_def)
  next
    case (Some c)
    then have "pc_representation pc = pc_representation c" using assms(1,2) by (simp add: holds_def)
    from root_ok_update [OF ok Some this] Some get_client_set [OF ok, of _ key pc] show ?thesis by (simp add: update_client_def)
  qed
  have r: "root_ok r" "get_client k r = (if k = key then None else get_client k ?root)"
      "released = map_option (\<lambda>c. release M (ord c) c) (get_client key ?root)" for k
    using root_ok_delete [OF conjunct1 [OF root] assms(3), of k] by blast+
  have "pc_representation (case released of Some c \<Rightarrow> c | None \<Rightarrow> pc) = pc_representation pc
      \<and> pc_session (case released of Some c \<Rightarrow> c | None \<Rightarrow> pc) = pc_session pc"
    unfolding r(3) using root objects_onlyD [OF release_objects [of pc M "ord pc"]] by simp
  moreover have "push_packets (map (packet_to source) []) (ag_server s) = Some (ag_server s)" by simp
  then have "handled source key s (s\<lparr>ag_root := r, ag_sessions := ss\<rparr>)"
    unfolding handled_def using r(1,2) root assms(4) by (metis (no_types, lifting) agent.select_convs agent.surjective agent.update_convs(1,2) insertCI)
  ultimately show ?thesis by blast
qed

text \<open>What a handler returns.\<close>

definition handler_ok :: "'e \<Rightarrow> 'w ProxyClient \<Rightarrow> ('w, 'e) agent \<Rightarrow> 'w ProxyClient \<Rightarrow> ('w, 'e) agent \<Rightarrow> bool" where
  "handler_ok source pc s pc' s' \<longleftrightarrow> handled source (cr_client_key (pc_representation pc)) s s' \<and> pc_representation pc' = pc_representation pc"

lemma handler_ok_trans:
  "handler_ok source pc s pc' s' \<Longrightarrow> handler_ok source pc' s' pc'' s'' \<Longrightarrow> handler_ok source pc s pc'' s''"
  by (auto simp: handler_ok_def intro: handled_trans)

lemma handler_ok_holds: "holds pc s \<Longrightarrow> handler_ok source pc s pc' s' \<Longrightarrow> holds pc' s'"
  by (auto simp: handler_ok_def intro: holds_handled)

lemma handler_ok_refl: "pc_representation pc' = pc_representation pc \<Longrightarrow> handler_ok source pc s pc' s"
  by (simp add: handler_ok_def)

lemma handler_ok_send:
  assumes "send_reply E sid source r pc1 s1 = Some (Some (pc', s'))" and "handler_ok source pc s pc1 s1"
  shows "handler_ok source pc s pc' s'"
  using pushed_send_reply [OF assms(1)] assms(2) by (auto simp: handler_ok_def intro: handled_trans handled_pushed)

lemma handler_ok_send_one:
  assumes "send_one_reply E sid source r pc1 s1 = Some (Some (pc', s'))" and "handler_ok source pc s pc1 s1"
  shows "handler_ok source pc s pc' s'"
  using pushed_send_one [OF assms(1)] assms(2) by (auto simp: handler_ok_def intro: handled_trans handled_pushed)

lemma handler_ok_objects: "objects_only pc pc' \<Longrightarrow> handler_ok source pc s pc' s"
  using objects_onlyD by (intro handler_ok_refl) blast

lemma create_handled: "process_create_submessage E source m pc s = Some (Some (rv, m', pc', s')) \<Longrightarrow> handler_ok source pc s pc' s'"
  by (auto simp: process_create_submessage_def Let_def handler_ok_refl split: option.splits bool.splits
      elim!: handler_ok_send dest!: create_objects intro: handler_ok_objects)

lemma delete_handled:
  assumes "holds pc s" and "process_delete_submessage E source m pc s = Some (Some (rv, m', pc', s'))"
  shows "handler_ok source pc s pc' s'"
proof -
  let ?key = "cr_client_key (pc_representation pc)"
  obtain ok request m1 where g: "get_payload (pe_cdr E) DELETE_Payload_deserialize BaseObjectRequest_new m = Some (ok, request, m1)"
    using assms(2) by (auto simp: process_delete_submessage_def split: option.splits)
  obtain st released r where d: "delete_client (pe_middleware E) (pe_object_order E) ?key (update_client ?key pc (ag_root s)) = (st, released, r)"
    by (metis prod_cases3)
  have "handler_ok source pc s (case released of Some c \<Rightarrow> c | None \<Rightarrow> pc)
      (s\<lparr>ag_root := r, ag_sessions := if st = STATUS_OK then destroy_session_endpoint source (ag_sessions s) else ag_sessions s\<rparr>)"
    using handled_delete_client [OF assms(1) refl d, of "if st = STATUS_OK then destroy_session_endpoint source (ag_sessions s) else ag_sessions s" source]
    by (simp add: handler_ok_def)
  moreover obtain st' pc1 where o: "delete_object (pe_middleware E) (bo_object_id request) pc = (st', pc1)" by fastforce
  moreover have "handler_ok source pc s pc1 s" using delete_objects [OF o] by (rule handler_ok_objects)
  ultimately show ?thesis using assms(2) g d
    by (auto simp: process_delete_submessage_def Let_def handler_ok_refl split: bool.splits if_splits elim!: handler_ok_send)
qed

lemma write_handled: "process_write_data_submessage E m pc = Some (rv, m', pc') \<Longrightarrow> handler_ok source pc s pc' s"
  using write_target_objects [of pc]
  by (auto simp: process_write_data_submessage_def Let_def handler_ok_refl split: option.splits bool.splits if_splits prod.splits
      intro!: handler_ok_objects) (metis snd_conv)+

lemma read_handled: "process_read_data_submessage E source m pc s = Some (Some (rv, m', pc', s')) \<Longrightarrow> handler_ok source pc s pc' s'"
  by (auto simp: process_read_data_submessage_def handler_ok_refl split: option.splits bool.splits if_splits prod.splits
      elim!: handler_ok_send dest!: start_reader_objects intro: handler_ok_objects)

lemma acknack_handled: "process_acknack_submessage E source m pc s = Some (rv, m', pc', s') \<Longrightarrow> handler_ok source pc s pc' s'"
  by (auto simp: process_acknack_submessage_def handler_ok_def split: option.splits bool.splits
      dest!: pushed_resend intro: handled_pushed)

lemma heartbeat_handled: "process_heartbeat_submessage E source m pc s = Some (Some (rv, m', pc', s')) \<Longrightarrow> handler_ok source pc s pc' s'"
  by (auto simp: process_heartbeat_submessage_def Let_def handler_ok_refl split: option.splits bool.splits prod.splits
      elim!: handler_ok_send_one)

lemma timestamp_handled: "process_timestamp_submessage E source m pc s = Some (Some (rv, m', pc', s')) \<Longrightarrow> handler_ok source pc s pc' s'"
  by (auto simp: process_timestamp_submessage_def handler_ok_refl split: option.splits bool.splits elim!: handler_ok_send_one)

lemma get_info_handled: "process_get_info_submessage E source m pc s = Some (rv, m', pc', s') \<Longrightarrow> handler_ok source pc s pc' s'"
  by (auto simp: process_get_info_submessage_def Let_def handler_ok_def split: option.splits prod.splits
      dest!: pushed_message intro: handled_pushed)

lemma fragment_representation: "process_fragment_submessage E m pc = (f, m', pc') \<Longrightarrow> pc_representation pc' = pc_representation pc"
  by (auto simp: process_fragment_submessage_def Let_def split: prod.splits)

end
