(* ===== verification/Processor_Progress.thy ===== *)
theory Processor_Progress
  imports Processor_Isolation
begin

text \<open>
  Processing of a packet comes to an end, whatever it contains: reading moves forward in a message, and a message
  put together from fragments has fewer octets to offer than the messages the fragments came in.
\<close>

subsection \<open>Reading moves forward\<close>

definition r_forward :: "'b reader \<Rightarrow> bool" where
  "r_forward r \<longleftrightarrow> (\<forall>buf p. p \<le> snd (r buf p))"

definition d_forward :: "'a deser \<Rightarrow> bool" where
  "d_forward d \<longleftrightarrow> (\<forall>buf x p. p \<le> snd (snd (d buf (x, p))))"

lemma read_bytes_forward: "read_bytes buf p n = Some (bs, q) \<Longrightarrow> q = p + n"
  by (auto simp: read_bytes_def split: if_splits)

lemma r_forward_prims [simp]:
  "r_forward (r_octets n)" "r_forward r_u8" "r_forward (r_bool C)" "r_forward (r_u16 C)" "r_forward (r_u32 C)" "r_forward r_pair"
  by (auto simp: r_forward_def r_octets_def r_u8_def r_bool_def r_u16_def r_u32_def r_pair_def
      split: option.splits prod.splits dest!: read_bytes_forward)

lemma r_forward_counted [simp]: "r_forward (r_counted C)" "r_forward (r_string C)" "r_forward (r_bytes C)"
proof -
  have "p \<le> snd (r_counted C buf p)" for buf p
    using r_forward_prims(5) [of C, unfolded r_forward_def, rule_format, of p buf]
    by (auto simp: r_counted_def split: option.splits prod.splits sum.splits dest!: read_bytes_forward)
  then show "r_forward (r_counted C)" "r_forward (r_string C)" "r_forward (r_bytes C)"
    by (auto simp: r_forward_def r_string_def r_bytes_def split: prod.splits sum.splits) (metis snd_conv)+
qed

lemma d_forward_all [intro]: "list_all d_forward ds \<Longrightarrow> d_forward (d_all ds)"
proof (induction ds)
  case (Cons d ds)
  show ?case unfolding d_forward_def
  proof (intro allI)
    fix buf x p
    obtain e y q where d: "d buf (x, p) = (e, y, q)" by (metis prod_cases3)
    then have "p \<le> q" using Cons.prems by (auto simp: d_forward_def) (metis snd_conv)
    moreover have "q \<le> snd (snd (d_all ds buf (y, q)))" using Cons by (simp add: d_forward_def)
    ultimately show "p \<le> snd (snd (d_all (d # ds) buf (x, p)))" by (simp add: d split: option.split)
  qed
qed (simp add: d_forward_def)

lemma d_forward_read [simp]: "r_forward r \<Longrightarrow> d_forward (d_read r upd)"
  by (auto simp: d_forward_def r_forward_def d_read_def split: prod.splits sum.splits) (metis snd_conv)+

lemma d_forward_member [simp]: "d_forward d \<Longrightarrow> d_forward (d_member d get upd)"
  by (auto simp: d_forward_def d_member_def split: prod.splits) (metis snd_conv)

lemma d_forward_case [intro]: "(\<And>x. d_forward (f x)) \<Longrightarrow> d_forward (d_case f)"
  by (simp add: d_forward_def d_case_def)

lemma d_forward_skip [simp]: "d_forward d_skip"
  by (simp add: d_forward_def d_skip_def)

lemma r_forward_fresh [simp]: "d_forward d \<Longrightarrow> r_forward (r_fresh d x)"
  by (auto simp: r_forward_def d_forward_def r_fresh_def split: prod.splits option.splits) (metis snd_conv)+

lemma d_forward_optional [simp]: "r_forward r \<Longrightarrow> d_forward (d_optional C r upd)"
proof -
  assume "r_forward r"
  then have "d_forward (d_read r upd)" by simp
  then have "q \<le> snd (snd (d_read r upd buf (x, q)))" for q buf x unfolding d_forward_def by blast
  moreover have "p \<le> snd (r_bool C buf p)" for buf p using r_forward_prims(3) by (simp add: r_forward_def)
  ultimately show ?thesis
    unfolding d_forward_def d_optional_def by (auto split: prod.splits sum.splits) (metis order_trans snd_conv)+
qed

lemma r_forward_vector [simp]: "r_forward r \<Longrightarrow> r_forward (r_vector C r)"
proof -
  assume r: "r_forward r"
  have "q \<le> snd (r_elements r n buf q)" for n buf q
  proof (induction n arbitrary: q)
    case (Suc n)
    obtain x q' where "r buf q = (x, q')" by fastforce
    moreover from this have "q \<le> q'" using r by (auto simp: r_forward_def) (metis snd_conv)
    ultimately show ?case using Suc [of q'] by (auto split: sum.splits prod.splits)
  qed simp
  moreover have "p \<le> snd (r_u32 C buf p)" for buf p using r_forward_prims(5) by (simp add: r_forward_def)
  ultimately show ?thesis
    unfolding r_forward_def r_vector_def by (auto split: prod.splits sum.splits) (metis order_trans snd_conv)
qed

lemma payloads_forward [simp]:
  "d_forward (CREATE_CLIENT_Payload_deserialize C)" "d_forward (CREATE_Payload_deserialize C)" "d_forward (GET_INFO_Payload_deserialize C)"
  "d_forward (DELETE_Payload_deserialize C)" "d_forward (READ_DATA_Payload_deserialize C)" "d_forward (WRITE_DATA_Payload_Data_deserialize C)"
  "d_forward (ACKNACK_Payload_deserialize C)" "d_forward (HEARTBEAT_Payload_deserialize C)" "d_forward (TIMESTAMP_Payload_deserialize C)"
proof -
  have req: "d_forward BaseObjectRequest_deserialize" by (auto simp: BaseObjectRequest_deserialize_def)
  have "d_forward (Property_deserialize C)" by (auto simp: Property_deserialize_def)
  then have props: "r_forward (r_properties C)" by (simp add: r_properties_def)
  have client: "d_forward (CLIENT_Representation_deserialize C)" by (auto simp: CLIENT_Representation_deserialize_def props)
  have agent: "d_forward (AGENT_Representation_deserialize C)" by (auto simp: AGENT_Representation_deserialize_def props)
  have repr: "d_forward (Representation_deserialize ds C)" for ds unfolding Representation_deserialize_def by (intro d_forward_all) (auto intro!: d_forward_case)
  have variant: "d_forward (ObjectVariant_deserialize C)"
    unfolding ObjectVariant_deserialize_def d_representation_def
    by (intro d_forward_all) (auto simp: client agent repr intro!: d_forward_case d_forward_all split: object_class.split)
  have control: "d_forward (DataDeliveryControl_deserialize C)" by (auto simp: DataDeliveryControl_deserialize_def)
  have spec: "d_forward (ReadSpecification_deserialize C)" by (auto simp: ReadSpecification_deserialize_def control)
  show "d_forward (CREATE_CLIENT_Payload_deserialize C)" "d_forward (CREATE_Payload_deserialize C)" "d_forward (GET_INFO_Payload_deserialize C)"
    "d_forward (DELETE_Payload_deserialize C)" "d_forward (READ_DATA_Payload_deserialize C)" "d_forward (WRITE_DATA_Payload_Data_deserialize C)"
    "d_forward (ACKNACK_Payload_deserialize C)" "d_forward (HEARTBEAT_Payload_deserialize C)" "d_forward (TIMESTAMP_Payload_deserialize C)"
    by (auto intro!: d_forward_all d_forward_case simp: CREATE_CLIENT_Payload_deserialize_def CREATE_Payload_deserialize_def GET_INFO_Payload_deserialize_def
        DELETE_Payload_deserialize_def READ_DATA_Payload_deserialize_def WRITE_DATA_Payload_Data_deserialize_def
        ACKNACK_Payload_deserialize_def HEARTBEAT_Payload_deserialize_def TIMESTAMP_Payload_deserialize_def
        Time_t_deserialize_def client req variant spec)
qed

text \<open>The same message, read further.\<close>

definition further :: "InputMessage \<Rightarrow> InputMessage \<Rightarrow> bool" where
  "further m m' \<longleftrightarrow> im_buf m' = im_buf m \<and> im_header m' = im_header m \<and> im_pos m \<le> im_pos m'"

lemma further_refl [simp]: "further m m"
  by (simp add: further_def)

lemma get_payload_further:
  assumes "get_payload C d x0 m = Some (ok, x, m')" and "\<And>C. d_forward (d C)"
  shows "further m m'"
proof -
  let ?C = "cdr_endian (im_little_endian m) C"
  obtain e y q where d: "d ?C (im_buf m) (x0, im_pos m) = (e, y, q)" by (metis prod_cases3)
  then have "im_pos m \<le> q" using assms(2) [of ?C] by (auto simp: d_forward_def) (metis snd_conv)
  then show ?thesis using assms(1) d by (auto simp: get_payload_def further_def split: option.splits cdr_exception.splits)
qed

lemmas payload_further =
  get_payload_further [where d = CREATE_CLIENT_Payload_deserialize, OF _ payloads_forward(1)]
  get_payload_further [where d = CREATE_Payload_deserialize, OF _ payloads_forward(2)]
  get_payload_further [where d = GET_INFO_Payload_deserialize, OF _ payloads_forward(3)]
  get_payload_further [where d = DELETE_Payload_deserialize, OF _ payloads_forward(4)]
  get_payload_further [where d = READ_DATA_Payload_deserialize, OF _ payloads_forward(5)]
  get_payload_further [where d = WRITE_DATA_Payload_Data_deserialize, OF _ payloads_forward(6)]
  get_payload_further [where d = ACKNACK_Payload_deserialize, OF _ payloads_forward(7)]
  get_payload_further [where d = HEARTBEAT_Payload_deserialize, OF _ payloads_forward(8)]
  get_payload_further [where d = TIMESTAMP_Payload_deserialize, OF _ payloads_forward(9)]

lemma create_client_further: "process_create_client_submessage E source m s = Some (rv, m', s') \<Longrightarrow> further m m'"
  by (auto simp: process_create_client_submessage_def Let_def split: option.splits bool.splits prod.splits if_splits
      dest: payload_further(1))

lemma create_further: "process_create_submessage E source m pc s = Some (Some (rv, m', pc', s')) \<Longrightarrow> further m m'"
  by (auto simp: process_create_submessage_def Let_def split: option.splits bool.splits dest: payload_further(2))

lemma get_info_further: "process_get_info_submessage E source m pc s = Some (rv, m', pc', s') \<Longrightarrow> further m m'"
  by (auto simp: process_get_info_submessage_def Let_def split: option.splits prod.splits dest: payload_further(3))

lemma delete_further: "process_delete_submessage E source m pc s = Some (Some (rv, m', pc', s')) \<Longrightarrow> further m m'"
  by (auto simp: process_delete_submessage_def Let_def split: option.splits bool.splits prod.splits if_splits dest: payload_further(4))

lemma read_further: "process_read_data_submessage E source m pc s = Some (Some (rv, m', pc', s')) \<Longrightarrow> further m m'"
  by (auto simp: process_read_data_submessage_def split: option.splits bool.splits if_splits prod.splits dest: payload_further(5))

lemma write_further: "process_write_data_submessage E m pc = Some (rv, m', pc') \<Longrightarrow> further m m'"
  by (auto simp: process_write_data_submessage_def Let_def split: option.splits bool.splits if_splits prod.splits dest: payload_further(6))

lemma acknack_further: "process_acknack_submessage E source m pc s = Some (rv, m', pc', s') \<Longrightarrow> further m m'"
  by (auto simp: process_acknack_submessage_def split: option.splits bool.splits dest: payload_further(7))

lemma heartbeat_further: "process_heartbeat_submessage E source m pc s = Some (Some (rv, m', pc', s')) \<Longrightarrow> further m m'"
  by (auto simp: process_heartbeat_submessage_def Let_def split: option.splits bool.splits prod.splits dest: payload_further(8))

lemma timestamp_further: "process_timestamp_submessage E source m pc s = Some (Some (rv, m', pc', s')) \<Longrightarrow> further m m'"
  by (auto simp: process_timestamp_submessage_def split: option.splits bool.splits dest: payload_further(9))

lemma submessage_further: "process_submessage E source m pc s = Some (Some (rv, m', pc', s')) \<Longrightarrow> further m m'"
  unfolding process_submessage_def Let_def
  by (auto split: if_splits dest: create_client_further create_further get_info_further delete_further read_further
      write_further acknack_further heartbeat_further timestamp_further)

lemma prepare_further:
  assumes "prepare_next_submessage C m = (ok, m')"
  shows "further m m' \<and> (ok \<longrightarrow> im_pos m + 4 \<le> im_pos m' \<and> im_pos m' \<le> length (im_buf m)
    \<and> im_buf m ! (im_pos m' - 4) = sh_submessage_id (im_subheader m'))"
proof -
  have jump: "p \<le> im_jump b p" for b p by (simp add: im_jump_def)
  have sh: "q = p + 4 \<and> q \<le> length b \<and> b ! p = sh_submessage_id h'" if "sh_deserialize C b p h = (True, h', q)" for C b p h h' q
    using that by (auto simp: sh_deserialize_def read_bytes_def Let_def split: option.splits if_splits)
  have le: "p \<le> q" if "sh_deserialize C b p h = (r, h', q)" for C b p h r h' q
    using that by (auto simp: sh_deserialize_def read_bytes_def Let_def split: option.splits if_splits)
  from assms jump [of "im_pos m" "im_buf m"] show ?thesis
    by (auto simp: prepare_next_submessage_def further_def Let_def split: if_splits prod.splits dest: sh le)
      (metis (no_types, lifting) add_diff_cancel_right' le order_trans sh add_le_mono1)+
qed

end
