(* ===== verification/Processor_Termination.thy ===== *)
theory Processor_Termination
  imports Processor_Progress
begin

text \<open>
  What submessages do to the input streams of a session, and the termination of \<open>process_input_packet\<close>.
\<close>

subsection \<open>Input streams\<close>

lemma se_info_set [simp]:
  "se_info (set_reliable_istream sid r se) = se_info se" "se_info (set_best_istream sid b se) = se_info se"
  by (simp_all add: set_reliable_istream_def set_best_istream_def)

text \<open>Output operations leave the input streams alone.\<close>

definition same_inputs :: "Session \<Rightarrow> Session \<Rightarrow> bool" where
  "same_inputs se se' \<longleftrightarrow> se_none_istream se' = se_none_istream se \<and> se_best_effort_istreams se' = se_best_effort_istreams se
     \<and> se_reliable_istreams se' = se_reliable_istreams se \<and> se_info se' = se_info se"

lemma same_inputs_refl [simp]: "same_inputs se se"
  by (simp add: same_inputs_def)

lemma same_inputs_trans: "same_inputs se se' \<Longrightarrow> same_inputs se' se'' \<Longrightarrow> same_inputs se se''"
  by (simp add: same_inputs_def)

lemma same_inputs_push: "push_output_submessage C D sid i sub se = Some (Some (rv, se')) \<Longrightarrow> same_inputs se se'"
  by (auto simp: push_output_submessage_def same_inputs_def set_best_ostream_def set_reliable_ostream_def Let_def
      split: if_splits prod.splits)

lemma same_inputs_next: "get_next_output_message sid se = Some (m, se') \<Longrightarrow> same_inputs se se'"
  by (auto simp: get_next_output_message_def same_inputs_def set_best_ostream_def set_reliable_ostream_def Let_def
      split: if_splits prod.splits)

lemma same_inputs_get: "get_output_message sid n se = (m, se') \<Longrightarrow> same_inputs se se'"
  by (auto simp: get_output_message_def same_inputs_def set_reliable_ostream_def split: if_splits)

lemma same_inputs_acknack: "same_inputs se (update_from_acknack sid n se)"
  by (simp add: update_from_acknack_def same_inputs_def set_reliable_ostream_def)

lemma same_inputs_flush: "flush_output sid d se s = Some (se', s') \<Longrightarrow> same_inputs se se'"
proof (induction sid d se s rule: flush_output.induct)
  case (1 sid d se s)
  from 1(2) show ?case
    by (subst (asm) flush_output.simps)
      (auto split: option.splits prod.splits dest: same_inputs_next intro: same_inputs_trans [OF same_inputs_next 1(1)])
qed

lemma same_inputs_resend: "resend sid d ns se s = Some (se', s') \<Longrightarrow> same_inputs se se'"
proof (induction ns arbitrary: se s)
  case (Cons n ns)
  obtain x se1 where g: "get_output_message sid n se = (x, se1)" by fastforce
  have "same_inputs se1 se'"
    using Cons g by (cases x) (auto split: option.splits)
  then show ?case using same_inputs_get [OF g] same_inputs_trans by blast
qed simp

lemma same_inputs_send: "send_reply E sid d r pc s = Some (Some (pc', s')) \<Longrightarrow> same_inputs (pc_session pc) (pc_session pc')"
  by (auto simp: send_reply_def split: option.splits intro: same_inputs_trans dest!: same_inputs_push same_inputs_flush)

lemma same_inputs_send_one: "send_one_reply E sid d r pc s = Some (Some (pc', s')) \<Longrightarrow> same_inputs (pc_session pc) (pc_session pc')"
  by (auto simp: send_one_reply_def split: option.splits prod.splits intro: same_inputs_trans dest!: same_inputs_push same_inputs_next)

text \<open>Handlers never add to the input streams: each keeps a queue as it is, or empties it, and leaves the
  fragments and the parameters of the session alone.\<close>

definition stream_le :: "InputMessage ReliableInputStream \<Rightarrow> InputMessage ReliableInputStream \<Rightarrow> bool" where
  "stream_le r r' \<longleftrightarrow> ri_messages r' \<in> {ri_messages r, Map.empty} \<and> ri_fragment_msg r' = ri_fragment_msg r
     \<and> ri_fragment_message_available r' = ri_fragment_message_available r"

definition inputs_le :: "Session \<Rightarrow> Session \<Rightarrow> bool" where
  "inputs_le se se' \<longleftrightarrow> se_none_istream se' = se_none_istream se \<and> se_info se' = se_info se
     \<and> (\<forall>sid. bi_messages (best_istream se' sid) \<in> {bi_messages (best_istream se sid), []})
     \<and> (\<forall>sid. stream_le (reliable_istream se sid) (reliable_istream se' sid))"

lemma stream_le_refl [simp]: "stream_le r r"
  by (simp add: stream_le_def)

lemma inputs_le_same: "same_inputs se se' \<Longrightarrow> inputs_le se se'"
  by (simp add: same_inputs_def inputs_le_def best_istream_def reliable_istream_def)

lemma inputs_le_refl [simp]: "inputs_le se se"
  by (simp add: inputs_le_same)

lemma inputs_le_trans: "inputs_le se se' \<Longrightarrow> inputs_le se' se'' \<Longrightarrow> inputs_le se se''"
  unfolding inputs_le_def stream_le_def by (metis insert_iff singletonD)

lemma inputs_le_reset: "inputs_le se (Session_reset se)"
  by (auto simp: inputs_le_def Session_reset_def best_istream_def reliable_istream_def stream_le_def best_reset_def rel_reset_def
      split: option.splits)

lemma inputs_le_heartbeat: "inputs_le se (update_from_heartbeat sid f l se)"
  by (auto simp: inputs_le_def update_from_heartbeat_def stream_le_def rel_update_from_heartbeat_def Let_def)

lemma inputs_le_fill: "fill_acknack sid ak se = (ak', se') \<Longrightarrow> inputs_le se se'"
  by (auto simp: inputs_le_def fill_acknack_def split: if_splits)

lemma inputs_le_objects: "objects_only pc pc' \<Longrightarrow> inputs_le (pc_session pc) (pc_session pc')"
  using objects_onlyD by force

lemma inputs_le_send:
  "send_reply E sid d r pc1 s = Some (Some (pc', s')) \<Longrightarrow> inputs_le se (pc_session pc1) \<Longrightarrow> inputs_le se (pc_session pc')"
  by (metis inputs_le_same inputs_le_trans same_inputs_send)

lemma inputs_le_send_one:
  "send_one_reply E sid d r pc1 s = Some (Some (pc', s')) \<Longrightarrow> inputs_le se (pc_session pc1) \<Longrightarrow> inputs_le se (pc_session pc')"
  by (metis inputs_le_same inputs_le_trans same_inputs_send_one)

lemma create_inputs: "process_create_submessage E source m pc s = Some (Some (rv, m', pc', s')) \<Longrightarrow> inputs_le (pc_session pc) (pc_session pc')"
  by (auto simp: process_create_submessage_def Let_def split: option.splits bool.splits
      elim!: inputs_le_send dest!: create_objects intro: inputs_le_objects)

lemma delete_inputs:
  assumes "holds pc s" and "process_delete_submessage E source m pc s = Some (Some (rv, m', pc', s'))"
  shows "inputs_le (pc_session pc) (pc_session pc')"
proof -
  let ?key = "cr_client_key (pc_representation pc)"
  obtain ok request m1 where g: "get_payload (pe_cdr E) DELETE_Payload_deserialize BaseObjectRequest_new m = Some (ok, request, m1)"
    using assms(2) by (auto simp: process_delete_submessage_def split: option.splits)
  obtain st released r where d: "delete_client (pe_middleware E) (pe_object_order E) ?key (update_client ?key pc (ag_root s)) = (st, released, r)"
    by (metis prod_cases3)
  have "inputs_le (pc_session pc) (pc_session (case released of Some c \<Rightarrow> c | None \<Rightarrow> pc))"
    using handled_delete_client [OF assms(1) refl d, of "ag_sessions s"] by simp
  moreover obtain st' pc1 where o: "delete_object (pe_middleware E) (bo_object_id request) pc = (st', pc1)" by fastforce
  moreover have "inputs_le (pc_session pc) (pc_session pc1)" using delete_objects [OF o] by (rule inputs_le_objects)
  ultimately show ?thesis using assms(2) g d
    by (auto simp: process_delete_submessage_def Let_def split: bool.splits if_splits elim!: inputs_le_send)
qed

lemma write_target_inputs: "write_target M x pc = (w, pc') \<Longrightarrow> inputs_le (pc_session pc) (pc_session pc')"
  by (metis inputs_le_objects snd_conv write_target_objects)

lemma write_inputs: "process_write_data_submessage E m pc = Some (rv, m', pc') \<Longrightarrow> inputs_le (pc_session pc) (pc_session pc')"
  by (auto simp: process_write_data_submessage_def Let_def split: option.splits bool.splits if_splits prod.splits
      intro: write_target_inputs)

lemma read_inputs: "process_read_data_submessage E source m pc s = Some (Some (rv, m', pc', s')) \<Longrightarrow> inputs_le (pc_session pc) (pc_session pc')"
  by (auto simp: process_read_data_submessage_def split: option.splits bool.splits if_splits prod.splits
      elim!: inputs_le_send dest!: start_reader_objects intro: inputs_le_objects)

lemma acknack_inputs: "process_acknack_submessage E source m pc s = Some (rv, m', pc', s') \<Longrightarrow> inputs_le (pc_session pc) (pc_session pc')"
  by (auto simp: process_acknack_submessage_def split: option.splits bool.splits dest!: same_inputs_resend
      intro!: inputs_le_same same_inputs_trans [OF _ same_inputs_acknack])

lemma heartbeat_inputs: "process_heartbeat_submessage E source m pc s = Some (Some (rv, m', pc', s')) \<Longrightarrow> inputs_le (pc_session pc) (pc_session pc')"
  by (auto simp: process_heartbeat_submessage_def Let_def split: option.splits bool.splits prod.splits
      elim!: inputs_le_send_one intro: inputs_le_trans [OF inputs_le_heartbeat inputs_le_fill])

lemma timestamp_inputs: "process_timestamp_submessage E source m pc s = Some (Some (rv, m', pc', s')) \<Longrightarrow> inputs_le (pc_session pc) (pc_session pc')"
  by (auto simp: process_timestamp_submessage_def split: option.splits bool.splits elim!: inputs_le_send_one)

lemma get_info_inputs: "process_get_info_submessage E source m pc s = Some (rv, m', pc', s') \<Longrightarrow> pc' = pc"
  by (auto simp: process_get_info_submessage_def Let_def split: option.splits prod.splits)

lemma create_client_refused: "\<not> outside_session m \<Longrightarrow> process_create_client_submessage E source m s = Some (False, m, s)"
  by (simp add: process_create_client_submessage_def)

lemma reset_handled: "handler_ok source pc s (process_reset_submessage pc) s"
  by (rule handler_ok_refl) (simp add: process_reset_submessage_def)

lemma submessage_effect:
  assumes "holds pc s" and "\<not> outside_session m" and "process_submessage E source m pc s = Some (Some (rv, m', pc', s'))"
  shows "further m m' \<and> inputs_le (pc_session pc) (pc_session pc') \<and> handler_ok source pc s pc' s'"
proof -
  have "handler_ok source pc s pc' s'"
    using assms unfolding process_submessage_def Let_def
    by (auto simp: create_client_refused handler_ok_refl split: if_splits intro: create_handled delete_handled write_handled
        read_handled acknack_handled reset_handled heartbeat_handled timestamp_handled get_info_handled)
  moreover have "inputs_le (pc_session pc) (pc_session pc')"
    using assms unfolding process_submessage_def Let_def
    by (auto simp: create_client_refused process_reset_submessage_def inputs_le_reset split: if_splits
        intro: create_inputs delete_inputs write_inputs read_inputs acknack_inputs heartbeat_inputs timestamp_inputs
        dest: get_info_inputs)
  ultimately show ?thesis using submessage_further [OF assms(3)] by blast
qed

subsection \<open>Replies that end\<close>

text \<open>A client whose session has an MTU with room for the headers and an octet: every push of a status ends.\<close>

definition usable :: "cdr \<Rightarrow> 'w ProxyClient \<Rightarrow> bool" where
  "usable C pc \<longleftrightarrow> cdr_lib C \<and> session_ok (se_info (pc_session pc))"

lemma usable_info: "se_info (pc_session pc') = se_info (pc_session pc) \<Longrightarrow> usable C pc' = usable C pc"
  by (simp add: usable_def)

lemma push_ends:
  assumes "cdr_lib C" and "session_ok (se_info se)" and "submessage_ok sub"
  shows "push_output_submessage C D sid i sub se \<noteq> None"
proof (cases "ro_has_room (RELIABLE_STREAM_DEPTH D) (get_reliable_output_stream se sid)")
  case True
  from cdr_lib.ro_push_submessage_eq [OF assms True] show ?thesis
    by (simp add: push_output_submessage_def split: prod.split)
next
  case False
  then show ?thesis by (simp add: push_output_submessage_def ro_push_submessage_def split: prod.split)
qed

lemma status_submessage_ok:
  assumes "cdr_lib C"
  shows "submessage_ok (reply_submessage C (status_reply request st))"
proof -
  have "sized (reply_writer C (status_reply request st)) (reply_sizer (status_reply request st))"
    by (rule cdr_lib.reply_sized [OF assms]) (simp add: status_reply_def)
  then have "length (concat (reply_writer C (status_reply request st) 0)) = reply_sizer (status_reply request st) 0"
    by (simp add: sized_def)
  moreover have "reply_sizer (status_reply request st) 0 = 6" by code_simp
  ultimately show ?thesis by (simp add: submessage_ok_def reply_submessage_def payload_def)
qed

lemma send_status_ends:
  assumes "usable (pe_cdr E) pc"
  shows "\<exists>r. send_reply E sid d (status_reply request st) pc s = Some r"
proof -
  have "push_output_submessage (pe_cdr E) (pe_depths E) sid i (reply_submessage (pe_cdr E) (status_reply request st)) (pc_session pc) \<noteq> None" for i
    using assms by (intro push_ends status_submessage_ok) (simp_all add: usable_def)
  then show ?thesis by (auto simp: send_reply_def split: option.split)
qed

lemma send_one_ends: "\<exists>x. send_one_reply E STREAMID_NONE d r pc s = Some x"
  by (simp add: send_one_reply_def push_output_submessage_def is_none_stream_def STREAMID_NONE_def split: option.split prod.split)

lemma objects_usable: "objects_only pc pc' \<Longrightarrow> usable C pc \<Longrightarrow> usable C pc'"
  using objects_onlyD usable_info by metis

lemma create_ends: "usable (pe_cdr E) pc \<Longrightarrow> process_create_submessage E source m pc s \<noteq> None"
  by (auto simp: process_create_submessage_def Let_def split: option.split bool.split
      intro!: send_status_ends dest: create_objects objects_usable)

lemma read_ends: "usable (pe_cdr E) pc \<Longrightarrow> process_read_data_submessage E source m pc s \<noteq> None"
  by (auto simp: process_read_data_submessage_def split: option.split bool.split prod.split
      intro!: send_status_ends dest: start_reader_objects objects_usable)

lemma delete_ends:
  assumes "usable (pe_cdr E) pc" and "holds pc s"
  shows "process_delete_submessage E source m pc s \<noteq> None"
proof -
  let ?key = "cr_client_key (pc_representation pc)"
  have client: "usable (pe_cdr E) (case released of Some c \<Rightarrow> c | None \<Rightarrow> pc)"
    if "delete_client (pe_middleware E) (pe_object_order E) ?key (update_client ?key pc (ag_root s)) = (st, released, r)" for st released r
    using handled_delete_client [OF assms(2) refl that, of "ag_sessions s"] assms(1) by (simp add: usable_def)
  have object: "usable (pe_cdr E) pc1" if "delete_object (pe_middleware E) i pc = (st', pc1)" for i st' pc1
    using delete_objects [OF that] assms(1) by (rule objects_usable)
  show ?thesis
    unfolding process_delete_submessage_def Let_def
    by (auto split: option.split bool.split prod.split intro!: send_status_ends dest: client object)
qed

lemma heartbeat_ends: "process_heartbeat_submessage E source m pc s \<noteq> None"
  by (auto simp: process_heartbeat_submessage_def Let_def split: option.split bool.split prod.split intro!: send_one_ends)

lemma timestamp_ends: "process_timestamp_submessage E source m pc s \<noteq> None"
  by (auto simp: process_timestamp_submessage_def split: option.split bool.split prod.split intro!: send_one_ends)

lemma submessage_ends:
  assumes "usable (pe_cdr E) pc" and "holds pc s"
  shows "process_submessage E source m pc s \<noteq> None"
proof -
  note ends = create_ends [OF assms(1), of source m s] read_ends [OF assms(1), of source m s]
    delete_ends [OF assms, of source m] heartbeat_ends [of E source m pc s] timestamp_ends [of E source m pc s]
  then show ?thesis unfolding process_submessage_def Let_def by (simp only: option.distinct not_False_eq_True split: if_split) blast
qed

subsection \<open>What is left to read\<close>

text \<open>The octets of the header, the octets behind it, and those that are not zero (a subheader with the
  identifier of a fragment has one).\<close>

definition header_octets :: "u8 list \<Rightarrow> nat" where
  "header_octets b = (if hd b < 128 then 8 else 4)"

definition nz :: "u8 list \<Rightarrow> nat" where
  "nz xs = length (filter (\<lambda>x. x \<noteq> 0) xs)"

definition stream_weight :: "InputMessage ReliableInputStream \<Rightarrow> nat" where
  "stream_weight r = nz (drop (header_octets (ri_fragment_msg r)) (ri_fragment_msg r))"

definition message_weight :: "InputMessage \<Rightarrow> nat" where
  "message_weight m = nz (drop (max (im_pos m) (header_octets (im_buf m))) (im_buf m))"

definition fragment_weight :: "Session \<Rightarrow> nat" where
  "fragment_weight se = (\<Sum>sid\<in>UNIV. stream_weight (reliable_istream se sid))"

lemma nz_simps [simp]: "nz [] = 0" "nz (xs @ ys) = nz xs + nz ys" "nz (replicate n 0) = 0"
  by (simp_all add: nz_def)

lemma nz_drop: "i \<le> j \<Longrightarrow> nz (drop j xs) \<le> nz (drop i xs)"
proof -
  assume "i \<le> j"
  then have "drop i xs = take (j - i) (drop i xs) @ drop j xs"
    by (metis add.commute append_take_drop_id drop_drop le_add_diff_inverse)
  then show ?thesis by (metis le_add2 nz_simps(2))
qed

lemma nz_drop_append: "nz (drop k (xs @ ys)) \<le> nz (drop k xs) + nz ys"
  using nz_drop [of 0 "k - length xs" ys] by simp

lemma nz_cut: "nz (drop p b) = nz (take n (drop p b)) + nz (drop (p + n) b)"
  by (metis add.commute append_take_drop_id drop_drop nz_simps(2))

text \<open>Messages of a session: they start with an identifier of a session, and when the header was not complete
  there is no room for a submessage.\<close>

definition live :: "u8 \<Rightarrow> bool" where
  "live b \<longleftrightarrow> b \<noteq> SESSIONID_NONE_WITH_CLIENT_KEY \<and> b \<noteq> SESSIONID_NONE_WITHOUT_CLIENT_KEY"

definition in_session :: "InputMessage \<Rightarrow> bool" where
  "in_session m \<longleftrightarrow> im_buf m \<noteq> [] \<and> mh_session_id (im_header m) = hd (im_buf m) \<and> live (hd (im_buf m))
     \<and> (header_octets (im_buf m) \<le> im_pos m \<or> length (im_buf m) < im_pos m + 4)"

definition stream_ok :: "InputMessage ReliableInputStream \<Rightarrow> bool" where
  "stream_ok r \<longleftrightarrow> (\<forall>m\<in>ran (ri_messages r). in_session m) \<and> (ri_fragment_msg r \<noteq> [] \<longrightarrow> live (hd (ri_fragment_msg r)))
     \<and> (ri_fragment_message_available r \<longrightarrow> ri_fragment_msg r \<noteq> [])"

definition inputs_ok :: "Session \<Rightarrow> bool" where
  "inputs_ok se \<longleftrightarrow> (\<forall>m\<in>set (se_none_istream se). in_session m)
     \<and> (\<forall>sid. \<forall>m\<in>set (bi_messages (best_istream se sid)). in_session m) \<and> (\<forall>sid. stream_ok (reliable_istream se sid))"

lemma in_session_inside: "in_session m \<Longrightarrow> \<not> outside_session m"
  by (auto simp: in_session_def live_def outside_session_def)

lemma in_session_further: "in_session m \<Longrightarrow> further m m' \<Longrightarrow> in_session m'"
  by (auto simp: in_session_def further_def)

lemma message_weight_further: "further m m' \<Longrightarrow> message_weight m' \<le> message_weight m"
  unfolding message_weight_def further_def by (auto intro!: nz_drop)

lemma InputMessage_new_parts:
  assumes "buf \<noteq> []"
  shows "im_buf (InputMessage_new C buf) = buf" "mh_session_id (im_header (InputMessage_new C buf)) = hd buf"
    "header_octets buf \<le> im_pos (InputMessage_new C buf) \<or> length buf < im_pos (InputMessage_new C buf) + 4"
proof -
  from assms obtain b bs where buf: "buf = b # bs" by (cases buf) auto
  show "im_buf (InputMessage_new C buf) = buf" by (simp add: InputMessage_new_def split: prod.split)
  show "mh_session_id (im_header (InputMessage_new C buf)) = hd buf"
    by (auto simp: buf InputMessage_new_def mh_deserialize_def read_bytes_def Let_def split: option.splits prod.splits if_splits)
  show "header_octets buf \<le> im_pos (InputMessage_new C buf) \<or> length buf < im_pos (InputMessage_new C buf) + 4"
    by (auto simp: buf InputMessage_new_def mh_deserialize_def read_bytes_def header_octets_def Let_def
        split: option.splits prod.splits if_splits)
qed

lemma in_session_new: "\<not> outside_session (InputMessage_new C buf) \<Longrightarrow> in_session (InputMessage_new C buf)"
proof (cases buf)
  case Nil
  then have "outside_session (InputMessage_new C buf)"
    by (simp add: outside_session_def InputMessage_new_def mh_deserialize_def read_bytes_def MessageHeader_new_def
        SESSIONID_NONE_WITH_CLIENT_KEY_def)
  then show "\<not> outside_session (InputMessage_new C buf) \<Longrightarrow> in_session (InputMessage_new C buf)" by simp
next
  case (Cons b bs)
  with InputMessage_new_parts [of buf C]
  show "\<not> outside_session (InputMessage_new C buf) \<Longrightarrow> in_session (InputMessage_new C buf)"
    by (simp add: in_session_def outside_session_def live_def)
qed

subsection \<open>Fragments\<close>

lemma push_fragment_effect:
  assumes "push_fragment m r = (r', m')" and "in_session m" and "header_octets (im_buf m) \<le> im_pos m"
    and "im_pos m \<le> length (im_buf m)" and "stream_ok r"
  shows "stream_ok r' \<and> further m m' \<and> ri_messages r' = ri_messages r
    \<and> message_weight m' + stream_weight r' \<le> message_weight m + stream_weight r"
proof -
  let ?n = "unat (sh_submessage_length (im_subheader m))" and ?b = "im_buf m" and ?p = "im_pos m"
  let ?start = "if ri_fragment_msg r = [] then get_raw_header m else ri_fragment_msg r"
  define data where "data = (if ?p + ?n \<le> length ?b then take ?n (drop ?p ?b) else replicate ?n 0)"
  have m: "?b \<noteq> []" "mh_session_id (im_header m) = hd ?b" "live (hd ?b)" using assms(2) by (simp_all add: in_session_def)
  have r': "ri_fragment_msg r' = ?start @ data" "ri_messages r' = ri_messages r"
    and m': "m' = (if ?p + ?n \<le> length ?b then m\<lparr>im_pos := ?p + ?n\<rparr> else m)"
    using assms(1) by (auto simp: push_fragment_def get_raw_payload_def read_bytes_def data_def Let_def split: if_splits)
  have raw: "get_raw_header m = take (header_octets ?b) ?b" by (simp add: get_raw_header_def header_octets_def m(2))
  then have raw': "get_raw_header m \<noteq> []" "hd (get_raw_header m) = hd ?b" "length (get_raw_header m) = header_octets ?b"
    using m(1) assms(3,4) by (auto simp: header_octets_def)
  have start: "?start \<noteq> []" "live (hd ?start)" using raw' m(3) assms(5) by (auto simp: stream_ok_def)
  have h: "header_octets (?start @ data) = header_octets ?start" using start(1) by (simp add: header_octets_def)
  have "stream_weight r' \<le> nz (drop (header_octets ?start) ?start) + nz data"
    unfolding stream_weight_def r'(1) h by (rule nz_drop_append)
  also have "nz (drop (header_octets ?start) ?start) \<le> stream_weight r"
  proof (cases "ri_fragment_msg r = []")
    case True
    have "header_octets (get_raw_header m) = header_octets ?b" by (simp add: header_octets_def raw'(2))
    with True raw'(3) show ?thesis by simp
  qed (simp add: stream_weight_def)
  finally have 1: "stream_weight r' \<le> stream_weight r + nz data" by simp
  have 2: "message_weight m' + nz data = message_weight m"
  proof (cases "?p + ?n \<le> length ?b")
    case True
    then have "message_weight m' = nz (drop (?p + ?n) ?b)" "message_weight m = nz (drop ?p ?b)"
      using assms(3) by (simp_all add: message_weight_def m' max_absorb1)
    moreover have "data = take ?n (drop ?p ?b)" using True by (simp add: data_def)
    ultimately show ?thesis by (metis add.commute nz_cut)
  next
    case False
    then show ?thesis by (simp add: m' data_def)
  qed
  have "further m m'" by (simp add: further_def m')
  moreover have "stream_ok r'" using assms(5) start by (simp add: stream_ok_def r')
  ultimately show ?thesis using 1 2 r'(2) by simp
qed

lemma pop_fragment_effect:
  assumes "pop_fragment_message C r = (f, r')" and "stream_ok r"
  shows "stream_ok r' \<and> ri_messages r' = ri_messages r \<and> stream_weight r' \<le> stream_weight r
    \<and> (case f of None \<Rightarrow> True | Some fm \<Rightarrow> in_session fm \<and> message_weight fm + stream_weight r' \<le> stream_weight r)"
proof (cases "ri_fragment_message_available r")
  case True
  let ?b = "ri_fragment_msg r"
  have b: "?b \<noteq> []" "live (hd ?b)" using True assms(2) by (auto simp: stream_ok_def)
  have f: "f = Some (InputMessage_new C ?b)" "r' = r\<lparr>ri_fragment_msg := [], ri_fragment_message_available := False\<rparr>"
    using assms(1) True by (auto simp: pop_fragment_message_def)
  note parts = InputMessage_new_parts [OF b(1), of C]
  have "message_weight (InputMessage_new C ?b) \<le> stream_weight r"
    unfolding message_weight_def stream_weight_def parts(1) by (rule nz_drop) simp
  then show ?thesis using assms(2) b parts
    by (simp add: f in_session_def stream_ok_def stream_weight_def)
next
  case False
  then show ?thesis using assms by (auto simp: pop_fragment_message_def)
qed

text \<open>The weight of a session when one of its streams changes.\<close>

lemma fragment_weight_set:
  "fragment_weight (set_reliable_istream sid r se) + stream_weight (reliable_istream se sid) = fragment_weight se + stream_weight r"
proof -
  have "(\<Sum>i\<in>UNIV - {sid}. stream_weight (reliable_istream (set_reliable_istream sid r se) i))
      = (\<Sum>i\<in>UNIV - {sid}. stream_weight (reliable_istream se i))"
    by (rule sum.cong) simp_all
  then show ?thesis
    unfolding fragment_weight_def by (simp add: sum.remove [of UNIV sid])
qed

lemma fragment_weight_le: "inputs_le se se' \<Longrightarrow> fragment_weight se' = fragment_weight se"
  unfolding fragment_weight_def by (rule sum.cong) (auto simp: inputs_le_def stream_le_def stream_weight_def)

lemma inputs_ok_le:
  assumes "inputs_ok se" and "inputs_le se se'"
  shows "inputs_ok se'"
proof -
  have "stream_ok (reliable_istream se' sid)" for sid
    using assms unfolding inputs_ok_def inputs_le_def stream_ok_def stream_le_def
    by (metis empty_iff insert_iff ran_empty singletonD)
  moreover have "\<forall>m\<in>set (bi_messages (best_istream se' sid)). in_session m" for sid
    using assms unfolding inputs_ok_def inputs_le_def by (metis empty_iff empty_set insert_iff singletonD)
  ultimately show ?thesis using assms unfolding inputs_ok_def inputs_le_def by simp
qed

text \<open>The sizes of the queues.\<close>

definition input_size :: "u8 \<Rightarrow> Session \<Rightarrow> nat" where
  "input_size sid se =
     (if is_none_stream sid then length (se_none_istream se)
      else if is_besteffort_stream sid then length (bi_messages (best_istream se sid))
      else card (dom (ri_messages (reliable_istream se sid))))"

lemma input_size_le: "inputs_le se se' \<Longrightarrow> input_size sid se' \<le> input_size sid se"
  unfolding inputs_le_def stream_le_def input_size_def
  by (auto) (metis card.empty dom_empty empty_iff insert_iff le0 list.size(3) order_refl)+

lemma process_fragment_effect:
  assumes "process_fragment_submessage E m pc = (f, m', pc')" and "in_session m"
    and "header_octets (im_buf m) \<le> im_pos m" and "im_pos m \<le> length (im_buf m)" and "inputs_ok (pc_session pc)"
  shows "further m m' \<and> inputs_ok (pc_session pc') \<and> (\<forall>sid. input_size sid (pc_session pc') = input_size sid (pc_session pc))
    \<and> pc_representation pc' = pc_representation pc \<and> se_info (pc_session pc') = se_info (pc_session pc)
    \<and> message_weight m' + fragment_weight (pc_session pc') \<le> message_weight m + fragment_weight (pc_session pc)
    \<and> (case f of None \<Rightarrow> True | Some fm \<Rightarrow> in_session fm
        \<and> message_weight m' + message_weight fm + fragment_weight (pc_session pc') \<le> message_weight m + fragment_weight (pc_session pc))"
proof -
  let ?sid = "mh_stream_id (im_header m)" and ?se = "pc_session pc"
  let ?r = "reliable_istream ?se ?sid"
  have ok: "stream_ok ?r" using assms(5) by (simp add: inputs_ok_def)
  define r1 where "r1 = (if is_reliable_stream ?sid then fst (push_fragment m ?r) else ?r)"
  define m1 where "m1 = (if is_reliable_stream ?sid then snd (push_fragment m ?r) else m)"
  have push: "stream_ok r1 \<and> further m m1 \<and> ri_messages r1 = ri_messages ?r
      \<and> message_weight m1 + stream_weight r1 \<le> message_weight m + stream_weight ?r"
    using push_fragment_effect [OF surjective_pairing assms(2-4) ok] ok by (simp add: r1_def m1_def)
  obtain f' r2 where pop: "pop_fragment_message (pe_cdr E) r1 = (f', r2)" by fastforce
  note popped = pop_fragment_effect [OF pop conjunct1 [OF push]]
  have istream: "reliable_istream (push_input_fragment ?sid m ?se) ?sid = r1" by (simp add: push_input_fragment_def r1_def)
  define se2 where "se2 = set_reliable_istream ?sid r2 (push_input_fragment ?sid m ?se)"
  have res: "f = f'" "m' = m1" "pc' = pc\<lparr>pc_session := se2\<rparr>"
    using assms(1) pop by (auto simp: process_fragment_submessage_def pop_input_fragment_message_def istream m1_def se2_def Let_def)
  have w: "fragment_weight se2 + stream_weight ?r = fragment_weight ?se + stream_weight r2"
  proof -
    have "se2 = set_reliable_istream ?sid r2 ?se"
      by (simp add: se2_def push_input_fragment_def set_reliable_istream_def)
    then show ?thesis using fragment_weight_set by simp
  qed
  have "inputs_ok se2"
    using assms(5) popped by (auto simp: inputs_ok_def se2_def push_input_fragment_def)
  moreover have "input_size i se2 = input_size i ?se" for i
    using push popped by (auto simp: input_size_def se2_def push_input_fragment_def)
  moreover have "se_info se2 = se_info ?se" by (simp add: se2_def push_input_fragment_def)
  ultimately show ?thesis using push popped w unfolding res by (auto split: option.splits)
qed

text \<open>The next submessage.\<close>

lemma prepare_in_session:
  assumes "prepare_next_submessage C m = (True, m1)" and "in_session m"
  shows "in_session m1 \<and> further m m1 \<and> header_octets (im_buf m1) \<le> im_pos m1 \<and> im_pos m1 \<le> length (im_buf m1)
    \<and> length (im_buf m1) - im_pos m1 < length (im_buf m) - im_pos m
    \<and> (sh_submessage_id (im_subheader m1) \<noteq> 0 \<longrightarrow> message_weight m1 < message_weight m)"
proof -
  let ?b = "im_buf m" and ?q = "im_pos m1"
  have p: "further m m1" "im_pos m + 4 \<le> ?q" "?q \<le> length ?b" "?b ! (?q - 4) = sh_submessage_id (im_subheader m1)"
    using prepare_further [OF assms(1)] by simp_all
  have h: "header_octets ?b \<le> im_pos m" using assms(2) p(2,3) by (auto simp: in_session_def)
  have "message_weight m1 < message_weight m" if "sh_submessage_id (im_subheader m1) \<noteq> 0"
  proof -
    have "drop (?q - 4) ?b = ?b ! (?q - 4) # drop (Suc (?q - 4)) ?b" using p(2,3) by (intro Cons_nth_drop_Suc [symmetric]) simp
    then have "nz (drop (?q - 4) ?b) = Suc (nz (drop (Suc (?q - 4)) ?b))" using that p(4) by (simp add: nz_def)
    moreover have "nz (drop ?q ?b) \<le> nz (drop (Suc (?q - 4)) ?b)" using p(2) by (intro nz_drop) simp
    moreover have "nz (drop (?q - 4) ?b) \<le> nz (drop (im_pos m) ?b)" using p(2) by (intro nz_drop) simp
    moreover have "message_weight m = nz (drop (im_pos m) ?b)" "message_weight m1 = nz (drop ?q ?b)"
      using h p(1,2) by (simp_all add: message_weight_def further_def max_absorb1)
    ultimately show ?thesis by simp
  qed
  then show ?thesis using p h in_session_further [OF assms(2) p(1)] by (simp add: further_def)
qed

subsection \<open>Every message is processed to the end\<close>

definition outcome_ok :: "'e \<Rightarrow> nat \<Rightarrow> 'w ProxyClient \<Rightarrow> ('w, 'e) agent \<Rightarrow> ('w ProxyClient \<times> ('w, 'e) agent) option \<Rightarrow> bool" where
  "outcome_ok source n pc s r = (case r of None \<Rightarrow> True | Some (pc', s') \<Rightarrow>
     handler_ok source pc s pc' s' \<and> inputs_ok (pc_session pc')
     \<and> (\<forall>sid. input_size sid (pc_session pc') \<le> input_size sid (pc_session pc))
     \<and> fragment_weight (pc_session pc') \<le> n \<and> se_info (pc_session pc') = se_info (pc_session pc))"

lemma outcome_ok_trans:
  assumes "outcome_ok source n pc1 s1 r" and "handler_ok source pc s pc1 s1"
    and "\<forall>sid. input_size sid (pc_session pc1) \<le> input_size sid (pc_session pc)" and "n \<le> n'"
    and "se_info (pc_session pc1) = se_info (pc_session pc)"
  shows "outcome_ok source n' pc s r"
  using assms unfolding outcome_ok_def
  by (auto split: option.splits intro: handler_ok_trans order_trans)

definition weight :: "InputMessage \<Rightarrow> 'w ProxyClient \<Rightarrow> nat" where
  "weight m pc = message_weight m + fragment_weight (pc_session pc)"

text \<open>The processing of a message ends, if the session of its client is usable, and when it ends its effect is confined.\<close>

definition ends :: "'w processor_env \<Rightarrow> 'e \<Rightarrow> InputMessage \<Rightarrow> 'w ProxyClient \<Rightarrow> ('w, 'e) agent \<Rightarrow> bool" where
  "ends E source m pc s \<longleftrightarrow> (case process_input_message E source m pc s of
     None \<Rightarrow> \<not> usable (pe_cdr E) pc | Some r \<Rightarrow> outcome_ok source (weight m pc) pc s r)"

lemma endsE:
  assumes "ends E source m pc s"
  obtains "process_input_message E source m pc s = None" "\<not> usable (pe_cdr E) pc"
  | r where "process_input_message E source m pc s = Some r" "outcome_ok source (weight m pc) pc s r"
  using assms unfolding ends_def by (auto split: option.splits)

text \<open>A fragment, when all lighter messages come to their end.\<close>

lemma fragment_message_ends:
  assumes IH: "\<And>m' pc' s'. in_session m' \<Longrightarrow> inputs_ok (pc_session pc') \<Longrightarrow> holds pc' s' \<Longrightarrow> weight m' pc' < n \<Longrightarrow> ends E source m' pc' s'"
    and "holds pc s" and "inputs_ok (pc_session pc1)" and h1: "handler_ok source pc s pc1 s"
    and "weight m2 pc1 < n" and "\<And>fm. f = Some fm \<Longrightarrow> in_session fm \<and> message_weight m2 + weight fm pc1 < n"
  shows "case (case f of None \<Rightarrow> Some (Some (pc1, s)) | Some fm \<Rightarrow> process_input_message E source fm pc1 s) of
      None \<Rightarrow> \<not> usable (pe_cdr E) pc1 | Some r \<Rightarrow> outcome_ok source (n - Suc (message_weight m2)) pc1 s r"
proof (cases f)
  case None
  with assms(3,5) show ?thesis by (auto simp: outcome_ok_def handler_ok_refl weight_def)
next
  case (Some fm)
  note fm = assms(6) [OF Some]
  have "ends E source fm pc1 s" using fm by (intro IH assms(3) handler_ok_holds [OF assms(2) h1]) simp_all
  then show ?thesis
  proof (cases rule: endsE)
    case 1
    with Some show ?thesis by simp
  next
    case (2 r)
    with Some fm show ?thesis
      by (auto intro!: outcome_ok_trans [of source "weight fm pc1" pc1 s r pc1 s] handler_ok_refl)
  qed
qed

lemma fragment_case_ends:
  assumes IH: "\<And>m' pc' s'. in_session m' \<Longrightarrow> inputs_ok (pc_session pc') \<Longrightarrow> holds pc' s' \<Longrightarrow> weight m' pc' < weight m pc \<Longrightarrow> ends E source m' pc' s'"
    and "prepare_next_submessage (pe_cdr E) m = (True, m1)" and "sh_submessage_id (im_subheader m1) = SUBMESSAGE_FRAGMENT"
    and "in_session m" and "inputs_ok (pc_session pc)" and "holds pc s"
  shows "ends E source m pc s"
proof -
  note next1 = prepare_in_session [OF assms(2,4)]
  then have less: "message_weight m1 < message_weight m" using assms(3) by (simp add: SUBMESSAGE_FRAGMENT_def)
  obtain f m2 pc1 where f: "process_fragment_submessage E m1 pc = (f, m2, pc1)" by (metis prod_cases3)
  have e: "further m1 m2" "inputs_ok (pc_session pc1)" "\<forall>sid. input_size sid (pc_session pc1) = input_size sid (pc_session pc)"
      "pc_representation pc1 = pc_representation pc" "weight m2 pc1 < weight m pc"
      "\<And>fm. f = Some fm \<Longrightarrow> in_session fm \<and> message_weight m2 + weight fm pc1 < weight m pc"
      "se_info (pc_session pc1) = se_info (pc_session pc)"
    using process_fragment_effect [OF f _ _ _ assms(5)] next1 less by (auto simp: weight_def)
  have m2: "in_session m2" using in_session_further e(1) next1 by blast
  have h1: "handler_ok source pc s pc1 s" by (rule handler_ok_refl [OF e(4)])
  have inner: "case (case f of None \<Rightarrow> Some (Some (pc1, s)) | Some fm \<Rightarrow> process_input_message E source fm pc1 s) of
      None \<Rightarrow> \<not> usable (pe_cdr E) pc1 | Some r \<Rightarrow> outcome_ok source (weight m pc - Suc (message_weight m2)) pc1 s r"
    by (rule fragment_message_ends [OF IH assms(6) e(2) h1 e(5)]) (use e(6) in blast)+
  note unfold = process_input_message.simps [of E source m pc s] assms(2,3) f
  note u1 = usable_info [OF e(7), of "pe_cdr E"]
  show ?thesis
  proof (cases "case f of None \<Rightarrow> Some (Some (pc1, s)) | Some fm \<Rightarrow> process_input_message E source fm pc1 s")
    case None
    with inner u1 show ?thesis by (simp add: ends_def unfold)
  next
    case r1: (Some r1)
    with inner have o1: "outcome_ok source (weight m pc - Suc (message_weight m2)) pc1 s r1" by simp
    show ?thesis
    proof (cases r1)
      case None
      with r1 show ?thesis by (simp add: ends_def unfold outcome_ok_def)
    next
      case (Some x)
      obtain pc2 s2 where x: "x = (pc2, s2)" by fastforce
      have o: "handler_ok source pc1 s pc2 s2" "inputs_ok (pc_session pc2)"
          "\<forall>sid. input_size sid (pc_session pc2) \<le> input_size sid (pc_session pc)" "weight m2 pc2 < weight m pc"
          "se_info (pc_session pc2) = se_info (pc_session pc)"
        using o1 e(3,5,7) by (auto simp: outcome_ok_def Some x weight_def)
      have h2: "handler_ok source pc s pc2 s2" using handler_ok_trans [OF h1 o(1)] .
      from IH [OF m2 o(2) handler_ok_holds [OF assms(6) h2] o(4)] show ?thesis
      proof (cases rule: endsE)
        case 1
        with r1 usable_info [OF o(5), of "pe_cdr E"] show ?thesis by (simp add: ends_def unfold Some x)
      next
        case (2 r2)
        with r1 outcome_ok_trans [OF 2(2) h2 o(3) _ o(5)] o(4) show ?thesis by (simp add: ends_def unfold Some x)
      qed
    qed
  qed
qed

lemma other_case_ends:
  assumes IH: "\<And>m' pc' s'. in_session m' \<Longrightarrow> inputs_ok (pc_session pc') \<Longrightarrow> holds pc' s' \<Longrightarrow> weight m' pc' \<le> weight m pc
      \<Longrightarrow> length (im_buf m') - im_pos m' < length (im_buf m) - im_pos m \<Longrightarrow> ends E source m' pc' s'"
    and "prepare_next_submessage (pe_cdr E) m = (True, m1)" and "sh_submessage_id (im_subheader m1) \<noteq> SUBMESSAGE_FRAGMENT"
    and "in_session m" and "inputs_ok (pc_session pc)" and "holds pc s"
  shows "ends E source m pc s"
proof -
  note next1 = prepare_in_session [OF assms(2,4)]
  note unfold = process_input_message.simps [of E source m pc s] assms(2,3)
  consider "process_submessage E source m1 pc s = None" | "process_submessage E source m1 pc s = Some None"
    | rv m2 pc1 s1 where "process_submessage E source m1 pc s = Some (Some (rv, m2, pc1, s1))"
    by (metis option.exhaust prod_cases4)
  then show ?thesis
  proof cases
    case 1
    with submessage_ends [OF _ assms(6), of E source m1] show ?thesis by (auto simp: ends_def unfold)
  next
    case 2
    then show ?thesis by (simp add: ends_def unfold outcome_ok_def)
  next
    case 3
    have e: "further m1 m2" "inputs_le (pc_session pc) (pc_session pc1)" "handler_ok source pc s pc1 s1"
      using submessage_effect [OF assms(6) _ 3] in_session_inside next1 by blast+
    have info: "se_info (pc_session pc1) = se_info (pc_session pc)" using e(2) by (simp add: inputs_le_def)
    have w: "weight m2 pc1 \<le> weight m pc"
      using message_weight_further [OF e(1)] next1 message_weight_further fragment_weight_le [OF e(2)]
      by (metis add_le_mono1 order_trans weight_def)
    have s: "\<forall>sid. input_size sid (pc_session pc1) \<le> input_size sid (pc_session pc)" using input_size_le [OF e(2)] by blast
    have m2: "in_session m2" "length (im_buf m2) - im_pos m2 < length (im_buf m) - im_pos m"
      using in_session_further e(1) next1 by (auto simp: further_def)
    note ok1 = inputs_ok_le [OF assms(5) e(2)]
    note rest = IH [OF m2(1) ok1 handler_ok_holds [OF assms(6) e(3)] w m2(2)]
    show ?thesis
    proof (cases rv)
      case True
      from rest show ?thesis
      proof (cases rule: endsE)
        case 1
        with True usable_info [OF info, of "pe_cdr E"] show ?thesis by (simp add: ends_def unfold 3)
      next
        case (2 r)
        with True outcome_ok_trans [OF 2(2) e(3) s w info] show ?thesis by (simp add: ends_def unfold 3)
      qed
    next
      case False
      with e s ok1 w info show ?thesis by (simp add: ends_def unfold 3 outcome_ok_def weight_def)
    qed
  qed
qed

lemma process_input_message_ends:
  assumes "in_session m" and "inputs_ok (pc_session pc)" and "holds pc s"
  shows "ends E source m pc s"
  using assms
proof (induction "(weight m pc, length (im_buf m) - im_pos m)" arbitrary: m pc s
    rule: wf_induct_rule [OF wf_lex_prod [OF wf_less_than wf_less_than]])
  case (1 m pc s)
  obtain ok m1 where p: "prepare_next_submessage (pe_cdr E) m = (ok, m1)" by fastforce
  consider "\<not> ok" | "ok" "sh_submessage_id (im_subheader m1) = SUBMESSAGE_FRAGMENT"
    | "ok" "sh_submessage_id (im_subheader m1) \<noteq> SUBMESSAGE_FRAGMENT" by blast
  then show ?case
  proof cases
    case 1
    then show ?thesis using p \<open>inputs_ok (pc_session pc)\<close>
      by (simp add: ends_def process_input_message.simps [of E source m pc s] outcome_ok_def handler_ok_refl weight_def)
  next
    case 2
    with p show ?thesis by (intro fragment_case_ends [of m pc E source m1 s] 1) auto
  next
    case 3
    with p show ?thesis by (intro other_case_ends [of m pc E source m1 s] 1) auto
  qed
qed

subsection \<open>Every packet is processed to the end\<close>

lemma pop_input_effect:
  assumes "pop_input_message sid se = (popped, se')" and "inputs_ok se"
  shows "inputs_ok se' \<and> se_info se' = se_info se \<and> (case popped of None \<Rightarrow> True | Some m \<Rightarrow> in_session m \<and> input_size sid se' < input_size sid se)"
proof -
  consider (none) "is_none_stream sid" | (best) "\<not> is_none_stream sid" "is_besteffort_stream sid"
    | (rel) "\<not> is_none_stream sid" "\<not> is_besteffort_stream sid" by blast
  then show ?thesis
  proof cases
    case none
    with assms show ?thesis
      by (auto simp: pop_input_message_def none_pop_message_def queue_pop_def inputs_ok_def input_size_def split: list.splits)
  next
    case best
    let ?b = "best_istream se sid"
    from best assms(1) obtain q where se': "se' = set_best_istream sid (?b\<lparr>bi_messages := q\<rparr>) se"
        and q: "queue_pop (bi_messages ?b) = (popped, q)"
      by (auto simp: pop_input_message_def best_pop_message_def Let_def split: prod.splits)
    show ?thesis
    proof (cases "bi_messages ?b")
      case Nil
      with q assms(2) show ?thesis by (auto simp: se' queue_pop_def inputs_ok_def)
    next
      case (Cons x xs)
      have "\<forall>m\<in>set (bi_messages ?b). in_session m" using assms(2) unfolding inputs_ok_def by blast
      with Cons best q assms(2) show ?thesis by (auto simp: se' queue_pop_def inputs_ok_def input_size_def)
    qed
  next
    case rel
    let ?r = "reliable_istream se sid" and ?n = "ri_last_handled (reliable_istream se sid) + 1"
    have ok: "stream_ok ?r" using assms(2) by (simp add: inputs_ok_def)
    show ?thesis
    proof (cases "ri_messages ?r ?n")
      case None
      with rel assms show ?thesis by (auto simp: pop_input_message_def rel_pop_message_def Let_def inputs_ok_def)
    next
      case (Some m)
      let ?r' = "?r\<lparr>ri_last_handled := ?n, ri_messages := (ri_messages ?r)(?n := None)\<rparr>"
      have se': "se' = set_reliable_istream sid ?r' se" "popped = Some m"
        using rel assms(1) Some by (auto simp: pop_input_message_def rel_pop_message_def Let_def)
      have "dom (ri_messages ?r') \<subset> dom (ri_messages ?r)" using Some by auto
      then have "card (dom (ri_messages ?r')) < card (dom (ri_messages ?r))" by (intro psubset_card_mono) simp_all
      moreover have "stream_ok ?r'" using ok by (auto simp: stream_ok_def ran_def)
      moreover have "in_session m" using ok Some by (auto simp: stream_ok_def ran_def)
      ultimately show ?thesis using rel assms(2) by (auto simp: se' inputs_ok_def input_size_def)
    qed
  qed
qed

lemma push_input_effect:
  assumes "inputs_ok se" and "in_session m"
  shows "inputs_ok (snd (push_input_message D m sid n se)) \<and> se_info (snd (push_input_message D m sid n se)) = se_info se"
proof -
  have "stream_ok (snd (rel_push_message d n m r))" if "stream_ok r" for d r
    using that assms(2) by (auto simp: rel_push_message_def stream_ok_def map_emplace_def ran_def split: if_splits option.splits)
  moreover have "\<forall>x\<in>set (bi_messages (snd (best_push_message d n m b))). in_session x"
    if "\<forall>x\<in>set (bi_messages b). in_session x" for d b
    using that assms(2) by (auto simp: best_push_message_def split: if_splits)
  ultimately show ?thesis using assms
    by (auto simp: push_input_message_def none_push_message_def inputs_ok_def Let_def split_def) blast
qed

definition client_outcome :: "'e \<Rightarrow> 'w ProxyClient \<Rightarrow> ('w, 'e) agent \<Rightarrow> ('w ProxyClient \<times> ('w, 'e) agent) option \<Rightarrow> bool" where
  "client_outcome source pc s r = (case r of None \<Rightarrow> True | Some (pc', s') \<Rightarrow>
     handler_ok source pc s pc' s' \<and> inputs_ok (pc_session pc') \<and> se_info (pc_session pc') = se_info (pc_session pc))"

lemma client_outcome_trans:
  assumes "client_outcome source pc1 s1 r" and "handler_ok source pc s pc1 s1" and "se_info (pc_session pc1) = se_info (pc_session pc)"
  shows "client_outcome source pc s r"
  using assms unfolding client_outcome_def by (auto split: option.splits intro: handler_ok_trans)

lemma process_input_stream_ends:
  assumes "inputs_ok (pc_session pc)" and "holds pc s"
  shows "case process_input_stream E source sid pc s of None \<Rightarrow> \<not> usable (pe_cdr E) pc | Some r \<Rightarrow> client_outcome source pc s r"
  using assms
proof (induction "input_size sid (pc_session pc)" arbitrary: pc s rule: less_induct)
  case (less pc s)
  obtain popped se where p: "pop_input_message sid (pc_session pc) = (popped, se)" by fastforce
  let ?pc = "pc\<lparr>pc_session := se\<rparr>"
  note e = pop_input_effect [OF p less.prems(1)]
  have h: "handler_ok source pc s ?pc s" by (rule handler_ok_refl) simp
  note unfold = process_input_stream.simps [of E source sid pc s] p
  show ?case
  proof (cases popped)
    case None
    with e h show ?thesis by (simp add: unfold client_outcome_def)
  next
    case (Some m)
    have "ends E source m ?pc s"
      using e Some by (intro process_input_message_ends handler_ok_holds [OF less.prems(2) h]) simp_all
    then show ?thesis
    proof (cases rule: endsE)
      case 1
      with Some e usable_info [of ?pc pc "pe_cdr E"] show ?thesis by (simp add: unfold)
    next
      case r: (2 r)
      show ?thesis
      proof (cases r)
        case None
        with r Some show ?thesis by (simp add: unfold client_outcome_def)
      next
        case r': (Some x)
        obtain pc1 s1 where x: "x = (pc1, s1)" by fastforce
        have o: "handler_ok source ?pc s pc1 s1" "inputs_ok (pc_session pc1)" "input_size sid (pc_session pc1) \<le> input_size sid se"
            "se_info (pc_session pc1) = se_info (pc_session pc)"
          using r(2) e by (auto simp: outcome_ok_def r' x)
        note h1 = handler_ok_trans [OF h o(1)]
        have "input_size sid (pc_session pc1) < input_size sid (pc_session pc)" using e Some o(3) by simp
        from less.hyps [OF this o(2) handler_ok_holds [OF less.prems(2) h1]] usable_info [OF o(4), of "pe_cdr E"] r Some
        show ?thesis by (auto simp: unfold r' x split: option.splits intro: client_outcome_trans [OF _ h1 o(4)])
      qed
    qed
  qed
qed

lemma acknowledge_effect:
  assumes "acknowledge E source header pc s = Some (pc', s')"
  shows "handler_ok source pc s pc' s' \<and> inputs_le (pc_session pc) (pc_session pc')"
  using assms
  by (auto simp: acknowledge_def Let_def handler_ok_def split: if_splits prod.splits dest!: pushed_message inputs_le_fill
      intro: handled_pushed)

lemma process_client_message_ends:
  assumes "inputs_ok (pc_session pc)" and "holds pc s" and "in_session (ip_message packet)"
  shows "case process_client_message E packet pc s of None \<Rightarrow> \<not> usable (pe_cdr E) pc | Some r \<Rightarrow> client_outcome (ip_source packet) pc s r"
proof -
  let ?m = "ip_message packet" and ?source = "ip_source packet"
  let ?sid = "mh_stream_id (im_header ?m)"
  let ?pc1 = "update_state (env_now (pe_agent E)) alive pc"
  let ?pc2 = "?pc1\<lparr>pc_session := snd (push_input_message (pe_depths E) ?m ?sid (mh_sequence_nr (im_header ?m)) (pc_session ?pc1))\<rparr>"
  have h: "handler_ok ?source pc s ?pc2 s" by (rule handler_ok_refl) (simp add: update_state_def Let_def)
  have "pc_session ?pc1 = pc_session pc" by (simp add: update_state_def Let_def)
  then have i: "inputs_ok (pc_session ?pc2)" "se_info (pc_session ?pc2) = se_info (pc_session pc)"
    using push_input_effect [OF assms(1,3)] by simp_all
  note stream = process_input_stream_ends [OF i(1) handler_ok_holds [OF assms(2) h], of E ?source ?sid]
  show ?thesis
  proof (cases "process_input_stream E ?source ?sid ?pc2 s")
    case None
    with stream usable_info [OF i(2), of "pe_cdr E"] show ?thesis by (simp add: process_client_message_def Let_def)
  next
    case r: (Some r)
    then have out: "client_outcome ?source pc s r" using client_outcome_trans [OF _ h i(2)] stream by simp
    show ?thesis
    proof (cases r)
      case None
      with r show ?thesis by (simp add: process_client_message_def Let_def client_outcome_def)
    next
      case (Some x)
      obtain pc3 s3 where x: "x = (pc3, s3)" by fastforce
      have "process_client_message E packet pc s = Some (acknowledge E ?source (im_header ?m) pc3 s3)"
        using r by (simp add: process_client_message_def Let_def Some x)
      with out show ?thesis
        by (auto simp: client_outcome_def Some x inputs_le_def split: option.split dest!: acknowledge_effect
            intro: handler_ok_trans inputs_ok_le)
    qed
  qed
qed

definition agent_ok :: "('w, 'e) agent \<Rightarrow> bool" where
  "agent_ok s \<longleftrightarrow> root_ok (ag_root s) \<and> (\<forall>k pc. get_client k (ag_root s) = Some pc \<longrightarrow> inputs_ok (pc_session pc))"

lemma agent_ok_root: "agent_ok s \<Longrightarrow> ag_root s' = ag_root s \<Longrightarrow> agent_ok s'"
  by (simp add: agent_ok_def)

lemma inputs_ok_new: "inputs_ok (Session_new info)"
  by (simp add: inputs_ok_def Session_new_def best_istream_def reliable_istream_def BestEffortInputStream_new_def
      ReliableInputStream_new_def stream_ok_def)

lemma create_client_session:
  assumes "root_ok r" and "create_client E repr kind r = Some (st, info, r')" and "get_client k r' = Some pc"
  shows "get_client k r = Some pc \<or> (\<exists>old. get_client k r = Some old \<and> pc_session pc = Session_reset (pc_session old))
    \<or> (\<exists>i. pc_session pc = Session_new i)"
proof -
  have new: "\<exists>i. pc_session pc = Session_new i" if "new_proxy E repr kind props = Some pc" for pc props
    using that by (auto simp: new_proxy_def ProxyClient_new_def Let_def split: option.splits)
  note set = get_client_set [OF assms(1), of k "cr_client_key repr"]
  let ?set = "\<lambda>x. r\<lparr>rt_clients := om_set (cr_client_key repr) x (rt_clients r)\<rparr>"
  have "r' = r \<or> (\<exists>x props. new_proxy E repr kind props = Some x \<and> r' = ?set x)
    \<or> (\<exists>x. get_client (cr_client_key repr) r = Some x \<and> r' = ?set (x\<lparr>pc_session := Session_reset (pc_session x)\<rparr>))"
    using assms(2) unfolding create_client_def Let_def
    by (cases "get_client (cr_client_key repr) r") (simp_all split: if_splits, blast+)
  then consider "r' = r" | x props where "new_proxy E repr kind props = Some x" "r' = ?set x"
    | x where "get_client (cr_client_key repr) r = Some x" "r' = ?set (x\<lparr>pc_session := Session_reset (pc_session x)\<rparr>)"
    by blast
  then show ?thesis
  proof cases
    case 1
    with assms(3) show ?thesis by simp
  next
    case 2
    with assms(3) set [of x] new [OF 2(1)] show ?thesis by (auto split: if_splits)
  next
    case 3
    with assms(3) set [of "x\<lparr>pc_session := Session_reset (pc_session x)\<rparr>"] show ?thesis by (auto split: if_splits)
  qed
qed

lemma evict_agent_ok:
  assumes "agent_ok s"
  shows "agent_ok (evict_former_client E source key s)"
proof -
  have "agent_ok (s\<lparr>ag_root := r, ag_sessions := ss\<rparr>)" if "delete_client M ord k (ag_root s) = (st, old, r)" for M ord k st old r ss
    using root_ok_delete [OF _ that] assms by (auto simp: agent_ok_def split: if_splits)
  then show ?thesis using assms by (auto simp: evict_former_client_def split: option.splits prod.splits)
qed

lemma admit_agent_ok:
  assumes "agent_ok s" and "admit_client E source header repr s = Some s'"
  shows "agent_ok s'"
proof -
  obtain st info r where c: "create_client (pe_agent E) repr (pe_kind E) (ag_root s) = Some (st, info, r)"
    using assms(2) by (auto simp: admit_client_def split: option.splits)
  have ok: "root_ok (ag_root s)" using assms(1) by (simp add: agent_ok_def)
  have "inputs_ok (pc_session pc)" if "get_client k r = Some pc" for k pc
    using create_client_session [OF ok c that] assms(1) inputs_ok_new inputs_ok_le [OF _ inputs_le_reset]
    by (auto simp: agent_ok_def)
  moreover have "ag_root s' = r"
    using assms(2) c by (auto simp: admit_client_def Let_def push_message_def)
  ultimately show ?thesis using create_client_admits [OF ok c] by (simp add: agent_ok_def)
qed

lemma create_client_agent_ok:
  assumes "agent_ok s" and "process_create_client_submessage E source m s = Some (rv, m', s')"
  shows "agent_ok s'"
  using assms
  by (auto simp: process_create_client_submessage_def split: if_splits option.splits bool.splits
      intro: admit_agent_ok [OF evict_agent_ok])

lemma get_info_pushed: "process_get_info_packet E source m s = Some s' \<Longrightarrow> pushed source s s'"
  by (auto simp: process_get_info_packet_def Let_def split: option.splits if_splits dest: pushed_message)

lemma unknown_client_pushed: "process_unknown_client E packet s = Some s' \<Longrightarrow> pushed (ip_source packet) s s'"
  by (auto simp: process_unknown_client_def split: option.splits if_splits prod.splits bool.splits dest: pushed_message get_info_pushed)

lemma known_client_packet:
  assumes "agent_ok s" and "\<not> outside_session (ip_message packet)" and "in_session (ip_message packet)"
    and "get_client (sender_key packet s) (ag_root s) = Some pc"
  shows "case process_input_packet E packet s of None \<Rightarrow> \<not> usable (pe_cdr E) pc | Some None \<Rightarrow> True | Some (Some s') \<Rightarrow> agent_ok s'
      \<and> (\<forall>k. k \<noteq> sender_key packet s \<longrightarrow> get_client k (ag_root s') = get_client k (ag_root s))
      \<and> ag_sessions s' \<in> {ag_sessions s, destroy_session_endpoint (ip_source packet) (ag_sessions s)}
      \<and> (\<exists>ms. push_packets (map (packet_to (ip_source packet)) ms) (ag_server s) = Some (ag_server s'))"
proof -
  let ?key = "sender_key packet s" and ?source = "ip_source packet"
  have ok: "root_ok (ag_root s)" "inputs_ok (pc_session pc)" using assms(1,4) by (auto simp: agent_ok_def)
  have key: "cr_client_key (pc_representation pc) = ?key" using ok(1) assms(4) by (auto simp: root_ok_def)
  then have "holds pc s" using ok(1) assms(4) by (simp add: holds_def)
  note client = process_client_message_ends [OF ok(2) this assms(3), of E]
  have res: "process_input_packet E packet s
      = Option.bind (process_client_message E packet pc s) (\<lambda>r. Some (map_option (\<lambda>(pc', s'). s'\<lparr>ag_root := update_client ?key pc' (ag_root s')\<rparr>) r))"
    using assms(2,4) by (simp add: process_input_packet_def Let_def)
  consider "process_client_message E packet pc s = None" | "process_client_message E packet pc s = Some None"
    | pc' s' where "process_client_message E packet pc s = Some (Some (pc', s'))" by (metis option.exhaust surj_pair)
  then show ?thesis
  proof cases
    case 3
    have h: "handled ?source ?key s s'" "pc_representation pc' = pc_representation pc" "inputs_ok (pc_session pc')"
      using client key by (auto simp: 3 client_outcome_def handler_ok_def)
    then have r': "root_ok (ag_root s')" "\<forall>k. k \<noteq> ?key \<longrightarrow> get_client k (ag_root s') = get_client k (ag_root s)"
        "get_client ?key (ag_root s') \<in> {None, Some pc}" using ok(1) assms(4) by (auto simp: handled_def)
    let ?root = "update_client ?key pc' (ag_root s')"
    have "root_ok ?root \<and> get_client k ?root = (if k = ?key \<and> get_client ?key (ag_root s') \<noteq> None then Some pc' else get_client k (ag_root s'))" for k
      using root_ok_update [OF r'(1), of ?key pc pc'] r' h(2) get_client_set [OF r'(1), of k ?key pc']
      by (auto simp: update_client_def)
    moreover from this have "inputs_ok (pc_session c)" if "get_client k ?root = Some c" for k c
      using that r'(2) h(3) assms(1) by (cases "k = ?key") (auto simp: agent_ok_def split: if_splits)
    ultimately have "agent_ok (s'\<lparr>ag_root := ?root\<rparr>)" "\<forall>k. k \<noteq> ?key \<longrightarrow> get_client k ?root = get_client k (ag_root s')"
      by (auto simp: agent_ok_def)
    then show ?thesis using h(1) r'(2) by (auto simp: res 3 handled_def)
  qed (use client in \<open>simp_all add: res\<close>)
qed

lemma packet_agent_ok:
  assumes "agent_ok s" and "ip_message packet = InputMessage_new C octets" and "process_input_packet E packet s = Some (Some s')"
  shows "agent_ok s'"
proof (cases "outside_session (ip_message packet)")
  case True
  then show ?thesis using assms(1,3)
    by (auto simp: process_input_packet_def split: prod.splits bool.splits option.splits if_splits
        dest: create_client_agent_ok get_info_pushed [THEN pushed_root] intro: agent_ok_root)
next
  case False
  show ?thesis
  proof (cases "get_client (sender_key packet s) (ag_root s)")
    case None
    with False assms(1,3) show ?thesis
      by (auto simp: process_input_packet_def Let_def split: option.splits dest: unknown_client_pushed [THEN pushed_root] intro: agent_ok_root)
  next
    case (Some pc)
    from known_client_packet [OF assms(1) False _ Some, of E] in_session_new False assms(2,3) show ?thesis by auto
  qed
qed

lemma packet_returns:
  assumes "agent_ok s" and "ip_message packet = InputMessage_new C octets"
    and "\<And>pc. get_client (sender_key packet s) (ag_root s) = Some pc \<Longrightarrow> usable (pe_cdr E) pc"
  shows "\<exists>r. process_input_packet E packet s = Some r"
proof (cases "outside_session (ip_message packet) \<or> get_client (sender_key packet s) (ag_root s) = None")
  case True
  then show ?thesis by (auto simp: process_input_packet_def Let_def)
next
  case False
  then obtain pc where "get_client (sender_key packet s) (ag_root s) = Some pc" by blast
  with known_client_packet [OF assms(1) _ _ this, of E] in_session_new False assms(2,3) show ?thesis
    by (auto split: option.splits)
qed

text \<open>Packets from the network, one after the other, each with the environment it finds.\<close>

definition Agent_new :: "'e Server \<Rightarrow> ('w, 'e) agent" where
  "Agent_new v = \<lparr>ag_root = Root_new, ag_sessions = SessionManager_new, ag_server = v\<rparr>"

fun process_packets :: "('w processor_env \<times> 'e \<times> u8 list) list \<Rightarrow> ('w, 'e) agent \<Rightarrow> ('w, 'e) agent option option" where
  "process_packets [] s = Some (Some s)"
| "process_packets ((E, source, octets) # ps) s =
     (case process_input_packet E \<lparr>ip_source = source, ip_message = InputMessage_new (pe_cdr E) octets\<rparr> s of
        None \<Rightarrow> None
      | Some None \<Rightarrow> Some None
      | Some (Some s') \<Rightarrow> process_packets ps s')"

lemma agent_ok_new: "agent_ok (Agent_new v)"
  by (auto simp: agent_ok_def Agent_new_def root_ok_new) (simp add: Root_new_def get_client_def)

lemma process_packets_ok: "agent_ok s \<Longrightarrow> process_packets ps s = Some (Some s') \<Longrightarrow> agent_ok s'"
proof (induction ps arbitrary: s)
  case (Cons p ps)
  obtain E source octets where p: "p = (E, source, octets)" by (metis prod_cases3)
  let ?packet = "\<lparr>ip_source = source, ip_message = InputMessage_new (pe_cdr E) octets\<rparr>"
  obtain s1 where s1: "process_input_packet E ?packet s = Some (Some s1)" "process_packets ps s1 = Some (Some s')"
    using Cons.prems(2) by (auto simp: p split: option.splits)
  have "agent_ok s1" by (rule packet_agent_ok [OF Cons.prems(1) _ s1(1)]) simp
  then show ?case using Cons.IH s1(2) by blast
qed simp

end
