(* ===== verification/Processor_Contracts.thy ===== *)
theory Processor_Contracts
  imports Processor_Termination
begin

text \<open>
  What packets and single requests achieve: what a packet can change at all, the acknowledgement of a reliable
  stream, the admission of a client, and the numbers that connect requests with replies.
\<close>

subsection \<open>What a packet can change\<close>

text \<open>C9: isolation of clients: a packet within a session changes no client but the one it belongs to (named by
  its header, or registered for its endpoint).  It ends no session but that of the endpoint it came from, and
  everything that is sent in response goes to that endpoint.  When its client is not known, neither the clients
  nor the sessions change at all.  (\<open>Some None\<close> is an exception that nobody catches: it ends the agent.)  Its
  processing can be without an end only when the session of its own client has an MTU without room for a reply.\<close>

theorem packet_isolation:
  assumes "agent_ok s" and "ip_message packet = InputMessage_new C octets" and "\<not> outside_session (ip_message packet)"
  shows "case process_input_packet E packet s of
      None \<Rightarrow> \<exists>pc. get_client (sender_key packet s) (ag_root s) = Some pc \<and> \<not> usable (pe_cdr E) pc
    | Some None \<Rightarrow> True
    | Some (Some s') \<Rightarrow> (\<forall>k. k \<noteq> sender_key packet s \<longrightarrow> get_client k (ag_root s') = get_client k (ag_root s))
      \<and> ag_sessions s' \<in> {ag_sessions s, destroy_session_endpoint (ip_source packet) (ag_sessions s)}
      \<and> (\<exists>ms. push_packets (map (packet_to (ip_source packet)) ms) (ag_server s) = Some (ag_server s'))
      \<and> (get_client (sender_key packet s) (ag_root s) = None \<longrightarrow> ag_root s' = ag_root s \<and> ag_sessions s' = ag_sessions s)"
proof (cases "get_client (sender_key packet s) (ag_root s)")
  case None
  with assms(3) show ?thesis
    by (auto simp: process_input_packet_def Let_def pushed_def split: option.splits dest!: unknown_client_pushed)
next
  case (Some pc)
  have "in_session (ip_message packet)" using in_session_new assms(2,3) by simp
  from known_client_packet [OF assms(1,3) this Some, of E] Some show ?thesis by (simp split: option.splits)
qed

text \<open>C10: the agent never hangs on what a client with a usable session sends: in every state the agent can reach
  from packets with any content, from any endpoints, the processing of the next packet, whatever its octets, ends,
  provided that its client (if it is known) asked for an MTU with room for the headers and an octet.  The loops over
  submessages, over the messages of a stream, over the replies and over the fragments of a reply all terminate, also
  for messages that contain fragments of messages that contain fragments.  Ending without a result (the inner
  \<open>None\<close>) is an exception that nobody catches.  Without the condition the claim is false
  (\<open>reliable_push_small_mtu\<close>).\<close>

theorem packet_processing_terminates:
  assumes "process_packets ps (Agent_new v) = Some (Some s)" and "ip_message packet = InputMessage_new (pe_cdr E) octets"
    and "cdr_lib (pe_cdr E)"
    and "\<And>pc. get_client (sender_key packet s) (ag_root s) = Some pc \<Longrightarrow> session_ok (se_info (pc_session pc))"
  shows "\<exists>r. process_input_packet E packet s = Some r"
  using packet_returns [OF process_packets_ok [OF agent_ok_new assms(1)] assms(2)] assms(3,4) by (simp add: usable_def)

subsection \<open>Messages sent again\<close>

definition nacked :: "ACKNACK_Payload \<Rightarrow> nat \<Rightarrow> bool" where
  "nacked ak i \<longleftrightarrow> (if i < 8 then bit (ak_nack_bitmap_1 ak) i else bit (ak_nack_bitmap_0 ak) (i - 8))"

definition nack_positions :: "ACKNACK_Payload \<Rightarrow> nat list" where
  "nack_positions ak = concat (map (\<lambda>i. (if nacked ak i then [i] else []) @ (if nacked ak (i + 8) then [i + 8] else [])) [0..<8])"

lemma mask_bit: "i < 8 \<Longrightarrow> (x :: u8) AND push_bit i 1 = push_bit i 1 \<longleftrightarrow> bit x i"
proof
  assume i: "i < 8" and "x AND push_bit i 1 = push_bit i 1"
  then have "bit (x AND push_bit i 1) i" using i by (simp only:) (simp add: bit_simps)
  then show "bit x i" by (simp add: bit_simps)
next
  assume i: "i < 8" and b: "bit x i"
  show "x AND push_bit i 1 = push_bit i 1"
    using b by (intro bit_eqI) (auto simp: bit_simps)
qed

lemma nack_requests_positions: "nack_requests ak = map (\<lambda>i. ak_first_unacked_seq_num ak + of_nat i) (nack_positions ak)"
proof -
  have "map (\<lambda>i. let mask = push_bit i 1 :: u8 in
       (if ak_nack_bitmap_1 ak AND mask = mask then [ak_first_unacked_seq_num ak + of_nat i] else [])
     @ (if ak_nack_bitmap_0 ak AND mask = mask then [ak_first_unacked_seq_num ak + of_nat i + 8] else [])) [0..<8]
    = map (map (\<lambda>i. ak_first_unacked_seq_num ak + of_nat i)
        \<circ> (\<lambda>i. (if nacked ak i then [i] else []) @ (if nacked ak (i + 8) then [i + 8] else []))) [0..<8]"
    by (rule map_cong) (auto simp: Let_def nacked_def mask_bit [simplified])
  then show ?thesis unfolding nack_requests_def nack_positions_def map_concat map_map by (rule arg_cong)
qed

lemma nack_positions_set: "set (nack_positions ak) = {i. i < 16 \<and> nacked ak i}"
proof -
  have "i \<in> set (nack_positions ak) \<longleftrightarrow> i < 16 \<and> nacked ak i" for i
  proof (cases "i < 8")
    case False
    then have "(\<exists>x\<in>{0..<8}. i = x + 8 \<and> nacked ak (x + 8)) \<longleftrightarrow> i < 16 \<and> nacked ak i"
      by (auto intro!: bexI [of _ "i - 8"])
    with False show ?thesis by (auto simp: nack_positions_def)
  qed (auto simp: nack_positions_def)
  then show ?thesis by blast
qed

lemma nack_positions_distinct: "distinct (nack_positions ak)"
  by (simp add: nack_positions_def upt_rec)

lemma resend_messages:
  assumes "is_reliable_stream sid"
  shows "\<exists>se'. resend sid d ns se s = map_option (\<lambda>v. (se', s\<lparr>ag_server := v\<rparr>))
      (push_packets (map (packet_to d) (List.map_filter (ro_messages (get_reliable_output_stream se sid)) ns)) (ag_server s))
    \<and> (\<forall>i. get_reliable_output_stream se' i = get_reliable_output_stream se i)"
proof (induction ns arbitrary: se s)
  case (Cons n ns)
  let ?ro = "get_reliable_output_stream se sid"
  let ?se = "set_reliable_ostream sid ?ro se"
  have g: "get_output_message sid n se = (ro_messages ?ro n, ?se)"
    using assms by (simp add: get_output_message_def ro_get_message_def)
  have same: "get_reliable_output_stream ?se i = get_reliable_output_stream se i" for i by simp
  show ?case
  proof (cases "ro_messages ?ro n")
    case None
    from Cons.IH [of ?se s] obtain se' where
      "resend sid d ns ?se s = map_option (\<lambda>v. (se', s\<lparr>ag_server := v\<rparr>))
          (push_packets (map (packet_to d) (List.map_filter (ro_messages ?ro) ns)) (ag_server s))"
      "\<forall>i. get_reliable_output_stream se' i = get_reliable_output_stream se i" using same by auto
    with None g show ?thesis by (intro exI [of _ se']) (simp add: List.map_filter_simps)
  next
    case (Some m)
    show ?thesis
    proof (cases "push_message d m s")
      case None
      with Some g same show ?thesis
        by (intro exI [of _ ?se]) (auto simp: push_message_def List.map_filter_simps)
    next
      case push: (Some s1)
      then obtain v where v: "push_output_packet (packet_to d m) (ag_server s) = Some v" "s1 = s\<lparr>ag_server := v\<rparr>"
        by (auto simp: push_message_def)
      from Cons.IH [of ?se s1] obtain se' where
        "resend sid d ns ?se s1 = map_option (\<lambda>v. (se', s1\<lparr>ag_server := v\<rparr>))
            (push_packets (map (packet_to d) (List.map_filter (ro_messages ?ro) ns)) (ag_server s1))"
        "\<forall>i. get_reliable_output_stream se' i = get_reliable_output_stream se i" using same by auto
      with Some g push v show ?thesis by (intro exI [of _ se']) (auto simp: List.map_filter_simps)
    qed
  qed
qed (auto simp: List.map_filter_simps)

lemma kept_messages:
  assumes "ro_inv r hist f n" and "f \<le> k" and "k \<le> n" and "list_all (\<lambda>i. i < 16) is"
  shows "List.map_filter (ro_messages r) (map (\<lambda>i. of_nat k + of_nat i) is) = map (\<lambda>i. hist ! (k + i)) (filter (\<lambda>i. k + i < length hist) is)"
  using assms(4)
proof (induction "is")
  case (Cons i "is")
  have "n \<le> f + 16384" using assms(1) by (auto simp: ro_inv_def)
  then have "ro_messages r (of_nat (k + i)) = (if f \<le> k + i \<and> k + i < length hist then Some (hist ! (k + i)) else None)"
    using assms(2,3) Cons.prems by (intro ro_inv_lookup [OF assms(1)]) simp_all
  with Cons assms(2) show ?case by (simp add: List.map_filter_simps)
qed (simp add: List.map_filter_simps)

text \<open>C18: the answer to an acknowledgement of a reliable stream: of the messages put into the stream so far
  (\<open>hist\<close>), exactly those that are marked as missing and exist are sent again, each once, to the sender; then all
  messages before the first missing one are dropped from the window and nothing else changes in it.\<close>

theorem acknack_resends_missing:
  assumes "get_payload (pe_cdr E) ACKNACK_Payload_deserialize ACKNACK_Payload_new m = Some (True, ak, m1)"
    and "is_reliable_stream (ak_stream_id ak)"
    and "ro_inv (get_reliable_output_stream (pc_session pc) (ak_stream_id ak)) hist f n"
    and "ak_first_unacked_seq_num ak = of_nat k" and "f \<le> k" and "k \<le> n"
  shows "\<exists>is se. distinct is \<and> set is = {i. i < 16 \<and> nacked ak i \<and> k + i < length hist}
    \<and> process_acknack_submessage E source m pc s = map_option (\<lambda>v. (True, m1, pc\<lparr>pc_session := se\<rparr>, s\<lparr>ag_server := v\<rparr>))
        (push_packets (map (\<lambda>i. packet_to source (hist ! (k + i))) is) (ag_server s))
    \<and> ro_inv (get_reliable_output_stream se (ak_stream_id ak)) hist k n"
proof -
  let ?sid = "ak_stream_id ak" and ?is = "filter (\<lambda>i. k + i < length hist) (nack_positions ak)"
  let ?ro = "get_reliable_output_stream (pc_session pc) ?sid"
  from resend_messages [OF assms(2), of source "nack_requests ak" "pc_session pc" s] obtain se' where
    r: "resend ?sid source (nack_requests ak) (pc_session pc) s = map_option (\<lambda>v. (se', s\<lparr>ag_server := v\<rparr>))
        (push_packets (map (packet_to source) (List.map_filter (ro_messages ?ro) (nack_requests ak))) (ag_server s))"
      "get_reliable_output_stream se' ?sid = ?ro" by blast
  have "list_all (\<lambda>i. i < 16) (nack_positions ak)" using nack_positions_set [of ak] by (auto simp: list_all_iff)
  then have ms: "List.map_filter (ro_messages ?ro) (nack_requests ak) = map (\<lambda>i. hist ! (k + i)) ?is"
    unfolding nack_requests_positions assms(4) by (rule kept_messages [OF assms(3,5,6)])
  let ?se = "update_from_acknack ?sid (of_nat k) se'"
  have "ro_inv (ro_update_from_acknack (of_nat k) ?ro) hist k n"
    using ack_loop_inv [OF assms(3), of k] assms(3,5,6) sn_less_nat [of n k]
    by (auto simp: ro_update_from_acknack_def ro_inv_def sn_le_def sn_greater_def)
  then have "ro_inv (get_reliable_output_stream ?se ?sid) hist k n"
    using assms(2) r(2) by (simp add: update_from_acknack_def)
  moreover have "process_acknack_submessage E source m pc s = map_option (\<lambda>v. (True, m1, pc\<lparr>pc_session := ?se\<rparr>, s\<lparr>ag_server := v\<rparr>))
        (push_packets (map (\<lambda>i. packet_to source (hist ! (k + i))) ?is) (ag_server s))"
    using assms(1,4) r(1) by (simp add: process_acknack_submessage_def ms option.map_comp o_def)
  moreover have "distinct ?is" "set ?is = {i. i < 16 \<and> nacked ak i \<and> k + i < length hist}"
    using nack_positions_distinct nack_positions_set [of ak] by auto
  ultimately show ?thesis by blast
qed

subsection \<open>Admission of a client\<close>

text \<open>The clients after the one that used the endpoint before has been removed.\<close>

definition former_key :: "'e \<Rightarrow> ('w, 'e) agent \<Rightarrow> ClientKey option" where
  "former_key source s = map_option raw_to_clientkey (get_client_key source (ag_sessions s))"

lemma evict_clients:
  assumes "agent_ok s"
  shows "get_client k (ag_root (evict_former_client E source key s))
      = (if former_key source s = Some k \<and> k \<noteq> key then None else get_client k (ag_root s))"
    and "ag_server (evict_former_client E source key s) = ag_server s"
proof -
  have ok: "root_ok (ag_root s)" using assms by (simp add: agent_ok_def)
  show "get_client k (ag_root (evict_former_client E source key s))
      = (if former_key source s = Some k \<and> k \<noteq> key then None else get_client k (ag_root s))"
    using root_ok_delete [OF ok] by (auto simp: evict_former_client_def former_key_def split: option.splits prod.splits)
  show "ag_server (evict_former_client E source key s) = ag_server s"
    by (auto simp: evict_former_client_def split: option.splits prod.splits)
qed

text \<open>C15: admission of a client, through all parts of the agent: when a well-formed \<open>CREATE_CLIENT\<close> message
  outside a session has been processed, the client is in the directory with the session it asked for, it is
  reachable at the endpoint the message came from, and (for a session without client keys) later packets from that
  endpoint are attributed to it.  Another client that used the endpoint has been removed; all others are as they
  were; and exactly one message has been sent, to that endpoint: the status \<open>STATUS_OK\<close> with the representation of
  the agent.\<close>

theorem client_admission:
  assumes "agent_ok s" and "outside_session (ip_message packet)"
    and "prepare_next_submessage (pe_cdr E) (ip_message packet) = (True, m)" and "sh_submessage_id (im_subheader m) = 0"
    and "get_payload (pe_cdr E) CREATE_CLIENT_Payload_deserialize (CLIENT_Representation_new (pe_junk E)) m = Some (True, repr, m1)"
    and "client_accepted repr" and "process_input_packet E packet s = Some (Some s')"
  shows "(\<exists>pc. get_client (cr_client_key repr) (ag_root s') = Some pc \<and> cr_session_id (pc_representation pc) = cr_session_id repr)
    \<and> get_endpoint (clientkey_to_raw (cr_client_key repr)) (ag_sessions s') = Some (ip_source packet)
    \<and> (128 \<le> cr_session_id repr \<longrightarrow>
        get_client_key (ip_source packet) (ag_sessions s') = Some (clientkey_to_raw (cr_client_key repr)))
    \<and> (\<forall>k. k \<noteq> cr_client_key repr \<longrightarrow> get_client k (ag_root s')
        = (if former_key (ip_source packet) s = Some k then None else get_client k (ag_root s)))
    \<and> push_output_packet (packet_to (ip_source packet) (snd (reply_message (pe_cdr E)
          ((im_header (ip_message packet))\<lparr>mh_session_id := cr_session_id repr\<rparr>)
          (Reply_STATUS_AGENT \<lparr>sa_result = \<lparr>rs_status = STATUS_OK, rs_implementation_status = 0\<rparr>, sa_agent_info = agent_representation\<rparr>))))
        (ag_server s) = Some (ag_server s')"
proof -
  let ?source = "ip_source packet" and ?key = "cr_client_key repr"
  let ?s1 = "evict_former_client E ?source ?key s"
  have head: "im_header m = im_header (ip_message packet)" using prepare_further [OF assms(3)] by (simp add: further_def)
  then have out: "outside_session m" using assms(2) by (simp add: outside_session_def)
  have adm: "admit_client E ?source (im_header m) repr ?s1 = Some s'"
    using assms(2-5,7) out by (auto simp: process_input_packet_def process_create_client_submessage_def)
  then obtain st info r where c: "create_client (pe_agent E) repr (pe_kind E) (ag_root ?s1) = Some (st, info, r)"
    by (auto simp: admit_client_def split: option.splits)
  have ok1: "root_ok (ag_root ?s1)" using evict_agent_ok [OF assms(1)] by (simp add: agent_ok_def)
  note root = create_client_admits [OF ok1 c]
  have st: "st = STATUS_OK" "info = Some agent_representation"
    using root c assms(6) by (auto simp: client_accepted_def create_client_def)
  have s': "ag_root s' = r" "ag_sessions s' = establish_session ?source (clientkey_to_raw ?key) (cr_session_id repr) (ag_sessions ?s1)"
      "push_output_packet (packet_to ?source (snd (reply_message (pe_cdr E) ((im_header m)\<lparr>mh_session_id := cr_session_id repr\<rparr>)
          (Reply_STATUS_AGENT \<lparr>sa_result = \<lparr>rs_status = STATUS_OK, rs_implementation_status = 0\<rparr>, sa_agent_info = agent_representation\<rparr>))))
        (ag_server s) = Some (ag_server s')"
    using adm evict_clients(2) [OF assms(1), of E ?source ?key] by (auto simp: admit_client_def c st push_message_def Let_def)
  have "\<exists>pc. get_client ?key r = Some pc \<and> cr_session_id (pc_representation pc) = cr_session_id repr" using root st(1) by blast
  moreover have "get_client k r = (if former_key ?source s = Some k then None else get_client k (ag_root s))" if "k \<noteq> ?key" for k
    using root that evict_clients(1) [OF assms(1), of k E ?source ?key] by simp
  ultimately show ?thesis
    using s' head by (simp add: sm.endpoint_establish sm.key_establish has_session_client_key_def not_less)
qed

subsection \<open>Requests and replies\<close>

text \<open>The number under which a request travels through the middleware gives back the request: the sample a
  requester delivers for the reply starts with the request's identifier and the requester's own.\<close>

lemma reply_sample_request:
  "reply_sample object_id (request_sequence_number object_id request_id) data
    = [fst request_id, snd request_id, fst object_id, snd object_id] @ data"
proof -
  let ?a = "push_bit 16 (ucast (objectid_to_raw object_id)) :: u32" and ?b = "push_bit 8 (ucast (fst request_id)) :: u32"
    and ?c = "ucast (snd request_id) :: u32"
  have "\<not> bit ?a n \<or> \<not> bit ?b n" for n by (auto simp: bit_simps dest: bit_imp_le_length)
  then have "?a + ?b = ?a OR ?b" by (rule disjunctive_add)
  moreover have "\<not> bit (?a OR ?b) n \<or> \<not> bit ?c n" for n by (auto simp: bit_simps dest: bit_imp_le_length)
  then have "(?a OR ?b) + ?c = ?a OR ?b OR ?c" using disjunctive_add [of "?a OR ?b" ?c] by (simp add: or.assoc)
  ultimately have n: "request_sequence_number object_id request_id = ?a OR ?b OR ?c" by (simp add: request_sequence_number_def)
  have ff: "(0xFF :: u32) = mask 8" by (simp add: mask_eq_exp_minus_1)
  have "(ucast (drop_bit 8 (?a OR ?b OR ?c) AND 0xFF) :: u8) = fst request_id"
    unfolding ff by (rule bit_word_eqI) (auto simp: bit_simps dest: bit_imp_le_length)
  moreover have "(ucast ((?a OR ?b OR ?c) AND 0xFF) :: u8) = snd request_id"
    unfolding ff by (rule bit_word_eqI) (auto simp: bit_simps dest: bit_imp_le_length)
  ultimately show ?thesis by (simp add: reply_sample_def n BaseObjectRequest_serialize_def w_pair_def w_octets_def)
qed

subsection \<open>A client arrives and acknowledges\<close>

definition example_processor :: "ced processor_env" where
  "example_processor = \<lparr>pe_cdr = cdr_little, pe_middleware = ced_middleware [], pe_decoder = (\<lambda>_ _ _ _. None),
     pe_depths = \<lparr>RELIABLE_STREAM_DEPTH = 16, BEST_EFFORT_STREAM_DEPTH = 16\<rparr>, pe_agent = example_env, pe_kind = Kind_CED,
     pe_object_order = (\<lambda>_. []), pe_stream_order = (\<lambda>_. []), pe_write_limit = True, pe_junk = replicate 13 0,
     pe_receive_time = Time_t_new, pe_transmit_time = Time_t_new\<rparr>"

definition example_server :: "nat Server" where
  "example_server = snd (server_start True (Server_new 16))"

definition create_client_octets :: "u8 list" where
  "create_client_octets = [0x80, 0, 0, 0, 0, 1, 16, 0, 0x58, 0x52, 0x43, 0x45, 1, 0, 1, 15, 0, 0, 0, 1, 0x81, 0, 0, 2]"

definition create_client_packet :: "nat InputPacket" where
  "create_client_packet = \<lparr>ip_source = 7, ip_message = InputMessage_new cdr_little create_client_octets\<rparr>"

definition create_client_message :: InputMessage where
  "create_client_message = snd (prepare_next_submessage cdr_little (InputMessage_new cdr_little create_client_octets))"

lemma create_client_message:
  "outside_session (ip_message create_client_packet)"
  "prepare_next_submessage cdr_little (ip_message create_client_packet) = (True, create_client_message)"
  "sh_submessage_id (im_subheader create_client_message) = 0"
  "im_header create_client_message = \<lparr>mh_session_id = 0x80, mh_stream_id = 0, mh_sequence_nr = 0, mh_client_key = [0, 0, 0, 0]\<rparr>"
  by (code_simp)+

lemma create_client_payload:
  "get_payload cdr_little CREATE_CLIENT_Payload_deserialize (CLIENT_Representation_new (replicate 13 0)) create_client_message
    = Some (True, example_client, create_client_message\<lparr>im_pos := 24\<rparr>)"
  by code_simp

lemma example_push: "\<exists>v. push_output_packet (packet_to d m) example_server = Some v"
  by (simp add: push_output_packet_def packet_to_def example_server_def server_start_def sched_push_def sched_init_def
      Server_new_def PacketScheduler_new_def ps_size_def ps_queue_def Let_def)

definition example_agent :: "(ced, nat) agent" where
  "example_agent = the (the (process_input_packet example_processor create_client_packet (Agent_new example_server)))"

lemma example_agent:
  "process_input_packet example_processor create_client_packet (Agent_new example_server) = Some (Some example_agent)"
  "ag_root example_agent = example_root"
  "ag_sessions example_agent = establish_session 7 1 0x81 SessionManager_new"
proof -
  let ?reply = "snd (reply_message cdr_little ((im_header create_client_message)\<lparr>mh_session_id := cr_session_id example_client\<rparr>)
    (Reply_STATUS_AGENT \<lparr>sa_result = \<lparr>rs_status = STATUS_OK, rs_implementation_status = 0\<rparr>, sa_agent_info = agent_representation\<rparr>))"
  obtain v where v: "push_output_packet (packet_to 7 ?reply) example_server = Some v" using example_push by blast
  have k: "clientkey_to_raw (cr_client_key example_client) = 1" "cr_session_id example_client = 0x81"
    by (simp_all add: example_client_def clientkey_to_raw_def)
  have "process_create_client_submessage example_processor 7 create_client_message (Agent_new example_server)
      = Some (True, create_client_message\<lparr>im_pos := 24\<rparr>,
          \<lparr>ag_root = example_root, ag_sessions = establish_session 7 1 0x81 SessionManager_new, ag_server = v\<rparr>)"
  proof -
    have "outside_session create_client_message"
      by (simp add: outside_session_def create_client_message(4) SESSIONID_NONE_WITHOUT_CLIENT_KEY_def)
    moreover have "evict_former_client example_processor 7 (cr_client_key example_client) (Agent_new example_server) = Agent_new example_server"
      by (simp add: evict_former_client_def Agent_new_def get_client_key_def SessionManager_new_def)
    moreover have "admit_client example_processor 7 (im_header create_client_message) example_client (Agent_new example_server)
        = Some \<lparr>ag_root = example_root, ag_sessions = establish_session 7 1 0x81 SessionManager_new, ag_server = v\<rparr>"
      using example_create v k by (simp add: admit_client_def example_processor_def Agent_new_def push_message_def Let_def)
    ultimately show ?thesis using create_client_payload
      by (simp add: process_create_client_submessage_def example_processor_def)
  qed
  then have "process_input_packet example_processor create_client_packet (Agent_new example_server)
      = Some (Some \<lparr>ag_root = example_root, ag_sessions = establish_session 7 1 0x81 SessionManager_new, ag_server = v\<rparr>)"
    using create_client_message by (simp add: process_input_packet_def example_processor_def create_client_packet_def)
  then show "process_input_packet example_processor create_client_packet (Agent_new example_server) = Some (Some example_agent)"
    "ag_root example_agent = example_root" "ag_sessions example_agent = establish_session 7 1 0x81 SessionManager_new"
    by (simp_all add: example_agent_def)
qed

lemma example_agent_ok: "agent_ok example_agent"
  by (rule packet_agent_ok [OF agent_ok_new _ example_agent(1)]) (simp add: create_client_packet_def)

theorem client_admission_witness:
  "get_endpoint 1 (ag_sessions example_agent) = Some 7 \<and> get_client_key 7 (ag_sessions example_agent) = Some 1"
proof -
  have p: "pe_cdr example_processor = cdr_little" "pe_junk example_processor = replicate 13 0" "ip_source create_client_packet = 7"
    by (simp_all add: example_processor_def create_client_packet_def)
  have repr: "client_accepted example_client" "clientkey_to_raw (cr_client_key example_client) = 1" "128 \<le> cr_session_id example_client"
    by (simp_all add: client_accepted_def example_client_def CLIENTKEY_INVALID_def XRCE_COOKIE_def XRCE_VERSION_MAJOR_def clientkey_to_raw_def)
  from client_admission [OF agent_ok_new create_client_message(1), of example_processor, unfolded p,
      OF create_client_message(2,3) create_client_payload repr(1) example_agent(1)] repr(2,3)
  show ?thesis by simp
qed

text \<open>Two clients, and a packet of the first that deletes it.\<close>

definition second_client :: "ced ProxyClient" where
  "second_client = example_new\<lparr>pc_representation := (pc_representation example_new)\<lparr>cr_client_key := [0, 0, 0, 2]\<rparr>\<rparr>"

definition two_clients :: "(ced, nat) agent" where
  "two_clients = \<lparr>ag_root = \<lparr>rt_clients = [([0, 0, 0, 1], example_new), ([0, 0, 0, 2], second_client)], rt_current_client = None\<rparr>,
     ag_sessions = establish_session 8 2 0x81 (establish_session 7 1 0x81 SessionManager_new), ag_server = example_server\<rparr>"

definition reset_message :: InputMessage where
  "reset_message = InputMessage_new cdr_little [0x81, 0, 0, 0, 12, 1, 0, 0]"

definition reset_packet :: "nat InputPacket" where
  "reset_packet = \<lparr>ip_source = 7, ip_message = reset_message\<rparr>"

lemma reset_message:
  "im_header reset_message = \<lparr>mh_session_id = 0x81, mh_stream_id = 0, mh_sequence_nr = 0, mh_client_key = [0, 0, 0, 0]\<rparr>"
  "\<not> outside_session reset_message"
  "fst (prepare_next_submessage cdr_little reset_message)"
  "sh_submessage_id (im_subheader (snd (prepare_next_submessage cdr_little reset_message))) = 12"
  "\<not> fst (prepare_next_submessage cdr_little (snd (prepare_next_submessage cdr_little reset_message)))"
  unfolding reset_message_def by code_simp+

lemma reset_processed:
  assumes "pe_cdr E = cdr_little"
  shows "process_input_message E source reset_message pc s = Some (Some (process_reset_submessage pc, s))"
  using reset_message(3-5) assms
  by (subst process_input_message.simps, subst process_input_message.simps)
    (auto simp: process_submessage_def SUBMESSAGE_FRAGMENT_def split: prod.splits)

lemma reset_stream:
  assumes "pe_cdr E = cdr_little" and "se_none_istream (pc_session pc) = [reset_message]"
  shows "\<exists>pc'. process_input_stream E source 0 pc s = Some (Some (pc', s))"
proof -
  let ?pop = "\<lambda>pc. pop_input_message 0 (pc_session pc)"
  let ?pc1 = "process_reset_submessage (pc\<lparr>pc_session := (pc_session pc)\<lparr>se_none_istream := []\<rparr>\<rparr>)"
  have "?pop pc = (Some reset_message, (pc_session pc)\<lparr>se_none_istream := []\<rparr>)"
    using assms(2) by (simp add: pop_input_message_def is_none_stream_def STREAMID_NONE_def none_pop_message_def queue_pop_def)
  moreover have "?pop ?pc1 = (None, pc_session ?pc1)"
    by (simp add: pop_input_message_def is_none_stream_def STREAMID_NONE_def none_pop_message_def queue_pop_def
        process_reset_submessage_def Session_reset_def)
  ultimately show ?thesis
    by (simp add: process_input_stream.simps [of E source 0 pc s] process_input_stream.simps [of E source 0 ?pc1 s]
        reset_processed [OF assms(1)])
qed

lemma two_clients:
  "agent_ok two_clients" "get_client [0, 0, 0, 1] (ag_root two_clients) = Some example_new"
  "get_client [0, 0, 0, 2] (ag_root two_clients) = Some second_client" "sender_key reset_packet two_clients = [0, 0, 0, 1]"
proof -
  show "get_client [0, 0, 0, 1] (ag_root two_clients) = Some example_new"
    "get_client [0, 0, 0, 2] (ag_root two_clients) = Some second_client"
    by (simp_all add: two_clients_def get_client_def)
  have "inputs_ok (pc_session example_new)" "inputs_ok (pc_session second_client)"
    by (simp_all add: second_client_def example_new_def ProxyClient_new_def Let_def inputs_ok_new)
  moreover have "root_ok (ag_root two_clients)"
    by (auto simp: root_ok_def two_clients_def get_client_def om_valid_def second_client_def example_new_def ProxyClient_new_def Let_def
        client_accepted_def example_client_def CLIENTKEY_INVALID_def XRCE_COOKIE_def XRCE_VERSION_MAJOR_def split: if_splits)
  ultimately show "agent_ok two_clients"
    by (auto simp: agent_ok_def two_clients_def get_client_def split: if_splits)
  show "sender_key reset_packet two_clients = [0, 0, 0, 1]"
  proof -
    have "get_client_key (7 :: nat) (establish_session 8 2 0x81 (establish_session 7 1 0x81 SessionManager_new)) = Some 1"
      by code_simp
    then have "get_client_key 7 (ag_sessions two_clients) = Some 1" by (simp add: two_clients_def)
    then show ?thesis by (simp add: sender_key_def Let_def reset_packet_def raw_to_clientkey_def reset_message(1))
  qed
qed

text \<open>The packet resets the streams of the first client; the second is what it was.\<close>

theorem packet_isolation_witness:
  "\<exists>s'. process_input_packet example_processor reset_packet two_clients = Some (Some s')
    \<and> get_client [0, 0, 0, 2] (ag_root s') = Some second_client"
proof -
  let ?pc2 = "(update_state (env_now example_env) alive example_new)\<lparr>pc_session := (pc_session example_new)\<lparr>se_none_istream := [reset_message]\<rparr>\<rparr>"
  have E: "pe_cdr example_processor = cdr_little" "pe_agent example_processor = example_env" by (simp_all add: example_processor_def)
  have fields: "im_header (ip_message reset_packet) = \<lparr>mh_session_id = 0x81, mh_stream_id = 0, mh_sequence_nr = 0, mh_client_key = [0, 0, 0, 0]\<rparr>"
      "ip_message reset_packet = reset_message" "\<not> outside_session reset_message" "ip_source reset_packet = 7"
    using reset_message by (simp_all add: reset_packet_def)
  have "snd (push_input_message (pe_depths example_processor) reset_message 0 0 (pc_session example_new))
      = (pc_session example_new)\<lparr>se_none_istream := [reset_message]\<rparr>"
    by (simp add: push_input_message_def is_none_stream_def STREAMID_NONE_def none_push_message_def example_processor_def
        example_new_def ProxyClient_new_def Let_def Session_new_def)
  moreover obtain pc' where "process_input_stream example_processor 7 0 ?pc2 two_clients = Some (Some (pc', two_clients))"
    using reset_stream [OF E(1), of ?pc2 7 two_clients] by auto
  ultimately have "process_client_message example_processor reset_packet example_new two_clients = Some (Some (pc', two_clients))"
    using fields E by (simp add: process_client_message_def update_state_def Let_def acknowledge_def is_reliable_stream_def STREAMID_BUILTIN_RELIABLE_def)
  then obtain s' where s': "process_input_packet example_processor reset_packet two_clients = Some (Some s')"
    using fields two_clients by (simp add: process_input_packet_def Let_def)
  from packet_isolation [OF two_clients(1) fields(2) [unfolded reset_message_def] fields(3) [folded fields(2)], of example_processor]
  have "get_client [0, 0, 0, 2] (ag_root s') = Some second_client" using s' two_clients by simp
  with s' show ?thesis by blast
qed

text \<open>A packet on a reliable stream that asks to read from an object the client does not have: the refusal is a
  reply on a reliable stream.\<close>

definition read_packet :: "nat InputPacket" where
  "read_packet = \<lparr>ip_source = 7, ip_message = InputMessage_new cdr_little
     [0x81, 0x80, 0, 0, 8, 1, 9, 0, 0, 10, 0, 6, 0x80, 0, 0, 0, 0]\<rparr>"

theorem packet_processing_terminates_witness:
  "\<exists>r. process_input_packet example_processor read_packet example_agent = Some r"
proof -
  have E: "pe_cdr example_processor = cdr_little" by (simp add: example_processor_def)
  have run: "process_packets [(example_processor, 7, create_client_octets)] (Agent_new example_server) = Some (Some example_agent)"
    using example_agent(1) by (simp add: E create_client_packet_def)
  have message: "ip_message read_packet = InputMessage_new (pe_cdr example_processor)
      [0x81, 0x80, 0, 0, 8, 1, 9, 0, 0, 10, 0, 6, 0x80, 0, 0, 0, 0]" by (simp add: read_packet_def E)
  have "session_ok (se_info (pc_session pc))" if "get_client k (ag_root example_agent) = Some pc" for k pc
  proof -
    have "pc = example_new" using that by (auto simp: example_agent(2) example_root_def get_client_def split: if_splits)
    then show ?thesis
      by (simp add: session_ok_def example_new_def ProxyClient_new_def Let_def example_client_def Session_new_def)
  qed
  from packet_processing_terminates [OF run message _ this] show ?thesis by (simp add: E cdr_little.cdr_lib_axioms)
qed

text \<open>A message that the client reports as missing.\<close>

definition acknack_message :: InputMessage where
  "acknack_message = snd (prepare_next_submessage cdr_little
     (InputMessage_new cdr_little [0x81, 0, 0, 0, 10, 1, 5, 0, 0, 0, 0, 1, 0x80]))"

definition sent_message :: OutputMessage where
  "sent_message = snd (reply_message cdr_little \<lparr>mh_session_id = 0x81, mh_stream_id = 0x80, mh_sequence_nr = 0, mh_client_key = [0, 0, 0, 1]\<rparr>
     (Reply_STATUS_AGENT \<lparr>sa_result = \<lparr>rs_status = STATUS_OK, rs_implementation_status = 0\<rparr>, sa_agent_info = agent_representation\<rparr>))"

definition waiting_client :: "ced ProxyClient" where
  "waiting_client = example_new\<lparr>pc_session := set_reliable_ostream 0x80 (ro_append [sent_message] ReliableOutputStream_new) (pc_session example_new)\<rparr>"

theorem acknack_resends_missing_witness:
  "\<exists>m1 se v. process_acknack_submessage example_processor (7 :: nat) acknack_message waiting_client (Agent_new example_server)
      = Some (True, m1, waiting_client\<lparr>pc_session := se\<rparr>, Agent_new v)
    \<and> push_output_packet (packet_to 7 sent_message) example_server = Some v"
proof -
  let ?ak = "\<lparr>ak_first_unacked_seq_num = 0, ak_nack_bitmap_0 = 0, ak_nack_bitmap_1 = 1, ak_stream_id = 0x80\<rparr>"
  have payload: "get_payload (pe_cdr example_processor) ACKNACK_Payload_deserialize ACKNACK_Payload_new acknack_message
      = Some (True, ?ak, acknack_message\<lparr>im_pos := 13\<rparr>)"
  proof -
    have "pe_cdr example_processor = cdr_little" by (simp add: example_processor_def)
    moreover have "get_payload cdr_little ACKNACK_Payload_deserialize ACKNACK_Payload_new acknack_message
      = Some (True, ?ak, acknack_message\<lparr>im_pos := 13\<rparr>)" by code_simp
    ultimately show ?thesis by simp
  qed
  have inv: "ro_inv (get_reliable_output_stream (pc_session waiting_client) (ak_stream_id ?ak)) [sent_message] 0 0"
  proof -
    have "ro_inv ReliableOutputStream_new [] 0 0" by (simp add: ro_inv_def ReliableOutputStream_new_def)
    from ro_append_inv [OF this, of "[sent_message]"] show ?thesis by (simp add: waiting_client_def)
  qed
  have rel: "is_reliable_stream (ak_stream_id ?ak)" by (simp add: is_reliable_stream_def STREAMID_BUILTIN_RELIABLE_def)
  have first: "ak_first_unacked_seq_num ?ak = of_nat 0" by simp
  obtain "is" se where r: "distinct is" "set is = {i. i < 16 \<and> nacked ?ak i \<and> 0 + i < length [sent_message]}"
    "process_acknack_submessage example_processor 7 acknack_message waiting_client (Agent_new example_server)
      = map_option (\<lambda>v. (True, acknack_message\<lparr>im_pos := 13\<rparr>, waiting_client\<lparr>pc_session := se\<rparr>, (Agent_new example_server)\<lparr>ag_server := v\<rparr>))
        (push_packets (map (\<lambda>i. packet_to (7 :: nat) ([sent_message] ! (0 + i))) is) (ag_server (Agent_new example_server :: (ced, nat) agent)))"
    using acknack_resends_missing [OF payload rel inv first le_refl le_refl, of 7 "Agent_new example_server"]
    by (elim exE conjE) (rule that)
  have "set is = {0}" unfolding r(2) by (auto simp: nacked_def)
  then obtain rest where "is = 0 # rest" by (cases "is") auto
  with r(1) \<open>set is = {0}\<close> have "is = [0]" by (cases rest) auto
  moreover obtain v where "push_output_packet (packet_to 7 sent_message) example_server = Some v" using example_push by blast
  ultimately show ?thesis using r(3)
    by (intro exI [of _ "acknack_message\<lparr>im_pos := 13\<rparr>"] exI [of _ se] exI [of _ v]) (simp add: Agent_new_def)
qed

end
