(* ===== verification/Agent_Heartbeat.thy ===== *)
theory Agent_Heartbeat
  imports Processor_Contracts
begin

text \<open>
  The heartbeat thread (\<open>Processor<EndPoint>::check_heartbeats\<close> of \<open>src/cpp/processor/Processor.cpp\<close> and
  \<open>Server<EndPoint>::heartbeat_loop\<close> of \<open>src/cpp/transport/Server.cpp\<close>): one pass over the clients sends the
  heartbeats of the streams of the clients that are alive, pings the clients with a hard liveliness check that are
  not, and removes those that have not answered three pings.  The local variables of the function live as long as
  the pass: header, heartbeat and destination keep what they were set to for the client before.
\<close>

subsection \<open>A pass\<close>

record 'e heartbeat_vars =
  hv_header :: MessageHeader
  hv_heartbeat :: HEARTBEAT_Payload
  hv_destination :: 'e

definition heartbeat_vars_new :: "'e \<Rightarrow> 'e heartbeat_vars" where
  "heartbeat_vars_new junk = \<lparr>hv_header = MessageHeader_new\<lparr>mh_stream_id := STREAMID_NONE, mh_sequence_nr := 0\<rparr>,
     hv_heartbeat = HEARTBEAT_Payload_new, hv_destination = junk\<rparr>"

text \<open>The size of the heartbeat messages, computed before the loop: with the header of a session with client key.\<close>

definition heartbeat_size :: nat where
  "heartbeat_size = mh_getCdrSerializedSize MessageHeader_new + sh_getCdrSerializedSize SubmessageHeader_new
     + HEARTBEAT_Payload_size HEARTBEAT_Payload_new 0"

definition sized_message :: "cdr \<Rightarrow> MessageHeader \<Rightarrow> nat \<Rightarrow> reply \<Rightarrow> OutputMessage" where
  "sized_message C header len r =
     snd (append_submessage C (reply_id r) (reply_submessage C r) FLAG_LITTLE_ENDIANNESS (OutputMessage_new C header len))"

fun heartbeat_streams :: "'w processor_env \<Rightarrow> MessageHeader \<Rightarrow> 'e \<Rightarrow> u8 list \<Rightarrow> HEARTBEAT_Payload \<Rightarrow> 'w ProxyClient
    \<Rightarrow> ('w, 'e) agent \<Rightarrow> (HEARTBEAT_Payload \<times> 'w ProxyClient \<times> ('w, 'e) agent) option" where
  "heartbeat_streams E header destination [] hb pc s = Some (hb, pc, s)"
| "heartbeat_streams E header destination (stream # streams) hb pc s =
     (case fill_heartbeat stream hb (pc_session pc) of
        ((filled, hb'), se) \<Rightarrow>
          (case (if filled then push_message destination (sized_message (pe_cdr E) header heartbeat_size (Reply_HEARTBEAT hb')) s
                 else Some s) of
             None \<Rightarrow> None
           | Some s' \<Rightarrow> heartbeat_streams E header destination streams hb' (pc\<lparr>pc_session := se\<rparr>) s'))"

text \<open>The third ping in a row that is sent to a client marks it for removal.\<close>

definition count_try :: "int \<Rightarrow> 'w ProxyClient \<Rightarrow> 'w ProxyClient" where
  "count_try now pc =
     (let pc' = pc\<lparr>pc_hard_liveliness_check_tries := pc_hard_liveliness_check_tries pc + 1\<rparr>
      in if pc_hard_liveliness_check_tries pc' = 3 then update_state now to_remove pc' else pc')"

text \<open>The ping; its size is computed with the header as the client before left it.\<close>

definition ping :: "cdr \<Rightarrow> MessageHeader \<Rightarrow> MessageHeader \<Rightarrow> OutputMessage" where
  "ping C previous_header header =
     (let get_info_payload = GET_INFO_Payload_new\<lparr>gi_request := \<lparr>bo_request_id = (0, 0), bo_object_id = OBJECTID_CLIENT\<rparr>\<rparr>;
          get_info_size = mh_getCdrSerializedSize previous_header + sh_getCdrSerializedSize SubmessageHeader_new
            + GET_INFO_Payload_size GET_INFO_Payload_new 0
      in sized_message C header get_info_size (Reply_GET_INFO get_info_payload))"

definition heartbeat_client :: "'w processor_env \<Rightarrow> int \<Rightarrow> 'w ProxyClient \<Rightarrow> 'e heartbeat_vars \<Rightarrow> ('w, 'e) agent
    \<Rightarrow> ('e heartbeat_vars \<times> ('w, 'e) agent) option" where
  "heartbeat_client E now client v s =
     (let key = cr_client_key (pc_representation client);
          raw_key = clientkey_to_raw key;
          (st, pc) = get_state now client;
          endpoint = get_endpoint raw_key (ag_sessions s);
          v1 = (case endpoint of None \<Rightarrow> v | Some e \<Rightarrow> v\<lparr>hv_destination := e\<rparr>);
          header = (hv_header v)\<lparr>mh_session_id := cr_session_id (pc_representation client), mh_client_key := key\<rparr>
      in if endpoint \<noteq> None \<and> st = alive
         then map_option (\<lambda>(hb, pc', s'). (v1\<lparr>hv_header := header, hv_heartbeat := hb\<rparr>, s'\<lparr>ag_root := update_client key pc' (ag_root s')\<rparr>))
                (heartbeat_streams E header (hv_destination v1) (get_output_streams (pe_stream_order E) (pc_session pc)) (hv_heartbeat v) pc s)
         else if pc_hard_liveliness_check pc \<and> st = dead
         then map_option (\<lambda>s'. (v1\<lparr>hv_header := header\<rparr>, s'\<lparr>ag_root := update_client key (count_try now pc) (ag_root s')\<rparr>))
                (push_message (hv_destination v1) (ping (pe_cdr E) (hv_header v) header) s)
         else if pc_hard_liveliness_check pc \<and> st = to_remove
         then case delete_client (pe_middleware E) (pe_object_order E) key (ag_root s) of
                (result, _, r) \<Rightarrow> Some (v1, s\<lparr>ag_root := r,
                  ag_sessions := (if result = STATUS_OK then destroy_session_key raw_key (ag_sessions s) else ag_sessions s)\<rparr>)
         else Some (v1, s\<lparr>ag_root := update_client key pc (ag_root s)\<rparr>))"

text \<open>The loop; \<open>now\<close> is the time at which it asks a client for its state.\<close>

partial_function (option) check_heartbeats_loop :: "'w processor_env \<Rightarrow> (ClientKey \<Rightarrow> int) \<Rightarrow> 'e heartbeat_vars \<Rightarrow> ('w, 'e) agent
    \<Rightarrow> ('w, 'e) agent option" where
  "check_heartbeats_loop E now v s =
     (case get_next_client (ag_root s) of
        None \<Rightarrow> None
      | Some (client, r) \<Rightarrow>
          (case client of
             None \<Rightarrow> Some (s\<lparr>ag_root := r\<rparr>)
           | Some pc \<Rightarrow>
               (case heartbeat_client E (now (cr_client_key (pc_representation pc))) pc v (s\<lparr>ag_root := r\<rparr>) of
                  None \<Rightarrow> None
                | Some (v', s') \<Rightarrow> check_heartbeats_loop E now v' s')))"

definition check_heartbeats :: "'w processor_env \<Rightarrow> (ClientKey \<Rightarrow> int) \<Rightarrow> 'e \<Rightarrow> ('w, 'e) agent \<Rightarrow> ('w, 'e) agent option" where
  "check_heartbeats E now junk s = check_heartbeats_loop E now (heartbeat_vars_new junk) s"

text \<open>The passes of the thread while the server runs, with nothing else happening in between.\<close>

fun heartbeat_loop :: "'w processor_env \<Rightarrow> (ClientKey \<Rightarrow> int) list \<Rightarrow> 'e \<Rightarrow> ('w, 'e) agent \<Rightarrow> ('w, 'e) agent option" where
  "heartbeat_loop E [] junk s = Some s"
| "heartbeat_loop E (now # clocks) junk s =
     (if srv_running_cond (ag_server s) then Option.bind (check_heartbeats E now junk s) (heartbeat_loop E clocks junk) else Some s)"

subsection \<open>The queue of the server\<close>

text \<open>A queue with room for a packet: \<open>push\<close> then always succeeds, if need be at the expense of the oldest one.\<close>

definition server_ready :: "'e Server \<Rightarrow> bool" where
  "server_ready v \<longleftrightarrow> 0 < ps_size (srv_output_scheduler v) 0"

lemma push_ready:
  assumes "server_ready v"
  shows "\<exists>v'. push_output_packet p v = Some v' \<and> server_ready v' \<and> srv_running_cond v' = srv_running_cond v"
proof (cases "op_message p")
  case (Some m)
  let ?q = "srv_output_scheduler v"
  have size: "ps_size (s\<lparr>ps_sizes := (ps_sizes s)(0 \<mapsto> n), ps_deque := d\<rparr>) 0 = n" for s :: "'a OutputPacket PacketScheduler" and n d
    by (simp add: ps_size_def)
  have "\<exists>q. sched_push p 0 ?q = Some q \<and> ps_size q 0 = ps_size ?q 0"
    using assms size by (auto simp: server_ready_def sched_push_def Let_def)
  with assms Some show ?thesis by (auto simp: push_output_packet_def server_ready_def)
qed (use assms in \<open>simp add: push_output_packet_def\<close>)

lemma push_packets_ready:
  "server_ready v \<Longrightarrow> \<exists>v'. push_packets ps v = Some v' \<and> server_ready v' \<and> srv_running_cond v' = srv_running_cond v"
proof (induction ps arbitrary: v)
  case (Cons p ps)
  from push_ready [OF Cons.prems, of p] obtain v1 where
    v1: "push_output_packet p v = Some v1" "server_ready v1" "srv_running_cond v1 = srv_running_cond v" by blast
  with Cons.IH [OF v1(2)] show ?case by simp
qed simp

subsection \<open>What a client is sent\<close>

text \<open>A heartbeat for a stream announces the window of unacknowledged messages.\<close>

definition stream_heartbeat :: "u8 \<Rightarrow> Session \<Rightarrow> HEARTBEAT_Payload" where
  "stream_heartbeat sid se = (let ro = get_reliable_output_stream se sid
     in \<lparr>hb_first_unacked_seq_nr = ro_first_unacked ro, hb_last_unacked_seq_nr = ro_last_unacked ro, hb_stream_id = sid\<rparr>)"

definition unacknowledged :: "Session \<Rightarrow> u8 \<Rightarrow> bool" where
  "unacknowledged se sid \<longleftrightarrow> is_reliable_stream sid \<and> ro_messages (get_reliable_output_stream se sid) \<noteq> Map.empty"

definition heartbeat_packet :: "cdr \<Rightarrow> MessageHeader \<Rightarrow> 'e \<Rightarrow> Session \<Rightarrow> u8 \<Rightarrow> 'e OutputPacket" where
  "heartbeat_packet C header destination se sid =
     packet_to destination (sized_message C header heartbeat_size (Reply_HEARTBEAT (stream_heartbeat sid se)))"

lemma set_ostream_same: "sid \<in> dom (se_reliable_ostreams se) \<Longrightarrow> set_reliable_ostream sid (get_reliable_output_stream se sid) se = se"
  by (auto simp: set_reliable_ostream_def get_reliable_output_stream_def fun_upd_idem)

lemma fill_heartbeat_kept:
  assumes "is_reliable_stream sid \<Longrightarrow> sid \<in> dom (se_reliable_ostreams se)"
  shows "\<exists>hb'. fill_heartbeat sid hb se = ((unacknowledged se sid, hb'), se)
    \<and> (unacknowledged se sid \<longrightarrow> hb' = stream_heartbeat sid se)"
  using set_ostream_same [OF assms]
  by (auto simp: fill_heartbeat_def ro_fill_heartbeat_def unacknowledged_def stream_heartbeat_def Let_def)

lemma heartbeat_streams_packets:
  assumes "\<forall>sid\<in>set streams. is_reliable_stream sid \<longrightarrow> sid \<in> dom (se_reliable_ostreams (pc_session pc))"
  shows "\<exists>hb'. heartbeat_streams E header destination streams hb pc s = map_option (\<lambda>v. (hb', pc, s\<lparr>ag_server := v\<rparr>))
      (push_packets (map (heartbeat_packet (pe_cdr E) header destination (pc_session pc))
        (filter (unacknowledged (pc_session pc)) streams)) (ag_server s))"
  using assms
proof (induction streams arbitrary: hb s)
  case (Cons sid streams)
  let ?se = "pc_session pc"
  from fill_heartbeat_kept [of sid ?se hb] Cons.prems obtain hb1 where
    hb1: "fill_heartbeat sid hb ?se = ((unacknowledged ?se sid, hb1), ?se)" "unacknowledged ?se sid \<Longrightarrow> hb1 = stream_heartbeat sid ?se"
    by auto
  have pc: "pc\<lparr>pc_session := ?se\<rparr> = pc" by simp
  show ?case
  proof (cases "unacknowledged ?se sid")
    case False
    from Cons.IH [of hb1 s] Cons.prems hb1(1) False pc show ?thesis by auto
  next
    case True
    let ?p = "heartbeat_packet (pe_cdr E) header destination ?se sid"
    show ?thesis
    proof (cases "push_output_packet ?p (ag_server s)")
      case None
      with True hb1 show ?thesis by (auto simp: push_message_def heartbeat_packet_def)
    next
      case (Some v)
      from Cons.IH [of hb1 "s\<lparr>ag_server := v\<rparr>"] Cons.prems True hb1 Some pc show ?thesis
        by (auto simp: push_message_def heartbeat_packet_def)
    qed
  qed
qed simp

subsection \<open>What becomes of a client\<close>

text \<open>The specification of a pass for one client (\<open>None\<close>: it is removed).\<close>

definition after_heartbeat :: "int \<Rightarrow> 'w ProxyClient \<Rightarrow> 'w ProxyClient option" where
  "after_heartbeat now client =
     (let (st, pc) = get_state now client
      in if pc_hard_liveliness_check pc \<and> st = dead then Some (count_try now pc)
         else if pc_hard_liveliness_check pc \<and> st = to_remove then None
         else Some pc)"

definition stream_order_ok :: "'w processor_env \<Rightarrow> bool" where
  "stream_order_ok E \<longleftrightarrow> (\<forall>S. set (pe_stream_order E S) \<subseteq> S)"

lemma get_state_kept:
  assumes "get_state now client = (st, pc)"
  shows "pc_representation pc = pc_representation client" "pc_session pc = pc_session client" "st = pc_state pc"
    "pc_hard_liveliness_check pc = pc_hard_liveliness_check client"
    "pc_hard_liveliness_check_tries pc = pc_hard_liveliness_check_tries client"
    "pc_timestamp pc = pc_timestamp client" "pc_client_dead_time pc = pc_client_dead_time client"
  using assms by (auto simp: get_state_def Let_def split: if_splits)

lemma count_try_kept:
  "pc_representation (count_try now pc) = pc_representation pc" "pc_session (count_try now pc) = pc_session pc"
  "pc_hard_liveliness_check (count_try now pc) = pc_hard_liveliness_check pc"
  "pc_hard_liveliness_check_tries (count_try now pc) = pc_hard_liveliness_check_tries pc + 1"
  "pc_state (count_try now pc) = (if pc_hard_liveliness_check_tries pc + 1 = 3 then to_remove else pc_state pc)"
  by (simp_all add: count_try_def update_state_def Let_def)

lemma after_heartbeat_kept:
  assumes "after_heartbeat now client = Some pc"
  shows "pc_representation pc = pc_representation client" "pc_session pc = pc_session client"
  using assms get_state_kept [of now client]
  by (auto simp: after_heartbeat_def count_try_kept split: prod.splits if_splits)

lemma output_streams_open:
  assumes "stream_order_ok E"
  shows "\<forall>sid\<in>set (get_output_streams (pe_stream_order E) se). is_reliable_stream sid \<longrightarrow> sid \<in> dom (se_reliable_ostreams se)"
proof -
  have "\<not> is_reliable_stream 0" by (simp add: is_reliable_stream_def STREAMID_BUILTIN_RELIABLE_def)
  then show ?thesis using assms by (auto simp: stream_order_ok_def get_output_streams_def Let_def)
qed

text \<open>What holds between the iterations of the loop: only the queue of the server may change besides the clients.\<close>

definition same_but_queue :: "('w, 'e) agent \<Rightarrow> ('w, 'e) agent \<Rightarrow> bool" where
  "same_but_queue s s' \<longleftrightarrow> server_ready (ag_server s') \<and> srv_running_cond (ag_server s') = srv_running_cond (ag_server s)"

definition fate :: "ClientKey \<Rightarrow> 'w ProxyClient option \<Rightarrow> ('w, 'e) agent \<Rightarrow> ('w, 'e) agent \<Rightarrow> bool" where
  "fate key r s s' \<longleftrightarrow> rt_current_client (ag_root s') = rt_current_client (ag_root s)
     \<and> (case r of
          Some pc \<Rightarrow> rt_clients (ag_root s') = om_set key pc (rt_clients (ag_root s)) \<and> ag_sessions s' = ag_sessions s
        | None \<Rightarrow> rt_clients (ag_root s') = om_erase key (rt_clients (ag_root s))
            \<and> ag_sessions s' = destroy_session_key (clientkey_to_raw key) (ag_sessions s))"

lemma heartbeat_client_fate:
  assumes "server_ready (ag_server s)" and "stream_order_ok E" and "get_client key (ag_root s) = Some client0"
    and "key = cr_client_key (pc_representation client)" and "rt_current_client (ag_root s) \<noteq> Some key"
  shows "\<exists>v' s'. heartbeat_client E now client v s = Some (v', s') \<and> same_but_queue s s' \<and> fate key (after_heartbeat now client) s s'"
proof -
  obtain st pc where st: "get_state now client = (st, pc)" by fastforce
  note kept = get_state_kept [OF st]
  let ?e = "get_endpoint (clientkey_to_raw key) (ag_sessions s)"
  let ?v1 = "case ?e of None \<Rightarrow> v | Some e \<Rightarrow> v\<lparr>hv_destination := e\<rparr>"
  let ?header = "(hv_header v)\<lparr>mh_session_id := cr_session_id (pc_representation client), mh_client_key := key\<rparr>"
  have update: "fate key (Some pc') s (s\<lparr>ag_server := v', ag_root := update_client key pc' (ag_root s)\<rparr>)" for pc' v'
    using assms(3) by (simp add: fate_def update_client_def)
  consider (alive) "?e \<noteq> None" "st = alive" | (dead) "pc_hard_liveliness_check pc" "st = dead"
    | (gone) "pc_hard_liveliness_check pc" "st = to_remove"
    | (other) "\<not> (?e \<noteq> None \<and> st = alive)" "\<not> (pc_hard_liveliness_check pc \<and> st = dead)" "\<not> (pc_hard_liveliness_check pc \<and> st = to_remove)"
    by blast
  then show ?thesis
  proof cases
    case alive
    let ?streams = "get_output_streams (pe_stream_order E) (pc_session pc)"
    from heartbeat_streams_packets [where streams = ?streams and pc = pc and E = E and header = ?header
        and destination = "hv_destination ?v1" and hb = "hv_heartbeat v" and s = s, OF output_streams_open [OF assms(2)]]
    obtain hb where hb: "heartbeat_streams E ?header (hv_destination ?v1) ?streams (hv_heartbeat v) pc s
        = map_option (\<lambda>v. (hb, pc, s\<lparr>ag_server := v\<rparr>))
          (push_packets (map (heartbeat_packet (pe_cdr E) ?header (hv_destination ?v1) (pc_session pc))
            (filter (unacknowledged (pc_session pc)) ?streams)) (ag_server s))" by blast
    from push_packets_ready [OF assms(1)] obtain v' where v': "push_packets (map (heartbeat_packet (pe_cdr E) ?header (hv_destination ?v1) (pc_session pc))
            (filter (unacknowledged (pc_session pc)) ?streams)) (ag_server s) = Some v'" "server_ready v'"
        "srv_running_cond v' = srv_running_cond (ag_server s)" by blast
    have "after_heartbeat now client = Some pc" using alive st by (simp add: after_heartbeat_def)
    then show ?thesis using alive st hb v' update [of pc v'] assms(4)
      by (simp add: heartbeat_client_def Let_def same_but_queue_def)
  next
    case dead
    from push_ready [OF assms(1)] obtain v' where
      "push_output_packet (packet_to (hv_destination ?v1) (ping (pe_cdr E) (hv_header v) ?header)) (ag_server s) = Some v'"
      "server_ready v'" "srv_running_cond v' = srv_running_cond (ag_server s)" by blast
    moreover have "after_heartbeat now client = Some (count_try now pc)" using dead st by (simp add: after_heartbeat_def)
    ultimately show ?thesis using dead st update [of "count_try now pc" v'] assms(4)
      by (simp add: heartbeat_client_def Let_def same_but_queue_def push_message_def)
  next
    case gone
    then have "after_heartbeat now client = None" using st by (simp add: after_heartbeat_def)
    then show ?thesis using gone st assms by (simp add: heartbeat_client_def Let_def same_but_queue_def fate_def delete_client_def)
  next
    case other
    then have "after_heartbeat now client = Some pc" using st by (auto simp: after_heartbeat_def)
    moreover have "s\<lparr>ag_server := ag_server s, ag_root := r\<rparr> = s\<lparr>ag_root := r\<rparr>" for r by simp
    ultimately show ?thesis using other st update [of pc "ag_server s"] assms(1,4)
      by (auto simp: heartbeat_client_def Let_def same_but_queue_def)
  qed
qed

text \<open>The header of the messages of a pass to a client, and what the client is sent: heartbeats while it is alive,
  a ping when it is dead and has the liveliness check, nothing otherwise.  The size of a ping depends on the
  session that the header was set to before.\<close>

definition client_header :: "'w ProxyClient \<Rightarrow> MessageHeader" where
  "client_header client = \<lparr>mh_session_id = cr_session_id (pc_representation client), mh_stream_id = STREAMID_NONE,
     mh_sequence_nr = 0, mh_client_key = cr_client_key (pc_representation client)\<rparr>"

definition client_sends :: "'w processor_env \<Rightarrow> int \<Rightarrow> 'e option \<Rightarrow> 'w ProxyClient \<Rightarrow> 'e OutputPacket list \<Rightarrow> bool" where
  "client_sends E now endpoint client ps \<longleftrightarrow> (case get_state now client of (st, pc) \<Rightarrow>
     if endpoint \<noteq> None \<and> st = alive
     then ps = map (heartbeat_packet (pe_cdr E) (client_header client) (the endpoint) (pc_session client))
       (filter (unacknowledged (pc_session client)) (get_output_streams (pe_stream_order E) (pc_session client)))
     else if pc_hard_liveliness_check client \<and> st = dead
     then \<exists>destination previous. (endpoint \<noteq> None \<longrightarrow> endpoint = Some destination)
       \<and> ps = [packet_to destination (ping (pe_cdr E) previous (client_header client))]
     else ps = [])"

definition vars_ok :: "'e heartbeat_vars \<Rightarrow> bool" where
  "vars_ok v \<longleftrightarrow> mh_stream_id (hv_header v) = STREAMID_NONE \<and> mh_sequence_nr (hv_header v) = 0"

lemma vars_ok_new: "vars_ok (heartbeat_vars_new junk)"
  by (simp add: vars_ok_def heartbeat_vars_new_def)

lemma heartbeat_client_sends:
  assumes "heartbeat_client E now client v s = Some (v', s')" and "stream_order_ok E" and "vars_ok v"
  shows "vars_ok v' \<and> (\<exists>ps. push_packets ps (ag_server s) = Some (ag_server s')
    \<and> client_sends E now (get_endpoint (clientkey_to_raw (cr_client_key (pc_representation client))) (ag_sessions s)) client ps)"
proof -
  obtain st pc where st: "get_state now client = (st, pc)" by fastforce
  note kept = get_state_kept [OF st]
  let ?key = "cr_client_key (pc_representation client)"
  let ?e = "get_endpoint (clientkey_to_raw ?key) (ag_sessions s)"
  let ?v1 = "case ?e of None \<Rightarrow> v | Some e \<Rightarrow> v\<lparr>hv_destination := e\<rparr>"
  have header: "(hv_header v)\<lparr>mh_session_id := cr_session_id (pc_representation client), mh_client_key := ?key\<rparr> = client_header client"
    using assms(3) by (simp add: vars_ok_def client_header_def)
  have v1: "vars_ok ?v1" "vars_ok (x\<lparr>hv_header := client_header client\<rparr>)" "vars_ok (x\<lparr>hv_header := client_header client, hv_heartbeat := hb\<rparr>)" for x hb
    using assms(3) by (simp_all add: vars_ok_def client_header_def split: option.split)
  consider (alive) "?e \<noteq> None" "st = alive" | (dead) "\<not> (?e \<noteq> None \<and> st = alive)" "pc_hard_liveliness_check pc" "st = dead"
    | (other) "\<not> (?e \<noteq> None \<and> st = alive)" "\<not> (pc_hard_liveliness_check pc \<and> st = dead)" by blast
  then show ?thesis
  proof cases
    case alive
    let ?streams = "get_output_streams (pe_stream_order E) (pc_session pc)"
    from heartbeat_streams_packets [where streams = ?streams and pc = pc and E = E and header = "client_header client"
        and destination = "hv_destination ?v1" and hb = "hv_heartbeat v" and s = s, OF output_streams_open [OF assms(2)]]
    obtain hb where "heartbeat_streams E (client_header client) (hv_destination ?v1) ?streams (hv_heartbeat v) pc s
        = map_option (\<lambda>v. (hb, pc, s\<lparr>ag_server := v\<rparr>))
          (push_packets (map (heartbeat_packet (pe_cdr E) (client_header client) (hv_destination ?v1) (pc_session pc))
            (filter (unacknowledged (pc_session pc)) ?streams)) (ag_server s))" by blast
    then show ?thesis using assms(1) alive st kept v1
      by (auto simp: heartbeat_client_def Let_def header client_sends_def)
  next
    case dead
    let ?p = "packet_to (hv_destination ?v1) (ping (pe_cdr E) (hv_header v) (client_header client))"
    have "v' = ?v1\<lparr>hv_header := client_header client\<rparr> \<and> push_output_packet ?p (ag_server s) = Some (ag_server s')"
      using assms(1) dead st unfolding heartbeat_client_def Let_def header
      by (auto simp: push_message_def split: if_splits)
    moreover have "client_sends E now ?e client [?p]"
      using dead st kept(4) unfolding client_sends_def
      by (simp split del: if_split) (auto split: option.split)
    ultimately show ?thesis using v1(2) by (intro conjI exI [of _ "[?p]"]) simp_all
  next
    case other
    then show ?thesis using assms(1) st kept v1
      by (auto simp: heartbeat_client_def Let_def header client_sends_def split: if_splits prod.splits
          intro!: exI [of _ "[] :: 'b OutputPacket list"])
  qed
qed

subsection \<open>The whole pass\<close>

lemma om_keys_set: "om_ok xs \<Longrightarrow> map_of xs k \<noteq> None \<Longrightarrow> map fst (om_set k v xs) = map fst xs"
proof (induction xs)
  case (Cons p xs)
  obtain a b where p: "p = (a, b)" by fastforce
  have "a < k" if "map_of xs k = Some y" for y using map_of_SomeD [OF that] Cons.prems(1) p by force
  then show ?case using Cons p by (auto simp: om_set_Cons split: if_splits)
qed simp

lemma om_rest_keys: "map fst (om_rest it xs) = (case it of None \<Rightarrow> [] | Some k \<Rightarrow> dropWhile (\<lambda>x. x < k) (map fst xs))"
  by (auto simp: om_rest_def dropWhile_map o_def split: option.split)

lemma om_rest_member: "om_ok xs \<Longrightarrow> k \<in> set (map fst (om_rest it xs)) \<Longrightarrow> map_of xs k \<noteq> None"
  by (auto simp: om_rest_def map_of_eq_None_iff dest: set_dropWhileD split: option.splits)

lemma om_next_rest: "k \<notin> set (map fst (om_rest (om_next k xs) xs))"  if "om_ok xs" "map_of xs k = Some v"
proof -
  have "distinct (map fst (om_rest (Some k) xs))"
    using om_ok_distinct [OF that(1)] by (simp add: om_rest_keys del: map_map)
  then show ?thesis using om_rest_step [OF that] by simp
qed

lemma om_next_other: "om_ok xs \<Longrightarrow> map_of xs k = Some v \<Longrightarrow> om_next k xs \<noteq> Some k"
  using om_next_rest om_rest_step by fastforce

text \<open>The entries that the loop has still to visit are not affected by what becomes of the current one.\<close>

lemma fate_rest:
  assumes "om_ok (rt_clients (ag_root s))" and "map_of (rt_clients (ag_root s)) key = Some pc0" and "fate key r s s'"
    and "key \<notin> set (map fst (om_rest it (rt_clients (ag_root s))))"
  shows "map fst (om_rest it (rt_clients (ag_root s'))) = map fst (om_rest it (rt_clients (ag_root s)))"
proof (cases r)
  case None
  then have "om_rest it (rt_clients (ag_root s')) = om_erase key (om_rest it (rt_clients (ag_root s)))"
    using assms(1,3) om_rest_erase by (simp add: fate_def)
  moreover have "om_erase key (om_rest it (rt_clients (ag_root s))) = om_rest it (rt_clients (ag_root s))"
    by (rule om_erase_absent) (use assms(4) in \<open>simp add: map_of_eq_None_iff\<close>)
  ultimately show ?thesis by simp
next
  case (Some pc)
  then show ?thesis using assms(1-3) om_keys_set [of "rt_clients (ag_root s)" key pc] by (simp add: fate_def om_rest_keys split: option.split)
qed

lemma fate_client:
  assumes "om_ok (rt_clients (ag_root s))" and "fate key r s s'"
  shows "get_client k (ag_root s') = (if k = key then r else get_client k (ag_root s))"
  using assms by (auto simp: fate_def get_client_def map_of_om_set map_of_om_erase split: option.splits)

lemma fate_agent_ok:
  assumes "agent_ok s" and "get_client key (ag_root s) = Some pc0" and "fate key (after_heartbeat now pc0) s s'"
    and "rt_current_client (ag_root s) \<noteq> Some key"
  shows "agent_ok s'"
proof -
  have ok: "root_ok (ag_root s)" "om_ok (rt_clients (ag_root s))" using assms(1) by (auto simp: agent_ok_def root_ok_def)
  have entry: "cr_client_key (pc_representation pc) = k \<and> client_accepted (pc_representation pc) \<and> inputs_ok (pc_session pc)"
    if "get_client k (ag_root s') = Some pc" for k pc
    using that assms(1,2) ok fate_client [OF ok(2) assms(3)] after_heartbeat_kept [of now pc0 pc]
    by (auto simp: agent_ok_def root_ok_def split: if_splits)
  have "om_ok (rt_clients (ag_root s'))"
    using assms(3) ok(2) by (auto simp: fate_def om_ok_set om_ok_erase split: option.splits)
  moreover have "om_valid (rt_current_client (ag_root s')) (rt_clients (ag_root s'))"
    using ok assms(3,4) fate_client [OF ok(2) assms(3)]
    by (cases "rt_current_client (ag_root s)") (auto simp: fate_def root_ok_def get_client_def)
  ultimately show ?thesis using entry by (auto simp: agent_ok_def root_ok_def)
qed

text \<open>The sessions after the clients in \<open>gone\<close> have been removed.\<close>

definition sessions_without :: "ClientKey set \<Rightarrow> 'e SessionManager \<Rightarrow> 'e SessionManager \<Rightarrow> bool" where
  "sessions_without gone ss ss' \<longleftrightarrow>
     (\<forall>raw. get_endpoint raw ss' = (if raw \<in> clientkey_to_raw ` gone then None else get_endpoint raw ss))"

lemma sessions_without_key:
  "sessions_without gone (destroy_session_key (clientkey_to_raw key) ss) ss' \<Longrightarrow> sessions_without (insert key gone) ss ss'"
  by (auto simp: sessions_without_def destroy_session_key_def get_endpoint_def split: option.splits if_splits)

text \<open>One iteration of the loop.\<close>

lemma heartbeat_visit:
  assumes "agent_ok s" and "server_ready (ag_server s)" and "stream_order_ok E"
    and "map fst (om_rest (rt_current_client (ag_root s)) (rt_clients (ag_root s))) = k # ks"
  shows "\<exists>pc v1 s1. check_heartbeats_loop E now v s = check_heartbeats_loop E now v1 s1 \<and> agent_ok s1 \<and> same_but_queue s s1
    \<and> get_client k (ag_root s) = Some pc \<and> k \<notin> set ks
    \<and> ks = map fst (om_rest (rt_current_client (ag_root s1)) (rt_clients (ag_root s1)))
    \<and> (\<forall>j. get_client j (ag_root s1) = (if j = k then after_heartbeat (now k) pc else get_client j (ag_root s)))
    \<and> ag_sessions s1 = (if after_heartbeat (now k) pc = None then destroy_session_key (clientkey_to_raw k) (ag_sessions s) else ag_sessions s)
    \<and> (vars_ok v \<longrightarrow> vars_ok v1 \<and> (\<exists>ps. push_packets ps (ag_server s) = Some (ag_server s1)
        \<and> client_sends E (now k) (get_endpoint (clientkey_to_raw k) (ag_sessions s)) pc ps))"
proof -
  note root = assms(1) [unfolded agent_ok_def, THEN conjunct1]
  let ?xs = "rt_clients (ag_root s)"
  have om: "om_ok ?xs" using root by (simp add: root_ok_def)
  obtain k' where k': "rt_current_client (ag_root s) = Some k'" using assms(4) by (cases "rt_current_client (ag_root s)") auto
  then obtain pc where pc: "map_of ?xs k' = Some pc" using root by (auto simp: root_ok_def)
  have k: "k' = k" and ks: "ks = map fst (om_rest (om_next k ?xs) ?xs)"
    using assms(4) k' om_rest_step [OF om pc] by auto
  note pc = pc [unfolded k]
  let ?r = "(ag_root s)\<lparr>rt_current_client := om_next k ?xs\<rparr>" and ?s = "s\<lparr>ag_root := (ag_root s)\<lparr>rt_current_client := om_next k ?xs\<rparr>\<rparr>"
  have n: "get_next_client (ag_root s) = Some (Some pc, ?r)" using k k' pc by (simp add: get_next_client_def get_client_def)
  have ok: "agent_ok ?s" using assms(1) root_ok_current [OF root om_next_valid, of k] by (simp add: agent_ok_def get_client_def)
  have key: "k = cr_client_key (pc_representation pc)" using root pc by (simp add: root_ok_def get_client_def)
  have found: "get_client k (ag_root ?s) = Some pc" using pc by (simp add: get_client_def)
  have cur: "rt_current_client (ag_root ?s) \<noteq> Some k" using om_next_other [OF om pc] by simp
  from heartbeat_client_fate [OF _ assms(3) found key cur, of "now k" v] assms(2) obtain v1 s1 where
    s1: "heartbeat_client E (now k) pc v ?s = Some (v1, s1)" "same_but_queue ?s s1" "fate k (after_heartbeat (now k) pc) ?s s1" by auto
  have "ks = map fst (om_rest (rt_current_client (ag_root s1)) (rt_clients (ag_root s1)))"
    using fate_rest [OF _ _ s1(3), of pc "om_next k ?xs"] om pc om_next_rest [OF om pc] s1(3) ks by (simp add: fate_def)
  moreover have "get_client j (ag_root s1) = (if j = k then after_heartbeat (now k) pc else get_client j (ag_root s))" for j
    using fate_client [OF _ s1(3), of j] om by (simp add: get_client_def)
  moreover have "check_heartbeats_loop E now v s = check_heartbeats_loop E now v1 s1"
    using n s1(1) by (subst check_heartbeats_loop.simps) (simp add: key [symmetric])
  moreover have "ag_sessions s1 = (if after_heartbeat (now k) pc = None then destroy_session_key (clientkey_to_raw k) (ag_sessions s) else ag_sessions s)"
    using s1(3) by (simp add: fate_def split: option.splits)
  moreover have "vars_ok v1 \<and> (\<exists>ps. push_packets ps (ag_server s) = Some (ag_server s1)
        \<and> client_sends E (now k) (get_endpoint (clientkey_to_raw k) (ag_sessions s)) pc ps)" if "vars_ok v"
    using heartbeat_client_sends [OF s1(1) assms(3) that] by (simp flip: key)
  ultimately show ?thesis using fate_agent_ok [OF ok found s1(3) cur] s1(2) pc om_next_rest [OF om pc] ks
    by (intro exI [of _ pc] exI [of _ v1] exI [of _ s1]) (simp add: same_but_queue_def get_client_def)
qed

lemma check_heartbeats_loop_ends:
  assumes "agent_ok s" and "server_ready (ag_server s)" and "stream_order_ok E"
    and "ks = map fst (om_rest (rt_current_client (ag_root s)) (rt_clients (ag_root s)))"
  shows "\<exists>s'. check_heartbeats_loop E now v s = Some s' \<and> agent_ok s' \<and> same_but_queue s s'
    \<and> rt_current_client (ag_root s') = om_begin (rt_clients (ag_root s'))
    \<and> (\<forall>k. get_client k (ag_root s') = (if k \<in> set ks then Option.bind (get_client k (ag_root s)) (after_heartbeat (now k))
          else get_client k (ag_root s)))
    \<and> sessions_without {k. get_client k (ag_root s) \<noteq> None \<and> get_client k (ag_root s') = None} (ag_sessions s) (ag_sessions s')"
  using assms
proof (induction ks arbitrary: s v)
  case Nil
  note root = Nil.prems(1) [unfolded agent_ok_def, THEN conjunct1]
  have "rt_current_client (ag_root s) = None"
  proof (cases "rt_current_client (ag_root s)")
    case (Some k)
    then obtain pc where "map_of (rt_clients (ag_root s)) k = Some pc" using root by (auto simp: root_ok_def)
    then show ?thesis using om_rest_step [of "rt_clients (ag_root s)" k pc] Nil.prems(4) Some root by (simp add: root_ok_def)
  qed
  then have n: "get_next_client (ag_root s) = Some (None, (ag_root s)\<lparr>rt_current_client := om_begin (rt_clients (ag_root s))\<rparr>)"
    by (simp add: get_next_client_def)
  let ?s = "s\<lparr>ag_root := (ag_root s)\<lparr>rt_current_client := om_begin (rt_clients (ag_root s))\<rparr>\<rparr>"
  have "agent_ok ?s" using Nil.prems(1) root_ok_current [OF root, of "om_begin (rt_clients (ag_root s))"]
    by (simp add: agent_ok_def get_client_def)
  then show ?case using n Nil.prems(2)
    by (subst check_heartbeats_loop.simps) (auto simp: same_but_queue_def get_client_def sessions_without_def)
next
  case (Cons k ks)
  from heartbeat_visit [OF Cons.prems(1-3) Cons.prems(4) [symmetric], of now v] obtain pc v1 s1 where
    visit: "check_heartbeats_loop E now v s = check_heartbeats_loop E now v1 s1" and ok1: "agent_ok s1" and
    queue: "same_but_queue s s1" and pc: "get_client k (ag_root s) = Some pc" "k \<notin> set ks" and
    rest: "ks = map fst (om_rest (rt_current_client (ag_root s1)) (rt_clients (ag_root s1)))" and
    c1: "\<And>j. get_client j (ag_root s1) = (if j = k then after_heartbeat (now k) pc else get_client j (ag_root s))" and
    ss1: "ag_sessions s1 = (if after_heartbeat (now k) pc = None then destroy_session_key (clientkey_to_raw k) (ag_sessions s) else ag_sessions s)"
    by blast
  from Cons.IH [OF ok1 _ Cons.prems(3) rest, of v1] queue obtain s' where
    s': "check_heartbeats_loop E now v1 s1 = Some s'" "agent_ok s'" "same_but_queue s1 s'"
      "rt_current_client (ag_root s') = om_begin (rt_clients (ag_root s'))"
      "\<And>j. get_client j (ag_root s') = (if j \<in> set ks then Option.bind (get_client j (ag_root s1)) (after_heartbeat (now j)) else get_client j (ag_root s1))"
      "sessions_without {j. get_client j (ag_root s1) \<noteq> None \<and> get_client j (ag_root s') = None} (ag_sessions s1) (ag_sessions s')"
    by (auto simp: same_but_queue_def)
  have clients: "get_client j (ag_root s') = (if j \<in> set (k # ks) then Option.bind (get_client j (ag_root s)) (after_heartbeat (now j))
      else get_client j (ag_root s))" for j
    using s'(5) [of j] c1 [of j] pc by auto
  have "{j. get_client j (ag_root s) \<noteq> None \<and> get_client j (ag_root s') = None}
      = (if after_heartbeat (now k) pc = None then insert k else id) {j. get_client j (ag_root s1) \<noteq> None \<and> get_client j (ag_root s') = None}"
    using c1 clients [of k] pc by auto
  then have "sessions_without {j. get_client j (ag_root s) \<noteq> None \<and> get_client j (ag_root s') = None} (ag_sessions s) (ag_sessions s')"
    using s'(6) ss1 by (auto intro: sessions_without_key)
  then show ?case using s'(1-4) visit queue clients by (auto simp: same_but_queue_def)
qed

text \<open>What is put into the queue in a pass: for every client in turn, what it is sent.\<close>

lemma get_endpoint_destroy: "raw \<noteq> raw' \<Longrightarrow> get_endpoint raw (destroy_session_key raw' ss) = get_endpoint raw ss"
  by (simp add: destroy_session_key_def get_endpoint_def split: option.split)

lemma check_heartbeats_loop_sends:
  assumes "agent_ok s" and "server_ready (ag_server s)" and "stream_order_ok E" and "vars_ok v"
    and "inj_on clientkey_to_raw (set ks)" and "ks = map fst (om_rest (rt_current_client (ag_root s)) (rt_clients (ag_root s)))"
    and "check_heartbeats_loop E now v s = Some s'"
  shows "\<exists>sent. push_packets (concat (map sent ks)) (ag_server s) = Some (ag_server s')
    \<and> (\<forall>k\<in>set ks. \<forall>pc. get_client k (ag_root s) = Some pc
        \<longrightarrow> client_sends E (now k) (get_endpoint (clientkey_to_raw k) (ag_sessions s)) pc (sent k))"
  using assms
proof (induction ks arbitrary: s v)
  case Nil
  have "rt_current_client (ag_root s) = None"
  proof (cases "rt_current_client (ag_root s)")
    case (Some k)
    have root: "root_ok (ag_root s)" using Nil.prems(1) by (simp add: agent_ok_def)
    then obtain pc where "map_of (rt_clients (ag_root s)) k = Some pc" using Some by (auto simp: root_ok_def)
    then show ?thesis using om_rest_step [of "rt_clients (ag_root s)" k pc] Nil.prems(6) Some root by (simp add: root_ok_def)
  qed
  then have "get_next_client (ag_root s) = Some (None, (ag_root s)\<lparr>rt_current_client := om_begin (rt_clients (ag_root s))\<rparr>)"
    by (simp add: get_next_client_def)
  then have "s' = s\<lparr>ag_root := (ag_root s)\<lparr>rt_current_client := om_begin (rt_clients (ag_root s))\<rparr>\<rparr>"
    using Nil.prems(7) by (simp add: check_heartbeats_loop.simps [of E now v s])
  then show ?case by simp
next
  case (Cons k ks)
  from heartbeat_visit [OF Cons.prems(1-3) Cons.prems(6) [symmetric], of now v] Cons.prems(4) obtain pc v1 s1 ps where
    visit: "check_heartbeats_loop E now v s = check_heartbeats_loop E now v1 s1" and ok1: "agent_ok s1" and
    queue: "same_but_queue s s1" and pc: "get_client k (ag_root s) = Some pc" "k \<notin> set ks" and
    rest: "ks = map fst (om_rest (rt_current_client (ag_root s1)) (rt_clients (ag_root s1)))" and
    c1: "\<And>j. get_client j (ag_root s1) = (if j = k then after_heartbeat (now k) pc else get_client j (ag_root s))" and
    ss1: "ag_sessions s1 = (if after_heartbeat (now k) pc = None then destroy_session_key (clientkey_to_raw k) (ag_sessions s) else ag_sessions s)" and
    sends: "vars_ok v1" "push_packets ps (ag_server s) = Some (ag_server s1)"
      "client_sends E (now k) (get_endpoint (clientkey_to_raw k) (ag_sessions s)) pc ps"
    by metis
  have ready: "server_ready (ag_server s1)" using queue by (simp add: same_but_queue_def)
  have inj: "inj_on clientkey_to_raw (set ks)" using Cons.prems(5) by simp
  from Cons.IH [OF ok1 ready Cons.prems(3) sends(1) inj rest] Cons.prems(7) visit obtain sent where
    sent: "push_packets (concat (map sent ks)) (ag_server s1) = Some (ag_server s')"
      "\<forall>j\<in>set ks. \<forall>pc. get_client j (ag_root s1) = Some pc
        \<longrightarrow> client_sends E (now j) (get_endpoint (clientkey_to_raw j) (ag_sessions s1)) pc (sent j)" by auto
  have same: "map (sent(k := ps)) ks = map sent ks" using pc(2) by simp
  have "push_packets (concat (map (sent(k := ps)) (k # ks))) (ag_server s) = Some (ag_server s')"
    using sends(2) sent(1) unfolding list.map same by (simp add: push_packets_append)
  moreover have "client_sends E (now j) (get_endpoint (clientkey_to_raw j) (ag_sessions s)) pc' ((sent(k := ps)) j)"
    if j: "j \<in> set (k # ks)" "get_client j (ag_root s) = Some pc'" for j pc'
  proof (cases "j = k")
    case True
    with j pc sends(3) show ?thesis by simp
  next
    case False
    then have "clientkey_to_raw j \<noteq> clientkey_to_raw k" using j(1) Cons.prems(5) by (auto simp: inj_on_def)
    then have "get_endpoint (clientkey_to_raw j) (ag_sessions s1) = get_endpoint (clientkey_to_raw j) (ag_sessions s)"
      by (simp add: ss1 get_endpoint_destroy)
    with False j c1 [of j] sent(2) show ?thesis by auto
  qed
  ultimately show ?case by (intro exI [of _ "sent(k := ps)"]) blast
qed

lemma heartbeat_pass_ends:
  assumes "agent_ok s" and "server_ready (ag_server s)" and "stream_order_ok E"
    and "rt_current_client (ag_root s) = om_begin (rt_clients (ag_root s))"
  shows "\<exists>s'. check_heartbeats E now junk s = Some s' \<and> agent_ok s' \<and> same_but_queue s s'
    \<and> rt_current_client (ag_root s') = om_begin (rt_clients (ag_root s'))
    \<and> (\<forall>k. get_client k (ag_root s') = Option.bind (get_client k (ag_root s)) (after_heartbeat (now k)))
    \<and> sessions_without {k. get_client k (ag_root s) \<noteq> None \<and> get_client k (ag_root s') = None} (ag_sessions s) (ag_sessions s')"
proof -
  have absent: "get_client k (ag_root s) = None" if "k \<notin> set (map fst (rt_clients (ag_root s)))" for k
    using that by (simp add: get_client_def map_of_eq_None_iff)
  from check_heartbeats_loop_ends [OF assms(1-3) refl, of now "heartbeat_vars_new junk"] absent show ?thesis
    unfolding assms(4) om_rest_begin check_heartbeats_def by (metis (no_types, lifting) bind.bind_lzero)
qed

text \<open>C17: a pass of the heartbeat thread ends and does exactly what is specified for every client, whatever the order
  in which clients are removed on the way: clients that are alive and clients without a hard liveliness check stay, an
  unresponsive client with the check has a ping counted and one that was marked for removal is taken out of the directory.
  A session is ended exactly for the clients that were removed.  The agent stays well formed, and the iterator is at
  the beginning for the next pass.\<close>

theorem heartbeat_pass:
  assumes "agent_ok s" and "server_ready (ag_server s)" and "stream_order_ok E"
    and "rt_current_client (ag_root s) = om_begin (rt_clients (ag_root s))"
  shows "\<exists>s'. check_heartbeats E now junk s = Some s' \<and> agent_ok s' \<and> server_ready (ag_server s')
    \<and> rt_current_client (ag_root s') = om_begin (rt_clients (ag_root s'))
    \<and> (\<forall>k. get_client k (ag_root s') = Option.bind (get_client k (ag_root s)) (after_heartbeat (now k)))
    \<and> (\<forall>raw. get_endpoint raw (ag_sessions s')
        = (if \<exists>k. clientkey_to_raw k = raw \<and> get_client k (ag_root s) \<noteq> None \<and> get_client k (ag_root s') = None
           then None else get_endpoint raw (ag_sessions s)))"
proof -
  have keys: "raw \<in> clientkey_to_raw ` {k. P k} \<longleftrightarrow> (\<exists>k. clientkey_to_raw k = raw \<and> P k)" for raw P by auto
  from heartbeat_pass_ends [OF assms, of now junk] show ?thesis
    unfolding same_but_queue_def sessions_without_def keys by (elim exE conjE) (intro exI conjI)
qed

subsection \<open>Clients that do not answer\<close>

text \<open>The passes of the thread, seen from one client.\<close>

definition client_passes :: "ClientKey \<Rightarrow> (ClientKey \<Rightarrow> int) list \<Rightarrow> 'w ProxyClient option \<Rightarrow> 'w ProxyClient option" where
  "client_passes k clocks = fold (\<lambda>now r. Option.bind r (after_heartbeat (now k))) clocks"

text \<open>A client after \<open>n\<close> pings that has not been heard of.\<close>

definition pinged :: "nat \<Rightarrow> int \<Rightarrow> int \<Rightarrow> 'w ProxyClient \<Rightarrow> bool" where
  "pinged n timestamp dead_time pc \<longleftrightarrow> pc_hard_liveliness_check pc \<and> pc_timestamp pc = timestamp \<and> pc_client_dead_time pc = dead_time
     \<and> n \<le> 3 \<and> pc_hard_liveliness_check_tries pc = of_nat n \<and> (pc_state pc = to_remove \<longleftrightarrow> n = 3)"

lemma pinged_pass:
  assumes "pinged n timestamp dead_time pc" and "dead_time \<le> (now - timestamp) div 1000000"
  shows "if n = 3 then after_heartbeat now pc = None else \<exists>pc'. after_heartbeat now pc = Some pc' \<and> pinged (Suc n) timestamp dead_time pc'"
proof (cases "n = 3")
  case True
  with assms show ?thesis by (simp add: pinged_def after_heartbeat_def get_state_def)
next
  case False
  then have n: "n = 0 \<or> n = 1 \<or> n = 2" using assms(1) by (auto simp: pinged_def)
  have "pc_state pc = alive \<or> pc_state pc = dead" using False assms(1) by (cases "pc_state pc") (auto simp: pinged_def)
  then have "get_state now pc = (dead, pc\<lparr>pc_state := dead\<rparr>)" using assms by (auto simp: get_state_def pinged_def)
  moreover from this have "after_heartbeat now pc = Some (count_try now (pc\<lparr>pc_state := dead\<rparr>))"
    using assms(1) by (simp add: after_heartbeat_def pinged_def)
  ultimately show ?thesis using n assms(1) by (auto simp: pinged_def count_try_def update_state_def Let_def)
qed

lemma client_passes_None [simp]: "client_passes k clocks None = None"
  by (induction clocks) (simp_all add: client_passes_def)

lemma pinged_passes:
  assumes "pinged n timestamp dead_time pc" and "\<forall>now\<in>set clocks. dead_time \<le> (now k - timestamp) div 1000000"
  shows "client_passes k clocks (Some pc) = None \<longleftrightarrow> 4 \<le> n + length clocks"
  using assms
proof (induction clocks arbitrary: n pc)
  case Nil
  then show ?case by (simp add: client_passes_def pinged_def)
next
  case (Cons now clocks)
  have step: "client_passes k (now # clocks) (Some pc) = client_passes k clocks (after_heartbeat (now k) pc)"
    by (simp add: client_passes_def)
  show ?case
  proof (cases "n = 3")
    case True
    with pinged_pass [OF Cons.prems(1), of "now k"] Cons.prems(2) step show ?thesis by simp
  next
    case False
    with pinged_pass [OF Cons.prems(1), of "now k"] Cons.prems(2) obtain pc' where
      "after_heartbeat (now k) pc = Some pc'" "pinged (Suc n) timestamp dead_time pc'" by auto
    with Cons.IH [of "Suc n" pc'] Cons.prems(2) step show ?thesis by simp
  qed
qed

subsection \<open>What the passes send\<close>

text \<open>Different clients have different sessions.\<close>

lemma raw_of_clientkey:
  assumes "length k = 4"
  shows "raw_to_clientkey (clientkey_to_raw k) = k"
proof -
  obtain a b c d where k: "k = [a, b, c, d]" using assms by (auto simp: numeral_eq_Suc length_Suc_conv)
  let ?a = "push_bit 24 (ucast a) :: u32" and ?b = "push_bit 16 (ucast b) :: u32" and ?c = "push_bit 8 (ucast c) :: u32" and ?d = "ucast d :: u32"
  have "\<not> bit ?a n \<or> \<not> bit ?b n" for n by (auto simp: bit_simps dest: bit_imp_le_length)
  then have "?a + ?b = ?a OR ?b" by (rule disjunctive_add)
  moreover have "\<not> bit (?a OR ?b) n \<or> \<not> bit ?c n" for n by (auto simp: bit_simps dest: bit_imp_le_length)
  then have "(?a OR ?b) + ?c = ?a OR ?b OR ?c" using disjunctive_add [of "?a OR ?b" ?c] by (simp add: or.assoc)
  moreover have "\<not> bit (?a OR ?b OR ?c) n \<or> \<not> bit ?d n" for n by (auto simp: bit_simps dest: bit_imp_le_length)
  then have "(?a OR ?b OR ?c) + ?d = ?a OR ?b OR ?c OR ?d" using disjunctive_add [of "?a OR ?b OR ?c" ?d] by (simp add: or.assoc)
  ultimately have raw: "clientkey_to_raw k = ?a OR ?b OR ?c OR ?d" by (simp add: clientkey_to_raw_def k)
  have "(ucast (drop_bit 24 (?a OR ?b OR ?c OR ?d)) :: u8) = a" "(ucast (drop_bit 16 (?a OR ?b OR ?c OR ?d)) :: u8) = b"
    "(ucast (drop_bit 8 (?a OR ?b OR ?c OR ?d)) :: u8) = c" "(ucast (?a OR ?b OR ?c OR ?d) :: u8) = d"
    by (rule bit_word_eqI, auto simp: bit_simps dest: bit_imp_le_length)+
  then have "raw_to_clientkey (clientkey_to_raw k) = [a, b, c, d]" unfolding raw raw_to_clientkey_def by simp
  then show ?thesis using k by simp
qed

definition keys_ok :: "('w, 'e) agent \<Rightarrow> bool" where
  "keys_ok s \<longleftrightarrow> (\<forall>k. get_client k (ag_root s) \<noteq> None \<longrightarrow> length k = 4)"

lemma keys_ok_raw: "keys_ok s \<Longrightarrow> inj_on clientkey_to_raw {k. get_client k (ag_root s) \<noteq> None}"
  by (rule inj_on_inverseI [of _ raw_to_clientkey]) (auto simp: keys_ok_def raw_of_clientkey)

text \<open>The log of a pass: every packet that is sent, in order, with the client it is sent to.\<close>

definition sent_to :: "ClientKey \<Rightarrow> (ClientKey \<times> 'e OutputPacket) list \<Rightarrow> 'e OutputPacket list" where
  "sent_to k xs = map snd (filter (\<lambda>x. fst x = k) xs)"

lemma sent_to_clients:
  "distinct ks \<Longrightarrow> sent_to k (concat (map (\<lambda>j. map (Pair j) (sent j)) ks)) = (if k \<in> set ks then sent k else [])"
proof (induction ks)
  case (Cons j ks)
  then show ?case by (cases "j = k") (auto simp: sent_to_def filter_map o_def)
qed (simp add: sent_to_def)

lemma snd_log: "map snd (concat (map (\<lambda>j. map (Pair j) (sent j)) ks)) = concat (map sent ks)"
  by (induction ks) (simp_all add: o_def)

lemma heartbeat_pass_log:
  assumes "agent_ok s" and "server_ready (ag_server s)" and "stream_order_ok E"
    and "rt_current_client (ag_root s) = om_begin (rt_clients (ag_root s))" and "keys_ok s"
    and "check_heartbeats E now junk s = Some s'"
  shows "\<exists>log. push_packets (map snd log) (ag_server s) = Some (ag_server s')
    \<and> (\<forall>k. case get_client k (ag_root s) of None \<Rightarrow> sent_to k log = []
        | Some pc \<Rightarrow> client_sends E (now k) (get_endpoint (clientkey_to_raw k) (ag_sessions s)) pc (sent_to k log))"
proof -
  let ?ks = "map fst (rt_clients (ag_root s))"
  have om: "om_ok (rt_clients (ag_root s))" using assms(1) by (simp add: agent_ok_def root_ok_def)
  have ks: "set ?ks = {k. get_client k (ag_root s) \<noteq> None}" by (auto simp: get_client_def map_of_eq_None_iff)
  have rest: "?ks = map fst (om_rest (rt_current_client (ag_root s)) (rt_clients (ag_root s)))"
    by (simp only: assms(4) om_rest_begin)
  from check_heartbeats_loop_sends [OF assms(1-3) vars_ok_new _ rest] keys_ok_raw [OF assms(5), folded ks]
    assms(6) [unfolded check_heartbeats_def] obtain sent where
    sent: "push_packets (concat (map sent ?ks)) (ag_server s) = Some (ag_server s')"
      "\<forall>k\<in>set ?ks. \<forall>pc. get_client k (ag_root s) = Some pc
        \<longrightarrow> client_sends E (now k) (get_endpoint (clientkey_to_raw k) (ag_sessions s)) pc (sent k)" by blast
  define l where "l = concat (map (\<lambda>j. map (Pair j) (sent j)) ?ks)"
  have l: "map snd l = concat (map sent ?ks)" unfolding l_def by (rule snd_log)
  have "sent_to k l = (if get_client k (ag_root s) = None then [] else sent k)" for k
    using sent_to_clients [OF om_ok_distinct [OF om], of k sent] ks unfolding l_def by auto
  moreover have "client_sends E (now k) (get_endpoint (clientkey_to_raw k) (ag_sessions s)) pc (sent k)"
    if "get_client k (ag_root s) = Some pc" for k pc using sent(2) that ks by blast
  ultimately show ?thesis using sent(1) unfolding l [symmetric]
    by (intro exI [of _ l]) (auto split: option.split)
qed

text \<open>The logs of the passes of the thread.\<close>

definition pass_logs :: "'w processor_env \<Rightarrow> (ClientKey \<Rightarrow> int) list \<Rightarrow> ('w, 'e) agent \<Rightarrow> (ClientKey \<times> 'e OutputPacket) list list \<Rightarrow> bool" where
  "pass_logs E clocks s logs \<longleftrightarrow> length logs = length clocks \<and> (\<forall>i<length clocks. \<forall>k.
     case client_passes k (take i clocks) (get_client k (ag_root s)) of None \<Rightarrow> sent_to k (logs ! i) = []
     | Some pc \<Rightarrow> client_sends E ((clocks ! i) k) (get_endpoint (clientkey_to_raw k) (ag_sessions s)) pc (sent_to k (logs ! i)))"

lemma pass_logs_Cons:
  assumes "pass_logs E clocks s1 logs"
    and "\<And>k. get_client k (ag_root s1) = Option.bind (get_client k (ag_root s)) (after_heartbeat (now k))"
    and "\<And>k. get_client k (ag_root s1) \<noteq> None \<Longrightarrow>
      get_endpoint (clientkey_to_raw k) (ag_sessions s1) = get_endpoint (clientkey_to_raw k) (ag_sessions s)"
    and "\<And>k. case get_client k (ag_root s) of None \<Rightarrow> sent_to k xs = []
        | Some pc \<Rightarrow> client_sends E (now k) (get_endpoint (clientkey_to_raw k) (ag_sessions s)) pc (sent_to k xs)"
  shows "pass_logs E (now # clocks) s (xs # logs)"
proof -
  have step: "client_passes k (now # cs) (get_client k (ag_root s)) = client_passes k cs (get_client k (ag_root s1))" for k cs
    by (simp add: client_passes_def assms(2))
  have "case client_passes k (take i (now # clocks)) (get_client k (ag_root s)) of None \<Rightarrow> sent_to k ((xs # logs) ! i) = []
     | Some pc \<Rightarrow> client_sends E (((now # clocks) ! i) k) (get_endpoint (clientkey_to_raw k) (ag_sessions s)) pc (sent_to k ((xs # logs) ! i))"
    if i: "i < length (now # clocks)" for i k
  proof (cases i)
    case 0
    with assms(4) [of k] show ?thesis by (cases "get_client k (ag_root s)") (simp_all add: client_passes_def)
  next
    case (Suc j)
    with i assms(1) have "case client_passes k (take j clocks) (get_client k (ag_root s1)) of None \<Rightarrow> sent_to k (logs ! j) = []
     | Some pc \<Rightarrow> client_sends E ((clocks ! j) k) (get_endpoint (clientkey_to_raw k) (ag_sessions s1)) pc (sent_to k (logs ! j))"
      by (simp add: pass_logs_def)
    with Suc assms(3) [of k] show ?thesis
      by (cases "get_client k (ag_root s1)") (auto simp: step split: option.splits)
  qed
  then show ?thesis using assms(1) unfolding pass_logs_def by (intro conjI allI impI) simp_all
qed

lemma heartbeat_loop_logs:
  assumes "agent_ok s" and "server_ready (ag_server s)" and "stream_order_ok E"
    and "rt_current_client (ag_root s) = om_begin (rt_clients (ag_root s))" and "srv_running_cond (ag_server s)" and "keys_ok s"
  shows "\<exists>s' logs. heartbeat_loop E clocks junk s = Some s' \<and> pass_logs E clocks s logs
    \<and> push_packets (map snd (concat logs)) (ag_server s) = Some (ag_server s')
    \<and> (\<forall>k. get_client k (ag_root s') = client_passes k clocks (get_client k (ag_root s)))"
  using assms
proof (induction clocks arbitrary: s)
  case Nil
  then show ?case by (intro exI [of _ s] exI [of _ "[]"]) (simp add: pass_logs_def client_passes_def)
next
  case (Cons now clocks)
  from heartbeat_pass_ends [OF Cons.prems(1-4), of now junk] obtain s1 where
    s1: "check_heartbeats E now junk s = Some s1" "agent_ok s1" "same_but_queue s s1"
      "rt_current_client (ag_root s1) = om_begin (rt_clients (ag_root s1))"
      "\<And>k. get_client k (ag_root s1) = Option.bind (get_client k (ag_root s)) (after_heartbeat (now k))"
      "sessions_without {k. get_client k (ag_root s) \<noteq> None \<and> get_client k (ag_root s1) = None} (ag_sessions s) (ag_sessions s1)" by blast
  from heartbeat_pass_log [OF Cons.prems(1-4,6) s1(1)] obtain log where
    log: "push_packets (map snd log) (ag_server s) = Some (ag_server s1)"
      "\<And>k. case get_client k (ag_root s) of None \<Rightarrow> sent_to k log = []
        | Some pc \<Rightarrow> client_sends E (now k) (get_endpoint (clientkey_to_raw k) (ag_sessions s)) pc (sent_to k log)" by blast
  have present: "get_client k (ag_root s) \<noteq> None" if "get_client k (ag_root s1) \<noteq> None" for k
    using that s1(5) [of k] by (cases "get_client k (ag_root s)") simp_all
  have endpoint: "get_endpoint (clientkey_to_raw k) (ag_sessions s1) = get_endpoint (clientkey_to_raw k) (ag_sessions s)"
    if k: "get_client k (ag_root s1) \<noteq> None" for k
  proof -
    have "clientkey_to_raw k \<notin> clientkey_to_raw ` {k. get_client k (ag_root s) \<noteq> None \<and> get_client k (ag_root s1) = None}"
      using keys_ok_raw [OF Cons.prems(6)] present [OF k] k by (auto dest!: inj_onD)
    with s1(6) show ?thesis by (simp add: sessions_without_def)
  qed
  have keys: "keys_ok s1" using Cons.prems(6) present unfolding keys_ok_def by blast
  have ready: "server_ready (ag_server s1)" "srv_running_cond (ag_server s1)" using s1(3) Cons.prems(5) by (simp_all add: same_but_queue_def)
  from Cons.IH [OF s1(2) ready(1) Cons.prems(3) s1(4) ready(2) keys] obtain s' logs where
    s': "heartbeat_loop E clocks junk s1 = Some s'" "pass_logs E clocks s1 logs"
      "push_packets (map snd (concat logs)) (ag_server s1) = Some (ag_server s')"
      "\<And>k. get_client k (ag_root s') = client_passes k clocks (get_client k (ag_root s1))" by blast
  have "pass_logs E (now # clocks) s (log # logs)" by (rule pass_logs_Cons [OF s'(2) s1(5) endpoint log(2)])
  moreover have "push_packets (map snd (concat (log # logs))) (ag_server s) = Some (ag_server s')"
    using log(1) s'(3) by (simp add: push_packets_append)
  moreover have "get_client k (ag_root s') = client_passes k (now # clocks) (get_client k (ag_root s))" for k
    by (simp add: s'(4) s1(5) client_passes_def)
  ultimately show ?case using s1(1) s'(1) Cons.prems(5) by (intro exI [of _ s'] exI [of _ "log # logs"]) simp
qed

lemma pinged_nth:
  assumes "pinged n timestamp dead_time pc" and "\<forall>now\<in>set clocks. dead_time \<le> (now k - timestamp) div 1000000" and "n + length clocks \<le> 3"
  shows "\<exists>pc'. client_passes k clocks (Some pc) = Some pc' \<and> pinged (n + length clocks) timestamp dead_time pc'
    \<and> client_header pc' = client_header pc"
  using assms
proof (induction clocks arbitrary: n pc)
  case (Cons now clocks)
  then have "n \<noteq> 3" by simp
  with pinged_pass [OF Cons.prems(1), of "now k"] Cons.prems(2) obtain pc1 where
    pc1: "after_heartbeat (now k) pc = Some pc1" "pinged (Suc n) timestamp dead_time pc1" by auto
  from Cons.IH [OF pc1(2)] Cons.prems(2,3) pc1(1) after_heartbeat_kept(1) [OF pc1(1)] show ?case
    by (simp add: client_passes_def client_header_def)
qed (simp add: client_passes_def)

lemma pinged_sends:
  assumes "pinged n timestamp dead_time pc" and "dead_time \<le> (now - timestamp) div 1000000" and "client_sends E now (Some e) pc ps"
  shows "if n < 3 then \<exists>previous. ps = [packet_to e (ping (pe_cdr E) previous (client_header pc))] else ps = []"
proof (cases "n = 3")
  case True
  with assms show ?thesis by (simp add: pinged_def client_sends_def get_state_def)
next
  case False
  then have "n < 3" using assms(1) by (simp add: pinged_def)
  moreover have "pc_state pc = alive \<or> pc_state pc = dead" using False assms(1) by (cases "pc_state pc") (auto simp: pinged_def)
  then have "get_state now pc = (dead, pc\<lparr>pc_state := dead\<rparr>)" using assms by (auto simp: get_state_def pinged_def)
  ultimately show ?thesis using assms(1,3) by (auto simp: pinged_def client_sends_def)
qed

text \<open>C16: hard liveliness: a client with the check that is not heard of again after its dead time is sent three
  pings, exactly one in each of three passes, and is removed in the fourth.  The log holds all packets that the
  passes put into the queue of the server, in their order and with the client they are sent to: in the first three
  passes there is one for the client, a \<open>GET_INFO\<close> message with its session in the header, addressed to its endpoint;
  in every later pass there is none, and what the other clients are
  sent is what the specification of a pass says.\<close>

theorem unresponsive_client_removed:
  assumes "agent_ok s" and "server_ready (ag_server s)" and "stream_order_ok E"
    and "rt_current_client (ag_root s) = om_begin (rt_clients (ag_root s))" and "srv_running_cond (ag_server s)" and "keys_ok s"
    and "get_client k (ag_root s) = Some pc" and "get_endpoint (clientkey_to_raw k) (ag_sessions s) = Some e"
    and "pc_hard_liveliness_check pc" and "pc_hard_liveliness_check_tries pc = 0" and "pc_state pc \<noteq> to_remove"
    and "\<forall>now\<in>set clocks. pc_client_dead_time pc \<le> (now k - pc_timestamp pc) div 1000000"
  shows "\<exists>s' logs. heartbeat_loop E clocks junk s = Some s'
    \<and> push_packets (map snd (concat logs)) (ag_server s) = Some (ag_server s') \<and> pass_logs E clocks s logs
    \<and> (\<forall>i<length clocks. if i < 3
        then \<exists>previous. sent_to k (logs ! i) = [packet_to e (ping (pe_cdr E) previous (client_header pc))]
        else sent_to k (logs ! i) = [])
    \<and> (get_client k (ag_root s') = None \<longleftrightarrow> 4 \<le> length clocks)"
proof -
  have p: "pinged 0 (pc_timestamp pc) (pc_client_dead_time pc) pc" using assms(9-11) by (simp add: pinged_def)
  from heartbeat_loop_logs [OF assms(1-6), of clocks junk] obtain s' logs where
    s': "heartbeat_loop E clocks junk s = Some s'" "pass_logs E clocks s logs"
      "push_packets (map snd (concat logs)) (ag_server s) = Some (ag_server s')"
      "get_client k (ag_root s') = client_passes k clocks (Some pc)" using assms(7) by metis
  have "if i < 3 then \<exists>previous. sent_to k (logs ! i) = [packet_to e (ping (pe_cdr E) previous (client_header pc))]
      else sent_to k (logs ! i) = []" if i: "i < length clocks" for i
  proof -
    have late: "\<forall>now\<in>set (take i clocks). pc_client_dead_time pc \<le> (now k - pc_timestamp pc) div 1000000"
      using assms(12) by (auto dest: in_set_takeD)
    have "case client_passes k (take i clocks) (get_client k (ag_root s)) of None \<Rightarrow> sent_to k (logs ! i) = []
       | Some pc \<Rightarrow> client_sends E ((clocks ! i) k) (get_endpoint (clientkey_to_raw k) (ag_sessions s)) pc (sent_to k (logs ! i))"
      using s'(2) i by (simp add: pass_logs_def)
    then have log: "case client_passes k (take i clocks) (Some pc) of None \<Rightarrow> sent_to k (logs ! i) = []
       | Some pc \<Rightarrow> client_sends E ((clocks ! i) k) (Some e) pc (sent_to k (logs ! i))"
      unfolding assms(7,8) .
    show ?thesis
    proof (cases "i \<le> 3")
      case True
      with pinged_nth [OF p late] i obtain pc' where
        pc': "client_passes k (take i clocks) (Some pc) = Some pc'" "pinged i (pc_timestamp pc) (pc_client_dead_time pc) pc'"
          "client_header pc' = client_header pc" by auto
      have "pc_client_dead_time pc \<le> ((clocks ! i) k - pc_timestamp pc) div 1000000" using assms(12) i by simp
      from pinged_sends [OF pc'(2) this, of E e "sent_to k (logs ! i)"] log pc'(1) show ?thesis by (simp only: option.case pc'(3)) blast
    next
      case False
      with pinged_passes [OF p late] i log show ?thesis by simp
    qed
  qed
  with s' pinged_passes [OF p assms(12)] show ?thesis by (intro exI [of _ s'] exI [of _ logs]) simp
qed

subsection \<open>Heartbeats\<close>

lemma heartbeat_message_complete:
  assumes "cdr_lib C" and "header_ok h"
  shows "om_bytes (sized_message C h heartbeat_size (Reply_HEARTBEAT hb)) = om_bytes (snd (reply_message C h (Reply_HEARTBEAT hb)))"
proof -
  have "sized (reply_writer C (Reply_HEARTBEAT hb)) (reply_sizer (Reply_HEARTBEAT hb))"
    by (rule cdr_lib.reply_sized [OF assms(1)]) simp
  then have n: "length (concat (reply_writer C (Reply_HEARTBEAT hb) 0)) = reply_sizer (Reply_HEARTBEAT hb) 0" by (simp add: sized_def)
  have five: "reply_sizer (Reply_HEARTBEAT hb) 0 = 5" "HEARTBEAT_Payload_size HEARTBEAT_Payload_new 0 = 5"
    by (simp_all add: HEARTBEAT_Payload_size_def s_prim_def cdr_alignment_def)
  have size: "mh_getCdrSerializedSize h + 4 + 5 \<le> heartbeat_size"
    by (simp add: heartbeat_size_def five mh_size MessageHeader_new_def)
  show ?thesis unfolding sized_message_def reply_message_def reply_submessage_def payload_def
    using size n five cdr_lib.append_submessage_bytes [OF assms]
    by (simp del: reply_writer.simps reply_sizer.simps length_concat)
qed

text \<open>C19: what a client that is alive is sent in a pass: exactly one heartbeat for each of its reliable streams that holds
  unacknowledged messages, to the endpoint of its session, with the numbers of the first and the last of them; each
  heartbeat is a complete message.  The client and its streams stay as they are.\<close>

theorem heartbeats_announce_windows:
  assumes "cdr_lib (pe_cdr E)" and "stream_order_ok E" and "get_state now client = (alive, pc)"
    and "key = cr_client_key (pc_representation client)" and "length key = 4" and "get_endpoint (clientkey_to_raw key) (ag_sessions s) = Some e"
    and "header = (hv_header v)\<lparr>mh_session_id := cr_session_id (pc_representation client), mh_client_key := key\<rparr>"
  shows "(\<exists>v'. heartbeat_client E now client v s = map_option (\<lambda>sv. (v', s\<lparr>ag_server := sv, ag_root := update_client key pc (ag_root s)\<rparr>))
      (push_packets (map (heartbeat_packet (pe_cdr E) header e (pc_session client)) (filter (unacknowledged (pc_session client))
        (pe_stream_order E (dom (se_reliable_ostreams (pc_session client)))))) (ag_server s)))
    \<and> op_message (heartbeat_packet (pe_cdr E) header e (pc_session client) sid) \<noteq> None
    \<and> om_bytes (the (op_message (heartbeat_packet (pe_cdr E) header e (pc_session client) sid)))
      = om_bytes (snd (reply_message (pe_cdr E) header (Reply_HEARTBEAT (stream_heartbeat sid (pc_session client)))))"
proof -
  let ?se = "pc_session client" and ?streams = "get_output_streams (pe_stream_order E) (pc_session client)"
  note kept = get_state_kept [OF assms(3)]
  have "\<not> unacknowledged ?se 0"
    by (simp add: unacknowledged_def is_reliable_stream_def STREAMID_BUILTIN_RELIABLE_def)
  then have streams: "filter (unacknowledged ?se) ?streams = filter (unacknowledged ?se) (pe_stream_order E (dom (se_reliable_ostreams ?se)))"
    by (simp add: get_output_streams_def Let_def)
  from heartbeat_streams_packets [where streams = ?streams and pc = pc and E = E and header = header and destination = e
      and hb = "hv_heartbeat v" and s = s] output_streams_open [OF assms(2), of ?se] kept(2) obtain hb where
    "heartbeat_streams E header e ?streams (hv_heartbeat v) pc s = map_option (\<lambda>v. (hb, pc, s\<lparr>ag_server := v\<rparr>))
      (push_packets (map (heartbeat_packet (pe_cdr E) header e ?se) (filter (unacknowledged ?se) ?streams)) (ag_server s))" by auto
  then have "heartbeat_client E now client v s = map_option (\<lambda>sv. (v\<lparr>hv_destination := e, hv_header := header, hv_heartbeat := hb\<rparr>,
        s\<lparr>ag_server := sv, ag_root := update_client key pc (ag_root s)\<rparr>))
      (push_packets (map (heartbeat_packet (pe_cdr E) header e ?se) (filter (unacknowledged ?se) ?streams)) (ag_server s))"
    using assms(3,4,6,7) kept(2) by (simp add: heartbeat_client_def Let_def option.map_comp o_def)
  moreover have "header_ok header" using assms(5,7) by (simp add: header_ok_def)
  ultimately show ?thesis using heartbeat_message_complete [OF assms(1)] unfolding streams
    by (auto simp: heartbeat_packet_def packet_to_def)
qed

text \<open>A ping to a client with client key in its header does not fit the buffer when the client before had none: it is sent
  without its last four octets.\<close>

lemma ping_truncated:
  "length (om_bytes (ping cdr_little \<lparr>mh_session_id = 0x81, mh_stream_id = 0, mh_sequence_nr = 0, mh_client_key = [0, 0, 0, 1]\<rparr>
     \<lparr>mh_session_id = 1, mh_stream_id = 0, mh_sequence_nr = 0, mh_client_key = [0, 0, 0, 2]\<rparr>)) = 16"
  "length (om_bytes (ping cdr_little \<lparr>mh_session_id = 1, mh_stream_id = 0, mh_sequence_nr = 0, mh_client_key = [0, 0, 0, 1]\<rparr>
     \<lparr>mh_session_id = 1, mh_stream_id = 0, mh_sequence_nr = 0, mh_client_key = [0, 0, 0, 2]\<rparr>)) = 20"
  by code_simp+

subsection \<open>A client that falls silent\<close>

lemma example_new_fields:
  "pc_state example_new = alive" "pc_timestamp example_new = 0" "pc_client_dead_time example_new = 30000"
  "cr_client_key (pc_representation example_new) = [0, 0, 0, 1]" "se_reliable_ostreams (pc_session example_new) = Map.empty"
  by (simp_all add: example_new_def ProxyClient_new_def Let_def example_client_def Session_new_def)

definition silent_client :: "ced ProxyClient" where
  "silent_client = example_new\<lparr>pc_hard_liveliness_check := True, pc_hard_liveliness_check_tries := 0\<rparr>"

definition silent_agent :: "(ced, nat) agent" where
  "silent_agent = \<lparr>ag_root = \<lparr>rt_clients = [([0, 0, 0, 1], silent_client)], rt_current_client = Some [0, 0, 0, 1]\<rparr>,
     ag_sessions = establish_session 7 1 0x81 SessionManager_new, ag_server = example_server\<rparr>"

lemma silent_agent:
  "agent_ok silent_agent" "server_ready (ag_server silent_agent)" "srv_running_cond (ag_server silent_agent)"
  "rt_current_client (ag_root silent_agent) = om_begin (rt_clients (ag_root silent_agent))"
  "get_client [0, 0, 0, 1] (ag_root silent_agent) = Some silent_client"
  "get_endpoint 1 (ag_sessions silent_agent) = Some 7"
  "stream_order_ok example_processor"
proof -
  have "get_client [0, 0, 0, 1] (ag_root example_agent) = Some example_new"
    by (simp add: example_agent(2) example_root_def get_client_def)
  with example_agent_ok show "agent_ok silent_agent"
    by (auto simp: agent_ok_def root_ok_def silent_agent_def silent_client_def get_client_def)
  show "server_ready (ag_server silent_agent)" "srv_running_cond (ag_server silent_agent)"
    by (simp_all add: silent_agent_def server_ready_def example_server_def server_start_def Server_new_def sched_init_def
        PacketScheduler_new_def ps_size_def Let_def)
  show "get_endpoint 1 (ag_sessions silent_agent) = Some 7" by (simp add: silent_agent_def sm.endpoint_establish)
  show "stream_order_ok example_processor" by (simp add: stream_order_ok_def example_processor_def)
qed (simp_all add: silent_agent_def om_begin_def get_client_def)

lemma silent_client:
  "pc_hard_liveliness_check silent_client" "pc_hard_liveliness_check_tries silent_client = 0" "pc_state silent_client = alive"
  "pc_timestamp silent_client = 0" "pc_client_dead_time silent_client = 30000" "cr_client_key (pc_representation silent_client) = [0, 0, 0, 1]"
  by (simp_all add: silent_client_def example_new_fields)

theorem heartbeat_pass_witness:
  "\<exists>s'. check_heartbeats example_processor (\<lambda>_. 0) 0 silent_agent = Some s' \<and> get_client [0, 0, 0, 1] (ag_root s') = Some silent_client
    \<and> get_endpoint 1 (ag_sessions s') \<noteq> None"
proof -
  have kept: "after_heartbeat 0 silent_client = Some silent_client"
    using silent_client by (simp add: after_heartbeat_def get_state_def)
  from heartbeat_pass [OF silent_agent(1,2,7,4), of "\<lambda>_. 0" 0] obtain s' where
    s': "check_heartbeats example_processor (\<lambda>_. 0) 0 silent_agent = Some s'"
      "\<And>k. get_client k (ag_root s') = Option.bind (get_client k (ag_root silent_agent)) (after_heartbeat 0)"
      "get_endpoint 1 (ag_sessions s') = (if \<exists>k. clientkey_to_raw k = 1 \<and> get_client k (ag_root silent_agent) \<noteq> None
           \<and> get_client k (ag_root s') = None then None else get_endpoint 1 (ag_sessions silent_agent))" by blast
  have "get_client k (ag_root silent_agent) = (if k = [0, 0, 0, 1] then Some silent_client else None)" for k
    by (simp add: silent_agent_def get_client_def)
  with s' kept silent_agent(6) show ?thesis by (intro exI [of _ s']) auto
qed

theorem unresponsive_client_removed_witness:
  "\<exists>s' p1 p2 p3. heartbeat_loop example_processor (replicate 4 (\<lambda>_. 30000000000)) 0 silent_agent = Some s' \<and> get_client [0, 0, 0, 1] (ag_root s') = None
    \<and> push_packets [packet_to 7 (ping cdr_little p1 (client_header silent_client)), packet_to 7 (ping cdr_little p2 (client_header silent_client)),
        packet_to 7 (ping cdr_little p3 (client_header silent_client))] example_server = Some (ag_server s')"
proof -
  let ?clocks = "replicate 4 (\<lambda>_ :: ClientKey. 30000000000 :: int)"
  have late: "\<forall>now\<in>set ?clocks. pc_client_dead_time silent_client \<le> (now [0, 0, 0, 1] - pc_timestamp silent_client) div 1000000"
    by (simp add: silent_client)
  have only: "get_client j (ag_root silent_agent) = (if j = [0, 0, 0, 1] then Some silent_client else None)" for j
    by (simp add: silent_agent_def get_client_def)
  have keys: "keys_ok silent_agent" by (simp add: keys_ok_def only)
  have e: "get_endpoint (clientkey_to_raw [0, 0, 0, 1]) (ag_sessions silent_agent) = Some 7"
    using silent_agent(6) by (simp add: clientkey_to_raw_def)
  have "pc_state silent_client \<noteq> to_remove" by (simp add: silent_client)
  from unresponsive_client_removed [OF silent_agent(1,2,7,4,3) keys silent_agent(5) e silent_client(1,2) this late, of 0] obtain s' logs where
    s': "heartbeat_loop example_processor ?clocks 0 silent_agent = Some s'" "get_client [0, 0, 0, 1] (ag_root s') = None"
      "push_packets (map snd (concat logs)) (ag_server silent_agent) = Some (ag_server s')" "pass_logs example_processor ?clocks silent_agent logs"
      "\<And>i. i < 4 \<Longrightarrow> if i < 3 then \<exists>previous. sent_to [0, 0, 0, 1] (logs ! i) = [packet_to 7 (ping (pe_cdr example_processor) previous (client_header silent_client))]
        else sent_to [0, 0, 0, 1] (logs ! i) = []" by auto
  have len: "length logs = 4" using s'(4) by (simp add: pass_logs_def)
  have "sent_to j (logs ! i) = []" if "i < 4" "j \<noteq> [0, 0, 0, 1]" for i j
  proof -
    have "case client_passes j (take i ?clocks) (get_client j (ag_root silent_agent)) of None \<Rightarrow> sent_to j (logs ! i) = []
      | Some pc \<Rightarrow> client_sends example_processor ((?clocks ! i) j) (get_endpoint (clientkey_to_raw j) (ag_sessions silent_agent)) pc (sent_to j (logs ! i))"
      using s'(4) that(1) by (simp add: pass_logs_def)
    then show ?thesis using that(2) by (simp add: only)
  qed
  then have "fst x = [0, 0, 0, 1]" if "i < 4" "x \<in> set (logs ! i)" for i x
    using that by (fastforce simp: sent_to_def filter_empty_conv)
  then have snd: "map snd (logs ! i) = sent_to [0, 0, 0, 1] (logs ! i)" if "i < 4" for i
    using that by (simp add: sent_to_def filter_id_conv)
  obtain l0 l1 l2 l3 where logs: "logs = [l0, l1, l2, l3]" using len by (auto simp: numeral_eq_Suc length_Suc_conv)
  have E: "pe_cdr example_processor = cdr_little" by (simp add: example_processor_def)
  have "\<exists>p. map snd l0 = [packet_to 7 (ping cdr_little p (client_header silent_client))]"
    "\<exists>p. map snd l1 = [packet_to 7 (ping cdr_little p (client_header silent_client))]"
    "\<exists>p. map snd l2 = [packet_to 7 (ping cdr_little p (client_header silent_client))]" "map snd l3 = []"
    using s'(5) [of 0] s'(5) [of 1] s'(5) [of 2] s'(5) [of 3] snd [of 0] snd [of 1] snd [of 2] snd [of 3]
    by (simp_all add: logs E)
  then obtain p1 p2 p3 where "map snd (concat logs) = [packet_to 7 (ping cdr_little p1 (client_header silent_client)),
      packet_to 7 (ping cdr_little p2 (client_header silent_client)), packet_to 7 (ping cdr_little p3 (client_header silent_client))]"
    by (auto simp: logs)
  moreover have "ag_server silent_agent = example_server" by (simp add: silent_agent_def)
  ultimately show ?thesis using s'(1-3) by metis
qed

text \<open>A heartbeat of a client with a message that it has not acknowledged.\<close>

theorem heartbeats_announce_windows_witness:
  "\<exists>v' v. heartbeat_client (example_processor\<lparr>pe_stream_order := sorted_list_of_set\<rparr>) 0 waiting_client (heartbeat_vars_new (0 :: nat)) silent_agent
      = Some (v', silent_agent\<lparr>ag_server := v, ag_root := update_client [0, 0, 0, 1] waiting_client (ag_root silent_agent)\<rparr>)
    \<and> length (filter (unacknowledged (pc_session waiting_client)) (sorted_list_of_set (dom (se_reliable_ostreams (pc_session waiting_client))))) = 1"
proof -
  let ?E = "example_processor\<lparr>pe_stream_order := sorted_list_of_set\<rparr>"
  have C: "cdr_lib (pe_cdr ?E)" using cdr_little.cdr_lib_axioms by (simp add: example_processor_def)
  have order: "stream_order_ok ?E" by (simp add: stream_order_ok_def)
  have w: "pc_state waiting_client = alive" "pc_timestamp waiting_client = 0" "pc_client_dead_time waiting_client = 30000"
      "cr_client_key (pc_representation waiting_client) = [0, 0, 0, 1]"
    by (simp_all add: waiting_client_def example_new_fields)
  then have st: "get_state 0 waiting_client = (alive, waiting_client)" by (simp add: get_state_def)
  have key: "[0, 0, 0, 1] = cr_client_key (pc_representation waiting_client)" "length ([0, 0, 0, 1] :: ClientKey) = 4"
    using w by simp_all
  have e: "get_endpoint (clientkey_to_raw [0, 0, 0, 1]) (ag_sessions silent_agent) = Some 7"
    using silent_agent(6) by (simp add: clientkey_to_raw_def)
  let ?ids = "filter (unacknowledged (pc_session waiting_client)) (sorted_list_of_set (dom (se_reliable_ostreams (pc_session waiting_client))))"
  have d: "dom (se_reliable_ostreams (pc_session waiting_client)) = {0x80}"
    by (simp add: waiting_client_def set_reliable_ostream_def example_new_fields)
  have "ro_messages (get_reliable_output_stream (pc_session waiting_client) 0x80) \<noteq> Map.empty"
    by (simp add: waiting_client_def ReliableOutputStream_new_def map_emplace_def fun_eq_iff)
  then have "unacknowledged (pc_session waiting_client) 0x80"
    by (simp add: unacknowledged_def is_reliable_stream_def STREAMID_BUILTIN_RELIABLE_def)
  then have one: "length ?ids = 1" unfolding d by simp
  from heartbeats_announce_windows [OF C order st key e refl, of "heartbeat_vars_new 0" 0] obtain v' where
    v': "heartbeat_client ?E 0 waiting_client (heartbeat_vars_new 0) silent_agent
      = map_option (\<lambda>sv. (v', silent_agent\<lparr>ag_server := sv, ag_root := update_client [0, 0, 0, 1] waiting_client (ag_root silent_agent)\<rparr>))
        (push_packets (map (heartbeat_packet (pe_cdr ?E) ((hv_header (heartbeat_vars_new (0 :: nat)))\<lparr>mh_session_id := cr_session_id (pc_representation waiting_client),
            mh_client_key := [0, 0, 0, 1]\<rparr>) 7 (pc_session waiting_client)) ?ids) (ag_server silent_agent))" by auto
  from push_packets_ready [OF silent_agent(2)] v' one show ?thesis by fastforce
qed

end
