(* ===== verification/TCP_Framing.thy ===== *)
theory TCP_Framing
  imports Agent_Server
begin

text \<open>
  Messages over a stream of octets: \<open>TCPServerBase<Connection>::read_data\<close>
  (\<open>include/uxr/agent/transport/tcp/TCPServerBase.hpp\<close>) and \<open>recv_data\<close>, \<open>send_data\<close> and the writing half of
  \<open>send_message\<close> of \<open>src/cpp/transport/tcp/TCPv4AgentLinux.cpp\<close> (\<open>TCPv6AgentLinux.cpp\<close> has the same code for
  other addresses).  A message travels as its length in two octets, the low one first, and its octets.

  The kernel's socket is part of the connection (\<open>None\<close> for the descriptor -1): the segments that have arrived and
  not been read, whether the peer has closed, what has been written, and how many octets the next calls of \<open>send\<close>
  accept (a negative number is an error; without an entry everything is accepted).  \<open>recv\<close> returns at most the rest of
  the first segment, so that every split of the stream is a behaviour of the model.
\<close>

subsection \<open>Sockets and connections\<close>

record tcp_socket =
  sk_in :: "u8 list list"
  sk_closed :: bool
  sk_out :: "u8 list"
  sk_accept :: "int list"

datatype TCPInputBufferState = TCP_BUFFER_EMPTY | TCP_SIZE_INCOMPLETE | TCP_SIZE_READ | TCP_MESSAGE_INCOMPLETE | TCP_MESSAGE_AVAILABLE

record TCPInputBuffer =
  ib_buffer :: "u8 list"
  ib_position :: u16
  ib_state :: TCPInputBufferState
  ib_msg_size :: u16

record 'e TCPConnection =
  tc_input_buffer :: TCPInputBuffer
  tc_id :: nat
  tc_active :: bool
  tc_endpoint :: 'e
  tc_poll_fd :: "tcp_socket option"

text \<open>What can be read; the kernel keeps no empty segments.\<close>

definition sk_segments :: "tcp_socket \<Rightarrow> u8 list list" where
  "sk_segments sk = filter (\<lambda>s. s \<noteq> []) (sk_in sk)"

definition tcp_poll :: "tcp_socket option \<Rightarrow> bool" where
  "tcp_poll fd = (case fd of None \<Rightarrow> False | Some sk \<Rightarrow> sk_segments sk \<noteq> [] \<or> sk_closed sk)"

text \<open>\<open>recv\<close>: the octets and the socket after it; nothing is what a closed connection yields.\<close>

definition sk_recv :: "nat \<Rightarrow> tcp_socket \<Rightarrow> u8 list \<times> tcp_socket" where
  "sk_recv len sk = (case sk_segments sk of [] \<Rightarrow> ([], sk) | s # ss \<Rightarrow> (take len s, sk\<lparr>sk_in := drop len s # ss\<rparr>))"

definition sk_send :: "u8 list \<Rightarrow> tcp_socket \<Rightarrow> int \<times> tcp_socket" where
  "sk_send buf sk =
     (case sk_accept sk of
        [] \<Rightarrow> (int (length buf), sk\<lparr>sk_out := sk_out sk @ buf\<rparr>)
      | n # ns \<Rightarrow> if n < 0 then (-1, sk\<lparr>sk_accept := ns\<rparr>)
                  else (min n (int (length buf)), sk\<lparr>sk_accept := ns, sk_out := sk_out sk @ take (nat n) buf\<rparr>))"

definition recv_data :: "nat \<Rightarrow> 'e TCPConnection \<Rightarrow> u8 list \<times> TransportRc \<times> 'e TCPConnection" where
  "recv_data len c =
     (if tc_active c
      then if tcp_poll (tc_poll_fd c)
           then let (octets, sk) = sk_recv len (the (tc_poll_fd c)); c' = c\<lparr>tc_poll_fd := Some sk\<rparr>
                in if 0 < length octets then (octets, Rc_ok, c') else ([], Rc_connection_error, c')
           else ([], Rc_timeout_error, c)
      else ([], Rc_connection_error, c))"

text \<open>Writing to a descriptor -1 is an error.\<close>

definition send_data :: "u8 list \<Rightarrow> 'e TCPConnection \<Rightarrow> nat \<times> TransportRc \<times> 'e TCPConnection" where
  "send_data buf c =
     (if tc_active c
      then case tc_poll_fd c of
             None \<Rightarrow> (0, Rc_connection_error, c)
           | Some sk \<Rightarrow> let (bytes_sent, sk') = sk_send buf sk; c' = c\<lparr>tc_poll_fd := Some sk'\<rparr>
                        in if bytes_sent \<noteq> -1 then (nat bytes_sent, Rc_ok, c') else (0, Rc_connection_error, c')
      else (0, Rc_connection_error, c))"

subsection \<open>Reading\<close>

definition vector_resize :: "nat \<Rightarrow> u8 list \<Rightarrow> u8 list" where
  "vector_resize n xs = take n xs @ replicate (n - length xs) 0"

definition write_at :: "nat \<Rightarrow> u8 list \<Rightarrow> u8 list \<Rightarrow> u8 list" where
  "write_at p ys xs = take p xs @ ys @ drop (p + length ys) xs"

definition msg_size_of :: "u8 \<Rightarrow> u8 \<Rightarrow> u16" where
  "msg_size_of lsb msb = push_bit 8 (ucast msb) OR ucast lsb"

text \<open>The body of the loop of \<open>read_data\<close>: the exit flag, what is returned, the state of the transport, the connection.\<close>

definition read_data_step :: "'e TCPConnection \<Rightarrow> bool \<times> u16 \<times> TransportRc \<times> 'e TCPConnection" where
  "read_data_step c =
     (let ib = tc_input_buffer c
      in case ib_state ib of
           TCP_BUFFER_EMPTY \<Rightarrow>
             (let (size_buf, rc, c1) = recv_data 2 (c\<lparr>tc_input_buffer := ib\<lparr>ib_position := 0\<rparr>\<rparr>); ib1 = tc_input_buffer c1
              in if 0 < length size_buf
                 then if length size_buf = 2
                      then let n = msg_size_of (size_buf ! 0) (size_buf ! 1)
                           in (False, 0, rc, c1\<lparr>tc_input_buffer := ib1\<lparr>ib_msg_size := n, ib_state := (if n \<noteq> 0 then TCP_SIZE_READ else ib_state ib1)\<rparr>\<rparr>)
                      else (False, 0, rc, c1\<lparr>tc_input_buffer := ib1\<lparr>ib_msg_size := ucast (size_buf ! 0), ib_state := TCP_SIZE_INCOMPLETE\<rparr>\<rparr>)
                 else (False, 0, rc, c1))
         | TCP_SIZE_INCOMPLETE \<Rightarrow>
             (let (octets, rc, c1) = recv_data 1 c
              in if 0 < length octets
                 then let n = push_bit 8 (ucast (octets ! 0)) OR ib_msg_size ib
                      in (False, 0, rc, c1\<lparr>tc_input_buffer := ib\<lparr>ib_msg_size := n, ib_state := (if n \<noteq> 0 then TCP_SIZE_READ else TCP_BUFFER_EMPTY)\<rparr>\<rparr>)
                 else (False, 0, rc, c1))
         | TCP_SIZE_READ \<Rightarrow>
             (let buffer = vector_resize (unat (ib_msg_size ib)) (ib_buffer ib);
                  (octets, rc, c1) = recv_data (length buffer) c;
                  ib1 = ib\<lparr>ib_buffer := write_at 0 octets buffer\<rparr>; received = of_nat (length octets)
              in if 0 < length octets
                 then if received = ib_msg_size ib
                      then (False, 0, rc, c1\<lparr>tc_input_buffer := ib1\<lparr>ib_state := TCP_MESSAGE_AVAILABLE\<rparr>\<rparr>)
                      else (True, 0, rc, c1\<lparr>tc_input_buffer := ib1\<lparr>ib_position := received, ib_state := TCP_MESSAGE_INCOMPLETE\<rparr>\<rparr>)
                 else (False, 0, rc, c1\<lparr>tc_input_buffer := ib1\<rparr>))
         | TCP_MESSAGE_INCOMPLETE \<Rightarrow>
             (let (octets, rc, c1) = recv_data (length (ib_buffer ib) - unat (ib_position ib)) c;
                  ib1 = ib\<lparr>ib_buffer := write_at (unat (ib_position ib)) octets (ib_buffer ib)\<rparr>;
                  position = ib_position ib + of_nat (length octets)
              in if 0 < length octets
                 then if position = ib_msg_size ib
                      then (False, 0, rc, c1\<lparr>tc_input_buffer := ib1\<lparr>ib_position := position, ib_state := TCP_MESSAGE_AVAILABLE\<rparr>\<rparr>)
                      else (True, 0, rc, c1\<lparr>tc_input_buffer := ib1\<lparr>ib_position := position\<rparr>\<rparr>)
                 else (False, 0, rc, c1))
         | TCP_MESSAGE_AVAILABLE \<Rightarrow>
             (True, ib_msg_size ib, Rc_ok, c\<lparr>tc_input_buffer := ib\<lparr>ib_state := TCP_BUFFER_EMPTY\<rparr>\<rparr>))"

text \<open>The octets that have arrived and not been read.\<close>

definition unread :: "'e TCPConnection \<Rightarrow> u8 list" where
  "unread c = (case tc_poll_fd c of None \<Rightarrow> [] | Some sk \<Rightarrow> concat (sk_in sk))"

lemma sk_segments_concat: "concat (sk_segments sk) = concat (sk_in sk)"
proof -
  have "concat (filter (\<lambda>s. s \<noteq> []) xs) = concat xs" for xs :: "u8 list list" by (induction xs) auto
  then show ?thesis by (simp add: sk_segments_def)
qed

lemma sk_recv_cases:
  assumes "sk_recv len sk = (octets, sk')"
  shows "concat (sk_in sk) = octets @ concat (sk_in sk') \<and> length octets \<le> len \<and> (0 < len \<and> octets = [] \<longrightarrow> concat (sk_in sk) = [])"
proof (cases "sk_segments sk")
  case Nil
  then have "concat (sk_in sk) = []" using sk_segments_concat [of sk] by simp
  with Nil assms show ?thesis by (simp add: sk_recv_def)
next
  case (Cons s ss)
  then have "s \<noteq> []" unfolding sk_segments_def by (auto dest: filter_eq_ConsD)
  moreover have "concat (sk_in sk) = s @ concat ss" using sk_segments_concat [of sk] Cons by simp
  moreover have "octets = take len s" "concat (sk_in sk') = drop len s @ concat ss" using assms Cons by (auto simp: sk_recv_def)
  ultimately show ?thesis by (auto simp del: concat_eq_Nil_conv)
qed

lemma recv_data_cases:
  assumes "recv_data len c = (octets, rc, c1)"
  shows "c1 = c\<lparr>tc_poll_fd := tc_poll_fd c1\<rparr> \<and> unread c = octets @ unread c1 \<and> length octets \<le> len
    \<and> (octets \<noteq> [] \<longleftrightarrow> rc = Rc_ok) \<and> (tc_active c \<and> 0 < len \<and> rc \<noteq> Rc_ok \<longrightarrow> unread c = [])
    \<and> (tc_poll_fd c1 = None \<longleftrightarrow> tc_poll_fd c = None)"
proof (cases "tc_active c \<and> tcp_poll (tc_poll_fd c)")
  case False
  then have "unread c = []" if "tc_active c"
    using that sk_segments_concat by (auto simp: tcp_poll_def unread_def simp flip: sk_segments_concat split: option.splits)
  with False assms show ?thesis by (auto simp: recv_data_def split: if_splits)
next
  case True
  then obtain sk where sk: "tc_poll_fd c = Some sk" by (cases "tc_poll_fd c") (auto simp: tcp_poll_def)
  obtain xs sk' where r: "sk_recv len sk = (xs, sk')" by fastforce
  have "octets = xs" "rc = (if xs = [] then Rc_connection_error else Rc_ok)" "c1 = c\<lparr>tc_poll_fd := Some sk'\<rparr>"
    using assms True sk r by (auto simp: recv_data_def Let_def split: if_splits)
  with sk_recv_cases [OF r] sk show ?thesis by (auto simp: unread_def simp del: concat_eq_Nil_conv Nil_eq_concat_conv)
qed

text \<open>The loop ends: a round that does not leave it reads something, or is the last.\<close>

lemma read_data_step_reads:
  assumes "read_data_step c = (ex, rv, rc, c')"
  shows "(ib_state (tc_input_buffer c) \<noteq> TCP_MESSAGE_AVAILABLE \<longrightarrow>
        length (unread c') \<le> length (unread c) \<and> (rc = Rc_ok \<longrightarrow> length (unread c') < length (unread c)))
    \<and> (ib_state (tc_input_buffer c) = TCP_MESSAGE_AVAILABLE \<longrightarrow> ex)"
proof -
  have u: "unread (c\<lparr>tc_input_buffer := b\<rparr>) = unread c" for c :: "'a TCPConnection" and b by (simp add: unread_def)
  have r: "length (unread c1) \<le> length (unread c0) \<and> (rc = Rc_ok \<longrightarrow> length (unread c1) < length (unread c0))"
    if "recv_data n c0 = (octets, rc, c1)" for n octets rc and c0 c1 :: "'a TCPConnection"
    using recv_data_cases [OF that] by auto
  show ?thesis using assms
    by (cases "ib_state (tc_input_buffer c)") (auto simp: read_data_step_def Let_def u dest!: r split: prod.splits if_splits)
qed

function read_data :: "'e TCPConnection \<Rightarrow> u16 \<times> TransportRc \<times> 'e TCPConnection" where
  "read_data c =
     (case read_data_step c of
        (exit_flag, rv, rc, c') \<Rightarrow> if \<not> exit_flag \<and> rc = Rc_ok then read_data c' else (rv, rc, c'))"
  by pat_completeness auto
termination
proof (relation "measure (\<lambda>c. length (unread c))", goal_cases)
  case (2 c ex p rv q rc c')
  then show ?case using read_data_step_reads [of c ex rv rc c'] by auto
qed simp

declare read_data.simps [simp del]

subsection \<open>The stream of messages\<close>

text \<open>The specification: a stream cut into its complete messages and what follows them; empty messages are dropped.\<close>

function tcp_parse :: "u8 list \<Rightarrow> u8 list list \<times> u8 list" where
  "tcp_parse (a # b # xs) =
     (let n = unat (msg_size_of a b)
      in if n \<le> length xs
         then let (ms, rest) = tcp_parse (drop n xs) in (if n = 0 then ms else take n xs # ms, rest)
         else ([], a # b # xs))"
| "tcp_parse [] = ([], [])"
| "tcp_parse [a] = ([], [a])"
  by pat_completeness auto
termination by (relation "measure length") simp_all

declare tcp_parse.simps(1) [simp del]

definition size_octets :: "u16 \<Rightarrow> u8 list" where
  "size_octets n = [ucast n, ucast (drop_bit 8 n)]"

lemma octet_in_size [simp]: "(ucast (ucast a :: u16) :: u8) = a"
  by (rule bit_word_eqI) (auto simp: bit_simps dest: bit_imp_le_length)

lemma msg_size_octets [simp]:
  "ucast (msg_size_of a b) = a" "ucast (drop_bit 8 (msg_size_of a b)) = b" "msg_size_of (ucast n) (ucast (drop_bit 8 n)) = n"
  unfolding msg_size_of_def by (rule bit_word_eqI; auto simp: bit_simps dest: bit_imp_le_length)+

text \<open>What has been read of the message that is not complete.\<close>

definition partial_frame :: "TCPInputBuffer \<Rightarrow> u8 list" where
  "partial_frame ib = (case ib_state ib of
       TCP_BUFFER_EMPTY \<Rightarrow> []
     | TCP_SIZE_INCOMPLETE \<Rightarrow> [ucast (ib_msg_size ib)]
     | TCP_SIZE_READ \<Rightarrow> size_octets (ib_msg_size ib)
     | TCP_MESSAGE_INCOMPLETE \<Rightarrow> size_octets (ib_msg_size ib) @ take (unat (ib_position ib)) (ib_buffer ib)
     | TCP_MESSAGE_AVAILABLE \<Rightarrow> size_octets (ib_msg_size ib) @ ib_buffer ib)"

definition ib_ok :: "TCPInputBuffer \<Rightarrow> bool" where
  "ib_ok ib = (case ib_state ib of
       TCP_BUFFER_EMPTY \<Rightarrow> True
     | TCP_SIZE_INCOMPLETE \<Rightarrow> ib_msg_size ib = ucast (ucast (ib_msg_size ib) :: u8)
     | TCP_SIZE_READ \<Rightarrow> ib_msg_size ib \<noteq> 0
     | TCP_MESSAGE_INCOMPLETE \<Rightarrow> length (ib_buffer ib) = unat (ib_msg_size ib) \<and> ib_position ib < ib_msg_size ib
     | TCP_MESSAGE_AVAILABLE \<Rightarrow> length (ib_buffer ib) = unat (ib_msg_size ib) \<and> ib_msg_size ib \<noteq> 0)"

lemma parse_empty_message: "msg_size_of a b = 0 \<Longrightarrow> tcp_parse (a # b # xs) = tcp_parse xs"
  by (simp add: tcp_parse.simps(1) split: prod.split)

lemma parse_message:
  "length m = unat n \<Longrightarrow> n \<noteq> 0 \<Longrightarrow> tcp_parse (size_octets n @ m @ xs) = (m # fst (tcp_parse xs), snd (tcp_parse xs))"
  by (simp add: size_octets_def tcp_parse.simps(1) unat_eq_0 split: prod.split)

lemma parse_partial:
  assumes "ib_ok ib" and "ib_state ib \<noteq> TCP_MESSAGE_AVAILABLE"
  shows "tcp_parse (partial_frame ib) = ([], partial_frame ib)"
proof (cases "ib_state ib")
  case TCP_SIZE_READ
  then show ?thesis using assms by (simp add: partial_frame_def ib_ok_def size_octets_def tcp_parse.simps(1) unat_eq_0)
next
  case TCP_MESSAGE_INCOMPLETE
  then show ?thesis using assms
    by (simp add: partial_frame_def ib_ok_def size_octets_def tcp_parse.simps(1) word_less_nat_alt)
qed (use assms in \<open>simp_all add: partial_frame_def\<close>)

lemma write_at_end:
  "p + length ys \<le> length xs \<Longrightarrow> take (p + length ys) (write_at p ys xs) = take p xs @ ys"
  "p + length ys \<le> length xs \<Longrightarrow> length (write_at p ys xs) = length xs"
  by (simp_all add: write_at_def)

lemma vector_resize_length [simp]: "length (vector_resize n xs) = n"
  by (simp add: vector_resize_def)

definition stream :: "'e TCPConnection \<Rightarrow> u8 list" where
  "stream c = partial_frame (tc_input_buffer c) @ unread c"

definition same_peer :: "'e TCPConnection \<Rightarrow> 'e TCPConnection \<Rightarrow> bool" where
  "same_peer c c' \<longleftrightarrow> tc_id c' = tc_id c \<and> tc_active c' = tc_active c \<and> tc_endpoint c' = tc_endpoint c
     \<and> (tc_poll_fd c' = None \<longleftrightarrow> tc_poll_fd c = None)"

definition reads_on :: "'e TCPConnection \<Rightarrow> 'e TCPConnection \<Rightarrow> bool" where
  "reads_on c c' \<longleftrightarrow> same_peer c c' \<and> ib_ok (tc_input_buffer c') \<and> (\<forall>x. tcp_parse (stream c' @ x) = tcp_parse (stream c @ x))"

lemma recv_step:
  assumes "recv_data len c = (octets, rc, c1)"
  shows "tc_input_buffer c1 = tc_input_buffer c" "same_peer c c1" "unread c = octets @ unread c1"
proof -
  note r = recv_data_cases [OF assms]
  have e: "c1 = c\<lparr>tc_poll_fd := tc_poll_fd c1\<rparr>" using r by blast
  have fields: "tc_input_buffer c1 = tc_input_buffer c" "tc_id c1 = tc_id c" "tc_active c1 = tc_active c" "tc_endpoint c1 = tc_endpoint c"
    using arg_cong [OF e, of tc_input_buffer] arg_cong [OF e, of tc_id] arg_cong [OF e, of tc_active] arg_cong [OF e, of tc_endpoint]
    by simp_all
  then show "tc_input_buffer c1 = tc_input_buffer c" "same_peer c c1" "unread c = octets @ unread c1"
    using r unfolding same_peer_def by blast+
qed

lemma reads_onI:
  assumes "recv_data len c0 = (octets, rc, c1)" and "same_peer c c0" and "unread c = unread c0" and "ib_ok ib"
    and "\<And>x. tcp_parse (partial_frame ib @ x) = tcp_parse (partial_frame (tc_input_buffer c) @ octets @ x)"
  shows "reads_on c (c1\<lparr>tc_input_buffer := ib\<rparr>)"
  using assms recv_step [OF assms(1)] by (auto simp: reads_on_def same_peer_def stream_def unread_def)

lemma unat_length_octets: "length octets \<le> unat (n :: u16) \<Longrightarrow> unat (of_nat (length octets) :: u16) = length octets"
proof -
  have "unat n < 65536" using unsigned_less [where w = n and 'a = nat] by simp
  then show "length octets \<le> unat n \<Longrightarrow> unat (of_nat (length octets) :: u16) = length octets" by (simp add: unat_of_nat)
qed

lemma step_empty:
  assumes "ib_state (tc_input_buffer c) = TCP_BUFFER_EMPTY" and "read_data_step c = (ex, rv, rc, c')"
  shows "\<not> ex \<and> rv = 0 \<and> reads_on c c'"
proof -
  let ?cc = "c\<lparr>tc_input_buffer := (tc_input_buffer c)\<lparr>ib_position := 0\<rparr>\<rparr>"
  obtain octets rc1 c1 where r: "recv_data 2 ?cc = (octets, rc1, c1)" by (metis prod_cases3)
  have buffer: "tc_input_buffer c1 = (tc_input_buffer c)\<lparr>ib_position := 0\<rparr>" using recv_step(1) [OF r] by simp
  have peer: "same_peer c ?cc" "unread c = unread ?cc" by (simp_all add: same_peer_def unread_def)
  note on = reads_onI [OF r peer]
  have "length octets \<le> 2" using recv_data_cases [OF r] by blast
  then consider "octets = []" | a where "octets = [a]" | a b where "octets = [a, b]" by (auto simp: le_Suc_eq length_Suc_conv numeral_2_eq_2)
  then show ?thesis
  proof cases
    case 1
    then have "\<not> ex \<and> rv = 0" "c' = c1\<lparr>tc_input_buffer := (tc_input_buffer c)\<lparr>ib_position := 0\<rparr>\<rparr>"
      using assms r buffer by (auto simp: read_data_step_def)
    then show ?thesis using on [of "(tc_input_buffer c)\<lparr>ib_position := 0\<rparr>"] assms(1) 1
      by (simp add: ib_ok_def partial_frame_def)
  next
    case (2 a)
    then show ?thesis using assms r buffer on [of "(tc_input_buffer c)\<lparr>ib_position := 0, ib_msg_size := ucast a, ib_state := TCP_SIZE_INCOMPLETE\<rparr>"]
      by (auto simp: read_data_step_def Let_def ib_ok_def partial_frame_def)
  next
    case (3 a b)
    let ?n = "msg_size_of a b"
    let ?ib = "(tc_input_buffer c)\<lparr>ib_position := 0, ib_msg_size := ?n, ib_state := (if ?n \<noteq> 0 then TCP_SIZE_READ else TCP_BUFFER_EMPTY)\<rparr>"
    have "tcp_parse (partial_frame ?ib @ x) = tcp_parse (partial_frame (tc_input_buffer c) @ octets @ x)" for x
      using 3 assms(1) parse_empty_message [of a b x] msg_size_octets(1,2) [of a b]
      by (auto simp: partial_frame_def size_octets_def)
    from on [OF _ this] have "reads_on c (c1\<lparr>tc_input_buffer := ?ib\<rparr>)" by (simp add: ib_ok_def)
    moreover have "\<not> ex \<and> rv = 0" "c' = c1\<lparr>tc_input_buffer := ?ib\<rparr>"
      using assms r buffer 3 by (auto simp: read_data_step_def Let_def)
    ultimately show ?thesis by simp
  qed
qed

lemma step_size_incomplete:
  assumes "ib_state (tc_input_buffer c) = TCP_SIZE_INCOMPLETE" and "ib_ok (tc_input_buffer c)" and "read_data_step c = (ex, rv, rc, c')"
  shows "\<not> ex \<and> rv = 0 \<and> reads_on c c'"
proof -
  let ?old = "tc_input_buffer c"
  obtain octets rc1 c1 where r: "recv_data 1 c = (octets, rc1, c1)" by (metis prod_cases3)
  note buffer = recv_step(1) [OF r]
  have peer: "same_peer c c" by (simp add: same_peer_def)
  note on = reads_onI [OF r peer refl]
  have "length octets \<le> 1" using recv_data_cases [OF r] by blast
  then consider "octets = []" | b where "octets = [b]" by (auto simp: le_Suc_eq length_Suc_conv)
  then show ?thesis
  proof cases
    case 1
    then have "\<not> ex \<and> rv = 0" "c' = c1\<lparr>tc_input_buffer := ?old\<rparr>" using assms r buffer by (auto simp: read_data_step_def)
    then show ?thesis using on [of ?old] assms(2) 1 by simp
  next
    case (2 b)
    let ?a = "ucast (ib_msg_size ?old) :: u8"
    let ?n = "msg_size_of ?a b"
    have a: "ib_msg_size ?old = ucast ?a" using assms(1,2) by (simp add: ib_ok_def)
    then have n: "push_bit 8 (ucast b) OR ib_msg_size ?old = ?n" by (metis msg_size_of_def)
    let ?ib = "?old\<lparr>ib_msg_size := ?n, ib_state := (if ?n \<noteq> 0 then TCP_SIZE_READ else TCP_BUFFER_EMPTY)\<rparr>"
    have "tcp_parse (partial_frame ?ib @ x) = tcp_parse (partial_frame ?old @ octets @ x)" for x
      using 2 assms(1) parse_empty_message [of ?a b x] msg_size_octets(1,2) [of ?a b]
      by (auto simp: partial_frame_def size_octets_def)
    from on [OF _ this] have "reads_on c (c1\<lparr>tc_input_buffer := ?ib\<rparr>)" by (simp add: ib_ok_def)
    moreover have "\<not> ex \<and> rv = 0" "c' = c1\<lparr>tc_input_buffer := ?ib\<rparr>"
      using assms r buffer 2 n by (auto simp: read_data_step_def Let_def)
    ultimately show ?thesis by simp
  qed
qed

lemma step_size_read:
  assumes "ib_state (tc_input_buffer c) = TCP_SIZE_READ" and "ib_ok (tc_input_buffer c)" and "read_data_step c = (ex, rv, rc, c')"
  shows "(ex \<longrightarrow> rc = Rc_ok) \<and> rv = 0 \<and> reads_on c c'"
proof -
  let ?old = "tc_input_buffer c"
  let ?n = "ib_msg_size ?old"
  let ?buffer = "vector_resize (unat ?n) (ib_buffer ?old)"
  obtain octets rc1 c1 where r: "recv_data (unat ?n) c = (octets, rc1, c1)" by (metis prod_cases3)
  note buffer = recv_step(1) [OF r]
  have peer: "same_peer c c" by (simp add: same_peer_def)
  note on = reads_onI [OF r peer refl]
  have len: "length octets \<le> unat ?n" and rc: "octets \<noteq> [] \<longleftrightarrow> rc1 = Rc_ok" using recv_data_cases [OF r] by blast+
  note received = unat_length_octets [OF len]
  have w: "take (length octets) (write_at 0 octets ?buffer) = octets" "length (write_at 0 octets ?buffer) = unat ?n"
    using write_at_end [of 0 octets ?buffer] len by simp_all
  have n0: "?n \<noteq> 0" using assms(1,2) by (simp add: ib_ok_def)
  consider "octets = []" | (full) "octets \<noteq> []" "length octets = unat ?n" | (part) "octets \<noteq> []" "length octets < unat ?n" using len by linarith
  then show ?thesis
  proof cases
    case 1
    then have "rv = 0" "\<not> ex" "c' = c1\<lparr>tc_input_buffer := ?old\<lparr>ib_buffer := write_at 0 [] ?buffer\<rparr>\<rparr>" using assms r buffer by (auto simp: read_data_step_def Let_def)
    then show ?thesis using on [of "?old\<lparr>ib_buffer := write_at 0 [] ?buffer\<rparr>"] assms(1) n0 1 by (simp add: ib_ok_def partial_frame_def)
  next
    case full
    let ?ib = "?old\<lparr>ib_buffer := write_at 0 octets ?buffer, ib_state := TCP_MESSAGE_AVAILABLE\<rparr>"
    have "(of_nat (length octets) :: u16) = ?n" using full by simp
    then have "rv = 0" "\<not> ex" "c' = c1\<lparr>tc_input_buffer := ?ib\<rparr>" using full assms r by (auto simp: read_data_step_def Let_def)
    then show ?thesis using on [of ?ib] assms(1) n0 w full by (simp add: ib_ok_def partial_frame_def)
  next
    case part
    let ?ib = "?old\<lparr>ib_buffer := write_at 0 octets ?buffer, ib_position := of_nat (length octets), ib_state := TCP_MESSAGE_INCOMPLETE\<rparr>"
    have "(of_nat (length octets) :: u16) \<noteq> ?n" "(of_nat (length octets) :: u16) < ?n"
      using part received by (auto simp: word_less_nat_alt)
    moreover from this have "rv = 0" "rc = rc1" "c' = c1\<lparr>tc_input_buffer := ?ib\<rparr>" using part assms r by (auto simp: read_data_step_def Let_def)
    ultimately show ?thesis using on [of ?ib] assms(1) w part received rc by (simp add: ib_ok_def partial_frame_def)
  qed
qed

lemma step_message_incomplete:
  assumes "ib_state (tc_input_buffer c) = TCP_MESSAGE_INCOMPLETE" and "ib_ok (tc_input_buffer c)" and "read_data_step c = (ex, rv, rc, c')"
  shows "(ex \<longrightarrow> rc = Rc_ok) \<and> rv = 0 \<and> reads_on c c'"
proof -
  let ?old = "tc_input_buffer c"
  let ?n = "ib_msg_size ?old" and ?p = "ib_position ?old" and ?b = "ib_buffer ?old"
  obtain octets rc1 c1 where r: "recv_data (length ?b - unat ?p) c = (octets, rc1, c1)" by (metis prod_cases3)
  note buffer = recv_step(1) [OF r]
  have peer: "same_peer c c" by (simp add: same_peer_def)
  note on = reads_onI [OF r peer refl]
  have b: "length ?b = unat ?n" "unat ?p < unat ?n" using assms(1,2) by (simp_all add: ib_ok_def word_less_nat_alt)
  have len: "unat ?p + length octets \<le> unat ?n" and rc: "octets \<noteq> [] \<longleftrightarrow> rc1 = Rc_ok"
    using recv_data_cases [OF r] b by auto
  have "unat ?n < 65536" using unsigned_less [where w = ?n and 'a = nat] by simp
  then have position: "unat (?p + of_nat (length octets)) = unat ?p + length octets"
    using len by (simp add: unat_word_ariths unat_of_nat)
  let ?w = "write_at (unat ?p) octets ?b"
  have w: "take (unat ?p + length octets) ?w = take (unat ?p) ?b @ octets" "length ?w = unat ?n"
    using write_at_end [of "unat ?p" octets ?b] len b by simp_all
  consider "octets = []" | (full) "octets \<noteq> []" "?p + of_nat (length octets) = ?n" | (part) "octets \<noteq> []" "?p + of_nat (length octets) \<noteq> ?n" by blast
  then show ?thesis
  proof cases
    case 1
    then have "rv = 0" "\<not> ex" "c' = c1\<lparr>tc_input_buffer := ?old\<rparr>" using assms r buffer by (auto simp: read_data_step_def Let_def)
    then show ?thesis using on [of ?old] assms(2) 1 by simp
  next
    case full
    let ?ib = "?old\<lparr>ib_buffer := ?w, ib_position := ?n, ib_state := TCP_MESSAGE_AVAILABLE\<rparr>"
    have "rv = 0" "\<not> ex" "c' = c1\<lparr>tc_input_buffer := ?ib\<rparr>" using full assms r by (auto simp: read_data_step_def Let_def)
    moreover have "?w = take (unat ?p) ?b @ octets" using w full position by (metis order_refl take_all)
    moreover have "?n \<noteq> 0" using b by auto
    ultimately show ?thesis using on [of ?ib] assms(1) w full by (simp add: ib_ok_def partial_frame_def)
  next
    case part
    let ?ib = "?old\<lparr>ib_buffer := ?w, ib_position := ?p + of_nat (length octets)\<rparr>"
    have "unat ?p + length octets \<noteq> unat ?n" using part(2) position by (metis unsigned_word_eqI)
    then have "?p + of_nat (length octets) < ?n" using len position by (simp add: word_less_nat_alt)
    moreover have "rv = 0" "rc = rc1" "c' = c1\<lparr>tc_input_buffer := ?ib\<rparr>" using part assms r by (auto simp: read_data_step_def Let_def)
    ultimately show ?thesis using on [of ?ib] assms(1) w part position rc by (simp add: ib_ok_def partial_frame_def)
  qed
qed

lemma step_reads_on:
  assumes "ib_ok (tc_input_buffer c)" and "ib_state (tc_input_buffer c) \<noteq> TCP_MESSAGE_AVAILABLE" and "read_data_step c = (ex, rv, rc, c')"
  shows "(ex \<longrightarrow> rc = Rc_ok) \<and> rv = 0 \<and> reads_on c c'"
  using assms step_empty [OF _ assms(3)] step_size_incomplete [OF _ assms(1,3)] step_size_read [OF _ assms(1,3)]
    step_message_incomplete [OF _ assms(1,3)] by (cases "ib_state (tc_input_buffer c)") auto

lemma step_recv:
  assumes "ib_state (tc_input_buffer c) \<noteq> TCP_MESSAGE_AVAILABLE" and "read_data_step c = (ex, rv, rc, c')"
  shows "(ib_state (tc_input_buffer c') = TCP_MESSAGE_AVAILABLE \<longrightarrow> \<not> ex \<and> rc = Rc_ok)
    \<and> (ib_ok (tc_input_buffer c) \<and> tc_active c \<and> unread c \<noteq> [] \<longrightarrow> rc = Rc_ok)"
proof -
  have buffer: "tc_input_buffer c1 = tc_input_buffer c0" "octets \<noteq> [] \<longleftrightarrow> rc1 = Rc_ok"
      "tc_active c0 \<and> 0 < n \<and> rc1 \<noteq> Rc_ok \<Longrightarrow> unread c0 = []"
    if "recv_data n c0 = (octets, rc1, c1)" for n octets rc1 and c0 c1 :: "'a TCPConnection"
    using recv_step(1) [OF that] recv_data_cases [OF that] by auto
  have u: "unread (c\<lparr>tc_input_buffer := b\<rparr>) = unread c" for b by (simp add: unread_def)
  show ?thesis
  proof (cases "ib_state (tc_input_buffer c)")
    case TCP_BUFFER_EMPTY
    obtain octets rc1 c1 where r: "recv_data 2 (c\<lparr>tc_input_buffer := (tc_input_buffer c)\<lparr>ib_position := 0\<rparr>\<rparr>) = (octets, rc1, c1)"
      by (metis prod_cases3)
    with buffer [OF r] TCP_BUFFER_EMPTY assms show ?thesis by (auto simp: read_data_step_def Let_def u split: if_splits)
  next
    case TCP_SIZE_INCOMPLETE
    obtain octets rc1 c1 where r: "recv_data 1 c = (octets, rc1, c1)" by (metis prod_cases3)
    with buffer [OF r] TCP_SIZE_INCOMPLETE assms show ?thesis by (auto simp: read_data_step_def Let_def split: if_splits)
  next
    case TCP_SIZE_READ
    obtain octets rc1 c1 where r: "recv_data (unat (ib_msg_size (tc_input_buffer c))) c = (octets, rc1, c1)" by (metis prod_cases3)
    with buffer [OF r] TCP_SIZE_READ assms show ?thesis
      by (auto simp: read_data_step_def Let_def ib_ok_def unat_gt_0 split: if_splits)
  next
    case TCP_MESSAGE_INCOMPLETE
    let ?len = "length (ib_buffer (tc_input_buffer c)) - unat (ib_position (tc_input_buffer c))"
    have len: "0 < ?len" if "ib_ok (tc_input_buffer c)" using that TCP_MESSAGE_INCOMPLETE by (simp add: ib_ok_def word_less_nat_alt)
    obtain octets rc1 c1 where r: "recv_data ?len c = (octets, rc1, c1)" by (metis prod_cases3)
    with buffer [OF r] len TCP_MESSAGE_INCOMPLETE assms show ?thesis by (auto simp: read_data_step_def Let_def split: if_splits)
  qed (use assms in simp)
qed

lemma read_data_stream:
  assumes "ib_ok (tc_input_buffer c)" and "read_data c = (rv, rc, c')"
  shows "same_peer c c' \<and> ib_ok (tc_input_buffer c') \<and> ib_state (tc_input_buffer c') \<noteq> TCP_MESSAGE_AVAILABLE
    \<and> length (unread c') \<le> length (unread c) \<and> (rv \<noteq> 0 \<longrightarrow> rc = Rc_ok \<and> length (ib_buffer (tc_input_buffer c')) = unat rv)
    \<and> (\<forall>x. tcp_parse (stream c @ x) = ((if rv \<noteq> 0 then [ib_buffer (tc_input_buffer c')] else []) @ fst (tcp_parse (stream c' @ x)), snd (tcp_parse (stream c' @ x))))"
  using assms
proof (induction c arbitrary: rv rc c' rule: read_data.induct)
  case (1 c)
  obtain ex rv1 rc1 c1 where step: "read_data_step c = (ex, rv1, rc1, c1)" by (metis prod_cases4)
  show ?case
  proof (cases "ib_state (tc_input_buffer c) = TCP_MESSAGE_AVAILABLE")
    case True
    let ?ib = "tc_input_buffer c"
    have "rv = ib_msg_size ?ib" "rc = Rc_ok" "c' = c\<lparr>tc_input_buffer := ?ib\<lparr>ib_state := TCP_BUFFER_EMPTY\<rparr>\<rparr>"
      using 1(3) True by (auto simp: read_data.simps [of c] read_data_step_def Let_def)
    with True 1(2) show ?thesis
      by (auto simp: same_peer_def ib_ok_def unread_def stream_def partial_frame_def parse_message)
  next
    case False
    from step_reads_on [OF 1(2) False step] have on: "rv1 = 0" "reads_on c c1" "ex \<longrightarrow> rc1 = Rc_ok" by auto
    note fin = step_recv [OF False step] and less = read_data_step_reads [OF step]
    show ?thesis
    proof (cases "\<not> ex \<and> rc1 = Rc_ok")
      case True
      then have "read_data c1 = (rv, rc, c')" using 1(3) step by (simp add: read_data.simps [of c])
      from 1(1) [OF step [symmetric] refl refl True _ this] on False less show ?thesis
        by (auto simp: reads_on_def same_peer_def)
    next
      case exit: False
      then have "rv = rv1" "rc = rc1" "c' = c1" using 1(3) step by (auto simp: read_data.simps [of c] split: if_splits)
      with on fin False less exit show ?thesis by (auto simp: reads_on_def)
    qed
  qed
qed

lemma read_data_progress:
  assumes "ib_ok (tc_input_buffer c)" and "ib_state (tc_input_buffer c) \<noteq> TCP_MESSAGE_AVAILABLE" and "tc_active c" and "unread c \<noteq> []"
    and "read_data c = (rv, rc, c')"
  shows "length (unread c') < length (unread c)"
proof -
  obtain ex rv1 rc1 c1 where step: "read_data_step c = (ex, rv1, rc1, c1)" by (metis prod_cases4)
  have "rc1 = Rc_ok" using step_recv [OF assms(2) step] assms(1,3,4) by blast
  then have less: "length (unread c1) < length (unread c)" using read_data_step_reads [OF step] assms(2) by blast
  have "ib_ok (tc_input_buffer c1)" using step_reads_on [OF assms(1,2) step] by (simp add: reads_on_def)
  from read_data_stream [OF this] have "length (unread c') \<le> length (unread c1)" if "read_data c1 = (rv, rc, c')" using that by blast
  with less assms(5) step show ?thesis by (auto simp: read_data.simps [of c] split: if_splits)
qed

text \<open>Segments arrive, and the connection is read once; what \<open>read_message\<close> makes of it is a message.\<close>

definition arrive :: "u8 list list \<Rightarrow> 'e TCPConnection \<Rightarrow> 'e TCPConnection" where
  "arrive segments c = c\<lparr>tc_poll_fd := map_option (\<lambda>sk. sk\<lparr>sk_in := sk_in sk @ segments\<rparr>) (tc_poll_fd c)\<rparr>"

fun tcp_reads :: "u8 list list list \<Rightarrow> 'e TCPConnection \<Rightarrow> u8 list list \<times> 'e TCPConnection" where
  "tcp_reads [] c = ([], c)"
| "tcp_reads (segments # arrivals) c =
     (case read_data (arrive segments c) of
        (rv, rc, c1) \<Rightarrow>
          (case tcp_reads arrivals c1 of
             (ms, c2) \<Rightarrow> ((if rc = Rc_ok \<and> 0 < rv then [take (unat rv) (ib_buffer (tc_input_buffer c1))] else []) @ ms, c2)))"

lemma arrive_stream:
  "tc_poll_fd c \<noteq> None \<Longrightarrow> unread (arrive segments c) = unread c @ concat segments"
  "tc_input_buffer (arrive segments c) = tc_input_buffer c" "same_peer c (arrive segments c)"
  by (auto simp: arrive_def unread_def same_peer_def)

lemma tcp_reads_parse:
  assumes "ib_ok (tc_input_buffer c)" and "ib_state (tc_input_buffer c) \<noteq> TCP_MESSAGE_AVAILABLE" and "tc_poll_fd c \<noteq> None"
    and "tcp_reads arrivals c = (ms, c')"
  shows "same_peer c c' \<and> ib_ok (tc_input_buffer c') \<and> ib_state (tc_input_buffer c') \<noteq> TCP_MESSAGE_AVAILABLE
    \<and> (\<forall>x. tcp_parse (stream c @ concat (concat arrivals) @ x) = (ms @ fst (tcp_parse (stream c' @ x)), snd (tcp_parse (stream c' @ x))))"
  using assms
proof (induction arrivals arbitrary: c ms)
  case (Cons segments arrivals)
  let ?c = "arrive segments c"
  obtain rv rc c1 where r: "read_data ?c = (rv, rc, c1)" by (metis prod_cases3)
  obtain ms1 where rs: "tcp_reads arrivals c1 = (ms1, c')" using Cons.prems(4) r by (auto split: prod.splits)
  have ok: "ib_ok (tc_input_buffer ?c)" using Cons.prems(1) by (simp add: arrive_stream)
  have stream: "stream ?c = stream c @ concat segments" using Cons.prems(3) by (simp add: stream_def arrive_stream)
  note one = read_data_stream [OF ok r]
  have fd: "tc_poll_fd c1 \<noteq> None" using one arrive_stream(3) [of c segments] Cons.prems(3) by (auto simp: same_peer_def)
  have m: "(if rc = Rc_ok \<and> 0 < rv then [take (unat rv) (ib_buffer (tc_input_buffer c1))] else [])
      = (if rv \<noteq> 0 then [ib_buffer (tc_input_buffer c1)] else [])" using one by (auto simp: word_gt_0)
  from Cons.IH [OF _ _ fd rs] one have rest: "same_peer c1 c'" "ib_ok (tc_input_buffer c')" "ib_state (tc_input_buffer c') \<noteq> TCP_MESSAGE_AVAILABLE"
    "\<And>x. tcp_parse (stream c1 @ concat (concat arrivals) @ x) = (ms1 @ fst (tcp_parse (stream c' @ x)), snd (tcp_parse (stream c' @ x)))" by auto
  have "ms = (if rv \<noteq> 0 then [ib_buffer (tc_input_buffer c1)] else []) @ ms1" using Cons.prems(4) r rs m by auto
  moreover have "same_peer c c'" using arrive_stream(3) [of c segments] one rest(1) by (auto simp: same_peer_def)
  moreover have "tcp_parse (stream c @ concat (concat (segments # arrivals)) @ x) = tcp_parse (stream ?c @ concat (concat arrivals) @ x)" for x
    by (simp add: stream)
  ultimately show ?case using one rest by simp
qed (simp add: same_peer_def)

lemma tcp_reads_drain:
  assumes "ib_ok (tc_input_buffer c)" and "ib_state (tc_input_buffer c) \<noteq> TCP_MESSAGE_AVAILABLE" and "tc_active c"
    and "length (unread c) \<le> n" and "tcp_reads (replicate n []) c = (ms, c')"
  shows "unread c' = []"
  using assms
proof (induction n arbitrary: c ms)
  case (Suc n)
  have a: "arrive [] c = c" by (cases "tc_poll_fd c") (simp_all add: arrive_def)
  obtain rv rc c1 where r: "read_data c = (rv, rc, c1)" by (metis prod_cases3)
  note one = read_data_stream [OF Suc.prems(1) r]
  have "length (unread c1) \<le> n"
    using read_data_progress [OF Suc.prems(1-3) _ r] one Suc.prems(4) by (cases "unread c = []") auto
  moreover obtain ms1 where "tcp_reads (replicate n []) c1 = (ms1, c')"
    using Suc.prems(5) r by (auto simp: a split: prod.splits)
  ultimately show ?case using Suc.IH [of c1 ms1] one Suc.prems(3) by (simp add: same_peer_def)
qed simp

subsection \<open>Writing\<close>

definition max_attemps :: nat where "max_attemps = 16"

definition msg_size_buf :: "nat \<Rightarrow> u8 list" where
  "msg_size_buf len = (let n = of_nat len :: 64 word in [ucast (0x00FF AND n), ucast (drop_bit 8 (0xFF00 AND n))])"

text \<open>
  The loop that sends the size: the attempts that are left, the octets sent, the state of the transport.  Every attempt
  starts from the first octet, whatever has been sent before.
\<close>

fun send_size :: "nat \<Rightarrow> u16 \<Rightarrow> TransportRc \<Rightarrow> u8 list \<Rightarrow> 'e TCPConnection \<Rightarrow> bool \<times> TransportRc \<times> 'e TCPConnection" where
  "send_size 0 bytes_sent rc buf c = (False, rc, c)"
| "send_size (Suc n) bytes_sent rc buf c =
     (case send_data buf c of
        (send_rv, rc', c1) \<Rightarrow>
          if 0 < send_rv
          then let bytes_sent' = bytes_sent + of_nat send_rv
               in if bytes_sent' = 2 then (True, rc', c1) else send_size n bytes_sent' rc' buf c1
          else if rc' \<noteq> Rc_ok then (False, rc', c1)
          else send_size n bytes_sent rc' buf c1)"

text \<open>The loop that sends the octets of the message.\<close>

fun send_octets :: "nat \<Rightarrow> u16 \<Rightarrow> TransportRc \<Rightarrow> u8 list \<Rightarrow> 'e TCPConnection \<Rightarrow> bool \<times> TransportRc \<times> 'e TCPConnection" where
  "send_octets 0 bytes_sent rc buf c = (False, rc, c)"
| "send_octets (Suc n) bytes_sent rc buf c =
     (case send_data (drop (unat bytes_sent) buf) c of
        (send_rv, rc', c1) \<Rightarrow>
          if 0 < send_rv
          then let bytes_sent' = bytes_sent + of_nat send_rv
               in if bytes_sent' = of_nat (length buf) then (True, rc', c1) else send_octets n bytes_sent' rc' buf c1
          else if rc' \<noteq> Rc_ok then (False, rc', c1)
          else send_octets n bytes_sent rc' buf c1)"

definition write_message :: "u8 list \<Rightarrow> 'e TCPConnection \<Rightarrow> bool \<times> TransportRc \<times> 'e TCPConnection" where
  "write_message buf c =
     (case send_size max_attemps 0 Rc_connection_error (msg_size_buf (length buf)) c of
        (False, rc, c1) \<Rightarrow> (False, rc, c1)
      | (True, rc, c1) \<Rightarrow> send_octets max_attemps 0 rc buf c1)"

definition tcp_frame :: "u8 list \<Rightarrow> u8 list" where
  "tcp_frame m = size_octets (of_nat (length m)) @ m"

definition written :: "'e TCPConnection \<Rightarrow> u8 list" where
  "written c = (case tc_poll_fd c of None \<Rightarrow> [] | Some sk \<Rightarrow> sk_out sk)"

lemma msg_size_buf_octets: "msg_size_buf n = size_octets (of_nat n)"
proof -
  let ?n = "of_nat n :: 64 word"
  have n: "(of_nat n :: u16) = ucast ?n" by (rule bit_word_eqI) (simp add: bit_simps)
  have "(ucast (0x00FF AND ?n) :: u8) = ucast (ucast ?n :: u16)"
  proof -
    have ff: "(0x00FF :: 64 word) = mask 8" by (simp add: mask_eq_exp_minus_1)
    show ?thesis unfolding ff by (rule bit_word_eqI) (auto simp: bit_simps dest: bit_imp_le_length)
  qed
  moreover have "(ucast (drop_bit 8 (0xFF00 AND ?n)) :: u8) = ucast (drop_bit 8 (ucast ?n :: u16))"
  proof -
    have ff: "(0xFF00 :: 64 word) = push_bit 8 (mask 8)" by (simp add: mask_eq_exp_minus_1)
    show ?thesis unfolding ff by (rule bit_word_eqI) (auto simp: bit_simps dest: bit_imp_le_length)
  qed
  ultimately show ?thesis by (simp add: msg_size_buf_def size_octets_def Let_def n)
qed

lemma send_data_written:
  assumes "send_data buf c = (k, rc, c')"
  shows "k \<le> length buf \<and> written c' = written c @ take k buf"
proof (cases "tc_active c \<and> tc_poll_fd c \<noteq> None")
  case True
  then obtain sk where sk: "tc_poll_fd c = Some sk" by auto
  obtain n sk' where s: "sk_send buf sk = (n, sk')" by fastforce
  have "n = -1 \<and> sk_out sk' = sk_out sk \<or> 0 \<le> n \<and> nat n \<le> length buf \<and> sk_out sk' = sk_out sk @ take (nat n) buf"
    using s by (auto simp: sk_send_def min_def split: list.splits if_splits)
  moreover have "(k, c') = (if n = -1 then 0 else nat n, c\<lparr>tc_poll_fd := Some sk'\<rparr>)"
    using assms True sk s by (auto simp: send_data_def Let_def split: if_splits)
  ultimately show ?thesis using sk by (auto simp: written_def)
next
  case False
  then have "k = 0" "c' = c" using assms by (auto simp: send_data_def split: if_splits option.splits)
  then show ?thesis by simp
qed

lemma send_octets_written:
  assumes "length buf < 65536" and "unat sent < length buf" and "send_octets n sent rc buf c = (ok, rc', c')"
  shows "\<exists>k. unat sent + k \<le> length buf \<and> written c' = written c @ take k (drop (unat sent) buf) \<and> (ok \<longleftrightarrow> unat sent + k = length buf)"
  using assms
proof (induction n arbitrary: sent rc c)
  case 0
  then show ?case by (intro exI [of _ 0]) simp
next
  case (Suc n)
  obtain k rc1 c1 where s: "send_data (drop (unat sent) buf) c = (k, rc1, c1)" by (metis prod_cases3)
  have k: "unat sent + k \<le> length buf" "written c1 = written c @ take k (drop (unat sent) buf)"
    using send_data_written [OF s] Suc.prems(2) by auto
  have sent: "unat (sent + of_nat k) = unat sent + k" using k Suc.prems(1) by (simp add: unat_word_ariths unat_of_nat)
  have "unat (of_nat (length buf) :: u16) = length buf" using Suc.prems(1) by (simp add: unat_of_nat)
  then have full: "sent + of_nat k = of_nat (length buf) \<longleftrightarrow> unat sent + k = length buf"
    using sent by (metis word_unat_eq_iff)
  show ?case
  proof (cases "0 < k \<and> unat sent + k < length buf")
    case True
    then have "send_octets n (sent + of_nat k) rc1 buf c1 = (ok, rc', c')" using Suc.prems(3) s full by simp
    from Suc.IH [OF Suc.prems(1) _ this] True sent obtain j where
      j: "unat sent + k + j \<le> length buf" "written c' = written c1 @ take j (drop (unat sent + k) buf)"
        "ok \<longleftrightarrow> unat sent + k + j = length buf" by auto
    with k(2) have "written c' = written c @ take (k + j) (drop (unat sent) buf)" using take_add [of k j "drop (unat sent) buf"] by (simp add: add.commute)
    with j show ?thesis by (intro exI [of _ "k + j"]) (simp add: add.assoc)
  next
    case False
    show ?thesis
    proof (cases "k = 0 \<and> rc1 = Rc_ok")
      case True
      then have "send_octets n sent rc1 buf c1 = (ok, rc', c')" using Suc.prems(3) s by simp
      from Suc.IH [OF Suc.prems(1,2) this] k(2) True show ?thesis by simp
    next
      case stop: False
      with False k Suc.prems(2,3) s full show ?thesis by (intro exI [of _ k]) (auto split: if_splits)
    qed
  qed
qed

lemma max_attemps_Suc: obtains n where "max_attemps = Suc n" using gr0_conv_Suc [of max_attemps] by (auto simp: max_attemps_def)

lemma send_size_whole:
  assumes "send_data buf c = (2, rc1, c1)"
  shows "send_size max_attemps 0 rc buf c = (True, rc1, c1)"
proof -
  obtain n where n: "max_attemps = Suc n" by (rule max_attemps_Suc)
  have two: "(0::u16) + of_nat 2 = 2" by simp
  show ?thesis using assms unfolding n send_size.simps prod.case Let_def two by simp
qed

lemma send_data_all:
  assumes "tc_active c" and "tc_poll_fd c = Some sk" and "sk_accept sk = []"
  shows "send_data buf c = (length buf, Rc_ok, c\<lparr>tc_poll_fd := Some (sk\<lparr>sk_out := sk_out sk @ buf\<rparr>)\<rparr>)"
  using assms by (simp add: send_data_def sk_send_def)

text \<open>
  A message whose size is taken in one piece: a prefix of its frame is written, and all of it if the writing succeeds.
\<close>

lemma write_message_prefix:
  assumes "0 < length m" and "length m < 65536" and "send_data (msg_size_buf (length m)) c = (2, rc1, c1)"
    and "write_message m c = (ok, rc, c')"
  shows "\<exists>k \<le> length (tcp_frame m). written c' = written c @ take k (tcp_frame m) \<and> (ok \<longleftrightarrow> k = length (tcp_frame m))"
proof -
  let ?size = "msg_size_buf (length m)"
  have size: "length ?size = 2" by (simp add: msg_size_buf_def Let_def)
  have frame: "tcp_frame m = ?size @ m" by (simp add: tcp_frame_def msg_size_buf_octets)
  have "send_size max_attemps 0 Rc_connection_error ?size c = (True, rc1, c1)"
    by (rule send_size_whole [OF assms(3)])
  then have w: "send_octets max_attemps 0 rc1 m c1 = (ok, rc, c')" using assms(4) by (simp add: write_message_def)
  from send_octets_written [OF assms(2) _ w] assms(1) obtain k where
    k: "k \<le> length m" "written c' = written c1 @ take k m" "ok \<longleftrightarrow> k = length m" by auto
  moreover have "written c1 = written c @ ?size" using send_data_written [OF assms(3)] size by simp
  ultimately have "written c' = written c @ take (2 + k) (tcp_frame m)" using size by (simp add: frame)
  with k size show ?thesis by (intro exI [of _ "2 + k"]) (simp add: frame)
qed

lemma write_message_all:
  assumes "0 < length m" and "length m < 65536" and "tc_active c" and "tc_poll_fd c = Some sk" and "sk_accept sk = []"
  shows "write_message m c = (True, Rc_ok, c\<lparr>tc_poll_fd := Some (sk\<lparr>sk_out := sk_out sk @ tcp_frame m\<rparr>)\<rparr>)"
proof -
  let ?size = "msg_size_buf (length m)"
  let ?c = "c\<lparr>tc_poll_fd := Some (sk\<lparr>sk_out := sk_out sk @ ?size\<rparr>)\<rparr>"
  have size: "length ?size = 2" by (simp add: msg_size_buf_def Let_def)
  have sd: "send_data ?size c = (2, Rc_ok, ?c)" using send_data_all [OF assms(3-5), of ?size] size by simp
  have s: "send_size max_attemps 0 Rc_connection_error ?size c = (True, Rc_ok, ?c)"
    by (rule send_size_whole [OF sd])
  let ?c' = "?c\<lparr>tc_poll_fd := Some (sk\<lparr>sk_out := (sk_out sk @ ?size) @ m\<rparr>)\<rparr>"
  obtain n where n: "max_attemps = Suc n" by (rule max_attemps_Suc)
  have "send_data m ?c = (length m, Rc_ok, ?c')" using send_data_all [of ?c "sk\<lparr>sk_out := sk_out sk @ ?size\<rparr>" m] assms(3,5) by simp
  then have "send_octets max_attemps 0 Rc_ok m ?c = (True, Rc_ok, ?c')"
    using assms(1) unfolding n send_octets.simps by simp
  with s show ?thesis by (simp add: write_message_def tcp_frame_def msg_size_buf_octets)
qed

fun write_messages :: "u8 list list \<Rightarrow> 'e TCPConnection \<Rightarrow> 'e TCPConnection" where
  "write_messages [] c = c"
| "write_messages (m # ms) c = (case write_message m c of (ok, rc, c1) \<Rightarrow> write_messages ms c1)"

lemma write_messages_written:
  assumes "list_all (\<lambda>m. 0 < length m \<and> length m < 65536) ms" and "tc_active c" and "tc_poll_fd c = Some sk" and "sk_accept sk = []"
  shows "written (write_messages ms c) = written c @ concat (map tcp_frame ms)"
  using assms
proof (induction ms arbitrary: c sk)
  case (Cons m ms)
  let ?c = "c\<lparr>tc_poll_fd := Some (sk\<lparr>sk_out := sk_out sk @ tcp_frame m\<rparr>)\<rparr>"
  have "write_message m c = (True, Rc_ok, ?c)" using write_message_all Cons.prems by auto
  moreover have "written (write_messages ms ?c) = written ?c @ concat (map tcp_frame ms)"
    using Cons.IH [of ?c "sk\<lparr>sk_out := sk_out sk @ tcp_frame m\<rparr>"] Cons.prems by simp
  ultimately show ?case using Cons.prems(3) by (simp add: written_def)
qed simp

subsection \<open>Messages through the stream\<close>

lemma parse_frames:
  "list_all (\<lambda>m. 0 < length m \<and> length m < 65536) ms \<Longrightarrow> tcp_parse (concat (map tcp_frame ms)) = (ms, [])"
proof (induction ms)
  case (Cons m ms)
  have "unat (of_nat (length m) :: u16) = length m" using Cons.prems by (simp add: unat_of_nat)
  moreover from this Cons.prems have "(of_nat (length m) :: u16) \<noteq> 0" by auto
  ultimately show ?case using Cons by (simp add: tcp_frame_def parse_message)
qed simp

lemma tcp_reads_append:
  "tcp_reads (as @ bs) c = (case tcp_reads as c of (ms, c1) \<Rightarrow> (case tcp_reads bs c1 of (ms', c2) \<Rightarrow> (ms @ ms', c2)))"
  by (induction as arbitrary: c) (simp_all split: prod.split)

lemma tcp_reads_unread:
  assumes "ib_ok (tc_input_buffer c)" and "ib_state (tc_input_buffer c) \<noteq> TCP_MESSAGE_AVAILABLE" and "tc_poll_fd c \<noteq> None"
    and "tcp_reads arrivals c = (ms, c')"
  shows "length (unread c') \<le> length (unread c) + length (concat (concat arrivals))"
  using assms
proof (induction arrivals arbitrary: c ms)
  case (Cons segments arrivals)
  let ?c = "arrive segments c"
  obtain rv rc c1 where r: "read_data ?c = (rv, rc, c1)" by (metis prod_cases3)
  obtain ms1 where rs: "tcp_reads arrivals c1 = (ms1, c')" using Cons.prems(4) r by (auto split: prod.splits)
  have "ib_ok (tc_input_buffer ?c)" using Cons.prems(1) by (simp add: arrive_stream)
  note one = read_data_stream [OF this r]
  then have "tc_poll_fd c1 \<noteq> None" using arrive_stream(3) [of c segments] Cons.prems(3) by (auto simp: same_peer_def)
  with Cons.IH [OF _ _ _ rs] one have "length (unread c') \<le> length (unread c1) + length (concat (concat arrivals))" by blast
  moreover have "length (unread c1) \<le> length (unread c) + length (concat segments)"
    using one arrive_stream(1) [OF Cons.prems(3), of segments] by (metis length_append)
  ultimately show ?case by simp
qed simp

definition fresh_connection :: "'e TCPConnection \<Rightarrow> bool" where
  "fresh_connection c \<longleftrightarrow> ib_state (tc_input_buffer c) = TCP_BUFFER_EMPTY \<and> tc_active c \<and> tc_poll_fd c \<noteq> None \<and> unread c = []"

text \<open>C20: messages over TCP.  Whatever messages of 1 to 65535 octets one side writes to a connection that takes all octets,
  the other side reads exactly these messages, in order and complete, however the network cuts the stream into segments
  and however many segments have arrived when the connection is read (every call of \<open>read_data\<close> yields at most one
  message; the calls after the last arrival read what is left).
\<close>

theorem tcp_roundtrip:
  assumes "list_all (\<lambda>m. 0 < length m \<and> length m < 65536) ms"
    and "tc_active sender" and "tc_poll_fd sender = Some sk" and "sk_accept sk = []" and "sk_out sk = []"
    and "fresh_connection receiver"
    and "concat (concat arrivals) = written (write_messages ms sender)"
    and "length (concat (concat arrivals)) \<le> n"
  shows "fst (tcp_reads (arrivals @ replicate n []) receiver) = ms"
proof -
  let ?all = "arrivals @ replicate n []"
  have "written sender = []" using assms(3,5) by (simp add: written_def)
  then have octets: "concat (concat arrivals) = concat (map tcp_frame ms)" using write_messages_written [OF assms(1-4)] assms(7) by simp
  have empty: "concat (concat ?all) = concat (concat arrivals)" by simp
  obtain ms1 c1 ms2 c2 where r: "tcp_reads arrivals receiver = (ms1, c1)" "tcp_reads (replicate n []) c1 = (ms2, c2)" by fastforce
  then have all: "tcp_reads ?all receiver = (ms1 @ ms2, c2)" by (simp add: tcp_reads_append)
  have fresh: "ib_ok (tc_input_buffer receiver)" "ib_state (tc_input_buffer receiver) \<noteq> TCP_MESSAGE_AVAILABLE"
      "tc_poll_fd receiver \<noteq> None" "tc_active receiver" "stream receiver = []"
    using assms(6) by (simp_all add: fresh_connection_def ib_ok_def stream_def partial_frame_def)
  note one = tcp_reads_parse [OF fresh(1-3) r(1)]
  then have c1: "ib_ok (tc_input_buffer c1)" "ib_state (tc_input_buffer c1) \<noteq> TCP_MESSAGE_AVAILABLE" "tc_active c1"
    using fresh(4) by (auto simp: same_peer_def)
  have "length (unread c1) \<le> n"
    using tcp_reads_unread [OF fresh(1-3) r(1)] assms(6,8) by (simp add: fresh_connection_def)
  with tcp_reads_drain [OF c1 _ r(2)] have "unread c2 = []" by simp
  then have "stream c2 = partial_frame (tc_input_buffer c2)" by (simp add: stream_def)
  moreover note two = tcp_reads_parse [OF fresh(1-3) all]
  ultimately have "tcp_parse (stream c2) = ([], stream c2)" using parse_partial by auto
  moreover have "tcp_parse (concat (concat arrivals)) = (ms1 @ ms2 @ fst (tcp_parse (stream c2)), snd (tcp_parse (stream c2)))"
    using two fresh(5) empty by (metis append_Nil append_Nil2 append.assoc)
  ultimately show ?thesis using parse_frames [OF assms(1)] octets all by simp
qed

definition example_connection :: "nat TCPConnection" where
  "example_connection =
     \<lparr>tc_input_buffer = \<lparr>ib_buffer = [], ib_position = 0, ib_state = TCP_BUFFER_EMPTY, ib_msg_size = 0\<rparr>, tc_id = 0, tc_active = True,
      tc_endpoint = 7, tc_poll_fd = Some \<lparr>sk_in = [], sk_closed = False, sk_out = [], sk_accept = []\<rparr>\<rparr>"

theorem tcp_roundtrip_witness:
  "fst (tcp_reads ([[[3], [0, 10]], [[11, 12, 1]], [[0], [20]]] @ replicate 8 []) example_connection) = [[10, 11, 12], [20]]"
proof (rule tcp_roundtrip [of _ example_connection "\<lparr>sk_in = [], sk_closed = False, sk_out = [], sk_accept = []\<rparr>"])
  show "concat (concat [[[3], [0, 10]], [[11, 12, 1]], [[0], [20]]]) = written (write_messages [[10, 11, 12], [20]] example_connection)"
    by (subst write_messages_written [of _ _ "\<lparr>sk_in = [], sk_closed = False, sk_out = [], sk_accept = []\<rparr>"])
      (simp_all add: example_connection_def written_def tcp_frame_def size_octets_def)
qed (simp_all add: example_connection_def fresh_connection_def unread_def)

text \<open>
  The size of a message is sent from its first octet on every attempt: when \<open>send\<close> takes the two octets in two
  pieces, the first octet goes out twice, the second never does, and the message is still reported as sent.
\<close>

definition slow_connection :: "int list \<Rightarrow> nat TCPConnection" where
  "slow_connection accepts =
     example_connection\<lparr>tc_poll_fd := Some \<lparr>sk_in = [], sk_closed = False, sk_out = [], sk_accept = accepts\<rparr>\<rparr>"

lemma split_size_is_wrong:
  "fst (write_message [10, 11, 12] (slow_connection [1, 1])) \<and> written (snd (snd (write_message [10, 11, 12] (slow_connection [1, 1])))) = [3, 3, 10, 11, 12]
   \<and> tcp_frame [10, 11, 12] = [3, 0, 10, 11, 12]"
  by code_simp

text \<open>
  A message that is not through after sixteen attempts is cut: nothing is reported as lost (the state of the transport
  is \<open>ok\<close>, so that the connection stays open), and what is sent next continues the cut message at the reader.
\<close>

lemma cut_message_stays_open:
  "write_message (replicate 20 9) (slow_connection (2 # replicate 16 1)) = (False, Rc_ok, slow_connection [] \<lparr>tc_poll_fd :=
     Some \<lparr>sk_in = [], sk_closed = False, sk_out = [20, 0] @ replicate 16 9, sk_accept = []\<rparr>\<rparr>)"
  by code_simp

lemma cut_message_swallows_next:
  "tcp_parse (written (snd (snd (write_message (replicate 20 9) (slow_connection (2 # replicate 16 1))))) @ tcp_frame [1, 2, 3, 4])
     = ([replicate 16 9 @ [4, 0, 1, 2]], [3, 4])"
  by code_simp

end
