(* ===== verification/TCP_Agent.thy ===== *)
theory TCP_Agent
  imports TCP_Framing
begin

text \<open>
  The agent's TCP transport: \<open>src/cpp/transport/tcp/TCPv4AgentLinux.cpp\<close>, with its table of connections, the queue of
  the messages that have been read and its operations.  \<open>TCPv6AgentLinux.cpp\<close> is the same for other endpoints.

  The table has as many entries as \<open>TCP_MAX_CONNECTIONS\<close>; an identifier is an index into it.  What the system calls of
  \<open>init\<close> and \<open>fini\<close> return and whether \<open>poll\<close> fails are arguments; \<open>close\<close> succeeds on an open descriptor.  Each
  operation is one step: the mutexes order the operations of the listener, the receiver and the sender threads.
\<close>

subsection \<open>State\<close>

record 'e TCPAgent =
  ta_connections :: "'e TCPConnection list"
  ta_active_connections :: "nat set"
  ta_free_connections :: "nat list"
  ta_endpoint_to_connection_map :: "'e \<rightharpoonup> nat"
  ta_listener :: bool
  ta_running_cond :: bool
  ta_messages_queue :: "'e InputPacket list"

definition TCPAgent_new :: "nat \<Rightarrow> 'e \<Rightarrow> 'e TCPAgent" where
  "TCPAgent_new TCP_MAX_CONNECTIONS e =
     \<lparr>ta_connections = replicate TCP_MAX_CONNECTIONS
        \<lparr>tc_input_buffer = \<lparr>ib_buffer = [], ib_position = 0, ib_state = TCP_BUFFER_EMPTY, ib_msg_size = 0\<rparr>,
         tc_id = 0, tc_active = False, tc_endpoint = e, tc_poll_fd = None\<rparr>,
      ta_active_connections = {}, ta_free_connections = [], ta_endpoint_to_connection_map = Map.empty,
      ta_listener = False, ta_running_cond = False, ta_messages_queue = []\<rparr>"

definition init_input_buffer :: "TCPInputBuffer \<Rightarrow> TCPInputBuffer" where
  "init_input_buffer b = b\<lparr>ib_state := TCP_BUFFER_EMPTY, ib_msg_size := 0\<rparr>"

definition set_connection :: "nat \<Rightarrow> 'e TCPConnection \<Rightarrow> 'e TCPAgent \<Rightarrow> 'e TCPAgent" where
  "set_connection i c s = s\<lparr>ta_connections := (ta_connections s)[i := c]\<rparr>"

subsection \<open>Opening and closing\<close>

definition open_connection :: "tcp_socket \<Rightarrow> 'e \<Rightarrow> 'e TCPAgent \<Rightarrow> bool \<times> 'e TCPAgent" where
  "open_connection fd sockaddr s =
     (case ta_free_connections s of
        [] \<Rightarrow> (False, s)
      | i # rest \<Rightarrow>
          let c = ta_connections s ! i;
              c' = c\<lparr>tc_poll_fd := Some fd, tc_endpoint := sockaddr, tc_active := True, tc_input_buffer := init_input_buffer (tc_input_buffer c)\<rparr>
          in (True, (set_connection i c' s)
               \<lparr>ta_endpoint_to_connection_map := (ta_endpoint_to_connection_map s)(sockaddr \<mapsto> tc_id c),
                ta_active_connections := insert i (ta_active_connections s),
                ta_free_connections := rest\<rparr>))"

definition close_connection :: "nat \<Rightarrow> 'e TCPAgent \<Rightarrow> bool \<times> 'e TCPAgent" where
  "close_connection i s =
     (let c = ta_connections s ! i
      in if tc_id c \<in> ta_active_connections s \<and> tc_poll_fd c \<noteq> None
         then (True, (set_connection i (c\<lparr>tc_poll_fd := None, tc_active := False\<rparr>) s)
               \<lparr>ta_endpoint_to_connection_map := (ta_endpoint_to_connection_map s)(tc_endpoint c := None),
                ta_active_connections := ta_active_connections s - {tc_id c},
                ta_free_connections := ta_free_connections s @ [tc_id c]\<rparr>)
         else (False, s))"

definition connection_available :: "'e TCPAgent \<Rightarrow> bool" where
  "connection_available s = (ta_free_connections s \<noteq> [])"

text \<open>One round of \<open>listener_loop\<close>: what \<open>accept\<close> would yield.\<close>

definition listener_iteration :: "(tcp_socket \<times> 'e) option \<Rightarrow> 'e TCPAgent \<Rightarrow> 'e TCPAgent" where
  "listener_iteration incoming s =
     (case incoming of
        None \<Rightarrow> s
      | Some (incoming_fd, client_addr) \<Rightarrow>
          if connection_available s then snd (open_connection incoming_fd client_addr s) else s)"

definition reset_connection :: "nat \<Rightarrow> 'e TCPConnection \<Rightarrow> 'e TCPConnection" where
  "reset_connection i c =
     c\<lparr>tc_poll_fd := None, tc_id := i, tc_active := False, tc_input_buffer := init_input_buffer (tc_input_buffer c)\<rparr>"

definition tcp_init :: "bool \<Rightarrow> bool \<Rightarrow> bool \<Rightarrow> 'e TCPAgent \<Rightarrow> bool \<times> 'e TCPAgent" where
  "tcp_init socket_ok bind_ok listen_ok s =
     (if \<not> socket_ok then (False, s\<lparr>ta_listener := False\<rparr>)
      else if \<not> bind_ok then (False, s\<lparr>ta_listener := True\<rparr>)
      else let n = length (ta_connections s);
               s1 = s\<lparr>ta_listener := True, ta_connections := map2 reset_connection [0..<n] (ta_connections s),
                      ta_free_connections := ta_free_connections s @ [0..<n]\<rparr>
           in if listen_ok then (True, s1\<lparr>ta_running_cond := True\<rparr>) else (False, s1))"

definition tcp_fini :: "bool \<Rightarrow> 'e TCPAgent \<Rightarrow> bool \<times> 'e TCPAgent" where
  "tcp_fini close_ok s =
     (let s1 = s\<lparr>ta_running_cond := False, ta_listener := ta_listener s \<and> \<not> close_ok\<rparr>;
          s2 = fold (\<lambda>i t. snd (close_connection i t)) [0..<length (ta_connections s1)] s1
      in (\<not> ta_listener s2 \<and> ta_active_connections s2 = {}, s2))"

definition tcp_handle_error :: "bool \<Rightarrow> bool \<Rightarrow> bool \<Rightarrow> bool \<Rightarrow> 'e TCPAgent \<Rightarrow> bool \<times> 'e TCPAgent" where
  "tcp_handle_error close_ok socket_ok bind_ok listen_ok s =
     (case tcp_fini close_ok s of
        (True, s1) \<Rightarrow> tcp_init socket_ok bind_ok listen_ok s1
      | (False, s1) \<Rightarrow> (False, s1))"

subsection \<open>Receiving\<close>

text \<open>The body of the loop of \<open>read_message\<close>: the connection and whether \<open>poll\<close> found something to read.\<close>

definition read_connection :: "cdr \<Rightarrow> nat \<Rightarrow> bool \<Rightarrow> bool \<times> TransportRc \<times> 'e TCPAgent \<Rightarrow> bool \<times> TransportRc \<times> 'e TCPAgent" where
  "read_connection C i revents = (\<lambda>(rv, rc, s).
     if revents
     then case read_data (ta_connections s ! i) of
            (bytes_read, rc', conn) \<Rightarrow>
              let s1 = set_connection i conn s
              in if rc' = Rc_ok
                 then if 0 < bytes_read
                      then (True, rc', s1\<lparr>ta_messages_queue := ta_messages_queue s1 @
                             [\<lparr>ip_source = tc_endpoint conn,
                               ip_message = InputMessage_new C (take (unat bytes_read) (ib_buffer (tc_input_buffer conn)))\<rparr>]\<rparr>)
                      else (rv, rc', s1)
                 else (rv, rc', if rc' = Rc_connection_error then snd (close_connection i s1) else s1)
     else (rv, Rc_connection_error, s))"

definition tcp_read_message :: "cdr \<Rightarrow> bool \<Rightarrow> TransportRc \<Rightarrow> 'e TCPAgent \<Rightarrow> bool \<times> TransportRc \<times> 'e TCPAgent" where
  "tcp_read_message C poll_fails rc s =
     (if ta_active_connections s = {} then (False, rc, s)
      else let revents = map (\<lambda>c. tcp_poll (tc_poll_fd c)) (ta_connections s)
           in if poll_fails then (False, Rc_server_error, s)
              else if True \<in> set revents
              then fold (\<lambda>(i, r). read_connection C i r) (enumerate 0 revents) (False, rc, s)
              else (False, Rc_timeout_error, s))"

definition tcp_recv_message :: "cdr \<Rightarrow> bool \<Rightarrow> TransportRc \<Rightarrow> 'e TCPAgent \<Rightarrow> 'e InputPacket option \<times> TransportRc \<times> 'e TCPAgent" where
  "tcp_recv_message C poll_fails rc s =
     (let (ok, rc', s') = (if ta_messages_queue s = [] then tcp_read_message C poll_fails rc s else (True, rc, s))
      in if \<not> ok then (None, rc', s')
         else (Some (hd (ta_messages_queue s')), rc', s'\<lparr>ta_messages_queue := tl (ta_messages_queue s')\<rparr>))"

subsection \<open>Sending\<close>

text \<open>\<open>None\<close> is the exception of \<open>connections_.at\<close>; the message is the content of the packet.\<close>

definition tcp_send_message :: "'e \<Rightarrow> OutputMessage \<Rightarrow> 'e TCPAgent \<Rightarrow> (bool \<times> TransportRc \<times> 'e TCPAgent) option" where
  "tcp_send_message destination message s =
     (case ta_endpoint_to_connection_map s destination of
        None \<Rightarrow> Some (False, Rc_connection_error, s)
      | Some i \<Rightarrow>
          if length (ta_connections s) \<le> i then None
          else case write_message (om_bytes message) (ta_connections s ! i) of
                 (payload_sent, rc, c) \<Rightarrow>
                   let s1 = set_connection i c s
                   in Some (payload_sent, rc, if rc = Rc_connection_error then snd (close_connection i s1) else s1))"

subsection \<open>The table of connections\<close>

definition connection_ok :: "'e TCPAgent \<Rightarrow> nat \<Rightarrow> bool" where
  "connection_ok s i \<longleftrightarrow> (let c = ta_connections s ! i in
     tc_id c = i \<and> ib_ok (tc_input_buffer c) \<and> ib_state (tc_input_buffer c) \<noteq> TCP_MESSAGE_AVAILABLE
     \<and> (tc_active c \<longleftrightarrow> i \<in> ta_active_connections s) \<and> (tc_poll_fd c \<noteq> None \<longleftrightarrow> i \<in> ta_active_connections s))"

definition table_ok :: "'e TCPAgent \<Rightarrow> bool" where
  "table_ok s \<longleftrightarrow> (\<forall>i < length (ta_connections s). connection_ok s i)
     \<and> distinct (ta_free_connections s) \<and> ta_active_connections s \<inter> set (ta_free_connections s) = {}
     \<and> ta_active_connections s \<union> set (ta_free_connections s) = {..<length (ta_connections s)}
     \<and> (\<forall>e i. ta_endpoint_to_connection_map s e = Some i \<longleftrightarrow> i \<in> ta_active_connections s \<and> tc_endpoint (ta_connections s ! i) = e)"

definition conn_of :: "'e \<Rightarrow> 'e TCPAgent \<Rightarrow> 'e TCPConnection option" where
  "conn_of e s = map_option (\<lambda>i. ta_connections s ! i) (ta_endpoint_to_connection_map s e)"

lemma table_okD:
  assumes "table_ok s"
  shows "i < length (ta_connections s) \<Longrightarrow> connection_ok s i"
    and "i \<in> ta_active_connections s \<Longrightarrow> i < length (ta_connections s)"
    and "i \<in> set (ta_free_connections s) \<Longrightarrow> i < length (ta_connections s)"
    and "ta_endpoint_to_connection_map s e = Some i \<longleftrightarrow> i \<in> ta_active_connections s \<and> tc_endpoint (ta_connections s ! i) = e"
  using assms unfolding table_ok_def by auto

lemma set_connection_simps [simp]:
  "ta_active_connections (set_connection i c s) = ta_active_connections s"
  "ta_free_connections (set_connection i c s) = ta_free_connections s"
  "ta_endpoint_to_connection_map (set_connection i c s) = ta_endpoint_to_connection_map s"
  "ta_messages_queue (set_connection i c s) = ta_messages_queue s"
  "ta_connections (set_connection i c s) = (ta_connections s)[i := c]"
  by (simp_all add: set_connection_def)

lemma set_connection_ok:
  assumes "table_ok s" and "i < length (ta_connections s)" and "same_peer (ta_connections s ! i) c"
    and "ib_ok (tc_input_buffer c)" and "ib_state (tc_input_buffer c) \<noteq> TCP_MESSAGE_AVAILABLE"
  shows "table_ok (set_connection i c s)"
    and "conn_of e (set_connection i c s) = (if ta_endpoint_to_connection_map s e = Some i then Some c else conn_of e s)"
proof -
  have "connection_ok (set_connection i c s) j" if "j < length (ta_connections s)" for j
    using table_okD(1) [OF assms(1) that] assms(2-5) by (auto simp: connection_ok_def Let_def same_peer_def nth_list_update)
  moreover have "tc_endpoint ((ta_connections s)[i := c] ! j) = tc_endpoint (ta_connections s ! j)" for j
    using assms(2,3) by (cases "j = i") (simp_all add: same_peer_def)
  ultimately show "table_ok (set_connection i c s)" using assms(1) by (simp add: table_ok_def)
  show "conn_of e (set_connection i c s) = (if ta_endpoint_to_connection_map s e = Some i then Some c else conn_of e s)"
    using assms(2) by (cases "ta_endpoint_to_connection_map s e") (auto simp: conn_of_def)
qed

lemma close_connection_ok:
  assumes "table_ok s" and "i < length (ta_connections s)"
  shows "table_ok (snd (close_connection i s))"
    and "conn_of e (snd (close_connection i s)) = (if ta_endpoint_to_connection_map s e = Some i then None else conn_of e s)"
    and "length (ta_connections (snd (close_connection i s))) = length (ta_connections s)"
    and "ta_messages_queue (snd (close_connection i s)) = ta_messages_queue s"
    and "ta_active_connections (snd (close_connection i s)) = ta_active_connections s - {i}"
    and "ta_listener (snd (close_connection i s)) = ta_listener s"
proof -
  let ?c = "ta_connections s ! i"
  note t = table_okD [OF assms(1)]
  have c: "connection_ok s i" by (rule t(1) [OF assms(2)])
  show "table_ok (snd (close_connection i s))"
  proof (cases "i \<in> ta_active_connections s")
    case True
    let ?s = "snd (close_connection i s)"
    have s: "?s = (set_connection i (?c\<lparr>tc_poll_fd := None, tc_active := False\<rparr>) s)
               \<lparr>ta_endpoint_to_connection_map := (ta_endpoint_to_connection_map s)(tc_endpoint ?c := None),
                ta_active_connections := ta_active_connections s - {i}, ta_free_connections := ta_free_connections s @ [i]\<rparr>"
      using c True by (simp add: close_connection_def connection_ok_def Let_def)
    have "connection_ok ?s j" if "j < length (ta_connections s)" for j
      using t(1) [OF that] c assms(2) by (auto simp: s connection_ok_def Let_def nth_list_update)
    moreover have "tc_endpoint (ta_connections ?s ! j) = tc_endpoint (ta_connections s ! j)" for j
      using assms(2) by (cases "j = i") (simp_all add: s)
    then have "ta_endpoint_to_connection_map ?s e = Some j
        \<longleftrightarrow> j \<in> ta_active_connections ?s \<and> tc_endpoint (ta_connections ?s ! j) = e" for e j
      using t(4) [of e j] t(4) [of "tc_endpoint ?c" i] True by (auto simp: s)
    moreover have "i \<notin> set (ta_free_connections s)" using assms(1) True by (auto simp: table_ok_def)
    ultimately show ?thesis using assms(1) True unfolding table_ok_def by (auto simp: s)
  next
    case False
    then show ?thesis using assms(1) c by (simp add: close_connection_def connection_ok_def Let_def)
  qed
  show "conn_of e (snd (close_connection i s)) = (if ta_endpoint_to_connection_map s e = Some i then None else conn_of e s)"
    using c t(4) [of e i] t(4) [of "tc_endpoint ?c" i]
    by (cases "ta_endpoint_to_connection_map s e") (auto simp: close_connection_def connection_ok_def Let_def conn_of_def)
qed (use table_okD(1) [OF assms] in \<open>auto simp: close_connection_def connection_ok_def Let_def set_connection_def\<close>)

lemma open_connection_ok:
  assumes "table_ok s" and "ta_endpoint_to_connection_map s sockaddr = None"
  shows "table_ok (snd (open_connection fd sockaddr s))"
    and "e \<noteq> sockaddr \<Longrightarrow> conn_of e (snd (open_connection fd sockaddr s)) = conn_of e s"
    and "ta_messages_queue (snd (open_connection fd sockaddr s)) = ta_messages_queue s"
    and "length (ta_connections (snd (open_connection fd sockaddr s))) = length (ta_connections s)"
proof -
  note t = table_okD [OF assms(1)]
  show "table_ok (snd (open_connection fd sockaddr s))"
  proof (cases "ta_free_connections s")
    case (Cons i rest)
    let ?c = "ta_connections s ! i"
    have i: "i < length (ta_connections s)" "i \<notin> ta_active_connections s" using t(3) Cons assms(1) by (auto simp: table_ok_def)
    have c: "connection_ok s i" by (rule t(1) [OF i(1)])
    let ?c' = "?c\<lparr>tc_poll_fd := Some fd, tc_endpoint := sockaddr, tc_active := True, tc_input_buffer := init_input_buffer (tc_input_buffer ?c)\<rparr>"
    let ?s = "snd (open_connection fd sockaddr s)"
    have s: "?s = (set_connection i ?c' s)\<lparr>ta_endpoint_to_connection_map := (ta_endpoint_to_connection_map s)(sockaddr \<mapsto> i),
                ta_active_connections := insert i (ta_active_connections s), ta_free_connections := rest\<rparr>"
      using c Cons by (simp add: open_connection_def connection_ok_def Let_def)
    have "connection_ok ?s j" if "j < length (ta_connections s)" for j
      using t(1) [OF that] c i by (auto simp: s connection_ok_def Let_def nth_list_update init_input_buffer_def ib_ok_def)
    moreover have "ta_endpoint_to_connection_map ?s e = Some j
        \<longleftrightarrow> j \<in> ta_active_connections ?s \<and> tc_endpoint (ta_connections ?s ! j) = e" for e j
      using t(4) [of e j] t(4) [of sockaddr j] assms(2) i by (auto simp: s nth_list_update)
    ultimately show ?thesis using assms(1) Cons i unfolding table_ok_def by (auto simp: s)
  qed (simp add: open_connection_def assms(1))
  assume e: "e \<noteq> sockaddr"
  show "conn_of e (snd (open_connection fd sockaddr s)) = conn_of e s"
  proof (cases "ta_endpoint_to_connection_map s e")
    case (Some j)
    then have "j \<in> ta_active_connections s" using t(4) by blast
    then have "j \<notin> set (ta_free_connections s)" using assms(1) by (auto simp: table_ok_def)
    with e Some show ?thesis by (cases "ta_free_connections s") (simp_all add: open_connection_def Let_def conn_of_def)
  qed (use e in \<open>simp add: open_connection_def Let_def conn_of_def split: list.split\<close>)
qed (auto simp: open_connection_def Let_def set_connection_def split: list.splits)

lemma tcp_init_ok:
  "table_ok (snd (tcp_init True True True (TCPAgent_new n e)))"
proof -
  let ?s = "snd (tcp_init True True True (TCPAgent_new n e))"
  have "connection_ok ?s i" if "i < n" for i
    using that by (simp add: connection_ok_def tcp_init_def TCPAgent_new_def Let_def reset_connection_def init_input_buffer_def ib_ok_def)
  then show ?thesis
    by (auto simp: table_ok_def tcp_init_def TCPAgent_new_def Let_def)
qed

subsection \<open>What an operation reads from a peer\<close>

text \<open>
  \<open>reads_from e octets out s s'\<close>: an operation hands \<open>out\<close> to the server and, if \<open>e\<close> is connected after it, then it was
  before and the messages taken from its connection are those in its stream, of which \<open>octets\<close> arrived on the way.
\<close>

definition msgs_of :: "'e \<Rightarrow> 'e InputPacket list \<Rightarrow> u8 list list" where
  "msgs_of e ps = map (\<lambda>p. im_buf (ip_message p)) (filter (\<lambda>p. ip_source p = e) ps)"

definition reads_from :: "'e \<Rightarrow> u8 list \<Rightarrow> 'e InputPacket list \<Rightarrow> 'e TCPAgent \<Rightarrow> 'e TCPAgent \<Rightarrow> bool" where
  "reads_from e octets out s s' \<longleftrightarrow> (\<forall>c'. conn_of e s' = Some c' \<longrightarrow>
     (\<exists>c ms. conn_of e s = Some c \<and> msgs_of e (out @ ta_messages_queue s') = msgs_of e (ta_messages_queue s) @ ms
        \<and> (\<forall>x. tcp_parse (stream c @ octets @ x) = (ms @ fst (tcp_parse (stream c' @ x)), snd (tcp_parse (stream c' @ x))))))"

lemma msgs_of_append [simp]: "msgs_of e (ps @ qs) = msgs_of e ps @ msgs_of e qs" "msgs_of e [] = []"
  by (simp_all add: msgs_of_def)

lemma reads_from_same:
  "conn_of e s' = conn_of e s \<Longrightarrow> out @ ta_messages_queue s' = ta_messages_queue s \<Longrightarrow> reads_from e [] out s s'"
  by (auto simp: reads_from_def)

lemma reads_from_gone: "conn_of e s' = None \<Longrightarrow> reads_from e octets out s s'"
  by (simp add: reads_from_def)

lemma reads_fromE:
  assumes "reads_from e octets out s s'" and "conn_of e s' = Some c'"
  obtains c ms where "conn_of e s = Some c" and "msgs_of e (out @ ta_messages_queue s') = msgs_of e (ta_messages_queue s) @ ms"
    and "\<forall>x. tcp_parse (stream c @ octets @ x) = (ms @ fst (tcp_parse (stream c' @ x)), snd (tcp_parse (stream c' @ x)))"
  using assms unfolding reads_from_def by blast

lemma reads_from_trans:
  assumes "reads_from e xs out s s1" and "reads_from e ys out' s1 s2"
  shows "reads_from e (xs @ ys) (out @ out') s s2"
  unfolding reads_from_def
proof (intro allI impI)
  fix c' assume "conn_of e s2 = Some c'"
  with assms(2) obtain c1 ms1 where c1: "conn_of e s1 = Some c1" "msgs_of e (out' @ ta_messages_queue s2) = msgs_of e (ta_messages_queue s1) @ ms1"
      "\<forall>x. tcp_parse (stream c1 @ ys @ x) = (ms1 @ fst (tcp_parse (stream c' @ x)), snd (tcp_parse (stream c' @ x)))"
    by (rule reads_fromE)
  from assms(1) c1(1) obtain c ms where c: "conn_of e s = Some c" "msgs_of e (out @ ta_messages_queue s1) = msgs_of e (ta_messages_queue s) @ ms"
      "\<forall>x. tcp_parse (stream c @ xs @ x) = (ms @ fst (tcp_parse (stream c1 @ x)), snd (tcp_parse (stream c1 @ x)))"
    by (rule reads_fromE)
  have "tcp_parse (stream c @ (xs @ ys) @ x) = ((ms @ ms1) @ fst (tcp_parse (stream c' @ x)), snd (tcp_parse (stream c' @ x)))" for x
    using c(3) [rule_format, of "ys @ x"] c1(3) by simp
  moreover have "msgs_of e ((out @ out') @ ta_messages_queue s2) = msgs_of e out @ msgs_of e (out' @ ta_messages_queue s2)" by simp
  then have "msgs_of e ((out @ out') @ ta_messages_queue s2) = msgs_of e (out @ ta_messages_queue s1) @ ms1" unfolding c1(2) by simp
  then have "msgs_of e ((out @ out') @ ta_messages_queue s2) = msgs_of e (ta_messages_queue s) @ ms @ ms1" unfolding c(2) by simp
  ultimately show "\<exists>c ms. conn_of e s = Some c \<and> msgs_of e ((out @ out') @ ta_messages_queue s2) = msgs_of e (ta_messages_queue s) @ ms
      \<and> (\<forall>x. tcp_parse (stream c @ (xs @ ys) @ x) = (ms @ fst (tcp_parse (stream c' @ x)), snd (tcp_parse (stream c' @ x))))"
    using c(1) by blast
qed

lemma read_connection_ok:
  assumes "table_ok s" and "i < length (ta_connections s)" and "read_connection C i revents (rv, rc, s) = (rv', rc', s')"
    and "revents \<longrightarrow> i \<in> ta_active_connections s"
  shows "table_ok s' \<and> length (ta_connections s') = length (ta_connections s) \<and> reads_from e [] [] s s'
    \<and> ta_active_connections s - {i} \<subseteq> ta_active_connections s'
    \<and> (rv' \<longrightarrow> rv \<or> ta_messages_queue s' \<noteq> []) \<and> (ta_messages_queue s \<noteq> [] \<longrightarrow> ta_messages_queue s' \<noteq> [])"
proof (cases revents)
  case True
  let ?c = "ta_connections s ! i"
  obtain n rc1 c1 where r: "read_data ?c = (n, rc1, c1)" by (metis prod_cases3)
  have c: "ib_ok (tc_input_buffer ?c)" "tc_id ?c = i" using table_okD(1) [OF assms(1,2)] by (simp_all add: connection_ok_def Let_def)
  note one = read_data_stream [OF c(1) r]
  let ?s1 = "set_connection i c1 s"
  from one have s1: "table_ok ?s1" "conn_of e ?s1 = (if ta_endpoint_to_connection_map s e = Some i then Some c1 else conn_of e s)" for e
    using set_connection_ok [OF assms(1,2)] by blast+
  have i1: "i < length (ta_connections ?s1)" using assms(2) by simp
  show ?thesis
  proof (cases "rc1 = Rc_connection_error")
    case True
    with assms(3) r \<open>revents\<close> have s': "s' = snd (close_connection i ?s1)" "rv' = rv" by (simp_all add: read_connection_def Let_def)
    have "reads_from e [] [] s s'" unfolding s'
      using close_connection_ok(2) [OF s1(1) i1, of e] close_connection_ok(4) [OF s1(1) i1] s1(2) [of e]
      by (cases "ta_endpoint_to_connection_map s e = Some i") (simp_all add: reads_from_same reads_from_gone)
    then show ?thesis using close_connection_ok [OF s1(1) i1] s' by simp
  next
    case False
    let ?new = "if n \<noteq> 0 then [\<lparr>ip_source = tc_endpoint c1, ip_message = InputMessage_new C (ib_buffer (tc_input_buffer c1))\<rparr>] else []"
    have s': "s' = ?s1\<lparr>ta_messages_queue := ta_messages_queue s @ ?new\<rparr>" and rv: "rv' = (rv \<or> n \<noteq> 0)"
      using assms(3) r \<open>revents\<close> False one by (auto simp: read_connection_def Let_def word_gt_0 split: if_splits)
    have "table_ok s'" using s1(1) by (simp add: s' table_ok_def connection_ok_def)
    moreover have "reads_from e [] [] s s'"
    proof (cases "ta_endpoint_to_connection_map s e = Some i")
      case True
      then have e: "tc_endpoint c1 = e" using table_okD(4) [OF assms(1)] one by (simp add: same_peer_def)
      have "conn_of e s' = Some c1" using s1(2) [of e] True by (simp add: s' conn_of_def)
      moreover have "conn_of e s = Some ?c" using True by (simp add: conn_of_def)
      moreover have "msgs_of e ?new = (if n \<noteq> 0 then [ib_buffer (tc_input_buffer c1)] else [])"
        using e by (simp add: msgs_of_def InputMessage_new_def split: prod.split)
      ultimately show ?thesis using one by (simp add: reads_from_def s')
    next
      case other: False
      then have "conn_of e s' = conn_of e s" using s1(2) [of e] by (simp add: s' conn_of_def)
      moreover have "tc_endpoint c1 \<noteq> e"
        using other table_okD(4) [OF assms(1), of e i] assms(4) \<open>revents\<close> one by (auto simp: same_peer_def)
      then have "msgs_of e ?new = []" by (simp add: msgs_of_def)
      ultimately show ?thesis by (auto simp: reads_from_def s')
    qed
    ultimately show ?thesis using rv by (simp add: s')
  qed
qed (use assms in \<open>auto simp: read_connection_def intro: reads_from_same\<close>)

lemma read_connections_ok:
  assumes "table_ok s" and "\<forall>(i, r) \<in> set irs. i < length (ta_connections s) \<and> (r \<longrightarrow> i \<in> ta_active_connections s)" and "distinct (map fst irs)"
    and "fold (\<lambda>(i, r). read_connection C i r) irs (rv, rc, s) = (rv', rc', s')"
  shows "table_ok s' \<and> length (ta_connections s') = length (ta_connections s) \<and> reads_from e [] [] s s' \<and> (rv' \<longrightarrow> rv \<or> ta_messages_queue s' \<noteq> [])
    \<and> (ta_messages_queue s \<noteq> [] \<longrightarrow> ta_messages_queue s' \<noteq> [])"
  using assms
proof (induction irs arbitrary: rv rc s)
  case (Cons ir irs)
  obtain i r where ir: "ir = (i, r)" by fastforce
  obtain rv1 rc1 s1 where s1: "read_connection C i r (rv, rc, s) = (rv1, rc1, s1)" by (metis prod_cases3)
  have "i < length (ta_connections s)" "r \<longrightarrow> i \<in> ta_active_connections s" using Cons.prems(2) by (auto simp: ir)
  note one = read_connection_ok [OF Cons.prems(1) this(1) s1 this(2), of e]
  have "j < length (ta_connections s1) \<and> (q \<longrightarrow> j \<in> ta_active_connections s1)" if "(j, q) \<in> set irs" for j q
  proof -
    have "j \<noteq> i" using that Cons.prems(3) by (force simp: ir)
    moreover have "j < length (ta_connections s)" "q \<longrightarrow> j \<in> ta_active_connections s" using that Cons.prems(2) by auto
    ultimately show ?thesis using one by auto
  qed
  then have rest: "\<forall>(j, q) \<in> set irs. j < length (ta_connections s1) \<and> (q \<longrightarrow> j \<in> ta_active_connections s1)" by blast
  have "table_ok s1" using one by blast
  moreover have "distinct (map fst irs)" "fold (\<lambda>(i, r). read_connection C i r) irs (rv1, rc1, s1) = (rv', rc', s')"
    using Cons.prems(3,4) s1 by (simp_all add: ir)
  ultimately have two: "table_ok s' \<and> length (ta_connections s') = length (ta_connections s1) \<and> reads_from e [] [] s1 s' \<and> (rv' \<longrightarrow> rv1 \<or> ta_messages_queue s' \<noteq> [])
      \<and> (ta_messages_queue s1 \<noteq> [] \<longrightarrow> ta_messages_queue s' \<noteq> [])" by (rule Cons.IH [OF _ rest])
  with one reads_from_trans [of e "[]" "[]" s s1 "[]" "[]" s'] have "reads_from e [] [] s s'" by simp
  with one two show ?case by auto
qed (simp add: reads_from_same)

lemma tcp_read_message_ok:
  assumes "table_ok s" and "tcp_read_message C poll_fails rc s = (rv, rc', s')"
  shows "table_ok s' \<and> length (ta_connections s') = length (ta_connections s) \<and> reads_from e [] [] s s' \<and> (rv \<longrightarrow> ta_messages_queue s' \<noteq> [])"
proof -
  let ?revents = "map (\<lambda>c. tcp_poll (tc_poll_fd c)) (ta_connections s)"
  have "i < length (ta_connections s) \<and> (r \<longrightarrow> i \<in> ta_active_connections s)" if "(i, r) \<in> set (enumerate 0 ?revents)" for i r
    using that table_okD(1) [OF assms(1), of i]
    by (auto simp: in_set_enumerate_eq connection_ok_def Let_def tcp_poll_def split: option.splits)
  then show ?thesis
    using assms read_connections_ok [OF assms(1), of "enumerate 0 ?revents" C False rc rv rc' s' e]
    by (auto simp: tcp_read_message_def Let_def reads_from_same split: if_splits)
qed

lemma tcp_recv_message_ok:
  assumes "table_ok s" and "tcp_recv_message C poll_fails rc s = (packet, rc', s')"
  shows "table_ok s'" and "length (ta_connections s') = length (ta_connections s)" and "reads_from e [] (case packet of None \<Rightarrow> [] | Some p \<Rightarrow> [p]) s s'"
proof -
  obtain ok rc1 s1 where s1: "(if ta_messages_queue s = [] then tcp_read_message C poll_fails rc s else (True, rc, s)) = (ok, rc1, s1)"
    by (metis prod_cases3)
  have one: "table_ok s1 \<and> length (ta_connections s1) = length (ta_connections s) \<and> reads_from e [] [] s s1 \<and> (ok \<longrightarrow> ta_messages_queue s1 \<noteq> [])" for e
    using s1 tcp_read_message_ok [OF assms(1), of C poll_fails rc ok rc1 s1 e] assms(1) by (auto intro: reads_from_same split: if_splits)
  have s': "packet = (if ok then Some (hd (ta_messages_queue s1)) else None)"
      "s' = (if ok then s1\<lparr>ta_messages_queue := tl (ta_messages_queue s1)\<rparr> else s1)"
    using assms(2) s1 by (auto simp: tcp_recv_message_def Let_def split: if_splits)
  show "table_ok s'" "length (ta_connections s') = length (ta_connections s)" using one by (simp_all add: s' table_ok_def connection_ok_def)
  have "reads_from e [] (case packet of None \<Rightarrow> [] | Some p \<Rightarrow> [p]) s1 s'"
    using one [of e] by (intro reads_from_same) (simp_all add: s' conn_of_def)
  with one show "reads_from e [] (case packet of None \<Rightarrow> [] | Some p \<Rightarrow> [p]) s s'"
    using reads_from_trans [of e "[]" "[]" s s1 "[]"] by simp
qed

lemma send_data_peer:
  assumes "send_data buf c = (k, rc, c')"
  shows "same_peer c c' \<and> tc_input_buffer c' = tc_input_buffer c \<and> unread c' = unread c"
proof (cases "tc_active c \<and> tc_poll_fd c \<noteq> None")
  case True
  then obtain sk where sk: "tc_poll_fd c = Some sk" by auto
  obtain n sk' where s: "sk_send buf sk = (n, sk')" by fastforce
  then have "sk_in sk' = sk_in sk" by (auto simp: sk_send_def split: list.splits if_splits)
  moreover have "c' = c\<lparr>tc_poll_fd := Some sk'\<rparr>" using assms True sk s by (auto simp: send_data_def Let_def split: if_splits)
  ultimately show ?thesis using sk by (simp add: same_peer_def unread_def)
qed (use assms in \<open>auto simp: send_data_def same_peer_def split: if_splits option.splits\<close>)

definition same_input :: "'e TCPConnection \<Rightarrow> 'e TCPConnection \<Rightarrow> bool" where
  "same_input c c' \<longleftrightarrow> same_peer c c' \<and> tc_input_buffer c' = tc_input_buffer c \<and> unread c' = unread c"

lemma same_input_trans [trans]: "same_input c c1 \<Longrightarrow> same_input c1 c' \<Longrightarrow> same_input c c'"
  by (auto simp: same_input_def same_peer_def)

lemma send_size_input: "send_size n sent rc buf c = (ok, rc', c') \<Longrightarrow> same_input c c'"
proof (induction n arbitrary: sent rc c)
  case (Suc n)
  obtain k rc1 c1 where s: "send_data buf c = (k, rc1, c1)" by (metis prod_cases3)
  from send_data_peer [OF s] have "same_input c c1" by (simp add: same_input_def)
  with Suc s show ?case by (auto simp: Let_def split: if_splits intro: same_input_trans)
qed (simp add: same_input_def same_peer_def)

lemma send_octets_input: "send_octets n sent rc buf c = (ok, rc', c') \<Longrightarrow> same_input c c'"
proof (induction n arbitrary: sent rc c)
  case (Suc n)
  obtain k rc1 c1 where s: "send_data (drop (unat sent) buf) c = (k, rc1, c1)" by (metis prod_cases3)
  from send_data_peer [OF s] have "same_input c c1" by (simp add: same_input_def)
  with Suc s show ?case by (auto simp: Let_def split: if_splits intro: same_input_trans)
qed (simp add: same_input_def same_peer_def)

lemma write_message_input: "write_message m c = (ok, rc, c') \<Longrightarrow> same_input c c'"
  by (auto simp: write_message_def split: prod.splits bool.splits dest!: send_size_input send_octets_input intro: same_input_trans)

lemma tcp_send_message_ok:
  assumes "table_ok s"
  obtains ok rc s' where "tcp_send_message destination m s = Some (ok, rc, s')" and "table_ok s'" and "length (ta_connections s') = length (ta_connections s)" and "\<And>e. reads_from e [] [] s s'"
proof (cases "ta_endpoint_to_connection_map s destination")
  case None
  then show ?thesis using assms that [of False Rc_connection_error s] by (simp add: tcp_send_message_def reads_from_same)
next
  case (Some i)
  let ?c = "ta_connections s ! i"
  have i: "i < length (ta_connections s)" using table_okD(2,4) [OF assms] Some by blast
  obtain ok rc c where w: "write_message (om_bytes m) ?c = (ok, rc, c)" by (metis prod_cases3)
  have c: "same_input ?c c" by (rule write_message_input [OF w])
  then have peer: "same_peer ?c c" "ib_ok (tc_input_buffer c)" "ib_state (tc_input_buffer c) \<noteq> TCP_MESSAGE_AVAILABLE"
    using table_okD(1) [OF assms i] by (simp_all add: same_input_def connection_ok_def Let_def)
  let ?s1 = "set_connection i c s"
  note one = set_connection_ok [OF assms i peer]
  have i1: "i < length (ta_connections ?s1)" using i by simp
  have r: "reads_from e [] [] s ?s1" for e
  proof (cases "ta_endpoint_to_connection_map s e = Some i")
    case True
    then have "conn_of e s = Some ?c" "conn_of e ?s1 = Some c" using one(2) [of e] by (simp_all add: conn_of_def)
    moreover have "stream c = stream ?c" using c by (simp add: same_input_def stream_def)
    ultimately show ?thesis by (simp add: reads_from_def)
  qed (use one(2) [of e] in \<open>simp add: reads_from_same\<close>)
  let ?s2 = "snd (close_connection i ?s1)"
  have r2: "reads_from e [] [] ?s1 ?s2" for e
    using close_connection_ok(2) [OF one(1) i1, of e] close_connection_ok(4) [OF one(1) i1]
    by (cases "ta_endpoint_to_connection_map s e = Some i") (simp_all add: reads_from_same reads_from_gone)
  show ?thesis
  proof (rule that)
    show "tcp_send_message destination m s = Some (ok, rc, if rc = Rc_connection_error then ?s2 else ?s1)"
      using Some i w by (simp add: tcp_send_message_def Let_def)
    show "table_ok (if rc = Rc_connection_error then ?s2 else ?s1)"
      using one(1) close_connection_ok(1) [OF one(1) i1] by simp
    show "length (ta_connections (if rc = Rc_connection_error then ?s2 else ?s1)) = length (ta_connections s)"
      using close_connection_ok(3) [OF one(1) i1] by simp
    show "reads_from e [] [] s (if rc = Rc_connection_error then ?s2 else ?s1)" for e
      using r [of e] reads_from_trans [OF r r2, of e] by simp
  qed
qed

subsection \<open>Everything that happens to a transport\<close>

text \<open>
  Peers connect from an endpoint that has no open connection (the kernel keeps pairs of addresses apart), their octets
  arrive on the connection they have, and they close; the receiver and the sender of the server call \<open>recv_message\<close>
  and \<open>send_message\<close>.
\<close>

datatype 'e tcp_event = Connects tcp_socket 'e | Arrives 'e "u8 list list" | Closes 'e | Receives bool | Sends 'e OutputMessage

definition connected :: "'e \<Rightarrow> 'e TCPAgent \<Rightarrow> bool" where
  "connected e s = (case ta_endpoint_to_connection_map s e of
     None \<Rightarrow> False | Some i \<Rightarrow> tc_active (ta_connections s ! i) \<and> tc_endpoint (ta_connections s ! i) = e)"

definition on_connection :: "('e TCPConnection \<Rightarrow> 'e TCPConnection) \<Rightarrow> 'e \<Rightarrow> 'e TCPAgent \<Rightarrow> 'e TCPAgent" where
  "on_connection f e s = (if connected e s
     then let i = the (ta_endpoint_to_connection_map s e) in set_connection i (f (ta_connections s ! i)) s
     else s)"

definition peer_closes :: "'e TCPConnection \<Rightarrow> 'e TCPConnection" where
  "peer_closes c = c\<lparr>tc_poll_fd := map_option (\<lambda>sk. sk\<lparr>sk_closed := True\<rparr>) (tc_poll_fd c)\<rparr>"

fun tcp_step :: "cdr \<Rightarrow> 'e tcp_event \<Rightarrow> 'e TCPAgent \<Rightarrow> ('e InputPacket list \<times> 'e TCPAgent) option" where
  "tcp_step C (Connects sk e) s =
     Some ([], if connected e s then s else listener_iteration (Some (sk, e)) s)"
| "tcp_step C (Arrives e segments) s = Some ([], on_connection (arrive segments) e s)"
| "tcp_step C (Closes e) s = Some ([], on_connection peer_closes e s)"
| "tcp_step C (Receives poll_fails) s =
     (case tcp_recv_message C poll_fails Rc_ok s of
        (packet, rc, s') \<Rightarrow> Some (case packet of None \<Rightarrow> [] | Some p \<Rightarrow> [p], s'))"
| "tcp_step C (Sends e m) s = map_option (\<lambda>(ok, rc, s'). ([], s')) (tcp_send_message e m s)"

fun tcp_run :: "cdr \<Rightarrow> 'e tcp_event list \<Rightarrow> 'e TCPAgent \<Rightarrow> ('e InputPacket list \<times> 'e TCPAgent) option" where
  "tcp_run C [] s = Some ([], s)"
| "tcp_run C (ev # evs) s =
     (case tcp_step C ev s of
        None \<Rightarrow> None
      | Some (out, s1) \<Rightarrow> map_option (\<lambda>(out', s2). (out @ out', s2)) (tcp_run C evs s1))"

fun arrived :: "'e \<Rightarrow> 'e tcp_event list \<Rightarrow> u8 list" where
  "arrived e [] = []"
| "arrived e (Arrives e' segments # evs) = (if e' = e then concat segments else []) @ arrived e evs"
| "arrived e (_ # evs) = arrived e evs"

definition reconnects :: "'e \<Rightarrow> 'e tcp_event list \<Rightarrow> bool" where
  "reconnects e evs = list_ex (\<lambda>ev. case ev of Connects sk e' \<Rightarrow> e' = e | _ \<Rightarrow> False) evs"

lemma connected_ok:
  assumes "table_ok s"
  shows "connected e s \<longleftrightarrow> ta_endpoint_to_connection_map s e \<noteq> None"
proof (cases "ta_endpoint_to_connection_map s e")
  case (Some i)
  then have "i \<in> ta_active_connections s" "tc_endpoint (ta_connections s ! i) = e" using table_okD(4) [OF assms] by blast+
  moreover from this have "connection_ok s i" using table_okD(1,2) [OF assms] by blast
  ultimately show ?thesis using Some by (simp add: connected_def connection_ok_def Let_def)
qed (simp add: connected_def)

lemma on_connection_ok:
  assumes "table_ok s" and "\<And>c. same_peer c (f c) \<and> tc_input_buffer (f c) = tc_input_buffer c"
    and "\<And>c. tc_poll_fd c \<noteq> None \<Longrightarrow> unread (f c) = unread c @ octets"
  shows "table_ok (on_connection f e' s)" and "length (ta_connections (on_connection f e' s)) = length (ta_connections s)"
    and "reads_from e (if e = e' then octets else []) [] s (on_connection f e' s)"
proof -
  show "length (ta_connections (on_connection f e' s)) = length (ta_connections s)" by (simp add: on_connection_def Let_def)
  have "table_ok (on_connection f e' s) \<and> reads_from e (if e = e' then octets else []) [] s (on_connection f e' s)"
  proof (cases "ta_endpoint_to_connection_map s e'")
    case None
    then show ?thesis using assms(1) by (auto simp: on_connection_def connected_ok reads_from_def conn_of_def)
  next
    case (Some i)
    let ?c = "ta_connections s ! i"
    have i: "i \<in> ta_active_connections s" "i < length (ta_connections s)" "tc_endpoint ?c = e'"
      using table_okD(2,4) [OF assms(1)] Some by blast+
    have c: "connection_ok s i" by (rule table_okD(1) [OF assms(1) i(2)])
    note one = set_connection_ok [OF assms(1) i(2), of "f ?c"]
    have "table_ok (set_connection i (f ?c) s)" using one(1) c assms(2) by (simp add: connection_ok_def Let_def)
    moreover have "conn_of e (set_connection i (f ?c) s) = (if ta_endpoint_to_connection_map s e = Some i then Some (f ?c) else conn_of e s)"
      using one(2) c assms(2) by (simp add: connection_ok_def Let_def)
    moreover have "ta_endpoint_to_connection_map s e = Some i \<longleftrightarrow> e = e'" using table_okD(4) [OF assms(1)] i by metis
    moreover have "stream (f ?c) = stream ?c @ octets"
      using assms(2,3) c i(1) by (simp add: stream_def connection_ok_def Let_def)
    ultimately show ?thesis using Some connected_ok [OF assms(1)] by (auto simp: on_connection_def Let_def reads_from_def conn_of_def)
  qed
  then show "table_ok (on_connection f e' s)" "reads_from e (if e = e' then octets else []) [] s (on_connection f e' s)" by blast+
qed

lemma tcp_step_ok:
  assumes "table_ok s"
  obtains out s' where "tcp_step C ev s = Some (out, s')" and "table_ok s'" and "length (ta_connections s') = length (ta_connections s)"
    and "\<And>e. \<not> reconnects e [ev] \<Longrightarrow> reads_from e (arrived e [ev]) out s s'"
proof (cases ev)
  case (Connects sk e')
  let ?s = "if connected e' s then s else listener_iteration (Some (sk, e')) s"
  note connected = connected_ok [OF assms, of e']
  have "table_ok ?s \<and> length (ta_connections ?s) = length (ta_connections s)"
    using open_connection_ok(1,4) [OF assms] assms connected by (simp add: listener_iteration_def)
  moreover have "reads_from e [] [] s ?s" if "e \<noteq> e'" for e
    using open_connection_ok(2) [OF assms _ that] open_connection_ok(3) [OF assms] connected
    by (auto simp: listener_iteration_def intro: reads_from_same)
  ultimately show ?thesis using that [of "[]" ?s] Connects by (simp add: reconnects_def)
next
  case (Arrives e' segments)
  note one = on_connection_ok [OF assms, of "arrive segments" "concat segments"]
  have "table_ok (on_connection (arrive segments) e' s)"
    "length (ta_connections (on_connection (arrive segments) e' s)) = length (ta_connections s)"
    "reads_from e (if e = e' then concat segments else []) [] s (on_connection (arrive segments) e' s)" for e
    using one by (simp_all add: arrive_stream)
  then show ?thesis using that [of "[]" "on_connection (arrive segments) e' s"] Arrives by (simp add: eq_commute)
next
  case (Closes e')
  have "same_peer c (peer_closes c) \<and> tc_input_buffer (peer_closes c) = tc_input_buffer c" "unread (peer_closes c) = unread c @ []" for c :: "'a TCPConnection"
    by (auto simp: peer_closes_def same_peer_def unread_def split: option.splits)
  note one = on_connection_ok [OF assms this]
  then show ?thesis using that [of "[]" "on_connection peer_closes e' s"] Closes by (simp split: if_splits)
next
  case (Receives poll_fails)
  obtain p rc s' where r: "tcp_recv_message C poll_fails Rc_ok s = (p, rc, s')" by (metis prod_cases3)
  note one = tcp_recv_message_ok [OF assms r]
  then show ?thesis using that [of "case p of None \<Rightarrow> [] | Some p \<Rightarrow> [p]" s'] Receives r by simp
next
  case (Sends e' m)
  obtain ok rc s' where "tcp_send_message e' m s = Some (ok, rc, s')" "table_ok s'"
      "length (ta_connections s') = length (ta_connections s)" "\<And>e. reads_from e [] [] s s'"
    using tcp_send_message_ok [OF assms] by metis
  then show ?thesis using that [of "[]" s'] Sends by simp
qed

lemma arrived_Cons: "arrived e (ev # evs) = arrived e [ev] @ arrived e evs" "reconnects e (ev # evs) \<longleftrightarrow> reconnects e [ev] \<or> reconnects e evs"
  by (cases ev; simp add: reconnects_def)+

lemma tcp_run_ok:
  assumes "table_ok s"
  obtains out s' where "tcp_run C evs s = Some (out, s')" and "table_ok s'" and "length (ta_connections s') = length (ta_connections s)"
    and "\<And>e. \<not> reconnects e evs \<Longrightarrow> reads_from e (arrived e evs) out s s'"
  using assms
proof (induction evs arbitrary: s thesis)
  case Nil
  show ?case by (rule Nil(1) [of "[]" s]) (simp_all add: Nil(2) reads_from_same)
next
  case (Cons ev evs)
  obtain out s1 where one: "tcp_step C ev s = Some (out, s1)" "table_ok s1" "length (ta_connections s1) = length (ta_connections s)"
      "\<And>e. \<not> reconnects e [ev] \<Longrightarrow> reads_from e (arrived e [ev]) out s s1"
    using tcp_step_ok [OF Cons.prems(2)] by metis
  obtain out' s' where two: "tcp_run C evs s1 = Some (out', s')" "table_ok s'" "length (ta_connections s') = length (ta_connections s1)"
      "\<And>e. \<not> reconnects e evs \<Longrightarrow> reads_from e (arrived e evs) out' s1 s'"
    using Cons.IH [OF _ one(2)] by metis
  show ?case
  proof (rule Cons.prems(1) [of "out @ out'" s'])
    show "reads_from e (arrived e (ev # evs)) (out @ out') s s'" if "\<not> reconnects e (ev # evs)" for e
      using reads_from_trans [OF one(4) two(4), of e] that arrived_Cons [of e ev evs] by simp
  qed (use one two in simp_all)
qed

text \<open>C22: the messages of a peer.  From the moment it connects and as long as it stays connected, what the server has been
  given and what is queued for it from this endpoint are, in order and without gaps, the messages of the octets the peer
  has sent; what is still to be read is the rest of them.  What other peers do, errors of \<open>poll\<close>, messages sent in
  between and the cut of the octets into segments make no difference.
\<close>

theorem tcp_peer_messages:
  assumes "table_ok s" and "ta_endpoint_to_connection_map s e = None" and "\<not> reconnects e evs"
    and "tcp_run C (Connects sk e # evs) s = Some (out, s')" and "conn_of e s' = Some c"
  shows "msgs_of e (out @ ta_messages_queue s') @ fst (tcp_parse (stream c))
    = msgs_of e (ta_messages_queue s) @ fst (tcp_parse (concat (sk_in sk) @ arrived e evs))"
proof -
  let ?s1 = "snd (open_connection sk e s)"
  obtain s1 where s1: "s1 = (if connection_available s then ?s1 else s)" by simp
  have ok: "table_ok s1" using open_connection_ok(1) [OF assms(1,2)] assms(1) by (simp add: s1)
  obtain out1 s2 where run: "tcp_run C evs s1 = Some (out1, s2)" "\<not> reconnects e evs \<Longrightarrow> reads_from e (arrived e evs) out1 s1 s2"
    using tcp_run_ok [OF ok] by metis
  have "out = out1" "s' = s2" using assms(2,4) run(1) connected_ok [OF assms(1), of e] by (auto simp: listener_iteration_def s1 split: if_splits)
  then have "reads_from e (arrived e evs) out s1 s'" using run(2) assms(3) by simp
  from this assms(5) obtain c1 ms where c1: "conn_of e s1 = Some c1" "msgs_of e (out @ ta_messages_queue s') = msgs_of e (ta_messages_queue s1) @ ms"
    "\<forall>x. tcp_parse (stream c1 @ arrived e evs @ x) = (ms @ fst (tcp_parse (stream c @ x)), snd (tcp_parse (stream c @ x)))"
    by (rule reads_fromE)
  have queue: "ta_messages_queue s1 = ta_messages_queue s" using open_connection_ok(3) [OF assms(1,2)] by (simp add: s1)
  have "stream c1 = concat (sk_in sk)"
  proof (cases "ta_free_connections s")
    case Nil
    then show ?thesis using c1(1) assms(2) by (simp add: s1 connection_available_def conn_of_def)
  next
    case (Cons i rest)
    then have "i < length (ta_connections s)" using table_okD(3) [OF assms(1)] by simp
    with Cons have "tc_id (ta_connections s ! i) = i" "i < length (ta_connections s)"
      using table_okD(1) [OF assms(1)] by (simp_all add: connection_ok_def Let_def)
    then show ?thesis using c1(1) Cons
      by (auto simp: s1 connection_available_def open_connection_def Let_def conn_of_def stream_def unread_def partial_frame_def init_input_buffer_def)
  qed
  with c1(2) c1(3) [rule_format, of "[]"] queue show ?thesis by simp
qed

definition new_socket :: tcp_socket where
  "new_socket = \<lparr>sk_in = [], sk_closed = False, sk_out = [], sk_accept = []\<rparr>"

definition example_agent :: "nat TCPAgent" where
  "example_agent = snd (tcp_init True True True (TCPAgent_new 2 0))"

theorem tcp_peer_messages_witness:
  "\<exists>out s c. tcp_run cdr_little [Connects new_socket 7, Connects new_socket 8, Arrives 7 [[2]], Receives False, Arrives 8 [[1, 0, 5]],
        Arrives 7 [[0, 3], [4, 9]], Receives False, Receives False, Receives False, Receives False] example_agent = Some (out, s)
     \<and> conn_of 7 s = Some c \<and> msgs_of 7 (out @ ta_messages_queue s) = [[3, 4]]"
proof -
  let ?evs = "[Connects new_socket (8::nat), Arrives 7 [[2]], Receives False, Arrives 8 [[1, 0, 5]],
        Arrives 7 [[0, 3], [4, 9]], Receives False, Receives False, Receives False, Receives False]"
  have "map_option (\<lambda>(out, s). map_option stream (conn_of 7 s)) (tcp_run cdr_little (Connects new_socket 7 # ?evs) example_agent) = Some (Some [9])"
    by code_simp
  then obtain out s c where run: "tcp_run cdr_little (Connects new_socket 7 # ?evs) example_agent = Some (out, s)"
      and c: "conn_of 7 s = Some c" "stream c = [9]" by auto
  have "ta_endpoint_to_connection_map example_agent 7 = None" "ta_messages_queue example_agent = []"
    by (simp_all add: example_agent_def tcp_init_def TCPAgent_new_def Let_def)
  moreover have "table_ok example_agent" unfolding example_agent_def by (rule tcp_init_ok)
  moreover have "\<not> reconnects (7::nat) ?evs" by (simp add: reconnects_def)
  ultimately have "msgs_of 7 (out @ ta_messages_queue s) @ fst (tcp_parse (stream c)) = fst (tcp_parse (concat (sk_in new_socket) @ arrived 7 ?evs))"
    using tcp_peer_messages [OF _ _ _ run c(1)] by simp
  moreover have "fst (tcp_parse (concat (sk_in new_socket) @ arrived 7 ?evs)) = [[3, 4]]" by code_simp
  ultimately show ?thesis using run c by auto
qed

subsection \<open>The table of connections, with the error handler\<close>

text \<open>
  An error of \<open>poll\<close> makes the server call \<open>handle_error\<close>, until it succeeds: the transport is taken down and started
  again.  \<open>init\<close> then adds every identifier to the list of the free ones a second time (lemma \<open>restart_frees_twice\<close>), and
  endpoints may stay in the map that have no connection.  What still holds of the table:
\<close>

datatype 'e tcp_action = Event "'e tcp_event" | Handles_error bool bool bool bool

fun tcp_life :: "cdr \<Rightarrow> 'e tcp_action list \<Rightarrow> 'e TCPAgent \<Rightarrow> ('e InputPacket list \<times> 'e TCPAgent) option" where
  "tcp_life C [] s = Some ([], s)"
| "tcp_life C (Event ev # acts) s =
     (case tcp_step C ev s of
        None \<Rightarrow> None
      | Some (out, s1) \<Rightarrow> map_option (\<lambda>(out', s2). (out @ out', s2)) (tcp_life C acts s1))"
| "tcp_life C (Handles_error close_ok socket_ok bind_ok listen_ok # acts) s =
     tcp_life C acts (snd (tcp_handle_error close_ok socket_ok bind_ok listen_ok s))"

fun restarts :: "'e tcp_action list \<Rightarrow> nat" where
  "restarts [] = 0"
| "restarts (Event ev # acts) = restarts acts"
| "restarts (Handles_error a b c d # acts) = Suc (restarts acts)"

definition table_valid :: "'e TCPAgent \<Rightarrow> bool" where
  "table_valid s \<longleftrightarrow> (\<forall>i < length (ta_connections s). connection_ok s i)
     \<and> ta_active_connections s \<union> set (ta_free_connections s) = {..<length (ta_connections s)}
     \<and> (\<forall>e i. ta_endpoint_to_connection_map s e = Some i \<longrightarrow> i < length (ta_connections s))
     \<and> (\<forall>i \<in> ta_active_connections s. ta_endpoint_to_connection_map s (tc_endpoint (ta_connections s ! i)) = Some i)"

lemma table_validI:
  assumes "\<And>i. i < length (ta_connections s) \<Longrightarrow> connection_ok s i"
    and "ta_active_connections s \<union> set (ta_free_connections s) = {..<length (ta_connections s)}"
    and "\<And>e i. ta_endpoint_to_connection_map s e = Some i \<Longrightarrow> i < length (ta_connections s)"
    and "\<And>i. i \<in> ta_active_connections s \<Longrightarrow> ta_endpoint_to_connection_map s (tc_endpoint (ta_connections s ! i)) = Some i"
  shows "table_valid s"
  using assms by (simp add: table_valid_def)

lemma table_validD:
  assumes "table_valid s"
  shows "i < length (ta_connections s) \<Longrightarrow> connection_ok s i"
    and "ta_active_connections s \<union> set (ta_free_connections s) = {..<length (ta_connections s)}"
    and "ta_endpoint_to_connection_map s e = Some i \<Longrightarrow> i < length (ta_connections s)"
    and "i \<in> ta_active_connections s \<Longrightarrow> ta_endpoint_to_connection_map s (tc_endpoint (ta_connections s ! i)) = Some i"
  using assms by (simp_all add: table_valid_def)

text \<open>How often an identifier is free or in use.\<close>

definition uses :: "nat \<Rightarrow> 'e TCPAgent \<Rightarrow> nat" where
  "uses i s = count_list (ta_free_connections s) i + (if i \<in> ta_active_connections s then 1 else 0)"

definition keeps :: "nat \<Rightarrow> 'e TCPAgent \<Rightarrow> 'e TCPAgent \<Rightarrow> bool" where
  "keeps k s s' \<longleftrightarrow> (table_valid s \<longrightarrow>
     table_valid s' \<and> length (ta_connections s') = length (ta_connections s) \<and> (\<forall>i. uses i s' \<le> uses i s + k))"

lemma keeps_refl [simp, intro]: "keeps k s s"
  by (simp add: keeps_def)

lemma keeps_trans: "keeps k s s1 \<Longrightarrow> keeps l s1 s2 \<Longrightarrow> keeps (k + l) s s2"
  by (fastforce simp: keeps_def intro: order_trans)

lemma keeps_trans0: "keeps 0 s s1 \<Longrightarrow> keeps 0 s1 s2 \<Longrightarrow> keeps 0 s s2"
  using keeps_trans [of 0 s s1 0 s2] by simp

lemma keeps_fields:
  assumes "ta_connections s' = ta_connections s" and "ta_active_connections s' = ta_active_connections s"
    and "ta_free_connections s' = ta_free_connections s" and "ta_endpoint_to_connection_map s' = ta_endpoint_to_connection_map s"
  shows "keeps k s s'"
  using assms by (simp add: keeps_def table_valid_def connection_ok_def uses_def)

lemma count_list_distinct: "distinct xs \<Longrightarrow> count_list xs i \<le> Suc 0"
  by (induction xs) (auto simp: count_list_0_iff)

lemma table_okD_valid:
  assumes "table_ok s"
  shows "table_valid s" and "uses i s \<le> 1"
proof -
  note t = table_okD [OF assms]
  show "table_valid s" unfolding table_valid_def using assms t(1,2,4) by (auto simp: table_ok_def)
  have "distinct (ta_free_connections s)" "ta_active_connections s \<inter> set (ta_free_connections s) = {}"
    using assms by (simp_all add: table_ok_def)
  then show "uses i s \<le> 1" by (auto simp: uses_def count_list_distinct count_list_0_iff)
qed

lemma keeps_set_connection:
  assumes "i < length (ta_connections s)" and "same_peer (ta_connections s ! i) c"
    and "ib_ok (tc_input_buffer c)" and "ib_state (tc_input_buffer c) \<noteq> TCP_MESSAGE_AVAILABLE"
  shows "keeps 0 s (set_connection i c s)"
  unfolding keeps_def
proof
  assume v: "table_valid s"
  have "connection_ok (set_connection i c s) j" if "j < length (ta_connections s)" for j
    using v that assms by (auto simp: table_valid_def connection_ok_def Let_def same_peer_def nth_list_update)
  moreover have "tc_endpoint ((ta_connections s)[i := c] ! j) = tc_endpoint (ta_connections s ! j)" for j
    using assms(1,2) by (cases "j = i") (simp_all add: same_peer_def)
  ultimately show "table_valid (set_connection i c s) \<and> length (ta_connections (set_connection i c s)) = length (ta_connections s)
      \<and> (\<forall>j. uses j (set_connection i c s) \<le> uses j s + 0)"
    using v by (simp add: table_valid_def uses_def)
qed

lemma keeps_close:
  assumes "i < length (ta_connections s)"
  shows "keeps 0 s (snd (close_connection i s))"
  unfolding keeps_def
proof
  let ?c = "ta_connections s ! i" and ?s = "snd (close_connection i s)"
  assume v: "table_valid s"
  have c: "connection_ok s i" by (rule table_validD(1) [OF v assms])
  show "table_valid ?s \<and> length (ta_connections ?s) = length (ta_connections s) \<and> (\<forall>j. uses j ?s \<le> uses j s + 0)"
  proof (cases "i \<in> ta_active_connections s")
    case True
    have s: "?s = (set_connection i (?c\<lparr>tc_poll_fd := None, tc_active := False\<rparr>) s)
               \<lparr>ta_endpoint_to_connection_map := (ta_endpoint_to_connection_map s)(tc_endpoint ?c := None),
                ta_active_connections := ta_active_connections s - {i}, ta_free_connections := ta_free_connections s @ [i]\<rparr>"
      using c True by (simp add: close_connection_def connection_ok_def Let_def)
    have "table_valid ?s"
    proof (rule table_validI)
      fix j assume "j < length (ta_connections ?s)"
      then have "connection_ok s j" by (intro table_validD(1) [OF v]) (simp add: s)
      with c assms show "connection_ok ?s j" by (auto simp: s connection_ok_def Let_def nth_list_update)
    next
      show "ta_active_connections ?s \<union> set (ta_free_connections ?s) = {..<length (ta_connections ?s)}"
        using table_validD(2) [OF v] True by (auto simp: s)
    next
      fix e j assume "ta_endpoint_to_connection_map ?s e = Some j"
      then have "ta_endpoint_to_connection_map s e = Some j" by (simp add: s split: if_splits)
      from table_validD(3) [OF v this] show "j < length (ta_connections ?s)" by (simp add: s)
    next
      fix j assume "j \<in> ta_active_connections ?s"
      then have j: "j \<in> ta_active_connections s" "j \<noteq> i" by (simp_all add: s)
      with table_validD(4) [OF v j(1)] table_validD(4) [OF v True] have "tc_endpoint (ta_connections s ! j) \<noteq> tc_endpoint ?c" by auto
      with j table_validD(4) [OF v j(1)] show "ta_endpoint_to_connection_map ?s (tc_endpoint (ta_connections ?s ! j)) = Some j"
        by (simp add: s)
    qed
    moreover have "uses j ?s = uses j s" for j using True by (auto simp: s uses_def)
    ultimately show ?thesis by (simp add: s)
  next
    case False
    then have "?s = s" using c by (simp add: close_connection_def connection_ok_def Let_def)
    then show ?thesis using v by simp
  qed
qed

lemma keeps_open:
  assumes "\<not> connected sockaddr s"
  shows "keeps 0 s (snd (open_connection fd sockaddr s))"
  unfolding keeps_def
proof
  let ?s = "snd (open_connection fd sockaddr s)"
  assume v: "table_valid s"
  show "table_valid ?s \<and> length (ta_connections ?s) = length (ta_connections s) \<and> (\<forall>j. uses j ?s \<le> uses j s + 0)"
  proof (cases "ta_free_connections s")
    case (Cons i rest)
    let ?c = "ta_connections s ! i"
    have i: "i < length (ta_connections s)" using table_validD(2) [OF v] Cons by auto
    have c: "connection_ok s i" by (rule table_validD(1) [OF v i])
    let ?c' = "?c\<lparr>tc_poll_fd := Some fd, tc_endpoint := sockaddr, tc_active := True, tc_input_buffer := init_input_buffer (tc_input_buffer ?c)\<rparr>"
    have s: "?s = (set_connection i ?c' s)\<lparr>ta_endpoint_to_connection_map := (ta_endpoint_to_connection_map s)(sockaddr \<mapsto> i),
                ta_active_connections := insert i (ta_active_connections s), ta_free_connections := rest\<rparr>"
      using c Cons by (simp add: open_connection_def connection_ok_def Let_def)
    have "table_valid ?s"
    proof (rule table_validI)
      fix j assume "j < length (ta_connections ?s)"
      then have "connection_ok s j" by (intro table_validD(1) [OF v]) (simp add: s)
      with c i show "connection_ok ?s j"
        by (auto simp: s connection_ok_def Let_def nth_list_update init_input_buffer_def ib_ok_def)
    next
      show "ta_active_connections ?s \<union> set (ta_free_connections ?s) = {..<length (ta_connections ?s)}"
        using table_validD(2) [OF v] Cons by (auto simp: s)
    next
      fix e j assume "ta_endpoint_to_connection_map ?s e = Some j"
      then have "ta_endpoint_to_connection_map s e = Some j \<or> j = i" by (simp add: s split: if_splits)
      with table_validD(3) [OF v, of e j] i show "j < length (ta_connections ?s)" by (auto simp: s)
    next
      fix j assume j: "j \<in> ta_active_connections ?s"
      show "ta_endpoint_to_connection_map ?s (tc_endpoint (ta_connections ?s ! j)) = Some j"
      proof (cases "j = i")
        case False
        with j have j: "j \<in> ta_active_connections s" by (simp add: s)
        then have "j < length (ta_connections s)" using table_validD(2) [OF v] by blast
        then have "tc_active (ta_connections s ! j)" using table_validD(1) [OF v] j by (auto simp: connection_ok_def Let_def)
        with table_validD(4) [OF v j] assms have "tc_endpoint (ta_connections s ! j) \<noteq> sockaddr" by (auto simp: connected_def)
        with table_validD(4) [OF v j] False show ?thesis by (simp add: s)
      qed (use i in \<open>simp add: s\<close>)
    qed
    moreover have "uses j ?s \<le> uses j s" for j using Cons by (simp add: s uses_def)
    ultimately show ?thesis by (simp add: s)
  qed (use v in \<open>simp add: open_connection_def\<close>)
qed

lemma keeps_read_connection:
  assumes "table_valid s" and "i < length (ta_connections s)" and "read_connection C i revents (rv, rc, s) = (rv', rc', s')"
  shows "keeps 0 s s'"
proof (cases revents)
  case True
  let ?c = "ta_connections s ! i"
  obtain n rc1 c1 where r: "read_data ?c = (n, rc1, c1)" by (metis prod_cases3)
  have "connection_ok s i" using assms(1,2) by (simp add: table_valid_def)
  then have "ib_ok (tc_input_buffer ?c)" by (simp add: connection_ok_def Let_def)
  from read_data_stream [OF this r] have one: "keeps 0 s (set_connection i c1 s)"
    by (intro keeps_set_connection [OF assms(2)]) auto
  have "s' = snd (close_connection i (set_connection i c1 s)) \<or> (\<exists>q. s' = set_connection i c1 s\<lparr>ta_messages_queue := q\<rparr>) \<or> s' = set_connection i c1 s"
    using assms(3) r True by (auto simp: read_connection_def Let_def split: if_splits)
  then show ?thesis
  proof (elim disjE exE)
    assume "s' = snd (close_connection i (set_connection i c1 s))"
    then show ?thesis using keeps_close [of i "set_connection i c1 s"] assms(2) by (auto intro: keeps_trans0 [OF one])
  qed (auto intro: keeps_trans0 [OF one keeps_fields] one)
qed (use assms in \<open>simp add: read_connection_def\<close>)

lemma keeps_read_connections:
  assumes "table_valid s" and "\<forall>(i, r) \<in> set irs. i < length (ta_connections s)"
    and "fold (\<lambda>(i, r). read_connection C i r) irs (rv, rc, s) = (rv', rc', s')"
  shows "keeps 0 s s'"
  using assms
proof (induction irs arbitrary: rv rc s)
  case (Cons ir irs)
  obtain i r where ir: "ir = (i, r)" by fastforce
  obtain rv1 rc1 s1 where s1: "read_connection C i r (rv, rc, s) = (rv1, rc1, s1)" by (metis prod_cases3)
  have one: "keeps 0 s s1" using Cons.prems(1,2) by (intro keeps_read_connection [OF _ _ s1]) (auto simp: ir)
  then have "table_valid s1" "length (ta_connections s1) = length (ta_connections s)" using Cons.prems(1) by (simp_all add: keeps_def)
  with Cons.IH [of s1 rv1 rc1] Cons.prems(2,3) s1 show ?case by (auto simp: ir intro: keeps_trans0 [OF one])
qed simp

lemma keeps_recv:
  assumes "tcp_recv_message C poll_fails rc s = (packet, rc', s')"
  shows "keeps 0 s s'"
proof (cases "table_valid s")
  case True
  let ?irs = "enumerate 0 (map (\<lambda>c. tcp_poll (tc_poll_fd c)) (ta_connections s))"
  have irs: "\<forall>(i, r) \<in> set ?irs. i < length (ta_connections s)" by (auto simp: in_set_enumerate_eq)
  obtain ok rc1 s1 where s1: "(if ta_messages_queue s = [] then tcp_read_message C poll_fails rc s else (True, rc, s)) = (ok, rc1, s1)"
    by (metis prod_cases3)
  then have "keeps 0 s s1"
    using keeps_read_connections [OF True irs, of C False rc ok rc1 s1] by (auto simp: tcp_read_message_def Let_def split: if_splits)
  moreover have "keeps 0 s1 s'" using assms s1 by (auto simp: tcp_recv_message_def Let_def split: if_splits intro: keeps_fields)
  ultimately show ?thesis by (rule keeps_trans0)
qed (simp add: keeps_def)

lemma keeps_send:
  assumes "table_valid s"
  obtains ok rc s' where "tcp_send_message destination m s = Some (ok, rc, s')" and "keeps 0 s s'"
proof (cases "ta_endpoint_to_connection_map s destination")
  case None
  then show ?thesis using that [of False Rc_connection_error s] by (simp add: tcp_send_message_def)
next
  case (Some i)
  let ?c = "ta_connections s ! i"
  have i: "i < length (ta_connections s)" using assms Some by (auto simp: table_valid_def)
  obtain ok rc c where w: "write_message (om_bytes m) ?c = (ok, rc, c)" by (metis prod_cases3)
  have "connection_ok s i" using assms i by (simp add: table_valid_def)
  with write_message_input [OF w] have one: "keeps 0 s (set_connection i c s)"
    by (intro keeps_set_connection [OF i]) (simp_all add: same_input_def connection_ok_def Let_def)
  have "keeps 0 s (if rc = Rc_connection_error then snd (close_connection i (set_connection i c s)) else set_connection i c s)"
    using one keeps_close [of i "set_connection i c s"] i by (auto intro: keeps_trans0)
  then show ?thesis using Some i w by (intro that) (simp add: tcp_send_message_def Let_def)
qed

lemma keeps_on_connection:
  assumes "\<And>c. same_peer c (f c) \<and> tc_input_buffer (f c) = tc_input_buffer c"
  shows "keeps 0 s (on_connection f e s)"
proof (cases "table_valid s \<and> connected e s")
  case True
  then obtain i where i: "ta_endpoint_to_connection_map s e = Some i" by (auto simp: connected_def split: option.splits)
  then have "i < length (ta_connections s)" "connection_ok s i" using True by (auto simp: table_valid_def)
  then have "keeps 0 s (set_connection i (f (ta_connections s ! i)) s)"
    using assms by (intro keeps_set_connection) (simp_all add: connection_ok_def Let_def)
  with True i show ?thesis by (simp add: on_connection_def)
qed (auto simp: on_connection_def keeps_def)

lemma keeps_step:
  assumes "table_valid s"
  obtains out s' where "tcp_step C ev s = Some (out, s')" and "keeps 0 s s'"
proof (cases ev)
  case (Connects sk e)
  have "keeps 0 s (if connected e s then s else listener_iteration (Some (sk, e)) s)"
    using keeps_open [of e s sk] by (simp add: listener_iteration_def)
  then show ?thesis using that Connects by simp
next
  case (Arrives e segments)
  have "keeps 0 s (on_connection (arrive segments) e s)" by (rule keeps_on_connection) (simp add: arrive_stream)
  then show ?thesis using that Arrives by simp
next
  case (Closes e)
  have "keeps 0 s (on_connection peer_closes e s)" by (rule keeps_on_connection) (simp add: peer_closes_def same_peer_def)
  then show ?thesis using that Closes by simp
next
  case (Receives poll_fails)
  obtain p rc s' where r: "tcp_recv_message C poll_fails Rc_ok s = (p, rc, s')" by (metis prod_cases3)
  from keeps_recv [OF r] show ?thesis using that Receives r by simp
next
  case (Sends e m)
  obtain ok rc s' where "tcp_send_message e m s = Some (ok, rc, s')" "keeps 0 s s'" by (rule keeps_send [OF assms])
  then show ?thesis using that Sends by simp
qed

text \<open>The error handler.\<close>

lemma keeps_close_all:
  "\<forall>i \<in> set is. i < length (ta_connections s) \<Longrightarrow> table_valid s \<Longrightarrow>
    keeps 0 s (fold (\<lambda>i t. snd (close_connection i t)) is s)"
proof (induction "is" arbitrary: s)
  case (Cons i "is")
  have one: "keeps 0 s (snd (close_connection i s))" by (rule keeps_close) (use Cons.prems(1) in simp)
  then have "table_valid (snd (close_connection i s))" "length (ta_connections (snd (close_connection i s))) = length (ta_connections s)"
    using Cons.prems(2) by (simp_all add: keeps_def)
  with Cons.IH [of "snd (close_connection i s)"] Cons.prems(1) show ?case by (auto intro: keeps_trans0 [OF one])
qed simp

lemma keeps_fini: "keeps 0 s (snd (tcp_fini close_ok s))"
proof (cases "table_valid s")
  case True
  let ?s1 = "s\<lparr>ta_running_cond := False, ta_listener := ta_listener s \<and> \<not> close_ok\<rparr>"
  have one: "keeps 0 s ?s1" by (rule keeps_fields) simp_all
  with True have "table_valid ?s1" by (simp add: keeps_def)
  with keeps_close_all [of "[0..<length (ta_connections s)]" ?s1]
  have "keeps 0 ?s1 (snd (tcp_fini close_ok s))" by (simp add: tcp_fini_def Let_def)
  with one show ?thesis by (rule keeps_trans0)
qed (simp add: keeps_def)

lemma keeps_init:
  assumes "ta_active_connections s = {}"
  shows "keeps 1 s (snd (tcp_init socket_ok bind_ok listen_ok s))"
proof (cases "table_valid s \<and> socket_ok \<and> bind_ok")
  case True
  let ?s = "snd (tcp_init socket_ok bind_ok listen_ok s)" and ?n = "length (ta_connections s)"
  have s: "ta_connections ?s = map2 reset_connection [0..<?n] (ta_connections s)" "ta_active_connections ?s = {}"
    "ta_free_connections ?s = ta_free_connections s @ [0..<?n]"
    "ta_endpoint_to_connection_map ?s = ta_endpoint_to_connection_map s"
    using True assms by (simp_all add: tcp_init_def Let_def)
  have "connection_ok ?s i" if "i < ?n" for i
    using True that unfolding connection_ok_def s
    by (auto simp: Let_def reset_connection_def init_input_buffer_def ib_ok_def table_valid_def connection_ok_def)
  moreover have "set (ta_free_connections s) = {..<?n}" using True assms by (simp add: table_valid_def)
  moreover have "count_list [0..<?n] i \<le> 1" for i by (simp add: count_list_distinct)
  ultimately show ?thesis using True unfolding keeps_def table_valid_def uses_def s by (auto simp: s assms atLeast0LessThan)
next
  case False
  then show ?thesis
    by (cases "table_valid s") (auto simp: keeps_def tcp_init_def table_valid_def connection_ok_def uses_def split: if_splits)
qed

lemma keeps_handle_error: "keeps 1 s (snd (tcp_handle_error close_ok socket_ok bind_ok listen_ok s))"
proof (cases "fst (tcp_fini close_ok s)")
  case True
  then have "ta_active_connections (snd (tcp_fini close_ok s)) = {}" by (simp add: tcp_fini_def Let_def)
  from keeps_trans [OF keeps_fini keeps_init [OF this]] True show ?thesis by (simp add: tcp_handle_error_def split_def)
next
  case False
  have "keeps 1 s (snd (tcp_fini close_ok s))" using keeps_trans [OF keeps_fini keeps_refl [of 1]] by simp
  with False show ?thesis by (simp add: tcp_handle_error_def split_def)
qed

lemma keeps_life:
  assumes "table_valid s"
  obtains out s' where "tcp_life C acts s = Some (out, s')" and "keeps (restarts acts) s s'"
  using assms
proof (induction acts arbitrary: s thesis)
  case Nil
  show ?case by (rule Nil(1) [of "[]" s]) simp_all
next
  case (Cons act acts)
  show ?case
  proof (cases act)
    case (Event ev)
    obtain out s1 where one: "tcp_step C ev s = Some (out, s1)" "keeps 0 s s1" by (rule keeps_step [OF Cons.prems(2)])
    then have "table_valid s1" using Cons.prems(2) by (simp add: keeps_def)
    from Cons.IH [OF _ this] obtain out' s' where two: "tcp_life C acts s1 = Some (out', s')" "keeps (restarts acts) s1 s'" by blast
    show ?thesis by (rule Cons.prems(1) [of "out @ out'" s']) (use one two Event keeps_trans in \<open>force+\<close>)
  next
    case (Handles_error a b c d)
    let ?s1 = "snd (tcp_handle_error a b c d s)"
    have one: "keeps 1 s ?s1" by (rule keeps_handle_error)
    then have "table_valid ?s1" using Cons.prems(2) by (simp add: keeps_def)
    from Cons.IH [OF _ this] obtain out s' where two: "tcp_life C acts ?s1 = Some (out, s')" "keeps (restarts acts) ?s1 s'" by blast
    show ?thesis by (rule Cons.prems(1) [of out s']) (use keeps_trans [OF one two(2)] two(1) Handles_error in simp_all)
  qed
qed

lemma life_without_restarts: "restarts acts = 0 \<Longrightarrow> \<exists>evs. tcp_life C acts s = tcp_run C evs s"
proof (induction acts arbitrary: s)
  case Nil
  show ?case by (rule exI [of _ "[]"]) simp
next
  case (Cons act acts)
  then obtain ev where ev: "act = Event ev" by (cases act) auto
  show ?case
  proof (cases "tcp_step C ev s")
    case None
    then show ?thesis by (intro exI [of _ "[ev]"]) (simp add: ev)
  next
    case (Some p)
    obtain out s1 where p: "p = (out, s1)" by fastforce
    obtain evs where "tcp_life C acts s1 = tcp_run C evs s1" using Cons ev by auto
    then show ?thesis by (intro exI [of _ "ev # evs"]) (simp add: ev Some p)
  qed
qed

text \<open>C23: the table of connections, over the whole life of the transport.  Whatever peers do, whatever is sent and
  received, and however often the error handler takes the transport down and starts it again, with or without success:
  no operation fails or leaves the table; every identifier is free or in use; a connection in use has an open socket,
  one that is not has none; the map takes the endpoint of a connection in use to it, and never leads outside the table;
  and an identifier is free or in use at most once more often than the transport has been restarted.  So until the
  first restart each is either free, once, or in use, and the map knows the endpoints of the connections in use and no
  others (\<open>table_ok\<close>); restarts break just this (see \<open>restart_frees_twice\<close> and \<open>restart_mixes_peers\<close>).
\<close>

theorem tcp_table_invariant:
  "\<exists>out s. tcp_life C acts (snd (tcp_init True True True (TCPAgent_new n e))) = Some (out, s)
     \<and> table_valid s \<and> length (ta_connections s) = n \<and> (\<forall>i. uses i s \<le> Suc (restarts acts))
     \<and> (0 < restarts acts \<or> table_ok s)"
proof -
  let ?s0 = "snd (tcp_init True True True (TCPAgent_new n e))"
  have n: "length (ta_connections ?s0) = n" by (simp add: tcp_init_def TCPAgent_new_def Let_def)
  note start = tcp_init_ok [of n e]
  obtain out s where life: "tcp_life C acts ?s0 = Some (out, s)" and keeps: "keeps (restarts acts) ?s0 s"
    by (rule keeps_life [OF table_okD_valid(1) [OF start]])
  have "uses i s \<le> Suc (restarts acts)" for i
    using keeps table_okD_valid(1) [OF start] table_okD_valid(2) [OF start, of i] by (fastforce simp: keeps_def intro: order_trans)
  moreover have "0 < restarts acts \<or> table_ok s"
    using life life_without_restarts [of acts C ?s0] tcp_run_ok [OF start] by (metis gr0I option.inject prod.inject)
  ultimately show ?thesis using life keeps table_okD_valid(1) [OF start] n by (simp add: keeps_def)
qed

text \<open>
  The error handler starts the transport anew without emptying the list of free identifiers: afterwards every
  identifier is in it twice.
\<close>

lemma close_all_ok:
  assumes "table_ok s" and "\<forall>i \<in> set is. i < length (ta_connections s)"
  defines "s' \<equiv> fold (\<lambda>i t. snd (close_connection i t)) is s"
  shows "table_ok s' \<and> length (ta_connections s') = length (ta_connections s)
    \<and> ta_active_connections s' = ta_active_connections s - set is \<and> ta_listener s' = ta_listener s"
  using assms(1,2) unfolding s'_def
proof (induction "is" arbitrary: s)
  case (Cons i "is")
  note one = close_connection_ok [OF Cons.prems(1), of i]
  from Cons.IH [of "snd (close_connection i s)"] one Cons.prems(2) show ?case by auto
qed simp

lemma restart_frees_twice:
  assumes "table_ok s"
  shows "\<exists>ids. ta_free_connections (snd (tcp_handle_error True True True True s)) = ids @ [0..<length (ta_connections s)]
    \<and> set ids = {..<length (ta_connections s)}"
proof -
  let ?s1 = "s\<lparr>ta_running_cond := False, ta_listener := ta_listener s \<and> \<not> True\<rparr>"
  let ?s2 = "snd (tcp_fini True s)"
  have "table_ok ?s1" using assms by (simp add: table_ok_def connection_ok_def)
  from close_all_ok [OF this, of "[0..<length (ta_connections s)]"]
  have s2: "table_ok ?s2" "length (ta_connections ?s2) = length (ta_connections s)" "\<not> ta_listener ?s2"
      "ta_active_connections ?s2 = ta_active_connections s - {..<length (ta_connections s)}"
    by (simp_all add: tcp_fini_def Let_def atLeast0LessThan)
  have "ta_active_connections ?s2 = {}" using s2(4) table_okD(2) [OF assms] by auto
  then have "fst (tcp_fini True s)" "set (ta_free_connections ?s2) = {..<length (ta_connections s)}"
    using s2 by (auto simp: tcp_fini_def Let_def table_ok_def)
  moreover from this obtain t where "tcp_fini True s = (True, t)" by (metis (full_types) prod.collapse)
  then have "tcp_handle_error True True True True s = tcp_init True True True ?s2" unfolding tcp_handle_error_def by simp
  then have "ta_free_connections (snd (tcp_handle_error True True True True s)) = ta_free_connections ?s2 @ [0..<length (ta_connections s)]"
    using s2(2) by (simp add: tcp_init_def Let_def)
  ultimately show ?thesis by blast
qed

text \<open>
  So two peers get the same connection: with two connections, the third peer after a restart takes over the socket of
  the first, and what the agent sends to the first goes to the third.
\<close>

definition restarted_agent :: "nat TCPAgent" where
  "restarted_agent = snd (tcp_handle_error True True True True example_agent)"

lemma restart_mixes_peers:
  "case tcp_run cdr_little [Connects new_socket 1, Connects new_socket 2, Connects new_socket 3,
        Sends 1 \<lparr>om_bytes = [9], om_capacity = 1\<rparr>] restarted_agent of
     None \<Rightarrow> False
   | Some (out, s) \<Rightarrow> map_option tc_endpoint (conn_of 1 s) = Some 3 \<and> map_option written (conn_of 3 s) = Some [1, 0, 9]"
  by code_simp

end
