(* ===== verification/Endpoints.thy ===== *)
theory Endpoints
  imports Prelude "HOL-Library.List_Lexorder" "HOL-Library.Char_ord"
begin

text \<open>
  The endpoints of the transports (\<open>include/uxr/agent/transport/endpoint\<close>) and their \<open>operator<\<close>, by which the session
  directory and the TCP transport key their \<open>std::map\<close>s.  The locale \<open>map_key\<close> is what \<open>std::map\<close> needs of an order and
  what lets a map be read as a function of the key: a strict weak order in which only equal keys are equivalent.
\<close>

subsection \<open>What a map needs of its key\<close>

locale map_key =
  fixes less :: "'e \<Rightarrow> 'e \<Rightarrow> bool" and valid :: "'e \<Rightarrow> bool"
  assumes irrefl: "valid x \<Longrightarrow> \<not> less x x"
    and trans: "valid x \<Longrightarrow> valid y \<Longrightarrow> valid z \<Longrightarrow> less x y \<Longrightarrow> less y z \<Longrightarrow> less x z"
    and exact: "valid x \<Longrightarrow> valid y \<Longrightarrow> \<not> less x y \<Longrightarrow> \<not> less y x \<Longrightarrow> x = y"
begin

lemma asym: "valid x \<Longrightarrow> valid y \<Longrightarrow> less x y \<Longrightarrow> \<not> less y x"
  using irrefl trans by blast

lemma same_key: "valid x \<Longrightarrow> valid y \<Longrightarrow> (\<not> less x y \<and> \<not> less y x) = (x = y)"
  using exact irrefl by blast

end

subsection \<open>Network, serial and CAN endpoints\<close>

datatype IPv4EndPoint = IPv4EndPoint (ipv4_get_addr: u32) (ipv4_get_port: u16)
datatype IPv6EndPoint = IPv6EndPoint (ipv6_get_addr: "u8 list") (ipv6_get_port: u16)
datatype SerialEndPoint = SerialEndPoint (serial_get_addr: u8)
datatype MultiSerialEndPoint = MultiSerialEndPoint (multi_get_fd: int) (multi_get_addr: u8)
datatype CanEndPoint = CanEndPoint (get_can_id: u32)

definition ipv4_less :: "IPv4EndPoint \<Rightarrow> IPv4EndPoint \<Rightarrow> bool" where
  "ipv4_less x y \<longleftrightarrow> ipv4_get_addr x < ipv4_get_addr y \<or> ipv4_get_addr x = ipv4_get_addr y \<and> ipv4_get_port x < ipv4_get_port y"

text \<open>\<open>std::array\<close> compares octet by octet.\<close>

definition ipv6_less :: "IPv6EndPoint \<Rightarrow> IPv6EndPoint \<Rightarrow> bool" where
  "ipv6_less x y \<longleftrightarrow> ipv6_get_addr x < ipv6_get_addr y \<or> ipv6_get_addr x = ipv6_get_addr y \<and> ipv6_get_port x < ipv6_get_port y"

definition serial_less :: "SerialEndPoint \<Rightarrow> SerialEndPoint \<Rightarrow> bool" where
  "serial_less x y \<longleftrightarrow> serial_get_addr x < serial_get_addr y"

definition multi_serial_less :: "MultiSerialEndPoint \<Rightarrow> MultiSerialEndPoint \<Rightarrow> bool" where
  "multi_serial_less x y \<longleftrightarrow> multi_get_fd x < multi_get_fd y"

definition can_less :: "CanEndPoint \<Rightarrow> CanEndPoint \<Rightarrow> bool" where
  "can_less x y \<longleftrightarrow> get_can_id x < get_can_id y"

instantiation IPv4EndPoint :: linorder
begin
definition less_IPv4EndPoint_def: "x < y \<longleftrightarrow> ipv4_less x y"
definition less_eq_IPv4EndPoint_def: "x \<le> y \<longleftrightarrow> x = y \<or> ipv4_less x (y :: IPv4EndPoint)"
instance
proof
  fix x y z :: IPv4EndPoint
  note defs = less_IPv4EndPoint_def less_eq_IPv4EndPoint_def ipv4_less_def
  show "x < y \<longleftrightarrow> x \<le> y \<and> \<not> y \<le> x" "x \<le> x" "x \<le> y \<Longrightarrow> y \<le> x \<Longrightarrow> x = y" "x \<le> y \<or> y \<le> x"
    by (cases x; cases y; auto simp: defs)+
  show "x \<le> y \<Longrightarrow> y \<le> z \<Longrightarrow> x \<le> z" by (cases x; cases y; cases z) (auto simp: defs)
qed
end

instantiation IPv6EndPoint :: linorder
begin
definition less_IPv6EndPoint_def: "x < y \<longleftrightarrow> ipv6_less x y"
definition less_eq_IPv6EndPoint_def: "x \<le> y \<longleftrightarrow> x = y \<or> ipv6_less x (y :: IPv6EndPoint)"
instance
proof
  fix x y z :: IPv6EndPoint
  note defs = less_IPv6EndPoint_def less_eq_IPv6EndPoint_def ipv6_less_def
  show "x < y \<longleftrightarrow> x \<le> y \<and> \<not> y \<le> x" "x \<le> x" "x \<le> y \<Longrightarrow> y \<le> x \<Longrightarrow> x = y" "x \<le> y \<or> y \<le> x"
    by (cases x; cases y; auto simp: defs)+
  show "x \<le> y \<Longrightarrow> y \<le> z \<Longrightarrow> x \<le> z" by (cases x; cases y; cases z) (auto simp: defs)
qed
end

instantiation CanEndPoint :: linorder
begin
definition less_CanEndPoint_def: "x < y \<longleftrightarrow> can_less x y"
definition less_eq_CanEndPoint_def: "x \<le> y \<longleftrightarrow> x = y \<or> can_less x (y :: CanEndPoint)"
instance
proof
  fix x y z :: CanEndPoint
  note defs = less_CanEndPoint_def less_eq_CanEndPoint_def can_less_def
  show "x < y \<longleftrightarrow> x \<le> y \<and> \<not> y \<le> x" "x \<le> x" "x \<le> y \<Longrightarrow> y \<le> x \<Longrightarrow> x = y" "x \<le> y \<or> y \<le> x"
    by (cases x; cases y; auto simp: defs)+
  show "x \<le> y \<Longrightarrow> y \<le> z \<Longrightarrow> x \<le> z" by (cases x; cases y; cases z) (auto simp: defs)
qed
end

interpretation ipv4_key: map_key ipv4_less "\<lambda>_. True"
  by unfold_locales (auto simp: ipv4_less_def IPv4EndPoint.expand)

interpretation ipv6_key: map_key ipv6_less "\<lambda>_. True"
  by unfold_locales (auto simp: ipv6_less_def IPv6EndPoint.expand)

interpretation serial_key: map_key serial_less "\<lambda>_. True"
  by unfold_locales (auto simp: serial_less_def SerialEndPoint.expand)

interpretation can_key: map_key can_less "\<lambda>_. True"
  by unfold_locales (auto simp: can_less_def CanEndPoint.expand)

text \<open>
  Endpoints of the multi-serial transport are compared by the port alone, so two devices with different addresses on one
  line are the same key: a map finds the entry of the one for the other.
\<close>

lemma multi_serial_same_key:
  assumes "a \<noteq> b"
  shows "\<not> multi_serial_less (MultiSerialEndPoint fd a) (MultiSerialEndPoint fd b)
    \<and> \<not> multi_serial_less (MultiSerialEndPoint fd b) (MultiSerialEndPoint fd a)
    \<and> MultiSerialEndPoint fd a \<noteq> MultiSerialEndPoint fd b"
  using assms by (simp add: multi_serial_less_def)

subsection \<open>Custom endpoints\<close>

text \<open>
  A custom endpoint has named members; a member has a kind and, once it is set, a value of this kind.  The map
  \<open>members_\<close> is its list of entries in the order of the names.  \<open>None\<close> is an exception.  Reading a member that is not
  set is undefined and also \<open>None\<close>.
\<close>

datatype Member = UINT8 "u8 option" | UINT16 "u16 option" | UINT32 "u32 option" | UINT64 "64 word option"
  | UINT128 "128 word option" | STRING "string option"

type_synonym CustomEndPoint = "(string \<times> Member) list"

fun member_unset :: "Member \<Rightarrow> Member" where
  "member_unset (UINT8 x) = UINT8 None"
| "member_unset (UINT16 x) = UINT16 None"
| "member_unset (UINT32 x) = UINT32 None"
| "member_unset (UINT64 x) = UINT64 None"
| "member_unset (UINT128 x) = UINT128 None"
| "member_unset (STRING x) = STRING None"

fun member_empty :: "Member \<Rightarrow> bool" where
  "member_empty (UINT8 x) = (x = None)"
| "member_empty (UINT16 x) = (x = None)"
| "member_empty (UINT32 x) = (x = None)"
| "member_empty (UINT64 x) = (x = None)"
| "member_empty (UINT128 x) = (x = None)"
| "member_empty (STRING x) = (x = None)"

text \<open>The argument of \<open>add_member\<close> is the kind, here a member of it without value.\<close>

definition add_member :: "string \<Rightarrow> Member \<Rightarrow> CustomEndPoint \<Rightarrow> CustomEndPoint option" where
  "add_member nm kind members =
     (if nm \<in> fst ` set members then None else Some (insort_key fst (nm, member_unset kind) members))"

definition endpoint_reset :: "CustomEndPoint \<Rightarrow> CustomEndPoint" where
  "endpoint_reset members = map (\<lambda>(nm, m). (nm, member_unset m)) members"

definition set_member_value :: "string \<Rightarrow> Member \<Rightarrow> CustomEndPoint \<Rightarrow> CustomEndPoint option" where
  "set_member_value nm v members =
     (if nm \<in> fst ` set members then Some (map (\<lambda>(n, m). (n, if n = nm then v else m)) members) else None)"

definition check_non_empty_members :: "CustomEndPoint \<Rightarrow> unit option" where
  "check_non_empty_members members = (if list_ex (\<lambda>(nm, m). member_empty m) members then None else Some ())"

text \<open>\<open>less_than_members\<close>: -1, 0 or 1.\<close>

fun less_than_members :: "('a :: linorder) option \<Rightarrow> 'a option \<Rightarrow> int option" where
  "less_than_members (Some x) (Some y) = Some (if x = y then 0 else if x < y then -1 else 1)"
| "less_than_members _ _ = None"

text \<open>Members of different kinds are read through a pointer of the wrong type: undefined.\<close>

fun compare_members :: "Member \<Rightarrow> Member \<Rightarrow> int option" where
  "compare_members (UINT8 x) (UINT8 y) = less_than_members x y"
| "compare_members (UINT16 x) (UINT16 y) = less_than_members x y"
| "compare_members (UINT32 x) (UINT32 y) = less_than_members x y"
| "compare_members (UINT64 x) (UINT64 y) = less_than_members x y"
| "compare_members (UINT128 x) (UINT128 y) = less_than_members x y"
| "compare_members (STRING x) (STRING y) = less_than_members x y"
| "compare_members _ _ = None"

fun custom_less :: "CustomEndPoint \<Rightarrow> CustomEndPoint \<Rightarrow> bool option" where
  "custom_less [] other = Some False"
| "custom_less ((nm, m) # members) other =
     (case map_of other nm of
        None \<Rightarrow> None
      | Some m' \<Rightarrow>
          (case compare_members m m' of
             None \<Rightarrow> None
           | Some res \<Rightarrow> if res = 0 then custom_less members other else Some (res < 0)))"

text \<open>The endpoints of one agent are made from one list of names and kinds; the members of a received one are all set.\<close>

definition shaped :: "(string \<times> Member) list \<Rightarrow> CustomEndPoint \<Rightarrow> bool" where
  "shaped shape e \<longleftrightarrow> sorted_wrt (<) (map fst shape) \<and> endpoint_reset e = endpoint_reset shape
     \<and> check_non_empty_members e = Some ()"

lemma compare_members_order:
  assumes "member_unset m1 = member_unset m2" and "\<not> member_empty m1" and "\<not> member_empty m2"
  shows "\<exists>r. compare_members m1 m2 = Some r \<and> compare_members m2 m1 = Some (- r) \<and> (r = 0 \<longleftrightarrow> m1 = m2)"
  using assms by (cases m1; cases m2) auto

lemma compare_members_trans:
  assumes "member_unset m1 = member_unset m2" and "member_unset m2 = member_unset m3"
    and "compare_members m1 m2 = Some r" and "compare_members m2 m3 = Some q" and "r \<le> 0" and "q \<le> 0"
  shows "\<exists>p \<le> 0. compare_members m1 m3 = Some p \<and> (p = 0 \<longleftrightarrow> r = 0 \<and> q = 0)"
  using assms by (cases m1; cases m2; cases m3) (auto split: if_splits elim!: less_than_members.elims)

text \<open>On endpoints of one shape the comparison is the lexicographic one.\<close>

fun lex_less :: "CustomEndPoint \<Rightarrow> CustomEndPoint \<Rightarrow> bool option" where
  "lex_less ((nm, m) # a) ((nm', m') # b) =
     (case compare_members m m' of None \<Rightarrow> None | Some res \<Rightarrow> if res = 0 then lex_less a b else Some (res < 0))"
| "lex_less _ _ = Some False"

definition alike :: "CustomEndPoint \<Rightarrow> CustomEndPoint \<Rightarrow> bool" where
  "alike a b = list_all2 (\<lambda>x y. fst x = fst y \<and> member_unset (snd x) = member_unset (snd y)
     \<and> \<not> member_empty (snd x) \<and> \<not> member_empty (snd y)) a b"

lemma alike_Cons [simp]:
  "alike (x # a) (y # b) \<longleftrightarrow> fst x = fst y \<and> member_unset (snd x) = member_unset (snd y)
     \<and> \<not> member_empty (snd x) \<and> \<not> member_empty (snd y) \<and> alike a b"
  "alike [] []" "\<not> alike [] (y # b)" "\<not> alike (x # a) []"
  by (auto simp: alike_def)

lemma shaped_alike:
  assumes "shaped shape a" and "shaped shape b"
  shows "alike a b" and "distinct (map fst a)"
proof -
  have same: "map (\<lambda>x. (fst x, member_unset (snd x))) a = map (\<lambda>x. (fst x, member_unset (snd x))) b"
    using assms by (simp add: shaped_def endpoint_reset_def split_def)
  have full: "\<forall>x \<in> set c. \<not> member_empty (snd x)" if "shaped shape c" for c
    using that by (auto simp: shaped_def check_non_empty_members_def list_ex_iff split: if_splits)
  from same full [OF assms(1)] full [OF assms(2)] show "alike a b"
  proof (induction a arbitrary: b)
    case (Cons x a)
    then show ?case by (cases b) auto
  qed auto
  have "map fst (endpoint_reset a) = map fst (endpoint_reset shape)" using assms(1) by (simp add: shaped_def)
  then have "map fst a = map fst shape" by (simp add: endpoint_reset_def split_def comp_def)
  then show "distinct (map fst a)" using assms(1) by (simp add: shaped_def strict_sorted_iff)
qed

lemma custom_less_lex:
  assumes "alike a b" and "\<forall>(nm, m) \<in> set b. map_of other nm = Some m"
  shows "custom_less a other = lex_less a b"
  using assms
proof (induction a arbitrary: b)
  case (Cons x a)
  obtain y b' where "b = y # b'" using Cons.prems(1) by (cases b) auto
  with Cons show ?case by (cases x; cases y) (auto split: option.split)
qed simp

lemma custom_less_shaped:
  assumes "shaped shape a" and "shaped shape b"
  shows "custom_less a b = lex_less a b"
  using custom_less_lex [OF shaped_alike(1) [OF assms]] shaped_alike(2) [OF assms(2,2)] by (auto simp: map_of_is_SomeI)

lemma lex_less_order:
  "alike a b \<Longrightarrow> \<exists>r q. lex_less a b = Some r \<and> lex_less b a = Some q \<and> \<not> (r \<and> q) \<and> (r \<or> q \<longleftrightarrow> a \<noteq> b)"
proof (induction a arbitrary: b)
  case (Cons x a)
  obtain y b' where b: "b = y # b'" using Cons.prems(1) by (cases b) auto
  obtain n m m' where x: "x = (n, m)" "y = (n, m')" using Cons.prems b by (metis alike_Cons(1) prod.collapse)
  obtain r where "compare_members m m' = Some r" "compare_members m' m = Some (- r)" "r = 0 \<longleftrightarrow> m = m'"
    using compare_members_order [of m m'] Cons.prems by (auto simp: b x)
  moreover obtain r1 q1 where "lex_less a b' = Some r1" "lex_less b' a = Some q1" "\<not> (r1 \<and> q1)" "r1 \<or> q1 \<longleftrightarrow> a \<noteq> b'"
    using Cons.IH [of b'] Cons.prems by (auto simp: b)
  ultimately show ?case by (cases "r = 0") (auto simp: b x)
qed (auto simp: alike_def)

lemma lex_less_trans:
  "alike a b \<Longrightarrow> alike b c \<Longrightarrow> lex_less a b = Some True \<Longrightarrow> lex_less b c = Some True \<Longrightarrow> lex_less a c = Some True"
proof (induction a arbitrary: b c)
  case (Cons x a)
  obtain y b' where b: "b = y # b'" using Cons.prems(1) by (cases b) auto
  obtain z c' where c: "c = z # c'" using Cons.prems(2) b by (cases c) auto
  obtain n m1 m2 m3 where x: "x = (n, m1)" "y = (n, m2)" "z = (n, m3)"
    using Cons.prems(1,2) b c by (metis alike_Cons(1) prod.collapse)
  obtain r q where rq: "compare_members m1 m2 = Some r" "compare_members m2 m3 = Some q"
    using compare_members_order [of m1 m2] compare_members_order [of m2 m3] Cons.prems(1,2) by (auto simp: b c x)
  have le: "r \<le> 0" "q \<le> 0" using Cons.prems(3,4) rq by (auto simp: b c x split: if_splits)
  obtain p where p: "p \<le> 0" "compare_members m1 m3 = Some p" "p = 0 \<longleftrightarrow> r = 0 \<and> q = 0"
    using compare_members_trans [OF _ _ rq le] Cons.prems(1,2) by (auto simp: b c x)
  show ?case
  proof (cases "r = 0 \<and> q = 0")
    case True
    then show ?thesis using Cons.IH [of b' c'] Cons.prems rq p by (auto simp: b c x)
  next
    case False
    then have "p < 0" using p by auto
    then show ?thesis using p(2) by (simp add: c x)
  qed
qed simp

text \<open>So custom endpoints of one shape can be the keys of a map.\<close>

interpretation custom_key: map_key "\<lambda>a b. custom_less a b = Some True" "shaped shape" for shape
proof
  show "\<not> custom_less a a = Some True" if "shaped shape a" for a
    using lex_less_order [OF shaped_alike(1) [OF that that]] custom_less_shaped [OF that that] by auto
  show "custom_less a c = Some True"
    if "shaped shape a" "shaped shape b" "shaped shape c" "custom_less a b = Some True" "custom_less b c = Some True" for a b c
    using lex_less_trans [of a b c] that custom_less_shaped shaped_alike(1) by metis
  show "a = b" if "shaped shape a" "shaped shape b" "\<not> custom_less a b = Some True" "\<not> custom_less b a = Some True" for a b
    using lex_less_order [OF shaped_alike(1) [OF that(1,2)]] that custom_less_shaped by metis
qed

text \<open>A comparison with an endpoint that lacks a member, or whose members are not all set, has no result.\<close>

lemma custom_less_fails:
  "custom_less [(nm, m)] [] = None" "custom_less [(nm, UINT8 (Some x))] [(nm, UINT8 None)] = None"
  by simp_all

end
