(* ===== verification/Agent_Transports.thy ===== *)
theory Agent_Transports
  imports Agent_Server Framing_Reader Endpoints
begin

text \<open>
  The transports that take one system call or one frame per message: CAN, UDP and serial lines
  (\<open>src/cpp/transport/can/CanAgentLinux.cpp\<close>, \<open>udp/UDPv4AgentLinux.cpp\<close>, \<open>serial/SerialAgentLinux.cpp\<close>).  What the
  system calls return is an argument.  The results are whether the call succeeded and \<open>transport_rc\<close> after it.
\<close>

subsection \<open>CAN\<close>

text \<open>
  \<open>struct canfd_frame\<close> and the constants of \<open>linux/can.h\<close>: \<open>CANFD_MTU\<close> is the size of the structure, 72 octets, of which
  64 are data.  Access to \<open>data\<close> beyond its end is undefined (\<open>None\<close>).
\<close>

record canfd_frame =
  cf_can_id :: u32
  cf_len :: u8
  cf_data :: "u8 list"

definition CANFD_MTU :: nat where "CANFD_MTU = 72"
definition CANFD_MAX_DLEN :: nat where "CANFD_MAX_DLEN = 64"
definition CAN_ERR_MASK :: u32 where "CAN_ERR_MASK = 0x1FFFFFFF"
definition CAN_EFF_FLAG :: u32 where "CAN_EFF_FLAG = 0x80000000"

definition can_recv_message :: "cdr \<Rightarrow> int \<Rightarrow> canfd_frame option \<Rightarrow> TransportRc
    \<Rightarrow> (CanEndPoint InputPacket option \<times> TransportRc) option" where
  "can_recv_message C poll_rv read_frame transport_rc =
     (if 0 < poll_rv
      then case read_frame of
             None \<Rightarrow> Some (None, Rc_server_error)
           | Some f \<Rightarrow>
               let can_id = cf_can_id f AND CAN_ERR_MASK; len = unat (cf_data f ! 0)
               in if CANFD_MTU - 1 < len then Some (None, transport_rc)
                  else if CANFD_MAX_DLEN < 1 + len then None
                  else Some (Some \<lparr>ip_source = CanEndPoint can_id, ip_message = InputMessage_new C (take len (drop 1 (cf_data f)))\<rparr>,
                             transport_rc)
      else Some (None, if poll_rv = 0 then Rc_timeout_error else Rc_server_error))"

text \<open>\<open>written\<close> is what \<open>write\<close> returns; the last component is the frame that is offered to it.\<close>

definition can_send_message :: "CanEndPoint \<Rightarrow> u8 list \<Rightarrow> int \<Rightarrow> int \<Rightarrow> TransportRc
    \<Rightarrow> (bool \<times> TransportRc \<times> canfd_frame option) option" where
  "can_send_message destination message poll_rv written transport_rc =
     (let packet_len = length message
      in if CANFD_MTU - 1 < packet_len then Some (False, transport_rc, None)
         else if 0 < poll_rv
         then if CANFD_MAX_DLEN < 1 + packet_len then None
              else let f = \<lparr>cf_can_id = get_can_id destination OR CAN_EFF_FLAG, cf_len = of_nat (packet_len + 1),
                            cf_data = of_nat packet_len # message @ replicate (CANFD_MAX_DLEN - 1 - packet_len) 0\<rparr>
                   in if 0 < written then Some (True, transport_rc, Some f) else Some (False, Rc_server_error, Some f)
         else Some (False, Rc_server_error, None))"

text \<open>A message of up to 63 octets that is written on one side is what the other side reads, from the identifier used.\<close>

lemma can_roundtrip:
  assumes "length message \<le> 63" and "0 < poll_rv" and "0 < written" and "0 < poll_rv'" and "can_id AND CAN_ERR_MASK = can_id"
  shows "\<exists>f. can_send_message (CanEndPoint can_id) message poll_rv written rc = Some (True, rc, Some f) \<and> length (cf_data f) = CANFD_MAX_DLEN
    \<and> can_recv_message C poll_rv' (Some f) rc' = Some (Some \<lparr>ip_source = CanEndPoint can_id, ip_message = InputMessage_new C message\<rparr>, rc')"
proof -
  have "(can_id OR CAN_EFF_FLAG) AND CAN_ERR_MASK = can_id"
    using assms(5) by (simp add: bit.conj_disj_distrib2 CAN_EFF_FLAG_def CAN_ERR_MASK_def)
  moreover have "unat (of_nat (length message) :: u8) = length message" using assms(1) by (simp add: unat_of_nat)
  ultimately show ?thesis using assms(1-4)
    by (simp add: can_send_message_def can_recv_message_def CANFD_MTU_def CANFD_MAX_DLEN_def Let_def)
qed

text \<open>
  The limit is taken from the size of the frame and not from that of its data: messages of 64 to 71 octets are written
  past the end of the frame, and a received frame that announces as many makes the agent read past its end.
\<close>

lemma can_overrun:
  assumes "64 \<le> length message" and "length message \<le> 71" and "0 < poll_rv"
  shows "can_send_message destination message poll_rv written rc = None"
    and "can_recv_message C poll_rv (Some \<lparr>cf_can_id = x, cf_len = y, cf_data = of_nat (length message) # rest\<rparr>) rc = None"
proof -
  have "unat (of_nat (length message) :: u8) = length message" using assms(2) by (simp add: unat_of_nat)
  with assms show "can_recv_message C poll_rv (Some \<lparr>cf_can_id = x, cf_len = y, cf_data = of_nat (length message) # rest\<rparr>) rc = None"
    by (simp add: can_recv_message_def CANFD_MTU_def CANFD_MAX_DLEN_def Let_def)
qed (use assms in \<open>simp add: can_send_message_def CANFD_MTU_def CANFD_MAX_DLEN_def\<close>)

subsection \<open>UDP\<close>

text \<open>\<open>recvfrom\<close>: \<open>None\<close> for an error, otherwise the datagram (cut at the size of the buffer) and where it came from.\<close>

definition udp_recv_message :: "cdr \<Rightarrow> nat \<Rightarrow> int \<Rightarrow> (u8 list \<times> u32 \<times> u16) option \<Rightarrow> TransportRc
    \<Rightarrow> IPv4EndPoint InputPacket option \<times> TransportRc" where
  "udp_recv_message C SERVER_BUFFER_SIZE poll_rv received transport_rc =
     (if 0 < poll_rv
      then case received of
             None \<Rightarrow> (None, Rc_server_error)
           | Some (datagram, addr, port) \<Rightarrow>
               (Some \<lparr>ip_source = IPv4EndPoint addr port, ip_message = InputMessage_new C (take SERVER_BUFFER_SIZE datagram)\<rparr>, transport_rc)
      else (None, if poll_rv = 0 then Rc_timeout_error else Rc_server_error))"

text \<open>\<open>bytes_sent\<close> is what \<open>sendto\<close> returns; the last component is the datagram and its destination.\<close>

definition udp_send_message :: "IPv4EndPoint \<Rightarrow> u8 list \<Rightarrow> int \<Rightarrow> TransportRc \<Rightarrow> bool \<times> TransportRc \<times> u8 list \<times> u32 \<times> u16" where
  "udp_send_message destination message bytes_sent transport_rc =
     (let sent = (message, ipv4_get_addr destination, ipv4_get_port destination)
      in if bytes_sent \<noteq> -1 then (nat bytes_sent = length message, transport_rc, sent)
         else (False, Rc_server_error, sent))"

subsection \<open>Serial lines\<close>

text \<open>
  The device below \<open>write_data\<close> and \<open>read_data\<close>: \<open>poll\<close> with its result and whether it reports an error or a hang-up,
  \<open>read\<close> and \<open>write\<close>.  The state of the port is that of the device and \<open>transport_rc\<close>.
\<close>

record 'k device =
  dev_poll :: "int \<Rightarrow> 'k \<Rightarrow> int \<times> bool \<times> 'k"
  dev_read :: "nat \<Rightarrow> 'k \<Rightarrow> int \<times> u8 list \<times> 'k"
  dev_write :: "u8 list \<Rightarrow> 'k \<Rightarrow> int \<times> 'k"
  dev_clock :: "'k \<Rightarrow> int"

definition serial_write_data :: "'k device \<Rightarrow> u8 list \<Rightarrow> 'k \<times> TransportRc \<Rightarrow> int \<times> 'k \<times> TransportRc" where
  "serial_write_data D buf w =
     (case dev_write D buf (fst w) of
        (bytes_written, k) \<Rightarrow> if 0 < bytes_written then (bytes_written, k, snd w) else (0, k, Rc_server_error))"

definition serial_read_data :: "'k device \<Rightarrow> nat \<Rightarrow> int \<Rightarrow> 'k \<times> TransportRc \<Rightarrow> int \<times> u8 list \<times> 'k \<times> TransportRc" where
  "serial_read_data D len timeout w =
     (case dev_poll D timeout (fst w) of
        (poll_rv, err, k1) \<Rightarrow>
          if err then (0, [], k1, Rc_server_error)
          else if 0 < poll_rv
          then case dev_read D len k1 of
                 (bytes_read, bs, k2) \<Rightarrow> (bytes_read, bs, k2, if bytes_read < 0 then Rc_server_error else snd w)
          else (0, [], k1, if poll_rv = 0 then Rc_timeout_error else Rc_server_error))"

definition serial_port :: "'k device \<Rightarrow> ('k \<times> TransportRc) port" where
  "serial_port D = \<lparr>write_callback = serial_write_data D, read_callback = serial_read_data D, steady_clock = (\<lambda>w. dev_clock D (fst w))\<rparr>"

text \<open>The loop of \<open>recv_message\<close>: until there is a message or the time is up.\<close>

partial_function (option) serial_recv_loop :: "'w port \<Rightarrow> u8 list \<Rightarrow> u8 \<Rightarrow> int \<Rightarrow> FramingIO \<Rightarrow> 'w \<Rightarrow> 'w reader option" where
  "serial_recv_loop P buf remote_addr timeout f w =
     (case read_framed_msg P buf remote_addr timeout f w of
        None \<Rightarrow> None
      | Some r \<Rightarrow> if rd_rv r = 0 \<and> 0 < rd_timeout r
                  then serial_recv_loop P (rd_buf r) (rd_remote_addr r) (rd_timeout r) (rd_io r) (rd_world r)
                  else Some r)"

record serial_agent =
  sa_framing_io :: FramingIO
  sa_buffer :: "u8 list"

definition SerialAgent_new :: "u8 \<Rightarrow> nat \<Rightarrow> serial_agent" where
  "SerialAgent_new addr SERVER_BUFFER_SIZE = \<lparr>sa_framing_io = FramingIO_new addr, sa_buffer = replicate SERVER_BUFFER_SIZE 0\<rparr>"

definition serial_recv_message :: "cdr \<Rightarrow> 'w port \<Rightarrow> int \<Rightarrow> serial_agent \<Rightarrow> 'w
    \<Rightarrow> (SerialEndPoint InputPacket option \<times> serial_agent \<times> 'w) option" where
  "serial_recv_message C P timeout a w =
     (case serial_recv_loop P (sa_buffer a) 0 timeout (sa_framing_io a) w of
        None \<Rightarrow> None
      | Some r \<Rightarrow>
          Some (if 0 < rd_rv r
                then Some \<lparr>ip_source = SerialEndPoint (rd_remote_addr r), ip_message = InputMessage_new C (take (rd_rv r) (rd_buf r))\<rparr>
                else None,
                \<lparr>sa_framing_io = rd_io r, sa_buffer = rd_buf r\<rparr>, rd_world r))"

definition serial_send_message :: "'w port \<Rightarrow> SerialEndPoint \<Rightarrow> u8 list \<Rightarrow> serial_agent \<Rightarrow> 'w \<Rightarrow> (bool \<times> serial_agent \<times> 'w) option" where
  "serial_send_message P destination message a w =
     (case write_framed_msg P message (serial_get_addr destination) (sa_framing_io a) w of
        None \<Rightarrow> None
      | Some (bytes_written, f, w') \<Rightarrow>
          Some (0 < bytes_written \<and> bytes_written = length message, a\<lparr>sa_framing_io := f\<rparr>, w'))"

subsection \<open>A serial line that works\<close>

text \<open>
  A device that works: it takes what is written, reports octets that can be read, and hands out at least one of them.
  On it the callbacks of the transport keep what the framing assumes of its port.
\<close>

locale healthy_device =
  fixes D :: "'k device" and sent :: "'k \<Rightarrow> u8 list" and incoming :: "'k \<Rightarrow> u8 list"
  assumes poll_reports: "dev_poll D t k = (n, err, k') \<Longrightarrow> \<not> err \<and> (incoming k \<noteq> [] \<longrightarrow> 0 < n) \<and> incoming k' = incoming k"
    and read_delivers: "dev_read D m k = (n, bs, k') \<Longrightarrow>
      n = int (length bs) \<and> length bs \<le> m \<and> incoming k = bs @ incoming k' \<and> (0 < m \<and> incoming k \<noteq> [] \<longrightarrow> bs \<noteq> [])"
    and write_takes: "bs \<noteq> [] \<Longrightarrow> dev_write D bs k = (n, k') \<Longrightarrow> n = int (length bs) \<and> sent k' = sent k @ bs"
begin

lemma port_line: "serial_line (serial_port D) (\<lambda>w. incoming (fst w))"
proof
  fix n t w res bs w'
  assume r: "read_callback (serial_port D) n t w = (res, bs, w')"
  obtain m err k1 where p: "dev_poll D t (fst w) = (m, err, k1)" by (metis prod_cases3)
  obtain q cs k2 where d: "dev_read D n k1 = (q, cs, k2)" by (metis prod_cases3)
  note pl = poll_reports [OF p] and rd = read_delivers [OF d]
  show "length bs \<le> n \<and> res \<le> int (length bs) \<and> (bs \<noteq> [] \<longrightarrow> res = int (length bs))"
    using r p d rd by (auto simp: serial_port_def serial_read_data_def split: if_splits)
  show "incoming (fst w) = bs @ incoming (fst w') \<and> (incoming (fst w) \<noteq> [] \<longrightarrow> bs \<noteq> [])" if "0 < n"
    using r p d pl rd that by (auto simp: serial_port_def serial_read_data_def split: if_splits)
qed

lemma port_writer: "full_writer (serial_port D) (\<lambda>w. sent (fst w))"
proof
  fix bs w res w'
  assume "bs \<noteq> []" and "write_callback (serial_port D) bs w = (res, w')"
  then show "res = int (length bs) \<and> sent (fst w') = sent (fst w) @ bs"
    using write_takes [of bs "fst w"] by (auto simp: serial_port_def serial_write_data_def split: prod.splits if_splits)
qed

end

definition wire_device :: "wire device" where
  "wire_device = \<lparr>dev_poll = (\<lambda>t k. (if wire_rx k = [] then 0 else 1, False, k)),
     dev_read = (\<lambda>n k. (int (min n (length (wire_rx k))), take n (wire_rx k), k\<lparr>wire_rx := drop n (wire_rx k)\<rparr>)),
     dev_write = (\<lambda>bs k. (int (length bs), k\<lparr>wire_tx := wire_tx k @ bs\<rparr>)),
     dev_clock = (\<lambda>k. 0)\<rparr>"

interpretation wire_device: healthy_device wire_device wire_tx wire_rx
  by unfold_locales (auto simp: wire_device_def min_def)

text \<open>The agent's object between two messages: nothing of a frame has been read.\<close>

definition serial_ready :: "serial_agent \<Rightarrow> bool" where
  "serial_ready a \<longleftrightarrow> ring_ok (sa_framing_io a) \<and> fr_state (sa_framing_io a) = UXR_FRAMING_UNINITIALIZED"

text \<open>C21: messages over serial lines, through \<open>SerialAgent\<close> on both ends: a message that one agent sends to the
  address of another over a line that works is reported as sent, and the other one, whatever it had received before,
  next yields exactly this message with the address of the sender.\<close>

theorem serial_transport_roundtrip:
  assumes "healthy_device D sent incoming" and "healthy_device D' sent' incoming'"
    and "length (fr_write_buffer (sa_framing_io a)) = 42" and "serial_ready b"
    and "0 < length message" and "length message < 65536" and "length message \<le> length (sa_buffer b)"
    and "serial_send_message (serial_port D) (SerialEndPoint (fr_local_addr (sa_framing_io b))) message a w = Some (ok, a', w')"
    and "sent (fst w) = []" and "pending (sa_framing_io b) @ incoming' (fst v) = sent (fst w')"
  shows "ok \<and> (\<exists>b' v'. serial_recv_message C (serial_port D') timeout b v
      = Some (Some \<lparr>ip_source = SerialEndPoint (fr_local_addr (sa_framing_io a)), ip_message = InputMessage_new C message\<rparr>, b', v')
    \<and> serial_ready b')"
proof -
  let ?fa = "sa_framing_io a" and ?fb = "sa_framing_io b"
  obtain f1 w1 where s: "write_framed_msg (serial_port D) message (fr_local_addr ?fb) ?fa w = Some (length message, f1, w1)"
      "sent (fst w1) = sent (fst w) @ frame (fr_local_addr ?fa) (fr_local_addr ?fb) message"
    using write_framed_msg_sends_frame [OF healthy_device.port_writer [OF assms(1)] assms(3,6)] by blast
  have ok: "ok" "w' = w1" using assms(5,8) s(1) by (auto simp: serial_send_message_def)
  have "pending ?fb @ incoming' (fst v) = frame (fr_local_addr ?fa) (fr_local_addr ?fb) message @ []"
    using assms(9,10) s(2) ok(2) by simp
  from serial_line.read_frame [OF healthy_device.port_line [OF assms(2)] _ _ this assms(6,7), of 0 timeout] assms(4) obtain r where
    r: "read_framed_msg (serial_port D') (sa_buffer b) 0 timeout ?fb v = Some r" "rd_rv r = length message"
      "take (length message) (rd_buf r) = message" "rd_remote_addr r = fr_local_addr ?fa"
      "fr_state (rd_io r) = UXR_FRAMING_UNINITIALIZED" "ring_ok (rd_io r)"
    by (auto simp: serial_ready_def)
  have "serial_recv_loop (serial_port D') (sa_buffer b) 0 timeout ?fb v = Some r"
    using r(1,2) assms(5) by (subst serial_recv_loop.simps) simp
  with r assms(5) ok(1) show ?thesis by (simp add: serial_recv_message_def serial_ready_def)
qed

theorem serial_transport_roundtrip_witness:
  "\<exists>b' v'. serial_recv_message cdr_little (serial_port wire_device) 100 (SerialAgent_new 5 16)
      (\<lparr>wire_rx = frame 9 5 [1, 0x7E, 3], wire_tx = []\<rparr>, Rc_ok)
    = Some (Some \<lparr>ip_source = SerialEndPoint 9, ip_message = InputMessage_new cdr_little [1, 0x7E, 3]\<rparr>, b', v')"
proof -
  let ?w = "(\<lparr>wire_rx = [], wire_tx = []\<rparr>, Rc_ok)"
  obtain f1 w1 where s: "write_framed_msg (serial_port wire_device) [1, 0x7E, 3] 5 (FramingIO_new 9) ?w = Some (3, f1, w1)"
      "wire_tx (fst w1) = frame 9 5 [1, 0x7E, 3]"
    using write_framed_msg_sends_frame [OF wire_device.port_writer, of "FramingIO_new 9" "[1, 0x7E, 3]" 5 ?w]
    by (auto simp: FramingIO_new_def numeral_3_eq_3)
  let ?a = "SerialAgent_new 9 16" and ?b = "SerialAgent_new 5 16"
  have send: "serial_send_message (serial_port wire_device) (SerialEndPoint (fr_local_addr (sa_framing_io ?b))) [1, 0x7E, 3] ?a ?w
      = Some (True, ?a\<lparr>sa_framing_io := f1\<rparr>, w1)"
    using s(1) by (simp add: serial_send_message_def SerialAgent_new_def FramingIO_new_def)
  have ready: "serial_ready ?b" "length (fr_write_buffer (sa_framing_io ?a)) = 42" "pending (sa_framing_io ?b) = []"
      "fr_local_addr (sa_framing_io ?a) = 9" "length [1, 0x7E, 3 :: u8] \<le> length (sa_buffer ?b)"
    by (simp_all add: serial_ready_def SerialAgent_new_def FramingIO_new_def ring_ok_def pending_def ring_count_def)
  from serial_transport_roundtrip [OF wire_device.healthy_device_axioms wire_device.healthy_device_axioms ready(2,1) _ _ ready(5) send,
      of "(\<lparr>wire_rx = frame 9 5 [1, 0x7E, 3], wire_tx = []\<rparr>, Rc_ok)" cdr_little 100] s(2) ready(3,4)
  show ?thesis by auto
qed

subsection \<open>Several serial lines\<close>

text \<open>
  \<open>MultiSerialAgent\<close> (\<open>src/cpp/transport/serial/MultiSerialAgentLinux.cpp\<close>): a framing object for every descriptor, in
  the order of the descriptors, over the devices of the descriptors.  The callbacks get the descriptor as an octet.
  \<open>error_fd\<close> collects the descriptors that the error handler is to restart.
\<close>

record 'k multi_world =
  mw_kernel :: 'k
  mw_transport_rc :: TransportRc
  mw_error_fd :: "u8 list"

definition multi_write_data :: "(u8 \<Rightarrow> 'k device) \<Rightarrow> u8 \<Rightarrow> u8 list \<Rightarrow> 'k multi_world \<Rightarrow> int \<times> 'k multi_world" where
  "multi_write_data D serial_fd buf w =
     (case dev_write (D serial_fd) buf (mw_kernel w) of
        (bytes_written, k) \<Rightarrow>
          if 0 < bytes_written then (bytes_written, w\<lparr>mw_kernel := k\<rparr>)
          else (0, w\<lparr>mw_kernel := k, mw_transport_rc := Rc_server_error, mw_error_fd := mw_error_fd w @ [serial_fd]\<rparr>))"

definition multi_read_data :: "(u8 \<Rightarrow> 'k device) \<Rightarrow> u8 \<Rightarrow> nat \<Rightarrow> int \<Rightarrow> 'k multi_world \<Rightarrow> int \<times> u8 list \<times> 'k multi_world" where
  "multi_read_data D serial_fd len timeout w =
     (case serial_read_data (D serial_fd) len timeout (mw_kernel w, mw_transport_rc w) of
        (bytes_read, bs, k, rc) \<Rightarrow>
          (bytes_read, bs, w\<lparr>mw_kernel := k, mw_transport_rc := rc,
             mw_error_fd := (if rc = Rc_server_error then mw_error_fd w @ [serial_fd] else mw_error_fd w)\<rparr>))"

definition multi_port :: "(u8 \<Rightarrow> 'k device) \<Rightarrow> int \<Rightarrow> 'k multi_world port" where
  "multi_port D serial_fd = (let fd = of_int serial_fd
     in \<lparr>write_callback = multi_write_data D fd, read_callback = multi_read_data D fd, steady_clock = (\<lambda>w. dev_clock (D fd) (mw_kernel w))\<rparr>)"

record multi_agent =
  ma_framing_io :: "(int \<times> FramingIO) list"
  ma_addr :: u8
  ma_buffer :: "u8 list"

definition insert_serial :: "int \<Rightarrow> multi_agent \<Rightarrow> multi_agent" where
  "insert_serial serial_fd a =
     (if serial_fd \<in> fst ` set (ma_framing_io a) then a
      else a\<lparr>ma_framing_io := insort_key fst (serial_fd, FramingIO_new (ma_addr a)) (ma_framing_io a)\<rparr>)"

text \<open>With the result of \<open>close\<close>.\<close>

definition remove_serial :: "bool \<Rightarrow> int \<Rightarrow> multi_agent \<Rightarrow> bool \<times> multi_agent" where
  "remove_serial close_ok serial_fd a = (close_ok, a\<lparr>ma_framing_io := filter (\<lambda>x. fst x \<noteq> serial_fd) (ma_framing_io a)\<rparr>)"

text \<open>The loop over the descriptors: \<open>fds\<close> are those that \<open>select\<close> found ready, \<open>timeout_ms\<close> the time it left.\<close>

fun multi_recv_loop :: "cdr \<Rightarrow> (u8 \<Rightarrow> 'k device) \<Rightarrow> int set \<Rightarrow> int \<Rightarrow> (int \<times> FramingIO) list \<Rightarrow> u8 list \<Rightarrow> 'k multi_world
    \<Rightarrow> (MultiSerialEndPoint InputPacket list \<times> (int \<times> FramingIO) list \<times> u8 list \<times> 'k multi_world) option" where
  "multi_recv_loop C D fds timeout_ms [] buf w = Some ([], [], buf, w)"
| "multi_recv_loop C D fds timeout_ms ((fd, f) # lines) buf w =
     (if fd \<in> fds
      then case serial_recv_loop (multi_port D fd) buf 0 timeout_ms f w of
             None \<Rightarrow> None
           | Some r \<Rightarrow>
               map_option (\<lambda>(packets, lines', buf', w').
                   ((if 0 < rd_rv r
                     then [\<lparr>ip_source = MultiSerialEndPoint fd (rd_remote_addr r), ip_message = InputMessage_new C (take (rd_rv r) (rd_buf r))\<rparr>]
                     else []) @ packets, (fd, rd_io r) # lines', buf', w'))
                 (multi_recv_loop C D fds timeout_ms lines (rd_buf r) (rd_world r))
      else map_option (\<lambda>(packets, lines', buf', w'). (packets, (fd, f) # lines', buf', w'))
             (multi_recv_loop C D fds timeout_ms lines buf w))"

text \<open>\<open>ret\<close> is the result of \<open>select\<close>; without any line the largest descriptor does not exist (\<open>None\<close>).\<close>

definition multi_recv_message :: "cdr \<Rightarrow> (u8 \<Rightarrow> 'k device) \<Rightarrow> int \<Rightarrow> int set \<Rightarrow> int \<Rightarrow> multi_agent \<Rightarrow> 'k multi_world
    \<Rightarrow> (bool \<times> MultiSerialEndPoint InputPacket list \<times> multi_agent \<times> 'k multi_world) option" where
  "multi_recv_message C D ret fds timeout_ms a w =
     (if ma_framing_io a = [] then None
      else if 0 < ret
      then map_option (\<lambda>(packets, lines, buf, w'). (packets \<noteq> [], packets, a\<lparr>ma_framing_io := lines, ma_buffer := buf\<rparr>, w'))
             (multi_recv_loop C D fds timeout_ms (ma_framing_io a) (ma_buffer a) w)
      else Some (False, [], a, w\<lparr>mw_transport_rc := (if ret = 0 then Rc_timeout_error else Rc_server_error)\<rparr>))"

definition multi_send_message :: "(u8 \<Rightarrow> 'k device) \<Rightarrow> MultiSerialEndPoint \<Rightarrow> u8 list \<Rightarrow> multi_agent \<Rightarrow> 'k multi_world
    \<Rightarrow> (bool \<times> multi_agent \<times> 'k multi_world) option" where
  "multi_send_message D destination message a w =
     (let fd = multi_get_fd destination
      in case map_of (ma_framing_io a) fd of
           None \<Rightarrow> Some (False, a, w)
         | Some f \<Rightarrow>
             (case write_framed_msg (multi_port D fd) message (multi_get_addr destination) f w of
                None \<Rightarrow> None
              | Some (bytes_written, f', w') \<Rightarrow>
                  Some (0 < bytes_written \<and> bytes_written = length message,
                        a\<lparr>ma_framing_io := map (\<lambda>x. if fst x = fd then (fd, f') else x) (ma_framing_io a)\<rparr>, w')))"

text \<open>A round of \<open>recv_message\<close> keeps the lines, leaves those alone that are not ready, and yields at most one message of each.\<close>

lemma multi_recv_loop_lines:
  assumes "multi_recv_loop C D fds timeout_ms lines buf w = Some (packets, lines', buf', w')"
  shows "map fst lines' = map fst lines"
    and "\<forall>(x, y) \<in> set (zip lines lines'). fst x \<notin> fds \<longrightarrow> y = x"
    and "subseq (map (\<lambda>p. multi_get_fd (ip_source p)) packets) (filter (\<lambda>fd. fd \<in> fds) (map fst lines))"
proof -
  have "map fst lines' = map fst lines \<and> (\<forall>(x, y) \<in> set (zip lines lines'). fst x \<notin> fds \<longrightarrow> y = x)
      \<and> subseq (map (\<lambda>p. multi_get_fd (ip_source p)) packets) (filter (\<lambda>fd. fd \<in> fds) (map fst lines))"
    using assms
  proof (induction C D fds timeout_ms lines buf w arbitrary: packets lines' rule: multi_recv_loop.induct)
    case (2 C D fds timeout_ms fd f lines buf w)
    then show ?case by (force split: if_splits option.splits)
  qed simp
  then show "map fst lines' = map fst lines" "\<forall>(x, y) \<in> set (zip lines lines'). fst x \<notin> fds \<longrightarrow> y = x"
    "subseq (map (\<lambda>p. multi_get_fd (ip_source p)) packets) (filter (\<lambda>fd. fd \<in> fds) (map fst lines))" by blast+
qed

text \<open>
  \<open>transport_rc\<close> is shared by the lines that are read in one round and a successful read does not reset it, so once
  one line has failed the lines after it are reported as failed, too, although they work.
\<close>

lemma error_spreads_to_healthy_line:
  assumes "dev_poll (D fd) t (mw_kernel w) = (1, False, k)" and "dev_read (D fd) n k = (m, bs, k')" and "0 < m"
    and "mw_transport_rc w = Rc_server_error"
  shows "\<exists>w'. multi_read_data D fd n t w = (m, bs, w') \<and> mw_error_fd w' = mw_error_fd w @ [fd]"
  using assms by (simp add: multi_read_data_def serial_read_data_def)

text \<open>Descriptors that differ by 256 have the same device.\<close>

lemma descriptor_truncated: "multi_port D (fd + 256) = multi_port D fd"
proof -
  have "(of_int (fd + 256) :: u8) = of_int fd + of_int 256" by (rule of_int_add)
  also have "(of_int 256 :: u8) = 0" by (simp add: word_of_int_eq_0_iff)
  finally have "(of_int (fd + 256) :: u8) = of_int fd" by (simp only: add_0_right)
  then show ?thesis unfolding multi_port_def by (simp only:)
qed

end
