(* ===== verification/Discovery.thy ===== *)
theory Discovery
  imports Processor_Contracts Endpoints
begin

text \<open>
  Discovery of agents: \<open>DiscoveryServer\<close> (\<open>include/uxr/agent/transport/discovery/DiscoveryServer.hpp\<close>,
  \<open>src/cpp/transport/discovery/DiscoveryServer.cpp\<close>, \<open>DiscoveryServerLinux.cpp\<close>) and the part of the processor that
  answers its requests.  A request that arrives at the multicast address of the agents is answered with the
  representation of the agent and the addresses under which it can be reached.  What \<open>socket\<close>, \<open>bind\<close>, \<open>poll\<close>,
  \<open>recvfrom\<close> and \<open>sendto\<close> return is an argument; the endpoints are those of IPv4.
\<close>

subsection \<open>Answering a request\<close>

text \<open>\<open>process_get_info_packet\<close> for discovery: \<open>None\<close> is an exception, \<open>Some None\<close> no answer.\<close>

definition process_discovery_packet :: "cdr \<Rightarrow> 'e InputPacket \<Rightarrow> TransportAddress list \<Rightarrow> 'e OutputPacket option option" where
  "process_discovery_packet C input_packet address =
     (case prepare_next_submessage C (ip_message input_packet) of
        (False, _) \<Rightarrow> Some None
      | (True, m) \<Rightarrow>
          if sh_submessage_id (im_subheader m) = 2
          then case get_payload C GET_INFO_Payload_deserialize GET_INFO_Payload_new m of
                 None \<Rightarrow> None
               | Some (_, request, m1) \<Rightarrow>
                   if fst root_get_info = STATUS_OK
                   then case reply_message C (im_header m1) (agent_info (gi_request request) 0 address) of
                          (rv, msg) \<Rightarrow>
                            Some (if rv then Some \<lparr>op_destination = ip_source input_packet, op_message = Some msg\<rparr> else None)
                   else Some None
          else Some None)"

subsection \<open>The server\<close>

record DiscoveryServer =
  ds_running_cond :: bool
  ds_transport_addresses :: "TransportAddress list"
  ds_discovery_port :: u16
  ds_filter_port :: u16
  ds_open :: bool

definition DiscoveryServer_new :: DiscoveryServer where
  "DiscoveryServer_new = \<lparr>ds_running_cond = False, ds_transport_addresses = [], ds_discovery_port = 0, ds_filter_port = 0, ds_open = False\<rparr>"

text \<open>\<open>init\<close> with the results of \<open>socket\<close>, the two calls of \<open>setsockopt\<close> and \<open>bind\<close>.\<close>

definition discovery_init :: "bool \<Rightarrow> bool \<Rightarrow> bool \<Rightarrow> bool \<Rightarrow> u16 \<Rightarrow> DiscoveryServer \<Rightarrow> bool \<times> DiscoveryServer" where
  "discovery_init socket_ok reuse_ok bind_ok multicast_ok discovery_port v =
     (let v1 = v\<lparr>ds_open := socket_ok\<rparr>
      in if socket_ok \<and> reuse_ok \<and> bind_ok \<and> multicast_ok then (True, v1\<lparr>ds_discovery_port := discovery_port\<rparr>)
         else (False, v1))"

definition discovery_run :: "(u16 \<Rightarrow> DiscoveryServer \<Rightarrow> bool \<times> DiscoveryServer) \<Rightarrow> u16 \<Rightarrow> TransportAddress list
    \<Rightarrow> DiscoveryServer \<Rightarrow> bool \<times> DiscoveryServer" where
  "discovery_run init discovery_port transport_addresses v =
     (let v1 = v\<lparr>ds_transport_addresses := transport_addresses\<rparr>
      in if ds_running_cond v1 then (False, v1)
         else case init discovery_port v1 of
                (True, v2) \<Rightarrow> (True, v2\<lparr>ds_running_cond := True\<rparr>)
              | (False, v2) \<Rightarrow> (False, v2))"

text \<open>\<open>stop\<close> and \<open>close\<close>, with the result of the system call.\<close>

definition discovery_stop :: "bool \<Rightarrow> DiscoveryServer \<Rightarrow> bool \<times> DiscoveryServer" where
  "discovery_stop close_ok v =
     (let v1 = v\<lparr>ds_running_cond := False\<rparr>
      in if \<not> ds_open v1 then (True, v1)
         else if close_ok then (True, v1\<lparr>ds_open := False\<rparr>) else (False, v1))"

definition set_filter_port :: "u16 \<Rightarrow> DiscoveryServer \<Rightarrow> DiscoveryServer" where
  "set_filter_port filter_port v = v\<lparr>ds_filter_port := filter_port\<rparr>"

text \<open>On the little-endian hosts of the agent.\<close>

definition htons :: "u16 \<Rightarrow> u16" where
  "htons x = push_bit 8 x OR drop_bit 8 x"

definition addr_octets :: "u32 \<Rightarrow> u8 list" where
  "addr_octets a = [ucast a, ucast (drop_bit 8 a), ucast (drop_bit 16 a), ucast (drop_bit 24 a)]"

definition addr_filtered :: "TransportAddress list \<Rightarrow> u8 list \<Rightarrow> bool" where
  "addr_filtered addresses remote_addr =
     list_ex (\<lambda>a. case a of Medium_locator address port \<Rightarrow> address = remote_addr | _ \<Rightarrow> False) addresses"

text \<open>\<open>datagram\<close>: what \<open>recvfrom\<close> yields, \<open>None\<close> for an error; address and port are in network order.\<close>

definition discovery_recv_message :: "cdr \<Rightarrow> DiscoveryServer \<Rightarrow> int \<Rightarrow> (u8 list \<times> u32 \<times> u16) option \<Rightarrow> IPv4EndPoint InputPacket option" where
  "discovery_recv_message C v poll_rv datagram =
     (if 0 < poll_rv
      then case datagram of
             None \<Rightarrow> None
           | Some (octets, addr, remote_port) \<Rightarrow>
               if octets \<noteq> [] \<and> \<not> (addr_filtered (ds_transport_addresses v) (addr_octets addr) \<and> remote_port = htons (ds_filter_port v))
               then Some \<lparr>ip_source = IPv4EndPoint addr remote_port, ip_message = InputMessage_new C octets\<rparr>
               else None
      else None)"

text \<open>One round of \<open>discovery_loop\<close>: the packet that is handed to \<open>send_message\<close>; \<open>None\<close> is an exception.\<close>

definition discovery_iteration :: "cdr \<Rightarrow> DiscoveryServer \<Rightarrow> int \<Rightarrow> (u8 list \<times> u32 \<times> u16) option \<Rightarrow> IPv4EndPoint OutputPacket option option" where
  "discovery_iteration C v poll_rv datagram =
     (case discovery_recv_message C v poll_rv datagram of
        None \<Rightarrow> Some None
      | Some input_packet \<Rightarrow> process_discovery_packet C input_packet (ds_transport_addresses v))"

subsection \<open>What is answered\<close>

lemma GET_INFO_Payload_periodic: "periodic (GET_INFO_Payload_serialize C x)"
  by (simp add: GET_INFO_Payload_serialize_def BaseObjectRequest_serialize_def periodic_all)

lemma message_header_kept:
  "prepare_next_submessage C m = (ok, r) \<Longrightarrow> im_header r = im_header m"
  "get_payload C d x0 m = Some (ok', x, r) \<Longrightarrow> im_header r = im_header m"
  by (auto simp: prepare_next_submessage_def get_payload_def Let_def split: prod.splits if_splits option.splits cdr_exception.splits)

text \<open>
  A request of a client is answered to it alone, in one message that carries the identifiers of the request, the
  representation of the agent and exactly the addresses the server was started with.
\<close>

theorem discovery_answers_request:
  assumes "cdr_lib C" and "header_ok h" and "mh_session_id h < 128" and "odd (unat fl)"
    and "mh_getCdrSerializedSize h + 4 + length (concat (GET_INFO_Payload_serialize C x 0)) \<le> len"
    and "append_submessage C 2 (payload (GET_INFO_Payload_serialize C x) (GET_INFO_Payload_size x)) fl (OutputMessage_new C h len) = (ok, request)"
    and "list_all TransportAddress_ok (ds_transport_addresses v)"
    and "\<not> (addr_filtered (ds_transport_addresses v) (addr_octets addr) \<and> port = htons (ds_filter_port v))"
  shows "\<exists>msg. discovery_iteration C v 1 (Some (om_bytes request, addr, port)) = Some (Some \<lparr>op_destination = IPv4EndPoint addr port, op_message = Some msg\<rparr>)
    \<and> reply_message C h (agent_info (gi_request x) 0 (ds_transport_addresses v)) = (True, msg)"
proof -
  let ?reply = "agent_info (gi_request x) 0 (ds_transport_addresses v)"
  have ok: "reply_ok ?reply"
    using assms(7) by (simp add: agent_info_def root_get_info_def ObjectVariant_new_def agent_representation_def AGENT_Representation_ok_def
        XRCE_COOKIE_def XRCE_VERSION_def EPROSIMA_VENDOR_ID_def)
  obtain r r' where r: "append_submessage C 2 (payload (GET_INFO_Payload_serialize C x) (GET_INFO_Payload_size x)) fl (OutputMessage_new C h len) = (True, request)"
      "im_header (InputMessage_new C (om_bytes request)) = h" "prepare_next_submessage C (InputMessage_new C (om_bytes request)) = (True, r)"
      "sh_submessage_id (im_subheader r) = 2" "get_payload C GET_INFO_Payload_deserialize GET_INFO_Payload_new r = Some (True, x, r')"
    using cdr_lib.received_payload [where d = GET_INFO_Payload_deserialize and ?x0.0 = GET_INFO_Payload_new and i = 2 and s = "GET_INFO_Payload_size x",
        OF assms(1,2,4) GET_INFO_Payload_periodic cdr_lib.GET_INFO_Payload_codes [OF assms(1)] assms(5)] assms(3,6) by auto
  have "im_header r' = h" using message_header_kept(1) [OF r(3)] message_header_kept(2) [OF r(5)] r(2) by simp
  moreover have "om_bytes request \<noteq> []"
  proof -
    have "take 4 (om_bytes request) \<noteq> []"
      using cdr_lib.append_submessage_bytes [OF assms(1,2), of "payload (GET_INFO_Payload_serialize C x) (GET_INFO_Payload_size x)" len 2 fl]
        cdr_lib.mh_serialize_length [OF assms(1,2)] assms(3,5,6) by (auto simp: payload_def mh_size simp del: concat_eq_Nil_conv)
    then show ?thesis by auto
  qed
  moreover have "fst (reply_message C h ?reply)"
    using cdr_lib.append_submessage_bytes [OF assms(1,2)] cdr_lib.reply_sized [OF assms(1) ok]
    by (simp add: reply_message_def reply_submessage_def payload_def sized_def del: length_concat)
  then obtain msg where "reply_message C h ?reply = (True, msg)" by (metis (full_types) prod.collapse)
  ultimately show ?thesis using r assms(8)
    by (auto simp: discovery_iteration_def discovery_recv_message_def process_discovery_packet_def root_get_info_def)
qed

text \<open>A packet of the agent itself, from one of its addresses and the filtered port, gets no answer, whatever it holds.\<close>

lemma discovery_ignores_own:
  assumes "Medium_locator (addr_octets addr) p \<in> set (ds_transport_addresses v)" and "port = htons (ds_filter_port v)"
  shows "discovery_iteration C v poll_rv (Some (octets, addr, port)) = Some None"
proof -
  have "addr_filtered (ds_transport_addresses v) (addr_octets addr)"
    using assms(1) unfolding addr_filtered_def list_ex_iff by force
  then show ?thesis using assms(2) by (simp add: discovery_iteration_def discovery_recv_message_def)
qed

end
