(* ===== verification/Spec2Isabelle.thy ===== *)
theory Spec2Isabelle
  imports Position_Cmd Servo_Dynamixel Servo_Gz Mocap Framing_Reader Agent_Heartbeat TCP_Agent Agent_Transports Discovery
begin

text \<open>
  A verification library of the hummingbird flight stack.

  \<^bold>\<open>The program.\<close>  The repository is a ROS 2 workspace.  Its own packages are
  \<open>src/src/px4_hummingbird_cmd\<close> (a node that commands position, attitude and demonstration paths to the PX4
  autopilot, and two nodes that bring the autopilot's servo commands to Dynamixel servos and to Gazebo) and
  \<open>src/src/px4_hummingbird_opti\<close> (a node that turns motion-capture poses into odometry for PX4).  The autopilot
  talks to these nodes through \<open>src/Micro-XRCE-DDS-Agent\<close>, which is part of the workspace: a server that
  receives packets from clients over a transport, keeps a session with reliable and best-effort streams for each
  client, creates the DDS objects a client asks for in a middleware, and moves samples between the two.

  The theories follow these parts.  Names of definitions are those of the source (a prefix or suffix where HOL or another
  class has the name already); record fields are the members of the class, with a prefix per class.

  \<^bold>\<open>Flight nodes.\<close>
  \<^item> \<open>Prelude\<close>: machine integers, vectors, IEEE values where the code tells non-finite ones apart, the C library
    functions the nodes call, and the lemma collections.  Finite floating-point values are real numbers.
  \<^item> \<open>Params\<close> (\<open>include/params.hpp\<close>): the constants and the servo table.
  \<^item> \<open>Flight_Utils\<close> (\<open>include/utils.hpp\<close>): low-pass filter, hand-over filters, attitude conversions and the five
    command paths.  Eigen is the record \<open>eigen\<close> with the laws of the locale \<open>eigen_lib\<close>; \<open>smoothing_filter\<close> and
    \<open>bounded_path\<close> are the contracts the node relies on, interpreted for the filter and for every path.
  \<^item> \<open>Position_Cmd\<close> (\<open>src/px4_position_cmd.cpp\<close>): the node's fields as a record, each callback, each control mode
    and the 400 Hz tick; the reachable states are an inductive set.  Setpoints leave the node only under a fresh
    DDS authority (status messages at most a second old), its loss is followed by one hand-back to the autopilot, path following starts after the initial
    pose was reached, and the setpoints of all paths stay in a box around it.
  \<^item> \<open>Servo_Dynamixel\<close> (\<open>src/px4_servo_to_dynamixel.cpp\<close>): construction, initialisation register by register,
    callbacks, SyncWrite, recovery and shutdown over the Dynamixel SDK (record \<open>dxl_sdk\<close>, locales \<open>dxl_macros\<close> and
    \<open>healthy_bus\<close>), with a trace of all bus accesses.  The order of the initialisation, the range of the goals, what
    a running driver never touches, and the return to neutral when messages stay away, up to the calls of the bus.
  \<^item> \<open>Servo_Gz\<close> (\<open>src/px4_servo_to_gz.cpp\<close>): every published value is within its joint's limit.
  \<^item> \<open>Mocap\<close> (\<open>px4_hummingbird_opti\<close>): frame conversion, acceptance of samples and publication; what is published
    is a fresh and once-only subsequence of the accepted samples.

  \<^bold>\<open>Agent: messages, streams, sessions\<close> (paths below \<open>src/Micro-XRCE-DDS-Agent\<close>).
  \<^item> \<open>Seq_Num\<close> (\<open>utils/SeqNum.hpp\<close>): serial numbers modulo \<open>2 ^ 16\<close>; the locale \<open>serial_numbers\<close> is what the streams use.
  \<^item> \<open>XRCE_Message\<close> (\<open>message/OutputMessage.hpp\<close>, \<open>InputMessage.hpp\<close>, the two headers), \<open>Cdr_Codec\<close> (how the
    generated code composes Fast-CDR operations; Fast-CDR is the record \<open>cdr\<close> with the locale \<open>cdr_lib\<close>, and the two
    headers use its operations that name the little-endian order, whatever the order of the payloads), \<open>XRCE_Types\<close>
    and \<open>XRCE_Payloads\<close> (\<open>types/XRCETypes.cpp\<close>): each type with its size, writer and reader; reading inverts
    writing and sizes are exact, or the lemma says by how much the source is off.
  \<^item> \<open>Input_Stream\<close>, \<open>Output_Stream\<close>, \<open>XRCE_Session\<close> (\<open>client/session\<close>): in-order and once-only delivery across the
    wrap-around, windows that hold exactly the unacknowledged messages, fragmentation and reassembly.
  \<^item> \<open>Stream_Framing\<close> and \<open>Framing_Reader\<close> (\<open>transport/stream_framing\<close>): the framing of serial lines; the
    table-driven CRC is the bitwise one, frames that are written are read back, a delivered message has been
    checked, and the reader returns on every finite input.  The locales \<open>full_writer\<close>, \<open>read_port\<close>, \<open>serial_line\<close>
    state what is assumed of the line.
  \<^item> \<open>TCP_Framing\<close> and \<open>TCP_Agent\<close> (\<open>transport/tcp\<close>): messages over a stream of octets and the table of
    connections.  A specification \<open>tcp_parse\<close> cuts a stream into messages; the input buffer's state machine is a
    refinement of it for every cut of the stream, which gives the round trip and the messages of each peer.  The table
    is exact (\<open>table_ok\<close>) until the error handler restarts the transport; what holds of it afterwards is \<open>table_valid\<close>.
  \<^item> \<open>Endpoints\<close>, \<open>Agent_Transports\<close> (\<open>transport/endpoint\<close>, \<open>can\<close>, \<open>udp\<close>, \<open>serial\<close>): the keys of the transports and
    their orders, for which the locale \<open>map_key\<close> says when a \<open>std::map\<close> can be read as a function, and the transports
    with one system call or one frame per message; the locale \<open>healthy_device\<close> is a serial line that works.
  \<^item> \<open>Discovery\<close> (\<open>transport/discovery\<close>): the server that answers requests for the addresses of the agent.
  \<^item> \<open>Session_Manager\<close>, \<open>Packet_Scheduler\<close>, \<open>Agent_Server\<close> (\<open>transport/SessionManager.hpp\<close>,
    \<open>scheduler/PacketScheduler.hpp\<close>, \<open>transport/Server.cpp\<close>): the directory of sessions, the queues between the
    threads as bounded queues per priority, and the bodies of the threads' loops.

  \<^bold>\<open>Agent: clients, objects, data.\<close>
  \<^item> \<open>Middleware\<close>, \<open>Ced_Topic\<close>, \<open>Ced_Middleware\<close>, \<open>Ced_Process\<close> (\<open>middleware\<close>): the interface as a record and the
    locale \<open>dds_middleware\<close>, interpreted by the built-in middleware; topics with their history, shared pointers as an
    explicit heap, and the process-wide registry.
  \<^item> \<open>Proxy_Client\<close> (\<open>client/ProxyClient.cpp\<close> and the object classes): creation, matching and deletion of objects,
    reading and writing, liveliness.  The creation table of the specification holds on every branch, and objects and
    middleware entities agree throughout.
  \<^item> \<open>Ordered_Map\<close>, \<open>Agent_Root\<close> (\<open>Root.cpp\<close>): the directory of clients and the iterator of the heartbeat thread.
  \<^item> \<open>Reader_Task\<close> (\<open>reader/Reader.hpp\<close>, \<open>utils/TokenBucket.hpp\<close>): the reading threads and their rate control, which
    bounds what is sent in every period of a run.
  \<^item> \<open>Agent_Processor\<close> (\<open>processor/Processor.cpp\<close>): every submessage of a packet and the callback of the reading
    threads; \<open>Processor_Isolation\<close> (what a packet can change), \<open>Processor_Progress\<close> and \<open>Processor_Termination\<close> (its
    processing ends whatever it contains, if its client asked for an MTU with room for the headers and an octet),
    \<open>Processor_Contracts\<close> (isolation of clients, termination, acknowledgement, admission), \<open>Agent_Heartbeat\<close> (the
    passes of the heartbeat thread, and the pings and the removal of clients that do not answer).

  \<^bold>\<open>How the parts interact.\<close>  A transport (\<open>TCP_Agent\<close>, \<open>Agent_Transports\<close>) yields packets; the receiver's loop of
  \<open>Agent_Server\<close> queues them in the scheduler; the processing loop hands them to \<open>process_input_packet\<close>, whose state
  \<open>agent\<close> holds the directory of clients, the directory of sessions and the output queue; it works on a \<open>ProxyClient\<close>,
  which holds the session with its streams and the objects over a middleware; answers go to the output queue, from which
  the sender's loop gives them to the transport.  Reading threads and the heartbeat thread work on the same state.
  Operations that hold a mutex are single steps; interleavings are sequences of steps (\<open>proxy_run\<close>, \<open>root_run\<close>,
  \<open>ced_process\<close>, \<open>tcp_run\<close>, \<open>tcp_life\<close>, \<open>server_input_run\<close>, \<open>sched_run\<close>).

  \<^bold>\<open>Results and loops.\<close>  Exceptions, undefined behaviour and loops that may run for ever are \<open>None\<close>.  From
  \<open>push_submessage\<close> of a reliable stream up to \<open>process_input_packet\<close> the two are told apart: the result is an option of
  an option, \<open>None\<close> when the call does not return, \<open>Some None\<close> when an exception leaves it that nobody catches (or
  memory is read beyond a buffer), and \<open>Some (Some x)\<close> when it returns \<open>x\<close>.  Structural
  loops are \<open>fun\<close>, those bounded by a measure \<open>function\<close>; the loops whose end depends on the data or the environment are
  \<open>partial_function (option)\<close>: fragmentation (\<open>fragment_loop\<close>: ends for an MTU with room for a payload and a
  message that fits 16 bits; for an MTU of exactly the headers it does not, \<open>reliable_push_small_mtu\<close>), the octet loops of the framing (\<open>read_loop\<close>: ends on every finite input), the loops over
  submessages and stream messages (end for every packet of a client with a usable MTU) and over the clients (end since the iterator moves forward in key
  order), and the loop of a serial transport around the framing (\<open>serial_recv_loop\<close>: returns once a
  frame has arrived; without one its end rests on the clock).  No definition takes fuel; the sixteen attempts of
  \<open>send_size\<close> and \<open>send_octets\<close> are those of the source.

  \<^bold>\<open>Not modelled.\<close>  Wiring of the ROS nodes and log lines.  The Fast DDS adapters (\<open>middleware/fastdds\<close>): every
  function of theirs is a call into a library that is not in the repository.  Opening and closing of
  UDP and CAN sockets and of serial ports, the transport with callbacks of the user, and the Windows variants: system
  calls and foreign callbacks around the parts above.  Peer-to-peer, which runs the XRCE client library inside the
  agent.  The command line, the in-process API and logging.  In \<open>XRCETypes\<close> the accessors of the generated classes and the types of the data formats no part of
  the agent uses.  \<open>libmotioncapture\<close>, vendored clients of vendor protocols with their dependencies.  Rounding of
  floating-point arithmetic.
\<close>

end
